(* ===== verification/Js_Prelude.thy ===== *)
theory Js_Prelude
  imports Main "HOL-Library.List_Lexorder" "HOL-Library.Char_ord" "HOL-Library.Multiset"
begin

text \<open>
  What the frontend uses of JavaScript, shared by every component theory.

  A JavaScript string is a list of characters here. A \<open>char\<close> stands for one UTF-16 code
  unit below 256, so a string is any Latin-1 text; no definition of the development depends on
  a code unit above that range. The default array sort compares code units, which is the
  lexicographic order of \<open>HOL-Library.List_Lexorder\<close> over \<open>HOL-Library.Char_ord\<close>.

  The theory holds string helpers (\<open>trim\<close>, lower case, prefixes), the array operations
  that keep the first of repeated values, the stable comparator sort with its interface
  \<open>comparator\<close>, and the ordered multimap \<open>URLSearchParams\<close> keeps.
\<close>

named_theorems params_simps \<open>reading parameters back from a query\<close>
named_theorems order_intros \<open>facts that a comparator sort orders its result\<close>

type_synonym jsstring = string

section \<open>Strings\<close>

text \<open>White space as \<open>String.prototype.trim\<close> strips it, among the code units below 256.\<close>

definition js_space :: "char \<Rightarrow> bool" where
  "js_space c \<longleftrightarrow> of_char c \<in> {9, 10, 11, 12, 13, 32, 160 :: nat}"

definition js_trim :: "jsstring \<Rightarrow> jsstring" where
  "js_trim s = rev (dropWhile js_space (rev (dropWhile js_space s)))"

text \<open>\<open>toLowerCase\<close>: the ASCII capitals and the accented Latin-1 ones (not the multiplication
  sign at 215).\<close>

definition lower_char :: "char \<Rightarrow> char" where
  "lower_char c = (let n = of_char c :: nat in
     if 65 \<le> n \<and> n \<le> 90 \<or> 192 \<le> n \<and> n \<le> 222 \<and> n \<noteq> 215 then char_of (n + 32) else c)"

definition js_lower :: "jsstring \<Rightarrow> jsstring" where
  "js_lower = map lower_char"

definition starts_with :: "jsstring \<Rightarrow> jsstring \<Rightarrow> bool" where
  "starts_with s p \<longleftrightarrow> take (length p) s = p"

definition ends_with :: "jsstring \<Rightarrow> jsstring \<Rightarrow> bool" where
  "ends_with s p \<longleftrightarrow> starts_with (rev s) (rev p)"

lemma starts_with_append [simp]: "starts_with (p @ s) p"
  by (simp add: starts_with_def)

lemma starts_withE:
  assumes "starts_with s p"
  obtains r where "s = p @ r"
  using assms by (metis append_take_drop_id starts_with_def)

lemma starts_with_iff: "starts_with s p \<longleftrightarrow> (\<exists>r. s = p @ r)"
  by (auto elim: starts_withE)

lemma ends_with_iff: "ends_with s p \<longleftrightarrow> (\<exists>r. s = r @ p)"
  unfolding ends_with_def starts_with_iff by (metis rev_append rev_rev_ident)

lemma js_trim_Nil [simp]: "js_trim [] = []"
  by (simp add: js_trim_def)

lemma dropWhile_eq_self: "xs = [] \<or> \<not> P (hd xs) \<Longrightarrow> dropWhile P xs = xs"
  by (cases xs) auto

lemma last_js_trim:
  assumes "js_trim s \<noteq> []"
  shows "\<not> js_space (last (js_trim s))"
proof -
  let ?u = "dropWhile js_space (rev (dropWhile js_space s))"
  have "?u \<noteq> []"
    using assms unfolding js_trim_def by blast
  then show ?thesis
    unfolding js_trim_def last_rev by (rule hd_dropWhile)
qed

lemma hd_dropWhile_suffix:
  "ys \<noteq> [] \<Longrightarrow> dropWhile P (rev xs) = rev ys \<Longrightarrow> hd ys = hd xs"
  by (metis append_is_Nil_conv hd_append2 rev_append rev_is_Nil_conv rev_rev_ident takeWhile_dropWhile_id)

lemma hd_js_trim:
  assumes "js_trim s \<noteq> []"
  shows "\<not> js_space (hd (js_trim s))"
proof -
  let ?t = "dropWhile js_space s"
  have "hd (js_trim s) = hd ?t"
    using assms unfolding js_trim_def by (intro hd_dropWhile_suffix) auto
  moreover have "?t \<noteq> []"
    using assms unfolding js_trim_def by force
  ultimately show ?thesis
    using hd_dropWhile by metis
qed

lemma js_trim_idem [simp]: "js_trim (js_trim s) = js_trim s"
proof (cases "js_trim s = []")
  case False
  let ?t = "js_trim s"
  have "dropWhile js_space ?t = ?t"
    using False hd_js_trim by (intro dropWhile_eq_self) auto
  moreover have "dropWhile js_space (rev ?t) = rev ?t"
    using False last_js_trim by (intro dropWhile_eq_self) (auto simp: hd_rev)
  ultimately show ?thesis
    by (metis js_trim_def rev_rev_ident)
qed simp

lemma set_js_trim: "set (js_trim s) \<subseteq> set s"
  unfolding js_trim_def by (auto dest!: set_dropWhileD)

lemma js_trim_no_space: "\<forall>c \<in> set s. \<not> js_space c \<Longrightarrow> js_trim s = s"
  unfolding js_trim_def
  by (metis dropWhile_eq_self hd_in_set rev_rev_ident set_rev)

section \<open>Arrays\<close>

text \<open>The members of \<open>new Set(xs)\<close> in insertion order: the first of repeated values stays.\<close>

definition uniq :: "'a list \<Rightarrow> 'a list" where
  "uniq xs = rev (remdups (rev xs))"

lemma set_uniq [simp]: "set (uniq xs) = set xs"
  by (simp add: uniq_def)

lemma distinct_uniq [simp]: "distinct (uniq xs)"
  by (simp add: uniq_def)

lemma uniq_Nil [simp]: "uniq [] = []"
  by (simp add: uniq_def)

lemma uniq_eq_Nil [simp]: "uniq xs = [] \<longleftrightarrow> xs = []"
  by (metis set_empty set_uniq)

lemma uniq_distinct: "distinct xs \<Longrightarrow> uniq xs = xs"
  by (simp add: uniq_def distinct_remdups_id)

lemma uniq_snoc: "uniq (xs @ [x]) = (if x \<in> set xs then uniq xs else uniq xs @ [x])"
  by (simp add: uniq_def)

lemma uniq_Cons: "uniq (x # xs) = x # uniq (filter (\<lambda>y. y \<noteq> x) xs)"
proof (induction xs rule: rev_induct)
  case Nil
  show ?case by (simp add: uniq_def)
next
  case (snoc y ys)
  then show ?case using uniq_snoc [of "x # ys" y] by (auto simp: uniq_snoc)
qed

lemma length_dropWhile_le: "length (dropWhile P xs) \<le> length xs"
  by (induction xs) auto

lemma length_js_trim: "length (js_trim s) \<le> length s"
  unfolding js_trim_def length_rev
  by (rule le_trans [OF length_dropWhile_le]) (simp add: length_dropWhile_le)

text \<open>\<open>xs.join(sep)\<close>\<close>

fun js_join :: "jsstring \<Rightarrow> jsstring list \<Rightarrow> jsstring" where
  "js_join sep [] = []"
| "js_join sep [x] = x"
| "js_join sep (x # y # ys) = x @ sep @ js_join sep (y # ys)"

text \<open>\<open>xs.find(p)\<close> is \<open>List.find\<close>; \<open>xs.findIndex(p)\<close> with its miss as \<open>None\<close>.\<close>

fun find_index :: "('a \<Rightarrow> bool) \<Rightarrow> 'a list \<Rightarrow> nat option" where
  "find_index p [] = None"
| "find_index p (x # xs) = (if p x then Some 0 else map_option Suc (find_index p xs))"

lemma find_index_None [simp]: "find_index p xs = None \<longleftrightarrow> (\<forall>x \<in> set xs. \<not> p x)"
  by (induction xs) auto

lemma find_index_Some:
  "find_index p xs = Some i \<Longrightarrow> i < length xs \<and> p (xs ! i) \<and> (\<forall>j < i. \<not> p (xs ! j))"
proof (induction xs arbitrary: i)
  case (Cons x xs)
  then show ?case
    by (cases i) (auto simp: nth_Cons split: if_splits nat.splits)
qed simp

section \<open>The comparator sort\<close>

text \<open>
  \<open>Array.prototype.sort\<close> is stable: with a consistent comparator its result is the one
  sorted permutation that keeps equal elements in their order, which insertion computes.
\<close>

fun insert_by :: "('a \<Rightarrow> 'a \<Rightarrow> int) \<Rightarrow> 'a \<Rightarrow> 'a list \<Rightarrow> 'a list" where
  "insert_by cmp x [] = [x]"
| "insert_by cmp x (y # ys) = (if cmp x y \<le> 0 then x # y # ys else y # insert_by cmp x ys)"

definition sort_by :: "('a \<Rightarrow> 'a \<Rightarrow> int) \<Rightarrow> 'a list \<Rightarrow> 'a list" where
  "sort_by cmp xs = foldr (insert_by cmp) xs []"

lemma mset_insert_by [simp]: "mset (insert_by cmp x ys) = add_mset x (mset ys)"
  by (induction ys) auto

lemma mset_sort_by [simp]: "mset (sort_by cmp xs) = mset xs"
  by (induction xs) (auto simp: sort_by_def)

lemma set_sort_by [simp]: "set (sort_by cmp xs) = set xs"
  by (metis mset_sort_by set_mset_mset)

lemma length_sort_by [simp]: "length (sort_by cmp xs) = length xs"
  by (metis mset_sort_by size_mset)

lemma sort_by_Nil [simp]: "sort_by cmp [] = []"
  by (simp add: sort_by_def)

lemma sort_by_Cons: "sort_by cmp (x # xs) = insert_by cmp x (sort_by cmp xs)"
  by (simp add: sort_by_def)

text \<open>What every comparator handed to a sort promises: a total preorder.\<close>

locale comparator =
  fixes cmp :: "'a \<Rightarrow> 'a \<Rightarrow> int"
  assumes cmp_total: "cmp x y \<le> 0 \<or> cmp y x \<le> 0"
    and cmp_trans: "cmp x y \<le> 0 \<Longrightarrow> cmp y z \<le> 0 \<Longrightarrow> cmp x z \<le> 0"
begin

lemma sorted_insert_by:
  "sorted_wrt (\<lambda>a b. cmp a b \<le> 0) ys \<Longrightarrow> sorted_wrt (\<lambda>a b. cmp a b \<le> 0) (insert_by cmp x ys)"
proof (induction ys)
  case (Cons y ys)
  show ?case
  proof (cases "cmp x y \<le> 0")
    case True
    with Cons.prems show ?thesis by (auto intro: cmp_trans)
  next
    case False
    with cmp_total have "cmp y x \<le> 0" by blast
    moreover have "set (insert_by cmp x ys) = insert x (set ys)"
      by (metis mset_insert_by set_mset_add_mset_insert set_mset_mset)
    ultimately show ?thesis
      using False Cons by auto
  qed
qed simp

lemma sorted_sort_by: "sorted_wrt (\<lambda>a b. cmp a b \<le> 0) (sort_by cmp xs)"
  by (induction xs) (auto simp: sort_by_Cons intro: sorted_insert_by)

lemma sort_by_sorted: "sorted_wrt (\<lambda>a b. cmp a b \<le> 0) xs \<Longrightarrow> sort_by cmp xs = xs"
proof (induction xs)
  case (Cons x xs)
  then have "sort_by cmp xs = xs" by simp
  with Cons.prems show ?case
    by (cases xs) (auto simp: sort_by_Cons)
qed simp

lemma sort_by_idem: "sort_by cmp (sort_by cmp xs) = sort_by cmp xs"
  by (rule sort_by_sorted) (rule sorted_sort_by)

end

text \<open>A comparator that compares a key: the sort is the library's stable \<open>sort_key\<close>.\<close>

locale key_comparator =
  fixes key :: "'a \<Rightarrow> 'b::linorder" and cmp :: "'a \<Rightarrow> 'a \<Rightarrow> int"
  assumes cmp_key: "cmp x y \<le> 0 \<longleftrightarrow> key x \<le> key y"

sublocale key_comparator \<subseteq> comparator cmp
  by unfold_locales (auto simp: cmp_key)

context key_comparator
begin

lemma insert_by_insort: "insert_by cmp x ys = insort_key key x ys"
  by (induction ys) (auto simp: cmp_key)

lemma sort_by_sort_key: "sort_by cmp xs = sort_key key xs"
  by (induction xs) (simp_all add: sort_by_Cons insert_by_insort)

end

text \<open>The comparator \<open>(a, b) => a < b ? -1 : a > b ? 1 : 0\<close> on a key, and the default sort.\<close>

definition compare_on :: "('a \<Rightarrow> 'b::linorder) \<Rightarrow> 'a \<Rightarrow> 'a \<Rightarrow> int" where
  "compare_on f a b = (if f a < f b then -1 else if f a > f b then 1 else 0)"

interpretation on_key: key_comparator f "compare_on f" for f :: "'a \<Rightarrow> 'b::linorder"
  by unfold_locales (auto simp: compare_on_def)

definition js_sort :: "jsstring list \<Rightarrow> jsstring list" where
  "js_sort = sort_by (compare_on (\<lambda>s. s))"

lemma js_sort_eq: "js_sort xs = sort xs"
  by (simp add: js_sort_def on_key.sort_by_sort_key)

lemma sorted_js_sort [simp]: "sorted (js_sort xs)"
  by (simp add: js_sort_eq)

lemma mset_js_sort [simp]: "mset (js_sort xs) = mset xs"
  by (simp add: js_sort_eq)

lemma js_sort_eq_iff: "js_sort xs = js_sort ys \<longleftrightarrow> mset xs = mset ys"
  by (metis js_sort_eq mset_sort properties_for_sort sorted_sort)

section \<open>URLSearchParams\<close>

text \<open>
  The list of name and value pairs a \<open>URLSearchParams\<close> holds, in order. \<open>set\<close> overwrites
  the first pair of the name, drops the others, and appends where there is none.
\<close>

type_synonym params = "(jsstring \<times> jsstring) list"

definition params_append :: "params \<Rightarrow> jsstring \<Rightarrow> jsstring \<Rightarrow> params" where
  "params_append ps k v = ps @ [(k, v)]"

fun params_set :: "params \<Rightarrow> jsstring \<Rightarrow> jsstring \<Rightarrow> params" where
  "params_set [] k v = [(k, v)]"
| "params_set (p # ps) k v =
     (if fst p = k then (k, v) # filter (\<lambda>q. fst q \<noteq> k) ps else p # params_set ps k v)"

definition params_get :: "params \<Rightarrow> jsstring \<Rightarrow> jsstring option" where
  "params_get ps k = map_of ps k"

definition params_get_all :: "params \<Rightarrow> jsstring \<Rightarrow> jsstring list" where
  "params_get_all ps k = map snd (filter (\<lambda>p. fst p = k) ps)"

definition params_append_all :: "params \<Rightarrow> jsstring \<Rightarrow> jsstring list \<Rightarrow> params" where
  "params_append_all ps k vs = foldl (\<lambda>ps v. params_append ps k v) ps vs"

lemma get_all_Nil [params_simps]: "params_get_all [] k = []"
  by (simp add: params_get_all_def)

lemma get_Nil [params_simps]: "params_get [] k = None"
  by (simp add: params_get_def)

lemma get_all_append [params_simps]:
  "params_get_all (params_append ps j v) k = params_get_all ps k @ (if j = k then [v] else [])"
  by (simp add: params_get_all_def params_append_def)

lemma get_append [params_simps]:
  "params_get (params_append ps j v) k =
     (case params_get ps k of Some w \<Rightarrow> Some w | None \<Rightarrow> if j = k then Some v else None)"
  by (auto simp: params_get_def params_append_def map_add_def split: option.splits)

lemma get_all_set [params_simps]:
  "params_get_all (params_set ps j v) k = (if j = k then [v] else params_get_all ps k)"
proof (induction ps)
  case (Cons p ps)
  have "filter (\<lambda>q. fst q = k) (filter (\<lambda>q. fst q \<noteq> j) ps) =
      (if j = k then [] else filter (\<lambda>q. fst q = k) ps)"
    by (auto simp: filter_empty_conv intro: filter_cong)
  with Cons show ?case
    by (auto simp: params_get_all_def)
qed (auto simp: params_get_all_def)

lemma get_eq_get_all: "params_get ps k = (case params_get_all ps k of [] \<Rightarrow> None | v # _ \<Rightarrow> Some v)"
  by (induction ps) (auto simp: params_get_def params_get_all_def)

lemma get_set [params_simps]:
  "params_get (params_set ps j v) k = (if j = k then Some v else params_get ps k)"
  by (simp add: get_eq_get_all get_all_set)

lemma get_all_append_all [params_simps]:
  "params_get_all (params_append_all ps j vs) k = params_get_all ps k @ (if j = k then vs else [])"
  unfolding params_append_all_def
  by (induction vs arbitrary: ps) (auto simp: params_simps)

lemma get_append_all [params_simps]:
  "params_get (params_append_all ps j vs) k =
     (case params_get ps k of Some w \<Rightarrow> Some w
      | None \<Rightarrow> if j = k \<and> vs \<noteq> [] then Some (hd vs) else None)"
  by (simp add: get_eq_get_all get_all_append_all split: list.splits)

declare params_set.simps [simp del]

end
