(* ===== verification/Js_Regex.thy ===== *)
theory Js_Regex
  imports Js_Prelude
begin

text \<open>
  The regular expressions the frontend tests strings with. A pattern of the source is a value
  of \<open>rx\<close>; \<open>rx_match\<close> decides whether the whole string is in its language, by
  derivatives, so it evaluates on a concrete string. A pattern anchored at its start only is
  written with \<open>RAny\<close> at its end. The theory proves that the matcher decides the language
  \<open>rx_lang\<close> and gives the membership facts of the character classes and the bounded
  repetitions the patterns use.
\<close>

named_theorems rx_lang_simps \<open>membership in the language of a pattern\<close>

datatype rx =
    RNone
  | REps
  | RCls "char \<Rightarrow> bool"
  | RSeq rx rx
  | RAlt rx rx
  | RStar rx

primrec rx_lang :: "rx \<Rightarrow> jsstring set" where
  "rx_lang RNone = {}"
| "rx_lang REps = {[]}"
| "rx_lang (RCls p) = {[c] | c. p c}"
| "rx_lang (RSeq r s) = {u @ v | u v. u \<in> rx_lang r \<and> v \<in> rx_lang s}"
| "rx_lang (RAlt r s) = rx_lang r \<union> rx_lang s"
| "rx_lang (RStar r) = {concat us | us. set us \<subseteq> rx_lang r}"

primrec rx_nullable :: "rx \<Rightarrow> bool" where
  "rx_nullable RNone = False"
| "rx_nullable REps = True"
| "rx_nullable (RCls p) = False"
| "rx_nullable (RSeq r s) = (rx_nullable r \<and> rx_nullable s)"
| "rx_nullable (RAlt r s) = (rx_nullable r \<or> rx_nullable s)"
| "rx_nullable (RStar r) = True"

primrec rx_deriv :: "char \<Rightarrow> rx \<Rightarrow> rx" where
  "rx_deriv c RNone = RNone"
| "rx_deriv c REps = RNone"
| "rx_deriv c (RCls p) = (if p c then REps else RNone)"
| "rx_deriv c (RSeq r s) =
     (if rx_nullable r then RAlt (RSeq (rx_deriv c r) s) (rx_deriv c s)
      else RSeq (rx_deriv c r) s)"
| "rx_deriv c (RAlt r s) = RAlt (rx_deriv c r) (rx_deriv c s)"
| "rx_deriv c (RStar r) = RSeq (rx_deriv c r) (RStar r)"

fun rx_match :: "rx \<Rightarrow> jsstring \<Rightarrow> bool" where
  "rx_match r [] = rx_nullable r"
| "rx_match r (c # cs) = rx_match (rx_deriv c r) cs"

lemma rx_nullable_iff: "rx_nullable r \<longleftrightarrow> [] \<in> rx_lang r"
proof (induction r)
  case (RStar r)
  have "[] = concat [] \<and> set [] \<subseteq> rx_lang r" by simp
  then show ?case unfolding rx_lang.simps rx_nullable.simps by blast
qed auto

lemma star_Cons_iff:
  "c # cs \<in> rx_lang (RStar r) \<longleftrightarrow>
     (\<exists>u v. cs = u @ v \<and> c # u \<in> rx_lang r \<and> v \<in> rx_lang (RStar r))"
proof
  assume "c # cs \<in> rx_lang (RStar r)"
  then obtain us where us: "c # cs = concat us" "set us \<subseteq> rx_lang r" by auto
  then show "\<exists>u v. cs = u @ v \<and> c # u \<in> rx_lang r \<and> v \<in> rx_lang (RStar r)"
  proof (induction us)
    case (Cons w ws)
    show ?case
    proof (cases w)
      case Nil
      with Cons show ?thesis by simp
    next
      case (Cons d u)
      with Cons.prems have "cs = u @ concat ws" "c # u \<in> rx_lang r" "set ws \<subseteq> rx_lang r"
        by auto
      then show ?thesis by auto
    qed
  qed simp
next
  assume "\<exists>u v. cs = u @ v \<and> c # u \<in> rx_lang r \<and> v \<in> rx_lang (RStar r)"
  then obtain u us where "cs = u @ concat us" "c # u \<in> rx_lang r" "set us \<subseteq> rx_lang r"
    by auto
  then have "c # cs = concat ((c # u) # us) \<and> set ((c # u) # us) \<subseteq> rx_lang r" by simp
  then show "c # cs \<in> rx_lang (RStar r)" unfolding rx_lang.simps by blast
qed

lemma seq_Cons_iff:
  "c # cs \<in> rx_lang (RSeq r s) \<longleftrightarrow>
     ([] \<in> rx_lang r \<and> c # cs \<in> rx_lang s) \<or>
     (\<exists>u v. cs = u @ v \<and> c # u \<in> rx_lang r \<and> v \<in> rx_lang s)"
  by (auto simp: Cons_eq_append_conv)

lemma rx_deriv_iff: "cs \<in> rx_lang (rx_deriv c r) \<longleftrightarrow> c # cs \<in> rx_lang r"
proof (induction r arbitrary: cs)
  case (RSeq r s)
  show ?case
  proof (cases "rx_nullable r")
    case True
    then show ?thesis
      unfolding seq_Cons_iff using RSeq by (auto simp: rx_nullable_iff)
  next
    case False
    then show ?thesis
      unfolding seq_Cons_iff using RSeq by (auto simp: rx_nullable_iff)
  qed
next
  case (RStar r)
  then show ?case
    unfolding star_Cons_iff by auto
qed auto

theorem rx_match_iff: "rx_match r s \<longleftrightarrow> s \<in> rx_lang r"
  by (induction s arbitrary: r) (auto simp: rx_nullable_iff rx_deriv_iff)

section \<open>Building blocks\<close>

definition RAny :: rx where
  "RAny = RStar (RCls (\<lambda>_. True))"

text \<open>An optional part, a literal text, and the same text in either letter case.\<close>

definition ROpt :: "rx \<Rightarrow> rx" where
  "ROpt r = RAlt r REps"

fun RLit :: "jsstring \<Rightarrow> rx" where
  "RLit [] = REps"
| "RLit (c # cs) = RSeq (RCls (\<lambda>d. d = c)) (RLit cs)"

fun RLitI :: "jsstring \<Rightarrow> rx" where
  "RLitI [] = REps"
| "RLitI (c # cs) = RSeq (RCls (\<lambda>d. lower_char d = lower_char c)) (RLitI cs)"

definition RPlus :: "rx \<Rightarrow> rx" where
  "RPlus r = RSeq r (RStar r)"

text \<open>The repetition \<open>r{n}\<close> and \<open>r{m,n}\<close>, the second as \<open>m\<close> copies and up to
  \<open>n - m\<close> optional ones.\<close>

fun RPow :: "rx \<Rightarrow> nat \<Rightarrow> rx" where
  "RPow r 0 = REps"
| "RPow r (Suc n) = RSeq r (RPow r n)"

fun RUpto :: "rx \<Rightarrow> nat \<Rightarrow> rx" where
  "RUpto r 0 = REps"
| "RUpto r (Suc n) = ROpt (RSeq r (RUpto r n))"

definition RRange :: "rx \<Rightarrow> nat \<Rightarrow> nat \<Rightarrow> rx" where
  "RRange r m n = RSeq (RPow r m) (RUpto r (n - m))"

definition is_digit :: "char \<Rightarrow> bool" where
  "is_digit c \<longleftrightarrow> 48 \<le> (of_char c :: nat) \<and> (of_char c :: nat) \<le> 57"

definition is_alpha :: "char \<Rightarrow> bool" where
  "is_alpha c \<longleftrightarrow> (let n = of_char c :: nat in 65 \<le> n \<and> n \<le> 90 \<or> 97 \<le> n \<and> n \<le> 122)"

definition is_alnum :: "char \<Rightarrow> bool" where
  "is_alnum c \<longleftrightarrow> is_alpha c \<or> is_digit c"

text \<open>\<open>\w\<close>\<close>

definition is_word :: "char \<Rightarrow> bool" where
  "is_word c \<longleftrightarrow> is_alnum c \<or> c = CHR ''_''"

lemma seq_cls_iff:
  "s \<in> rx_lang (RSeq (RCls p) r) \<longleftrightarrow> (case s of [] \<Rightarrow> False | c # t \<Rightarrow> p c \<and> t \<in> rx_lang r)"
proof (cases s)
  case (Cons c t)
  have "c # t \<in> rx_lang (RSeq (RCls p) r) \<longleftrightarrow> (\<exists>u v. c # t = u @ v \<and> (\<exists>d. u = [d] \<and> p d) \<and> v \<in> rx_lang r)"
    by simp
  also have "\<dots> \<longleftrightarrow> (\<exists>d v. c # t = d # v \<and> p d \<and> v \<in> rx_lang r)"
    by (metis append_Cons append_Nil)
  finally show ?thesis using Cons by simp
qed simp

lemma lang_any [rx_lang_simps]: "s \<in> rx_lang RAny"
proof -
  have "s = concat (map (\<lambda>c. [c]) s) \<and> set (map (\<lambda>c. [c]) s) \<subseteq> {[c] | c. True}"
    by auto
  then show ?thesis unfolding RAny_def rx_lang.simps by blast
qed

lemma lang_opt [rx_lang_simps]: "s \<in> rx_lang (ROpt r) \<longleftrightarrow> s = [] \<or> s \<in> rx_lang r"
  by (auto simp: ROpt_def)

lemma lang_lit [rx_lang_simps]: "s \<in> rx_lang (RLit t) \<longleftrightarrow> s = t"
proof (induction t arbitrary: s)
  case (Cons c cs)
  show ?case
    unfolding RLit.simps seq_cls_iff by (cases s) (simp_all add: Cons)
qed simp

lemma lang_seq_lit [rx_lang_simps]:
  "s \<in> rx_lang (RSeq (RLit w) r) \<longleftrightarrow> (\<exists>t. s = w @ t \<and> t \<in> rx_lang r)"
  unfolding rx_lang.simps(4) by (auto simp: lang_lit)

lemma lang_alt [rx_lang_simps]: "s \<in> rx_lang (RAlt r q) \<longleftrightarrow> s \<in> rx_lang r \<or> s \<in> rx_lang q"
  by simp

lemma lang_litI [rx_lang_simps]: "s \<in> rx_lang (RLitI t) \<longleftrightarrow> js_lower s = js_lower t"
proof (induction t arbitrary: s)
  case (Cons c cs)
  show ?case
    unfolding RLitI.simps seq_cls_iff by (cases s) (simp_all add: Cons js_lower_def)
qed (simp add: js_lower_def)

lemma lang_star_cls [rx_lang_simps]: "s \<in> rx_lang (RStar (RCls p)) \<longleftrightarrow> (\<forall>c \<in> set s. p c)"
proof
  assume all: "\<forall>c \<in> set s. p c"
  have "s = concat (map (\<lambda>c. [c]) s) \<and> set (map (\<lambda>c. [c]) s) \<subseteq> {[c] | c. p c}"
    using all by auto
  then show "s \<in> rx_lang (RStar (RCls p))" unfolding rx_lang.simps by blast
qed fastforce

lemma lang_plus_cls [rx_lang_simps]:
  "s \<in> rx_lang (RPlus (RCls p)) \<longleftrightarrow> s \<noteq> [] \<and> (\<forall>c \<in> set s. p c)"
  unfolding RPlus_def seq_cls_iff by (simp add: lang_star_cls del: rx_lang.simps split: list.split)

lemma lang_pow_cls [rx_lang_simps]:
  "s \<in> rx_lang (RPow (RCls p) n) \<longleftrightarrow> length s = n \<and> (\<forall>c \<in> set s. p c)"
proof (induction n arbitrary: s)
  case (Suc n)
  show ?case
    unfolding RPow.simps seq_cls_iff by (cases s) (auto simp: Suc)
qed auto

lemma lang_upto_cls [rx_lang_simps]:
  "s \<in> rx_lang (RUpto (RCls p) n) \<longleftrightarrow> length s \<le> n \<and> (\<forall>c \<in> set s. p c)"
proof (induction n arbitrary: s)
  case (Suc n)
  show ?case
    unfolding RUpto.simps lang_opt seq_cls_iff by (cases s) (auto simp: Suc)
qed auto

lemma lang_range_cls [rx_lang_simps]:
  assumes "m \<le> n"
  shows "s \<in> rx_lang (RRange (RCls p) m n) \<longleftrightarrow> m \<le> length s \<and> length s \<le> n \<and> (\<forall>c \<in> set s. p c)"
proof
  assume "m \<le> length s \<and> length s \<le> n \<and> (\<forall>c \<in> set s. p c)"
  moreover from this have "\<forall>c \<in> set (take m s). p c" and "\<forall>c \<in> set (drop m s). p c"
    by (auto dest: in_set_takeD in_set_dropD)
  ultimately have "s = take m s @ drop m s" "take m s \<in> rx_lang (RPow (RCls p) m)"
    "drop m s \<in> rx_lang (RUpto (RCls p) (n - m))"
    by (auto simp: lang_pow_cls lang_upto_cls)
  then show "s \<in> rx_lang (RRange (RCls p) m n)"
    unfolding RRange_def rx_lang.simps by blast
next
  assume "s \<in> rx_lang (RRange (RCls p) m n)"
  then obtain u v where "s = u @ v" "u \<in> rx_lang (RPow (RCls p) m)" "v \<in> rx_lang (RUpto (RCls p) (n - m))"
    unfolding RRange_def rx_lang.simps by blast
  with assms show "m \<le> length s \<and> length s \<le> n \<and> (\<forall>c \<in> set s. p c)"
    by (auto simp: lang_pow_cls lang_upto_cls)
qed

section \<open>Matching with captures\<close>

text \<open>
  The matches of a pattern at the start of a string, each as the text matched and the rest, in the
  order the engine tries them: the left alternative first, one more round of a repetition before
  stopping, no empty round.
\<close>

function (sequential) rx_runs :: "rx \<Rightarrow> jsstring \<Rightarrow> (jsstring \<times> jsstring) list" where
  "rx_runs RNone s = []"
| "rx_runs REps s = [([], s)]"
| "rx_runs (RCls p) [] = []"
| "rx_runs (RCls p) (c # cs) = (if p c then [([c], cs)] else [])"
| "rx_runs (RSeq r q) s =
     concat (map (\<lambda>(u, t). map (\<lambda>(v, t'). (u @ v, t')) (rx_runs q t)) (rx_runs r s))"
| "rx_runs (RAlt r q) s = rx_runs r s @ rx_runs q s"
| "rx_runs (RStar r) s =
     concat (map (\<lambda>(u, t). if length t < length s
         then map (\<lambda>(v, t'). (u @ v, t')) (rx_runs (RStar r) t) else []) (rx_runs r s)) @ [([], s)]"
  by pat_completeness auto
termination
  by (relation "measures [\<lambda>(r, s). size r, \<lambda>(r, s). length s]") auto

declare rx_runs.simps(7) [simp del]

lemmas runs_star = rx_runs.simps(7)

text \<open>A pattern with captures: its parts in order, a captured one marked. \<open>fin\<close> is what the
  pattern asks of the text after the match: nothing, its end, or a lookahead.\<close>

type_synonym cap_pattern = "(bool \<times> rx) list"

fun caps_runs :: "cap_pattern \<Rightarrow> jsstring \<Rightarrow> (jsstring list \<times> jsstring) list" where
  "caps_runs [] s = [([], s)]"
| "caps_runs ((captured, r) # ps) s =
     concat (map (\<lambda>(u, t). map (\<lambda>(cs, t'). (if captured then u # cs else cs, t')) (caps_runs ps t))
       (rx_runs r s))"

definition caps_at :: "(jsstring \<Rightarrow> bool) \<Rightarrow> cap_pattern \<Rightarrow> jsstring \<Rightarrow> (jsstring list \<times> jsstring) option" where
  "caps_at fin ps s = find (\<lambda>(cs, t). fin t) (caps_runs ps s)"

text \<open>\<open>RegExp.prototype.exec\<close>: the captures of the first place where the pattern matches.\<close>

fun rx_exec :: "(jsstring \<Rightarrow> bool) \<Rightarrow> cap_pattern \<Rightarrow> jsstring \<Rightarrow> jsstring list option" where
  "rx_exec fin ps [] = map_option fst (caps_at fin ps [])"
| "rx_exec fin ps (c # cs) =
     (case caps_at fin ps (c # cs) of Some (m, t) \<Rightarrow> Some m | None \<Rightarrow> rx_exec fin ps cs)"

lemma runs_star_iff:
  "(u, t) \<in> set (rx_runs (RStar r) s) \<longleftrightarrow> (u = [] \<and> t = s) \<or>
    (\<exists>u1 t1 u2. (u1, t1) \<in> set (rx_runs r s) \<and> length t1 < length s \<and>
      (u2, t) \<in> set (rx_runs (RStar r) t1) \<and> u = u1 @ u2)"
  by (subst runs_star) (fastforce split: if_splits)

lemma rx_runs_sound: "(u, t) \<in> set (rx_runs r s) \<Longrightarrow> s = u @ t \<and> u \<in> rx_lang r"
proof (induction r s arbitrary: u t rule: rx_runs.induct)
  case (5 r q s)
  then show ?case by fastforce
next
  case (7 r s)
  then consider "u = []" "t = s"
    | u1 t1 u2 where "(u1, t1) \<in> set (rx_runs r s)" "length t1 < length s"
      "(u2, t) \<in> set (rx_runs (RStar r) t1)" "u = u1 @ u2" unfolding runs_star_iff [of u t] by blast
  then show ?case
  proof cases
    case 1
    have "set [] \<subseteq> rx_lang r" by simp
    with 1 show ?thesis by (auto intro: exI [of _ "[]"])
  next
    case 2
    from 7(1) [OF 2(1)] have s: "s = u1 @ t1" "u1 \<in> rx_lang r" by auto
    from 7(2) [OF 2(1) refl 2(2) 2(3)] obtain us where "t1 = concat us @ t" "u2 = concat us" "set us \<subseteq> rx_lang r"
      by auto
    with s 2(4) show ?thesis by (auto intro!: exI [of _ "u1 # us"])
  qed
next
  case (4 p c cs)
  then show ?case by (simp split: if_splits)
qed auto

lemma rx_runs_complete: "u \<in> rx_lang r \<Longrightarrow> (u, t) \<in> set (rx_runs r (u @ t))"
proof (induction r arbitrary: u t)
  case (RSeq r q)
  then obtain a b where ab: "u = a @ b" "a \<in> rx_lang r" "b \<in> rx_lang q" by auto
  from RSeq.IH(1) [OF ab(2), of "b @ t"] RSeq.IH(2) [OF ab(3), of t] show ?case
    by (force simp: ab(1))
next
  case (RStar r)
  then obtain us where "u = concat us" "set us \<subseteq> rx_lang r" by auto
  then show ?case
  proof (induction us arbitrary: u)
    case (Cons w us)
    show ?case
    proof (cases "w = []")
      case True
      with Cons show ?thesis by (simp del: rx_runs.simps)
    next
      case False
      have "(concat us, t) \<in> set (rx_runs (RStar r) (concat us @ t))" using Cons by simp
      moreover have "(w, concat us @ t) \<in> set (rx_runs r (w @ concat us @ t))"
        using Cons.prems RStar.IH by simp
      ultimately have "(w @ concat us, t) \<in> set (rx_runs (RStar r) (w @ concat us @ t))"
        using False runs_star_iff [of "w @ concat us" t r "w @ concat us @ t"] by force
      then show ?thesis using Cons.prems by simp
    qed
  next
    case Nil
    then show ?case using runs_star_iff [of "[]" t r t] by simp
  qed
qed auto

theorem rx_runs_iff: "(u, t) \<in> set (rx_runs r s) \<longleftrightarrow> s = u @ t \<and> u \<in> rx_lang r"
  using rx_runs_sound rx_runs_complete by blast

text \<open>The first match of a pattern, which a search without backtracking takes.\<close>

definition rx_first :: "rx \<Rightarrow> jsstring \<Rightarrow> jsstring \<Rightarrow> jsstring \<Rightarrow> bool" where
  "rx_first r s u t \<longleftrightarrow> (\<exists>rs. rx_runs r s = (u, t) # rs)"

definition caps_first :: "cap_pattern \<Rightarrow> jsstring \<Rightarrow> jsstring list \<Rightarrow> jsstring \<Rightarrow> bool" where
  "caps_first ps s cs t \<longleftrightarrow> (\<exists>rs. caps_runs ps s = (cs, t) # rs)"

named_theorems rx_first_intros \<open>the first match of a pattern\<close>

lemma first_eps [rx_first_intros]: "rx_first REps s [] s"
  by (simp add: rx_first_def)

lemma first_cls [rx_first_intros]: "p c \<Longrightarrow> rx_first (RCls p) (c # s) [c] s"
  by (simp add: rx_first_def)

lemma first_seq: "rx_first r s u t \<Longrightarrow> rx_first q t v t' \<Longrightarrow> rx_first (RSeq r q) s (u @ v) t'"
  by (auto simp: rx_first_def)

lemma first_alt1: "rx_first r s u t \<Longrightarrow> rx_first (RAlt r q) s u t"
  by (auto simp: rx_first_def)

lemma first_alt2: "rx_runs r s = [] \<Longrightarrow> rx_first q s u t \<Longrightarrow> rx_first (RAlt r q) s u t"
  by (auto simp: rx_first_def)

lemma runs_star_cls:
  "rx_runs (RStar (RCls p)) [] = [([], [])]"
  "rx_runs (RStar (RCls p)) (c # cs) =
    (if p c then map (\<lambda>(v, t). (c # v, t)) (rx_runs (RStar (RCls p)) cs) else []) @ [([], c # cs)]"
  by (subst runs_star, simp)+

lemma first_star_cls: "rx_first (RStar (RCls p)) s (takeWhile p s) (dropWhile p s)"
proof (induction s)
  case (Cons c s)
  then show ?case by (auto simp: rx_first_def runs_star_cls)
qed (simp add: rx_first_def runs_star_cls)

lemma first_plus_cls:
  "s \<noteq> [] \<Longrightarrow> p (hd s) \<Longrightarrow> rx_first (RPlus (RCls p)) s (takeWhile p s) (dropWhile p s)"
  unfolding RPlus_def using first_seq [OF first_cls [of p "hd s" "tl s"] first_star_cls [of p]]
  by (cases s) auto

lemma runs_plus_cls_Nil [simp]: "s = [] \<or> \<not> p (hd s) \<Longrightarrow> rx_runs (RPlus (RCls p)) s = []"
  by (cases s) (auto simp: RPlus_def)

lemma first_lit: "rx_first (RLit w) (w @ s) w s"
  by (induction w) (auto simp: rx_first_def)

lemma first_litI: "map lower_char v = map lower_char w \<Longrightarrow> rx_first (RLitI w) (v @ s) v s"
proof (induction w arbitrary: v)
  case (Cons c w)
  then obtain d v' where "v = d # v'" "lower_char d = lower_char c" "map lower_char v' = map lower_char w"
    by (cases v) auto
  with Cons.IH [of v'] show ?case by (auto simp: rx_first_def)
qed (simp add: rx_first_def)

lemma caps_first_Nil [rx_first_intros]: "caps_first [] s [] s"
  by (simp add: caps_first_def)

lemma caps_first_Cons:
  "rx_first r s u t \<Longrightarrow> caps_first ps t cs t' \<Longrightarrow>
    caps_first ((b, r) # ps) s (if b then u # cs else cs) t'"
  by (auto simp: rx_first_def caps_first_def)

lemma caps_skip: "rx_first r s u t \<Longrightarrow> caps_first ps t cs t' \<Longrightarrow> caps_first ((False, r) # ps) s cs t'"
  using caps_first_Cons [of r s u t ps cs t' False] by simp

lemma caps_take: "rx_first r s u t \<Longrightarrow> caps_first ps t cs t' \<Longrightarrow> caps_first ((True, r) # ps) s (u # cs) t'"
  using caps_first_Cons [of r s u t ps cs t' True] by simp

lemma caps_at_first: "caps_first ps s cs t \<Longrightarrow> fin t \<Longrightarrow> caps_at fin ps s = Some (cs, t)"
  by (auto simp: caps_first_def caps_at_def)

lemma rx_exec_first: "caps_first ps s cs t \<Longrightarrow> fin t \<Longrightarrow> rx_exec fin ps s = Some cs"
  using caps_at_first [of ps s cs t fin] by (cases s) simp_all

lemma caps_runs_Nil_iff: "(cs, t) \<in> set (caps_runs [] s) \<longleftrightarrow> cs = [] \<and> t = s"
  by auto

lemma caps_runs_Cons_iff:
  "(cs, t) \<in> set (caps_runs ((b, r) # ps) s) \<longleftrightarrow>
    (\<exists>u s' cs'. s = u @ s' \<and> u \<in> rx_lang r \<and> (cs', t) \<in> set (caps_runs ps s') \<and>
      cs = (if b then u # cs' else cs'))"
  by (auto simp: rx_runs_iff intro!: bexI [OF _ iffD2 [OF rx_runs_iff]]) (metis Pair_inject)+

lemma caps_at_Some: "caps_at fin ps s = Some (cs, t) \<Longrightarrow> (cs, t) \<in> set (caps_runs ps s) \<and> fin t"
  by (auto simp: caps_at_def find_Some_iff in_set_conv_nth)

lemma rx_exec_Some:
  "rx_exec fin ps s = Some cs \<Longrightarrow> \<exists>pre s' t. s = pre @ s' \<and> (cs, t) \<in> set (caps_runs ps s') \<and> fin t"
proof (induction fin ps s rule: rx_exec.induct)
  case (1 fin ps)
  then show ?case using caps_at_Some by force
next
  case (2 fin ps c cs')
  show ?case
  proof (cases "caps_at fin ps (c # cs')")
    case None
    with 2 obtain pre s' t where "cs' = pre @ s'" "(cs, t) \<in> set (caps_runs ps s')" "fin t" by auto
    then have "c # cs' = (c # pre) @ s'" by simp
    with \<open>(cs, t) \<in> set (caps_runs ps s')\<close> \<open>fin t\<close> show ?thesis by blast
  next
    case (Some m)
    then obtain t where "caps_at fin ps (c # cs') = Some (cs, t)" using 2 by (cases m) auto
    from caps_at_Some [OF this] have "c # cs' = [] @ c # cs'" "(cs, t) \<in> set (caps_runs ps (c # cs'))" "fin t"
      by auto
    then show ?thesis by blast
  qed
qed

lemma first_opt: "rx_first r s u t \<Longrightarrow> rx_first (ROpt r) s u t"
  by (auto simp: rx_first_def ROpt_def)

lemma first_opt_none: "rx_runs r s = [] \<Longrightarrow> rx_first (ROpt r) s [] s"
  by (simp add: rx_first_def ROpt_def)

lemma first_pow_cls: "\<forall>c \<in> set ds. p c \<Longrightarrow> rx_first (RPow (RCls p) (length ds)) (ds @ r) ds r"
  by (induction ds) (auto simp: rx_first_def)

lemma first_upto_cls:
  "\<forall>c \<in> set ds. p c \<Longrightarrow> length ds \<le> n \<Longrightarrow> r = [] \<or> \<not> p (hd r) \<Longrightarrow> rx_first (RUpto (RCls p) n) (ds @ r) ds r"
proof (induction n arbitrary: ds)
  case (Suc n)
  show ?case
  proof (cases ds)
    case Nil
    then show ?thesis using Suc.prems(3) by (cases r) (auto simp: intro!: first_opt_none)
  next
    case (Cons d ds')
    with Suc have "p d" and "rx_first (RUpto (RCls p) n) (ds' @ r) ds' r" by auto
    from first_seq [OF first_cls [of p d "ds' @ r"] this(2)] this(1)
    have "rx_first (RSeq (RCls p) (RUpto (RCls p) n)) (d # ds' @ r) (d # ds') r" by simp
    then show ?thesis using Cons by (auto intro: first_opt)
  qed
qed (simp add: rx_first_def)

lemma first_range_cls:
  assumes "\<forall>c \<in> set ds. p c" "m \<le> length ds" "length ds \<le> n" "r = [] \<or> \<not> p (hd r)"
  shows "rx_first (RRange (RCls p) m n) (ds @ r) ds r"
proof -
  have "rx_first (RPow (RCls p) m) (take m ds @ drop m ds @ r) (take m ds) (drop m ds @ r)"
    using first_pow_cls [of "take m ds" p "drop m ds @ r"] assms set_take_subset [of m ds] by auto
  moreover have "rx_first (RUpto (RCls p) (n - m)) (drop m ds @ r) (drop m ds) r"
    using assms by (intro first_upto_cls) (auto dest: in_set_dropD)
  ultimately have "rx_first (RSeq (RPow (RCls p) m) (RUpto (RCls p) (n - m)))
      (take m ds @ drop m ds @ r) (take m ds @ drop m ds) r" by (rule first_seq)
  then show ?thesis by (simp add: RRange_def flip: append_assoc)
qed

lemma first_plus_append:
  assumes "\<forall>c \<in> set ds. p c" "ds \<noteq> []" "r = [] \<or> \<not> p (hd r)"
  shows "rx_first (RPlus (RCls p)) (ds @ r) ds r"
proof -
  have "takeWhile p (ds @ r) = ds" "dropWhile p (ds @ r) = r"
    using assms by (cases r; simp add: takeWhile_append2 dropWhile_append2)+
  with first_plus_cls [of "ds @ r" p] assms show ?thesis by simp
qed

lemma first_star_none: "r = [] \<or> \<not> p (hd r) \<Longrightarrow> rx_first (RStar (RCls p)) r [] r"
  using first_star_cls [of p r] by (cases r) auto

end
