(* ===== verification/Js_Number.thy ===== *)
theory Js_Number
  imports Complex_Main Js_Regex
begin

text \<open>
  The numbers of JavaScript: a finite double is a rational number that rounding to double leaves
  alone, so the arithmetic on coordinates is exact before its rounding; \<open>NaN\<close> and the infinities
  are \<open>None\<close>, since the code tests \<open>Number.isFinite\<close> on what it parses, and \<open>-0\<close> is \<open>0\<close>, which
  no comparison of the code tells apart. The theory holds the decimal digits, \<open>Number(text)\<close>,
  \<open>String(number)\<close> (the shortest digits that read back), \<open>toFixed\<close>, and that reading gives back
  what printing was given.
\<close>

section \<open>Decimal digits\<close>

definition digit_char :: "nat \<Rightarrow> char" where
  "digit_char n = char_of (48 + n mod 10)"

definition digit_value :: "char \<Rightarrow> nat" where
  "digit_value c = of_char c - 48"

lemma digit_char_facts [simp]:
  "is_digit (digit_char n)" "digit_value (digit_char n) = n mod 10"
  by (simp_all add: is_digit_def digit_char_def digit_value_def)

definition digits_value :: "jsstring \<Rightarrow> nat" where
  "digits_value = foldl (\<lambda>a c. 10 * a + digit_value c) 0"

text \<open>The last \<open>w\<close> decimal digits of \<open>n\<close>, and all of them.\<close>

fun pad_digits :: "nat \<Rightarrow> nat \<Rightarrow> jsstring" where
  "pad_digits 0 n = []"
| "pad_digits (Suc w) n = pad_digits w (n div 10) @ [digit_char n]"

fun nat_width :: "nat \<Rightarrow> nat" where
  "nat_width n = (if n < 10 then 1 else Suc (nat_width (n div 10)))"

declare nat_width.simps [simp del]

definition nat_text :: "nat \<Rightarrow> jsstring" where
  "nat_text n = pad_digits (nat_width n) n"

definition int_text :: "int \<Rightarrow> jsstring" where
  "int_text k = (if k < 0 then CHR ''-'' # nat_text (nat (- k)) else nat_text (nat k))"

lemma length_pad_digits [simp]: "length (pad_digits w n) = w"
  by (induction w arbitrary: n) simp_all

lemma pad_digits_Nil [simp]: "pad_digits w n = [] \<longleftrightarrow> w = 0"
  by (metis length_0_conv length_pad_digits)

lemma pad_digits_digits: "c \<in> set (pad_digits w n) \<Longrightarrow> is_digit c"
  by (induction w arbitrary: n) auto

lemma digits_value_Nil [simp]: "digits_value [] = 0"
  by (simp add: digits_value_def)

lemma digits_value_snoc: "digits_value (ds @ [c]) = 10 * digits_value ds + digit_value c"
  by (simp add: digits_value_def)

lemma digits_value_append: "digits_value (as @ bs) = digits_value as * 10 ^ length bs + digits_value bs"
  by (induction bs rule: rev_induct)
    (simp_all add: digits_value_snoc append_assoc [symmetric] algebra_simps del: append_assoc)

lemma digits_value_pad: "digits_value (pad_digits w n) = n mod 10 ^ w"
  by (induction w arbitrary: n) (simp_all add: digits_value_snoc mod_mult2_eq add.commute)

lemma less_width: "n < 10 ^ nat_width n"
proof (induction n rule: nat_width.induct)
  case (1 n)
  then show ?case by (subst nat_width.simps) auto
qed

lemma nat_width_le: "n < 10 ^ k \<Longrightarrow> 0 < k \<Longrightarrow> nat_width n \<le> k"
proof (induction k arbitrary: n)
  case (Suc k)
  show ?case
  proof (cases "n < 10")
    case True
    then show ?thesis by (subst nat_width.simps) simp
  next
    case False
    have "n div 10 < 10 ^ k" using Suc.prems(1) by (simp add: less_mult_imp_div_less mult.commute)
    moreover from this False have "0 < k" by (cases k) auto
    ultimately have "nat_width (n div 10) \<le> k" by (rule Suc.IH)
    with False show ?thesis by (subst nat_width.simps) simp
  qed
qed simp

lemma digits_value_text [simp]: "digits_value (nat_text n) = n"
  by (simp add: nat_text_def digits_value_pad less_width)

lemma nat_width_pos [simp]: "0 < nat_width n"
  by (subst nat_width.simps) simp

lemma nat_text_digits: "c \<in> set (nat_text n) \<Longrightarrow> is_digit c"
  by (simp add: nat_text_def pad_digits_digits)

lemma nat_text_not_Nil [simp]: "nat_text n \<noteq> []"
  using nat_width_pos [of n] by (metis length_pad_digits list.size(3) nat_text_def less_irrefl)

lemma nat_text_hd [simp]: "is_digit (hd (nat_text n))"
  by (rule nat_text_digits [OF hd_in_set [OF nat_text_not_Nil]])

lemma nat_text_inject [simp]: "nat_text m = nat_text n \<longleftrightarrow> m = n"
  by (metis digits_value_text)

lemma is_digit_neq: "is_digit c \<Longrightarrow> \<not> is_digit d \<Longrightarrow> c \<noteq> d"
  by auto

section \<open>Doubles\<close>

definition pow2 :: "int \<Rightarrow> rat" where
  "pow2 k = (if 0 \<le> k then 2 ^ nat k else 1 / 2 ^ nat (- k))"

fun bit_length :: "nat \<Rightarrow> nat" where
  "bit_length n = (if n = 0 then 0 else Suc (bit_length (n div 2)))"

declare bit_length.simps [simp del]

text \<open>The exponent of a positive number: \<open>2 ^ e \<le> x < 2 ^ (e + 1)\<close>.\<close>

definition exponent_of :: "rat \<Rightarrow> int" where
  "exponent_of x = (let (n, d) = quotient_of x; k = int (bit_length (nat n)) - int (bit_length (nat d))
     in if pow2 k \<le> x then k else k - 1)"

text \<open>The nearest integer, to even on a tie.\<close>

definition round_even :: "rat \<Rightarrow> int" where
  "round_even x = (let f = \<lfloor>x\<rfloor>; r = x - of_int f
     in if r < 1 / 2 \<or> (r = 1 / 2 \<and> even f) then f else f + 1)"

text \<open>The unit in the last place of a double of this size, and the nearest double, \<open>None\<close> past the
  largest one.\<close>

definition ulp_exponent :: "rat \<Rightarrow> int" where
  "ulp_exponent x = max (exponent_of \<bar>x\<bar>) (-1022) - 52"

definition round_double :: "rat \<Rightarrow> rat option" where
  "round_double x = (if x = 0 then Some 0
     else let u = pow2 (ulp_exponent x); r = of_int (round_even (x / u)) * u
       in if \<bar>r\<bar> < pow2 1024 then Some r else None)"

definition is_double :: "rat \<Rightarrow> bool" where
  "is_double x \<longleftrightarrow> round_double x = Some x"

lemma pow2_pos [simp]: "0 < pow2 k" "0 \<le> pow2 k" "pow2 k \<noteq> 0"
  by (simp_all add: pow2_def)

lemma pow2_eq_powi: "pow2 k = 2 powi k"
  by (simp add: pow2_def power_int_def power_one_over)

lemma pow2_add: "pow2 (a + b) = pow2 a * pow2 b"
  by (simp add: pow2_eq_powi power_int_add)

lemma pow2_0 [simp]: "pow2 0 = 1"
  by (simp add: pow2_def)

lemma pow2_mono: "a \<le> b \<Longrightarrow> pow2 a \<le> pow2 b"
  by (simp add: pow2_eq_powi power_int_increasing)

lemma pow2_strict_mono: "a < b \<Longrightarrow> pow2 a < pow2 b"
  by (simp add: pow2_eq_powi power_int_strict_increasing)

lemma pow2_less_iff [simp]: "pow2 a < pow2 b \<longleftrightarrow> a < b"
  by (metis linorder_not_le pow2_mono pow2_strict_mono)

lemma bit_length_bounds: "0 < n \<Longrightarrow> 2 ^ (bit_length n - 1) \<le> n \<and> n < 2 ^ bit_length n \<and> 0 < bit_length n"
proof (induction n rule: bit_length.induct)
  case (1 n)
  show ?case
  proof (cases "n = 1")
    case True
    then show ?thesis by (simp add: bit_length.simps)
  next
    case False
    with 1 have "2 ^ (bit_length (n div 2) - 1) \<le> n div 2" "n div 2 < 2 ^ bit_length (n div 2)"
      "0 < bit_length (n div 2)" by auto
    moreover have "bit_length n = Suc (bit_length (n div 2))"
      using 1(2) by (subst bit_length.simps) simp
    ultimately show ?thesis by (cases "bit_length (n div 2)") auto
  qed
qed

lemma exponent_of_bounds:
  assumes "0 < x"
  shows "pow2 (exponent_of x) \<le> x" "x < pow2 (exponent_of x + 1)"
proof -
  obtain n d where q: "quotient_of x = (n, d)" by fastforce
  then have x: "x = of_int n / of_int d" and d: "0 < d" by (auto simp: quotient_of_div quotient_of_denom_pos)
  with assms have n: "0 < n" by (simp add: zero_less_divide_iff)
  define a b where "a = int (bit_length (nat n))" and "b = int (bit_length (nat d))"
  have bounds: "pow2 (int (bit_length (nat m)) - 1) \<le> of_int m \<and> of_int m < pow2 (int (bit_length (nat m)))"
    if "0 < m" for m
  proof -
    have m: "(of_int m :: rat) = of_nat (nat m)" using that by simp
    from bit_length_bounds [of "nat m"] that have
      "(2::nat) ^ (bit_length (nat m) - 1) \<le> nat m" "nat m < 2 ^ bit_length (nat m)" "0 < bit_length (nat m)"
      by auto
    then have "(of_nat (2 ^ (bit_length (nat m) - 1)) :: rat) \<le> of_nat (nat m)"
      "(of_nat (nat m) :: rat) < of_nat (2 ^ bit_length (nat m))"
      unfolding of_nat_le_iff of_nat_less_iff by auto
    with \<open>0 < bit_length (nat m)\<close> show ?thesis unfolding m by (auto simp: pow2_def nat_diff_distrib)
  qed
  from bounds [OF n] bounds [OF d] have
    N: "pow2 (a - 1) \<le> of_int n" "of_int n < pow2 a" and D: "pow2 (b - 1) \<le> of_int d" "of_int d < pow2 b"
    by (simp_all add: a_def b_def)
  have "x < pow2 a / pow2 (b - 1)"
    unfolding x using N D d n by (intro frac_less) auto
  also have "\<dots> = pow2 (a - b + 1)" using pow2_add [of "a - b + 1" "b - 1"] by simp
  finally have up: "x < pow2 (a - b + 1)" .
  have "pow2 (a - b - 1) = pow2 (a - 1) / pow2 b" using pow2_add [of "a - b - 1" b] by simp
  also have "\<dots> \<le> x" unfolding x using N D d n by (intro frac_le) auto
  finally have lo: "pow2 (a - b - 1) \<le> x" .
  show "pow2 (exponent_of x) \<le> x" "x < pow2 (exponent_of x + 1)"
    using up lo by (auto simp: exponent_of_def q a_def b_def Let_def)
qed

lemma round_even_error: "\<bar>of_int (round_even x) - x\<bar> \<le> 1 / 2"
  unfolding round_even_def Let_def using floor_correct [of x] by (auto simp: abs_le_iff)

lemma round_even_of_int [simp]: "round_even (of_int m) = m"
  by (simp add: round_even_def)

lemma round_double_0 [simp]: "round_double 0 = Some 0"
  by (simp add: round_double_def)

lemma round_double_error:
  assumes "round_double x = Some r"
  shows "\<bar>r - x\<bar> \<le> pow2 (ulp_exponent x - 1)"
proof (cases "x = 0")
  case False
  define u where "u = pow2 (ulp_exponent x)"
  have u: "0 < u" by (simp add: u_def)
  have r: "r = of_int (round_even (x / u)) * u"
    using assms False by (auto simp: round_double_def Let_def u_def split: if_splits)
  then have "\<bar>r - x\<bar> = \<bar>of_int (round_even (x / u)) - x / u\<bar> * u"
    using u abs_mult [of "of_int (round_even (x / u)) - x / u" u] by (simp add: left_diff_distrib)
  also have "\<dots> \<le> 1 / 2 * u" using round_even_error [of "x / u"] u by (intro mult_right_mono) auto
  also have "1 / 2 * u = pow2 (ulp_exponent x - 1)"
    using pow2_add [of "ulp_exponent x - 1" 1] by (simp add: u_def pow2_def [of 1])
  finally show ?thesis .
qed (use assms in simp)

text \<open>A multiple of a power of two with at most 53 bits is a double.\<close>

lemma is_double_multiple:
  assumes x: "x = of_int m * pow2 j" and m: "\<bar>m\<bar> \<le> 2 ^ 53" and j: "-1074 \<le> j" and big: "\<bar>x\<bar> < pow2 1024"
  shows "is_double x"
proof (cases "x = 0")
  case False
  define e where "e = exponent_of \<bar>x\<bar>"
  have e: "pow2 e \<le> \<bar>x\<bar>" "\<bar>x\<bar> < pow2 (e + 1)"
    using exponent_of_bounds [of "\<bar>x\<bar>"] False by (simp_all add: e_def)
  have ax: "\<bar>x\<bar> = of_int \<bar>m\<bar> * pow2 j" by (simp add: x abs_mult)
  have "\<exists>k. x / pow2 (ulp_exponent x) = of_int k"
  proof (cases "ulp_exponent x \<le> j")
    case True
    then have "pow2 j / pow2 (ulp_exponent x) = 2 ^ nat (j - ulp_exponent x)"
      using pow2_add [of "j - ulp_exponent x" "ulp_exponent x"] by (simp add: pow2_def [of "j - ulp_exponent x"])
    then have "x / pow2 (ulp_exponent x) = of_int (m * 2 ^ nat (j - ulp_exponent x))"
      by (simp add: x flip: times_divide_eq_right)
    then show ?thesis by blast
  next
    case False
    with j have ue: "ulp_exponent x = e - 52" and je: "j + 52 < e" by (auto simp: ulp_exponent_def e_def max_def split: if_splits)
    have le: "\<bar>x\<bar> \<le> pow2 (j + 53)"
    proof -
      have "(of_int \<bar>m\<bar> :: rat) \<le> of_int (2 ^ 53)" using m unfolding of_int_le_iff .
      then have "of_int \<bar>m\<bar> * pow2 j \<le> 2 ^ 53 * pow2 j" by (intro mult_right_mono) simp_all
      also have "\<dots> = pow2 (j + 53)" unfolding pow2_add by (simp add: pow2_def [of 53])
      finally show ?thesis by (simp add: ax)
    qed
    then have "pow2 e \<le> pow2 (j + 53)" using e by linarith
    then have "e = j + 53" using je pow2_less_iff [of "j + 53" e] by linarith
    with e le have "\<bar>x\<bar> = pow2 (j + 53)" by simp
    then have "x = pow2 (j + 53) \<or> x = - pow2 (j + 53)" by (auto simp: abs_if split: if_splits)
    moreover have "pow2 (j + 53) / pow2 (ulp_exponent x) = of_int (2 ^ 52)"
      using pow2_add [of 52 "j + 1"] by (simp add: ue \<open>e = j + 53\<close> pow2_def [of 52] add.commute)
    ultimately show ?thesis
      by (metis minus_divide_left of_int_minus)
  qed
  then obtain k where k: "x / pow2 (ulp_exponent x) = of_int k" by blast
  then have "of_int k * pow2 (ulp_exponent x) = x" by (simp add: field_simps)
  with k big False show ?thesis by (simp add: is_double_def round_double_def Let_def)
qed (simp add: is_double_def)

theorem round_double_is_double:
  assumes "round_double x = Some r"
  shows "is_double r"
proof (cases "x = 0")
  case True
  then show ?thesis using assms by (simp add: is_double_def)
next
  case False
  define e where "e = ulp_exponent x"
  have r: "r = of_int (round_even (x / pow2 e)) * pow2 e" "\<bar>r\<bar> < pow2 1024"
    using assms False by (auto simp: round_double_def Let_def e_def split: if_splits)
  have "\<bar>x\<bar> < pow2 (exponent_of \<bar>x\<bar> + 1)" using exponent_of_bounds False by simp
  also have "\<dots> \<le> pow2 (e + 53)" by (intro pow2_mono) (simp add: e_def ulp_exponent_def)
  finally have "\<bar>x / pow2 e\<bar> < 2 ^ 53"
    by (simp add: abs_divide pow2_add pow2_def [of 53] divide_less_eq mult.commute)
  moreover have "\<bar>of_int (round_even (x / pow2 e)) - x / pow2 e\<bar> \<le> 1 / 2" by (rule round_even_error)
  ultimately have "\<bar>of_int (round_even (x / pow2 e)) :: rat\<bar> < 2 ^ 53 + 1" by linarith
  then have "(of_int \<bar>round_even (x / pow2 e)\<bar> :: rat) < of_int (2 ^ 53 + 1)" by simp
  then have "\<bar>round_even (x / pow2 e)\<bar> < 2 ^ 53 + 1" unfolding of_int_less_iff .
  then have "\<bar>round_even (x / pow2 e)\<bar> \<le> 2 ^ 53" by linarith
  moreover have "-1074 \<le> e" by (simp add: e_def ulp_exponent_def)
  ultimately show ?thesis using r by (intro is_double_multiple) auto
qed


section \<open>Reading a number\<close>

text \<open>The digits a string starts with, and the rest.\<close>

definition span_digits :: "jsstring \<Rightarrow> jsstring \<times> jsstring" where
  "span_digits s = (takeWhile is_digit s, dropWhile is_digit s)"

definition hex_value :: "char \<Rightarrow> nat option" where
  "hex_value c = (let n = of_char c :: nat in
     if is_digit c then Some (n - 48) else if 65 \<le> n \<and> n \<le> 70 then Some (n - 55)
     else if 97 \<le> n \<and> n \<le> 102 then Some (n - 87) else None)"

text \<open>The digits after a \<open>0x\<close>, \<open>0o\<close> or \<open>0b\<close>: at least one, each below the base.\<close>

fun base_value :: "nat \<Rightarrow> nat \<Rightarrow> jsstring \<Rightarrow> nat option" where
  "base_value b acc [] = Some acc"
| "base_value b acc (c # cs) = (case hex_value c of
       Some d \<Rightarrow> if d < b then base_value b (b * acc + d) cs else None
     | None \<Rightarrow> None)"

definition prefix_base :: "jsstring \<Rightarrow> nat option" where
  "prefix_base s = (case s of
       z # x # _ \<Rightarrow> if z \<noteq> CHR ''0'' then None
         else if lower_char x = CHR ''x'' then Some 16 else if lower_char x = CHR ''o'' then Some 8
         else if lower_char x = CHR ''b'' then Some 2 else None
     | _ \<Rightarrow> None)"

text \<open>The exponent part that ends a literal: nothing, or \<open>e\<close>, a sign and digits.\<close>

definition read_exponent :: "jsstring \<Rightarrow> int option" where
  "read_exponent s = (case s of
       [] \<Rightarrow> Some 0
     | c # r \<Rightarrow> if lower_char c \<noteq> CHR ''e'' then None
         else (let (neg, ds) = (case r of d # r' \<Rightarrow> if d = CHR ''-'' then (True, r')
                   else if d = CHR ''+'' then (False, r') else (False, r) | [] \<Rightarrow> (False, []))
           in if ds \<noteq> [] \<and> (\<forall>d \<in> set ds. is_digit d)
              then Some ((if neg then -1 else 1) * int (digits_value ds)) else None))"

definition pow10 :: "int \<Rightarrow> rat" where
  "pow10 k = (if 0 \<le> k then 10 ^ nat k else 1 / 10 ^ nat (- k))"

text \<open>An unsigned decimal literal, exactly.\<close>

definition read_decimal :: "jsstring \<Rightarrow> rat option" where
  "read_decimal s = (let (ds, r) = span_digits s;
       (fs, r') = (case r of c # t \<Rightarrow> if c = CHR ''.'' then span_digits t else ([], r) | [] \<Rightarrow> ([], []))
     in if ds = [] \<and> fs = [] then None
        else map_option (\<lambda>e. of_nat (digits_value (ds @ fs)) * pow10 (e - int (length fs))) (read_exponent r'))"

text \<open>\<open>Number(text)\<close>, when finite: blank text is 0, a base prefix takes no sign, and
  \<open>Infinity\<close> is not finite.\<close>

definition js_number :: "jsstring \<Rightarrow> rat option" where
  "js_number text = (let s = js_trim text in
     if s = [] then Some 0
     else case prefix_base s of
       Some b \<Rightarrow> if length s = 2 then None
         else Option.bind (base_value b 0 (drop 2 s)) (\<lambda>n. round_double (of_nat n))
     | None \<Rightarrow> (let (neg, body) = (if hd s = CHR ''-'' then (True, tl s)
                   else if hd s = CHR ''+'' then (False, tl s) else (False, s))
         in Option.bind (read_decimal body) (\<lambda>x. round_double (if neg then - x else x))))"

lemma js_number_is_double: "js_number s = Some x \<Longrightarrow> is_double x"
proof -
  have z: "is_double 0" by (simp add: is_double_def)
  assume "js_number s = Some x"
  then show ?thesis
    by (auto simp: js_number_def Let_def z bind_eq_Some_conv round_double_is_double split: if_splits option.splits)
qed

section \<open>Printing a number\<close>

text \<open>\<open>x = s * 10 ^ (n - k)\<close> with \<open>k\<close> digits in \<open>s\<close>: the two candidates of a width, the nearer one
  first, one that carries into a power of ten renormalised.\<close>

definition log10_floor_ok :: "rat \<Rightarrow> int \<Rightarrow> bool" where
  "log10_floor_ok x n \<longleftrightarrow> pow10 (n - 1) \<le> x \<and> x < pow10 n"

text \<open>The decimal exponent, searched from the estimate the binary exponent gives.\<close>

definition decimal_exponent :: "rat \<Rightarrow> int" where
  "decimal_exponent x = (let g = exponent_of x * 30103 div 100000
     in if x < pow10 g then g else if x < pow10 (g + 1) then g + 1 else g + 2)"

definition digits_of_width :: "rat \<Rightarrow> int \<Rightarrow> nat \<Rightarrow> (nat \<times> int \<times> nat) option" where
  "digits_of_width x n k = (let y = x * pow10 (int k - n); f = nat \<lfloor>y\<rfloor>;
       cands = (if y - of_nat f \<le> 1 / 2 then [f, f + 1] else [f + 1, f]);
       norm = (\<lambda>s. if s = 10 ^ k then (10 ^ (k - 1), n + 1, k) else (s, n, k));
       ok = (\<lambda>s. 10 ^ (k - 1) \<le> s \<and> s \<le> 10 ^ k \<and> round_double (of_nat s * pow10 (n - int k)) = Some x)
     in map_option norm (find ok cands))"

fun shortest_from :: "nat \<Rightarrow> rat \<Rightarrow> int \<Rightarrow> nat \<Rightarrow> (nat \<times> int \<times> nat) option" where
  "shortest_from 0 x n k = None"
| "shortest_from (Suc fuel) x n k = (case digits_of_width x n k of
       Some r \<Rightarrow> Some r | None \<Rightarrow> shortest_from fuel x n (Suc k))"

text \<open>All the decimals of a dyadic rational, which 17 digits make unnecessary for a double.\<close>

definition exact_digits :: "rat \<Rightarrow> nat \<times> int \<times> nat" where
  "exact_digits x = (let (p, q) = quotient_of x; b = bit_length (nat q) - 1; s = nat p * 5 ^ b;
       k = nat_width s in (s, int k - int b, k))"

definition shortest_digits :: "rat \<Rightarrow> nat \<times> int \<times> nat" where
  "shortest_digits x = (case shortest_from 17 x (decimal_exponent x) 1 of
       Some r \<Rightarrow> r | None \<Rightarrow> exact_digits x)"

definition zeros :: "nat \<Rightarrow> jsstring" where
  "zeros n = replicate n CHR ''0''"

definition layout_digits :: "nat \<times> int \<times> nat \<Rightarrow> jsstring" where
  "layout_digits r = (case r of (s, n, k) \<Rightarrow> let ds = pad_digits k s in
     if int k \<le> n \<and> n \<le> 21 then ds @ zeros (nat n - k)
     else if 0 < n \<and> n \<le> 21 then take (nat n) ds @ ''.'' @ drop (nat n) ds
     else if -6 < n \<and> n \<le> 0 then ''0.'' @ zeros (nat (- n)) @ ds
     else (let e = n - 1; mant = (if k = 1 then ds else take 1 ds @ ''.'' @ drop 1 ds)
       in mant @ ''e'' @ (if 0 \<le> e then ''+'' else ''-'') @ nat_text (nat \<bar>e\<bar>)))"

text \<open>\<open>String(x)\<close>\<close>

definition js_to_string :: "rat \<Rightarrow> jsstring" where
  "js_to_string x = (if x = 0 then ''0''
     else (if x < 0 then ''-'' else []) @ layout_digits (shortest_digits \<bar>x\<bar>))"

text \<open>\<open>x.toFixed(f)\<close> for \<open>|x| < 10 ^ 21\<close> and \<open>0 < f\<close>: the nearest multiple of \<open>10 ^ -f\<close>, the larger one on
  a tie, of the absolute value.\<close>

definition fixed_units :: "nat \<Rightarrow> rat \<Rightarrow> nat" where
  "fixed_units f x = nat \<lfloor>\<bar>x\<bar> * 10 ^ f + 1 / 2\<rfloor>"

definition to_fixed :: "nat \<Rightarrow> rat \<Rightarrow> jsstring" where
  "to_fixed f x = (let n = fixed_units f x in
     (if x < 0 then ''-'' else []) @ nat_text (n div 10 ^ f) @ ''.'' @ pad_digits f n)"

section \<open>Round trip of the shortest digits\<close>

lemma pow10_pos [simp]: "0 < pow10 k" "pow10 k \<noteq> 0"
  by (simp_all add: pow10_def)

lemma pow10_eq_powi: "pow10 k = 10 powi k"
  by (simp add: pow10_def power_int_def power_one_over)

lemma pow10_add: "pow10 (a + b) = pow10 a * pow10 b"
  by (simp add: pow10_eq_powi power_int_add)

lemma pow10_nat: "0 \<le> k \<Longrightarrow> pow10 k = 10 ^ nat k"
  by (simp add: pow10_def)

lemma round_even_minus: "round_even (- x) = - round_even x"
proof (cases "x = of_int \<lfloor>x\<rfloor>")
  case True
  then show ?thesis by (metis of_int_minus round_even_of_int)
next
  case False
  then have "of_int \<lfloor>x\<rfloor> < x" using of_int_floor_le [of x] by linarith
  then have "\<lfloor>- x\<rfloor> = - \<lfloor>x\<rfloor> - 1"
    using floor_correct [of x] by (intro floor_unique) (auto simp: algebra_simps)
  then show ?thesis by (auto simp: round_even_def Let_def)
qed

lemma round_double_minus: "round_double (- x) = map_option uminus (round_double x)"
  by (simp add: round_double_def ulp_exponent_def Let_def round_even_minus)

text \<open>Digits that read back as \<open>x\<close>.\<close>

definition digits_of :: "rat \<Rightarrow> nat \<times> int \<times> nat \<Rightarrow> bool" where
  "digits_of x r \<longleftrightarrow> (case r of (s, n, k) \<Rightarrow>
     1 \<le> k \<and> s < 10 ^ k \<and> round_double (of_nat s * pow10 (n - int k)) = Some x)"

lemma digits_of_width_ok:
  assumes "digits_of_width x n k = Some r" "1 \<le> k"
  shows "digits_of x r"
proof -
  obtain s where s: "10 ^ (k - 1) \<le> s" "s \<le> 10 ^ k" "round_double (of_nat s * pow10 (n - int k)) = Some x"
    and r: "r = (if s = 10 ^ k then (10 ^ (k - 1), n + 1, k) else (s, n, k))"
    using assms(1) by (auto simp: digits_of_width_def Let_def find_Some_iff split: if_splits)
  show ?thesis
  proof (cases "s = 10 ^ k")
    case True
    have "(of_nat (10 ^ (k - 1)) :: rat) * pow10 (n + 1 - int k) = of_nat (10 ^ k) * pow10 (n - int k)"
      using assms(2) pow10_add [of "n - int k" 1] by (cases k) (simp_all add: pow10_nat [of 1] algebra_simps)
    with True s r assms(2) show ?thesis by (simp add: digits_of_def)
  next
    case False
    with s r assms(2) show ?thesis by (simp add: digits_of_def)
  qed
qed

lemma shortest_from_ok: "shortest_from fuel x n k = Some r \<Longrightarrow> 1 \<le> k \<Longrightarrow> digits_of x r"
  by (induction fuel x n k rule: shortest_from.induct)
    (auto split: option.splits dest: digits_of_width_ok)

lemma dvd_two_power: "(q::int) dvd 2 ^ n \<Longrightarrow> 0 < q \<Longrightarrow> \<exists>b. q = 2 ^ b"
proof (induction n arbitrary: q)
  case 0
  then show ?case by (auto intro: exI [of _ 0])
next
  case (Suc n)
  show ?case
  proof (cases "even q")
    case True
    then obtain r where r: "q = 2 * r" by blast
    with Suc obtain b where "r = 2 ^ b" by auto
    with r show ?thesis by (auto intro: exI [of _ "Suc b"])
  next
    case False
    then have "coprime q 2" by simp
    with Suc.prems(1) have "q dvd 2 ^ n" by (simp add: coprime_dvd_mult_right_iff)
    with Suc show ?thesis by blast
  qed
qed

lemma is_double_dyadic:
  assumes "is_double x" "0 < x"
  shows "\<exists>b. snd (quotient_of x) = 2 ^ b"
proof -
  define e where "e = ulp_exponent x"
  have "x = of_int (round_even (x / pow2 e)) * pow2 e"
    using assms by (auto simp: is_double_def round_double_def Let_def e_def split: if_splits)
  then obtain m where m: "x = of_int m * pow2 e" by blast
  obtain p q where pq: "quotient_of x = (p, q)" by fastforce
  then have x: "x = of_int p / of_int q" "0 < q" "coprime p q"
    by (auto simp: quotient_of_div quotient_of_denom_pos quotient_of_coprime)
  show ?thesis
  proof (cases "0 \<le> e")
    case True
    then have "x = of_int (m * 2 ^ nat e)" using m by (simp add: pow2_def)
    then have "quotient_of x = (m * 2 ^ nat e, 1)" using quotient_of_int by (simp only: Rat.of_int_def)
    then show ?thesis by (auto intro: exI [of _ 0])
  next
    case False
    then have "x * 2 ^ nat (- e) = of_int m" using m by (simp add: pow2_def)
    then have "of_int p * 2 ^ nat (- e) = (of_int (m * q) :: rat)" using x by (simp add: field_simps)
    then have "(of_int (p * 2 ^ nat (- e)) :: rat) = of_int (m * q)" by simp
    then have "p * 2 ^ nat (- e) = m * q" unfolding of_int_eq_iff .
    then have "q dvd p * 2 ^ nat (- e)" by simp
    with x(3) have "q dvd 2 ^ nat (- e)" by (simp add: coprime_commute coprime_dvd_mult_right_iff)
    then obtain b where "q = 2 ^ b" using dvd_two_power x(2) by blast
    with x(2) pq show ?thesis by auto
  qed
qed

lemma bit_length_power [simp]: "bit_length (2 ^ b) = Suc b"
  by (induction b) (subst bit_length.simps, simp)+

lemma exact_digits_ok:
  assumes "is_double x" "0 < x"
  shows "digits_of x (exact_digits x)"
proof -
  obtain p q where pq: "quotient_of x = (p, q)" by fastforce
  then obtain b where q: "q = 2 ^ b" using is_double_dyadic [OF assms] by auto
  have x: "x = of_int p / of_int q" using pq by (rule quotient_of_div)
  then have p: "0 < p" using assms(2) q by (simp add: zero_less_divide_iff)
  have nq: "nat q = 2 ^ b" by (simp add: q nat_power_eq)
  have "(of_nat (nat p * 5 ^ b) :: rat) * pow10 (- int b) = of_int p * (5 ^ b / 10 ^ b)"
    using p by (simp add: pow10_def)
  also have "(5 ^ b / 10 ^ b :: rat) = 1 / 2 ^ b" by (simp add: power_divide [symmetric] power_one_over)
  finally have "(of_nat (nat p * 5 ^ b) :: rat) * pow10 (- int b) = x" by (simp add: x q)
  then show ?thesis
    using assms(1) less_width [of "nat p * 5 ^ b"] nat_width_pos [of "nat p * 5 ^ b"]
    by (simp add: exact_digits_def pq nq digits_of_def Let_def is_double_def Suc_le_eq)
qed

lemma shortest_digits_ok: "is_double x \<Longrightarrow> 0 < x \<Longrightarrow> digits_of x (shortest_digits x)"
  by (auto simp: shortest_digits_def exact_digits_ok split: option.splits dest: shortest_from_ok)

text \<open>Reading digits laid out.\<close>

lemma span_digits_append:
  assumes "\<forall>c \<in> set ds. is_digit c" "r = [] \<or> \<not> is_digit (hd r)"
  shows "span_digits (ds @ r) = (ds, r)"
  using assms by (cases r) (simp_all add: span_digits_def takeWhile_append2 dropWhile_append2)

lemma not_digit_marks [simp]: "\<not> is_digit CHR ''.''" "\<not> is_digit CHR ''e''" "is_digit CHR ''0''"
  by (simp_all add: is_digit_def)

lemma zeros_digits: "c \<in> set (zeros n) \<Longrightarrow> is_digit c"
  by (auto simp: zeros_def)

lemma digits_value_zeros [simp]: "digits_value (zeros n) = 0"
  by (induction n) (auto simp: zeros_def replicate_append_same [symmetric] digits_value_snoc digit_value_def)

lemma length_zeros [simp]: "length (zeros n) = n"
  by (simp add: zeros_def)

lemma zeros_Suc: "zeros (Suc n) = CHR ''0'' # zeros n"
  by (simp add: zeros_def)

lemma read_exponent_text:
  "read_exponent (CHR ''e'' # (if 0 \<le> e then ''+'' else ''-'') @ nat_text (nat \<bar>e\<bar>)) = Some e"
  using nat_text_digits [of _ "nat \<bar>e\<bar>"] by (auto simp: read_exponent_def lower_char_def)

lemma read_decimal_point:
  assumes "\<forall>c \<in> set ds. is_digit c" "\<forall>c \<in> set fs. is_digit c" "ds \<noteq> []"
    and "r = [] \<or> \<not> is_digit (hd r)" "read_exponent r = Some e"
  shows "read_decimal (ds @ CHR ''.'' # fs @ r) =
    Some (of_nat (digits_value (ds @ fs)) * pow10 (e - int (length fs)))"
  using assms by (simp add: read_decimal_def span_digits_append)

lemma read_decimal_whole:
  assumes "\<forall>c \<in> set ds. is_digit c" "ds \<noteq> []" "r = [] \<or> hd r = CHR ''e''" "read_exponent r = Some e"
  shows "read_decimal (ds @ r) = Some (of_nat (digits_value ds) * pow10 e)"
proof -
  have "r = [] \<or> \<not> is_digit (hd r)" using assms(3) by auto
  with assms show ?thesis by (auto simp: read_decimal_def span_digits_append split: list.split)
qed

lemma read_layout:
  assumes "1 \<le> k" "s < 10 ^ k"
  shows "read_decimal (layout_digits (s, n, k)) = Some (of_nat s * pow10 (n - int k))"
proof -
  define ds where "ds = pad_digits k s"
  have ds: "length ds = k" "\<forall>c \<in> set ds. is_digit c" "digits_value ds = s" "ds \<noteq> []"
    using assms by (auto simp: ds_def digits_value_pad pad_digits_digits simp flip: length_0_conv)
  have sub: "\<forall>c \<in> set (take i ds). is_digit c" "\<forall>c \<in> set (drop i ds). is_digit c" for i
    using ds(2) by (auto dest: in_set_takeD in_set_dropD)
  have z: "\<forall>c \<in> set (zeros i @ ds). is_digit c" "\<forall>c \<in> set (ds @ zeros i). is_digit c" for i
    using ds(2) zeros_digits by auto
  have nil: "read_exponent [] = Some 0" by (simp add: read_exponent_def)
  consider "int k \<le> n" "n \<le> 21" | "0 < n" "n \<le> 21" "n < int k" | "-6 < n" "n \<le> 0"
    | "\<not> (int k \<le> n \<and> n \<le> 21)" "\<not> (0 < n \<and> n \<le> 21)" "\<not> (-6 < n \<and> n \<le> 0)" by linarith
  then show ?thesis
  proof cases
    case 1
    then have "(of_nat (digits_value (ds @ zeros (nat n - k))) :: rat) = of_nat s * pow10 (n - int k)"
      by (simp add: digits_value_append ds pow10_def nat_diff_distrib)
    with 1 read_decimal_whole [OF z(2) [of "nat n - k"], of "[]" 0] ds nil show ?thesis
      by (simp add: layout_digits_def Let_def ds_def [symmetric] pow10_def [of 0])
  next
    case 2
    have "take (nat n) ds \<noteq> []" using 2 ds by simp
    from read_decimal_point [OF sub this, of "[]" 0] 2 ds nil show ?thesis
      by (simp add: layout_digits_def Let_def ds_def [symmetric] of_nat_diff)
  next
    case 3
    have "digits_value (CHR ''0'' # zeros (nat (- n)) @ ds) = s"
      using digits_value_append [of "zeros (Suc (nat (- n)))" ds] digits_value_zeros [of "Suc (nat (- n))"]
      by (simp add: zeros_Suc ds del: digits_value_zeros)
    with 3 read_decimal_point [of "''0''" "zeros (nat (- n)) @ ds" "[]" 0] z(1) ds nil assms(1) show ?thesis
      by (simp add: layout_digits_def Let_def ds_def [symmetric])
  next
    case 4
    let ?r = "CHR ''e'' # (if 0 \<le> n - 1 then ''+'' else ''-'') @ nat_text (nat \<bar>n - 1\<bar>)"
    have r: "read_exponent ?r = Some (n - 1)" by (rule read_exponent_text)
    show ?thesis
    proof (cases "k = 1")
      case True
      then have "pad_digits (Suc 0) s = ds" by (simp add: ds_def)
      with True 4 read_decimal_whole [OF ds(2) ds(4) _ r] ds show ?thesis
        by (auto simp: layout_digits_def Let_def simp del: pad_digits.simps)
    next
      case False
      have "take 1 ds \<noteq> []" using ds by simp
      from read_decimal_point [OF sub(1) sub(2) [of 1] this _ r] ds
      have "read_decimal (take 1 ds @ CHR ''.'' # drop 1 ds @ ?r) = Some (of_nat s * pow10 (n - int k))"
        using assms(1) by (simp add: of_nat_diff)
      then show ?thesis using 4 False
        by (auto simp: layout_digits_def Let_def ds_def [symmetric])
    qed
  qed
qed

definition number_char :: "char \<Rightarrow> bool" where
  "number_char c \<longleftrightarrow> is_digit c \<or> c \<in> set ''.e+-''"

lemma number_char_no_space: "number_char c \<Longrightarrow> \<not> js_space c"
  by (auto simp: number_char_def is_digit_def js_space_def)

lemma digit_number_char: "is_digit c \<Longrightarrow> number_char c"
  by (simp add: number_char_def)

lemma number_char_marks [simp]:
  "number_char CHR ''.''" "number_char CHR ''e''" "number_char CHR ''+''" "number_char CHR ''-''"
  "number_char CHR ''0''"
  by (simp_all add: number_char_def)

lemma layout_chars: "c \<in> set (layout_digits (s, n, k)) \<Longrightarrow> number_char c"
  by (auto simp: layout_digits_def Let_def dest!: in_set_takeD in_set_dropD zeros_digits nat_text_digits
      pad_digits_digits intro: digit_number_char split: if_splits)

lemma layout_hd:
  assumes "1 \<le> k"
  shows "layout_digits (s, n, k) \<noteq> [] \<and> is_digit (hd (layout_digits (s, n, k)))"
proof -
  obtain c ds where ds: "pad_digits k s = c # ds"
    using assms by (cases "pad_digits k s") (auto simp flip: length_0_conv)
  then have "is_digit c" using pad_digits_digits [of c k s] by simp
  then show ?thesis by (auto simp: layout_digits_def Let_def ds take_Cons')
qed

lemma prefix_base_None:
  assumes "\<forall>c \<in> set s. number_char c"
  shows "prefix_base s = None"
proof -
  have "lower_char c \<noteq> CHR ''x''" "lower_char c \<noteq> CHR ''o''" "lower_char c \<noteq> CHR ''b''" if "number_char c" for c
    using that by (auto simp: number_char_def lower_char_def is_digit_def Let_def)
  with assms show ?thesis by (auto simp: prefix_base_def split: list.splits)
qed

lemma js_number_unsigned:
  assumes "\<forall>c \<in> set s. number_char c" "s \<noteq> []" "is_digit (hd s)"
  shows "js_number s = Option.bind (read_decimal s) round_double"
    "js_number (CHR ''-'' # s) = Option.bind (read_decimal s) (\<lambda>x. round_double (- x))"
proof -
  have "js_trim s = s" "js_trim (CHR ''-'' # s) = CHR ''-'' # s"
    using assms(1) by (intro js_trim_no_space, auto simp: number_char_no_space)+
  moreover have "hd s \<noteq> CHR ''-''" "hd s \<noteq> CHR ''+''" using assms(3) by (auto simp: is_digit_def)
  ultimately show "js_number s = Option.bind (read_decimal s) round_double"
    "js_number (CHR ''-'' # s) = Option.bind (read_decimal s) (\<lambda>x. round_double (- x))"
    using assms by (simp_all add: js_number_def prefix_base_None Let_def)
qed

theorem js_number_to_string:
  assumes "is_double x"
  shows "js_number (js_to_string x) = Some x"
proof (cases "x = 0")
  case True
  then show ?thesis by (simp add: js_to_string_def js_number_def js_trim_def js_space_def prefix_base_def
        read_decimal_def span_digits_def read_exponent_def digits_value_def digit_value_def)
next
  case False
  have "is_double \<bar>x\<bar>" using assms by (auto simp: is_double_def round_double_minus abs_if)
  with False have "digits_of \<bar>x\<bar> (shortest_digits \<bar>x\<bar>)" by (intro shortest_digits_ok) auto
  then obtain s n k where r: "shortest_digits \<bar>x\<bar> = (s, n, k)" and k: "1 \<le> k" "s < 10 ^ k"
    and v: "round_double (of_nat s * pow10 (n - int k)) = Some \<bar>x\<bar>"
    by (auto simp: digits_of_def split: prod.splits)
  have "\<forall>c \<in> set (layout_digits (s, n, k)). number_char c" using layout_chars by blast
  with js_number_unsigned [of "layout_digits (s, n, k)"] layout_hd [OF k(1), of s n] read_layout [OF k, of n] v
  show ?thesis using False by (simp add: js_to_string_def r round_double_minus)
qed

text \<open>The number a fixed rendering stands for, and that reading gives its nearest double.\<close>

definition fixed_value :: "nat \<Rightarrow> rat \<Rightarrow> rat" where
  "fixed_value f x = (if x < 0 then -1 else 1) * (of_nat (fixed_units f x) / 10 ^ f)"

lemma read_fixed_digits:
  assumes "0 < f"
  shows "read_decimal (nat_text (n div 10 ^ f) @ CHR ''.'' # pad_digits f n) = Some (of_nat n / 10 ^ f)"
proof -
  have "digits_value (nat_text (n div 10 ^ f) @ pad_digits f n) = n"
    by (simp add: digits_value_append digits_value_pad div_mult_mod_eq)
  with read_decimal_point [of "nat_text (n div 10 ^ f)" "pad_digits f n" "[]" 0] show ?thesis
    using assms by (simp add: nat_text_digits pad_digits_digits read_exponent_def pow10_def)
qed

theorem js_number_to_fixed:
  assumes "0 < f"
  shows "js_number (to_fixed f x) = round_double (fixed_value f x)"
proof -
  let ?n = "fixed_units f x"
  let ?s = "nat_text (?n div 10 ^ f) @ CHR ''.'' # pad_digits f ?n"
  have "\<forall>c \<in> set ?s. number_char c" "is_digit (hd ?s)" "?s \<noteq> []"
    using nat_text_digits pad_digits_digits digit_number_char nat_text_hd
    by auto
  from js_number_unsigned [OF this(1) this(3) this(2)] read_fixed_digits [OF assms, of ?n] show ?thesis
    by (simp add: to_fixed_def fixed_value_def Let_def)
qed

section \<open>Rounding keeps the order\<close>

lemma round_even_mono: "x \<le> y \<Longrightarrow> round_even x \<le> round_even y"
proof -
  assume le: "x \<le> y"
  then have f: "\<lfloor>x\<rfloor> \<le> \<lfloor>y\<rfloor>" by (rule floor_mono)
  show ?thesis
  proof (cases "\<lfloor>x\<rfloor> = \<lfloor>y\<rfloor>")
    case True
    then show ?thesis using le by (auto simp: round_even_def Let_def)
  next
    case False
    with f have "\<lfloor>x\<rfloor> + 1 \<le> \<lfloor>y\<rfloor>" by linarith
    then show ?thesis by (auto simp: round_even_def Let_def)
  qed
qed

lemma exponent_of_mono:
  assumes "0 < x" "x \<le> y"
  shows "exponent_of x \<le> exponent_of y"
proof (rule ccontr)
  assume "\<not> exponent_of x \<le> exponent_of y"
  then have "pow2 (exponent_of y + 1) \<le> pow2 (exponent_of x)" by (intro pow2_mono) simp
  with exponent_of_bounds [of x] exponent_of_bounds [of y] assms show False by linarith
qed

definition ulp :: "rat \<Rightarrow> rat" where
  "ulp x = pow2 (ulp_exponent x)"

lemma ulp_pos [simp]: "0 < ulp x" "0 \<le> ulp x" "ulp x \<noteq> 0"
  by (simp_all add: ulp_def)

lemma round_double_some:
  "round_double x = Some r \<Longrightarrow> x \<noteq> 0 \<Longrightarrow> r = of_int (round_even (x / ulp x)) * ulp x"
  by (auto simp: round_double_def ulp_def Let_def split: if_splits)

lemma double_multiple: "is_double d \<Longrightarrow> d \<noteq> 0 \<Longrightarrow> \<exists>m. d = of_int m * ulp d"
  unfolding is_double_def using round_double_some by blast

lemma round_at_most_multiple: "x \<le> of_int m * u \<Longrightarrow> 0 < u \<Longrightarrow> of_int (round_even (x / u)) * u \<le> of_int m * u"
  using round_even_mono [of "x / u" "of_int m"] by (simp add: divide_le_eq)

lemma round_at_least_multiple: "of_int m * u \<le> x \<Longrightarrow> 0 < u \<Longrightarrow> of_int m * u \<le> of_int (round_even (x / u)) * u"
  using round_even_mono [of "of_int m" "x / u"] by (simp add: le_divide_eq)

lemma finer_multiple:
  assumes "d = of_int m * ulp d" "ulp_exponent x \<le> ulp_exponent d"
  shows "\<exists>k. d = of_int k * ulp x"
proof -
  have "ulp d = of_int (2 ^ nat (ulp_exponent d - ulp_exponent x)) * ulp x"
    using assms(2) pow2_add [of "ulp_exponent d - ulp_exponent x" "ulp_exponent x"]
    by (simp add: ulp_def pow2_def [of "ulp_exponent d - ulp_exponent x"])
  then have "d = of_int (m * 2 ^ nat (ulp_exponent d - ulp_exponent x)) * ulp x"
    using assms(1) by (metis mult.assoc of_int_mult)
  then show ?thesis by blast
qed

lemma round_le_double:
  assumes "round_double x = Some r" "is_double d" "x \<le> d" "0 < x"
  shows "r \<le> d"
proof -
  have "ulp_exponent x \<le> ulp_exponent d"
    using exponent_of_mono [of x d] assms by (simp add: ulp_exponent_def)
  then obtain k where "d = of_int k * ulp x"
    using double_multiple [of d] finer_multiple [of d _ x] assms by fastforce
  then show ?thesis
    using round_at_most_multiple [of x k "ulp x"] round_double_some [OF assms(1)] assms by simp
qed

lemma round_ge_double:
  assumes "round_double x = Some r" "is_double d" "d \<le> x" "0 < d"
  shows "d \<le> r"
proof -
  have x: "0 < x" using assms by linarith
  show ?thesis
  proof (cases "ulp_exponent x \<le> ulp_exponent d")
    case True
    then obtain k where "d = of_int k * ulp x"
      using double_multiple [of d] finer_multiple [of d _ x] assms by fastforce
    then show ?thesis
      using round_at_least_multiple [of k "ulp x" x] round_double_some [OF assms(1)] assms x by simp
  next
    case False
    then have e: "ulp_exponent x = exponent_of x - 52" "exponent_of d + 1 \<le> exponent_of x"
      using x assms(4) by (auto simp: ulp_exponent_def max_def split: if_splits)
    have "of_int (2 ^ 52) * ulp x = pow2 (exponent_of x)"
      using pow2_add [of 52 "exponent_of x - 52"] by (simp add: ulp_def e(1) pow2_def [of 52])
    moreover have "pow2 (exponent_of x) \<le> x" using exponent_of_bounds x by blast
    ultimately have "pow2 (exponent_of x) \<le> r"
      using round_at_least_multiple [of "2 ^ 52" "ulp x" x] round_double_some [OF assms(1)] x by simp
    moreover have "d < pow2 (exponent_of d + 1)" using exponent_of_bounds assms(4) by blast
    moreover have "pow2 (exponent_of d + 1) \<le> pow2 (exponent_of x)" by (rule pow2_mono [OF e(2)])
    ultimately show ?thesis by linarith
  qed
qed

lemma round_double_sign:
  assumes "round_double x = Some r"
  shows "0 < x \<Longrightarrow> 0 \<le> r" "x < 0 \<Longrightarrow> r \<le> 0"
proof -
  show "0 \<le> r" if "0 < x"
    using round_at_least_multiple [of 0 "ulp x" x] round_double_some [OF assms] that by simp
  show "r \<le> 0" if "x < 0"
    using round_at_most_multiple [of x 0 "ulp x"] round_double_some [OF assms] that by simp
qed

lemma is_double_minus [simp]: "is_double (- d) \<longleftrightarrow> is_double d"
  by (auto simp: is_double_def round_double_minus)

theorem round_double_upper:
  assumes "round_double x = Some r" "is_double d" "x \<le> d"
  shows "r \<le> d"
proof -
  consider "0 < x" | "x = 0" | "x < 0" "0 \<le> d" | "x < 0" "d < 0" by linarith
  then show ?thesis
  proof cases
    case 4
    have "round_double (- x) = Some (- r)" by (simp add: round_double_minus assms(1))
    from round_ge_double [OF this, of "- d"] 4 assms show ?thesis by simp
  qed (use assms round_le_double round_double_sign in force)+
qed

theorem round_double_lower:
  assumes "round_double x = Some r" "is_double d" "d \<le> x"
  shows "d \<le> r"
proof -
  have "round_double (- x) = Some (- r)" by (simp add: round_double_minus assms(1))
  from round_double_upper [OF this, of "- d"] assms show ?thesis by simp
qed

text \<open>Integers of at most 53 bits and the six decimals of a coordinate.\<close>

lemma is_double_of_int: "\<bar>m\<bar> \<le> 2 ^ 53 \<Longrightarrow> is_double (of_int m)"
proof -
  assume m: "\<bar>m\<bar> \<le> 2 ^ 53"
  then have "(of_int \<bar>m\<bar> :: rat) \<le> of_int (2 ^ 53)" unfolding of_int_le_iff .
  moreover have "(2 :: rat) ^ 53 < 2 ^ 1024" by (rule power_strict_increasing) simp_all
  ultimately have "\<bar>of_int m :: rat\<bar> < pow2 1024" by (simp add: pow2_def)
  with m show ?thesis by (intro is_double_multiple [of _ m 0]) auto
qed

lemma nat_text_rec: "nat_text n = (if n < 10 then [digit_char n] else nat_text (n div 10) @ [digit_char n])"
  by (simp add: nat_text_def nat_width.simps [of n])

lemma digit_char_zero: "digit_char 0 = CHR ''0''"
proof -
  have "(of_char (digit_char 0) :: nat) = of_char CHR ''0''" by (simp add: digit_char_def)
  then show ?thesis by (simp only: of_char_eq_iff)
qed

lemma nat_text_hd_zero: "hd (nat_text n) = CHR ''0'' \<longleftrightarrow> n = 0"
proof (induction n rule: less_induct)
  case (less n)
  show ?case
  proof (cases "n < 10")
    case True
    then have "digit_value (hd (nat_text n)) = n" by (simp add: nat_text_rec [of n])
    moreover have "digit_value CHR ''0'' = 0" by (simp add: digit_value_def)
    moreover have "digit_char 0 = CHR ''0''" by (rule digit_char_zero)
    ultimately show ?thesis using True by (metis list.sel(1) nat_text_rec)
  next
    case False
    then have "hd (nat_text n) = hd (nat_text (n div 10))" by (simp add: nat_text_rec [of n])
    with False less [of "n div 10"] show ?thesis by (simp add: div_eq_0_iff)
  qed
qed

lemma js_number_nat_text:
  assumes "n \<le> 2 ^ 53"
  shows "js_number (nat_text n) = Some (of_nat n)"
proof -
  have "is_double (of_nat n)" using is_double_of_int [of "int n"] assms by simp
  moreover have "read_decimal (nat_text n) = Some (of_nat n)"
    using read_decimal_whole [of "nat_text n" "[]" 0] nat_text_digits by (simp add: read_exponent_def pow10_def)
  moreover have "\<forall>c \<in> set (nat_text n). number_char c" using nat_text_digits digit_number_char by blast
  ultimately show ?thesis by (simp add: js_number_unsigned is_double_def)
qed

lemma js_to_string_chars: "is_double x \<Longrightarrow> js_to_string x \<noteq> [] \<and> (\<forall>c \<in> set (js_to_string x). number_char c)"
proof -
  assume x: "is_double x"
  obtain s n k where r: "shortest_digits \<bar>x\<bar> = (s, n, k)" by (metis prod_cases3)
  have "1 \<le> k" if "x \<noteq> 0"
  proof -
    have "digits_of \<bar>x\<bar> (shortest_digits \<bar>x\<bar>)"
      using x that by (intro shortest_digits_ok) (auto simp: abs_if)
    then show ?thesis by (simp add: digits_of_def r)
  qed
  then show ?thesis using layout_hd [of k s n] layout_chars [of _ s n k] by (auto simp: js_to_string_def r)
qed

lemma js_to_string_trim: "is_double x \<Longrightarrow> js_trim (js_to_string x) = js_to_string x"
  using js_to_string_chars number_char_no_space by (intro js_trim_no_space) blast

end
