(* ===== verification/Js_Date.thy ===== *)
theory Js_Date
  imports Js_Number
begin

text \<open>
  Dates as the frontend uses them: an instant is a number of milliseconds since the epoch
  (\<open>int\<close>), \<open>NaN\<close> is \<open>None\<close>. The theory holds the proleptic Gregorian calendar,
  \<open>Date.parse\<close> on the ISO profile of ECMAScript, \<open>toISOString\<close>, and their round trip.

  A date and time without an offset is local time: \<open>tz\<close>, the browser's conversion of a local
  reading to UTC, is an argument. A string outside the ISO profile reads as \<open>None\<close>: what an
  engine makes of it is implementation-defined, and the API serves ISO strings.
\<close>

section \<open>The calendar\<close>

definition leap_year :: "int \<Rightarrow> bool" where
  "leap_year y \<longleftrightarrow> y mod 4 = 0 \<and> (y mod 100 \<noteq> 0 \<or> y mod 400 = 0)"

text \<open>Days from 1 January of year 1 to 1 January of year \<open>y\<close>.\<close>

definition days_before_year :: "int \<Rightarrow> int" where
  "days_before_year y = 365 * (y - 1) + (y - 1) div 4 - (y - 1) div 100 + (y - 1) div 400"

definition feb_days :: "int \<Rightarrow> int" where
  "feb_days y = (if leap_year y then 29 else 28)"

definition month_lengths :: "int \<Rightarrow> int list" where
  "month_lengths y = [31, feb_days y, 31, 30, 31, 30, 31, 31, 30, 31, 30, 31]"

definition days_before_month :: "int \<Rightarrow> nat \<Rightarrow> int" where
  "days_before_month y m = sum_list (take (m - 1) (month_lengths y))"

definition days_in_month :: "int \<Rightarrow> nat \<Rightarrow> int" where
  "days_in_month y m = month_lengths y ! (m - 1)"

definition epoch_days :: int where
  "epoch_days = 719162"

definition days_of :: "int \<Rightarrow> nat \<Rightarrow> nat \<Rightarrow> int" where
  "days_of y m d = days_before_year y + days_before_month y m + (int d - 1) - epoch_days"

definition year_of_day :: "int \<Rightarrow> int" where
  "year_of_day n = (let y = 400 * n div 146097 + 1
     in if n < days_before_year y then y - 1
        else if days_before_year (y + 1) \<le> n then y + 1 else y)"

text \<open>The month and the day of the month of the \<open>k\<close>-th day of a year, counted from 0.\<close>

fun month_of :: "int list \<Rightarrow> nat \<Rightarrow> int \<Rightarrow> nat \<times> int" where
  "month_of [] m k = (m, k)"
| "month_of (l # ls) m k = (if k < l then (m, k) else month_of ls (Suc m) (k - l))"

definition civil_of :: "int \<Rightarrow> int \<times> nat \<times> nat" where
  "civil_of days = (let n = days + epoch_days; y = year_of_day n;
       (m, k) = month_of (month_lengths y) 1 (n - days_before_year y)
     in (y, m, nat k + 1))"

lemma div_step:
  assumes "0 < (k::int)"
  shows "y div k = (y - 1) div k + (if y mod k = 0 then 1 else 0)"
proof -
  define q r where "q = (y - 1) div k" and "r = (y - 1) mod k"
  have y: "y = k * q + r + 1" and r: "0 \<le> r" "r < k"
    using assms by (simp_all add: q_def r_def algebra_simps)
  show ?thesis
  proof (cases "r + 1 = k")
    case True
    then have "y = k * (q + 1)" using y by (simp add: algebra_simps)
    then have "y div k = q + 1" "y mod k = 0" using assms by simp_all
    then show ?thesis by (simp add: q_def [symmetric])
  next
    case False
    have "y div k = q" using assms y r False by (intro int_div_pos_eq [of _ _ _ "r + 1"]) auto
    moreover have "y mod k = r + 1" using assms y r False by (intro int_mod_pos_eq [of _ _ q]) auto
    ultimately show ?thesis using r by (simp add: q_def [symmetric])
  qed
qed

lemma days_before_next_year:
  "days_before_year (y + 1) = days_before_year y + (if leap_year y then 366 else 365)"
proof -
  have mods: "y mod 400 = 0 \<Longrightarrow> y mod 100 = 0" "y mod 100 = 0 \<Longrightarrow> y mod 4 = 0"
    using dvd_trans [of 100 400 y] dvd_trans [of 4 100 y] by (simp_all add: mod_eq_0_iff_dvd)
  define a b c where "a = (y - 1) div 4" and "b = (y - 1) div 100" and "c = (y - 1) div 400"
  have divs: "y div 4 = a + (if y mod 4 = 0 then 1 else 0)"
    "y div 100 = b + (if y mod 100 = 0 then 1 else 0)"
    "y div 400 = c + (if y mod 400 = 0 then 1 else 0)"
    unfolding a_def b_def c_def by (rule div_step, simp)+
  show ?thesis
    unfolding days_before_year_def leap_year_def add_diff_cancel_right' divs
      a_def [symmetric] b_def [symmetric] c_def [symmetric]
    using mods by (cases "y mod 4 = 0"; cases "y mod 100 = 0"; cases "y mod 400 = 0")
      (simp_all only: if_True if_False simp_thms, simp_all)
qed

lemma year_length: "sum_list (month_lengths y) = (if leap_year y then 366 else 365)"
  by (simp add: month_lengths_def feb_days_def)

lemma days_before_year_linear:
  "400 * days_before_year z \<le> 146097 * (z - 1) + 800"
  "146097 * (z - 1) - 1200 \<le> 400 * days_before_year z"
proof -
  have fl: "k * (x div k) \<le> x" "x < k * (x div k) + k" if "0 < k" for x k :: int
    using that pos_mod_sign [of k x] pos_mod_bound [of k x] mult_div_mod_eq [of k x] by linarith+
  obtain a b c where abc: "a = (z - 1) div 4" "b = (z - 1) div 100" "c = (z - 1) div 400" by simp
  have "4 * a \<le> z - 1" "z - 1 < 4 * a + 4" "100 * b \<le> z - 1" "z - 1 < 100 * b + 100"
    "400 * c \<le> z - 1" "z - 1 < 400 * c + 400"
    unfolding abc by (rule fl, simp)+
  then have "400 * (365 * (z - 1) + a - b + c) \<le> 146097 * (z - 1) + 800"
    and "146097 * (z - 1) - 1200 \<le> 400 * (365 * (z - 1) + a - b + c)"
    by (simp_all add: algebra_simps)
  then show "400 * days_before_year z \<le> 146097 * (z - 1) + 800"
    "146097 * (z - 1) - 1200 \<le> 400 * days_before_year z"
    unfolding days_before_year_def abc [symmetric] by simp_all
qed

lemma year_of_day_bounds:
  "days_before_year (year_of_day n) \<le> n" "n < days_before_year (year_of_day n + 1)"
proof -
  define y where "y = 400 * n div 146097 + 1"
  have est: "146097 * (y - 1) \<le> 400 * n" "400 * n < 146097 * (y - 1) + 146097"
    unfolding y_def using pos_mod_sign [of 146097 "400 * n"] pos_mod_bound [of 146097 "400 * n"]
    by (simp_all only: minus_mult_div_eq_mod [symmetric]) auto
  have upper: "400 * days_before_year z \<le> 146097 * (z - 1) + 800" for z
    by (rule days_before_year_linear)
  have lower: "146097 * (z - 1) - 1200 \<le> 400 * days_before_year z" for z
    by (rule days_before_year_linear)
  have "400 * days_before_year (y - 1) \<le> 400 * n"
    using upper [of "y - 1"] est(1) by (simp add: algebra_simps)
  moreover have "400 * n < 400 * days_before_year (y + 2)"
    using lower [of "y + 2"] est(2) by (simp add: algebra_simps)
  ultimately have "days_before_year (y - 1) \<le> n" "n < days_before_year (y + 1 + 1)"
    by (simp_all add: add.assoc)
  then show "days_before_year (year_of_day n) \<le> n" "n < days_before_year (year_of_day n + 1)"
    by (auto simp: year_of_day_def y_def Let_def)
qed

lemma days_before_year_mono: "x \<le> y \<Longrightarrow> days_before_year x \<le> days_before_year y"
proof (induction y rule: int_ge_induct)
  case (step i)
  then show ?case by (simp add: days_before_next_year)
qed simp

lemma year_of_day_unique:
  assumes "days_before_year y \<le> n" "n < days_before_year (y + 1)"
  shows "year_of_day n = y"
proof (rule antisym)
  show "year_of_day n \<le> y"
    using days_before_year_mono [of "y + 1" "year_of_day n"] year_of_day_bounds [of n] assms
    by force
  show "y \<le> year_of_day n"
    using days_before_year_mono [of "year_of_day n + 1" y] year_of_day_bounds [of n] assms
    by force
qed

lemma month_of_correct:
  assumes "0 \<le> k" "k < sum_list ls" "month_of ls m k = (m', d)"
  shows "m \<le> m' \<and> m' < m + length ls \<and> 0 \<le> d \<and> d < ls ! (m' - m) \<and>
    sum_list (take (m' - m) ls) + d = k"
  using assms
proof (induction ls m k rule: month_of.induct)
  case (2 l ls m k)
  show ?case
  proof (cases "k < l")
    case True
    with 2 show ?thesis by auto
  next
    case False
    with 2 have "Suc m \<le> m' \<and> m' < Suc m + length ls \<and> 0 \<le> d \<and> d < ls ! (m' - Suc m) \<and>
        sum_list (take (m' - Suc m) ls) + d = k - l"
      by auto
    moreover from this have "m' - m = Suc (m' - Suc m)" by auto
    ultimately show ?thesis by auto
  qed
qed simp

text \<open>A calendar date that exists.\<close>

definition valid_date :: "int \<Rightarrow> nat \<Rightarrow> nat \<Rightarrow> bool" where
  "valid_date y m d \<longleftrightarrow> 1 \<le> m \<and> m \<le> 12 \<and> 1 \<le> d \<and> int d \<le> days_in_month y m"

lemma civil_of_correct:
  assumes "civil_of days = (y, m, d)"
  shows "valid_date y m d \<and> days_of y m d = days"
proof -
  define n where "n = days + epoch_days"
  obtain k where y: "y = year_of_day n"
    and mk: "month_of (month_lengths y) 1 (n - days_before_year y) = (m, k)" and d: "d = nat k + 1"
    using assms by (auto simp: civil_of_def n_def Let_def split: prod.splits)
  have "0 \<le> n - days_before_year y" "n - days_before_year y < sum_list (month_lengths y)"
    using year_of_day_bounds [of n] by (simp_all add: y year_length days_before_next_year split: if_splits)
  from month_of_correct [OF this mk] show ?thesis
    by (auto simp: valid_date_def days_in_month_def days_of_def days_before_month_def d n_def
        month_lengths_def)
qed

section \<open>Printing\<close>

definition day_ms :: int where
  "day_ms = 86400000"

definition year_text :: "int \<Rightarrow> jsstring" where
  "year_text y = (if 0 \<le> y \<and> y \<le> 9999 then pad_digits 4 (nat y)
     else if y < 0 then CHR ''-'' # pad_digits 6 (nat (- y)) else CHR ''+'' # pad_digits 6 (nat y))"

definition to_iso_string :: "int \<Rightarrow> jsstring" where
  "to_iso_string t = (let (y, m, d) = civil_of (t div day_ms); ms = nat (t mod day_ms)
     in year_text y @ ''-'' @ pad_digits 2 m @ ''-'' @ pad_digits 2 d @ ''T'' @
        pad_digits 2 (ms div 3600000) @ '':'' @ pad_digits 2 (ms div 60000 mod 60) @ '':'' @
        pad_digits 2 (ms div 1000 mod 60) @ ''.'' @ pad_digits 3 (ms mod 1000) @ ''Z'')"

section \<open>Parsing\<close>

text \<open>Exactly \<open>w\<close> digits, their value and the rest.\<close>

fun take_digits :: "nat \<Rightarrow> nat \<Rightarrow> jsstring \<Rightarrow> (nat \<times> jsstring) option" where
  "take_digits 0 acc s = Some (acc, s)"
| "take_digits (Suc w) acc [] = None"
| "take_digits (Suc w) acc (c # cs) =
     (if is_digit c then take_digits w (10 * acc + digit_value c) cs else None)"

definition take_char :: "char \<Rightarrow> jsstring \<Rightarrow> jsstring option" where
  "take_char c s = (case s of [] \<Rightarrow> None | d # ds \<Rightarrow> if d = c then Some ds else None)"

text \<open>A separator and two digits.\<close>

definition take_part :: "char \<Rightarrow> jsstring \<Rightarrow> (nat \<times> jsstring) option" where
  "take_part c s = Option.bind (take_char c s) (take_digits 2 0)"

text \<open>The year, signed with six digits in the expanded form (\<open>-000000\<close> is no year).\<close>

definition take_year :: "jsstring \<Rightarrow> (int \<times> jsstring) option" where
  "take_year s = (case s of
       CHR ''+'' # r \<Rightarrow> map_option (\<lambda>(n, t). (int n, t)) (take_digits 6 0 r)
     | CHR ''-'' # r \<Rightarrow> Option.bind (take_digits 6 0 r) (\<lambda>(n, t). if n = 0 then None else Some (- int n, t))
     | _ \<Rightarrow> map_option (\<lambda>(n, t). (int n, t)) (take_digits 4 0 s))"

text \<open>The date part: \<open>YYYY\<close>, \<open>YYYY-MM\<close> or \<open>YYYY-MM-DD\<close>.\<close>

definition take_date :: "jsstring \<Rightarrow> ((int \<times> nat \<times> nat) \<times> jsstring) option" where
  "take_date s = Option.bind (take_year s) (\<lambda>(y, r).
     case take_part CHR ''-'' r of
       None \<Rightarrow> Some ((y, 1, 1), r)
     | Some (m, r') \<Rightarrow> (case take_part CHR ''-'' r' of
           None \<Rightarrow> Some ((y, m, 1), r')
         | Some (d, r'') \<Rightarrow> Some ((y, m, d), r'')))"

text \<open>The milliseconds of a fraction: its first three digits, with zeros after a shorter one.\<close>

definition fraction_ms :: "jsstring \<Rightarrow> nat" where
  "fraction_ms ds = (case take_digits 3 0 (take 3 (ds @ ''000'')) of Some (n, _) \<Rightarrow> n | None \<Rightarrow> 0)"

definition take_fraction :: "jsstring \<Rightarrow> (nat \<times> jsstring) option" where
  "take_fraction s = (case take_char CHR ''.'' s of
       None \<Rightarrow> Some (0, s)
     | Some r \<Rightarrow> (let ds = takeWhile is_digit r in
         if ds = [] then None else Some (fraction_ms ds, dropWhile is_digit r)))"

text \<open>The time part \<open>HH:mm\<close>, \<open>HH:mm:ss\<close> or \<open>HH:mm:ss.sss\<close>, as milliseconds of the day.\<close>

definition take_time :: "jsstring \<Rightarrow> (int \<times> jsstring) option" where
  "take_time s = Option.bind (take_digits 2 0 s) (\<lambda>(h, r). Option.bind (take_part CHR '':'' r) (\<lambda>(mi, r1).
     Option.bind (case take_part CHR '':'' r1 of
         None \<Rightarrow> Some ((0, 0), r1)
       | Some (sec, r2) \<Rightarrow> map_option (\<lambda>(ms, r3). ((sec, ms), r3)) (take_fraction r2))
     (\<lambda>((sec, ms), rest).
       if (h < 24 \<and> mi < 60 \<and> sec < 60) \<or> (h = 24 \<and> mi = 0 \<and> sec = 0 \<and> ms = 0)
       then Some (3600000 * int h + 60000 * int mi + 1000 * int sec + int ms, rest) else None)))"

text \<open>The offset that ends the string: \<open>Z\<close>, \<open>+HH:mm\<close>, \<open>-HH:mm\<close>, or none for local time.\<close>

definition offset_ms :: "jsstring \<Rightarrow> int option option" where
  "offset_ms s = (case s of
       [] \<Rightarrow> Some None
     | c # r \<Rightarrow>
         if c = CHR ''Z'' then (if r = [] then Some (Some 0) else None)
         else if c = CHR ''+'' \<or> c = CHR ''-'' then
           Option.bind (take_digits 2 0 r) (\<lambda>(h, r1). Option.bind (take_part CHR '':'' r1) (\<lambda>(mi, r2).
             if r2 = [] \<and> h < 24 \<and> mi < 60
             then Some (Some ((if c = CHR ''-'' then -1 else 1) * (3600000 * int h + 60000 * int mi)))
             else None))
         else None)"

text \<open>An instant a \<open>Date\<close> can hold: within 8.64e15 ms of the epoch.\<close>

definition time_clip :: "int \<Rightarrow> int option" where
  "time_clip t = (if \<bar>t\<bar> \<le> 8640000000000000 then Some t else None)"

definition date_parse :: "(int \<Rightarrow> int) \<Rightarrow> jsstring \<Rightarrow> int option" where
  "date_parse tz s = Option.bind (take_date s) (\<lambda>((y, m, d), r).
     if \<not> valid_date y m d then None
     else (case take_char CHR ''T'' r of
         None \<Rightarrow> if r = [] then time_clip (days_of y m d * day_ms) else None
       | Some r1 \<Rightarrow> Option.bind (take_time r1) (\<lambda>(ms, r2). Option.bind (offset_ms r2) (\<lambda>off.
           let local = days_of y m d * day_ms + ms
           in time_clip (case off of None \<Rightarrow> tz local | Some o' \<Rightarrow> local - o')))))"

section \<open>Round trip\<close>

lemma take_digits_append:
  "take_digits (v + w) acc s = Option.bind (take_digits v acc s) (\<lambda>(a, r). take_digits w a r)"
  by (induction v acc s rule: take_digits.induct) simp_all

lemma take_digits_pad: "take_digits w acc (pad_digits w n @ s) = Some (acc * 10 ^ w + n mod 10 ^ w, s)"
proof (induction w arbitrary: n acc s)
  case (Suc w)
  have "take_digits (Suc w) acc (pad_digits (Suc w) n @ s) =
      take_digits (w + 1) acc (pad_digits w (n div 10) @ digit_char n # s)" by simp
  also have "\<dots> = Some (10 * (acc * 10 ^ w + n div 10 mod 10 ^ w) + n mod 10, s)"
    unfolding take_digits_append by (simp add: Suc)
  also have "10 * (n div 10 mod 10 ^ w) + n mod 10 = n mod 10 ^ Suc w"
    by (simp add: mod_mult2_eq mult.commute add.commute)
  then have "10 * (acc * 10 ^ w + n div 10 mod 10 ^ w) + n mod 10 = acc * 10 ^ Suc w + n mod 10 ^ Suc w"
    by (simp add: algebra_simps)
  finally show ?case .
qed simp

lemma take_part_pad: "n < 100 \<Longrightarrow> take_part c (c # pad_digits 2 n @ s) = Some (n, s)"
  using take_digits_pad [of 2 0 n s] by (simp add: take_part_def take_char_def)

text \<open>The instants whose year has four digits.\<close>

definition four_digit_year :: "int \<Rightarrow> bool" where
  "four_digit_year t \<longleftrightarrow> (let (y, m, d) = civil_of (t div day_ms) in 0 \<le> y \<and> y \<le> 9999)"

lemma valid_date_bounds: "valid_date y m d \<Longrightarrow> 1 \<le> m \<and> m \<le> 12 \<and> 1 \<le> d \<and> d \<le> 31"
proof -
  assume v: "valid_date y m d"
  then have "m - 1 < length (month_lengths y)" by (auto simp: valid_date_def month_lengths_def)
  then have "month_lengths y ! (m - 1) \<in> set (month_lengths y)" by (rule nth_mem)
  moreover have "\<forall>l \<in> set (month_lengths y). l \<le> 31" by (simp add: month_lengths_def feb_days_def)
  ultimately show ?thesis using v by (force simp: valid_date_def days_in_month_def)
qed

lemma take_date_text:
  assumes "0 \<le> y" "y \<le> 9999" "m < 100" "d < 100"
  shows "take_date (pad_digits 4 (nat y) @ CHR ''-'' # pad_digits 2 m @ CHR ''-'' # pad_digits 2 d @ s) =
    Some ((y, m, d), s)"
proof -
  have ne: "pad_digits 4 n @ r = x # xs \<Longrightarrow> is_digit x" for n r x xs
    using pad_digits_digits [of x 4 n] by (cases "pad_digits 4 n")
      (auto simp del: pad_digits.simps dest: arg_cong [of _ _ length])
  have y: "take_year (pad_digits 4 (nat y) @ r) = Some (y, r)" for r
    using take_digits_pad [of 4 0 "nat y" r] assms ne [of "nat y" r]
    by (auto simp: take_year_def is_digit_def split: list.splits char.splits bool.splits)
  show ?thesis using assms by (simp add: take_date_def y take_part_pad)
qed

lemma take_fraction_pad: 
  assumes "n < 1000" "\<not> is_digit c"
  shows "take_fraction (CHR ''.'' # pad_digits 3 n @ c # s) = Some (n, c # s)"
proof -
  have t: "takeWhile is_digit (pad_digits 3 n @ c # s) = pad_digits 3 n"
    "dropWhile is_digit (pad_digits 3 n @ c # s) = c # s"
    using assms(2) pad_digits_digits [of _ 3 n]
    by (simp_all add: takeWhile_append2 dropWhile_append2)
  have "fraction_ms (pad_digits 3 n) = n"
    using take_digits_pad [of 3 0 n "[]"] assms(1) by (simp add: fraction_ms_def)
  moreover have "pad_digits 3 n \<noteq> []" by (metis length_pad_digits list.size(3) zero_neq_numeral)
  ultimately show ?thesis by (simp add: take_fraction_def take_char_def t)
qed

lemma take_time_text:
  assumes "h < 24" "mi < 60" "sec < 60" "ms < 1000"
  shows "take_time (pad_digits 2 h @ CHR '':'' # pad_digits 2 mi @ CHR '':'' # pad_digits 2 sec @
      CHR ''.'' # pad_digits 3 ms @ CHR ''Z'' # s) =
    Some (3600000 * int h + 60000 * int mi + 1000 * int sec + int ms, CHR ''Z'' # s)"
proof -
  have "\<not> is_digit CHR ''Z''" by (simp add: is_digit_def)
  then show ?thesis
    using assms take_digits_pad [of 2 0 h] 
    by (simp add: take_time_def take_part_pad take_fraction_pad)
qed

lemma ms_split:
  assumes "0 \<le> (n::int)" "n < 86400000"
  shows "nat n div 3600000 < 24" "3600000 * int (nat n div 3600000) + 60000 * int (nat n div 60000 mod 60) +
    1000 * int (nat n div 1000 mod 60) + int (nat n mod 1000) = n"
proof -
  obtain k where n: "n = int k" using assms(1) by (metis nonneg_int_cases)
  have k: "k < 86400000" using assms(2) n by linarith
  then show "nat n div 3600000 < 24" by (simp add: n less_mult_imp_div_less)
  have d: "k div 60000 = k div 1000 div 60" "k div 3600000 = k div 1000 div 60 div 60"
    by (simp_all only: div_mult2_eq [symmetric]) simp_all
  have "3600000 * a + 60000 * b + 1000 * c + r = k"
    if "1000 * u + r = k" "60 * v + c = u" "60 * a + b = v" for a b c r u v :: nat
    using that by simp
  from this [OF mult_div_mod_eq mult_div_mod_eq mult_div_mod_eq]
  have "3600000 * (k div 3600000) + 60000 * (k div 60000 mod 60) + 1000 * (k div 1000 mod 60) + k mod 1000 = k"
    unfolding d .
  from arg_cong [OF this, of int] show "3600000 * int (nat n div 3600000) + 60000 * int (nat n div 60000 mod 60) +
    1000 * int (nat n div 1000 mod 60) + int (nat n mod 1000) = n"
    by (simp add: n)
qed

lemma four_digit_clip:
  assumes "four_digit_year t"
  shows "time_clip t = Some t"
proof -
  obtain y m d where c: "civil_of (t div day_ms) = (y, m, d)" by (metis prod_cases3)
  then have y: "year_of_day (t div day_ms + epoch_days) = y"
    by (auto simp: civil_of_def Let_def split: prod.splits)
  have "0 \<le> y" "y \<le> 9999" using assms by (auto simp: four_digit_year_def c)
  moreover have "days_before_year y \<le> t div day_ms + epoch_days" "t div day_ms + epoch_days < days_before_year (y + 1)"
    using year_of_day_bounds [of "t div day_ms + epoch_days"] by (simp_all add: y)
  moreover have "days_before_year 0 \<le> days_before_year y" "days_before_year (y + 1) \<le> days_before_year 10000"
    using calculation by (auto intro: days_before_year_mono)
  ultimately have "-719528 \<le> t div day_ms" "t div day_ms < 3000000"
    by (simp_all add: days_before_year_def [of 0] days_before_year_def [of 10000] epoch_days_def)
  then have "-719528 * day_ms \<le> t div day_ms * day_ms" "t div day_ms * day_ms \<le> 3000000 * day_ms"
    by (simp_all add: day_ms_def)
  moreover have "t = t div day_ms * day_ms + t mod day_ms" "0 \<le> t mod day_ms" "t mod day_ms < day_ms"
    by (simp_all add: day_ms_def)
  ultimately have "\<bar>t\<bar> \<le> 8640000000000000" unfolding day_ms_def by linarith
  then show ?thesis by (simp add: time_clip_def)
qed

theorem date_parse_iso:
  assumes "four_digit_year t"
  shows "date_parse tz (to_iso_string t) = Some t"
proof -
  obtain y m d where c: "civil_of (t div day_ms) = (y, m, d)" by (metis prod_cases3)
  from civil_of_correct [OF c] have v: "valid_date y m d" and days: "days_of y m d = t div day_ms" by auto
  have y: "0 \<le> y" "y \<le> 9999" using assms by (auto simp: four_digit_year_def c)
  have md: "m < 100" "d < 100" using valid_date_bounds [OF v] by auto
  have ms: "0 \<le> t mod day_ms" "t mod day_ms < 86400000" by (simp_all add: day_ms_def)
  have iso: "to_iso_string t = pad_digits 4 (nat y) @ CHR ''-'' # pad_digits 2 m @ CHR ''-'' # pad_digits 2 d @
      CHR ''T'' # pad_digits 2 (nat (t mod day_ms) div 3600000) @ CHR '':'' #
      pad_digits 2 (nat (t mod day_ms) div 60000 mod 60) @ CHR '':'' #
      pad_digits 2 (nat (t mod day_ms) div 1000 mod 60) @ CHR ''.'' #
      pad_digits 3 (nat (t mod day_ms) mod 1000) @ CHR ''Z'' # []"
    using y by (simp only: to_iso_string_def year_text_def c Let_def prod.case if_True simp_thms append.simps
        append_assoc append_Cons append_Nil)
  have "take_time (pad_digits 2 (nat (t mod day_ms) div 3600000) @ CHR '':'' #
      pad_digits 2 (nat (t mod day_ms) div 60000 mod 60) @ CHR '':'' #
      pad_digits 2 (nat (t mod day_ms) div 1000 mod 60) @ CHR ''.'' #
      pad_digits 3 (nat (t mod day_ms) mod 1000) @ CHR ''Z'' # []) = Some (t mod day_ms, ''Z'')"
    using ms_split(2) [OF ms] by (subst take_time_text) (simp_all add: ms_split(1) [OF ms])
  then show ?thesis
    unfolding date_parse_def iso take_date_text [OF y md]
    using v four_digit_clip [OF assms] by (simp add: take_char_def offset_ms_def days Let_def del: pad_digits.simps)
qed

end
