(* ===== verification/Js_Json.thy ===== *)
theory Js_Json
  imports Js_Number
begin

text \<open>
  JSON values, as the frontend reads a response body or a snapshot whose shape it does not trust,
  and the parts of a URL that \<open>new URL\<close> reads. The URL parser itself belongs to the platform:
  each definition that needs it takes it as \<open>parse\<close>, with \<open>None\<close> for a throw.
\<close>

datatype json =
    JNull
  | JBool bool
  | JNum rat
  | JStr jsstring
  | JArr "json list"
  | JObj "(jsstring \<times> json) list"

text \<open>A property of an object; \<open>None\<close> is \<open>undefined\<close>, also on a value with no such property.\<close>

definition field :: "json \<Rightarrow> jsstring \<Rightarrow> json option" where
  "field v k = (case v of JObj kvs \<Rightarrow> map_of kvs k | _ \<Rightarrow> None)"

definition is_string :: "json option \<Rightarrow> jsstring option" where
  "is_string v = (case v of Some (JStr s) \<Rightarrow> Some s | _ \<Rightarrow> None)"

lemma is_string_simps [simp]:
  "is_string (Some (JStr s)) = Some s" "is_string None = None" "is_string (Some JNull) = None"
  by (simp_all add: is_string_def)

record url =
  url_protocol :: jsstring
  url_username :: jsstring
  url_password :: jsstring
  url_hostname :: jsstring
  url_port :: jsstring
  url_pathname :: jsstring
  url_search :: jsstring
  url_hash :: jsstring

type_synonym url_parser = "jsstring \<Rightarrow> url option"

section \<open>Percent encoding\<close>

definition hex_digit :: "nat \<Rightarrow> char" where
  "hex_digit n = (if n < 10 then char_of (48 + n) else char_of (55 + n))"

definition percent :: "nat \<Rightarrow> jsstring" where
  "percent b = [CHR ''%'', hex_digit (b div 16), hex_digit (b mod 16)]"

text \<open>The UTF-8 bytes of a code unit below 256.\<close>

definition utf8 :: "char \<Rightarrow> nat list" where
  "utf8 c = (let n = of_char c in if n < 128 then [n] else [192 + n div 64, 128 + n mod 64])"

definition uri_unreserved :: "char \<Rightarrow> bool" where
  "uri_unreserved c \<longleftrightarrow> is_alnum c \<or> c \<in> set ''-_.!~*'' \<or> of_char c \<in> {39, 40, 41 :: nat}"

definition encode_char :: "char \<Rightarrow> jsstring" where
  "encode_char c = (if uri_unreserved c then [c] else concat (map percent (utf8 c)))"

definition encode_uri_component :: "jsstring \<Rightarrow> jsstring" where
  "encode_uri_component s = concat (map encode_char s)"

lemma hex_digit_inj: "a < 16 \<Longrightarrow> b < 16 \<Longrightarrow> hex_digit a = hex_digit b \<longleftrightarrow> a = b"
  by (auto simp: hex_digit_def split: if_splits dest: arg_cong [of _ _ "of_char :: char \<Rightarrow> nat"])

lemma div_mod_inj: "a div k = b div k \<Longrightarrow> a mod k = b mod k \<Longrightarrow> a = (b :: nat)"
  by (metis div_mult_mod_eq)

lemma percent_inj: "a < 256 \<Longrightarrow> b < 256 \<Longrightarrow> percent a = percent b \<longleftrightarrow> a = b"
  by (auto simp: percent_def hex_digit_inj div_less_iff_less_mult dest: div_mod_inj)

lemma percent_append:
  "a < 256 \<Longrightarrow> b < 256 \<Longrightarrow> percent a @ r = percent b @ r' \<longleftrightarrow> a = b \<and> r = r'"
  using percent_inj [of a b] by (auto simp: percent_def)

lemma percent_reserved: "\<not> uri_unreserved CHR ''%''"
  by (simp add: uri_unreserved_def is_alnum_def is_alpha_def is_digit_def)

text \<open>The encodings of two characters are never a prefix of each other.\<close>

lemma utf8_concat_inj:
  assumes "concat (map percent (utf8 c)) @ r = concat (map percent (utf8 d)) @ r'"
  shows "c = d \<and> r = r'"
proof -
  let ?n = "of_char c :: nat" and ?m = "of_char d :: nat"
  have b: "?n < 256" "?m < 256" by simp_all
  then have "?n div 64 < 4" "?m div 64 < 4" by (simp_all add: div_less_iff_less_mult)
  then have "?n = ?m \<and> r = r'"
    using assms b by (auto simp: utf8_def Let_def percent_append split: if_splits dest: div_mod_inj)
  then show ?thesis by simp
qed

lemma encode_char_prefix:
  assumes "encode_char c @ r = encode_char d @ r'"
  shows "c = d \<and> r = r'"
proof -
  have reserved: "\<exists>t. concat (map percent (utf8 e)) = CHR ''%'' # t" for e
    by (simp add: utf8_def Let_def percent_def)
  consider "uri_unreserved c" "uri_unreserved d" | "uri_unreserved c" "\<not> uri_unreserved d"
    | "\<not> uri_unreserved c" "uri_unreserved d" | "\<not> uri_unreserved c" "\<not> uri_unreserved d" by blast
  then show ?thesis
  proof cases
    case 1
    then show ?thesis using assms by (simp add: encode_char_def)
  next
    case 2
    obtain t where "concat (map percent (utf8 d)) = CHR ''%'' # t" using reserved by blast
    then show ?thesis using 2 assms percent_reserved by (auto simp: encode_char_def)
  next
    case 3
    obtain t where "concat (map percent (utf8 c)) = CHR ''%'' # t" using reserved by blast
    then show ?thesis using 3 assms percent_reserved by (auto simp: encode_char_def)
  next
    case 4
    with assms have "concat (map percent (utf8 c)) @ r = concat (map percent (utf8 d)) @ r'"
      by (simp add: encode_char_def)
    then show ?thesis by (rule utf8_concat_inj)
  qed
qed

theorem encode_uri_component_inject:
  "encode_uri_component s = encode_uri_component t \<longleftrightarrow> s = t"
proof (induction s arbitrary: t)
  case Nil
  then show ?case
    by (cases t) (auto simp: encode_uri_component_def encode_char_def utf8_def Let_def percent_def)
next
  case (Cons c s)
  show ?case
  proof (cases t)
    case Nil
    then show ?thesis
      by (auto simp: encode_uri_component_def encode_char_def utf8_def Let_def percent_def)
  next
    case (Cons d t')
    have "encode_uri_component (c # s) = encode_uri_component (d # t') \<longleftrightarrow>
        c = d \<and> encode_uri_component s = encode_uri_component t'"
      using encode_char_prefix [of c "encode_uri_component s" d "encode_uri_component t'"]
      by (auto simp: encode_uri_component_def)
    then show ?thesis using Cons \<open>\<And>t. (encode_uri_component s = encode_uri_component t) = (s = t)\<close> by simp
  qed
qed

end
