(* ===== verification/Format.thy ===== *)
theory Format
  imports Js_Date Js_Json
begin

text \<open>
  \<open>lib/format.ts\<close>, \<open>lib/routes.ts\<close> and \<open>lib/pagination.ts\<close>: what a surface prints of an instant,
  a count or a URL, and the paths built from an id. The month names of the \<open>en-GB\<close> locale belong
  to the platform and are the argument \<open>month\<close>; \<open>dash\<close> is the em dash a null instant prints, which
  has no code unit below 256; \<open>tz\<close> reads a local time (\<open>Js_Date\<close>) and \<open>local\<close> shifts an instant to
  the browser's zone.
\<close>

section \<open>Dates\<close>

definition DAY_MS :: int where
  "DAY_MS = 86400000"

definition day_text :: "(nat \<Rightarrow> jsstring) \<Rightarrow> int \<Rightarrow> jsstring" where
  "day_text month t = (let (y, m, d) = civil_of (t div day_ms)
     in nat_text d @ '' '' @ month m @ '' '' @ int_text y)"

definition format_date :: "(int \<Rightarrow> int) \<Rightarrow> (int \<Rightarrow> int) \<Rightarrow> (nat \<Rightarrow> jsstring) \<Rightarrow> jsstring \<Rightarrow> jsstring" where
  "format_date tz local month input = (case date_parse tz input of
       None \<Rightarrow> input | Some t \<Rightarrow> day_text month (local t))"

definition format_instant_date :: "(int \<Rightarrow> int) \<Rightarrow> (nat \<Rightarrow> jsstring) \<Rightarrow> jsstring \<Rightarrow> jsstring" where
  "format_instant_date tz month stamp = (case date_parse tz stamp of
       None \<Rightarrow> stamp | Some t \<Rightarrow> day_text month t)"

definition time_text :: "int \<Rightarrow> jsstring" where
  "time_text t = (let ms = nat (t mod day_ms)
     in pad_digits 2 (ms div 3600000) @ '':'' @ pad_digits 2 (ms div 60000 mod 60))"

definition format_instant :: "(int \<Rightarrow> int) \<Rightarrow> (nat \<Rightarrow> jsstring) \<Rightarrow> jsstring \<Rightarrow> jsstring option \<Rightarrow> jsstring" where
  "format_instant tz month dash stamp' = (case stamp' of
       None \<Rightarrow> dash
     | Some stamp \<Rightarrow> (case date_parse tz stamp of
         None \<Rightarrow> stamp
       | Some t \<Rightarrow> format_instant_date tz month stamp @ '', '' @ time_text t @ '' UTC''))"

definition format_instant_or_date :: "(int \<Rightarrow> int) \<Rightarrow> (nat \<Rightarrow> jsstring) \<Rightarrow> jsstring \<Rightarrow> jsstring \<Rightarrow> jsstring" where
  "format_instant_or_date tz month dash stamp = (case date_parse tz stamp of
       None \<Rightarrow> stamp
     | Some t \<Rightarrow> if t mod DAY_MS = 0 then format_instant_date tz month stamp
         else format_instant tz month dash (Some stamp))"

definition hhmm :: "jsstring \<Rightarrow> jsstring" where
  "hhmm time = take 5 time"

definition to_datetime_local_utc :: "(int \<Rightarrow> int) \<Rightarrow> jsstring option \<Rightarrow> jsstring" where
  "to_datetime_local_utc tz stamp' = (case stamp' of
       None \<Rightarrow> []
     | Some stamp \<Rightarrow> (case date_parse tz stamp of None \<Rightarrow> [] | Some t \<Rightarrow> take 16 (to_iso_string t)))"

section \<open>Counts\<close>

definition plural_noun :: "nat \<Rightarrow> jsstring \<Rightarrow> jsstring" where
  "plural_noun n noun = (if n = 1 then noun else noun @ ''s'')"

text \<open>\<open>toLocaleString("en-US")\<close> of a count: a comma before each group of three digits.\<close>

fun group_thousands :: "nat \<Rightarrow> jsstring" where
  "group_thousands n = (if n < 1000 then nat_text n
     else group_thousands (n div 1000) @ '','' @ pad_digits 3 n)"

declare group_thousands.simps [simp del]

definition count_label :: "nat \<Rightarrow> jsstring \<Rightarrow> jsstring" where
  "count_label n noun = group_thousands n @ '' '' @ plural_noun n noun"

text \<open>\<open>Math.max(0, Math.floor(...))\<close>; an unparsable instant makes the days \<open>NaN\<close>, which no
  comparison equals 0 and prints so.\<close>

definition format_open_age :: "(int \<Rightarrow> int) \<Rightarrow> int \<Rightarrow> jsstring \<Rightarrow> jsstring" where
  "format_open_age tz now since = (case date_parse tz since of
       None \<Rightarrow> ''Open NaN days''
     | Some t \<Rightarrow> (let days = max 0 ((now - t) div DAY_MS)
         in if days = 0 then ''Open today'' else ''Open '' @ count_label (nat days) ''day''))"

section \<open>URLs\<close>

definition safe_hostname :: "url_parser \<Rightarrow> jsstring \<Rightarrow> jsstring" where
  "safe_hostname parse u = (case parse u of
       None \<Rightarrow> u
     | Some p \<Rightarrow> if starts_with (url_hostname p) ''www.'' then drop 4 (url_hostname p) else url_hostname p)"

definition parse_http :: "url_parser \<Rightarrow> jsstring \<Rightarrow> url option" where
  "parse_http parse href = (case parse href of
       None \<Rightarrow> None
     | Some p \<Rightarrow> if url_protocol p \<noteq> ''http:'' \<and> url_protocol p \<noteq> ''https:'' then None
         else if url_hostname p \<noteq> [] then Some p else None)"

section \<open>Routes\<close>

definition event_href :: "jsstring \<Rightarrow> jsstring" where
  "event_href eid = ''/events/'' @ encode_uri_component eid"

definition request_href :: "jsstring \<Rightarrow> jsstring" where
  "request_href eid = ''/requests/'' @ encode_uri_component eid"

definition QUEUE_PARAM :: jsstring where
  "QUEUE_PARAM = ''queue''"

definition event_edit_href :: "jsstring \<Rightarrow> bool \<Rightarrow> jsstring" where
  "event_edit_href eid in_queue =
     event_href eid @ ''/edit'' @ (if in_queue then ''?'' @ QUEUE_PARAM @ ''=1'' else [])"

definition profile_href :: "jsstring \<Rightarrow> jsstring" where
  "profile_href name = ''/profile/'' @ encode_uri_component name"

definition detections_queue_href :: "jsstring \<Rightarrow> jsstring" where
  "detections_queue_href name = profile_href name @ ''/detections''"

datatype submit_mode = Single | Xpost | Bulk

fun submit_mode_text :: "submit_mode \<Rightarrow> jsstring" where
  "submit_mode_text Single = ''single''"
| "submit_mode_text Xpost = ''xpost''"
| "submit_mode_text Bulk = ''bulk''"

definition submit_href :: "submit_mode option \<Rightarrow> jsstring" where
  "submit_href mode = (case mode of Some m \<Rightarrow> ''/submit?mode='' @ submit_mode_text m | None \<Rightarrow> ''/submit'')"

section \<open>Cursor pagination\<close>

definition with_cursor :: "jsstring \<Rightarrow> jsstring option \<Rightarrow> jsstring" where
  "with_cursor base cursor = (case cursor of
       None \<Rightarrow> base
     | Some c \<Rightarrow> if c = [] then base else base @ ''?cursor='' @ encode_uri_component c)"

text \<open>\<open>/<([^>]+)>\s*;\s*rel="?next"?(?=\s*(?:[,;]|$))/\<close>; code unit 34 is the double quote.\<close>

definition quote_char :: char where
  "quote_char = char_of (34 :: nat)"

definition rx_quote :: rx where
  "rx_quote = ROpt (RCls (\<lambda>c. c = quote_char))"

definition NEXT_LINK :: cap_pattern where
  "NEXT_LINK = [(False, RLit ''<''), (True, RPlus (RCls (\<lambda>c. c \<noteq> CHR ''>''))), (False, RLit ''>''),
     (False, RStar (RCls js_space)), (False, RLit '';''), (False, RStar (RCls js_space)), (False, RLit ''rel=''),
     (False, rx_quote), (False, RLit ''next''), (False, rx_quote)]"

definition link_end :: "jsstring \<Rightarrow> bool" where
  "link_end t = (case dropWhile js_space t of [] \<Rightarrow> True | c # _ \<Rightarrow> c = CHR '','' \<or> c = CHR '';'')"

text \<open>\<open>query\<close> reads the parameters of a URL; \<open>None\<close> is a URL the parser refuses.\<close>

definition next_cursor :: "(jsstring \<Rightarrow> params option) \<Rightarrow> jsstring option \<Rightarrow> jsstring option" where
  "next_cursor query header = (case header of
       None \<Rightarrow> None
     | Some h \<Rightarrow> (case rx_exec link_end NEXT_LINK h of
         Some [u] \<Rightarrow> Option.bind (query u) (\<lambda>ps. params_get ps ''cursor'')
       | _ \<Rightarrow> None))"

section \<open>Facts\<close>

lemma hrefs_inject [simp]:
  "event_href a = event_href b \<longleftrightarrow> a = b" "profile_href a = profile_href b \<longleftrightarrow> a = b"
  "request_href a = request_href b \<longleftrightarrow> a = b"
  by (simp_all add: event_href_def profile_href_def request_href_def encode_uri_component_inject)

lemma datetime_local_iso:
  "four_digit_year t \<Longrightarrow> to_datetime_local_utc tz (Some (to_iso_string t)) = take 16 (to_iso_string t)"
  by (simp add: to_datetime_local_utc_def date_parse_iso)

text \<open>
  An instant prints its UTC day alone exactly when it falls on midnight UTC, and its day
  with hours and minutes otherwise.
\<close>

theorem instant_day_alone_iff_midnight:
  assumes "four_digit_year t"
  shows "format_instant_or_date tz month dash (to_iso_string t) =
    (if t mod 86400000 = 0 then day_text month t else day_text month t @ '', '' @ time_text t @ '' UTC'')"
  by (simp add: format_instant_or_date_def format_instant_def format_instant_date_def date_parse_iso [OF assms]
      DAY_MS_def)

lemma instant_day_alone_iff_midnight_witness:
  "format_instant_or_date (\<lambda>x. x) (\<lambda>m. ''Mar'') ''-'' (to_iso_string 0) = day_text (\<lambda>m. ''Mar'') 0"
proof -
  have "four_digit_year 0" by (simp add: four_digit_year_def day_ms_def civil_of_def epoch_days_def year_of_day_def
        days_before_year_def month_lengths_def feb_days_def leap_year_def)
  from instant_day_alone_iff_midnight [OF this, of "\<lambda>x. x" "\<lambda>m. ''Mar''" "''-''"] show ?thesis by simp
qed

lemma first_quoted:
  "rx_first rx_quote (quote_char # r) [quote_char] r"
  "rx_first rx_quote (CHR ''n'' # r) [] (CHR ''n'' # r)"
  "rx_first rx_quote [] [] []"
proof -
  have "(of_char CHR ''n'' :: nat) \<noteq> of_char quote_char" by (simp add: quote_char_def)
  then have "CHR ''n'' \<noteq> quote_char" by metis
  then show "rx_first rx_quote (CHR ''n'' # r) [] (CHR ''n'' # r)"
    by (auto simp: rx_quote_def intro: first_opt_none)
qed (auto simp: rx_quote_def intro: first_opt first_opt_none first_cls)

text \<open>
  The cursor a \<open>Link\<close> header offers: for a header of one link with relation \<open>next\<close>, quoted or
  not, it is the \<open>cursor\<close> parameter of the URL between the angle brackets, however the URL's own
  commas fall.
\<close>

theorem next_cursor_of_link:
  assumes "u \<noteq> []" "CHR ''>'' \<notin> set u" "quoted = [] \<or> quoted = [quote_char]"
  shows "next_cursor query (Some (''<'' @ u @ ''>; rel='' @ quoted @ ''next'' @ quoted)) =
    Option.bind (query u) (\<lambda>ps. params_get ps ''cursor'')"
proof -
  have sp: "js_space CHR '' ''" "\<not> js_space CHR '';''" "\<not> js_space CHR ''r''" by (simp_all add: js_space_def)
  have plus: "rx_first (RPlus (RCls (\<lambda>c. c \<noteq> CHR ''>''))) (u @ ''>'' @ r) u (''>'' @ r)" for r
    using assms by (intro first_plus_append) auto
  have blank: "rx_first (RStar (RCls js_space)) ('' '' @ ''rel='' @ r) '' '' (''rel='' @ r)" for r
    using first_star_cls [of js_space "'' '' @ ''rel='' @ r"] sp by simp
  have none: "rx_first (RStar (RCls js_space)) ('';'' @ r) [] ('';'' @ r)" for r
    using sp by (intro first_star_none) simp
  have q: "rx_first rx_quote (quoted @ ''next'' @ quoted) quoted (''next'' @ quoted)" "rx_first rx_quote quoted quoted []"
    using assms(3) first_quoted by auto
  note rel = caps_skip [OF first_lit [of "''rel=''"] caps_skip [OF q(1) caps_skip [OF first_lit caps_skip [OF q(2) caps_first_Nil]]]]
  note semi = caps_skip [OF none caps_skip [OF first_lit caps_skip [OF blank rel]]]
  have "caps_first NEXT_LINK (''<'' @ u @ ''>'' @ '';'' @ '' '' @ ''rel='' @ quoted @ ''next'' @ quoted) [u] []"
    unfolding NEXT_LINK_def by (rule caps_skip [OF first_lit caps_take [OF plus caps_skip [OF first_lit semi]]])
  then have "caps_first NEXT_LINK (''<'' @ u @ ''>; rel='' @ quoted @ ''next'' @ quoted) [u] []" by simp
  then have "rx_exec link_end NEXT_LINK (''<'' @ u @ ''>; rel='' @ quoted @ ''next'' @ quoted) = Some [u]"
    by (rule rx_exec_first) (simp add: link_end_def)
  then show ?thesis by (simp add: next_cursor_def)
qed

lemma next_cursor_of_link_witness:
  "next_cursor (\<lambda>_. Some [(''cursor'', ''a,b'')]) (Some (''<'' @ ''x?bbox=1,2'' @ ''>; rel='' @ [quote_char] @ ''next'' @ [quote_char])) =
    Some ''a,b''"
  using next_cursor_of_link [of "''x?bbox=1,2''" "[quote_char]" "\<lambda>_. Some [(''cursor'', ''a,b'')]"]
  by (simp add: params_get_def)

end
