(* ===== verification/Api_Errors.thy ===== *)
theory Api_Errors
  imports Format
begin

text \<open>
  \<open>lib/errors.ts\<close>, \<open>lib/api.ts\<close>, \<open>lib/session.ts\<close> and \<open>lib/auth.ts\<close>: what a failed request says
  to a reader, the request path, the rejected-session listener and the record of a held session.
  A response body is a \<open>json\<close> value, \<open>None\<close> where it is not JSON; a property read of a null value
  and the first letter of an empty name throw, which is the \<open>None\<close> of the functions that can.
\<close>

section \<open>Readable errors\<close>

record readable_error =
  re_title :: "jsstring option"
  re_message :: jsstring
  re_fields :: "(jsstring \<times> jsstring) list"

definition NO_ANSWER :: readable_error where
  "NO_ANSWER = \<lparr>re_title = Some ''Vidit does not respond'', re_message = ''Check your connection, then retry.'',
     re_fields = []\<rparr>"

definition SERVER_FAULT :: readable_error where
  "SERVER_FAULT = \<lparr>re_title = Some ''Vidit hit a problem'', re_message = ''Retry in a moment.'', re_fields = []\<rparr>"

definition SOMETHING_WENT_WRONG :: jsstring where
  "SOMETHING_WENT_WRONG = ''Something went wrong.''"

definition plain_error :: "jsstring \<Rightarrow> readable_error" where
  "plain_error message = \<lparr>re_title = None, re_message = message, re_fields = []\<rparr>"

definition error_text :: "readable_error \<Rightarrow> jsstring" where
  "error_text e = (case re_title e of
       Some t \<Rightarrow> if t = [] then re_message e else t @ ''. '' @ re_message e
     | None \<Rightarrow> re_message e)"

text \<open>\<open>retryAfter / 60\<close> is a double; it is below \<open>retryAfter\<close>, so it never overflows.\<close>

definition rounded :: "rat \<Rightarrow> rat" where
  "rounded x = (case round_double x of Some r \<Rightarrow> r | None \<Rightarrow> x)"

definition wait_text :: "rat option \<Rightarrow> jsstring" where
  "wait_text retry_after = (case retry_after of
       None \<Rightarrow> ''in a few minutes''
     | Some n \<Rightarrow>
         if n < 60 then (if n = 1 then ''in a second'' else ''in '' @ js_to_string n @ '' seconds'')
         else (let minutes = \<lceil>rounded (n / 60)\<rceil>
           in if minutes = 1 then ''in a minute'' else ''in '' @ js_to_string (of_int minutes) @ '' minutes''))"

definition rate_limited :: "jsstring option \<Rightarrow> rat option \<Rightarrow> readable_error" where
  "rate_limited code retry_after = (let lead =
       (if code = Some ''read_quota_exceeded'' then ''You reached the hourly reading limit.'' else ''Too many attempts.'')
     in plain_error (lead @ '' Try again '' @ wait_text retry_after @ ''.''))"

section \<open>A refused body\<close>

text \<open>\<open>toUpperCase\<close> of one Latin-1 character; the two whose capital is outside Latin-1 stay.\<close>

definition upper_text :: "char \<Rightarrow> jsstring" where
  "upper_text c = (let n = of_char c :: nat in
     if n = 223 then ''SS''
     else if 97 \<le> n \<and> n \<le> 122 \<or> 224 \<le> n \<and> n \<le> 254 \<and> n \<noteq> 247 then [char_of (n - 32)] else [c])"

definition sentence :: "jsstring \<Rightarrow> jsstring" where
  "sentence s = (case js_trim s of
       [] \<Rightarrow> []
     | c # cs \<Rightarrow> (let capital = upper_text c @ cs
         in if last capital \<in> set ''.!?'' then capital else capital @ ''.''))"

text \<open>A value in a template literal, and \<open>Number\<close> of a value.\<close>

fun json_text :: "json \<Rightarrow> jsstring" and json_items :: "json list \<Rightarrow> jsstring list" where
  "json_text JNull = ''null''"
| "json_text (JBool b) = (if b then ''true'' else ''false'')"
| "json_text (JNum x) = js_to_string x"
| "json_text (JStr s) = s"
| "json_text (JArr vs) = js_join '','' (json_items vs)"
| "json_text (JObj kvs) = ''[object Object]''"
| "json_items [] = []"
| "json_items (v # vs) = (case v of JNull \<Rightarrow> [] | _ \<Rightarrow> json_text v) # json_items vs"

definition text_of :: "json option \<Rightarrow> jsstring" where
  "text_of v = (case v of None \<Rightarrow> ''undefined'' | Some w \<Rightarrow> json_text w)"

definition number_of :: "json option \<Rightarrow> rat option" where
  "number_of v = (case v of
       None \<Rightarrow> None
     | Some JNull \<Rightarrow> Some 0
     | Some (JBool b) \<Rightarrow> Some (if b then 1 else 0)
     | Some (JNum x) \<Rightarrow> Some x
     | Some (JStr s) \<Rightarrow> js_number s
     | Some (JArr vs) \<Rightarrow> js_number (json_text (JArr vs))
     | Some (JObj _) \<Rightarrow> None)"

definition read_ctx :: "json \<Rightarrow> jsstring \<Rightarrow> json option" where
  "read_ctx item k = Option.bind (field item ''ctx'') (\<lambda>ctx. field ctx k)"

definition value_error_text :: "jsstring \<Rightarrow> jsstring" where
  "value_error_text msg =
     (if starts_with msg ''value is not a valid email address'' then ''Not a valid email address.''
      else sentence (if starts_with msg ''Value error, '' then drop 13 msg else msg))"

definition text_or_empty :: "jsstring option \<Rightarrow> jsstring" where
  "text_or_empty v = (case v of Some s \<Rightarrow> s | None \<Rightarrow> [])"

definition validation_text :: "json \<Rightarrow> jsstring option" where
  "validation_text item = (if item = JNull then None else Some (
     let ty = text_or_empty (is_string (field item ''type'')); msg = text_or_empty (is_string (field item ''msg''))
     in if ty = ''missing'' then ''Required.''
     else if ty = ''string_too_short'' then
       (case number_of (read_ctx item ''min_length'') of
          Some n \<Rightarrow> if n \<le> 1 then ''Required.'' else text_of (read_ctx item ''min_length'') @ '' characters at least.''
        | None \<Rightarrow> text_of (read_ctx item ''min_length'') @ '' characters at least.'')
     else if ty = ''string_too_long'' then text_of (read_ctx item ''max_length'') @ '' characters at most.''
     else if ty = ''too_short'' then text_of (read_ctx item ''min_length'') @ '' items at least.''
     else if ty = ''too_long'' then text_of (read_ctx item ''max_length'') @ '' items at most.''
     else if ty = ''greater_than_equal'' then text_of (read_ctx item ''ge'') @ '' or more.''
     else if ty = ''greater_than'' then ''More than '' @ text_of (read_ctx item ''gt'') @ ''.''
     else if ty = ''less_than_equal'' then text_of (read_ctx item ''le'') @ '' at most.''
     else if ty = ''less_than'' then ''Less than '' @ text_of (read_ctx item ''lt'') @ ''.''
     else if ty \<in> set [''int_parsing'', ''int_type'', ''float_parsing'', ''float_type''] then ''Must be a number.''
     else if ty \<in> set [''url_parsing'', ''url_scheme'', ''url_type''] then ''Not a valid link.''
     else if ty \<in> set [''literal_error'', ''enum''] then ''Pick one of the offered values.''
     else if ty = ''value_error'' then value_error_text msg
     else ''This value is not accepted.''))"

text \<open>The last name past the first entry of \<open>loc\<close>.\<close>

definition field_of :: "json option \<Rightarrow> jsstring option" where
  "field_of loc = (case loc of
       Some (JArr (_ # rest)) \<Rightarrow>
         (case filter (\<lambda>v. is_string (Some v) \<noteq> None) (rev rest) of v # _ \<Rightarrow> is_string (Some v) | [] \<Rightarrow> None)
     | _ \<Rightarrow> None)"

definition field_label :: "jsstring \<Rightarrow> jsstring option" where
  "field_label name = (case map (\<lambda>c. if c = CHR ''_'' then CHR '' '' else c) name of
       [] \<Rightarrow> None | c # cs \<Rightarrow> Some (upper_text c @ cs))"

text \<open>\<open>key in object\<close> is also true of what every object inherits.\<close>

definition OBJECT_PROTOTYPE :: "jsstring list" where
  "OBJECT_PROTOTYPE = [''constructor'', ''__defineGetter__'', ''__defineSetter__'', ''hasOwnProperty'',
     ''__lookupGetter__'', ''__lookupSetter__'', ''isPrototypeOf'', ''propertyIsEnumerable'', ''toString'',
     ''valueOf'', ''__proto__'', ''toLocaleString'']"

definition key_in :: "jsstring \<Rightarrow> (jsstring \<times> 'a) list \<Rightarrow> bool" where
  "key_in k kvs \<longleftrightarrow> k \<in> fst ` set kvs \<or> k \<in> set OBJECT_PROTOTYPE"

text \<open>One turn of the loop over the refusals: the fields read so far and the lead message.\<close>

definition add_refusal ::
    "json \<Rightarrow> (jsstring \<times> jsstring) list \<times> jsstring option \<Rightarrow> ((jsstring \<times> jsstring) list \<times> jsstring option) option" where
  "add_refusal item acc = (let (fields, message) = acc in
     Option.bind (validation_text item) (\<lambda>refusal.
       let name = field_of (field item ''loc'');
           fields' = (case name of
               Some k \<Rightarrow> if key_in k fields then fields else fields @ [(k, refusal)] | None \<Rightarrow> fields)
       in case message of
            Some m \<Rightarrow> Some (fields', message)
          | None \<Rightarrow> (case name of
              None \<Rightarrow> Some (fields', Some refusal)
            | Some k \<Rightarrow> map_option (\<lambda>lab. (fields', Some (lab @ '': '' @ refusal))) (field_label k))))"

fun add_refusals ::
    "json list \<Rightarrow> (jsstring \<times> jsstring) list \<times> jsstring option \<Rightarrow> ((jsstring \<times> jsstring) list \<times> jsstring option) option" where
  "add_refusals [] acc = Some acc"
| "add_refusals (item # items) acc = Option.bind (add_refusal item acc) (add_refusals items)"

definition validation_error :: "json list \<Rightarrow> readable_error option" where
  "validation_error items = map_option (\<lambda>(fields, message).
     \<lparr>re_title = None, re_message = (case message of Some m \<Rightarrow> m | None \<Rightarrow> ''This value is not accepted.''),
      re_fields = fields\<rparr>) (add_refusals items ([], None))"

definition fallback_for :: "int \<Rightarrow> readable_error" where
  "fallback_for status =
     (if 500 \<le> status then SERVER_FAULT
      else if status = 404 then plain_error ''Not found. It may have been deleted.''
      else if status = 403 then plain_error ''You cannot do this.''
      else plain_error SOMETHING_WENT_WRONG)"

text \<open>The code and the message of a \<open>detail\<close> that is a string or a typed error.\<close>

definition detail_parts :: "json option \<Rightarrow> jsstring option \<times> jsstring option" where
  "detail_parts detail = (case detail of
       Some (JStr s) \<Rightarrow> (None, Some s)
     | Some (JObj kvs) \<Rightarrow>
         if key_in ''code'' kvs then
           (is_string (field (JObj kvs) ''code''), is_string (field (JObj kvs) ''message''))
         else (None, None)
     | _ \<Rightarrow> (None, None))"

definition read_response :: "int \<Rightarrow> json option \<Rightarrow> rat option \<Rightarrow> (readable_error \<times> jsstring option) option" where
  "read_response status body retry_after = (let detail = Option.bind body (\<lambda>b. field b ''detail'') in
     case detail of
       Some (JArr (i # is)) \<Rightarrow> map_option (\<lambda>e. (e, None)) (validation_error (i # is))
     | _ \<Rightarrow> (let (code, message) = detail_parts detail in
         if status = 429 then Some (rate_limited code retry_after, code)
         else if message = None \<or> (500 \<le> status \<and> code = None) then Some (fallback_for status, code)
         else Some (plain_error (text_or_empty message), code)))"

section \<open>The request path\<close>

record api_error =
  ae_message :: jsstring
  ae_status :: int
  ae_code :: "jsstring option"
  ae_rejected :: bool
  ae_readable :: readable_error

text \<open>A thrown value: an \<open>ApiError\<close>, an abort, another \<open>Error\<close> with its message, or anything else.\<close>

datatype thrown =
    Api_thrown api_error
  | Error_thrown jsstring
  | Other_thrown

definition read_error :: "thrown \<Rightarrow> jsstring \<Rightarrow> readable_error" where
  "read_error err fallback = (case err of
       Api_thrown e \<Rightarrow> ae_readable e
     | Error_thrown message \<Rightarrow> plain_error (if message = [] then fallback else message)
     | Other_thrown \<Rightarrow> plain_error fallback)"

definition error_message :: "thrown \<Rightarrow> jsstring \<Rightarrow> jsstring" where
  "error_message err fallback = error_text (read_error err fallback)"

definition SAFE_METHODS :: "jsstring list" where
  "SAFE_METHODS = [''GET'', ''HEAD'', ''OPTIONS'']"

definition SESSION_PROBES :: "jsstring list" where
  "SESSION_PROBES = [''/auth/login'', ''/auth/me'']"

record api_request =
  rq_path :: jsstring
  rq_method :: "jsstring option"
  rq_form_data :: bool
  rq_headers :: "(jsstring \<times> jsstring) list"

record api_response =
  rs_status :: int
  rs_body :: "json option"
  rs_retry_after :: "jsstring option"
  rs_link :: "jsstring option"

text \<open>How a \<open>fetch\<close> ends: with a response, on an abort (an error that is no
  \<open>ApiError\<close>), or with no answer.\<close>

datatype fetch_outcome = Answered api_response | Aborted jsstring | Unanswered

definition retry_after_seconds :: "api_response \<Rightarrow> rat option" where
  "retry_after_seconds res = (case rs_retry_after res of
       None \<Rightarrow> None
     | Some h \<Rightarrow> (case js_number h of Some v \<Rightarrow> if 0 < v then Some v else None | None \<Rightarrow> None))"

text \<open>A header set twice keeps its place and its last value.\<close>

fun set_header :: "(jsstring \<times> jsstring) list \<Rightarrow> jsstring \<Rightarrow> jsstring \<Rightarrow> (jsstring \<times> jsstring) list" where
  "set_header [] k v = [(k, v)]"
| "set_header ((j, w) # hs) k v = (if j = k then (k, v) # hs else (j, w) # set_header hs k v)"

definition upper_ascii :: "jsstring \<Rightarrow> jsstring" where
  "upper_ascii s = map (\<lambda>c. let n = of_char c :: nat in if 97 \<le> n \<and> n \<le> 122 then char_of (n - 32) else c) s"

definition CSRF_HEADER :: jsstring where
  "CSRF_HEADER = ''X-CSRF-Token''"

definition request_headers :: "jsstring option \<Rightarrow> api_request \<Rightarrow> (jsstring \<times> jsstring) list" where
  "request_headers csrf rq = (
     let headers = (if rq_form_data rq then rq_headers rq
           else set_header (rq_headers rq) ''Content-Type'' ''application/json'');
         method = upper_ascii (case rq_method rq of Some m \<Rightarrow> m | None \<Rightarrow> ''GET'')
     in if method \<in> set SAFE_METHODS then headers
        else (case csrf of Some t \<Rightarrow> if t = [] then headers else set_header headers CSRF_HEADER t | None \<Rightarrow> headers))"

definition response_ok :: "api_response \<Rightarrow> bool" where
  "response_ok res \<longleftrightarrow> 200 \<le> rs_status res \<and> rs_status res \<le> 299"

text \<open>Whether a response is asked of the session listener: a 401 of a call that is no probe.\<close>

definition path_only :: "jsstring \<Rightarrow> jsstring" where
  "path_only p = takeWhile (\<lambda>c. c \<noteq> CHR ''?'') p"

definition asks_session :: "api_request \<Rightarrow> api_response \<Rightarrow> bool" where
  "asks_session rq res \<longleftrightarrow> rs_status res = 401 \<and> path_only (rq_path rq) \<notin> set SESSION_PROBES"

text \<open>\<open>send\<close>: \<open>listener\<close> is what the session listener would answer, and the second result says
  whether it was asked.\<close>

definition send :: "bool \<Rightarrow> api_request \<Rightarrow> fetch_outcome \<Rightarrow> (thrown + api_response) \<times> bool" where
  "send listener rq outcome = (case outcome of
       Aborted message \<Rightarrow> (Inl (Error_thrown message), False)
     | Unanswered \<Rightarrow> (Inl (Api_thrown \<lparr>ae_message = error_text NO_ANSWER, ae_status = 0, ae_code = None,
         ae_rejected = False, ae_readable = NO_ANSWER\<rparr>), False)
     | Answered res \<Rightarrow>
         if response_ok res then (Inr res, False)
         else (case read_response (rs_status res) (rs_body res) (retry_after_seconds res) of
             None \<Rightarrow> (Inl (Error_thrown ''TypeError''), False)
           | Some (e, code) \<Rightarrow> (Inl (Api_thrown \<lparr>ae_message = error_text e, ae_status = rs_status res, ae_code = code,
               ae_rejected = asks_session rq res \<and> listener, ae_readable = e\<rparr>), asks_session rq res)))"

text \<open>\<open>apiFetch\<close> and \<open>apiFetchPage\<close>: nothing on 204, else the body, which throws when it is not JSON.\<close>

definition response_json :: "api_response \<Rightarrow> thrown + json option" where
  "response_json res = (if rs_status res = 204 then Inr None
     else case rs_body res of Some b \<Rightarrow> Inr (Some b) | None \<Rightarrow> Inl (Error_thrown ''SyntaxError''))"

definition api_fetch :: "bool \<Rightarrow> api_request \<Rightarrow> fetch_outcome \<Rightarrow> thrown + json option" where
  "api_fetch listener rq outcome = (case fst (send listener rq outcome) of
       Inl err \<Rightarrow> Inl err | Inr res \<Rightarrow> response_json res)"

definition api_fetch_page ::
    "(jsstring \<Rightarrow> params option) \<Rightarrow> bool \<Rightarrow> api_request \<Rightarrow> fetch_outcome \<Rightarrow> thrown + (json option \<times> jsstring option)" where
  "api_fetch_page query listener rq outcome = (case fst (send listener rq outcome) of
       Inl err \<Rightarrow> Inl err
     | Inr res \<Rightarrow> (case response_json res of
         Inl err \<Rightarrow> Inl err | Inr items \<Rightarrow> Inr (items, next_cursor query (rs_link res))))"

section \<open>The session listener and the held session\<close>

text \<open>One listener at most; its unregister leaves a listener registered since.\<close>

definition on_session_rejected :: "'l \<Rightarrow> 'l option \<Rightarrow> 'l option" where
  "on_session_rejected fn listener = Some fn"

definition unregister_listener :: "'l \<Rightarrow> 'l option \<Rightarrow> 'l option" where
  "unregister_listener fn listener = (if listener = Some fn then None else listener)"

definition report_session_rejected :: "('l \<Rightarrow> bool) \<Rightarrow> 'l option \<Rightarrow> bool" where
  "report_session_rejected answer listener = (case listener of Some fn \<Rightarrow> answer fn | None \<Rightarrow> False)"

definition is_session_rejected :: "thrown \<Rightarrow> bool" where
  "is_session_rejected err \<longleftrightarrow> (case err of Api_thrown e \<Rightarrow> ae_rejected e | _ \<Rightarrow> False)"

text \<open>\<open>localStorage\<close>: \<open>None\<close> where the browser blocks it and each access throws.\<close>

type_synonym storage = "(jsstring \<rightharpoonup> jsstring) option"

definition HELD_KEY :: jsstring where
  "HELD_KEY = ''vidit:session-held''"

definition mark_session_held :: "bool \<Rightarrow> storage \<Rightarrow> storage" where
  "mark_session_held held st = (case st of None \<Rightarrow> None
     | Some m \<Rightarrow> Some (if held then m(HELD_KEY \<mapsto> ''1'') else m(HELD_KEY := None)))"

definition take_ended_session :: "storage \<Rightarrow> bool \<times> storage" where
  "take_ended_session st = (case st of None \<Rightarrow> (False, None)
     | Some m \<Rightarrow> (m HELD_KEY = Some ''1'', Some (m(HELD_KEY := None))))"

section \<open>Passwords and cookies\<close>

definition PASSWORD_MIN_LENGTH :: nat where
  "PASSWORD_MIN_LENGTH = 8"

definition PASSWORD_MAX_BYTES :: nat where
  "PASSWORD_MAX_BYTES = 72"

definition CSRF_COOKIE :: jsstring where
  "CSRF_COOKIE = ''vidit_csrf''"

definition utf8_length :: "jsstring \<Rightarrow> nat" where
  "utf8_length s = sum_list (map (\<lambda>c. length (utf8 c)) s)"

definition validate_new_password :: "jsstring \<Rightarrow> jsstring \<Rightarrow> jsstring option" where
  "validate_new_password password lab =
     (if length password < PASSWORD_MIN_LENGTH
      then Some (lab @ '' must be at least '' @ nat_text PASSWORD_MIN_LENGTH @ '' characters.'')
      else if PASSWORD_MAX_BYTES < utf8_length password
      then Some (lab @ '' must be at most '' @ nat_text PASSWORD_MAX_BYTES @ '' bytes. A plain letter, digit or symbol takes 1 byte; an accented letter or emoji takes 2 to 4.'')
      else None)"

definition validate_password_change :: "jsstring \<Rightarrow> jsstring \<Rightarrow> jsstring \<Rightarrow> jsstring option" where
  "validate_password_change password confirm lab = (case validate_new_password password lab of
       Some m \<Rightarrow> Some m
     | None \<Rightarrow> if password \<noteq> confirm then Some (lab @ ''s don't match.'') else None)"

text \<open>\<open>document.cookie.split("; ")\<close>, and the first part that names the cookie; \<open>decode\<close> is
  \<open>decodeURIComponent\<close>, \<open>None\<close> where it throws.\<close>

fun split_cookies :: "jsstring \<Rightarrow> jsstring \<Rightarrow> jsstring list" where
  "split_cookies part [] = [rev part]"
| "split_cookies part (c # cs) = (case cs of
       d # ds \<Rightarrow> if c = CHR '';'' \<and> d = CHR '' '' then rev part # split_cookies [] ds else split_cookies (c # part) cs
     | [] \<Rightarrow> [rev (c # part)])"

definition read_csrf_token :: "(jsstring \<Rightarrow> jsstring option) \<Rightarrow> jsstring \<Rightarrow> jsstring option" where
  "read_csrf_token decode cookie = (let lead = CSRF_COOKIE @ ''='' in
     case find (\<lambda>part. starts_with part lead) (split_cookies [] cookie) of
       None \<Rightarrow> None
     | Some part \<Rightarrow> (let value = drop (length lead) part
         in Some (case decode value of Some d \<Rightarrow> d | None \<Rightarrow> value)))"

definition has_session_cookie :: "(jsstring \<Rightarrow> jsstring option) \<Rightarrow> jsstring \<Rightarrow> bool" where
  "has_session_cookie decode cookie \<longleftrightarrow> read_csrf_token decode cookie \<noteq> None"

section \<open>What a failed request says\<close>

text \<open>
  A server fault never shows the backend's own text: with a status of 500 or more and no typed
  code, whatever string or object the body's \<open>detail\<close> holds, the reader sees the fixed fault.
\<close>

theorem server_fault_hides_detail:
  assumes "500 \<le> status" "fst (detail_parts (Option.bind body (\<lambda>b. field b ''detail''))) = None"
    and "\<And>i is. Option.bind body (\<lambda>b. field b ''detail'') \<noteq> Some (JArr (i # is))"
  shows "read_response status body retry_after = Some (SERVER_FAULT, None)"
proof -
  obtain message where parts: "detail_parts (Option.bind body (\<lambda>b. field b ''detail'')) = (None, message)"
    using assms(2) by (metis prod.collapse)
  show ?thesis
    using assms(1,3) parts
    by (auto simp: read_response_def fallback_for_def Let_def split: option.splits json.splits list.splits)
qed

lemma server_fault_hides_detail_witness:
  "read_response 500 (Some (JObj [(''detail'', JStr ''Traceback'')])) None = Some (SERVER_FAULT, None)"
  by (rule server_fault_hides_detail) (simp_all add: detail_parts_def field_def)

text \<open>The fields a loop has read: the first refusal of each.\<close>

definition first_refusal :: "json list \<Rightarrow> jsstring \<Rightarrow> jsstring option" where
  "first_refusal items k =
     Option.bind (find (\<lambda>i. field_of (field i ''loc'') = Some k) items) validation_text"

lemma add_refusal_fields:
  assumes "add_refusal item (fs, message) = Some (fs', message')"
  shows "\<exists>r. validation_text item = Some r \<and> fs' = (case field_of (field item ''loc'') of
      Some k \<Rightarrow> if key_in k fs then fs else fs @ [(k, r)] | None \<Rightarrow> fs)"
  using assms by (auto simp: add_refusal_def Let_def bind_eq_Some_conv split: option.splits)

lemma add_refusals_fields:
  "add_refusals items (fs, message) = Some (fs', message') \<Longrightarrow> k \<notin> set OBJECT_PROTOTYPE \<Longrightarrow>
    map_of fs' k = (case map_of fs k of Some v \<Rightarrow> Some v | None \<Rightarrow> first_refusal items k)"
proof (induction items arbitrary: fs message)
  case Nil
  then show ?case by (simp add: first_refusal_def split: option.splits)
next
  case (Cons item items)
  then obtain fs1 message1 where one: "add_refusal item (fs, message) = Some (fs1, message1)"
    and rest: "add_refusals items (fs1, message1) = Some (fs', message')"
    by (auto simp: bind_eq_Some_conv)
  from add_refusal_fields [OF one] obtain r where r: "validation_text item = Some r"
    and f1: "fs1 = (case field_of (field item ''loc'') of
      Some k \<Rightarrow> if key_in k fs then fs else fs @ [(k, r)] | None \<Rightarrow> fs)" by blast
  have "map_of fs1 k = (case map_of fs k of Some v \<Rightarrow> Some v
      | None \<Rightarrow> if field_of (field item ''loc'') = Some k then Some r else None)"
    using Cons.prems(2) unfolding f1
    by (auto simp: key_in_def map_add_def dom_map_of_conv_image_fst [symmetric] split: option.splits)
  with Cons.IH [OF rest Cons.prems(2)] r show ?case
    by (auto simp: first_refusal_def split: option.splits)
qed

text \<open>
  A refused body names each field once, with the first refusal the server lists for it: the
  message under a form field is the first one whose \<open>loc\<close> ends in its name, and a field the server
  did not refuse has none.
\<close>

theorem refused_fields_first:
  assumes "validation_error items = Some e" "k \<notin> set OBJECT_PROTOTYPE"
  shows "map_of (re_fields e) k = first_refusal items k"
proof -
  obtain fs message where "add_refusals items ([], None) = Some (fs, message)" "re_fields e = fs"
    using assms(1) by (auto simp: validation_error_def)
  with add_refusals_fields [OF this(1) assms(2)] show ?thesis by simp
qed

definition two_refusals :: "json list" where
  "two_refusals = [
     JObj [(''loc'', JArr [JStr ''body'', JStr ''title'', JNum 0]), (''type'', JStr ''missing'')],
     JObj [(''loc'', JArr [JStr ''body'', JStr ''title'']), (''type'', JStr ''enum'')]]"

lemma upper_text_t: "upper_text CHR ''t'' = ''T''"
  by code_simp

lemma refused_fields_first_witness:
  "\<exists>e. validation_error two_refusals = Some e \<and> map_of (re_fields e) ''title'' = Some ''Required.''"
proof -
  have "validation_error two_refusals = Some \<lparr>re_title = None, re_message = ''Title: Required.'',
      re_fields = [(''title'', ''Required.'')]\<rparr>"
    by (simp add: validation_error_def two_refusals_def add_refusal_def validation_text_def field_of_def field_def
        text_or_empty_def field_label_def upper_text_t key_in_def OBJECT_PROTOTYPE_def Let_def is_string_def)
  moreover have "first_refusal two_refusals ''title'' = Some ''Required.''"
    by (simp add: first_refusal_def two_refusals_def field_of_def field_def validation_text_def text_or_empty_def
        is_string_def)
  ultimately show ?thesis
    using refused_fields_first [of two_refusals _ "''title''"] by (simp add: OBJECT_PROTOTYPE_def)
qed

text \<open>
  Only a 401 on a call that needs the session speaks for the session: an error is marked as a
  session rejection exactly when the response had status 401, the path is no session probe and
  the listener took it, and the listener is asked of nothing else.
\<close>

theorem only_401_rejects_session:
  assumes "send listener rq outcome = (r, asked)"
  shows "(case r of Inl err \<Rightarrow> is_session_rejected err | Inr _ \<Rightarrow> False) = (asked \<and> listener) \<and>
    (asked \<longrightarrow> (\<exists>res. outcome = Answered res \<and> rs_status res = 401 \<and> path_only (rq_path rq) \<notin> set SESSION_PROBES))"
  using assms
  by (auto simp: send_def is_session_rejected_def asks_session_def split: fetch_outcome.splits if_splits option.splits
      prod.splits)

lemma only_401_rejects_session_witness:
  "\<exists>e. fst (send True \<lparr>rq_path = ''/events'', rq_method = None, rq_form_data = False, rq_headers = []\<rparr>
     (Answered \<lparr>rs_status = 401, rs_body = None, rs_retry_after = None, rs_link = None\<rparr>)) = Inl e \<and>
     is_session_rejected e"
proof -
  let ?s = "send True \<lparr>rq_path = ''/events'', rq_method = None, rq_form_data = False, rq_headers = []\<rparr>
     (Answered \<lparr>rs_status = 401, rs_body = None, rs_retry_after = None, rs_link = None\<rparr>)"
  have asked: "snd ?s"
    by (simp add: send_def response_ok_def read_response_def retry_after_seconds_def detail_parts_def asks_session_def
        path_only_def SESSION_PROBES_def fallback_for_def)
  have "case fst ?s of Inl err \<Rightarrow> is_session_rejected err | Inr _ \<Rightarrow> False"
    using only_401_rejects_session [OF prod.collapse [of ?s, symmetric]] asked by blast
  then show ?thesis by (cases "fst ?s") auto
qed

text \<open>The held-session record tells one ended session once.\<close>

lemma ended_session_told_once:
  "fst (take_ended_session (snd (take_ended_session st))) = False"
  "st \<noteq> None \<Longrightarrow> fst (take_ended_session (mark_session_held True st))"
  "fst (take_ended_session (mark_session_held False st)) = False"
  by (auto simp: take_ended_session_def mark_session_held_def split: option.splits)

end
