(* ===== verification/Organizations.thy ===== *)
theory Organizations
  imports Format Js_Text
begin

text \<open>
  The calls that only name a resource and send a body: \<open>lib/organizations.ts\<close>, \<open>lib/admin.ts\<close>,
  \<open>lib/inviteCodes.ts\<close>, \<open>lib/xHandle.ts\<close> and the invitations of \<open>lib/geolocatorCredit.ts\<close>. A call is its path, its
  method and its body; \<open>'f\<close> is the browser's file.
\<close>

datatype 'f call_body = No_body | Json_body json | Form_file jsstring 'f

record 'f write_call =
  wc_path :: jsstring
  wc_method :: jsstring
  wc_body :: "'f call_body"

definition post_call :: "jsstring \<Rightarrow> 'f write_call" where
  "post_call path = \<lparr>wc_path = path, wc_method = ''POST'', wc_body = No_body\<rparr>"

definition post_json :: "jsstring \<Rightarrow> json \<Rightarrow> 'f write_call" where
  "post_json path body = \<lparr>wc_path = path, wc_method = ''POST'', wc_body = Json_body body\<rparr>"

definition patch_json :: "jsstring \<Rightarrow> json \<Rightarrow> 'f write_call" where
  "patch_json path body = \<lparr>wc_path = path, wc_method = ''PATCH'', wc_body = Json_body body\<rparr>"

definition put_file :: "jsstring \<Rightarrow> 'f \<Rightarrow> 'f write_call" where
  "put_file path f = \<lparr>wc_path = path, wc_method = ''PUT'', wc_body = Form_file ''file'' f\<rparr>"

definition delete_call :: "jsstring \<Rightarrow> 'f write_call" where
  "delete_call path = \<lparr>wc_path = path, wc_method = ''DELETE'', wc_body = No_body\<rparr>"

section \<open>Organizations\<close>

record organization_ref =
  or_avatar :: "jsstring option"
  or_name :: jsstring
  or_slug :: jsstring

datatype organization_role = Manager | Member

fun role_text :: "organization_role \<Rightarrow> jsstring" where
  "role_text Manager = ''manager''"
| "role_text Member = ''member''"

fun ROLE_LABEL :: "organization_role \<Rightarrow> jsstring" where
  "ROLE_LABEL Manager = ''Org manager''"
| "ROLE_LABEL Member = ''Member''"

datatype invite_answer = Accept | Decline

fun answer_text :: "invite_answer \<Rightarrow> jsstring" where
  "answer_text Accept = ''accept''"
| "answer_text Decline = ''decline''"

definition ADMIN_ORGANIZATIONS_PATH :: jsstring where
  "ADMIN_ORGANIZATIONS_PATH = ''/admin/organizations''"

definition organization_path :: "jsstring \<Rightarrow> jsstring" where
  "organization_path slug = ''/organizations/'' @ encode_uri_component slug"

definition member_count_label :: "nat \<Rightarrow> jsstring" where
  "member_count_label n = count_label n ''member''"

text \<open>The byline's name, picture and link.\<close>

definition organization_byline :: "organization_ref \<Rightarrow> jsstring \<times> jsstring option \<times> jsstring" where
  "organization_byline org = (or_name org, or_avatar org, organization_path (or_slug org))"

definition user_organizations_path :: "jsstring \<Rightarrow> jsstring" where
  "user_organizations_path name = ''/users/'' @ encode_uri_component name @ ''/organizations''"

definition create_organization :: "json \<Rightarrow> 'f write_call" where
  "create_organization body = post_json ADMIN_ORGANIZATIONS_PATH body"

definition update_organization :: "jsstring \<Rightarrow> json \<Rightarrow> 'f write_call" where
  "update_organization slug body = patch_json (organization_path slug) body"

definition upload_organization_avatar :: "jsstring \<Rightarrow> 'f \<Rightarrow> 'f write_call" where
  "upload_organization_avatar slug f = put_file (organization_path slug @ ''/avatar'') f"

definition delete_organization_avatar :: "jsstring \<Rightarrow> 'f write_call" where
  "delete_organization_avatar slug = delete_call (organization_path slug @ ''/avatar'')"

definition invite_to_organization :: "jsstring \<Rightarrow> jsstring \<Rightarrow> 'f write_call" where
  "invite_to_organization slug name = post_json (organization_path slug @ ''/invites'') (JObj [(''username'', JStr name)])"

definition cancel_organization_invite :: "jsstring \<Rightarrow> jsstring \<Rightarrow> 'f write_call" where
  "cancel_organization_invite slug name = delete_call (organization_path slug @ ''/invites/'' @ encode_uri_component name)"

definition answer_organization_invite :: "jsstring \<Rightarrow> invite_answer \<Rightarrow> 'f write_call" where
  "answer_organization_invite slug answer = post_call (organization_path slug @ ''/invite/'' @ answer_text answer)"

definition set_organization_role :: "jsstring \<Rightarrow> jsstring \<Rightarrow> organization_role \<Rightarrow> 'f write_call" where
  "set_organization_role slug name role =
     patch_json (organization_path slug @ ''/members/'' @ encode_uri_component name) (JObj [(''role'', JStr (role_text role))])"

definition remove_organization_member :: "jsstring \<Rightarrow> jsstring \<Rightarrow> 'f write_call" where
  "remove_organization_member slug name = delete_call (organization_path slug @ ''/members/'' @ encode_uri_component name)"

definition delete_organization :: "jsstring \<Rightarrow> 'f write_call" where
  "delete_organization slug = delete_call (ADMIN_ORGANIZATIONS_PATH @ ''/'' @ encode_uri_component slug)"

definition appoint_organization_manager :: "jsstring \<Rightarrow> jsstring \<Rightarrow> 'f write_call" where
  "appoint_organization_manager slug name =
     post_json (ADMIN_ORGANIZATIONS_PATH @ ''/'' @ encode_uri_component slug @ ''/managers'') (JObj [(''username'', JStr name)])"

section \<open>Geolocator invitations\<close>

definition MAX_EVENT_GEOLOCATORS :: nat where
  "MAX_EVENT_GEOLOCATORS = 10"

definition GEOLOCATOR_CAP_MESSAGE :: jsstring where
  "GEOLOCATOR_CAP_MESSAGE = ''An event credits at most '' @ nat_text MAX_EVENT_GEOLOCATORS @
     '' geolocators, you and pending invitations included.''"

definition geolocator_invites_path :: "jsstring \<Rightarrow> jsstring" where
  "geolocator_invites_path eid = ''/events/'' @ eid @ ''/geolocator-invites''"

definition invite_geolocator :: "jsstring \<Rightarrow> jsstring \<Rightarrow> 'f write_call" where
  "invite_geolocator eid name = post_json (geolocator_invites_path eid) (JObj [(''username'', JStr name)])"

definition withdraw_geolocator_invite :: "jsstring \<Rightarrow> jsstring \<Rightarrow> 'f write_call" where
  "withdraw_geolocator_invite eid name = delete_call (geolocator_invites_path eid @ ''/'' @ encode_uri_component name)"

definition answer_geolocator_invite :: "jsstring \<Rightarrow> invite_answer \<Rightarrow> 'f write_call" where
  "answer_geolocator_invite eid answer = post_call (geolocator_invites_path eid @ ''/'' @ answer_text answer)"

definition remove_geolocator :: "jsstring \<Rightarrow> jsstring \<Rightarrow> 'f write_call" where
  "remove_geolocator eid name = delete_call (''/events/'' @ eid @ ''/geolocators/'' @ encode_uri_component name)"

section \<open>Invite codes\<close>

definition MY_INVITE_CODES_PATH :: jsstring where
  "MY_INVITE_CODES_PATH = ''/users/me/invite-codes''"

definition MY_X_HANDLE_PATH :: jsstring where
  "MY_X_HANDLE_PATH = ''/users/me/x-handle''"

definition mint_invite_code :: "jsstring \<Rightarrow> 'f write_call" where
  "mint_invite_code handle = post_json MY_INVITE_CODES_PATH (JObj [(''x_handle'', JStr handle)])"

definition revoke_my_invite_code :: "jsstring \<Rightarrow> 'f write_call" where
  "revoke_my_invite_code code = post_call (MY_INVITE_CODES_PATH @ ''/'' @ code @ ''/revoke'')"

section \<open>The console\<close>

definition invite_codes_path :: "jsstring option \<Rightarrow> jsstring" where
  "invite_codes_path cursor = with_cursor ''/admin/invite-codes'' cursor"

definition create_invite_code :: "json \<Rightarrow> 'f write_call" where
  "create_invite_code body = post_json ''/admin/invite-codes'' body"

definition revoke_invite_code :: "jsstring \<Rightarrow> 'f write_call" where
  "revoke_invite_code code = post_call (''/admin/invite-codes/'' @ code @ ''/revoke'')"

definition delete_invite_code :: "jsstring \<Rightarrow> 'f write_call" where
  "delete_invite_code code = delete_call (''/admin/invite-codes/'' @ code)"

text \<open>The path read, \<open>None\<close> where the blank query reads nothing.\<close>

definition search_users :: "jsstring \<Rightarrow> jsstring option" where
  "search_users q = (if js_trim q = [] then None else Some (''/admin/users?q='' @ encode_uri_component (js_trim q)))"

definition set_user_x_handle :: "jsstring \<Rightarrow> jsstring option \<Rightarrow> 'f write_call" where
  "set_user_x_handle uid handle = patch_json (''/admin/users/'' @ uid @ ''/x-handle'')
     (JObj [(''x_handle'', case handle of Some h \<Rightarrow> JStr h | None \<Rightarrow> JNull)])"

definition set_user_invite_minting :: "jsstring \<Rightarrow> bool \<Rightarrow> 'f write_call" where
  "set_user_invite_minting uid enabled = patch_json (''/admin/users/'' @ uid @ ''/invite-minting'') (JObj [(''enabled'', JBool enabled)])"

definition hard_query :: "bool \<Rightarrow> jsstring" where
  "hard_query hard = (if hard then ''?hard=true'' else [])"

definition delete_event :: "jsstring \<Rightarrow> bool \<Rightarrow> 'f write_call" where
  "delete_event i hard = delete_call (''/admin/events/'' @ i @ hard_query hard)"

definition delete_user :: "jsstring \<Rightarrow> bool \<Rightarrow> 'f write_call" where
  "delete_user i hard = delete_call (''/admin/users/'' @ i @ hard_query hard)"

definition restore_user :: "jsstring \<Rightarrow> 'f write_call" where
  "restore_user i = post_call (''/admin/users/'' @ i @ ''/restore'')"

definition purge_detected_events :: "jsstring \<Rightarrow> 'f write_call" where
  "purge_detected_events i = delete_call (''/admin/users/'' @ i @ ''/detected-events'')"

definition reports_path :: "nat \<Rightarrow> nat \<Rightarrow> jsstring" where
  "reports_path page per_page = ''/admin/reports?page='' @ nat_text page @ ''&per_page='' @ nat_text per_page"

definition resolve_report :: "jsstring \<Rightarrow> jsstring \<Rightarrow> 'f write_call" where
  "resolve_report report resolution = post_json (''/admin/reports/'' @ report @ ''/resolve'') (JObj [(''resolution'', JStr resolution)])"

definition set_event_moderation :: "jsstring \<Rightarrow> json \<Rightarrow> 'f write_call" where
  "set_event_moderation i body = patch_json (''/admin/events/'' @ i @ ''/moderation'') body"

definition set_site_moderation :: "jsstring \<Rightarrow> bool \<Rightarrow> 'f write_call" where
  "set_site_moderation i hidden = patch_json (''/admin/sites/'' @ encode_uri_component i @ ''/moderation'') (JObj [(''hidden'', JBool hidden)])"

definition DETECTION_STATS_PATH :: jsstring where
  "DETECTION_STATS_PATH = ''/admin/detection-stats''"

section \<open>A path names one resource\<close>

lemma encode_no_slash: "CHR ''/'' \<notin> set (encode_uri_component s)"
proof -
  have "CHR ''/'' \<notin> set (encode_char c)" for c
  proof (cases "uri_unreserved c")
    case True
    then show ?thesis by (auto simp: encode_char_def uri_unreserved_def is_alnum_def is_alpha_def is_digit_def)
  next
    case False
    have "hex_digit n \<noteq> CHR ''/''" if "n < 16" for n
      using that by (auto simp: hex_digit_def dest: arg_cong [of _ _ "of_char :: char \<Rightarrow> nat"])
    then have hex: "CHR ''/'' \<noteq> hex_digit n" if "n < 16" for n using that by metis
    have "CHR ''/'' \<notin> set (percent b)" if "b < 256" for b
    proof -
      have "b div 16 < 16" "b mod 16 < 16" using that by (simp_all add: less_mult_imp_div_less)
      from hex [OF this(1)] hex [OF this(2)] show ?thesis by (simp add: percent_def)
    qed
    moreover have "n < 256" if "n \<in> set (utf8 c)" for n
    proof -
      have "(of_char c :: nat) < 256" by simp
      then have "(of_char c :: nat) div 64 < 4" by (simp add: less_mult_imp_div_less)
      then show ?thesis using that by (auto simp: utf8_def Let_def split: if_splits)
    qed
    ultimately show ?thesis using False by (auto simp: encode_char_def)
  qed
  then show ?thesis by (auto simp: encode_uri_component_def)
qed

text \<open>The two names of a member's address, read back from its segments.\<close>

definition member_address :: "jsstring \<Rightarrow> (jsstring \<times> jsstring) option" where
  "member_address path = (case split_char CHR ''/'' path of
       [_, _, slug, _, name] \<Rightarrow> Some (slug, name) | _ \<Rightarrow> None)"

lemma member_address_path:
  assumes "CHR ''/'' \<notin> set part"
  shows "member_address (organization_path slug @ CHR ''/'' # part @ ''/'' @ encode_uri_component name) =
    Some (encode_uri_component slug, encode_uri_component name)"
  using assms encode_no_slash [of slug] encode_no_slash [of name]
  by (simp add: member_address_def organization_path_def split_char_append)

text \<open>
  A write on a member reaches that member and no other: whatever characters an organization's slug and a member's
  name hold, the address of a role change, a removal or a cancelled invite tells both, so two calls share an address
  only when they are about the same member of the same organization.
\<close>

theorem member_writes_name_one_member:
  "(wc_path (set_organization_role slug name role) = wc_path (set_organization_role slug' name' role') \<longleftrightarrow> slug = slug' \<and> name = name') \<and>
   (wc_path (remove_organization_member slug name) = wc_path (remove_organization_member slug' name') \<longleftrightarrow> slug = slug' \<and> name = name') \<and>
   (wc_path (cancel_organization_invite slug name) = wc_path (cancel_organization_invite slug' name') \<longleftrightarrow> slug = slug' \<and> name = name')"
proof -
  have "organization_path slug @ CHR ''/'' # part @ ''/'' @ encode_uri_component name =
      organization_path slug' @ CHR ''/'' # part @ ''/'' @ encode_uri_component name' \<longleftrightarrow> slug = slug' \<and> name = name'"
    if "CHR ''/'' \<notin> set part" for part
    using member_address_path [OF that, of slug name] member_address_path [OF that, of slug' name']
    by (metis encode_uri_component_inject option.inject prod.inject)
  from this [of "''members''"] this [of "''invites''"] show ?thesis
    by (simp add: set_organization_role_def remove_organization_member_def cancel_organization_invite_def patch_json_def delete_call_def)
qed

end
