(* ===== verification/Versions.thy ===== *)
theory Versions
  imports Js_Number
begin

text \<open>
  \<open>lib/versions.ts\<close>: the walk of a version history from its filed rows, the \<open>vN\<close> route segment,
  and the comparison of lists as sets. \<open>no\<close> reads a row's version number, so the walk serves the
  histories of events and sites alike.
\<close>

record 'row version_step =
  step_number :: int
  step_own :: "'row option"
  step_below :: "'row option"

text \<open>\<open>new Map(rows.map(...))\<close>: the last row of a number wins.\<close>

definition by_number :: "('row \<Rightarrow> int) \<Rightarrow> 'row list \<Rightarrow> int \<Rightarrow> 'row option" where
  "by_number no rows = map_of (rev (map (\<lambda>r. (no r, r)) rows))"

function walk_versions :: "(int \<Rightarrow> 'row option) \<Rightarrow> int \<Rightarrow> int \<Rightarrow> int \<Rightarrow> 'row version_step list" where
  "walk_versions rows latest oldest number =
     (if number < oldest \<or> (number \<noteq> latest \<and> rows number = None) then []
      else \<lparr>step_number = number, step_own = rows number, step_below = rows (number - 1)\<rparr> #
        walk_versions rows latest oldest (number - 1))"
  by auto
termination
  by (relation "measure (\<lambda>(_, _, oldest, number). nat (number - oldest + 1))") auto

declare walk_versions.simps [simp del]

definition oldest_number :: "('row \<Rightarrow> int) \<Rightarrow> int \<Rightarrow> 'row list \<Rightarrow> bool \<Rightarrow> int" where
  "oldest_number no first rows has_more =
     (if has_more \<and> rows \<noteq> [] then Min (set (map no rows)) + 1 else first)"

definition version_steps :: "('row \<Rightarrow> int) \<Rightarrow> int \<Rightarrow> int \<Rightarrow> 'row list \<Rightarrow> bool \<Rightarrow> 'row version_step list" where
  "version_steps no latest first rows has_more =
     walk_versions (by_number no rows) latest (oldest_number no first rows has_more) latest"

text \<open>\<open>/^v(0|[1-9][0-9]*)$/\<close>\<close>

definition VERSION_SEGMENT :: rx where
  "VERSION_SEGMENT = RSeq (RLit ''v'') (RAlt (RLit ''0'')
     (RSeq (RCls (\<lambda>c. is_digit c \<and> c \<noteq> CHR ''0'')) (RStar (RCls is_digit))))"

definition parse_version_segment :: "jsstring \<Rightarrow> rat option" where
  "parse_version_segment segment = (if rx_match VERSION_SEGMENT segment then js_number (drop 1 segment) else None)"

definition version_segment :: "nat \<Rightarrow> jsstring" where
  "version_segment n = ''v'' @ nat_text n"

definition same_set :: "jsstring list \<Rightarrow> jsstring list \<Rightarrow> bool" where
  "same_set a b = (let x = js_sort a; y = js_sort b
     in length x = length y \<and> (\<forall>i < length x. x ! i = y ! i))"

text \<open>What the version selector, the history rows and the banner need of a versioned record.\<close>

record versioned_record =
  vr_latest :: int
  vr_first :: int
  vr_label :: "int \<Rightarrow> jsstring"
  vr_href :: "int \<Rightarrow> jsstring"
  vr_history_href :: jsstring

section \<open>The walk\<close>

lemma by_number_no: "by_number no rows k = Some r \<Longrightarrow> r \<in> set rows \<and> no r = k"
  by (auto simp: by_number_def dest: map_of_SomeD)

lemma by_number_None: "by_number no rows k = None \<longleftrightarrow> k \<notin> no ` set rows"
  by (auto simp: by_number_def map_of_eq_None_iff image_image)

lemma by_number_Some: "k \<in> no ` set rows \<Longrightarrow> \<exists>r. by_number no rows k = Some r"
  using by_number_None [of no rows k] by auto

text \<open>The numbers of a walk go down by one from where it starts.\<close>

lemma walk_numbers:
  "map step_number (walk_versions rows latest oldest number) =
     map (\<lambda>i. number - int i) [0 ..< length (walk_versions rows latest oldest number)]"
proof (induction rows latest oldest number rule: walk_versions.induct)
  case (1 rows latest oldest number)
  show ?case
  proof (cases "number < oldest \<or> (number \<noteq> latest \<and> rows number = None)")
    case True
    then show ?thesis by (simp add: walk_versions.simps)
  next
    case False
    with 1 show ?thesis
      by (subst (1 2) walk_versions.simps) (simp add: upt_conv_Cons map_Suc_upt [symmetric] del: upt_Suc)
  qed
qed

lemma walk_step:
  "s \<in> set (walk_versions rows latest oldest number) \<Longrightarrow>
     oldest \<le> step_number s \<and> step_number s \<le> number \<and>
     step_own s = rows (step_number s) \<and> step_below s = rows (step_number s - 1) \<and>
     (step_number s = latest \<or> step_own s \<noteq> None)"
proof (induction rows latest oldest number rule: walk_versions.induct)
  case (1 rows latest oldest number)
  then show ?case
    using walk_versions.simps [of rows latest oldest number] by (auto split: if_splits)
qed

text \<open>Where every number from the oldest up has a row, the walk reaches the oldest.\<close>

lemma walk_length:
  assumes "\<And>k. oldest \<le> k \<Longrightarrow> k \<le> number \<Longrightarrow> k \<noteq> latest \<Longrightarrow> rows k \<noteq> None"
  shows "length (walk_versions rows latest oldest number) = nat (number - oldest + 1)"
  using assms
proof (induction rows latest oldest number rule: walk_versions.induct)
  case (1 rows latest oldest number)
  show ?case
  proof (cases "number < oldest")
    case True
    then show ?thesis by (simp add: walk_versions.simps)
  next
    case False
    then have go: "\<not> (number < oldest \<or> number \<noteq> latest \<and> rows number = None)" using 1(2) [of number] by auto
    have "length (walk_versions rows latest oldest (number - 1)) = nat (number - 1 - oldest + 1)"
      by (rule 1(1) [OF go]) (use 1(2) in auto)
    with go False show ?thesis by (subst walk_versions.simps) simp
  qed
qed

text \<open>The rows a page of the history may hold: each number from \<open>lowest\<close> to below the live one.\<close>

definition filed_rows :: "('row \<Rightarrow> int) \<Rightarrow> int \<Rightarrow> int \<Rightarrow> 'row list \<Rightarrow> bool" where
  "filed_rows no lowest latest rows \<longleftrightarrow> no ` set rows = {lowest ..< latest}"

lemma filed_row_found:
  "filed_rows no lowest latest rows \<Longrightarrow> lowest \<le> k \<Longrightarrow> k < latest \<Longrightarrow> \<exists>r. by_number no rows k = Some r \<and> no r = k"
  using by_number_Some [of k no rows] by_number_no [of no rows k] by (fastforce simp: filed_rows_def)

lemma walk_filed:
  assumes "filed_rows no lowest latest rows" "lowest \<le> oldest" "oldest \<le> latest"
  shows "map step_number (walk_versions (by_number no rows) latest oldest latest) =
    map (\<lambda>i. latest - int i) [0 ..< nat (latest - oldest + 1)]"
proof -
  have "length (walk_versions (by_number no rows) latest oldest latest) = nat (latest - oldest + 1)"
    using by_number_None [of no rows] assms by (intro walk_length) (auto simp: filed_rows_def)
  with walk_numbers [of "by_number no rows" latest oldest latest] show ?thesis by simp
qed

text \<open>
  A whole history lists every version once, newest first: from the filed rows of the versions
  \<open>first\<close> to \<open>latest - 1\<close>, the steps are numbered \<open>latest, latest - 1, ..., first\<close>, each below the
  live one with its own row and each above the first with the row that holds its byline.
\<close>

theorem history_is_complete:
  assumes "filed_rows no first latest rows" "first \<le> latest"
  shows "map step_number (version_steps no latest first rows False) =
      map (\<lambda>i. latest - int i) [0 ..< nat (latest - first + 1)] \<and>
    (\<forall>s \<in> set (version_steps no latest first rows False).
      (step_number s < latest \<longrightarrow> (\<exists>r. step_own s = Some r \<and> no r = step_number s)) \<and>
      (first < step_number s \<longrightarrow> (\<exists>r. step_below s = Some r \<and> no r = step_number s - 1)))"
  using walk_filed [OF assms(1) order_refl assms(2)] filed_row_found [OF assms(1)]
  by (auto simp: version_steps_def oldest_number_def dest!: walk_step)

lemma history_is_complete_witness:
  "map step_number (version_steps id 2 0 [1, 0 :: int] False) = [2, 1, 0]"
proof -
  have "{0 ..< 2 :: int} = {1, 0}" by auto
  then have "filed_rows id 0 2 [1, 0 :: int]" by (simp add: filed_rows_def)
  from history_is_complete [OF this] show ?thesis by (simp add: upt_rec)
qed

text \<open>
  A history page never shows a version without its editor: while more rows follow, the rows
  of the versions from \<open>lowest\<close> up give the steps \<open>latest\<close> down to \<open>lowest + 1\<close>, each with the row
  that holds its byline, and the next page continues where they end.
\<close>

theorem partial_history_has_editors:
  assumes "filed_rows no lowest latest rows" "lowest < latest"
  shows "map step_number (version_steps no latest first rows True) =
      map (\<lambda>i. latest - int i) [0 ..< nat (latest - lowest)] \<and>
    (\<forall>s \<in> set (version_steps no latest first rows True).
      \<exists>r. step_below s = Some r \<and> no r = step_number s - 1)"
proof -
  have "rows \<noteq> []" using assms by (auto simp: filed_rows_def)
  moreover have "Min (no ` set rows) = lowest"
    using assms by (intro Min_eqI) (auto simp: filed_rows_def)
  ultimately have o': "oldest_number no first rows True = lowest + 1" by (simp add: oldest_number_def)
  show ?thesis
    using walk_filed [OF assms(1), of "lowest + 1"] assms(2) filed_row_found [OF assms(1)]
    by (auto simp: version_steps_def o' dest!: walk_step)
qed

lemma partial_history_has_editors_witness:
  "map step_number (version_steps id 5 0 [4, 3 :: int] True) = [5, 4]"
proof -
  have "{3 ..< 5 :: int} = {4, 3}" by auto
  then have "filed_rows id 3 5 [4, 3 :: int]" by (simp add: filed_rows_def)
  from partial_history_has_editors [OF this, of 0] show ?thesis by (simp add: upt_rec)
qed

section \<open>Sets and segments\<close>

lemma same_set_mset: "same_set a b \<longleftrightarrow> mset a = mset b"
  by (metis js_sort_eq_iff list_eq_iff_nth_eq same_set_def)

lemma version_segment_match:
  "rx_match VERSION_SEGMENT (CHR ''v'' # c # cs) \<longleftrightarrow>
    is_digit c \<and> (\<forall>d \<in> set cs. is_digit d) \<and> (c = CHR ''0'' \<longrightarrow> cs = [])"
  unfolding rx_match_iff VERSION_SEGMENT_def lang_seq_lit lang_alt lang_lit seq_cls_iff lang_star_cls
  by (cases cs) auto

lemma version_segment_matches: "rx_match VERSION_SEGMENT (version_segment n)"
proof -
  obtain c cs where t: "nat_text n = c # cs" by (cases "nat_text n") auto
  have "n = 0 \<Longrightarrow> cs = []" using t by (simp add: nat_text_rec [of 0])
  moreover have "c = CHR ''0'' \<longleftrightarrow> n = 0" using nat_text_hd_zero [of n] t by simp
  moreover have "is_digit d" if "d \<in> set (c # cs)" for d using nat_text_digits [of d n] that t by simp
  ultimately show ?thesis by (simp add: version_segment_def t version_segment_match del: rx_match.simps)
qed

text \<open>
  The route segment of a version reads back as its number, for every number up to \<open>2 ^ 53\<close>.
\<close>

theorem version_segment_reads_back:
  assumes "n \<le> 2 ^ 53"
  shows "parse_version_segment (version_segment n) = Some (of_nat n)"
  using js_number_nat_text [OF assms]
  by (simp add: parse_version_segment_def version_segment_matches) (simp add: version_segment_def)

lemma version_segment_reads_back_witness: "parse_version_segment (version_segment 12) = Some 12"
  using version_segment_reads_back [of 12] by simp

end
