(* ===== verification/Coordinates.thy ===== *)
theory Coordinates
  imports Js_Number
begin

text \<open>
  \<open>lib/coordinates.ts\<close>: the bounds, the strict parse of the coordinate inputs, the paste parser
  with its three patterns, what the forms say of a pair they cannot use, and the six-decimal
  rendering. A coordinate is a finite double (\<open>Js_Number\<close>).
\<close>

definition LAT_MIN :: rat where "LAT_MIN = -90"

definition LAT_MAX :: rat where "LAT_MAX = 90"

definition LNG_MIN :: rat where "LNG_MIN = -180"

definition LNG_MAX :: rat where "LNG_MAX = 180"

lemmas coordinate_bounds = LAT_MIN_def LAT_MAX_def LNG_MIN_def LNG_MAX_def

record coordinate_pair =
  lat :: rat
  lng :: rat

definition clean_number :: "jsstring \<Rightarrow> rat option" where
  "clean_number value = (if js_trim value = [] then None else js_number value)"

definition in_bounds :: "rat \<Rightarrow> rat \<Rightarrow> bool" where
  "in_bounds la lo \<longleftrightarrow> LAT_MIN \<le> la \<and> la \<le> LAT_MAX \<and> LNG_MIN \<le> lo \<and> lo \<le> LNG_MAX"

definition coordinatePair :: "jsstring \<Rightarrow> jsstring \<Rightarrow> coordinate_pair option" where
  "coordinatePair latValue lngValue = (case (clean_number latValue, clean_number lngValue) of
       (Some la, Some lo) \<Rightarrow> if in_bounds la lo then Some \<lparr>lat = la, lng = lo\<rparr> else None
     | _ \<Rightarrow> None)"

section \<open>Pasted text\<close>

definition rx_digit :: rx where
  "rx_digit = RCls is_digit"

definition rx_space :: rx where
  "rx_space = RStar (RCls js_space)"

text \<open>\<open>[-+]?\d{1,3}(?:\.\d+)?\<close>\<close>

definition DECIMAL :: rx where
  "DECIMAL = RSeq (ROpt (RCls (\<lambda>c. c = CHR ''-'' \<or> c = CHR ''+'')))
     (RSeq (RRange rx_digit 1 3) (ROpt (RSeq (RLit ''.'') (RPlus rx_digit))))"

text \<open>The degree sign, code unit 176.\<close>

definition degree_char :: char where
  "degree_char = char_of (176 :: nat)"

definition rx_degree :: rx where
  "rx_degree = ROpt (RCls (\<lambda>c. c = degree_char))"

definition PLAIN_PAIR :: cap_pattern where
  "PLAIN_PAIR = [(False, rx_space), (True, DECIMAL), (False, rx_space), (False, rx_degree), (False, rx_space),
     (False, RAlt (RSeq (RLit '','') rx_space) (RPlus (RCls js_space))),
     (True, DECIMAL), (False, rx_space), (False, rx_degree), (False, rx_space)]"

definition IS_URL :: rx where
  "IS_URL = RSeq (RLitI ''http'') (RSeq (ROpt (RLitI ''s'')) (RSeq (RLit ''://'') RAny))"

definition MAPS_QUERY :: cap_pattern where
  "MAPS_QUERY = [(False, RCls (\<lambda>c. c = CHR ''?'' \<or> c = CHR ''&'')), (False, RAlt (RLitI ''q'') (RLitI ''query'')),
     (False, RLit ''=''), (True, DECIMAL), (False, RAlt (RLit '','') (RLitI ''%2C'')), (True, DECIMAL)]"

definition MAPS_CENTER :: cap_pattern where
  "MAPS_CENTER = [(False, RLit ''@''), (True, DECIMAL), (False, RLit '',''), (True, DECIMAL)]"

text \<open>The plain pair is anchored at both ends; the URL forms match anywhere in the text.\<close>

definition exec_plain_pair :: "jsstring \<Rightarrow> jsstring list option" where
  "exec_plain_pair s = map_option fst (caps_at (\<lambda>t. t = []) PLAIN_PAIR s)"

definition match_pair :: "jsstring \<Rightarrow> coordinate_pair option" where
  "match_pair text' = (let trimmed = js_trim text';
       m = (if rx_match IS_URL trimmed
            then (case rx_exec (\<lambda>_. True) MAPS_QUERY trimmed of
                    Some cs \<Rightarrow> Some cs | None \<Rightarrow> rx_exec (\<lambda>_. True) MAPS_CENTER trimmed)
            else exec_plain_pair trimmed)
     in case m of
         Some [a, b] \<Rightarrow> (case (js_number a, js_number b) of
             (Some la, Some lo) \<Rightarrow> Some \<lparr>lat = la, lng = lo\<rparr> | _ \<Rightarrow> None)
       | _ \<Rightarrow> None)"

definition parse_pasted_coordinates :: "jsstring \<Rightarrow> coordinate_pair option" where
  "parse_pasted_coordinates text' = (case match_pair text' of
       Some p \<Rightarrow> if in_bounds (lat p) (lng p) then Some p else None | None \<Rightarrow> None)"

section \<open>Refusals\<close>

definition LAT_BOUNDS :: jsstring where
  "LAT_BOUNDS = ''Latitude must be between -90 and 90.''"

definition LNG_BOUNDS :: jsstring where
  "LNG_BOUNDS = ''Longitude must be between -180 and 180.''"

definition NO_PAIR :: jsstring where
  "NO_PAIR = ''Type a latitude and a longitude.''"

datatype half = Half_lat | Half_lng

record half_spec =
  hs_half :: half
  hs_name :: jsstring
  hs_example :: jsstring
  hs_min :: rat
  hs_max :: rat
  hs_bounds :: jsstring

definition HALVES :: "half_spec list" where
  "HALVES = [
     \<lparr>hs_half = Half_lat, hs_name = ''Latitude'', hs_example = ''48.015883'', hs_min = LAT_MIN, hs_max = LAT_MAX,
      hs_bounds = LAT_BOUNDS\<rparr>,
     \<lparr>hs_half = Half_lng, hs_name = ''Longitude'', hs_example = ''37.802411'', hs_min = LNG_MIN, hs_max = LNG_MAX,
      hs_bounds = LNG_BOUNDS\<rparr>]"

record pair_problem =
  pp_message :: jsstring
  pp_half :: "half option"
  pp_missing :: bool

text \<open>One turn of the loop over the halves.\<close>

definition half_problem :: "jsstring \<Rightarrow> half_spec \<Rightarrow> pair_problem option" where
  "half_problem value h = (if js_trim value = [] then None
     else case clean_number value of
         None \<Rightarrow> Some \<lparr>pp_message = hs_name h @ '' must be a number in decimal degrees, like '' @ hs_example h @ ''.'',
             pp_half = Some (hs_half h), pp_missing = False\<rparr>
       | Some n \<Rightarrow> if n < hs_min h \<or> hs_max h < n
           then Some \<lparr>pp_message = hs_bounds h, pp_half = Some (hs_half h), pp_missing = False\<rparr> else None)"

fun first_problem :: "(half \<Rightarrow> jsstring) \<Rightarrow> half_spec list \<Rightarrow> pair_problem option" where
  "first_problem values [] = None"
| "first_problem values (h # hs) = (case half_problem (values (hs_half h)) h of
       Some p \<Rightarrow> Some p | None \<Rightarrow> first_problem values hs)"

definition pair_problem_of :: "jsstring \<Rightarrow> jsstring \<Rightarrow> pair_problem option" where
  "pair_problem_of latValue lngValue =
     (case first_problem (\<lambda>h. case h of Half_lat \<Rightarrow> latValue | Half_lng \<Rightarrow> lngValue) HALVES of
        Some p \<Rightarrow> Some p
      | None \<Rightarrow> (let latBlank = js_trim latValue = []; lngBlank = js_trim lngValue = []
          in if latBlank \<and> lngBlank then Some \<lparr>pp_message = NO_PAIR, pp_half = None, pp_missing = True\<rparr>
             else if latBlank then Some \<lparr>pp_message = ''Type a latitude.'', pp_half = Some Half_lat, pp_missing = True\<rparr>
             else if lngBlank then Some \<lparr>pp_message = ''Type a longitude.'', pp_half = Some Half_lng, pp_missing = True\<rparr>
             else None))"

definition NOT_A_PAIR :: jsstring where
  "NOT_A_PAIR = ''Not a coordinate pair. Type the latitude, a comma, then the longitude, in decimal degrees: 48.015883, 37.802411.''"

definition read_coordinates :: "jsstring \<Rightarrow> jsstring + coordinate_pair" where
  "read_coordinates text' = (if js_trim text' = [] then Inl NO_PAIR
     else case match_pair text' of
         None \<Rightarrow> Inl NOT_A_PAIR
       | Some p \<Rightarrow>
           if lat p < LAT_MIN \<or> LAT_MAX < lat p then
             Inl (LAT_BOUNDS @ (if in_bounds (lng p) (lat p) then '' The latitude comes first.'' else []))
           else if lng p < LNG_MIN \<or> LNG_MAX < lng p then Inl LNG_BOUNDS
           else Inr p)"

section \<open>Rendering\<close>

definition pair_inputs :: "coordinate_pair \<Rightarrow> jsstring \<times> jsstring" where
  "pair_inputs p = (to_fixed 6 (lat p), to_fixed 6 (lng p))"

definition format_coordinates :: "rat \<Rightarrow> rat \<Rightarrow> nat \<Rightarrow> jsstring" where
  "format_coordinates la lo decimals = to_fixed decimals la @ '', '' @ to_fixed decimals lo"

definition maps_url :: "rat \<Rightarrow> rat \<Rightarrow> jsstring" where
  "maps_url la lo = ''https://www.google.com/maps?q='' @ js_to_string la @ '','' @ js_to_string lo"

section \<open>What the forms and the parsers agree on\<close>

lemma clean_number_double: "clean_number s = Some x \<Longrightarrow> is_double x"
  by (auto simp: clean_number_def js_number_is_double split: if_splits)

lemma clean_number_to_string: "is_double x \<Longrightarrow> clean_number (js_to_string x) = Some x"
  by (simp add: clean_number_def js_to_string_trim js_to_string_chars js_number_to_string)

text \<open>
  The coordinate inputs hold a usable pair exactly when the form states no problem with
  them, whatever the two strings are.
\<close>

theorem pair_usable_iff_no_problem:
  "pair_problem_of latValue lngValue = None \<longleftrightarrow> coordinatePair latValue lngValue \<noteq> None"
  by (auto simp: pair_problem_of_def coordinatePair_def HALVES_def half_problem_def in_bounds_def Let_def
      clean_number_def split: option.splits if_splits)

lemma decimal_not_Nil: "[] \<notin> rx_lang DECIMAL"
  by (simp add: DECIMAL_def RRange_def rx_digit_def)

lemma exec_plain_pair_Nil: "exec_plain_pair [] = None"
proof (cases "exec_plain_pair []")
  case (Some cs)
  then obtain t where "(cs, t) \<in> set (caps_runs PLAIN_PAIR [])"
    by (auto simp: exec_plain_pair_def dest: caps_at_Some)
  then show ?thesis unfolding PLAIN_PAIR_def caps_runs_Cons_iff using decimal_not_Nil by auto
qed

text \<open>
  A typed pair reads as the pasted one: the search box accepts it exactly when the paste
  parser does, with the same pair, and otherwise names a reason.
\<close>

theorem read_agrees_with_paste:
  "read_coordinates s = Inr p \<longleftrightarrow> parse_pasted_coordinates s = Some p"
proof -
  have "exec_plain_pair [] = None"
    by (rule exec_plain_pair_Nil)
  moreover have "\<not> rx_match IS_URL []" by (simp add: IS_URL_def)
  ultimately have "js_trim s = [] \<Longrightarrow> match_pair s = None" by (simp add: match_pair_def)
  then show ?thesis
    by (auto simp: read_coordinates_def parse_pasted_coordinates_def in_bounds_def split: option.splits)
qed

section \<open>A copied pair pastes back\<close>

lemma nat_width_three: "n < 1000 \<Longrightarrow> nat_width n \<le> 3"
  using nat_width_le [of n 3] by simp

lemma degree_char_other: "of_char c \<noteq> (176 :: nat) \<Longrightarrow> c \<noteq> degree_char"
  by (auto simp: degree_char_def)

lemma first_decimal:
  assumes "fixed_units 6 x div 10 ^ 6 < 1000" "r = [] \<or> \<not> is_digit (hd r)"
  shows "rx_first DECIMAL (to_fixed 6 x @ r) (to_fixed 6 x) r"
proof -
  let ?n = "fixed_units 6 x"
  let ?w = "nat_text (?n div 10 ^ 6)" and ?f = "pad_digits 6 ?n"
  have frac: "rx_first (ROpt (RSeq (RLit ''.'') (RPlus rx_digit))) (''.'' @ ?f @ r) (''.'' @ ?f) r"
    unfolding rx_digit_def using assms(2)
    by (intro first_opt first_seq [OF first_lit] first_plus_append ballI pad_digits_digits) simp_all
  have whole: "rx_first (RRange rx_digit 1 3) (?w @ ''.'' @ ?f @ r) ?w (''.'' @ ?f @ r)"
    unfolding rx_digit_def using assms(1) nat_width_three [of "?n div 10 ^ 6"] nat_width_pos [of "?n div 10 ^ 6"]
    by (intro first_range_cls ballI nat_text_digits) (simp_all add: nat_text_def Suc_le_eq)
  have sign: "rx_first (ROpt (RCls (\<lambda>c. c = CHR ''-'' \<or> c = CHR ''+''))) ((if x < 0 then ''-'' else []) @ ?w @ t)
      (if x < 0 then ''-'' else []) (?w @ t)" for t
  proof (cases "x < 0")
    case False
    have "hd ?w \<noteq> CHR ''-''" "hd ?w \<noteq> CHR ''+''" using nat_text_hd [of "?n div 10 ^ 6"] by (auto simp: is_digit_def)
    with False show ?thesis by (cases ?w) (auto intro!: first_opt_none)
  qed (auto intro: first_opt first_cls)
  from first_seq [OF sign first_seq [OF whole frac]] show ?thesis
    by (simp add: DECIMAL_def to_fixed_def Let_def)
qed

lemma exec_formatted:
  assumes "fixed_units 6 a div 10 ^ 6 < 1000" "fixed_units 6 b div 10 ^ 6 < 1000"
  shows "exec_plain_pair (format_coordinates a b 6) = Some [to_fixed 6 a, to_fixed 6 b]"
proof -
  let ?a = "to_fixed 6 a" and ?b = "to_fixed 6 b"
  have start: "r = [] \<or> \<not> js_space (hd r)" if "r = to_fixed 6 x @ r'" for r r' x
    using that nat_text_hd [of "fixed_units 6 x div 10 ^ 6"]
    by (cases "nat_text (fixed_units 6 x div 10 ^ 6)") (auto simp: to_fixed_def Let_def js_space_def is_digit_def)
  have marks: "\<not> js_space CHR '',''" "js_space CHR '' ''" "\<not> is_digit CHR '',''" "CHR '','' \<noteq> degree_char"
    by (simp_all add: js_space_def is_digit_def degree_char_other)
  have deg: "rx_first rx_degree r [] r" if "r = [] \<or> hd r = CHR '',''" for r
    using that marks unfolding rx_degree_def by (cases r) (auto intro: first_opt_none)
  have sep: "rx_first (RAlt (RSeq (RLit '','') rx_space) (RPlus (RCls js_space))) ('', '' @ ?b) '', '' ?b"
  proof (rule first_alt1)
    have "rx_first rx_space (CHR '' '' # ?b) '' '' ?b"
      using first_star_cls [of js_space "CHR '' '' # ?b"] start [of ?b b "[]"] marks
      by (cases ?b) (auto simp: rx_space_def)
    from first_seq [OF first_lit [of "'',''" "CHR '' '' # ?b"] this]
    show "rx_first (RSeq (RLit '','') rx_space) ('', '' @ ?b) '', '' ?b" by simp
  qed
  have sp: "rx_first rx_space r [] r" if "r = [] \<or> \<not> js_space (hd r)" for r
    unfolding rx_space_def using that by (rule first_star_none)
  have b: "rx_first DECIMAL ?b ?b []" using first_decimal [OF assms(2), of "[]"] by simp
  have a: "rx_first DECIMAL (?a @ '', '' @ ?b) ?a ('', '' @ ?b)" using assms(1) marks by (intro first_decimal) auto
  have "caps_first PLAIN_PAIR (?a @ '', '' @ ?b) [?a, ?b] []"
    unfolding PLAIN_PAIR_def using start [of "?a @ '', '' @ ?b" a "'', '' @ ?b"] marks
    by (intro caps_skip [OF sp] caps_take [OF a] caps_skip [OF deg] caps_skip [OF sep] caps_take [OF b]
        caps_first_Nil) simp_all
  then show ?thesis by (simp add: exec_plain_pair_def format_coordinates_def caps_at_first)
qed

lemma fixed_units_bound: "\<bar>x\<bar> \<le> of_nat b \<Longrightarrow> fixed_units 6 x \<le> b * 10 ^ 6"
proof -
  assume "\<bar>x\<bar> \<le> of_nat b"
  then have "\<bar>x\<bar> * 10 ^ 6 + 1 / 2 < of_nat (b * 10 ^ 6) + 1" by simp
  then have "\<lfloor>\<bar>x\<bar> * 10 ^ 6 + 1 / 2\<rfloor> < int (b * 10 ^ 6) + 1"
    unfolding floor_less_iff by simp
  then show ?thesis unfolding fixed_units_def by linarith
qed

lemma fixed_value_abs: "\<bar>fixed_value 6 x\<bar> = of_nat (fixed_units 6 x) / 10 ^ 6"
  by (simp add: fixed_value_def abs_mult)

lemma fixed_value_bound: "\<bar>x\<bar> \<le> of_nat b \<Longrightarrow> \<bar>fixed_value 6 x\<bar> \<le> of_nat b"
proof -
  assume "\<bar>x\<bar> \<le> of_nat b"
  then have "of_nat (fixed_units 6 x) \<le> (of_nat (b * 10 ^ 6) :: rat)"
    unfolding of_nat_le_iff by (rule fixed_units_bound)
  then show ?thesis unfolding fixed_value_abs by simp
qed

text \<open>A rendered coordinate reads as the double nearest to its six decimals, still in bounds.\<close>

lemma round_fixed:
  assumes "\<bar>x\<bar> \<le> of_nat b" "b \<le> 180"
  obtains r where "round_double (fixed_value 6 x) = Some r" "\<bar>r\<bar> \<le> of_nat b"
    "js_number (to_fixed 6 x) = Some r" "\<bar>r - fixed_value 6 x\<bar> \<le> 1 / 10 ^ 12"
proof -
  have d: "is_double (of_nat b)" using is_double_of_int [of "int b"] assms(2) by simp
  have v: "\<bar>fixed_value 6 x\<bar> \<le> of_nat b" using assms(1) by (rule fixed_value_bound)
  let ?v = "fixed_value 6 x"
  have small: "\<bar>?v\<bar> \<le> 180" 
  proof -
    have "(of_nat b :: rat) \<le> of_nat 180" unfolding of_nat_le_iff by (rule assms(2))
    with v show ?thesis by simp
  qed
  have e: "ulp_exponent ?v \<le> -45" if "?v \<noteq> 0"
  proof -
    have "exponent_of \<bar>?v\<bar> \<le> 7"
    proof (rule ccontr)
      assume "\<not> exponent_of \<bar>?v\<bar> \<le> 7"
      then have "pow2 8 \<le> pow2 (exponent_of \<bar>?v\<bar>)" by (intro pow2_mono) simp
      with exponent_of_bounds [of "\<bar>?v\<bar>"] small that show False by (simp add: pow2_def [of 8])
    qed
    then show ?thesis by (simp add: ulp_exponent_def)
  qed
  have "\<exists>r. round_double ?v = Some r"
  proof (cases "?v = 0")
    case False
    have "\<bar>of_int (round_even (?v / ulp ?v)) - ?v / ulp ?v\<bar> * ulp ?v \<le> 1 / 2 * ulp ?v"
      by (intro mult_right_mono round_even_error) simp
    then have "\<bar>of_int (round_even (?v / ulp ?v)) * ulp ?v - ?v\<bar> \<le> 1 / 2 * ulp ?v"
      using abs_mult [of "of_int (round_even (?v / ulp ?v)) - ?v / ulp ?v" "ulp ?v"] by (simp add: left_diff_distrib)
    moreover have "ulp ?v \<le> 1" using pow2_mono [OF e [OF False]] pow2_mono [of "-45" 0] by (simp add: ulp_def)
    ultimately have "\<bar>of_int (round_even (?v / ulp ?v)) * ulp ?v\<bar> < 256" using small by linarith
    also have "(256 :: rat) \<le> pow2 1024" using pow2_mono [of 8 1024] by (simp add: pow2_def [of 8])
    finally show ?thesis using False by (simp add: round_double_def Let_def ulp_def)
  qed simp
  then obtain r where r: "round_double ?v = Some r" by blast
  have "r \<le> of_nat b" "- of_nat b \<le> r"
    using round_double_upper [OF r d] round_double_lower [OF r, of "- of_nat b"] d v by auto
  moreover have "\<bar>r - ?v\<bar> \<le> 1 / 10 ^ 12"
  proof (cases "?v = 0")
    case False
    have "\<bar>r - ?v\<bar> \<le> pow2 (ulp_exponent ?v - 1)" by (rule round_double_error [OF r])
    also have "\<dots> \<le> pow2 (-46)" using e [OF False] by (intro pow2_mono) simp
    also have "\<dots> \<le> 1 / 10 ^ 12" by (simp add: pow2_def)
    finally show ?thesis .
  qed (use r in simp)
  ultimately show ?thesis using that [OF r] by (simp add: js_number_to_fixed r abs_le_iff)
qed

lemma fixed_units_stable:
  assumes "\<bar>r - fixed_value 6 x\<bar> \<le> 1 / 10 ^ 12"
  shows "fixed_units 6 r = fixed_units 6 x"
proof -
  have "\<bar>\<bar>r\<bar> - \<bar>fixed_value 6 x\<bar>\<bar> \<le> 1 / 10 ^ 12" using assms by linarith
  then have "\<bar>\<bar>r\<bar> * 10 ^ 6 - of_nat (fixed_units 6 x)\<bar> \<le> 1 / 10 ^ 6"
    unfolding fixed_value_abs by (simp add: abs_le_iff field_simps)
  then have "\<bar>r\<bar> * 10 ^ 6 - of_nat (fixed_units 6 x) \<le> 1 / 10 ^ 6" 
    "of_nat (fixed_units 6 x) - \<bar>r\<bar> * 10 ^ 6 \<le> 1 / 10 ^ 6" by linarith+
  then have "\<lfloor>\<bar>r\<bar> * 10 ^ 6 + 1 / 2\<rfloor> = int (fixed_units 6 x)"
    by (intro floor_unique) simp_all
  then show ?thesis by (simp add: fixed_units_def [of 6 r])
qed

text \<open>The one rendering that reads back as another number: a negative number that rounds to
  \<open>-0.000000\<close>.\<close>

definition renders_negative_zero :: "rat \<Rightarrow> bool" where
  "renders_negative_zero x \<longleftrightarrow> x < 0 \<and> fixed_units 6 x = 0"

lemma to_fixed_stable:
  assumes "\<bar>r - fixed_value 6 x\<bar> \<le> 1 / 10 ^ 12" "\<not> renders_negative_zero x" "fixed_units 6 x = 0 \<Longrightarrow> r = 0"
  shows "to_fixed 6 r = to_fixed 6 x"
proof -
  have u: "fixed_units 6 r = fixed_units 6 x" by (rule fixed_units_stable [OF assms(1)])
  have "r < 0 \<longleftrightarrow> x < 0"
  proof (cases "fixed_units 6 x = 0")
    case True
    then show ?thesis using assms(2,3) by (simp add: renders_negative_zero_def)
  next
    case False
    then have "(1 :: rat) \<le> of_nat (fixed_units 6 x)" by simp
    then have "1 / 10 ^ 6 \<le> \<bar>fixed_value 6 x\<bar>" unfolding fixed_value_abs by (simp add: field_simps)
    moreover have "fixed_value 6 x < 0 \<longleftrightarrow> x < 0"
      using False by (simp add: fixed_value_def)
    ultimately show ?thesis using assms(1) by (auto simp: abs_if split: if_splits)
  qed
  with u show ?thesis by (simp add: to_fixed_def)
qed

definition unsigned_zero :: "rat \<Rightarrow> rat" where
  "unsigned_zero x = (if renders_negative_zero x then 0 else x)"

lemma to_fixed_again:
  assumes "\<bar>r - fixed_value 6 x\<bar> \<le> 1 / 10 ^ 12" "round_double (fixed_value 6 x) = Some r"
  shows "to_fixed 6 r = to_fixed 6 (unsigned_zero x)"
proof (cases "renders_negative_zero x")
  case True
  with assms(2) show ?thesis by (simp add: renders_negative_zero_def unsigned_zero_def fixed_value_def)
next
  case False
  moreover have "fixed_units 6 x = 0 \<Longrightarrow> r = 0" using assms(2) by (simp add: fixed_value_def)
  ultimately show ?thesis using to_fixed_stable [OF assms(1)] by (simp add: unsigned_zero_def)
qed

lemma fixed_value_near: "\<bar>fixed_value 6 x - x\<bar> \<le> 1 / 2 / 10 ^ 6"
proof -
  let ?y = "\<bar>x\<bar> * 10 ^ 6 + 1 / 2"
  have "0 \<le> \<lfloor>?y\<rfloor>" by simp
  then have u: "(of_nat (fixed_units 6 x) :: rat) = of_int \<lfloor>?y\<rfloor>" by (simp add: fixed_units_def)
  have "of_int \<lfloor>?y\<rfloor> \<le> ?y" "?y < of_int \<lfloor>?y\<rfloor> + 1" by linarith+
  then have "of_nat (fixed_units 6 x) / 10 ^ 6 - \<bar>x\<bar> \<le> 1 / 2 / 10 ^ 6"
    "\<bar>x\<bar> - of_nat (fixed_units 6 x) / 10 ^ 6 \<le> 1 / 2 / 10 ^ 6"
    unfolding u by (simp_all add: field_simps)
  then show ?thesis by (auto simp: fixed_value_def abs_if split: if_splits)
qed

lemma js_trim_ends: "s \<noteq> [] \<Longrightarrow> \<not> js_space (hd s) \<Longrightarrow> \<not> js_space (last s) \<Longrightarrow> js_trim s = s"
  by (simp add: js_trim_def dropWhile_eq_self hd_rev)

lemma digit_no_space: "is_digit c \<Longrightarrow> \<not> js_space c"
  by (auto simp: is_digit_def js_space_def)

lemma formatted_hd: "format_coordinates a b 6 \<noteq> [] \<and>
    (hd (format_coordinates a b 6) = CHR ''-'' \<or> is_digit (hd (format_coordinates a b 6)))"
  using nat_text_hd [of "fixed_units 6 a div 10 ^ 6"] nat_text_not_Nil [of "fixed_units 6 a div 10 ^ 6"]
  by (auto simp: format_coordinates_def to_fixed_def Let_def)

lemma formatted_trim: "js_trim (format_coordinates a b 6) = format_coordinates a b 6"
proof -
  have "last (format_coordinates a b 6) = last (pad_digits 6 (fixed_units 6 b))"
    by (simp add: format_coordinates_def to_fixed_def Let_def)
  moreover have "is_digit (last (pad_digits 6 (fixed_units 6 b)))"
    by (rule pad_digits_digits [OF last_in_set]) simp
  moreover have "\<not> js_space CHR ''-''" by (simp add: js_space_def)
  ultimately show ?thesis using formatted_hd [of a b] by (intro js_trim_ends) (auto dest: digit_no_space)
qed

lemma url_hd: "rx_match IS_URL s \<Longrightarrow> s \<noteq> [] \<and> lower_char (hd s) = CHR ''h''"
proof -
  assume "rx_match IS_URL s"
  then obtain u v where s: "s = u @ v" and "u \<in> rx_lang (RLitI ''http'')"
    unfolding rx_match_iff IS_URL_def rx_lang.simps(4) by blast
  then have "map lower_char u = map lower_char ''http''" unfolding lang_litI js_lower_def by simp
  moreover have "lower_char CHR ''h'' = CHR ''h''" by (simp add: lower_char_def)
  ultimately show ?thesis using s by (cases u) auto
qed

lemma formatted_not_url: "\<not> rx_match IS_URL (format_coordinates a b 6)"
proof
  assume "rx_match IS_URL (format_coordinates a b 6)"
  then have "lower_char (hd (format_coordinates a b 6)) = CHR ''h''" using url_hd by blast
  moreover have "lower_char c \<noteq> CHR ''h''" if "is_digit c \<or> c = CHR ''-''" for c
    using that by (auto simp: lower_char_def is_digit_def Let_def)
  ultimately show False using formatted_hd [of a b] by auto
qed

text \<open>
  C3. A copied coordinate pair pastes back: the text the page renders for a point in bounds reads
  as a pair in bounds, within a millionth of a degree of the point, and rendering that pair gives
  the same text again, but that a half rendered as \<open>-0.000000\<close> comes back as \<open>0.000000\<close>.
\<close>

theorem copied_pair_pastes_back:
  assumes "in_bounds la lo"
  shows "\<exists>p. parse_pasted_coordinates (format_coordinates la lo 6) = Some p \<and>
    in_bounds (lat p) (lng p) \<and> \<bar>lat p - la\<bar> \<le> 1 / 10 ^ 6 \<and> \<bar>lng p - lo\<bar> \<le> 1 / 10 ^ 6 \<and>
    (\<not> renders_negative_zero la \<and> \<not> renders_negative_zero lo \<longrightarrow>
      format_coordinates (lat p) (lng p) 6 = format_coordinates la lo 6) \<and>
    format_coordinates (lat p) (lng p) 6 = format_coordinates (unsigned_zero la) (unsigned_zero lo) 6"
proof -
  have b: "\<bar>la\<bar> \<le> of_nat 90" "\<bar>lo\<bar> \<le> of_nat 180" using assms by (auto simp: in_bounds_def coordinate_bounds)
  obtain a where a: "round_double (fixed_value 6 la) = Some a" "\<bar>a\<bar> \<le> of_nat 90"
    "js_number (to_fixed 6 la) = Some a" "\<bar>a - fixed_value 6 la\<bar> \<le> 1 / 10 ^ 12" using round_fixed [OF b(1)] by auto
  obtain o' where o': "round_double (fixed_value 6 lo) = Some o'" "\<bar>o'\<bar> \<le> of_nat 180"
    "js_number (to_fixed 6 lo) = Some o'" "\<bar>o' - fixed_value 6 lo\<bar> \<le> 1 / 10 ^ 12" using round_fixed [OF b(2)] by auto
  have ib: "in_bounds a o'" using a(2) o'(2) by (auto simp: in_bounds_def coordinate_bounds abs_le_iff)
  have "fixed_units 6 la div 10 ^ 6 < 1000" "fixed_units 6 lo div 10 ^ 6 < 1000"
    using fixed_units_bound [OF b(1)] fixed_units_bound [OF b(2)] by (auto simp: div_less_iff_less_mult)
  then have "exec_plain_pair (format_coordinates la lo 6) = Some [to_fixed 6 la, to_fixed 6 lo]"
    by (rule exec_formatted)
  moreover have "js_trim (format_coordinates la lo 6) = format_coordinates la lo 6"
    by (rule formatted_trim)
  moreover have "\<not> rx_match IS_URL (format_coordinates la lo 6)" by (rule formatted_not_url)
  ultimately have "match_pair (format_coordinates la lo 6) = Some \<lparr>lat = a, lng = o'\<rparr>"
    using a(3) o'(3) by (simp add: match_pair_def Let_def)
  then have "parse_pasted_coordinates (format_coordinates la lo 6) = Some \<lparr>lat = a, lng = o'\<rparr>"
    using ib by (simp add: parse_pasted_coordinates_def)
  moreover have near: "\<bar>r - x\<bar> \<le> 1 / 10 ^ 6" if "\<bar>r - v\<bar> \<le> 1 / 10 ^ 12" "\<bar>v - x\<bar> \<le> 1 / 2 / 10 ^ 6" for r v x :: rat
  proof -
    have "(1 :: rat) / 10 ^ 12 + 1 / 2 / 10 ^ 6 \<le> 1 / 10 ^ 6" by simp
    with that show ?thesis by linarith
  qed
  moreover have "\<bar>a - la\<bar> \<le> 1 / 10 ^ 6" "\<bar>o' - lo\<bar> \<le> 1 / 10 ^ 6"
    using near [OF a(4) fixed_value_near] near [OF o'(4) fixed_value_near] by blast+
  moreover have "to_fixed 6 a = to_fixed 6 (unsigned_zero la)" "to_fixed 6 o' = to_fixed 6 (unsigned_zero lo)"
    by (rule to_fixed_again [OF a(4,1)] to_fixed_again [OF o'(4,1)])+
  ultimately show ?thesis using ib
    by (intro exI [of _ "\<lparr>lat = a, lng = o'\<rparr>"]) (auto simp: format_coordinates_def unsigned_zero_def)
qed

text \<open>A point a hair south of the equator: its latitude renders as \<open>-0.000000\<close>.\<close>

lemma copied_pair_pastes_back_witness:
  "\<exists>p. parse_pasted_coordinates (format_coordinates (- (1 / 10 ^ 7)) (97 / 2) 6) = Some p \<and>
     format_coordinates (lat p) (lng p) 6 = format_coordinates 0 (97 / 2) 6"
proof -
  have "fixed_units 6 (- (1 / 10 ^ 7)) = 0"
    by (simp add: fixed_units_def)
  then have zero: "unsigned_zero (- (1 / 10 ^ 7)) = 0" "unsigned_zero (97 / 2) = 97 / 2"
    unfolding unsigned_zero_def renders_negative_zero_def by simp_all
  have "in_bounds (- (1 / 10 ^ 7)) (97 / 2)" by (simp add: in_bounds_def coordinate_bounds)
  from copied_pair_pastes_back [OF this] show ?thesis unfolding zero by blast
qed

end
