(* ===== verification/Event_Types.thy ===== *)
theory Event_Types
  imports Coordinates Format
begin

text \<open>
  The rows of the API the frontend reads and writes: the schemas of \<open>lib/api-types.ts\<close> that the
  event, source and history code uses, under the names \<open>types/index.ts\<close> gives them. A property the
  schema lets be absent or null is an option. Instants and dates stay the strings the API sends.
\<close>

section \<open>Enumerations\<close>

datatype event_status = Requested | Detected | Geolocated | Closed

datatype version_zero = From_request | From_detection

datatype detected_via = Bot | Paste | Archive

datatype source_level = Direct | Indirect | Context

datatype source_kind =
    Smartphone | Camera | Static_camera | Drone | Aircraft | Satellite | Dashcam | Body_cam
  | Article | Official_statement | Other | Unknown

datatype media_kind = Image | Video

datatype media_role = Source_role | Proof_role

datatype archive_provider = Wayback | Archive_today | Ghostarchive

datatype conflict_tier = Major | Minor | Conflict_tier

text \<open>The wire spelling of a level, a kind and a file kind.\<close>

fun level_text :: "source_level \<Rightarrow> jsstring" where
  "level_text Direct = ''direct''"
| "level_text Indirect = ''indirect''"
| "level_text Context = ''context''"

fun kind_text :: "source_kind \<Rightarrow> jsstring" where
  "kind_text Smartphone = ''smartphone''"
| "kind_text Camera = ''camera''"
| "kind_text Static_camera = ''static_camera''"
| "kind_text Drone = ''drone''"
| "kind_text Aircraft = ''aircraft''"
| "kind_text Satellite = ''satellite''"
| "kind_text Dashcam = ''dashcam''"
| "kind_text Body_cam = ''body_cam''"
| "kind_text Article = ''article''"
| "kind_text Official_statement = ''official_statement''"
| "kind_text Other = ''other''"
| "kind_text Unknown = ''unknown''"

fun media_kind_text :: "media_kind \<Rightarrow> jsstring" where
  "media_kind_text Image = ''image''"
| "media_kind_text Video = ''video''"

section \<open>Rows\<close>

record author =
  a_id :: jsstring
  a_username :: jsstring
  a_avatar :: "jsstring option"

record tag =
  t_id :: jsstring
  t_name :: jsstring

record media =
  m_id :: jsstring
  m_kind :: media_kind
  m_filename :: "jsstring option"
  m_role :: media_role
  m_sha256 :: jsstring
  m_url :: jsstring

record archived_link =
  al_archived_at :: jsstring
  al_provider :: archive_provider
  al_url :: jsstring

record source_link =
  l_archived :: "archived_link option"
  l_posted_at :: "jsstring option"
  l_url :: jsstring

record source =
  s_id :: jsstring
  s_title :: jsstring
  s_level :: source_level
  s_kind :: source_kind
  s_captured_at :: "jsstring option"
  s_position :: "coordinate_pair option"
  s_graphic :: bool
  s_links :: "source_link list"
  s_tags :: "tag list"
  s_media :: "media option"
  s_warnings :: "jsstring list"

record conflict =
  c_id :: jsstring
  c_name :: jsstring
  c_ongoing :: bool
  c_start_year :: "int option"
  c_end_year :: "int option"
  c_tier :: "conflict_tier option"
  c_wikidata :: "jsstring option"

record event =
  e_id :: jsstring
  e_status :: event_status
  e_before_closed :: "event_status option"
  e_close_reason :: "jsstring option"
  e_closed_at :: "jsstring option"
  e_conflicts :: "conflict list"
  e_coords :: "coordinate_pair option"
  e_created_at :: jsstring
  e_detected_from :: "jsstring option"
  e_detected_via :: "detected_via option"
  e_geolocated_at :: "jsstring option"
  e_geolocators :: "author list"
  e_hidden_at :: "jsstring option"
  e_graphic :: bool
  e_date :: "jsstring option"
  e_time :: "jsstring option"
  e_owner :: author
  e_proof :: "jsstring option"
  e_requested_by :: "author option"
  e_sources :: "source list"
  e_tags :: "tag list"
  e_thumbnail :: "media option"
  e_title :: jsstring
  e_version_no :: int
  e_version_zero :: "version_zero option"

text \<open>A filed version. Its snapshot is untyped JSON, which the reading code does not trust.\<close>

record event_version =
  v_id :: jsstring
  v_no :: int
  v_created_at :: jsstring
  v_edited_by :: "author option"
  v_note :: "jsstring option"
  v_redacted :: bool
  v_snapshot :: json

text \<open>A staged upload, and one that came from a link's post.\<close>

record upload =
  u_id :: jsstring
  u_kind :: media_kind
  u_filename :: "jsstring option"
  u_expires_at :: jsstring
  u_sha256 :: jsstring
  u_url :: jsstring

record link_upload = upload +
  lu_post_media :: "media_kind list"

end
