(* ===== verification/Filter_Model.thy ===== *)
theory Filter_Model
  imports Js_Prelude "HOL-Library.AList"
begin

text \<open>
  The filter vocabulary of \<open>components/filters/model.ts\<close>, the accounts of
  \<open>lib/accounts.ts\<close> and the panel state of \<open>components/filters/useFilterSurface.ts\<close>: the
  dimensions a surface offers for a Show pick, the state with the values no longer offered
  dropped, the date windows and the per-day counts.
\<close>

named_theorems filter_defs \<open>the operations of the filter model\<close>

section \<open>Accounts\<close>

text \<open>\<open>avatar_url?: string | null\<close> is absent (\<open>None\<close>), null (\<open>Some None\<close>) or an address.\<close>

datatype account =
    Analyst (username: jsstring) (analyst_avatar: "jsstring option option")
  | Organization (slug: jsstring) (org_name: jsstring) (org_avatar: "jsstring option option")

fun account_name :: "account \<Rightarrow> jsstring" where
  "account_name (Analyst u _) = u"
| "account_name (Organization _ n _) = n"

fun account_key :: "account \<Rightarrow> jsstring" where
  "account_key (Analyst u _) = ''analyst:'' @ u"
| "account_key (Organization s _ _) = ''organization:'' @ s"

section \<open>The state and the vocabulary\<close>

datatype surface = SMap | SSearch | SFeed | SRequests

record filter_state =
  f_show :: "jsstring list"
  f_conflicts :: "jsstring list"
  f_tags :: "jsstring list"
  f_source_kinds :: "jsstring list"
  f_levels :: "jsstring list"
  f_media_types :: "jsstring list"
  f_location_guess :: "jsstring list"
  f_following :: bool
  f_author :: jsstring
  f_approved :: bool
  f_approved_by :: "account option"
  f_event_from :: jsstring
  f_event_to :: jsstring
  f_added_from :: jsstring
  f_added_to :: jsstring

definition EMPTY_FILTERS :: filter_state where
  "EMPTY_FILTERS = \<lparr>f_show = [], f_conflicts = [], f_tags = [], f_source_kinds = [], f_levels = [],
     f_media_types = [], f_location_guess = [], f_following = False, f_author = [],
     f_approved = False, f_approved_by = None, f_event_from = [], f_event_to = [],
     f_added_from = [], f_added_to = []\<rparr>"

text \<open>\<open>Object.keys(EVENT_STATUS_META)\<close> in its order, and the statuses the Show field offers.\<close>

definition EVENT_STATUSES :: "jsstring list" where
  "EVENT_STATUSES = [''requested'', ''detected'', ''geolocated'', ''closed'']"

definition FILTER_STATUSES :: "jsstring list" where
  "FILTER_STATUSES = filter (\<lambda>status. status \<noteq> ''closed'') EVENT_STATUSES"

datatype dim_key =
    DShow | DConflict | DTags | DSourceKind | DLevel | DMedia | DLocationGuess
  | DFollowing | DAuthor | DApproved | DApprovedBy

datatype list_field = LShow | LConflicts | LTags | LSourceKinds | LLevels | LMediaTypes | LLocationGuess
datatype switch_field = WFollowing | WApproved
datatype account_field = AAuthor | AApprovedBy

datatype control =
    Options list_field jsstring
  | Switch switch_field
  | AccountSearch account_field

record dimension_spec =
  dim_name :: jsstring
  dim_concept :: "jsstring option"
  dim_control :: control
  dim_param :: jsstring
  dim_surfaces :: "surface list"

definition ALL_SURFACES :: "surface list" where
  "ALL_SURFACES = [SMap, SSearch, SFeed, SRequests]"

fun DIMENSIONS :: "dim_key \<Rightarrow> dimension_spec" where
  "DIMENSIONS DShow = \<lparr>dim_name = ''Show'', dim_concept = Some ''status'',
     dim_control = Options LShow ''Search kinds'', dim_param = ''status'',
     dim_surfaces = [SMap, SSearch, SFeed]\<rparr>"
| "DIMENSIONS DConflict = \<lparr>dim_name = ''Conflict'', dim_concept = Some ''conflict'',
     dim_control = Options LConflicts ''Search conflicts'', dim_param = ''conflict'',
     dim_surfaces = ALL_SURFACES\<rparr>"
| "DIMENSIONS DSourceKind = \<lparr>dim_name = ''Source kind'', dim_concept = Some ''source_kind'',
     dim_control = Options LSourceKinds ''Search source kinds'', dim_param = ''source_kind'',
     dim_surfaces = ALL_SURFACES\<rparr>"
| "DIMENSIONS DLevel = \<lparr>dim_name = ''Level'', dim_concept = Some ''source_level'',
     dim_control = Options LLevels ''Search levels'', dim_param = ''level'',
     dim_surfaces = ALL_SURFACES\<rparr>"
| "DIMENSIONS DTags = \<lparr>dim_name = ''Tags'', dim_concept = None,
     dim_control = Options LTags ''Search tags'', dim_param = ''tag'',
     dim_surfaces = ALL_SURFACES\<rparr>"
| "DIMENSIONS DMedia = \<lparr>dim_name = ''Media'', dim_concept = None,
     dim_control = Options LMediaTypes ''Search media'', dim_param = ''media'',
     dim_surfaces = ALL_SURFACES\<rparr>"
| "DIMENSIONS DLocationGuess = \<lparr>dim_name = ''Location guess'', dim_concept = None,
     dim_control = Options LLocationGuess ''Search guesses'', dim_param = ''has_coords'',
     dim_surfaces = [SSearch, SFeed, SRequests]\<rparr>"
| "DIMENSIONS DFollowing = \<lparr>dim_name = ''Following'', dim_concept = None,
     dim_control = Switch WFollowing, dim_param = ''scope'', dim_surfaces = [SFeed]\<rparr>"
| "DIMENSIONS DAuthor = \<lparr>dim_name = ''Author'', dim_concept = None,
     dim_control = AccountSearch AAuthor, dim_param = ''author'', dim_surfaces = ALL_SURFACES\<rparr>"
| "DIMENSIONS DApproved = \<lparr>dim_name = ''Approved only'', dim_concept = Some ''approval_filter'',
     dim_control = Switch WApproved, dim_param = ''approved'',
     dim_surfaces = [SMap, SSearch, SFeed]\<rparr>"
| "DIMENSIONS DApprovedBy = \<lparr>dim_name = ''Approved by'', dim_concept = Some ''approval_filter'',
     dim_control = AccountSearch AApprovedBy, dim_param = ''approved_by'',
     dim_surfaces = [SMap, SSearch, SFeed]\<rparr>"

text \<open>\<open>Object.keys(DIMENSIONS)\<close>: the order the object literal lists the keys in.\<close>

definition dimension_keys :: "dim_key list" where
  "dimension_keys = [DShow, DConflict, DSourceKind, DLevel, DTags, DMedia, DLocationGuess,
     DFollowing, DAuthor, DApproved, DApprovedBy]"

record filter_group =
  g_title :: jsstring
  g_dimensions :: "dim_key list"
  g_dates :: bool

definition FILTER_GROUPS :: "filter_group list" where
  "FILTER_GROUPS =
    [\<lparr>g_title = ''What'', g_dimensions = [DShow, DConflict, DTags], g_dates = False\<rparr>,
     \<lparr>g_title = ''When'', g_dimensions = [], g_dates = True\<rparr>,
     \<lparr>g_title = ''Source'', g_dimensions = [DSourceKind, DLevel, DMedia], g_dates = False\<rparr>,
     \<lparr>g_title = ''Where'', g_dimensions = [DLocationGuess], g_dates = False\<rparr>,
     \<lparr>g_title = ''Who'', g_dimensions = [DFollowing, DAuthor, DApproved, DApprovedBy], g_dates = False\<rparr>]"

datatype date_key = KEventDate | KAdded

text \<open>\<open>DATE_DIMENSIONS\<close>: the two edges of a timeline (the \<open>from\<close> and \<open>to\<close> fields, read
  and written) and the two parameters that carry them.\<close>

record date_spec =
  date_name :: jsstring
  date_concept :: jsstring
  date_from :: "filter_state \<Rightarrow> jsstring"
  date_to :: "filter_state \<Rightarrow> jsstring"
  date_params :: "jsstring \<times> jsstring"

fun DATE_DIMENSIONS :: "date_key \<Rightarrow> date_spec" where
  "DATE_DIMENSIONS KEventDate = \<lparr>date_name = ''Event date'', date_concept = ''occurred_date'',
     date_from = f_event_from, date_to = f_event_to,
     date_params = (''occurred_date_from'', ''occurred_date_to'')\<rparr>"
| "DATE_DIMENSIONS KAdded = \<lparr>date_name = ''Added'', date_concept = ''added'',
     date_from = f_added_from, date_to = f_added_to,
     date_params = (''submitted_from'', ''submitted_to'')\<rparr>"

definition DATE_KEYS :: "date_key list" where
  "DATE_KEYS = [KEventDate, KAdded]"

text \<open>\<open>Exclude<SearchHitType, "event">\<close>, by the word a Show pick holds.\<close>

definition SHOW_KINDS :: "jsstring list" where
  "SHOW_KINDS = [''site'', ''collection'', ''user'', ''organization'']"

fun SHOW_BY_SURFACE :: "surface \<Rightarrow> jsstring list" where
  "SHOW_BY_SURFACE SMap = [''detected'', ''geolocated'', ''site'']"
| "SHOW_BY_SURFACE SSearch = FILTER_STATUSES @ SHOW_KINDS"
| "SHOW_BY_SURFACE SFeed = FILTER_STATUSES"
| "SHOW_BY_SURFACE SRequests = []"

definition KIND_DIMENSIONS :: "jsstring \<Rightarrow> dim_key list" where
  "KIND_DIMENSIONS kind =
     (if kind = ''site'' then [DAuthor]
      else if kind = ''collection'' then [DTags, DAuthor]
      else [])"

section \<open>The Show rule and the dimensions a surface offers\<close>

definition is_status :: "jsstring \<Rightarrow> bool" where
  "is_status value \<longleftrightarrow> value \<in> set FILTER_STATUSES"

definition split_show :: "jsstring list \<Rightarrow> jsstring list \<times> jsstring list" where
  "split_show pick = (filter is_status pick, filter (\<lambda>kind. kind \<in> set pick) SHOW_KINDS)"

text \<open>\<open>showScope\<close>: whether the pick lists events, and whether it lists the other kinds.\<close>

definition show_scope :: "jsstring list \<Rightarrow> bool \<times> bool" where
  "show_scope pick = (let (statuses, kinds) = split_show pick; none = (statuses = [] \<and> kinds = [])
     in (none \<or> statuses \<noteq> [], none \<or> kinds \<noteq> []))"

definition offered_dimensions :: "surface \<Rightarrow> jsstring list \<Rightarrow> dim_key list" where
  "offered_dimensions surface pick =
     (let all = filter (\<lambda>key. surface \<in> set (dim_surfaces (DIMENSIONS key)))
                  (concat (map g_dimensions FILTER_GROUPS))
      in if surface \<noteq> SSearch \<or> fst (show_scope pick) then all
         else (let answered = DShow # concat (map KIND_DIMENSIONS (snd (split_show pick)))
               in filter (\<lambda>key. key \<in> set answered) all))"

definition dates_offered :: "surface \<Rightarrow> jsstring list \<Rightarrow> bool" where
  "dates_offered surface pick \<longleftrightarrow> surface \<noteq> SSearch \<or> fst (show_scope pick)"

section \<open>Reading and writing a dimension\<close>

fun get_list :: "list_field \<Rightarrow> filter_state \<Rightarrow> jsstring list" where
  "get_list LShow s = f_show s"
| "get_list LConflicts s = f_conflicts s"
| "get_list LTags s = f_tags s"
| "get_list LSourceKinds s = f_source_kinds s"
| "get_list LLevels s = f_levels s"
| "get_list LMediaTypes s = f_media_types s"
| "get_list LLocationGuess s = f_location_guess s"

fun put_list :: "list_field \<Rightarrow> jsstring list \<Rightarrow> filter_state \<Rightarrow> filter_state" where
  "put_list LShow v s = s\<lparr>f_show := v\<rparr>"
| "put_list LConflicts v s = s\<lparr>f_conflicts := v\<rparr>"
| "put_list LTags v s = s\<lparr>f_tags := v\<rparr>"
| "put_list LSourceKinds v s = s\<lparr>f_source_kinds := v\<rparr>"
| "put_list LLevels v s = s\<lparr>f_levels := v\<rparr>"
| "put_list LMediaTypes v s = s\<lparr>f_media_types := v\<rparr>"
| "put_list LLocationGuess v s = s\<lparr>f_location_guess := v\<rparr>"

fun get_switch :: "switch_field \<Rightarrow> filter_state \<Rightarrow> bool" where
  "get_switch WFollowing s = f_following s"
| "get_switch WApproved s = f_approved s"

fun put_switch :: "switch_field \<Rightarrow> bool \<Rightarrow> filter_state \<Rightarrow> filter_state" where
  "put_switch WFollowing v s = s\<lparr>f_following := v\<rparr>"
| "put_switch WApproved v s = s\<lparr>f_approved := v\<rparr>"

text \<open>The body of \<open>scopeState\<close>'s loop for a key the surface does not offer.\<close>

definition clear_dimension :: "dim_key \<Rightarrow> filter_state \<Rightarrow> filter_state" where
  "clear_dimension key s = (case dim_control (DIMENSIONS key) of
       Options field _ \<Rightarrow> put_list field [] s
     | Switch field \<Rightarrow> put_switch field (get_switch field EMPTY_FILTERS) s
     | AccountSearch AAuthor \<Rightarrow> s\<lparr>f_author := []\<rparr>
     | AccountSearch AApprovedBy \<Rightarrow> s\<lparr>f_approved_by := None\<rparr>)"

definition scope_step :: "dim_key set \<Rightarrow> filter_state \<Rightarrow> dim_key \<Rightarrow> filter_state" where
  "scope_step offered next key = (if key \<in> offered then next else clear_dimension key next)"

definition clear_dates :: "filter_state \<Rightarrow> filter_state" where
  "clear_dates s = s\<lparr>f_event_from := [], f_event_to := [], f_added_from := [], f_added_to := []\<rparr>"

definition scope_state :: "surface \<Rightarrow> filter_state \<Rightarrow> filter_state" where
  "scope_state surface state =
     (let offered = set (offered_dimensions surface (f_show state));
          next = foldl (scope_step offered) state dimension_keys
      in if dates_offered surface (f_show state) then next else clear_dates next)"

definition has_coords_filter :: "jsstring list \<Rightarrow> bool option" where
  "has_coords_filter guess = (case guess of [g] \<Rightarrow> Some (g = ''guessed'') | _ \<Rightarrow> None)"

definition location_guess_of :: "jsstring option \<Rightarrow> jsstring list" where
  "location_guess_of has_coords =
     (if has_coords = Some ''true'' then [''guessed'']
      else if has_coords = Some ''false'' then [''blind''] else [])"

text \<open>An empty string is falsy, so an unknown day is \<open>None\<close> or empty.\<close>

definition in_window :: "jsstring option \<Rightarrow> jsstring \<Rightarrow> jsstring \<Rightarrow> bool" where
  "in_window day from to \<longleftrightarrow> (case day of None \<Rightarrow> True
     | Some d \<Rightarrow> d = [] \<or> ((from = [] \<or> from \<le> d) \<and> (to = [] \<or> d \<le> to)))"

text \<open>\<open>dayCounts\<close>: a \<open>Map\<close> from day to count, in insertion order, then sorted by day.\<close>

definition bump_day :: "(jsstring \<times> nat) list \<Rightarrow> jsstring option \<Rightarrow> (jsstring \<times> nat) list" where
  "bump_day counts day = (case day of
       None \<Rightarrow> counts
     | Some d \<Rightarrow> if d = [] then counts
         else AList.update d (case map_of counts d of None \<Rightarrow> 1 | Some c \<Rightarrow> c + 1) counts)"

definition day_counts :: "jsstring option list \<Rightarrow> (jsstring \<times> nat) list" where
  "day_counts days = sort_by (compare_on fst) (foldl bump_day [] days)"

definition dimension_active :: "dim_key \<Rightarrow> filter_state \<Rightarrow> bool" where
  "dimension_active key state = (case dim_control (DIMENSIONS key) of
       Options field _ \<Rightarrow> get_list field state \<noteq> []
     | Switch field \<Rightarrow> get_switch field state
     | AccountSearch AAuthor \<Rightarrow> js_trim (f_author state) \<noteq> []
     | AccountSearch AApprovedBy \<Rightarrow> f_approved_by state \<noteq> None)"

definition date_active :: "date_key \<Rightarrow> filter_state \<Rightarrow> bool" where
  "date_active key state \<longleftrightarrow>
     date_from (DATE_DIMENSIONS key) state \<noteq> [] \<or> date_to (DATE_DIMENSIONS key) state \<noteq> []"

definition any_active :: "surface \<Rightarrow> filter_state \<Rightarrow> bool" where
  "any_active surface state \<longleftrightarrow>
     (dates_offered surface (f_show state) \<and> list_ex (\<lambda>key. date_active key state) DATE_KEYS) \<or>
     list_ex (\<lambda>key. dimension_active key state) (offered_dimensions surface (f_show state))"

section \<open>The panel's patch and clear\<close>

text \<open>A \<open>Partial<FilterState>\<close>: the fields a patch names, spread over the state.\<close>

record filter_patch =
  p_lists :: "list_field \<Rightarrow> jsstring list option"
  p_switches :: "switch_field \<Rightarrow> bool option"
  p_author :: "jsstring option"
  p_approved_by :: "account option option"
  p_dates :: "date_key \<Rightarrow> (jsstring option \<times> jsstring option)"

definition or_else :: "'a option \<Rightarrow> 'a \<Rightarrow> 'a" where
  "or_else v d = (case v of None \<Rightarrow> d | Some w \<Rightarrow> w)"

definition apply_patch :: "filter_state \<Rightarrow> filter_patch \<Rightarrow> filter_state" where
  "apply_patch f p = \<lparr>
     f_show = or_else (p_lists p LShow) (f_show f),
     f_conflicts = or_else (p_lists p LConflicts) (f_conflicts f),
     f_tags = or_else (p_lists p LTags) (f_tags f),
     f_source_kinds = or_else (p_lists p LSourceKinds) (f_source_kinds f),
     f_levels = or_else (p_lists p LLevels) (f_levels f),
     f_media_types = or_else (p_lists p LMediaTypes) (f_media_types f),
     f_location_guess = or_else (p_lists p LLocationGuess) (f_location_guess f),
     f_following = or_else (p_switches p WFollowing) (f_following f),
     f_author = or_else (p_author p) (f_author f),
     f_approved = or_else (p_switches p WApproved) (f_approved f),
     f_approved_by = or_else (p_approved_by p) (f_approved_by f),
     f_event_from = or_else (fst (p_dates p KEventDate)) (f_event_from f),
     f_event_to = or_else (snd (p_dates p KEventDate)) (f_event_to f),
     f_added_from = or_else (fst (p_dates p KAdded)) (f_added_from f),
     f_added_to = or_else (snd (p_dates p KAdded)) (f_added_to f)\<rparr>"

text \<open>\<open>onPatch\<close> and \<open>onClear\<close> of \<open>useFilterSurface\<close>.\<close>

datatype panel_event = Patch filter_patch | Clear

fun panel_step :: "surface \<Rightarrow> filter_state \<Rightarrow> panel_event \<Rightarrow> filter_state" where
  "panel_step surface f (Patch p) = scope_state surface (apply_patch f p)"
| "panel_step surface f Clear = EMPTY_FILTERS"

definition panel_run :: "surface \<Rightarrow> filter_state \<Rightarrow> panel_event list \<Rightarrow> filter_state" where
  "panel_run surface f es = foldl (panel_step surface) f es"

section \<open>Reading back what was written\<close>

lemma get_put_list [simp]: "get_list l (put_list m v s) = (if l = m then v else get_list l s)"
  by (cases l; cases m) simp_all

lemma get_put_switch [simp]: "get_switch l (put_switch m v s) = (if l = m then v else get_switch l s)"
  by (cases l; cases m) simp_all

lemma get_list_EMPTY [simp]: "get_list l EMPTY_FILTERS = []"
  by (cases l) (simp_all add: EMPTY_FILTERS_def)

lemma get_switch_EMPTY [simp]: "get_switch w EMPTY_FILTERS = False"
  by (cases w) (simp_all add: EMPTY_FILTERS_def)

lemma EMPTY_FILTERS_sel [simp]:
  "f_show EMPTY_FILTERS = []" "f_author EMPTY_FILTERS = []" "f_approved_by EMPTY_FILTERS = None"
  "\<not> f_following EMPTY_FILTERS" "\<not> f_approved EMPTY_FILTERS"
  "f_event_from EMPTY_FILTERS = []" "f_event_to EMPTY_FILTERS = []"
  "f_added_from EMPTY_FILTERS = []" "f_added_to EMPTY_FILTERS = []"
  by (simp_all add: EMPTY_FILTERS_def)

lemmas clear_dimension_simps [simp] =
  clear_dimension_def [of DShow, simplified] clear_dimension_def [of DConflict, simplified]
  clear_dimension_def [of DTags, simplified] clear_dimension_def [of DSourceKind, simplified]
  clear_dimension_def [of DLevel, simplified] clear_dimension_def [of DMedia, simplified]
  clear_dimension_def [of DLocationGuess, simplified] clear_dimension_def [of DFollowing, simplified]
  clear_dimension_def [of DAuthor, simplified] clear_dimension_def [of DApproved, simplified]
  clear_dimension_def [of DApprovedBy, simplified]

lemmas dimension_active_simps [simp] =
  dimension_active_def [of DShow, simplified] dimension_active_def [of DConflict, simplified]
  dimension_active_def [of DTags, simplified] dimension_active_def [of DSourceKind, simplified]
  dimension_active_def [of DLevel, simplified] dimension_active_def [of DMedia, simplified]
  dimension_active_def [of DLocationGuess, simplified] dimension_active_def [of DFollowing, simplified]
  dimension_active_def [of DAuthor, simplified] dimension_active_def [of DApproved, simplified]
  dimension_active_def [of DApprovedBy, simplified]

text \<open>What one pass of the loop body leaves in each field.\<close>

lemma scope_step_sel [simp]:
  "f_show (scope_step A x k) = (if k = DShow \<and> k \<notin> A then [] else f_show x)"
  "f_conflicts (scope_step A x k) = (if k = DConflict \<and> k \<notin> A then [] else f_conflicts x)"
  "f_tags (scope_step A x k) = (if k = DTags \<and> k \<notin> A then [] else f_tags x)"
  "f_source_kinds (scope_step A x k) = (if k = DSourceKind \<and> k \<notin> A then [] else f_source_kinds x)"
  "f_levels (scope_step A x k) = (if k = DLevel \<and> k \<notin> A then [] else f_levels x)"
  "f_media_types (scope_step A x k) = (if k = DMedia \<and> k \<notin> A then [] else f_media_types x)"
  "f_location_guess (scope_step A x k) = (if k = DLocationGuess \<and> k \<notin> A then [] else f_location_guess x)"
  "f_following (scope_step A x k) = (if k = DFollowing \<and> k \<notin> A then False else f_following x)"
  "f_author (scope_step A x k) = (if k = DAuthor \<and> k \<notin> A then [] else f_author x)"
  "f_approved (scope_step A x k) = (if k = DApproved \<and> k \<notin> A then False else f_approved x)"
  "f_approved_by (scope_step A x k) = (if k = DApprovedBy \<and> k \<notin> A then None else f_approved_by x)"
  "f_event_from (scope_step A x k) = f_event_from x" "f_event_to (scope_step A x k) = f_event_to x"
  "f_added_from (scope_step A x k) = f_added_from x" "f_added_to (scope_step A x k) = f_added_to x"
  by (cases k; simp add: scope_step_def)+

text \<open>The whole effect of \<open>scope_state\<close>, field by field.\<close>

definition keep_if :: "bool \<Rightarrow> 'a \<Rightarrow> 'a \<Rightarrow> 'a" where
  "keep_if b v d = (if b then v else d)"

lemma scope_state_eq:
  "scope_state surface s =
     (let A = set (offered_dimensions surface (f_show s)); D = dates_offered surface (f_show s) in
      \<lparr>f_show = keep_if (DShow \<in> A) (f_show s) [],
       f_conflicts = keep_if (DConflict \<in> A) (f_conflicts s) [],
       f_tags = keep_if (DTags \<in> A) (f_tags s) [],
       f_source_kinds = keep_if (DSourceKind \<in> A) (f_source_kinds s) [],
       f_levels = keep_if (DLevel \<in> A) (f_levels s) [],
       f_media_types = keep_if (DMedia \<in> A) (f_media_types s) [],
       f_location_guess = keep_if (DLocationGuess \<in> A) (f_location_guess s) [],
       f_following = keep_if (DFollowing \<in> A) (f_following s) False,
       f_author = keep_if (DAuthor \<in> A) (f_author s) [],
       f_approved = keep_if (DApproved \<in> A) (f_approved s) False,
       f_approved_by = keep_if (DApprovedBy \<in> A) (f_approved_by s) None,
       f_event_from = keep_if D (f_event_from s) [],
       f_event_to = keep_if D (f_event_to s) [],
       f_added_from = keep_if D (f_added_from s) [],
       f_added_to = keep_if D (f_added_to s) []\<rparr>)"
  unfolding scope_state_def Let_def dimension_keys_def clear_dates_def keep_if_def
  by (rule filter_state.equality) simp_all

lemma keep_if_simps [simp]:
  "keep_if True v d = v" "keep_if False v d = d" "keep_if b v v = v"
  "keep_if b (keep_if b v d) d = keep_if b v d"
  by (simp_all add: keep_if_def)

section \<open>What a surface offers\<close>

lemma panel_order: "concat (map g_dimensions FILTER_GROUPS) =
    [DShow, DConflict, DTags, DSourceKind, DLevel, DMedia, DLocationGuess,
     DFollowing, DAuthor, DApproved, DApprovedBy]"
  by (simp add: FILTER_GROUPS_def)

lemma set_dimension_keys: "set dimension_keys = UNIV"
proof -
  have "k \<in> set dimension_keys" for k by (cases k) (simp_all add: dimension_keys_def)
  then show ?thesis by auto
qed

lemma in_panel_order: "k \<in> set (concat (map g_dimensions FILTER_GROUPS))"
  unfolding panel_order by (cases k) simp_all

lemma set_offered_dimensions:
  "k \<in> set (offered_dimensions surface pick) \<longleftrightarrow>
     surface \<in> set (dim_surfaces (DIMENSIONS k)) \<and>
     (surface \<noteq> SSearch \<or> fst (show_scope pick) \<or> k = DShow \<or>
      (\<exists>kind \<in> set (snd (split_show pick)). k \<in> set (KIND_DIMENSIONS kind)))"
  using in_panel_order [of k] unfolding offered_dimensions_def Let_def by auto

text \<open>Off the search page the offer does not depend on the pick; on it Show is always offered.\<close>

lemma offered_not_search: "surface \<noteq> SSearch \<Longrightarrow> offered_dimensions surface p = offered_dimensions surface q"
  by (simp add: offered_dimensions_def)

lemma show_offered_search: "DShow \<in> set (offered_dimensions SSearch pick)"
  by (simp add: set_offered_dimensions)

lemma dates_offered_not_search: "surface \<noteq> SSearch \<Longrightarrow> dates_offered surface p"
  by (simp add: dates_offered_def)

lemma f_show_scope_state:
  "f_show (scope_state surface s) = keep_if (DShow \<in> set (offered_dimensions surface (f_show s))) (f_show s) []"
  by (simp add: scope_state_eq Let_def)

text \<open>Scoping never changes what is offered, since it clears Show only where the offer ignores it.\<close>

lemma offered_scope [simp]:
  "offered_dimensions surface (f_show (scope_state surface s)) = offered_dimensions surface (f_show s)"
  by (cases "surface = SSearch")
    (auto simp: f_show_scope_state show_offered_search intro: offered_not_search)

lemma dates_offered_scope [simp]:
  "dates_offered surface (f_show (scope_state surface s)) = dates_offered surface (f_show s)"
  by (cases "surface = SSearch")
    (auto simp: f_show_scope_state show_offered_search dates_offered_not_search)

lemma dimension_active_scope:
  "dimension_active k (scope_state surface s) \<longleftrightarrow>
     dimension_active k s \<and> k \<in> set (offered_dimensions surface (f_show s))"
  by (cases k) (simp_all add: scope_state_eq Let_def keep_if_def)

lemma date_active_scope:
  "date_active d (scope_state surface s) \<longleftrightarrow> date_active d s \<and> dates_offered surface (f_show s)"
  by (cases d) (simp_all add: date_active_def scope_state_eq Let_def keep_if_def)

lemma set_DATE_KEYS: "d \<in> set DATE_KEYS"
  by (cases d) (simp_all add: DATE_KEYS_def)

lemma scope_state_EMPTY [simp]: "scope_state surface EMPTY_FILTERS = EMPTY_FILTERS"
  by (simp add: scope_state_eq Let_def EMPTY_FILTERS_def)

text \<open>A state the surface keeps whole: none of its filters is hidden.\<close>

definition scoped :: "surface \<Rightarrow> filter_state \<Rightarrow> bool" where
  "scoped surface s \<longleftrightarrow> scope_state surface s = s"

lemma scoped_fields:
  assumes "scoped surface s"
  defines "A \<equiv> set (offered_dimensions surface (f_show s))" and "D \<equiv> dates_offered surface (f_show s)"
  shows "keep_if (DShow \<in> A) (f_show s) [] = f_show s"
    "keep_if (DConflict \<in> A) (f_conflicts s) [] = f_conflicts s"
    "keep_if (DTags \<in> A) (f_tags s) [] = f_tags s"
    "keep_if (DSourceKind \<in> A) (f_source_kinds s) [] = f_source_kinds s"
    "keep_if (DLevel \<in> A) (f_levels s) [] = f_levels s"
    "keep_if (DMedia \<in> A) (f_media_types s) [] = f_media_types s"
    "keep_if (DLocationGuess \<in> A) (f_location_guess s) [] = f_location_guess s"
    "keep_if (DFollowing \<in> A) (f_following s) False = f_following s"
    "keep_if (DAuthor \<in> A) (f_author s) [] = f_author s"
    "keep_if (DApproved \<in> A) (f_approved s) False = f_approved s"
    "keep_if (DApprovedBy \<in> A) (f_approved_by s) None = f_approved_by s"
    "keep_if D (f_event_from s) [] = f_event_from s" "keep_if D (f_event_to s) [] = f_event_to s"
    "keep_if D (f_added_from s) [] = f_added_from s" "keep_if D (f_added_to s) [] = f_added_to s"
  using assms(1)[unfolded scoped_def]
    scope_state_eq [of surface s, folded A_def D_def, unfolded Let_def]
  by (simp_all add: filter_state.defs A_def D_def) (cases s; simp add: scope_state_eq Let_def)+

lemma scoped_EMPTY [simp]: "scoped surface EMPTY_FILTERS"
  by (simp add: scoped_def)

lemma scoped_scope_state [simp]: "scoped surface (scope_state surface s)"
proof -
  have "scope_state surface (scope_state surface s) =
      (let A = set (offered_dimensions surface (f_show s)); D = dates_offered surface (f_show s);
           t = scope_state surface s in
      \<lparr>f_show = keep_if (DShow \<in> A) (f_show t) [],
       f_conflicts = keep_if (DConflict \<in> A) (f_conflicts t) [],
       f_tags = keep_if (DTags \<in> A) (f_tags t) [],
       f_source_kinds = keep_if (DSourceKind \<in> A) (f_source_kinds t) [],
       f_levels = keep_if (DLevel \<in> A) (f_levels t) [],
       f_media_types = keep_if (DMedia \<in> A) (f_media_types t) [],
       f_location_guess = keep_if (DLocationGuess \<in> A) (f_location_guess t) [],
       f_following = keep_if (DFollowing \<in> A) (f_following t) False,
       f_author = keep_if (DAuthor \<in> A) (f_author t) [],
       f_approved = keep_if (DApproved \<in> A) (f_approved t) False,
       f_approved_by = keep_if (DApprovedBy \<in> A) (f_approved_by t) None,
       f_event_from = keep_if D (f_event_from t) [],
       f_event_to = keep_if D (f_event_to t) [],
       f_added_from = keep_if D (f_added_from t) [],
       f_added_to = keep_if D (f_added_to t) []\<rparr>)"
    by (simp add: scope_state_eq [of surface "scope_state surface s"] Let_def)
  also have "\<dots> = scope_state surface s"
    unfolding scope_state_eq [of surface s] Let_def by simp
  finally show ?thesis by (simp add: scoped_def)
qed

lemma scoped_panel_step: "scoped surface (panel_step surface f e)"
  by (cases e) simp_all

section \<open>Per-day counts\<close>

lemma map_of_bump_day:
  "map_of (bump_day counts day) d =
     (if day = Some d \<and> d \<noteq> [] then Some (or_else (map_option Suc (map_of counts d)) 1)
      else map_of counts d)"
  by (auto simp: bump_day_def update_conv' or_else_def split: option.splits)

lemma distinct_bump_day: "distinct (map fst counts) \<Longrightarrow> distinct (map fst (bump_day counts day))"
  by (auto simp: bump_day_def distinct_update split: option.splits)

lemma distinct_fold_bump: "distinct (map fst counts) \<Longrightarrow> distinct (map fst (foldl bump_day counts days))"
  by (induction days arbitrary: counts) (auto simp: distinct_bump_day)

lemma map_of_fold_bump:
  assumes "d \<noteq> []"
  shows "map_of (foldl bump_day counts days) d =
     (let n = count_list days (Some d) in
      if n = 0 then map_of counts d else Some (or_else (map_of counts d) 0 + n))"
proof (induction days arbitrary: counts)
  case (Cons day days)
  show ?case
    using assms by (auto simp: Cons map_of_bump_day Let_def or_else_def split: option.splits)
qed simp

lemma fold_bump_no_blank:
  "map_of counts [] = None \<Longrightarrow> map_of (foldl bump_day counts days) [] = None"
  by (induction days arbitrary: counts) (auto simp: map_of_bump_day)

lemma map_of_permuted:
  "mset xs = mset ys \<Longrightarrow> distinct (map fst ys) \<Longrightarrow> map_of xs = map_of ys"
  by (metis distinct_map eq_key_imp_eq_value map_of_eqI map_of_SomeD map_of_inject_set
      mset_eq_setD mset_map distinct_count_atmost_1)

section \<open>Properties\<close>

text \<open>
  Scoping a filter state to a surface leaves a dimension active exactly when it was active
  and the surface offers it, leaves a date window closed exactly when it was and the timelines
  apply, and scoping again changes nothing: no value the panel does not show narrows the list.
\<close>

theorem scope_state_drops_hidden_filters:
  "(dimension_active k (scope_state surface s) \<longleftrightarrow>
      dimension_active k s \<and> k \<in> set (offered_dimensions surface (f_show s))) \<and>
   (date_active d (scope_state surface s) \<longleftrightarrow> date_active d s \<and> dates_offered surface (f_show s)) \<and>
   scope_state surface (scope_state surface s) = scope_state surface s"
  using scoped_scope_state [of surface s]
  by (simp add: dimension_active_scope date_active_scope scoped_def)

text \<open>
  The panel reports an active filter exactly when some dimension or date window of the
  scoped state is active, so the badge and what narrows the list never disagree.
\<close>

theorem any_active_iff_scoped_state_active:
  "any_active surface s \<longleftrightarrow>
     (\<exists>k. dimension_active k (scope_state surface s)) \<or> (\<exists>d. date_active d (scope_state surface s))"
  using set_DATE_KEYS
  by (auto simp: any_active_def list_ex_iff dimension_active_scope date_active_scope)

text \<open>
  Whatever the state the panel starts from (a URL may name a filter the surface does not
  offer), once a patch or a clear has been applied every later state is scoped.
\<close>

theorem panel_run_stays_scoped:
  assumes "es \<noteq> []"
  shows "scope_state surface (panel_run surface f es) = panel_run surface f es"
  using assms scoped_panel_step
  by (cases es rule: rev_cases) (simp_all add: panel_run_def scoped_def)

theorem panel_run_stays_scoped_witness:
  "scope_state SRequests (panel_run SRequests (EMPTY_FILTERS\<lparr>f_show := [''site'']\<rparr>) [Patch
       \<lparr>p_lists = (\<lambda>_. None), p_switches = (\<lambda>_. Some True), p_author = None,
        p_approved_by = None, p_dates = (\<lambda>_. (None, None))\<rparr>, Clear]) =
     panel_run SRequests (EMPTY_FILTERS\<lparr>f_show := [''site'']\<rparr>) [Patch
       \<lparr>p_lists = (\<lambda>_. None), p_switches = (\<lambda>_. Some True), p_author = None,
        p_approved_by = None, p_dates = (\<lambda>_. (None, None))\<rparr>, Clear]"
  by (rule panel_run_stays_scoped) simp

text \<open>
  The per-day counts list each non-empty day that occurs once, strictly ascending, with the
  number of its occurrences; an unknown day counts nowhere.
\<close>

theorem day_counts_sorted_and_exact:
  "sorted_wrt (<) (map fst (day_counts days)) \<and>
   map_of (day_counts days) d =
     (if d = [] \<or> count_list days (Some d) = 0 then None else Some (count_list days (Some d)))"
proof
  let ?raw = "foldl bump_day [] days"
  have raw: "distinct (map fst ?raw)" by (rule distinct_fold_bump) simp
  have mset: "mset (day_counts days) = mset ?raw" by (simp add: day_counts_def)
  then have "distinct (map fst (day_counts days))"
    using raw by (metis mset_map mset_eq_imp_distinct_iff)
  moreover have "sorted (map fst (day_counts days))"
    by (simp add: day_counts_def on_key.sort_by_sort_key)
  ultimately show "sorted_wrt (<) (map fst (day_counts days))"
    by (simp add: strict_sorted_iff)
  have "map_of (day_counts days) = map_of ?raw"
    using mset raw by (rule map_of_permuted)
  then show "map_of (day_counts days) d =
     (if d = [] \<or> count_list days (Some d) = 0 then None else Some (count_list days (Some d)))"
    by (cases "d = []") (auto simp: fold_bump_no_blank map_of_fold_bump Let_def or_else_def)
qed

end
