(* ===== verification/Sources.thy ===== *)
theory Sources
  imports Event_Types Filter_Model Api_Errors
begin

text \<open>
  \<open>lib/sources.ts\<close>: the source editors of the event forms. A draft is seeded from a stored source,
  edited, held against the evidence floor, posted, and compared with what is stored. \<open>tz\<close> reads a
  local time, \<open>parse\<close> is the platform's URL parser, and the counter that makes the React keys is
  passed in and out.
\<close>

section \<open>Vocabulary\<close>

definition source_name :: "nat \<Rightarrow> jsstring" where
  "source_name index = ''Source '' @ nat_text (index + 1)"

fun LEVEL_LABELS :: "source_level \<Rightarrow> jsstring" where
  "LEVEL_LABELS Direct = ''Direct''"
| "LEVEL_LABELS Indirect = ''Indirect''"
| "LEVEL_LABELS Context = ''Context''"

definition SOURCE_LEVELS :: "source_level list" where
  "SOURCE_LEVELS = [Direct, Indirect, Context]"

fun is_evidence_level :: "source_level \<Rightarrow> bool" where
  "is_evidence_level Direct = True"
| "is_evidence_level Indirect = True"
| "is_evidence_level Context = False"

definition MAX_SOURCES_PER_EVENT :: nat where
  "MAX_SOURCES_PER_EVENT = 10"

definition MAX_LINKS_PER_SOURCE :: nat where
  "MAX_LINKS_PER_SOURCE = 10"

fun SOURCE_KIND_LABELS :: "source_kind \<Rightarrow> jsstring" where
  "SOURCE_KIND_LABELS Smartphone = ''Smartphone''"
| "SOURCE_KIND_LABELS Camera = ''Camera''"
| "SOURCE_KIND_LABELS Static_camera = ''Static camera''"
| "SOURCE_KIND_LABELS Drone = ''Drone''"
| "SOURCE_KIND_LABELS Aircraft = ''Aircraft''"
| "SOURCE_KIND_LABELS Satellite = ''Satellite''"
| "SOURCE_KIND_LABELS Dashcam = ''Dashcam''"
| "SOURCE_KIND_LABELS Body_cam = ''Body / helmet cam''"
| "SOURCE_KIND_LABELS Article = ''Article''"
| "SOURCE_KIND_LABELS Official_statement = ''Official statement''"
| "SOURCE_KIND_LABELS Other = ''Other''"
| "SOURCE_KIND_LABELS Unknown = ''Unknown''"

definition SOURCE_KINDS :: "source_kind list" where
  "SOURCE_KINDS = [Smartphone, Camera, Static_camera, Drone, Aircraft, Satellite, Dashcam, Body_cam, Article,
     Official_statement, Other, Unknown]"

definition DOCUMENT_SOURCE_KINDS :: "source_kind list" where
  "DOCUMENT_SOURCE_KINDS = [Article, Official_statement, Other]"

text \<open>An editor's kind is \<open>None\<close> until one is picked (the code's \<open>""\<close>).\<close>

definition is_imagery_kind :: "source_kind option \<Rightarrow> bool" where
  "is_imagery_kind kind \<longleftrightarrow> kind = Some Satellite \<or> kind = Some Aircraft"

definition has_capture_position :: "source_kind option \<Rightarrow> bool" where
  "has_capture_position kind \<longleftrightarrow> (case kind of None \<Rightarrow> True | Some k \<Rightarrow> k \<notin> set DOCUMENT_SOURCE_KINDS)"

definition first_source_url :: "source list \<Rightarrow> jsstring option" where
  "first_source_url sources = (case concat (map s_links sources) of [] \<Rightarrow> None | l # _ \<Rightarrow> Some (l_url l))"

fun FILE_KIND_LABELS :: "media_kind \<Rightarrow> jsstring" where
  "FILE_KIND_LABELS Image = ''photo''"
| "FILE_KIND_LABELS Video = ''video''"

text \<open>The middle dot between the kind and the file's kind, code unit 183.\<close>

definition middle_dot :: jsstring where
  "middle_dot = [CHR '' '', char_of (183 :: nat), CHR '' '']"

definition source_kind_label :: "source_kind \<Rightarrow> media option \<Rightarrow> jsstring option" where
  "source_kind_label kind m = (let file = map_option (\<lambda>m. FILE_KIND_LABELS (m_kind m)) m in
     if kind = Unknown then map_option (\<lambda>f. upper_text (hd f) @ tl f) file
     else (case file of
         Some f \<Rightarrow> Some (SOURCE_KIND_LABELS kind @ middle_dot @ f)
       | None \<Rightarrow> Some (SOURCE_KIND_LABELS kind)))"

section \<open>Drafts\<close>

record link_post =
  lp_url :: jsstring
  lp_index :: nat
  lp_kinds :: "media_kind list"

record gif_split =
  gs_name :: jsstring
  gs_frames :: nat

text \<open>A picked file is its name here: no operation of the module reads its bytes.\<close>

datatype source_file =
    Stored media
  | Uploading (file_name: jsstring) (up_token: nat) (up_frames: "nat option")
  | Importing link_post (imp_token: nat)
  | Copying (copied_proof: jsstring) (copy_token: nat)
  | Staged upload (staged_post: "link_post option") (staged_proof: "jsstring option") (staged_split: "gif_split option")
  | Failed (failed_name: jsstring) (failed_error: jsstring)

fun file_running :: "source_file option \<Rightarrow> bool" where
  "file_running (Some (Uploading _ _ _)) = True"
| "file_running (Some (Importing _ _)) = True"
| "file_running (Some (Copying _ _)) = True"
| "file_running _ = False"

record stored_link =
  sl_url :: jsstring
  sl_posted_at :: "jsstring option"
  sl_archived :: "archived_link option"

record link_draft =
  ld_url :: jsstring
  ld_posted_at :: jsstring
  ld_snapshot :: jsstring
  ld_stored :: "stored_link option"

record source_draft =
  d_key :: jsstring
  d_id :: "jsstring option"
  d_title :: jsstring
  d_level :: source_level
  d_kind :: "source_kind option"
  d_captured_at :: jsstring
  d_stored_captured_at :: "jsstring option"
  d_lat :: jsstring
  d_lng :: jsstring
  d_graphic :: bool
  d_graphic_locked :: bool
  d_links :: "link_draft list"
  d_tags :: "jsstring list"
  d_file :: "source_file option"

text \<open>\<open>nextKey\<close>: the counter goes up before it is read.\<close>

definition next_key :: "nat \<Rightarrow> jsstring \<times> nat" where
  "next_key counter = (''source-'' @ nat_text (Suc counter), Suc counter)"

definition blank_link :: link_draft where
  "blank_link = \<lparr>ld_url = [], ld_posted_at = [], ld_snapshot = [], ld_stored = None\<rparr>"

definition new_source_draft :: "nat \<Rightarrow> source_draft \<times> nat" where
  "new_source_draft counter = (let (key, counter') = next_key counter in
     (\<lparr>d_key = key, d_id = None, d_title = [], d_level = Direct, d_kind = None, d_captured_at = [],
       d_stored_captured_at = None, d_lat = [], d_lng = [], d_graphic = False, d_graphic_locked = False,
       d_links = [blank_link], d_tags = [], d_file = None\<rparr>, counter'))"

definition RELOADED_UPLOAD :: jsstring where
  "RELOADED_UPLOAD = ''The page reloaded before this file finished uploading. Pick it again.''"

definition EXPIRED_UPLOAD :: jsstring where
  "EXPIRED_UPLOAD = ''This file's upload expired. Pick it again.''"

text \<open>The file of a restored editor. An expiry that does not parse is \<open>NaN\<close>, which is not past.\<close>

definition upload_expired :: "(int \<Rightarrow> int) \<Rightarrow> int \<Rightarrow> upload \<Rightarrow> bool" where
  "upload_expired tz now u \<longleftrightarrow> (case date_parse tz (u_expires_at u) of Some t \<Rightarrow> t \<le> now | None \<Rightarrow> False)"

fun restored_file :: "(int \<Rightarrow> int) \<Rightarrow> url_parser \<Rightarrow> int \<Rightarrow> source_file option \<Rightarrow> source_file option" where
  "restored_file tz parse now (Some (Uploading name _ _)) = Some (Failed name RELOADED_UPLOAD)"
| "restored_file tz parse now (Some (Importing post _)) =
     Some (Failed (safe_hostname parse (lp_url post)) RELOADED_UPLOAD)"
| "restored_file tz parse now (Some (Copying _ _)) = Some (Failed ''Proof image'' RELOADED_UPLOAD)"
| "restored_file tz parse now (Some (Staged u post proof split)) =
     (if upload_expired tz now u then Some (Failed (or_else (u_filename u) ''File'') EXPIRED_UPLOAD)
      else Some (Staged u post proof None))"
| "restored_file tz parse now file = file"

definition restored_source_draft ::
    "(int \<Rightarrow> int) \<Rightarrow> url_parser \<Rightarrow> source_draft \<Rightarrow> int \<Rightarrow> nat \<Rightarrow> source_draft \<times> nat" where
  "restored_source_draft tz parse draft now counter = (let (key, counter') = next_key counter in
     (draft\<lparr>d_key := key, d_file := restored_file tz parse now (d_file draft)\<rparr>, counter'))"

definition link_draft_of :: "(int \<Rightarrow> int) \<Rightarrow> source_link \<Rightarrow> link_draft" where
  "link_draft_of tz l = \<lparr>ld_url = l_url l, ld_posted_at = to_datetime_local_utc tz (l_posted_at l),
     ld_snapshot = (case l_archived l of Some a \<Rightarrow> al_url a | None \<Rightarrow> []),
     ld_stored = Some \<lparr>sl_url = l_url l, sl_posted_at = l_posted_at l, sl_archived = l_archived l\<rparr>\<rparr>"

definition link_drafts_of :: "(int \<Rightarrow> int) \<Rightarrow> source_link list \<Rightarrow> link_draft list" where
  "link_drafts_of tz ls = map (link_draft_of tz) ls"

definition draft_fields :: "(int \<Rightarrow> int) \<Rightarrow> source \<Rightarrow> source_draft \<Rightarrow> source_draft" where
  "draft_fields tz source draft = draft\<lparr>d_title := s_title source, d_level := s_level source,
     d_kind := Some (s_kind source), d_captured_at := to_datetime_local_utc tz (s_captured_at source),
     d_stored_captured_at := s_captured_at source,
     d_lat := (case s_position source of Some p \<Rightarrow> js_to_string (lat p) | None \<Rightarrow> []),
     d_lng := (case s_position source of Some p \<Rightarrow> js_to_string (lng p) | None \<Rightarrow> []),
     d_tags := map t_id (s_tags source)\<rparr>"

definition source_draft_from :: "(int \<Rightarrow> int) \<Rightarrow> source \<Rightarrow> nat \<Rightarrow> source_draft \<times> nat" where
  "source_draft_from tz source counter = (let (key, counter') = next_key counter;
       base = fst (new_source_draft counter)
     in (draft_fields tz source (base\<lparr>d_key := key, d_id := Some (s_id source),
          d_graphic := s_graphic source, d_graphic_locked := s_graphic source,
          d_links := (if s_links source \<noteq> [] then link_drafts_of tz (s_links source) else [blank_link]),
          d_file := map_option Stored (s_media source)\<rparr>), counter'))"

section \<open>What a write posts\<close>

record source_create_link =
  cl_url :: jsstring
  cl_posted_at :: "jsstring option"
  cl_snapshot :: "jsstring option"

record source_create =
  sc_id :: "jsstring option"
  sc_title :: jsstring
  sc_level :: source_level
  sc_kind :: source_kind
  sc_captured_at :: "jsstring option"
  sc_position :: "coordinate_pair option"
  sc_graphic :: bool
  sc_links :: "source_create_link list"
  sc_tags :: "jsstring list"
  sc_media_id :: "jsstring option"
  sc_upload_id :: "jsstring option"

text \<open>The media and the upload a write names.\<close>

definition file_reference :: "source_file option \<Rightarrow> jsstring option \<times> jsstring option" where
  "file_reference file =
     ((case file of Some (Stored m) \<Rightarrow> Some (m_id m) | _ \<Rightarrow> None),
      (case file of Some (Staged u _ _ _) \<Rightarrow> Some (u_id u) | _ \<Rightarrow> None))"

definition holds_file :: "source_draft \<Rightarrow> bool" where
  "holds_file draft \<longleftrightarrow> (case d_file draft of None \<Rightarrow> False | Some (Failed _ _) \<Rightarrow> False | Some _ \<Rightarrow> True)"

text \<open>\<open>[...new Set(urls.map(trim).filter(Boolean))]\<close>: the first of repeated values stays.\<close>

definition draft_urls :: "source_draft \<Rightarrow> jsstring list" where
  "draft_urls draft = uniq (filter (\<lambda>u. u \<noteq> []) (map (\<lambda>l. js_trim (ld_url l)) (d_links draft)))"

record source_floor =
  fl_evidence_file :: bool
  fl_missing_link :: bool
  fl_missing_kind :: bool

definition source_floor_of :: "source_draft list \<Rightarrow> source_floor" where
  "source_floor_of drafts = \<lparr>
     fl_evidence_file = list_ex (\<lambda>d. is_evidence_level (d_level d) \<and> holds_file d) drafts,
     fl_missing_link = list_ex (\<lambda>d. draft_urls d = []) drafts,
     fl_missing_kind = list_ex (\<lambda>d. d_kind d = None) drafts\<rparr>"

definition uploads_running :: "source_draft list \<Rightarrow> bool" where
  "uploads_running drafts = list_ex (\<lambda>d. file_running (d_file d)) drafts"

definition blank_to_null :: "jsstring \<Rightarrow> jsstring option" where
  "blank_to_null s = (if s = [] then None else Some s)"

definition instant :: "(int \<Rightarrow> int) \<Rightarrow> jsstring \<Rightarrow> jsstring option \<Rightarrow> jsstring option" where
  "instant tz input stored =
     (if stored \<noteq> None \<and> input = to_datetime_local_utc tz stored then stored else blank_to_null input)"

definition capture_position_invalid :: "source_draft \<Rightarrow> bool" where
  "capture_position_invalid draft \<longleftrightarrow>
     (if \<not> has_capture_position (d_kind draft) then False
      else if js_trim (d_lat draft) = [] \<and> js_trim (d_lng draft) = [] then False
      else coordinatePair (d_lat draft) (d_lng draft) = None)"

text \<open>The loop over the links, with the URLs seen so far.\<close>

fun post_links :: "(int \<Rightarrow> int) \<Rightarrow> jsstring list \<Rightarrow> link_draft list \<Rightarrow> source_create_link list" where
  "post_links tz seen [] = []"
| "post_links tz seen (l # ls) = (let url = js_trim (ld_url l) in
     if url = [] \<or> url \<in> set seen then post_links tz seen ls
     else \<lparr>cl_url = url,
        cl_posted_at = instant tz (ld_posted_at l)
          (case ld_stored l of Some st \<Rightarrow> if sl_url st = url then sl_posted_at st else None | None \<Rightarrow> None),
        cl_snapshot = blank_to_null (js_trim (ld_snapshot l))\<rparr> # post_links tz (url # seen) ls)"

definition source_create_payload :: "(int \<Rightarrow> int) \<Rightarrow> source_draft \<Rightarrow> source_create" where
  "source_create_payload tz draft = (let (media_id, upload_id) = file_reference (d_file draft);
       kind = or_else (d_kind draft) Unknown
     in \<lparr>sc_id = d_id draft, sc_title = js_trim (d_title draft), sc_level = d_level draft, sc_kind = kind,
         sc_captured_at = instant tz (d_captured_at draft) (d_stored_captured_at draft),
         sc_position = (if has_capture_position (Some kind) then coordinatePair (d_lat draft) (d_lng draft) else None),
         sc_graphic = d_graphic draft, sc_links = post_links tz [] (d_links draft), sc_tags = d_tags draft,
         sc_media_id = media_id, sc_upload_id = upload_id\<rparr>)"

section \<open>What a write changes\<close>

text \<open>A template literal prints null as \<open>null\<close>.\<close>

definition or_null_text :: "jsstring option \<Rightarrow> jsstring" where
  "or_null_text v = or_else v ''null''"

definition stored_link_text :: "source_link \<Rightarrow> jsstring" where
  "stored_link_text l = l_url l @ '' '' @ or_null_text (l_posted_at l) @ '' '' @
     (case l_archived l of Some a \<Rightarrow> al_url a | None \<Rightarrow> [])"

definition posted_link_text :: "source_create_link \<Rightarrow> jsstring" where
  "posted_link_text l = cl_url l @ '' '' @ or_null_text (cl_posted_at l) @ '' '' @ or_else (cl_snapshot l) []"

definition line_break :: jsstring where
  "line_break = [char_of (10 :: nat)]"

definition draft_changed :: "(int \<Rightarrow> int) \<Rightarrow> source \<Rightarrow> source_draft \<Rightarrow> bool" where
  "draft_changed tz source draft = (
     if d_id draft \<noteq> Some (s_id source) then True
     else (let posted = source_create_payload tz draft in
       if sc_media_id posted \<noteq> map_option m_id (s_media source) \<or> or_else (sc_upload_id posted) [] \<noteq> [] then True
       else if file_running (d_file draft) \<or> (case d_file draft of Some (Failed _ _) \<Rightarrow> True | _ \<Rightarrow> False) then True
       else (let same_position = (case s_position source of
                 None \<Rightarrow> sc_position posted = None
               | Some p \<Rightarrow> map_option lat (sc_position posted) = Some (lat p) \<and>
                   map_option lng (sc_position posted) = Some (lng p))
         in sc_title posted \<noteq> s_title source \<or> sc_level posted \<noteq> s_level source \<or> sc_kind posted \<noteq> s_kind source \<or>
            sc_captured_at posted \<noteq> s_captured_at source \<or> \<not> same_position \<or>
            (sc_graphic posted \<and> \<not> s_graphic source) \<or>
            js_join line_break (js_sort (map stored_link_text (s_links source))) \<noteq>
              js_join line_break (js_sort (map posted_link_text (sc_links posted))) \<or>
            js_join '','' (js_sort (map t_id (s_tags source))) \<noteq> js_join '','' (js_sort (sc_tags posted)))))"

definition sources_changed :: "(int \<Rightarrow> int) \<Rightarrow> source list \<Rightarrow> source_draft list \<Rightarrow> bool" where
  "sources_changed tz stored drafts =
     (length stored \<noteq> length drafts \<or> list_ex (\<lambda>(source, draft). draft_changed tz source draft) (zip stored drafts))"

section \<open>Links a post can be read from\<close>

definition rx_slash_end :: rx where
  "rx_slash_end = ROpt (RLit ''/'')"

definition X_HOST_RE :: rx where
  "X_HOST_RE = RSeq (ROpt (RLitI ''www.'')) (RSeq (RAlt (RLitI ''x'') (RLitI ''twitter'')) (RLitI ''.com''))"

definition X_STATUS_PATH_RE :: rx where
  "X_STATUS_PATH_RE = RSeq (RLit ''/'') (RSeq
     (RAlt (RSeq (RPlus (RCls is_word)) (RLitI ''/status'')) (RLitI ''i/web/status''))
     (RSeq (RLit ''/'') (RSeq (RPlus rx_digit) RAny)))"

definition TELEGRAM_HOST_RE :: rx where
  "TELEGRAM_HOST_RE = RSeq (ROpt (RLitI ''www.'')) (RLitI ''t.me'')"

definition TELEGRAM_POST_PATH_RE :: rx where
  "TELEGRAM_POST_PATH_RE = RSeq (RLit ''/'') (RSeq (RRange (RCls is_word) 1 64)
     (RSeq (RLit ''/'') (RRange rx_digit 1 19)))"

definition TIKTOK_HOST_RE :: rx where
  "TIKTOK_HOST_RE = RSeq (ROpt (RAlt (RLitI ''www.'') (RLitI ''m.''))) (RLitI ''tiktok.com'')"

definition TIKTOK_SHORT_HOST_RE :: rx where
  "TIKTOK_SHORT_HOST_RE = RSeq (RLitI ''v'') (RSeq (RAlt (RLitI ''m'') (RLitI ''t'')) (RLitI ''.tiktok.com''))"

definition TIKTOK_POST_PATH_RE :: rx where
  "TIKTOK_POST_PATH_RE = RSeq (RLit ''/@'') (RSeq (RRange (RCls (\<lambda>c. is_word c \<or> c = CHR ''.'')) 1 64)
     (RSeq (RLit ''/'') (RSeq (RAlt (RLit ''video'') (RLit ''photo''))
       (RSeq (RLit ''/'') (RSeq (RRange rx_digit 1 25) rx_slash_end)))))"

definition TIKTOK_SHORT_PATH_RE :: rx where
  "TIKTOK_SHORT_PATH_RE = RSeq (RLit ''/'') (RSeq (RRange (RCls is_alnum) 1 32) rx_slash_end)"

definition TIKTOK_T_PATH_RE :: rx where
  "TIKTOK_T_PATH_RE = RSeq (RLit ''/t/'') (RSeq (RRange (RCls is_alnum) 1 32) rx_slash_end)"

definition is_importable_link :: "url_parser \<Rightarrow> jsstring \<Rightarrow> bool" where
  "is_importable_link parse u = (case parse (js_trim u) of
       None \<Rightarrow> False
     | Some p \<Rightarrow> (let host = url_hostname p; path = url_pathname p in
         if rx_match X_HOST_RE host then rx_match X_STATUS_PATH_RE path
         else if \<not> ((url_protocol p = ''http:'' \<or> url_protocol p = ''https:'') \<and> url_username p = [] \<and>
             url_password p = [] \<and> url_port p = []) then False
         else if rx_match TELEGRAM_HOST_RE host then rx_match TELEGRAM_POST_PATH_RE path
         else if rx_match TIKTOK_SHORT_HOST_RE host then rx_match TIKTOK_SHORT_PATH_RE path
         else if rx_match TIKTOK_HOST_RE host then rx_match TIKTOK_POST_PATH_RE path \<or> rx_match TIKTOK_T_PATH_RE path
         else False))"

section \<open>Proof images and refusals\<close>

record proof_images =
  pi_event :: jsstring
  pi_urls :: "jsstring list"

definition copied_file :: "source_file option \<Rightarrow> bool" where
  "copied_file file \<longleftrightarrow> (case file of
       Some (Copying _ _) \<Rightarrow> True
     | Some (Staged _ _ proof _) \<Rightarrow> or_else proof [] \<noteq> []
     | _ \<Rightarrow> False)"

definition proof_images_for :: "source_draft \<Rightarrow> source_draft list \<Rightarrow> proof_images option \<Rightarrow> jsstring list" where
  "proof_images_for draft drafts images = (case images of
       None \<Rightarrow> []
     | Some i \<Rightarrow> (let gap = is_evidence_level (d_level draft) \<and> \<not> fl_evidence_file (source_floor_of drafts)
         in if copied_file (d_file draft) \<or> gap then pi_urls i else []))"

text \<open>What \<open>checkSource\<close> posts.\<close>

definition check_source_body ::
    "(int \<Rightarrow> int) \<Rightarrow> source_draft \<Rightarrow> source_kind option \<times> jsstring option \<times> (jsstring \<times> jsstring option) list" where
  "check_source_body tz draft = (let posted = source_create_payload tz draft
     in (d_kind draft, sc_captured_at posted, map (\<lambda>l. (cl_url l, cl_snapshot l)) (sc_links posted)))"

definition SOURCE_ERROR_MESSAGES :: "(jsstring \<times> jsstring) list" where
  "SOURCE_ERROR_MESSAGES = [
     (''source_required'', ''Add a direct or indirect source.''),
     (''source_file_required'', ''Add a file to a direct or indirect source.''),
     (''source_link_required'', ''Every source needs at least one URL.''),
     (''invalid_source_url'', ''A source URL is not a valid http or https link.''),
     (''too_many_sources'', ''An event holds at most '' @ nat_text MAX_SOURCES_PER_EVENT @ '' sources.''),
     (''too_many_source_links'', ''A source holds at most '' @ nat_text MAX_LINKS_PER_SOURCE @ '' URLs.''),
     (''invalid_coordinates'', ''A position is out of range: latitude runs from '' @ js_to_string LAT_MIN @ '' to '' @
        js_to_string LAT_MAX @ '', longitude from '' @ js_to_string LNG_MIN @ '' to '' @ js_to_string LNG_MAX @ ''.''),
     (''source_not_found'', ''A source changed since this form loaded. Reload the page and try again.''),
     (''source_media_not_found'', ''A source file changed since this form loaded. Reload the page and try again.''),
     (''upload_not_found'', ''A source file upload was not found. Remove the file and upload it again.''),
     (''upload_expired'', ''A source file upload expired. Remove the file and upload it again.''),
     (''too_many_uploads'', ''You have too many source files waiting to be used. Submit the forms that use them, or wait a day for them to expire.''),
     (''conflict_required'', ''Pick at least one conflict.'')]"

text \<open>No code of the server names a method every object inherits, which \<open>in\<close> would find too.\<close>

definition source_write_error :: "thrown \<Rightarrow> jsstring option" where
  "source_write_error err = (case err of
       Api_thrown e \<Rightarrow> Option.bind (ae_code e) (map_of SOURCE_ERROR_MESSAGES) | _ \<Rightarrow> None)"

definition upload_error :: "thrown \<Rightarrow> jsstring" where
  "upload_error err = (if (case err of Api_thrown e \<Rightarrow> ae_code e = Some ''too_many_uploads'' | _ \<Rightarrow> False)
     then text_or_empty (map_of SOURCE_ERROR_MESSAGES ''too_many_uploads'')
     else error_message err ''The upload failed. Try again.'')"

section \<open>What a draft posts\<close>

lemma post_links_urls:
  "map cl_url (post_links tz seen ls) =
    uniq (filter (\<lambda>u. u \<noteq> [] \<and> u \<notin> set seen) (map (\<lambda>l. js_trim (ld_url l)) ls))"
proof (induction ls arbitrary: seen)
  case (Cons l ls)
  have "filter (\<lambda>u. u \<noteq> [] \<and> u \<noteq> x \<and> u \<notin> set seen) us = filter (\<lambda>u. u \<noteq> x) (filter (\<lambda>u. u \<noteq> [] \<and> u \<notin> set seen) us)"
    for x us by (induction us) auto
  with Cons show ?case by (simp add: uniq_Cons Let_def del: filter_filter)
qed simp

text \<open>
  The URLs the floor and the writes count are the ones a write posts: a draft posts exactly its
  trimmed URLs, blanks dropped and each once, in the order the analyst wrote them, so a draft is
  told to miss a URL exactly when it would post none.
\<close>

theorem posted_urls_are_counted_urls:
  "map cl_url (sc_links (source_create_payload tz draft)) = draft_urls draft \<and>
   (fl_missing_link (source_floor_of [draft]) \<longleftrightarrow> sc_links (source_create_payload tz draft) = [])"
proof -
  have urls: "map cl_url (sc_links (source_create_payload tz draft)) = draft_urls draft"
    by (simp add: source_create_payload_def file_reference_def Let_def post_links_urls draft_urls_def)
  then have "draft_urls draft = [] \<longleftrightarrow> sc_links (source_create_payload tz draft) = []"
    by (metis list.map_disc_iff)
  with urls show ?thesis by (simp add: source_floor_of_def)
qed

text \<open>A stored source as the server keeps it: its strings trimmed, its URLs distinct, and a capture
  position in bounds only on a kind that carries one.\<close>

definition stored_link_ok :: "source_link \<Rightarrow> bool" where
  "stored_link_ok l \<longleftrightarrow> js_trim (l_url l) = l_url l \<and> l_url l \<noteq> [] \<and>
     (case l_archived l of None \<Rightarrow> True | Some a \<Rightarrow> js_trim (al_url a) = al_url a \<and> al_url a \<noteq> [])"

definition stored_source :: "source \<Rightarrow> bool" where
  "stored_source s \<longleftrightarrow> js_trim (s_title s) = s_title s \<and> list_all stored_link_ok (s_links s) \<and>
     distinct (map l_url (s_links s)) \<and>
     (case s_position s of None \<Rightarrow> True | Some p \<Rightarrow> is_double (lat p) \<and> is_double (lng p) \<and>
        in_bounds (lat p) (lng p) \<and> has_capture_position (Some (s_kind s)))"

lemma instant_seeded: "instant tz (to_datetime_local_utc tz stored) stored = stored"
  by (cases stored) (auto simp: instant_def blank_to_null_def to_datetime_local_utc_def)

lemma post_seeded_links:
  assumes "list_all stored_link_ok ls" "distinct (map l_url ls)" "\<forall>l \<in> set ls. l_url l \<notin> set seen"
  shows "post_links tz seen (link_drafts_of tz ls) =
    map (\<lambda>l. \<lparr>cl_url = l_url l, cl_posted_at = l_posted_at l, cl_snapshot = map_option al_url (l_archived l)\<rparr>) ls"
  using assms
proof (induction ls arbitrary: seen)
  case (Cons l ls)
  then have l: "js_trim (l_url l) = l_url l" "l_url l \<noteq> []" "l_url l \<notin> set seen"
    and snap: "blank_to_null (js_trim (case l_archived l of Some a \<Rightarrow> al_url a | None \<Rightarrow> [])) = map_option al_url (l_archived l)"
    by (auto simp: stored_link_ok_def blank_to_null_def split: option.splits)
  have "post_links tz (l_url l # seen) (link_drafts_of tz ls) =
      map (\<lambda>l. \<lparr>cl_url = l_url l, cl_posted_at = l_posted_at l, cl_snapshot = map_option al_url (l_archived l)\<rparr>) ls"
    using Cons.prems by (intro Cons.IH) (auto, metis imageI)
  with l snap show ?case
    by (simp add: link_drafts_of_def link_draft_of_def Let_def instant_seeded)
qed (simp add: link_drafts_of_def)

lemma post_blank: "js_trim (ld_url blank_link) = []" "post_links tz seen [blank_link] = []"
  by (simp_all add: blank_link_def)

lemma seeded_links:
  assumes "stored_source s"
  shows "sc_links (source_create_payload tz (fst (source_draft_from tz s c))) =
    map (\<lambda>l. \<lparr>cl_url = l_url l, cl_posted_at = l_posted_at l, cl_snapshot = map_option al_url (l_archived l)\<rparr>) (s_links s)"
  using assms
  by (simp add: source_create_payload_def source_draft_from_def draft_fields_def file_reference_def Let_def
      post_seeded_links post_blank stored_source_def split: prod.splits)

lemma seeded_position:
  assumes "stored_source s"
  shows "sc_position (source_create_payload tz (fst (source_draft_from tz s c))) = s_position s"
proof -
  let ?d = "fst (source_draft_from tz s c)"
  have "d_kind ?d = Some (s_kind s)" "d_lat ?d = (case s_position s of Some p \<Rightarrow> js_to_string (lat p) | None \<Rightarrow> [])"
    "d_lng ?d = (case s_position s of Some p \<Rightarrow> js_to_string (lng p) | None \<Rightarrow> [])"
    by (simp_all add: source_draft_from_def draft_fields_def split: prod.splits)
  moreover have "coordinatePair (js_to_string (lat p)) (js_to_string (lng p)) = Some p"
    if "s_position s = Some p" for p
    using assms that by (simp add: stored_source_def coordinatePair_def clean_number_to_string)
  moreover have "coordinatePair [] [] = None" by (simp add: coordinatePair_def clean_number_def)
  ultimately show ?thesis using assms
    by (auto simp: source_create_payload_def or_else_def stored_source_def Let_def split: prod.splits option.splits)
qed

lemma seeded_unchanged:
  assumes "stored_source s"
  shows "\<not> draft_changed tz s (fst (source_draft_from tz s c))"
proof -
  let ?d = "fst (source_draft_from tz s c)" and ?p = "source_create_payload tz (fst (source_draft_from tz s c))"
  have "map posted_link_text (sc_links ?p) = map stored_link_text (s_links s)"
    unfolding seeded_links [OF assms]
    by (auto simp: posted_link_text_def stored_link_text_def or_else_def split: option.splits)
  moreover have "sc_title ?p = s_title s" "sc_level ?p = s_level s" "sc_kind ?p = s_kind s" "sc_graphic ?p = s_graphic s"
    "sc_captured_at ?p = s_captured_at s" "sc_tags ?p = map t_id (s_tags s)" "d_id ?d = Some (s_id s)"
    "sc_media_id ?p = map_option m_id (s_media s)" "sc_upload_id ?p = None" "d_file ?d = map_option Stored (s_media s)"
    using assms
    by (auto simp: source_create_payload_def source_draft_from_def draft_fields_def file_reference_def Let_def
        stored_source_def instant_seeded or_else_def split: prod.splits option.splits)
  ultimately show ?thesis using seeded_position [OF assms, of tz c]
    by (auto simp: draft_changed_def Let_def or_else_def split: option.splits)
qed

text \<open>
  C4. A form opened on stored sources posts no change: the editors seeded from what the server
  stores, whatever the key counter, compare as unchanged, instants to the second and capture
  positions to the last bit of the double included.
\<close>

theorem seeded_sources_unchanged:
  assumes "list_all stored_source sources" "length counters = length sources"
  shows "\<not> sources_changed tz sources (map (\<lambda>(s, c). fst (source_draft_from tz s c)) (zip sources counters))"
proof -
  have "length sources = length (map (\<lambda>(s, c). fst (source_draft_from tz s c)) (zip sources counters))"
    using assms(2) by simp
  moreover have "\<not> draft_changed tz s d"
    if "(s, d) \<in> set (zip sources (map (\<lambda>(s, c). fst (source_draft_from tz s c)) (zip sources counters)))" for s d
    using that assms by (auto simp: set_zip list_all_length seeded_unchanged)
  ultimately show ?thesis by (force simp: sources_changed_def list_ex_iff)
qed

definition example_source :: source where
  "example_source = \<lparr>s_id = ''s1'', s_title = ''Video'', s_level = Direct, s_kind = Drone,
     s_captured_at = Some ''2026-03-28T14:30:15Z'', s_position = None, s_graphic = False,
     s_links = [\<lparr>l_archived = None, l_posted_at = None, l_url = ''https://t.me/a/1''\<rparr>], s_tags = [], s_media = None,
     s_warnings = []\<rparr>"

lemma seeded_sources_unchanged_witness:
  "\<not> sources_changed (\<lambda>x. x) [example_source] (map (\<lambda>(s, c). fst (source_draft_from (\<lambda>x. x) s c)) (zip [example_source] [0]))"
  by (rule seeded_sources_unchanged)
    (simp_all add: stored_source_def stored_link_ok_def example_source_def js_trim_def js_space_def)

end
