(* ===== verification/Snapshots.thy ===== *)
theory Snapshots
  imports Event_Types Js_Text
begin

text \<open>
  \<open>lib/snapshots.ts\<close>: the archive service of a snapshot URL, the link a replay URL embeds, and the
  warning for a snapshot pasted under another link. The URL parser, \<open>decodeURI\<close> (\<open>None\<close> where it
  throws) and \<open>URLSearchParams\<close> with its serialiser are the platform's.
\<close>

definition WAYBACK_HOST :: jsstring where
  "WAYBACK_HOST = ''web.archive.org''"

definition ARCHIVE_TODAY_HOSTS :: "jsstring list" where
  "ARCHIVE_TODAY_HOSTS = [''archive.today'', ''archive.ph'', ''archive.is'', ''archive.md'', ''archive.li'', ''archive.vn'']"

definition GHOSTARCHIVE_HOST :: jsstring where
  "GHOSTARCHIVE_HOST = ''ghostarchive.org''"

definition SNAPSHOT_HOSTS :: "jsstring list" where
  "SNAPSHOT_HOSTS = [WAYBACK_HOST] @ ARCHIVE_TODAY_HOSTS @ [GHOSTARCHIVE_HOST]"

definition snapshot_provider :: "url_parser \<Rightarrow> jsstring \<Rightarrow> archive_provider option" where
  "snapshot_provider parse snapshot = (case parse snapshot of
       None \<Rightarrow> None
     | Some p \<Rightarrow> (let host = js_lower (url_hostname p)
         in if host = WAYBACK_HOST then Some Wayback
            else if host \<in> set ARCHIVE_TODAY_HOSTS then Some Archive_today
            else if host = GHOSTARCHIVE_HOST then Some Ghostarchive else None))"

text \<open>The dot of a pattern: any character but a line terminator (code units 10 and 13).\<close>

definition rx_dot :: rx where
  "rx_dot = RCls (\<lambda>c. of_char c \<notin> {10, 13 :: nat})"

definition REPLAY_PATH_RE :: cap_pattern where
  "REPLAY_PATH_RE = [(False, RLitI ''/web/''), (False, RRange (RCls is_digit) 4 14),
     (False, ROpt (RSeq (RPow (RCls is_alpha) 2) (RLit ''_''))), (False, RLit ''/''), (True, RPlus rx_dot)]"

definition CAPTURE_PATH_RE :: cap_pattern where
  "CAPTURE_PATH_RE = [(False, RLit ''/''), (False, RRange (RCls is_digit) 4 14), (False, RLit ''/''), (True, RPlus rx_dot)]"

definition replayed_link :: "url_parser \<Rightarrow> (jsstring \<Rightarrow> jsstring option) \<Rightarrow> jsstring \<Rightarrow> jsstring option" where
  "replayed_link parse decode_uri snapshot = (case parse (js_trim snapshot) of
       None \<Rightarrow> None
     | Some p \<Rightarrow> (let host = js_lower (url_hostname p);
           path = (case decode_uri (url_pathname p) of Some d \<Rightarrow> d | None \<Rightarrow> url_pathname p);
           pattern = (if host = WAYBACK_HOST then Some REPLAY_PATH_RE
             else if host \<in> set ARCHIVE_TODAY_HOSTS then Some CAPTURE_PATH_RE else None)
         in case Option.bind pattern (\<lambda>ps. caps_at (\<lambda>t. t = []) ps path) of
             Some ([m], _) \<Rightarrow> Some (m @ url_search p @ url_hash p)
           | _ \<Rightarrow> None))"

text \<open>\<open>replace(/\/+$/, "")\<close> and \<open>replace(/^www\./, "")\<close>.\<close>

definition strip_slashes :: "jsstring \<Rightarrow> jsstring" where
  "strip_slashes path = rev (dropWhile (\<lambda>c. c = CHR ''/'') (rev path))"

definition strip_www :: "jsstring \<Rightarrow> jsstring" where
  "strip_www host = (if starts_with host ''www.'' then drop 4 host else host)"

record query_platform =
  qp_parse :: "jsstring \<Rightarrow> params"
  qp_text :: "params \<Rightarrow> jsstring"

definition params_delete :: "params \<Rightarrow> jsstring \<Rightarrow> params" where
  "params_delete ps k = filter (\<lambda>p. fst p \<noteq> k) ps"

definition x_query :: "query_platform \<Rightarrow> jsstring \<Rightarrow> jsstring" where
  "x_query qp query = (let kept = qp_text qp (params_delete (params_delete (qp_parse qp query) ''s'') ''t'')
     in if kept \<noteq> [] then ''?'' @ kept else [])"

definition video_id :: "query_platform \<Rightarrow> url \<Rightarrow> jsstring \<Rightarrow> jsstring \<Rightarrow> jsstring option" where
  "video_id qp p host path =
     (if host = ''youtu.be'' \<and> 1 < length path then Some (drop 1 path)
      else if host = ''youtube.com'' \<and> path = ''/watch'' then params_get (qp_parse qp (url_search p)) ''v'' else None)"

definition canonical_url :: "query_platform \<Rightarrow> url \<Rightarrow> jsstring" where
  "canonical_url qp p = (let host = strip_www (js_lower (url_hostname p));
       path = strip_slashes (url_pathname p);
       host = (if host = ''twitter.com'' \<or> host = ''mobile.twitter.com'' then ''x.com'' else host);
       query = (if host = ''x.com'' then x_query qp (url_search p) else url_search p);
       host = (if host = ''telegram.me'' then ''t.me'' else host);
       path = (if host = ''t.me'' \<and> starts_with path ''/s/'' then drop 2 path else path);
       host = (if host = ''m.youtube.com'' then ''youtube.com'' else host)
     in case video_id qp p host path of
         Some v \<Rightarrow> if v \<noteq> [] then ''youtube.com'' @ ''/watch'' @ ''?v='' @ v else host @ path @ query
       | None \<Rightarrow> host @ path @ query)"

definition canonical_link :: "url_parser \<Rightarrow> query_platform \<Rightarrow> jsstring \<Rightarrow> jsstring option" where
  "canonical_link parse qp u = map_option (canonical_url qp) (parse_http parse (js_trim u))"

definition snapshot_archives_another_link ::
  "url_parser \<Rightarrow> query_platform \<Rightarrow> (jsstring \<Rightarrow> jsstring option) \<Rightarrow> jsstring \<Rightarrow> jsstring \<Rightarrow> jsstring option" where
  "snapshot_archives_another_link parse qp decode_uri link snapshot = (case replayed_link parse decode_uri snapshot of
       None \<Rightarrow> None
     | Some replayed \<Rightarrow> (case (canonical_link parse qp replayed, canonical_link parse qp link) of
         (Some captured, Some wanted) \<Rightarrow> if captured = wanted then None else Some replayed
       | _ \<Rightarrow> None))"

section \<open>Facts\<close>

lemma snapshot_provider_host:
  "snapshot_provider parse snapshot \<noteq> None \<longleftrightarrow>
     (\<exists>p. parse snapshot = Some p \<and> js_lower (url_hostname p) \<in> set SNAPSHOT_HOSTS)"
  by (auto simp: snapshot_provider_def SNAPSHOT_HOSTS_def Let_def split: option.split)

text \<open>A replay URL of the Wayback Machine embeds what follows its timestamp.\<close>

lemma wayback_replay:
  assumes "length stamp = 14" "\<forall>c \<in> set stamp. is_digit c" "original \<noteq> []"
    "\<forall>c \<in> set original. of_char c \<notin> {10, 13 :: nat}"
  shows "caps_at (\<lambda>t. t = []) REPLAY_PATH_RE (''/web/'' @ stamp @ ''/'' @ original) = Some ([original], [])"
proof -
  have "rx_first (RRange (RCls is_digit) 4 14) (stamp @ ''/'' @ original) stamp (''/'' @ original)"
    using assms(1,2) by (intro first_range_cls) (auto simp: is_digit_def)
  moreover have "rx_first (ROpt (RSeq (RPow (RCls is_alpha) 2) (RLit ''_''))) (''/'' @ original) [] (''/'' @ original)"
    by (rule first_opt_none) (simp add: is_alpha_def Let_def numeral_2_eq_2)
  moreover have "rx_first (RPlus rx_dot) original original []"
    using assms(3,4) first_plus_append [of original "\<lambda>c. of_char c \<notin> {10, 13 :: nat}" "[]"] by (simp add: rx_dot_def)
  ultimately have "caps_first REPLAY_PATH_RE (''/web/'' @ stamp @ ''/'' @ original) [original] []"
    unfolding REPLAY_PATH_RE_def
    by (intro caps_skip [OF first_litI] caps_skip [OF _ caps_skip [OF _ caps_skip [OF first_lit caps_take [OF _ caps_first_Nil]]]])
      (auto simp: lower_char_def)
  then show ?thesis by (rule caps_at_first) simp
qed

text \<open>No warning for the link a snapshot embeds as it is spelled.\<close>

lemma same_link_no_warning:
  "replayed_link parse decode_uri snapshot = Some link \<Longrightarrow>
     snapshot_archives_another_link parse qp decode_uri link snapshot = None"
  by (simp add: snapshot_archives_another_link_def split: option.split)

end
