(* ===== verification/Js_Stringify.thy ===== *)
theory Js_Stringify
  imports Js_Json Js_Number
begin

text \<open>
  \<open>JSON.stringify\<close> of a value, as the code uses it for request bodies and for values it compares as
  text, with the fact that makes the comparison one of values: two values whose numbers are doubles
  have the same text only when they are the same.
\<close>

definition dquote :: char where
  "dquote = CHR 0x22"

definition backslash :: char where
  "backslash = CHR 0x5C"

definition hex_lower :: "nat \<Rightarrow> char" where
  "hex_lower n = (if n < 10 then char_of (48 + n) else char_of (87 + n))"

definition json_escape :: "char \<Rightarrow> char option" where
  "json_escape c = map_of [(CHR 0x08, CHR ''b''), (CHR 0x09, CHR ''t''), (CHR 0x0A, CHR ''n''), (CHR 0x0C, CHR ''f''),
     (CHR 0x0D, CHR ''r''), (dquote, dquote), (backslash, backslash)] c"

definition json_char :: "char \<Rightarrow> jsstring" where
  "json_char c = (let n = of_char c in case json_escape c of
       Some d \<Rightarrow> [backslash, d]
     | None \<Rightarrow> if n < 32 then [backslash, CHR ''u'', CHR ''0'', CHR ''0'', hex_lower (n div 16), hex_lower (n mod 16)] else [c])"

definition json_quote :: "jsstring \<Rightarrow> jsstring" where
  "json_quote s = dquote # concat (map json_char s) @ [dquote]"

fun json_stringify :: "json \<Rightarrow> jsstring" where
  "json_stringify JNull = ''null''"
| "json_stringify (JBool b) = (if b then ''true'' else ''false'')"
| "json_stringify (JNum x) = js_to_string x"
| "json_stringify (JStr s) = json_quote s"
| "json_stringify (JArr xs) = ''['' @ js_join '','' (map json_stringify xs) @ '']''"
| "json_stringify (JObj kvs) =
     ''{'' @ js_join '','' (map (\<lambda>(k, v). json_quote k @ '':'' @ json_stringify v) kvs) @ ''}''"

section \<open>Strings\<close>

lemma of_char_eq_iff: "(of_char c :: nat) = n \<Longrightarrow> c = char_of n"
  by auto

lemma hex_lower_inj: "a < 16 \<Longrightarrow> b < 16 \<Longrightarrow> hex_lower a = hex_lower b \<longleftrightarrow> a = b"
  by (auto simp: hex_lower_def split: if_splits dest: arg_cong [of _ _ "of_char :: char \<Rightarrow> nat"])

lemma json_escape_inj: "json_escape m = Some d \<Longrightarrow> json_escape n = Some d \<Longrightarrow> m = n"
  by (auto simp: json_escape_def dquote_def backslash_def split: if_splits)

lemma json_escape_not_u: "json_escape n \<noteq> Some CHR ''u''"
  by (simp add: json_escape_def dquote_def backslash_def)

lemma backslash_escaped: "json_escape backslash = Some backslash" "json_escape dquote = Some dquote"
  by (simp_all add: json_escape_def backslash_def dquote_def)

lemma json_char_prefix:
  assumes "json_char c @ r = json_char d @ r'"
  shows "c = d \<and> r = r'"
proof -
  have lone: "json_char c = [c] \<and> c \<noteq> backslash" if "json_escape c = None" "\<not> (of_char c :: nat) < 32" for c
    using that backslash_escaped by (auto simp: json_char_def Let_def)
  have le: "of_char c div 16 < (16 :: nat)" for c :: char
    using nat_of_char_less_256 [of c] by (simp add: div_less_iff_less_mult)
  have nat_inj: "c = d" if "(of_char c :: nat) div 16 = of_char d div 16" "(of_char c :: nat) mod 16 = of_char d mod 16" for c d :: char
    using that div_mod_inj [of "of_char c" 16 "of_char d"] by (metis of_char_eq_iff char_of_char)
  consider (esc) e where "json_escape c = Some e" | (hex) "json_escape c = None" "(of_char c :: nat) < 32"
    | (plain) "json_escape c = None" "\<not> (of_char c :: nat) < 32" by (cases "json_escape c") auto
  note c = this
  consider (esc) e where "json_escape d = Some e" | (hex) "json_escape d = None" "(of_char d :: nat) < 32"
    | (plain) "json_escape d = None" "\<not> (of_char d :: nat) < 32" by (cases "json_escape d") auto
  note d = this
  from c show ?thesis
  proof cases
    case esc
    note ce = this
    from d show ?thesis
    proof cases
      case esc
      with assms ce have "r = r'" and "json_escape c = json_escape d" by (auto simp: json_char_def Let_def)
      moreover from this(2) ce have "c = d" by (metis json_escape_inj)
      ultimately show ?thesis by simp
    next
      case hex
      then show ?thesis using assms ce json_escape_not_u by (auto simp: json_char_def Let_def)
    next
      case plain
      then show ?thesis using assms ce lone [of d] by (auto simp: json_char_def Let_def)
    qed
  next
    case hex
    note ce = this
    from d show ?thesis
    proof cases
      case esc
      then show ?thesis using assms ce json_escape_not_u by (auto simp: json_char_def Let_def)
    next
      case hex
      then show ?thesis using assms ce le nat_inj by (auto simp: json_char_def Let_def hex_lower_inj)
    next
      case plain
      then show ?thesis using assms ce lone [of d] by (auto simp: json_char_def Let_def)
    qed
  next
    case plain
    note ce = this
    from d show ?thesis
    proof cases
      case plain
      then show ?thesis using assms lone [of c] lone [of d] ce by auto
    qed (use assms ce lone [of c] in \<open>auto simp: json_char_def Let_def\<close>)
  qed
qed

lemma json_char_hd: "json_char c \<noteq> [] \<and> hd (json_char c) \<noteq> dquote"
proof -
  have "backslash \<noteq> dquote" by (simp add: backslash_def dquote_def)
  moreover have "c \<noteq> dquote" if "json_escape c = None" using that backslash_escaped(2) by auto
  ultimately show ?thesis by (auto simp: json_char_def Let_def split: option.splits)
qed

lemma json_quote_prefix: "json_quote s @ r = json_quote t @ r' \<Longrightarrow> s = t \<and> r = r'"
proof -
  have "concat (map json_char s) @ dquote # r = concat (map json_char t) @ dquote # r' \<Longrightarrow> s = t \<and> r = r'"
  proof (induction s arbitrary: t)
    case Nil
    then show ?case using json_char_hd by (cases t) (auto, metis hd_append2 list.sel(1))
  next
    case (Cons c s)
    show ?case
    proof (cases t)
      case Nil
      then show ?thesis using Cons.prems json_char_hd [of c] by (auto, metis hd_append2 list.sel(1))
    next
      case (Cons d u)
      with Cons.prems have "json_char c @ (concat (map json_char s) @ dquote # r) = json_char d @ (concat (map json_char u) @ dquote # r')"
        by simp
      from json_char_prefix [OF this] Cons.IH [of u] Cons show ?thesis by simp
    qed
  qed
  then show "json_quote s @ r = json_quote t @ r' \<Longrightarrow> s = t \<and> r = r'" by (simp add: json_quote_def)
qed

section \<open>Values\<close>

text \<open>Every number of the value is a double, as every number the code holds is.\<close>

fun json_doubles :: "json \<Rightarrow> bool" where
  "json_doubles (JNum x) \<longleftrightarrow> is_double x"
| "json_doubles (JArr xs) \<longleftrightarrow> list_all json_doubles xs"
| "json_doubles (JObj kvs) \<longleftrightarrow> list_all (\<lambda>(k, v). json_doubles v) kvs"
| "json_doubles _ \<longleftrightarrow> True"

text \<open>What may follow a value: nothing, a comma or a closing bracket.\<close>

definition json_stop :: "jsstring \<Rightarrow> bool" where
  "json_stop r \<longleftrightarrow> r = [] \<or> hd r \<in> set '',]}''"

lemma json_stop_simps [simp]: "json_stop []" "json_stop (CHR '','' # r)" "json_stop (CHR '']'' # r)" "json_stop (CHR ''}'' # r)"
  by (simp_all add: json_stop_def)

lemma number_prefix:
  assumes "is_double x" "is_double y" "json_stop r" "json_stop r'" "js_to_string x @ r = js_to_string y @ r'"
  shows "x = y \<and> r = r'"
proof -
  have stop: "r = [] \<or> \<not> number_char (hd r)" if "json_stop r" for r
    using that by (auto simp: json_stop_def number_char_def is_digit_def)
  have cut: "takeWhile number_char (js_to_string x @ r) = js_to_string x" if "is_double x" "json_stop r" for x r
    using js_to_string_chars [OF that(1)] stop [OF that(2)] by (cases r) (auto simp: takeWhile_append2)
  have "js_to_string x = js_to_string y" using cut [OF assms(1,3)] cut [OF assms(2,4)] assms(5) by simp
  moreover from this have "x = y" using js_number_to_string assms(1,2) by (metis option.inject)
  ultimately show ?thesis using assms(5) by (metis append_eq_append_conv)
qed

text \<open>The first character of a text tells the kind of the value.\<close>

fun json_kind :: "json \<Rightarrow> nat" where
  "json_kind JNull = 0"
| "json_kind (JBool b) = 1"
| "json_kind (JNum x) = 2"
| "json_kind (JStr s) = 3"
| "json_kind (JArr xs) = 4"
| "json_kind (JObj kvs) = 5"

definition char_kind :: "char \<Rightarrow> nat" where
  "char_kind c = (if number_char c then 2 else if c = CHR ''n'' then 0 else if c = CHR ''t'' \<or> c = CHR ''f'' then 1
     else if c = dquote then 3 else if c = CHR ''['' then 4 else if c = CHR ''{'' then 5 else 6)"

lemma char_kind_simps:
  "char_kind CHR ''n'' = 0" "char_kind CHR ''t'' = 1" "char_kind CHR ''f'' = 1" "char_kind dquote = 3"
  "char_kind CHR ''['' = 4" "char_kind CHR ''{'' = 5" "char_kind CHR '']'' = 6" "char_kind CHR ''}'' = 6"
  by (simp_all add: char_kind_def number_char_def is_digit_def dquote_def)

lemma json_stringify_kind:
  "json_doubles v \<Longrightarrow> json_stringify v \<noteq> [] \<and> char_kind (hd (json_stringify v)) = json_kind v"
proof (cases v)
  case (JNum x)
  assume "json_doubles v"
  with JNum have "js_to_string x \<noteq> []" "\<forall>c \<in> set (js_to_string x). number_char c" using js_to_string_chars by auto
  with JNum show ?thesis by (simp add: char_kind_def)
qed (simp_all add: json_quote_def char_kind_simps)

lemma same_kind:
  assumes "json_doubles a" "json_doubles b" "json_stringify a @ r = json_stringify b @ r'"
  shows "json_kind a = json_kind b"
  using json_stringify_kind [OF assms(1)] json_stringify_kind [OF assms(2)] assms(3) by (metis hd_append2)

lemma join_prefix:
  assumes "\<And>x y r r'. x \<in> set xs \<Longrightarrow> y \<in> set ys \<Longrightarrow> json_stop r \<Longrightarrow> json_stop r' \<Longrightarrow>
      enc x @ r = enc y @ r' \<Longrightarrow> x = y \<and> r = r'"
    "\<And>x. x \<in> set xs \<union> set ys \<Longrightarrow> enc x \<noteq> [] \<and> hd (enc x) \<noteq> c"
    "c = CHR '']'' \<or> c = CHR ''}''"
    "js_join '','' (map enc xs) @ c # r = js_join '','' (map enc ys) @ c # r'"
  shows "xs = ys \<and> r = r'"
  using assms
proof (induction xs arbitrary: ys)
  case Nil
  have "ys = []"
  proof (cases ys)
    case (Cons y zs)
    with Nil(2) [of y] have "hd (js_join '','' (map enc ys) @ c # r') \<noteq> c" by (cases zs) auto
    with Nil(4) show ?thesis by (metis js_join.simps(1) list.simps(8) append_Nil list.sel(1))
  qed simp
  with Nil(4) show ?case by simp
next
  case (Cons x xs)
  note prems = Cons.prems
  have stop: "json_stop (c # r)" "json_stop (c # r')" "json_stop ('','' @ s)" for s using prems(3) by auto
  have tl: "js_join '','' (map enc (z # zs)) @ c # q = enc z @ (if zs = [] then c # q else '','' @ js_join '','' (map enc zs) @ c # q)"
    for z zs q by (cases zs) auto
  obtain y zs where ys: "ys = y # zs"
  proof (cases ys)
    case Nil
    with prems(2) [of x] have "hd (js_join '','' (map enc (x # xs)) @ c # r) \<noteq> c" unfolding tl by auto
    with Nil prems(4) show ?thesis by simp
  qed (rule that)
  let ?t = "\<lambda>zs q. if zs = [] then c # q else '','' @ js_join '','' (map enc zs) @ c # q"
  have "enc x @ ?t xs r = enc y @ ?t zs r'" using prems(4) unfolding ys tl .
  moreover have "json_stop (?t xs r)" "json_stop (?t zs r')" using stop by simp_all
  ultimately have "x = y" and rest: "?t xs r = ?t zs r'" using prems(1) [of x y] ys by (simp_all only: list.set_intros)
  have "c \<noteq> CHR '',''" using prems(3) by auto
  have "xs = zs \<and> r = r'"
  proof (cases "xs = []")
    case True
    then show ?thesis using rest \<open>c \<noteq> CHR '',''\<close> by (cases "zs = []") auto
  next
    case False
    with rest \<open>c \<noteq> CHR '',''\<close> have "zs \<noteq> []" "js_join '','' (map enc xs) @ c # r = js_join '','' (map enc zs) @ c # r'"
      by (auto split: if_splits)
    then show ?thesis using prems ys by (intro Cons.IH) auto
  qed
  with \<open>x = y\<close> ys show ?case by simp
qed

theorem json_stringify_prefix:
  "json_doubles a \<Longrightarrow> json_doubles b \<Longrightarrow> json_stop r \<Longrightarrow> json_stop r' \<Longrightarrow>
     json_stringify a @ r = json_stringify b @ r' \<Longrightarrow> a = b \<and> r = r'"
proof (induction a arbitrary: b r r')
  case JNull
  then show ?case using same_kind [of JNull b r r'] by (cases b) simp_all
next
  case (JBool x)
  then show ?case using same_kind [of "JBool x" b r r'] by (cases b) (simp_all split: if_splits)
next
  case (JNum x)
  then show ?case using same_kind [of "JNum x" b r r'] by (cases b) (simp_all add: number_prefix)
next
  case (JStr x)
  then show ?case using same_kind [of "JStr x" b r r'] json_quote_prefix [of x r _ r'] by (cases b) simp_all
next
  case (JArr xs)
  then obtain ys where b: "b = JArr ys" using same_kind [of "JArr xs" b r r'] by (cases b) simp_all
  have "xs = ys \<and> r = r'"
  proof (rule join_prefix [where c = "CHR '']''" and enc = json_stringify])
    show "js_join '','' (map json_stringify xs) @ CHR '']'' # r = js_join '','' (map json_stringify ys) @ CHR '']'' # r'"
      using JArr.prems(5) b by simp
    fix x assume "x \<in> set xs \<union> set ys"
    then have "json_doubles x" using JArr.prems b by (auto simp: list_all_iff)
    from json_stringify_kind [OF this] show "json_stringify x \<noteq> [] \<and> hd (json_stringify x) \<noteq> CHR '']''"
      by (cases x) (auto simp: char_kind_simps)
  next
    fix x y q q' assume "x \<in> set xs" "y \<in> set ys" "json_stop q" "json_stop q'" "json_stringify x @ q = json_stringify y @ q'"
    then show "x = y \<and> q = q'" using JArr.prems b JArr.IH [of x y q q'] by (simp add: list_all_iff)
  qed simp
  with b show ?case by simp
next
  case (JObj kvs)
  then obtain lvs where b: "b = JObj lvs" using same_kind [of "JObj kvs" b r r'] by (cases b) simp_all
  let ?enc = "\<lambda>(k, v). json_quote k @ '':'' @ json_stringify v"
  have "kvs = lvs \<and> r = r'"
  proof (rule join_prefix [where c = "CHR ''}''" and enc = ?enc])
    show "js_join '','' (map ?enc kvs) @ CHR ''}'' # r = js_join '','' (map ?enc lvs) @ CHR ''}'' # r'"
      using JObj.prems(5) b by simp
    fix x assume "x \<in> set kvs \<union> set lvs"
    have "dquote \<noteq> CHR ''}''" by (simp add: dquote_def)
    then show "?enc x \<noteq> [] \<and> hd (?enc x) \<noteq> CHR ''}''" by (cases x) (simp add: json_quote_def)
  next
    fix p q s s'
    assume pq: "p \<in> set kvs" "q \<in> set lvs" "json_stop s" "json_stop s'" "?enc p @ s = ?enc q @ s'"
    obtain k v l w where kv: "p = (k, v)" "q = (l, w)" by force
    then have "k = l" "json_stringify v @ s = json_stringify w @ s'"
      using pq(5) json_quote_prefix [of k "'':'' @ json_stringify v @ s" l "'':'' @ json_stringify w @ s'"] by simp_all
    moreover have "json_doubles v" "json_doubles w" using JObj.prems b pq(1,2) kv by (auto simp: list_all_iff)
    ultimately have "v = w \<and> s = s'" using pq(1,3,4) kv by (intro JObj.IH [of p v]) simp_all
    with \<open>k = l\<close> kv show "p = q \<and> s = s'" by simp
  qed simp
  with b show ?case by simp
qed

corollary json_stringify_inject:
  "json_doubles a \<Longrightarrow> json_doubles b \<Longrightarrow> json_stringify a = json_stringify b \<longleftrightarrow> a = b"
  using json_stringify_prefix [of a b "[]" "[]"] by auto

end
