(* ===== verification/Event_History.thy ===== *)
theory Event_History
  imports Versions Sources Snapshots Js_Stringify
begin

text \<open>
  The version history of an event (\<open>lib/events.ts\<close>): a filed snapshot as the event every surface
  renders, the fields that differ between two versions, what the edit form would file, and the
  entries of the history with their bylines. A snapshot is untyped JSON; where the code casts a row
  or a string of it without a check, the cast is a field of \<open>casts\<close>. The rows of a snapshot's lists
  are objects, as the server files them.
\<close>

record casts =
  cast_tag :: "json \<Rightarrow> tag"
  cast_media :: "json \<Rightarrow> media"
  cast_kind :: "jsstring \<Rightarrow> source_kind"
  cast_conflict :: "json \<Rightarrow> jsstring \<times> jsstring"
  cast_text :: "json \<Rightarrow> jsstring"

section \<open>Version zero\<close>

datatype credit_field = Credit_requested_by | Credit_owner

record zero_meta =
  zm_label :: jsstring
  zm_status :: event_status
  zm_verb :: jsstring
  zm_credit :: credit_field

fun VERSION_ZERO_META :: "version_zero \<Rightarrow> zero_meta" where
  "VERSION_ZERO_META From_request =
     \<lparr>zm_label = ''Request'', zm_status = Requested, zm_verb = ''asked'', zm_credit = Credit_requested_by\<rparr>"
| "VERSION_ZERO_META From_detection =
     \<lparr>zm_label = ''Detection'', zm_status = Detected, zm_verb = ''imported'', zm_credit = Credit_owner\<rparr>"

definition has_published_record :: "event \<Rightarrow> bool" where
  "has_published_record geo \<longleftrightarrow> e_status geo = Geolocated \<or>
     (e_status geo = Closed \<and> e_before_closed geo = Some Geolocated)"

definition first_version :: "event \<Rightarrow> int" where
  "first_version geo = (if e_version_zero geo \<noteq> None then 0 else 1)"

definition version_label :: "event \<Rightarrow> int \<Rightarrow> jsstring" where
  "version_label geo number = (case e_version_zero geo of
       Some z \<Rightarrow> if number = 0 then zm_label (VERSION_ZERO_META z) else ''v'' @ int_text number
     | None \<Rightarrow> ''v'' @ int_text number)"

definition event_versions_path :: "jsstring \<Rightarrow> jsstring option \<Rightarrow> jsstring" where
  "event_versions_path eid cursor = with_cursor (''/events/'' @ eid @ ''/versions'') cursor"

definition event_version_path :: "jsstring \<Rightarrow> int \<Rightarrow> jsstring" where
  "event_version_path eid number = ''/events/'' @ eid @ ''/versions/'' @ int_text number"

definition event_version_href :: "jsstring \<Rightarrow> int \<Rightarrow> jsstring" where
  "event_version_href eid number = event_href eid @ ''/v'' @ int_text number"

definition event_history_href :: "jsstring \<Rightarrow> jsstring" where
  "event_history_href eid = event_href eid @ ''/history''"

definition event_versioned :: "event \<Rightarrow> versioned_record" where
  "event_versioned geo = \<lparr>vr_latest = e_version_no geo, vr_first = first_version geo, vr_label = version_label geo,
     vr_href = (\<lambda>number. if number = e_version_no geo then event_href (e_id geo) else event_version_href (e_id geo) number),
     vr_history_href = event_history_href (e_id geo)\<rparr>"

section \<open>A snapshot as an event\<close>

definition as_string :: "json option \<Rightarrow> jsstring \<Rightarrow> jsstring" where
  "as_string v fallback = (case is_string v of Some s \<Rightarrow> s | None \<Rightarrow> fallback)"

definition as_coords :: "json option \<Rightarrow> coordinate_pair option" where
  "as_coords v = (case v of
       Some j \<Rightarrow> (case (field j ''lat'', field j ''lng'') of
           (Some (JNum la), Some (JNum lo)) \<Rightarrow> Some \<lparr>lat = la, lng = lo\<rparr> | _ \<Rightarrow> None)
     | None \<Rightarrow> None)"

definition as_list :: "json option \<Rightarrow> json list" where
  "as_list v = (case v of Some (JArr xs) \<Rightarrow> xs | _ \<Rightarrow> [])"

definition as_media :: "casts \<Rightarrow> json option \<Rightarrow> media option" where
  "as_media cs v = (case v of
       Some j \<Rightarrow> (case is_string (field j ''storage_url'') of
           Some u \<Rightarrow> Some ((cast_media cs j)\<lparr>m_url := u\<rparr>) | None \<Rightarrow> None)
     | None \<Rightarrow> None)"

definition snapshot_level :: "json option \<Rightarrow> source_level" where
  "snapshot_level v = (case find (\<lambda>l. v = Some (JStr (level_text l))) SOURCE_LEVELS of Some l \<Rightarrow> l | None \<Rightarrow> Direct)"

definition snapshot_link :: "url_parser \<Rightarrow> json \<Rightarrow> source_link" where
  "snapshot_link parse link =
     (let snapshot_url = is_string (field link ''snapshot_url'');
          provider = (case snapshot_url of Some u \<Rightarrow> if u = [] then None else snapshot_provider parse u | None \<Rightarrow> None)
      in \<lparr>l_archived = (case (snapshot_url, provider) of
            (Some u, Some p) \<Rightarrow> Some \<lparr>al_archived_at = as_string (field link ''archived_at'') [], al_provider = p, al_url = u\<rparr>
          | _ \<Rightarrow> None),
          l_posted_at = is_string (field link ''posted_at''),
          l_url = as_string (field link ''url'') []\<rparr>)"

definition snapshot_source :: "casts \<Rightarrow> url_parser \<Rightarrow> json \<Rightarrow> nat \<Rightarrow> int \<Rightarrow> jsstring set \<Rightarrow> source" where
  "snapshot_source cs parse entry i version_no live_graphic =
     (let media = as_media cs (field entry ''media'')
      in \<lparr>s_id = ''v'' @ int_text version_no @ ''-'' @ nat_text i,
          s_title = as_string (field entry ''title'') [],
          s_level = snapshot_level (field entry ''level''),
          s_kind = (case is_string (field entry ''kind'') of Some k \<Rightarrow> cast_kind cs k | None \<Rightarrow> Unknown),
          s_captured_at = is_string (field entry ''captured_at''),
          s_position = as_coords (field entry ''capture_position''),
          s_graphic = (field entry ''is_graphic'' = Some (JBool True) \<or>
            (case media of Some m \<Rightarrow> m_url m \<in> live_graphic | None \<Rightarrow> False)),
          s_links = map (snapshot_link parse) (as_list (field entry ''links'')),
          s_tags = map (cast_tag cs) (as_list (field entry ''tags'')),
          s_media = media,
          s_warnings = []\<rparr>)"

definition live_graphic_files :: "event \<Rightarrow> jsstring set" where
  "live_graphic_files current = set (concat (map (\<lambda>s. case s_media s of
       Some m \<Rightarrow> if s_graphic s then [m_url m] else [] | None \<Rightarrow> []) (e_sources current)))"

text \<open>The conflict of a stored row: the live row of its id (the last one wins in the map the code
  builds), else the stored name.\<close>

definition snapshot_conflict :: "casts \<Rightarrow> conflict list \<Rightarrow> json \<Rightarrow> conflict" where
  "snapshot_conflict cs live stored = (case cast_conflict cs stored of (cid, name) \<Rightarrow>
     (case map_of (rev (map (\<lambda>c. (c_id c, c)) live)) cid of
         Some c \<Rightarrow> c
       | None \<Rightarrow> \<lparr>c_id = cid, c_name = name, c_ongoing = False, c_start_year = None, c_end_year = None,
           c_tier = None, c_wikidata = None\<rparr>))"

definition first_some :: "('a \<Rightarrow> 'b option) \<Rightarrow> 'a list \<Rightarrow> 'b option" where
  "first_some f xs = (case find (\<lambda>x. f x \<noteq> None) xs of Some x \<Rightarrow> f x | None \<Rightarrow> None)"

definition snapshot_to_event_view :: "casts \<Rightarrow> url_parser \<Rightarrow> event \<Rightarrow> event_version \<Rightarrow> event" where
  "snapshot_to_event_view cs parse current version =
     (let snapshot = v_snapshot version;
          live = live_graphic_files current;
          sources = map (\<lambda>(i, entry). snapshot_source cs parse entry i (v_no version) live)
            (enumerate 0 (as_list (field snapshot ''sources'')));
          view = current\<lparr>
            e_version_no := v_no version,
            e_sources := sources,
            e_graphic := list_ex s_graphic sources,
            e_thumbnail := (case first_some s_media sources of
                Some m \<Rightarrow> Some m
              | None \<Rightarrow> first_some (\<lambda>j. as_media cs (Some j)) (as_list (field snapshot ''proof_media''))),
            e_title := as_string (field snapshot ''title'') (e_title current),
            e_coords := as_coords (field snapshot ''coords''),
            e_date := is_string (field snapshot ''occurred_date''),
            e_time := is_string (field snapshot ''occurred_time''),
            e_tags := map (cast_tag cs) (as_list (field snapshot ''tags'')),
            e_conflicts := map (snapshot_conflict cs (e_conflicts current)) (as_list (field snapshot ''conflicts'')),
            e_proof := (case field snapshot ''proof'' of None \<Rightarrow> None | Some JNull \<Rightarrow> None | Some j \<Rightarrow> Some (cast_text cs j))\<rparr>
      in case e_version_zero current of
           Some z \<Rightarrow> if v_no version = 0 then view\<lparr>e_status := zm_status (VERSION_ZERO_META z),
               e_before_closed := None, e_closed_at := None, e_close_reason := None\<rparr> else view
         | None \<Rightarrow> view)"

section \<open>Changed fields\<close>

definition instant_key :: "(int \<Rightarrow> int) \<Rightarrow> jsstring option \<Rightarrow> jsstring option" where
  "instant_key tz v = map_option (\<lambda>s. case date_parse tz s of None \<Rightarrow> s | Some t \<Rightarrow> int_text t) v"

definition same_time :: "jsstring option \<Rightarrow> jsstring option \<Rightarrow> bool" where
  "same_time a b \<longleftrightarrow> map_option hhmm a = map_option hhmm b"

definition json_option :: "jsstring option \<Rightarrow> json" where
  "json_option v = (case v of None \<Rightarrow> JNull | Some s \<Rightarrow> JStr s)"

definition link_key :: "(int \<Rightarrow> int) \<Rightarrow> source_link \<Rightarrow> jsstring" where
  "link_key tz l = l_url l @ '' '' @ or_null_text (instant_key tz (l_posted_at l))"

definition source_key :: "(int \<Rightarrow> int) \<Rightarrow> source \<Rightarrow> json" where
  "source_key tz s = JArr [
     JStr (s_title s), JStr (level_text (s_level s)), JStr (kind_text (s_kind s)),
     json_option (instant_key tz (s_captured_at s)),
     (case s_position s of Some p \<Rightarrow> JArr [JNum (lat p), JNum (lng p)] | None \<Rightarrow> JNull),
     JBool (s_graphic s),
     JArr (map JStr (js_sort (map (link_key tz) (s_links s)))),
     JArr (map JStr (js_sort (map t_id (s_tags s)))),
     json_option (map_option m_url (s_media s))]"

definition source_keys :: "(int \<Rightarrow> int) \<Rightarrow> event \<Rightarrow> jsstring list" where
  "source_keys tz view = map (\<lambda>s. json_stringify (source_key tz s)) (e_sources view)"

definition archived_pairs :: "event \<Rightarrow> jsstring list" where
  "archived_pairs view = concat (map (\<lambda>s. concat (map (\<lambda>l. case l_archived l of
       Some a \<Rightarrow> [l_url l @ '' '' @ al_url a] | None \<Rightarrow> []) (s_links s))) (e_sources view))"

definition flag :: "jsstring \<Rightarrow> bool \<Rightarrow> jsstring list" where
  "flag label differs = (if differs then [label] else [])"

definition changed_fields :: "(int \<Rightarrow> int) \<Rightarrow> event \<Rightarrow> event \<Rightarrow> jsstring list" where
  "changed_fields tz version previous =
     flag ''Title'' (e_title version \<noteq> e_title previous) @
     flag ''Sources'' (\<not> same_set (source_keys tz version) (source_keys tz previous)) @
     flag ''Coordinates'' (e_coords version \<noteq> e_coords previous) @
     flag ''Event date'' (e_date version \<noteq> e_date previous) @
     flag ''Event time'' (\<not> same_time (e_time version) (e_time previous)) @
     flag ''Conflict'' (\<not> same_set (map c_id (e_conflicts version)) (map c_id (e_conflicts previous))) @
     flag ''Tags'' (\<not> same_set (map t_id (e_tags version)) (map t_id (e_tags previous))) @
     flag ''Archived copies'' (\<not> same_set (archived_pairs version) (archived_pairs previous)) @
     flag ''Proof'' (e_proof version \<noteq> e_proof previous)"

record version_form =
  vf_title :: jsstring
  vf_sources_moved :: bool
  vf_lat :: jsstring
  vf_lng :: jsstring
  vf_date :: jsstring
  vf_time :: jsstring
  vf_proof :: "jsstring option"
  vf_tags :: "jsstring list"
  vf_conflicts :: "jsstring list"

definition coords_of :: "jsstring \<Rightarrow> jsstring \<Rightarrow> coordinate_pair option" where
  "coords_of la lo = (case (clean_number la, clean_number lo) of
       (Some x, Some y) \<Rightarrow> Some \<lparr>lat = x, lng = y\<rparr> | _ \<Rightarrow> None)"

text \<open>The candidate's tags and conflicts hold their ids alone, and only the ids are read: the other
  fields of these rows are left blank.\<close>

definition id_conflict :: "jsstring \<Rightarrow> conflict" where
  "id_conflict cid = \<lparr>c_id = cid, c_name = [], c_ongoing = False, c_start_year = None, c_end_year = None,
     c_tier = None, c_wikidata = None\<rparr>"

definition candidate_version :: "event \<Rightarrow> version_form \<Rightarrow> event" where
  "candidate_version geo form = geo\<lparr>
     e_title := js_trim (vf_title form),
     e_coords := coords_of (vf_lat form) (vf_lng form),
     e_date := blank_to_null (vf_date form),
     e_time := blank_to_null (vf_time form),
     e_tags := map (\<lambda>t. \<lparr>t_id = t, t_name = []\<rparr>) (vf_tags form),
     e_conflicts := map id_conflict (vf_conflicts form),
     e_proof := vf_proof form\<rparr>"

definition has_version_changes :: "(int \<Rightarrow> int) \<Rightarrow> event \<Rightarrow> version_form \<Rightarrow> bool" where
  "has_version_changes tz geo form \<longleftrightarrow> vf_sources_moved form \<or> changed_fields tz (candidate_version geo form) geo \<noteq> []"

definition nothing_changed_message :: "int \<Rightarrow> jsstring" where
  "nothing_changed_message number = ''Nothing changed since version '' @ int_text number @ ''.''"

section \<open>The entries of the history\<close>

record version_entry =
  ve_number :: int
  ve_current :: bool
  ve_view :: "event option"
  ve_editor :: "author option"
  ve_created_at :: "jsstring option"
  ve_note :: "jsstring option"
  ve_redacted :: bool
  ve_changed :: "jsstring list option"

definition zero_author :: "event \<Rightarrow> author option" where
  "zero_author current = (case map_option (\<lambda>z. zm_credit (VERSION_ZERO_META z)) (e_version_zero current) of
       Some Credit_requested_by \<Rightarrow> e_requested_by current
     | _ \<Rightarrow> Some (e_owner current))"

definition event_version_entry ::
  "(int \<Rightarrow> int) \<Rightarrow> casts \<Rightarrow> url_parser \<Rightarrow> event \<Rightarrow> int \<Rightarrow> event_version option \<Rightarrow> event_version option \<Rightarrow> event option \<Rightarrow> version_entry" where
  "event_version_entry tz cs parse current number own produced_by previous =
     (let is_current = (number = e_version_no current);
          view = (if is_current then Some current
            else (case own of Some r \<Rightarrow> if v_redacted r then None else Some (snapshot_to_event_view cs parse current r)
                  | None \<Rightarrow> None))
      in \<lparr>ve_number = number, ve_current = is_current, ve_view = view,
          ve_editor = (case produced_by of
              Some r \<Rightarrow> v_edited_by r
            | None \<Rightarrow> if number = 0 then zero_author current
                else if number = 1 \<and> e_version_zero current = None then Some (e_owner current) else None),
          ve_created_at = (case produced_by of
              Some r \<Rightarrow> Some (v_created_at r)
            | None \<Rightarrow> if number = 0 then Some (e_created_at current)
                else if number = 1 \<and> e_version_zero current = None then e_geolocated_at current else None),
          ve_note = Option.bind produced_by v_note,
          ve_redacted = (case own of Some r \<Rightarrow> v_redacted r | None \<Rightarrow> False),
          ve_changed = (case (view, previous) of (Some v, Some p) \<Rightarrow> Some (changed_fields tz v p) | _ \<Rightarrow> None)\<rparr>)"

definition event_versions ::
  "(int \<Rightarrow> int) \<Rightarrow> casts \<Rightarrow> url_parser \<Rightarrow> event \<Rightarrow> event_version list \<Rightarrow> bool \<Rightarrow> version_entry list" where
  "event_versions tz cs parse current rows has_more =
     (let first = first_version current
      in map (\<lambda>st. event_version_entry tz cs parse current (step_number st) (step_own st) (step_below st)
           (if first < step_number st
            then ve_view (event_version_entry tz cs parse current (step_number st - 1) (step_below st) None None) else None))
         (version_steps v_no (e_version_no current) first rows has_more))"

section \<open>What a change is\<close>

lemma same_set_iff: "same_set a b \<longleftrightarrow> mset a = mset b"
  by (rule same_set_mset)

text \<open>What the history compares of a source, as a value: its fields, the moment it was captured
  whatever its spelling, its links and tags as multisets, and the stored file.\<close>

definition source_value ::
  "(int \<Rightarrow> int) \<Rightarrow> source \<Rightarrow> jsstring \<times> source_level \<times> source_kind \<times> jsstring option \<times> coordinate_pair option \<times>
     bool \<times> jsstring multiset \<times> jsstring multiset \<times> jsstring option" where
  "source_value tz s = (s_title s, s_level s, s_kind s, instant_key tz (s_captured_at s), s_position s, s_graphic s,
     mset (map (link_key tz) (s_links s)), mset (map t_id (s_tags s)), map_option m_url (s_media s))"

definition source_doubles :: "source \<Rightarrow> bool" where
  "source_doubles s \<longleftrightarrow> (case s_position s of None \<Rightarrow> True | Some p \<Rightarrow> is_double (lat p) \<and> is_double (lng p))"

lemma json_doubles_source_key: "source_doubles s \<Longrightarrow> json_doubles (source_key tz s)"
  by (simp add: source_doubles_def source_key_def json_option_def list_all_iff split: option.splits)

lemma level_text_inject: "level_text a = level_text b \<longleftrightarrow> a = b"
  by (cases a; cases b) simp_all

lemma kind_text_inject: "kind_text a = kind_text b \<longleftrightarrow> a = b"
  by (cases a; cases b) simp_all

lemma json_option_inject: "json_option a = json_option b \<longleftrightarrow> a = b"
  by (cases a; cases b) (simp_all add: json_option_def)

lemma map_JStr_inject: "map JStr xs = map JStr ys \<longleftrightarrow> xs = ys"
  by (simp add: inj_map_eq_map inj_def)

lemma position_key_inject:
  fixes p q :: "coordinate_pair option"
  shows "(case p of Some p \<Rightarrow> JArr [JNum (lat p), JNum (lng p)] | None \<Rightarrow> JNull) =
   (case q of Some p \<Rightarrow> JArr [JNum (lat p), JNum (lng p)] | None \<Rightarrow> JNull) \<longleftrightarrow> p = q"
  by (cases p; cases q) (auto intro!: coordinate_pair.equality)

lemma source_key_inject: "source_key tz a = source_key tz b \<longleftrightarrow> source_value tz a = source_value tz b"
  by (simp add: source_key_def source_value_def level_text_inject kind_text_inject json_option_inject
      map_JStr_inject js_sort_eq_iff position_key_inject)

lemma image_mset_same_iff:
  assumes "\<And>x y. x \<in># M \<Longrightarrow> y \<in># N \<Longrightarrow> f x = f y \<longleftrightarrow> g x = g y"
    "\<And>x y. x \<in># M \<Longrightarrow> y \<in># M \<Longrightarrow> f x = f y \<longleftrightarrow> g x = g y"
    "\<And>x y. x \<in># N \<Longrightarrow> y \<in># N \<Longrightarrow> f x = f y \<longleftrightarrow> g x = g y"
  shows "image_mset f M = image_mset f N \<longleftrightarrow> image_mset g M = image_mset g N"
proof -
  have transfer: "image_mset g M = image_mset g N"
    if eq: "image_mset f M = image_mset f N"
      and fg: "\<And>x y. x \<in># M + N \<Longrightarrow> y \<in># M + N \<Longrightarrow> f x = f y \<Longrightarrow> g x = g y" for f :: "'a \<Rightarrow> 'd" and g :: "'a \<Rightarrow> 'e"
  proof -
    define h where "h v = g (SOME x. x \<in># M + N \<and> f x = v)" for v
    have "h (f x) = g x" if "x \<in># M + N" for x
      unfolding h_def by (rule fg) (use that someI [of "\<lambda>y. y \<in># M + N \<and> f y = f x" x] in auto)
    then have "image_mset g M = image_mset h (image_mset f M)" "image_mset g N = image_mset h (image_mset f N)"
      by (auto simp: multiset.map_comp intro!: image_mset_cong)
    with eq show ?thesis by simp
  qed
  have fg: "f x = f y \<longleftrightarrow> g x = g y" if "x \<in># M + N" "y \<in># M + N" for x y
    using that assms by (metis union_iff)
  show ?thesis
    using transfer [of f g] transfer [of g f] fg by blast
qed

lemma source_keys_iff:
  assumes "list_all source_doubles (e_sources a)" "list_all source_doubles (e_sources b)"
  shows "same_set (source_keys tz a) (source_keys tz b) \<longleftrightarrow>
    image_mset (source_value tz) (mset (e_sources a)) = image_mset (source_value tz) (mset (e_sources b))"
proof -
  have same: "json_stringify (source_key tz s) = json_stringify (source_key tz t) \<longleftrightarrow> source_value tz s = source_value tz t"
    if "source_doubles s" "source_doubles t" for s t
    using that by (simp add: json_stringify_inject json_doubles_source_key source_key_inject)
  have "same_set (source_keys tz a) (source_keys tz b) \<longleftrightarrow>
      image_mset (\<lambda>s. json_stringify (source_key tz s)) (mset (e_sources a)) =
      image_mset (\<lambda>s. json_stringify (source_key tz s)) (mset (e_sources b))"
    by (simp add: same_set_iff source_keys_def)
  also have "\<dots> \<longleftrightarrow> image_mset (source_value tz) (mset (e_sources a)) = image_mset (source_value tz) (mset (e_sources b))"
    by (rule image_mset_same_iff) (use assms same in \<open>auto simp: list_all_iff\<close>)
  finally show ?thesis .
qed

text \<open>Two versions agree: the contract of the changed list.\<close>

definition versions_agree :: "(int \<Rightarrow> int) \<Rightarrow> event \<Rightarrow> event \<Rightarrow> bool" where
  "versions_agree tz a b \<longleftrightarrow> e_title a = e_title b \<and>
     image_mset (source_value tz) (mset (e_sources a)) = image_mset (source_value tz) (mset (e_sources b)) \<and>
     e_coords a = e_coords b \<and> e_date a = e_date b \<and> map_option (take 5) (e_time a) = map_option (take 5) (e_time b) \<and>
     mset (map c_id (e_conflicts a)) = mset (map c_id (e_conflicts b)) \<and>
     mset (map t_id (e_tags a)) = mset (map t_id (e_tags b)) \<and>
     mset (archived_pairs a) = mset (archived_pairs b) \<and> e_proof a = e_proof b"

lemma flag_Nil [simp]: "flag label differs = [] \<longleftrightarrow> \<not> differs"
  by (simp add: flag_def)

text \<open>
  C7. The changed list names something exactly when the two versions differ: it is empty just when
  title, date, coordinates, proof, the time to the minute, the conflicts and tags by id, the
  archived copies, and the sources as a multiset of values (the text the code compares them by tells
  no two values apart and no one value from itself) are the same.
\<close>

theorem changed_fields_empty_iff_agree:
  assumes "list_all source_doubles (e_sources a)" "list_all source_doubles (e_sources b)"
  shows "changed_fields tz a b = [] \<longleftrightarrow> versions_agree tz a b"
proof -
  have "hhmm = take 5" by (rule ext) (simp add: hhmm_def)
  then show ?thesis
    unfolding changed_fields_def append_is_Nil_conv flag_Nil source_keys_iff [OF assms] versions_agree_def
    by (simp add: same_set_iff same_time_def)
qed

definition example_event :: event where
  "example_event = \<lparr>e_id = ''e1'', e_status = Geolocated, e_before_closed = None, e_close_reason = None,
     e_closed_at = None, e_conflicts = [], e_coords = Some \<lparr>lat = 48, lng = 37\<rparr>, e_created_at = ''2026-03-28T14:30:15Z'',
     e_detected_from = None, e_detected_via = None, e_geolocated_at = Some ''2026-03-28T15:00:00Z'',
     e_geolocators = [], e_hidden_at = None, e_graphic = False, e_date = Some ''2026-03-27'', e_time = Some ''14:05:00'',
     e_owner = \<lparr>a_id = ''a1'', a_username = ''ana'', a_avatar = None\<rparr>, e_proof = Some ''<p>x</p>'',
     e_requested_by = None, e_sources = [example_source], e_tags = [], e_thumbnail = None, e_title = ''Strike'',
     e_version_no = 2, e_version_zero = None\<rparr>"

lemma changed_fields_empty_iff_agree_witness:
  "changed_fields (\<lambda>x. x) example_event example_event = [] \<longleftrightarrow> versions_agree (\<lambda>x. x) example_event example_event"
  by (rule changed_fields_empty_iff_agree) (simp_all add: example_event_def example_source_def source_doubles_def)

section \<open>Bylines and redaction\<close>

lemma by_number_row:
  assumes "distinct (map no rows)" "r \<in> set rows"
  shows "by_number no rows (no r) = Some r"
proof -
  obtain q where "by_number no rows (no r) = Some q" using by_number_Some [of "no r" no rows] assms(2) by auto
  moreover have "q \<in> set rows \<and> no q = no r" using by_number_no [OF calculation] .
  ultimately show ?thesis using assms by (auto simp: distinct_map inj_on_def)
qed

text \<open>
  Each edit is credited on the version it produced: in a whole history, the version above a
  filed row carries that row's editor, moment and note, since the API files an edit's byline on the
  version it superseded.
\<close>

theorem history_credits_each_edit:
  assumes "filed_rows v_no (first_version current) (e_version_no current) rows" "distinct (map v_no rows)" "r \<in> set rows"
  shows "\<exists>entry \<in> set (event_versions tz cs parse current rows False).
    ve_number entry = v_no r + 1 \<and> ve_editor entry = v_edited_by r \<and>
    ve_created_at entry = Some (v_created_at r) \<and> ve_note entry = v_note r"
proof -
  let ?first = "first_version current" and ?latest = "e_version_no current"
  have r: "?first \<le> v_no r" "v_no r < ?latest" using assms(1,3) by (auto simp: filed_rows_def)
  have numbers: "map step_number (version_steps v_no ?latest ?first rows False) =
      map (\<lambda>i. ?latest - int i) [0 ..< nat (?latest - ?first + 1)]"
    using walk_filed [OF assms(1) order_refl] r by (simp add: version_steps_def oldest_number_def)
  have "v_no r + 1 \<in> set (map step_number (version_steps v_no ?latest ?first rows False))"
    unfolding numbers set_map by (rule image_eqI [where x = "nat (?latest - v_no r - 1)"]) (use r in auto)
  then obtain st where st: "st \<in> set (version_steps v_no ?latest ?first rows False)" "step_number st = v_no r + 1" by auto
  then have "step_below st = Some r"
    using walk_step [of st "by_number v_no rows" ?latest] by_number_row [OF assms(2,3)] by (auto simp: version_steps_def)
  note below = this
  define entry where "entry = event_version_entry tz cs parse current (step_number st) (step_own st) (step_below st)
    (if ?first < step_number st
     then ve_view (event_version_entry tz cs parse current (step_number st - 1) (step_below st) None None) else None)"
  have "entry \<in> set (event_versions tz cs parse current rows False)"
    unfolding event_versions_def Let_def set_map entry_def using st(1) by (rule imageI)
  moreover have "ve_number entry = v_no r + 1" "ve_editor entry = v_edited_by r"
    "ve_created_at entry = Some (v_created_at r)" "ve_note entry = v_note r"
    by (simp_all add: entry_def event_version_entry_def Let_def below st(2))
  ultimately show ?thesis by blast
qed

text \<open>
  A redacted version never shows what it held: its entry is marked, and whatever its snapshot
  holds it has no view and no changed list, unless it is the live version.
\<close>

theorem redacted_version_shows_nothing:
  assumes "entry \<in> set (event_versions tz cs parse current rows has_more)" "ve_redacted entry" "\<not> ve_current entry"
  shows "ve_view entry = None \<and> ve_changed entry = None"
proof -
  have shown: "ve_view (event_version_entry tz cs parse current number own produced_by previous) = None \<and>
      ve_changed (event_version_entry tz cs parse current number own produced_by previous) = None"
    if "ve_redacted (event_version_entry tz cs parse current number own produced_by previous)"
      "\<not> ve_current (event_version_entry tz cs parse current number own produced_by previous)"
    for number own produced_by previous
    using that by (cases own) (simp_all add: event_version_entry_def Let_def)
  from assms(1) obtain number own produced_by previous
    where "entry = event_version_entry tz cs parse current number own produced_by previous"
    unfolding event_versions_def Let_def set_map by blast
  then show ?thesis using shown [of number own produced_by previous] assms(2,3) by simp
qed

definition example_row :: event_version where
  "example_row = \<lparr>v_id = ''v1'', v_no = 1, v_created_at = ''2026-03-29T10:00:00Z'',
     v_edited_by = Some \<lparr>a_id = ''a2'', a_username = ''bo'', a_avatar = None\<rparr>, v_note = Some ''Fixed the date.'',
     v_redacted = True, v_snapshot = JObj []\<rparr>"

definition example_casts :: casts where
  "example_casts = \<lparr>cast_tag = (\<lambda>_. \<lparr>t_id = ''t1'', t_name = ''dam''\<rparr>),
     cast_media = (\<lambda>_. \<lparr>m_id = ''m1'', m_kind = Image, m_filename = None, m_role = Source_role, m_sha256 = [], m_url = []\<rparr>),
     cast_kind = (\<lambda>_. Unknown), cast_conflict = (\<lambda>_. (''c1'', ''North'')), cast_text = (\<lambda>_. [])\<rparr>"

lemma example_filed: "filed_rows v_no (first_version example_event) (e_version_no example_event) [example_row]"
  by (auto simp: filed_rows_def example_row_def example_event_def first_version_def)

lemma history_credits_each_edit_witness:
  "\<exists>entry \<in> set (event_versions (\<lambda>x. x) example_casts (\<lambda>_. None) example_event [example_row] False).
    ve_number entry = 2 \<and> ve_editor entry = v_edited_by example_row \<and> ve_note entry = Some ''Fixed the date.''"
proof -
  have "v_no example_row = 1" "v_note example_row = Some ''Fixed the date.''" by (simp_all add: example_row_def)
  with history_credits_each_edit [OF example_filed, of example_row "\<lambda>x. x" example_casts "\<lambda>_. None"] show ?thesis by auto
qed

lemma redacted_version_shows_nothing_witness:
  "\<exists>entry \<in> set (event_versions (\<lambda>x. x) example_casts (\<lambda>_. None) example_event [example_row] False). ve_number entry = 1 \<and> ve_view entry = None"
proof -
  let ?steps = "version_steps v_no 2 1 [example_row] False"
  have steps: "?steps = [\<lparr>step_number = 2, step_own = None, step_below = Some example_row\<rparr>,
      \<lparr>step_number = 1, step_own = Some example_row, step_below = None\<rparr>]"
    by (simp add: version_steps_def oldest_number_def by_number_def walk_versions.simps example_row_def)
  let ?entry = "event_version_entry (\<lambda>x. x) example_casts (\<lambda>_. None) example_event 1 (Some example_row) None None"
  have "?entry \<in> set (event_versions (\<lambda>x. x) example_casts (\<lambda>_. None) example_event [example_row] False)"
    by (simp add: event_versions_def Let_def example_event_def first_version_def steps)
  moreover have "ve_redacted ?entry" "\<not> ve_current ?entry" "ve_number ?entry = 1"
    by (simp_all add: event_version_entry_def Let_def example_row_def example_event_def)
  ultimately show ?thesis using redacted_version_shows_nothing [of ?entry] by blast
qed

end
