(* ===== verification/Proof_Html.thy ===== *)
theory Proof_Html
  imports Format Js_Text
begin

text \<open>
  \<open>lib/proof.tsx\<close>: a stored proof body (HTML) as the tree the page renders, its text as the
  description counter measures it, and the images it carries. The HTML parser is a package: a body
  is the list of nodes \<open>dom\<close> it gives, a text, an element, or a node of another type (a comment, a
  script or style with its text).
\<close>

datatype dom =
    DText jsstring
  | DElem jsstring "(jsstring \<times> jsstring) list" "dom list"
  | DOther

text \<open>The rendered tree: text, a fragment, the proof image, an outbound link, and an element with
  its class and, for a tag that is not void, its children.\<close>

datatype react =
    RText jsstring
  | RFragment "react list"
  | RImage jsstring jsstring "bool option"
  | RLink jsstring "react list"
  | RElem jsstring "jsstring option" "react list option"

text \<open>What the rendering reads besides the body: the text nodes the parser keeps under a parent tag,
  the URL parser, the build's media host and the reader's gate for graphic images.\<close>

record proof_env =
  pe_keeps_text :: "jsstring option \<Rightarrow> jsstring \<Rightarrow> bool"
  pe_url :: url_parser
  pe_media_host :: "jsstring option"
  pe_gate :: "bool option"

section \<open>The allowlist\<close>

definition LOCAL_STORAGE_URL_PREFIX :: jsstring where
  "LOCAL_STORAGE_URL_PREFIX = ''http://localhost:8000/local-storage/''"

definition is_safe_link_href :: "url_parser \<Rightarrow> jsstring \<Rightarrow> bool" where
  "is_safe_link_href parse href \<longleftrightarrow> parse_http parse href \<noteq> None"

text \<open>The source as a browser reads it: tab and line breaks (code units 9, 13, 10) stripped,
  backslashes (92) turned.\<close>

definition normalized_src :: "jsstring \<Rightarrow> jsstring" where
  "normalized_src src = map (\<lambda>c. if of_char c = (92 :: nat) then CHR ''/'' else c)
     (filter (\<lambda>c. of_char c \<notin> {9, 10, 13 :: nat}) src)"

definition is_safe_image_src :: "url_parser \<Rightarrow> jsstring option \<Rightarrow> jsstring \<Rightarrow> bool" where
  "is_safe_image_src parse media_host src = (let no_host = (media_host = None \<or> media_host = Some []) in
     if take 2 (normalized_src src) = ''//'' then False
     else if starts_with src ''/'' then True
     else if no_host \<and> starts_with src LOCAL_STORAGE_URL_PREFIX then True
     else (case parse src of
         None \<Rightarrow> False
       | Some p \<Rightarrow> if url_protocol p \<noteq> ''https:'' then False
           else if no_host then True else url_hostname p = js_lower (the media_host)))"

definition TAG_CLASSES :: "(jsstring \<times> jsstring option) list" where
  "TAG_CLASSES =
    [(''p'', None), (''h2'', Some ''text-xl font-bold mt-4 mb-2''),
     (''h3'', Some ''text-lg font-semibold mt-3 mb-2''), (''strong'', None), (''em'', None), (''s'', None),
     (''code'', Some ''px-1 py-0.5 rounded-sm bg-neutral-800 text-orange-300 text-xs''),
     (''pre'', Some ''bg-neutral-950 border border-neutral-800 rounded-sm p-3 my-3 overflow-x-auto text-xs''),
     (''ul'', Some ''list-disc pl-6 my-2 space-y-1''), (''ol'', Some ''list-decimal pl-6 my-2 space-y-1''),
     (''li'', None), (''blockquote'', Some ''border-l-2 border-neutral-700 pl-4 my-3 text-neutral-400''),
     (''hr'', Some ''my-4 border-neutral-800''), (''br'', None)]"

definition VOID_TAGS :: "jsstring list" where
  "VOID_TAGS = [''hr'', ''br'']"

section \<open>Rendering\<close>

text \<open>Whether the children of an element hold an image at any depth.\<close>

fun image_node :: "dom \<Rightarrow> bool" and contains_image :: "dom list \<Rightarrow> bool" where
  "image_node (DElem name attribs children) \<longleftrightarrow> name = ''img'' \<or> contains_image children"
| "image_node (DText d) \<longleftrightarrow> False"
| "image_node DOther \<longleftrightarrow> False"
| "contains_image [] \<longleftrightarrow> False"
| "contains_image (n # ns) \<longleftrightarrow> image_node n \<or> contains_image ns"

text \<open>An attribute that is absent or empty fails the guards \<open>!src\<close> and \<open>!href\<close>.\<close>

definition attribute :: "(jsstring \<times> jsstring) list \<Rightarrow> jsstring \<Rightarrow> jsstring" where
  "attribute attribs k = (case map_of attribs k of Some v \<Rightarrow> v | None \<Rightarrow> [])"

fun render_node :: "proof_env \<Rightarrow> jsstring option \<Rightarrow> dom \<Rightarrow> react list"
  and render_nodes :: "proof_env \<Rightarrow> jsstring option \<Rightarrow> dom list \<Rightarrow> react list" where
  "render_node env parent (DText d) = (if pe_keeps_text env parent d then [RText d] else [])"
| "render_node env parent DOther = [RFragment []]"
| "render_node env parent (DElem name attribs children) = [
     if name = ''img'' then
       (let src = attribute attribs ''src'' in
        if src = [] \<or> \<not> is_safe_image_src (pe_url env) (pe_media_host env) src then RFragment []
        else RImage src (attribute attribs ''alt'') (pe_gate env))
     else if name = ''a'' then
       (let href = attribute attribs ''href'' in
        if href = [] \<or> \<not> is_safe_link_href (pe_url env) href then RFragment (render_nodes env (Some name) children)
        else RLink href (render_nodes env (Some name) children))
     else (case map_of TAG_CLASSES name of
         None \<Rightarrow> RFragment (render_nodes env (Some name) children)
       | Some cls \<Rightarrow> RElem (if name = ''p'' \<and> contains_image children then ''div'' else name)
           (if name = ''code'' \<and> parent = Some ''pre'' then None else cls)
           (if name \<in> set VOID_TAGS then None else Some (render_nodes env (Some name) children)))]"
| "render_nodes env parent [] = []"
| "render_nodes env parent (n # ns) = render_node env parent n @ render_nodes env parent ns"

definition render_proof :: "(jsstring \<Rightarrow> dom list) \<Rightarrow> proof_env \<Rightarrow> jsstring option \<Rightarrow> react list" where
  "render_proof html_to_dom env html = (case html of
       None \<Rightarrow> [] | Some h \<Rightarrow> if h = [] then [] else render_nodes env None (html_to_dom h))"

section \<open>The text of a body\<close>

definition LINE_TAGS :: "jsstring list" where
  "LINE_TAGS = [''p'', ''h2'', ''h3'', ''li'', ''blockquote'', ''pre'', ''hr'', ''ul'', ''ol'']"

text \<open>The lines so far and the current one.\<close>

type_synonym text_state = "jsstring list \<times> jsstring"

definition flush_line :: "text_state \<Rightarrow> text_state" where
  "flush_line st = (let line = js_trim (snd st) in (if line \<noteq> [] then fst st @ [line] else fst st, []))"

definition add_part :: "jsstring \<Rightarrow> text_state \<Rightarrow> text_state" where
  "add_part part st = (fst st, snd st @ part)"

definition newline :: char where
  "newline = char_of (10 :: nat)"

definition add_text :: "jsstring \<Rightarrow> text_state \<Rightarrow> text_state" where
  "add_text d st = (let parts = split_char newline d
     in foldl (\<lambda>st part. add_part part (flush_line st)) (add_part (hd parts) st) (tl parts))"

fun walk_node :: "dom \<Rightarrow> text_state \<Rightarrow> text_state" and walk_nodes :: "dom list \<Rightarrow> text_state \<Rightarrow> text_state" where
  "walk_node (DText d) st = add_text d st"
| "walk_node DOther st = st"
| "walk_node (DElem name attribs children) st =
     (if name = ''br'' then flush_line st
      else if name \<in> set LINE_TAGS then flush_line (walk_nodes children (flush_line st))
      else walk_nodes children st)"
| "walk_nodes [] st = st"
| "walk_nodes (n # ns) st = walk_nodes ns (walk_node n st)"

definition html_text :: "(jsstring \<Rightarrow> dom list) \<Rightarrow> jsstring option \<Rightarrow> jsstring" where
  "html_text html_to_dom html = (case html of
       None \<Rightarrow> []
     | Some h \<Rightarrow> if h = [] then [] else js_join [newline] (fst (flush_line (walk_nodes (html_to_dom h) ([], [])))))"

section \<open>The images of a body\<close>

fun node_srcs :: "dom \<Rightarrow> jsstring list" and nodes_srcs :: "dom list \<Rightarrow> jsstring list" where
  "node_srcs (DElem name attribs children) =
     (if name = ''img'' then (case map_of attribs ''src'' of Some src \<Rightarrow> [src] | None \<Rightarrow> []) else []) @ nodes_srcs children"
| "node_srcs (DText d) = []"
| "node_srcs DOther = []"
| "nodes_srcs [] = []"
| "nodes_srcs (n # ns) = node_srcs n @ nodes_srcs ns"

definition proof_image_srcs :: "(jsstring \<Rightarrow> dom list) \<Rightarrow> jsstring option \<Rightarrow> jsstring list" where
  "proof_image_srcs html_to_dom html = (case html of
       None \<Rightarrow> [] | Some h \<Rightarrow> if h = [] then [] else nodes_srcs (html_to_dom h))"

definition stored_proof_images :: "(jsstring \<Rightarrow> dom list) \<Rightarrow> jsstring option \<Rightarrow> jsstring option \<Rightarrow> jsstring list" where
  "stored_proof_images html_to_dom html stored =
     filter (\<lambda>src. src \<in> set (proof_image_srcs html_to_dom stored)) (uniq (proof_image_srcs html_to_dom html))"

definition proof_has_image :: "(jsstring \<Rightarrow> dom list) \<Rightarrow> jsstring option \<Rightarrow> bool" where
  "proof_has_image html_to_dom html \<longleftrightarrow> proof_image_srcs html_to_dom html \<noteq> []"

section \<open>Nothing outside the allowlist is rendered\<close>

text \<open>The images a rendered tree paints.\<close>

fun painted :: "react \<Rightarrow> jsstring list" where
  "painted (RText d) = []"
| "painted (RFragment cs) = concat (map painted cs)"
| "painted (RImage src a g) = [src]"
| "painted (RLink href cs) = concat (map painted cs)"
| "painted (RElem tag cls cs) = (case cs of None \<Rightarrow> [] | Some cs \<Rightarrow> concat (map painted cs))"

text \<open>A node is allowed when it is text, a fragment, a gated image from a safe source, a link to a
  safe address, or an element of an allowlisted tag (or the \<open>div\<close> a paragraph of images becomes) that
  is no paragraph around an image, and its children are allowed.\<close>

fun allowed :: "proof_env \<Rightarrow> react \<Rightarrow> bool" where
  "allowed env (RText d) \<longleftrightarrow> True"
| "allowed env (RFragment cs) \<longleftrightarrow> list_all (allowed env) cs"
| "allowed env (RImage src a g) \<longleftrightarrow> is_safe_image_src (pe_url env) (pe_media_host env) src \<and> g = pe_gate env"
| "allowed env (RLink href cs) \<longleftrightarrow> is_safe_link_href (pe_url env) href \<and> list_all (allowed env) cs"
| "allowed env (RElem tag cls cs) \<longleftrightarrow> (tag = ''div'' \<or> tag \<in> fst ` set TAG_CLASSES) \<and>
     (case cs of None \<Rightarrow> tag \<in> set VOID_TAGS
      | Some cs \<Rightarrow> list_all (allowed env) cs \<and> (tag = ''p'' \<longrightarrow> concat (map painted cs) = []))"

lemma painted_without_image:
  "\<not> image_node n \<Longrightarrow> concat (map painted (render_node env parent n)) = []"
  "\<not> contains_image ns \<Longrightarrow> concat (map painted (render_nodes env parent ns)) = []"
  by (induction env parent n and env parent ns rule: render_node_render_nodes.induct)
    (auto simp: Let_def split: option.splits)

lemma TAG_CLASSES_key: "map_of TAG_CLASSES name = Some cls \<Longrightarrow> name \<in> fst ` set TAG_CLASSES"
  by (force dest: map_of_SomeD)

lemma void_not_div: "''div'' \<notin> set VOID_TAGS" "''p'' \<notin> set VOID_TAGS"
  by (simp_all add: VOID_TAGS_def)

lemma render_allowed:
  "list_all (allowed env) (render_node env parent n)"
  "list_all (allowed env) (render_nodes env parent ns)"
proof (induction env parent n and env parent ns rule: render_node_render_nodes.induct)
  case (3 env parent name attribs children)
  then show ?case
    using painted_without_image(2) [of children env "Some name"]
    by (auto simp: Let_def void_not_div TAG_CLASSES_key split: option.splits)
qed auto

lemma painted_srcs:
  "set (concat (map painted (render_node env parent n))) \<subseteq> set (node_srcs n)"
  "set (concat (map painted (render_nodes env parent ns))) \<subseteq> set (nodes_srcs ns)"
proof (induction env parent n and env parent ns rule: render_node_render_nodes.induct)
  case (3 env parent name attribs children)
  show ?case
  proof (cases "name = ''img''")
    case True
    then show ?thesis by (auto simp: Let_def attribute_def split: option.splits)
  next
    case not_img: False
    show ?thesis
    proof (cases "name = ''a''")
      case True
      then show ?thesis using 3 by (simp add: Let_def)
    next
      case False
      then show ?thesis using 3(3,4) not_img by (auto split: option.split)
    qed
  qed
qed auto

text \<open>
  C5. Whatever HTML is stored, the page renders only what the allowlist names: text, elements of the
  listed tags, links to http addresses with a host, and images from a safe source behind the
  reader's gate, none of them inside a paragraph; and every image it paints is one of those the
  server's image check counts.
\<close>

theorem rendered_proof_is_allowed:
  "list_all (allowed env) (render_proof html_to_dom env html) \<and>
   set (concat (map painted (render_proof html_to_dom env html))) \<subseteq> set (proof_image_srcs html_to_dom html)"
proof (cases "html = None \<or> html = Some []")
  case True
  then show ?thesis by (auto simp: render_proof_def)
next
  case False
  then obtain h where h: "html = Some h" "h \<noteq> []" by auto
  show ?thesis
    using render_allowed(2) [of env None "html_to_dom h"] painted_srcs(2) [of env None "html_to_dom h"]
    by (simp only: render_proof_def proof_image_srcs_def h option.case if_False)
qed

section \<open>The text\<close>

definition good_lines :: "text_state \<Rightarrow> bool" where
  "good_lines st \<longleftrightarrow> newline \<notin> set (snd st) \<and>
     (\<forall>line \<in> set (fst st). line \<noteq> [] \<and> js_trim line = line \<and> newline \<notin> set line)"

lemma good_flush [simp]: "good_lines st \<Longrightarrow> good_lines (flush_line st)"
  using set_js_trim [of "snd st"] by (auto simp: good_lines_def flush_line_def Let_def)

lemma good_part [simp]: "good_lines st \<Longrightarrow> newline \<notin> set part \<Longrightarrow> good_lines (add_part part st)"
  by (auto simp: good_lines_def add_part_def)

lemma good_parts:
  "good_lines st \<Longrightarrow> \<forall>p \<in> set ps. newline \<notin> set p \<Longrightarrow>
     good_lines (foldl (\<lambda>st part. add_part part (flush_line st)) st ps)"
  by (induction ps arbitrary: st) auto

lemma good_add_text: "good_lines st \<Longrightarrow> good_lines (add_text d st)"
proof -
  assume st: "good_lines st"
  obtain p ps where parts: "split_char newline d = p # ps"
    by (cases "split_char newline d") simp_all
  have "\<forall>q \<in> set (p # ps). newline \<notin> set q" using split_char_no_sep [of _ newline d] parts by simp
  then show ?thesis using st good_parts [of "add_part p st" ps] by (simp add: add_text_def Let_def parts)
qed

lemma good_walk:
  "good_lines st \<Longrightarrow> good_lines (walk_node n st)"
  "good_lines st \<Longrightarrow> good_lines (walk_nodes ns st)"
proof (induction n st and ns st rule: walk_node_walk_nodes.induct)
  case (3 name attribs children st)
  show ?case
  proof (cases "name = ''br''")
    case False
    then show ?thesis using 3 by (cases "name \<in> set LINE_TAGS") (simp_all only: walk_node.simps if_False if_True good_flush simp_thms True_implies_equals)
  qed (use 3 in \<open>simp only: walk_node.simps refl if_True good_flush\<close>)
qed (simp_all add: good_add_text)

text \<open>
  The text the description counter measures is a list of lines joined by line breaks, none of
  them blank and none with space at an end: splitting it gives those lines back, whatever the body.
\<close>

theorem html_text_lines_are_trimmed:
  "html_text html_to_dom html = [] \<or>
   list_all (\<lambda>line. line \<noteq> [] \<and> js_trim line = line) (split_char newline (html_text html_to_dom html))"
proof (cases "html = None \<or> html = Some []")
  case True
  then show ?thesis by (auto simp: html_text_def)
next
  case False
  then obtain h where h: "html = Some h" "h \<noteq> []" by auto
  let ?lines = "fst (flush_line (walk_nodes (html_to_dom h) ([], [])))"
  have good: "good_lines (flush_line (walk_nodes (html_to_dom h) ([], [])))"
    by (intro good_flush good_walk) (simp add: good_lines_def)
  have joined: "html_text html_to_dom html = js_join [newline] ?lines" using h by (simp add: html_text_def)
  show ?thesis
  proof (cases "?lines = []")
    case False
    have "split_char newline (html_text html_to_dom html) = ?lines"
      unfolding joined using good False by (intro split_join) (simp_all add: good_lines_def)
    with good show ?thesis by (simp add: good_lines_def list_all_iff)
  qed (simp add: joined)
qed

end
