(* ===== verification/Search_Params.thy ===== *)
theory Search_Params
  imports Filter_Model Js_Regex
begin

text \<open>
  The search vocabulary of \<open>lib/search.ts\<close> and \<open>lib/feed.ts\<close>: the filter set under its
  wire names, the query parameters it goes out as, and what a URL reads back to; the hits of
  one type, the exactly named profile and the highlight segments.

  \<open>EventFilterParams\<close> is a \<open>Partial\<close> of the filter state less \<open>following\<close>. The code reads
  an absent field as an empty one (\<open>f[field] ?? []\<close>, \<open>f.author?.trim()\<close>, falsy switches and
  dates), so a value of it is a \<open>filter_state\<close> here, whose \<open>f_following\<close> nothing reads. A
  \<open>URLSearchParams\<close> is the list of its pairs (\<open>Js_Prelude\<close>).
\<close>

section \<open>The gate on account names\<close>

definition author_char :: "char \<Rightarrow> bool" where
  "author_char c \<longleftrightarrow> is_alnum c \<or> c = CHR ''_'' \<or> c = CHR ''-''"

definition AUTHOR_FILTER_RE :: rx where
  "AUTHOR_FILTER_RE = RRange (RCls author_char) 1 50"

lemma author_gate_iff:
  "rx_match AUTHOR_FILTER_RE s \<longleftrightarrow> s \<noteq> [] \<and> length s \<le> 50 \<and> (\<forall>c \<in> set s. author_char c)"
  by (auto simp: AUTHOR_FILTER_RE_def rx_match_iff lang_range_cls Suc_le_eq)

lemma author_char_not_space: "author_char c \<Longrightarrow> \<not> js_space c"
  by (auto simp: author_char_def js_space_def is_alnum_def is_alpha_def is_digit_def Let_def)

lemma author_gate_trim [simp]: "rx_match AUTHOR_FILTER_RE s \<Longrightarrow> js_trim s = s"
  by (rule js_trim_no_space) (auto simp: author_gate_iff author_char_not_space)

section \<open>Hit types and the search page's parameters\<close>

definition EVENT_TYPE :: jsstring where
  "EVENT_TYPE = ''event''"

definition search_types :: "jsstring list \<Rightarrow> jsstring list" where
  "search_types pick =
     (let (statuses, kinds) = split_show pick; (events, others) = show_scope pick
      in if events \<and> others then (if statuses \<noteq> [] then EVENT_TYPE # kinds else [])
         else if events then [EVENT_TYPE] else kinds)"

definition append_search_types :: "params \<Rightarrow> jsstring list \<Rightarrow> params" where
  "append_search_types ps types = params_append_all ps ''type'' types"

text \<open>\<open>LIST_DIMENSIONS\<close>: the list dimensions that go out one parameter value per option.\<close>

definition LIST_DIMENSIONS :: "(list_field \<times> jsstring) list" where
  "LIST_DIMENSIONS = concat (map (\<lambda>key. case dim_control (DIMENSIONS key) of
       Options field _ \<Rightarrow> if field \<noteq> LLocationGuess then [(field, dim_param (DIMENSIONS key))] else []
     | _ \<Rightarrow> []) dimension_keys)"

definition APPROVED_BY_ORG :: jsstring where
  "APPROVED_BY_ORG = ''approved_by_org''"

datatype field_value = FList "jsstring list" | FStr jsstring | FBool bool

type_synonym fields = "(jsstring \<times> field_value) list"

definition list_values :: "filter_state \<Rightarrow> list_field \<Rightarrow> jsstring list" where
  "list_values f field = (if field = LShow then filter is_status (f_show f) else get_list field f)"

definition put_list_fields :: "filter_state \<Rightarrow> fields \<Rightarrow> fields" where
  "put_list_fields f acc = foldl (\<lambda>acc (field, param).
     let vs = list_values f field in if vs = [] then acc else AList.update param (FList vs) acc)
     acc LIST_DIMENSIONS"

definition put_author :: "filter_state \<Rightarrow> fields \<Rightarrow> fields" where
  "put_author f acc = (let author = js_trim (f_author f) in
     if author \<noteq> [] \<and> rx_match AUTHOR_FILTER_RE author
     then AList.update (dim_param (DIMENSIONS DAuthor)) (FStr author) acc else acc)"

definition put_location_guess :: "filter_state \<Rightarrow> fields \<Rightarrow> fields" where
  "put_location_guess f acc = (case has_coords_filter (f_location_guess f) of
       None \<Rightarrow> acc
     | Some b \<Rightarrow> AList.update (dim_param (DIMENSIONS DLocationGuess)) (FBool b) acc)"

definition put_approved :: "filter_state \<Rightarrow> fields \<Rightarrow> fields" where
  "put_approved f acc = (if f_approved f
     then AList.update (dim_param (DIMENSIONS DApproved)) (FBool True) acc else acc)"

definition put_approved_by :: "filter_state \<Rightarrow> fields \<Rightarrow> fields" where
  "put_approved_by f acc = (case f_approved_by f of
       None \<Rightarrow> acc
     | Some (Analyst u _) \<Rightarrow> AList.update (dim_param (DIMENSIONS DApprovedBy)) (FStr u) acc
     | Some (Organization s _ _) \<Rightarrow> AList.update APPROVED_BY_ORG (FStr s) acc)"

definition put_date :: "filter_state \<Rightarrow> fields \<Rightarrow> date_key \<Rightarrow> fields" where
  "put_date f acc key =
     (let spec = DATE_DIMENSIONS key; from = date_from spec f; to = date_to spec f;
          acc' = (if from \<noteq> [] then AList.update (fst (date_params spec)) (FStr from) acc else acc)
      in if to \<noteq> [] then AList.update (snd (date_params spec)) (FStr to) acc' else acc')"

definition event_filter_fields :: "filter_state \<Rightarrow> fields" where
  "event_filter_fields f =
     foldl (put_date f)
       (put_approved_by f (put_approved f (put_location_guess f (put_author f (put_list_fields f [])))))
       DATE_KEYS"

fun js_string_of :: "field_value \<Rightarrow> jsstring" where
  "js_string_of (FStr s) = s"
| "js_string_of (FBool b) = (if b then ''true'' else ''false'')"
| "js_string_of (FList vs) = js_join '','' vs"

definition append_field :: "params \<Rightarrow> jsstring \<times> field_value \<Rightarrow> params" where
  "append_field ps kv = (case snd kv of
       FList vs \<Rightarrow> params_append_all ps (fst kv) vs
     | v \<Rightarrow> params_set ps (fst kv) (js_string_of v))"

definition append_event_filter_params :: "params \<Rightarrow> filter_state \<Rightarrow> params" where
  "append_event_filter_params ps f = foldl append_field ps (event_filter_fields f)"

text \<open>The query of \<open>GET /search\<close> and its siblings: \<open>q\<close>, what the call adds, types, filters.\<close>

definition search_query :: "jsstring \<Rightarrow> jsstring list \<Rightarrow> filter_state \<Rightarrow> params \<Rightarrow> params" where
  "search_query q types f extra =
     (let ps = foldl (\<lambda>acc (k, v). params_set acc k v) [] ((''q'', q) # extra)
      in append_event_filter_params (append_search_types ps types) f)"

definition search_page_params :: "jsstring \<Rightarrow> filter_state \<Rightarrow> params" where
  "search_page_params q filters =
     (let ps = (if q \<noteq> [] then params_set [] ''q'' q else []);
          pick = f_show filters;
          types = search_types pick;
          every_status = (length types = 1 \<and> types ! 0 = EVENT_TYPE \<and>
                          length pick = length FILTER_STATUSES)
      in append_event_filter_params (append_search_types ps types)
           (if every_status then filters\<lparr>f_show := []\<rparr> else filters))"

section \<open>Reading a URL\<close>

definition read_show_pick :: "params \<Rightarrow> jsstring list" where
  "read_show_pick ps =
     (let types = params_get_all ps ''type'';
          named = filter is_status (params_get_all ps ''status'');
          statuses = (if named = [] \<and> EVENT_TYPE \<in> set types then FILTER_STATUSES else named)
      in statuses @ filter (\<lambda>kind. kind \<in> set types) SHOW_KINDS)"

definition read_approved_by :: "params \<Rightarrow> account option" where
  "read_approved_by ps =
     (let user = or_else (params_get ps (dim_param (DIMENSIONS DApprovedBy))) [];
          org = or_else (params_get ps APPROVED_BY_ORG) []
      in if rx_match AUTHOR_FILTER_RE user then Some (Analyst user None)
         else if rx_match AUTHOR_FILTER_RE org then Some (Organization org org None)
         else None)"

definition read_date :: "params \<Rightarrow> jsstring \<Rightarrow> jsstring" where
  "read_date ps name = or_else (params_get ps name) []"

text \<open>Every list field but the location guess, from the parameter its dimension names.\<close>

definition read_list :: "params \<Rightarrow> list_field \<Rightarrow> jsstring list" where
  "read_list ps field = params_get_all ps (or_else (map_of LIST_DIMENSIONS field) [])"

definition read_event_filter_params :: "params \<Rightarrow> filter_state" where
  "read_event_filter_params ps =
     (let author = or_else (params_get ps (dim_param (DIMENSIONS DAuthor))) [] in
      \<lparr>f_show = read_list ps LShow, f_conflicts = read_list ps LConflicts, f_tags = read_list ps LTags,
       f_source_kinds = read_list ps LSourceKinds, f_levels = read_list ps LLevels,
       f_media_types = read_list ps LMediaTypes,
       f_location_guess = location_guess_of (params_get ps (dim_param (DIMENSIONS DLocationGuess))),
       f_following = f_following EMPTY_FILTERS,
       f_author = (if rx_match AUTHOR_FILTER_RE author then author else []),
       f_approved = (params_get ps (dim_param (DIMENSIONS DApproved)) = Some ''true''),
       f_approved_by = read_approved_by ps,
       f_event_from = read_date ps (fst (date_params (DATE_DIMENSIONS KEventDate))),
       f_event_to = read_date ps (snd (date_params (DATE_DIMENSIONS KEventDate))),
       f_added_from = read_date ps (fst (date_params (DATE_DIMENSIONS KAdded))),
       f_added_to = read_date ps (snd (date_params (DATE_DIMENSIONS KAdded)))\<rparr>)"

text \<open>The feed's URL and queries (\<open>lib/feed.ts\<close>).\<close>

definition feed_page_read :: "params \<Rightarrow> filter_state" where
  "feed_page_read ps =
     (read_event_filter_params ps)\<lparr>f_following := (params_get ps ''scope'' \<noteq> Some ''all'')\<rparr>"

definition feed_page_write :: "filter_state \<Rightarrow> params" where
  "feed_page_write state =
     append_event_filter_params (if f_following state then [] else params_set [] ''scope'' ''all'') state"

definition feed_query :: "filter_state \<Rightarrow> params" where
  "feed_query state = append_event_filter_params
     [(''scope'', if f_following state then ''following'' else ''all'')] state"

definition feed_path :: "filter_state \<Rightarrow> jsstring option \<Rightarrow> jsstring \<times> params" where
  "feed_path state cursor = (''/feed'',
     case cursor of Some c \<Rightarrow> if c \<noteq> [] then params_set (feed_query state) ''cursor'' c else feed_query state
     | None \<Rightarrow> feed_query state)"

text \<open>The search page's and the requests board's URL (\<open>app/search/page.tsx\<close>,
  \<open>app/requests/page.tsx\<close>).\<close>

definition search_page_read :: "params \<Rightarrow> jsstring \<times> filter_state" where
  "search_page_read ps = (or_else (params_get ps ''q'') [],
     scope_state SSearch ((read_event_filter_params ps)\<lparr>f_show := read_show_pick ps\<rparr>))"

definition search_page_write :: "jsstring \<times> filter_state \<Rightarrow> params" where
  "search_page_write v = search_page_params (fst v) (snd v)"

definition requests_page_read :: "params \<Rightarrow> filter_state" where
  "requests_page_read ps = scope_state SRequests (read_event_filter_params ps)"

definition requests_page_write :: "filter_state \<Rightarrow> params" where
  "requests_page_write state = append_event_filter_params [] state"

definition filters_search :: "filter_state \<Rightarrow> bool" where
  "filters_search filters = any_active SSearch (filters\<lparr>f_show := fst (split_show (f_show filters))\<rparr>)"

text \<open>A section's \<open>See all\<close> filters on the search page.\<close>

definition see_all_filters :: "filter_state \<Rightarrow> jsstring \<Rightarrow> filter_state" where
  "see_all_filters filters type =
     (if type = EVENT_TYPE then
        (let statuses = fst (split_show (f_show filters))
         in filters\<lparr>f_show := (if statuses \<noteq> [] then statuses else FILTER_STATUSES)\<rparr>)
      else scope_state SSearch (filters\<lparr>f_show := [type]\<rparr>))"

text \<open>The parameters of \<open>profileSearchHref\<close>.\<close>

definition profile_search_params :: "jsstring \<Rightarrow> filter_state \<Rightarrow> jsstring \<Rightarrow> params" where
  "profile_search_params user filters type =
     (let statuses = (if f_show filters \<noteq> [] then f_show filters else FILTER_STATUSES);
          pick = (if type = EVENT_TYPE then statuses else [type])
      in search_page_params [] (filters\<lparr>f_author := user, f_show := pick\<rparr>))"

section \<open>The fields under their wire names\<close>

lemma LIST_DIMENSIONS_eq: "LIST_DIMENSIONS = [(LShow, ''status''), (LConflicts, ''conflict''),
    (LSourceKinds, ''source_kind''), (LLevels, ''level''), (LTags, ''tag''), (LMediaTypes, ''media'')]"
  by (simp add: LIST_DIMENSIONS_def dimension_keys_def)

lemma map_of_update_if:
  "map_of (if c then AList.update p v acc else acc) k = (if k = p \<and> c then Some v else map_of acc k)"
  "map_of (if c then acc else AList.update p v acc) k = (if k = p \<and> \<not> c then Some v else map_of acc k)"
  by (simp_all add: update_conv')

lemma distinct_update_if:
  "distinct (map fst acc) \<Longrightarrow> distinct (map fst (if c then AList.update p v acc else acc))"
  "distinct (map fst acc) \<Longrightarrow> distinct (map fst (if c then acc else AList.update p v acc))"
  by (simp_all add: distinct_update)

lemma map_of_put_list_fields:
  "map_of (put_list_fields f acc) k =
     (let hit = (\<lambda>field. list_values f field \<noteq> []) in
      if k = ''media'' \<and> hit LMediaTypes then Some (FList (list_values f LMediaTypes))
      else if k = ''tag'' \<and> hit LTags then Some (FList (list_values f LTags))
      else if k = ''level'' \<and> hit LLevels then Some (FList (list_values f LLevels))
      else if k = ''source_kind'' \<and> hit LSourceKinds then Some (FList (list_values f LSourceKinds))
      else if k = ''conflict'' \<and> hit LConflicts then Some (FList (list_values f LConflicts))
      else if k = ''status'' \<and> hit LShow then Some (FList (list_values f LShow))
      else map_of acc k)"
  by (simp add: put_list_fields_def LIST_DIMENSIONS_eq map_of_update_if Let_def del: if_split cong: if_cong)

lemma distinct_put_list_fields:
  "distinct (map fst acc) \<Longrightarrow> distinct (map fst (put_list_fields f acc))"
  by (simp add: put_list_fields_def LIST_DIMENSIONS_eq distinct_update_if Let_def)

lemma map_of_put_author:
  "map_of (put_author f acc) k =
     (if k = ''author'' \<and> js_trim (f_author f) \<noteq> [] \<and> rx_match AUTHOR_FILTER_RE (js_trim (f_author f))
      then Some (FStr (js_trim (f_author f))) else map_of acc k)"
  by (simp add: put_author_def Let_def map_of_update_if)

lemma map_of_put_location_guess:
  "map_of (put_location_guess f acc) k =
     (case has_coords_filter (f_location_guess f) of
        Some b \<Rightarrow> if k = ''has_coords'' then Some (FBool b) else map_of acc k
      | None \<Rightarrow> map_of acc k)"
  by (simp add: put_location_guess_def update_conv' split: option.split)

lemma map_of_put_approved:
  "map_of (put_approved f acc) k =
     (if k = ''approved'' \<and> f_approved f then Some (FBool True) else map_of acc k)"
  by (simp add: put_approved_def map_of_update_if)

lemma map_of_put_approved_by:
  "map_of (put_approved_by f acc) k =
     (case f_approved_by f of
        None \<Rightarrow> map_of acc k
      | Some (Analyst u _) \<Rightarrow> if k = ''approved_by'' then Some (FStr u) else map_of acc k
      | Some (Organization s _ _) \<Rightarrow> if k = ''approved_by_org'' then Some (FStr s) else map_of acc k)"
  by (simp add: put_approved_by_def APPROVED_BY_ORG_def update_conv' split: option.split account.split)

lemma map_of_put_date:
  "map_of (put_date f acc key) k =
     (let spec = DATE_DIMENSIONS key in
      if k = snd (date_params spec) \<and> date_to spec f \<noteq> [] then Some (FStr (date_to spec f))
      else if k = fst (date_params spec) \<and> date_from spec f \<noteq> [] then Some (FStr (date_from spec f))
      else map_of acc k)"
  unfolding put_date_def Let_def by (simp add: update_conv')

lemma map_of_put_dates:
  "map_of (foldl (put_date f) acc DATE_KEYS) k =
     (if k = ''submitted_to'' \<and> f_added_to f \<noteq> [] then Some (FStr (f_added_to f))
      else if k = ''submitted_from'' \<and> f_added_from f \<noteq> [] then Some (FStr (f_added_from f))
      else if k = ''occurred_date_to'' \<and> f_event_to f \<noteq> [] then Some (FStr (f_event_to f))
      else if k = ''occurred_date_from'' \<and> f_event_from f \<noteq> [] then Some (FStr (f_event_from f))
      else map_of acc k)"
  by (simp add: DATE_KEYS_def map_of_put_date Let_def)

lemmas map_of_event_filter_fields =
  event_filter_fields_def map_of_put_dates map_of_put_approved_by map_of_put_approved
  map_of_put_location_guess map_of_put_author map_of_put_list_fields

lemma distinct_event_filter_fields: "distinct (map fst (event_filter_fields f))"
proof -
  have lists: "distinct (map fst (put_list_fields f []))"
    by (rule distinct_put_list_fields) simp
  then have "distinct (map fst (put_approved_by f (put_approved f (put_location_guess f
      (put_author f (put_list_fields f []))))))"
    by (simp add: put_author_def put_location_guess_def put_approved_def put_approved_by_def Let_def
        distinct_update split: option.split account.split)
  then show ?thesis
    by (simp add: event_filter_fields_def DATE_KEYS_def put_date_def Let_def distinct_update_if)
qed

section \<open>Reading parameters back\<close>

lemma get_all_append_field:
  "params_get_all (append_field ps kv) k =
     (if fst kv = k then (case snd kv of FList vs \<Rightarrow> params_get_all ps k @ vs | v \<Rightarrow> [js_string_of v])
      else params_get_all ps k)"
  by (cases kv) (simp add: append_field_def params_simps split: field_value.split)

lemma get_all_append_fields:
  assumes "distinct (map fst fs)"
  shows "params_get_all (foldl append_field ps fs) k =
     (case map_of fs k of
        None \<Rightarrow> params_get_all ps k
      | Some (FList vs) \<Rightarrow> params_get_all ps k @ vs
      | Some v \<Rightarrow> [js_string_of v])"
  using assms
proof (induction fs arbitrary: ps)
  case (Cons kv fs)
  then have IH: "params_get_all (foldl append_field ps (kv # fs)) k =
     (case map_of fs k of
        None \<Rightarrow> params_get_all (append_field ps kv) k
      | Some (FList vs) \<Rightarrow> params_get_all (append_field ps kv) k @ vs
      | Some v \<Rightarrow> [js_string_of v])" by simp
  show ?case
  proof (cases "fst kv = k")
    case True
    then have "map_of fs k = None"
      using Cons.prems by (auto simp: map_of_eq_None_iff)
    with True show ?thesis
      unfolding IH by (cases kv) (simp add: get_all_append_field split: field_value.split)
  next
    case False
    then show ?thesis
      unfolding IH by (cases kv) (simp add: get_all_append_field split: option.split field_value.split)
  qed
qed simp

lemma get_all_append_event:
  "params_get_all (append_event_filter_params ps f) k =
     (case map_of (event_filter_fields f) k of
        None \<Rightarrow> params_get_all ps k
      | Some (FList vs) \<Rightarrow> params_get_all ps k @ vs
      | Some v \<Rightarrow> [js_string_of v])"
  unfolding append_event_filter_params_def
  by (rule get_all_append_fields) (rule distinct_event_filter_fields)

lemma get_append_event:
  assumes "params_get_all ps k = []"
  shows "params_get (append_event_filter_params ps f) k =
     (case map_of (event_filter_fields f) k of
        None \<Rightarrow> None
      | Some (FList vs) \<Rightarrow> (case vs of [] \<Rightarrow> None | v # _ \<Rightarrow> Some v)
      | Some v \<Rightarrow> Some (js_string_of v))"
  using assms by (simp add: get_eq_get_all get_all_append_event split: option.split field_value.split)

section \<open>What a written filter set reads back as\<close>

text \<open>The account a name in a URL stands for, when the gate takes it.\<close>

fun canon_account :: "account \<Rightarrow> account option" where
  "canon_account (Analyst u _) = (if rx_match AUTHOR_FILTER_RE u then Some (Analyst u None) else None)"
| "canon_account (Organization s _ _) =
     (if rx_match AUTHOR_FILTER_RE s then Some (Organization s s None) else None)"

definition canon_author :: "jsstring \<Rightarrow> jsstring" where
  "canon_author a = (if rx_match AUTHOR_FILTER_RE (js_trim a) then js_trim a else [])"

definition canon_guess :: "jsstring list \<Rightarrow> jsstring list" where
  "canon_guess g = (case has_coords_filter g of
     None \<Rightarrow> [] | Some True \<Rightarrow> [''guessed''] | Some False \<Rightarrow> [''blind''])"

definition canon :: "filter_state \<Rightarrow> filter_state" where
  "canon f = f\<lparr>f_show := filter is_status (f_show f), f_location_guess := canon_guess (f_location_guess f),
     f_following := False, f_author := canon_author (f_author f),
     f_approved_by := Option.bind (f_approved_by f) canon_account\<rparr>"

definition wire_names :: "jsstring set" where
  "wire_names = {''status'', ''conflict'', ''source_kind'', ''level'', ''tag'', ''media'', ''author'',
     ''has_coords'', ''approved'', ''approved_by'', ''approved_by_org'', ''occurred_date_from'',
     ''occurred_date_to'', ''submitted_from'', ''submitted_to''}"

definition no_wire_name :: "params \<Rightarrow> bool" where
  "no_wire_name ps \<longleftrightarrow> (\<forall>k \<in> wire_names. params_get_all ps k = [])"

lemma wire_fields:
  "map_of (event_filter_fields f) ''status'' =
     (if filter is_status (f_show f) = [] then None else Some (FList (filter is_status (f_show f))))"
  "map_of (event_filter_fields f) ''conflict'' =
     (if f_conflicts f = [] then None else Some (FList (f_conflicts f)))"
  "map_of (event_filter_fields f) ''source_kind'' =
     (if f_source_kinds f = [] then None else Some (FList (f_source_kinds f)))"
  "map_of (event_filter_fields f) ''level'' =
     (if f_levels f = [] then None else Some (FList (f_levels f)))"
  "map_of (event_filter_fields f) ''tag'' =
     (if f_tags f = [] then None else Some (FList (f_tags f)))"
  "map_of (event_filter_fields f) ''media'' =
     (if f_media_types f = [] then None else Some (FList (f_media_types f)))"
  "map_of (event_filter_fields f) ''author'' =
     (if canon_author (f_author f) = [] then None else Some (FStr (canon_author (f_author f))))"
  "map_of (event_filter_fields f) ''has_coords'' =
     map_option FBool (has_coords_filter (f_location_guess f))"
  "map_of (event_filter_fields f) ''approved'' = (if f_approved f then Some (FBool True) else None)"
  "map_of (event_filter_fields f) ''approved_by'' =
     (case f_approved_by f of Some (Analyst u _) \<Rightarrow> Some (FStr u) | _ \<Rightarrow> None)"
  "map_of (event_filter_fields f) ''approved_by_org'' =
     (case f_approved_by f of Some (Organization s _ _) \<Rightarrow> Some (FStr s) | _ \<Rightarrow> None)"
  "map_of (event_filter_fields f) ''occurred_date_from'' =
     (if f_event_from f = [] then None else Some (FStr (f_event_from f)))"
  "map_of (event_filter_fields f) ''occurred_date_to'' =
     (if f_event_to f = [] then None else Some (FStr (f_event_to f)))"
  "map_of (event_filter_fields f) ''submitted_from'' =
     (if f_added_from f = [] then None else Some (FStr (f_added_from f)))"
  "map_of (event_filter_fields f) ''submitted_to'' =
     (if f_added_to f = [] then None else Some (FStr (f_added_to f)))"
  by (simp_all add: map_of_event_filter_fields list_values_def Let_def canon_author_def author_gate_iff
      split: option.split account.split)

lemma map_of_event_filter_fields_None:
  "k \<notin> wire_names \<Longrightarrow> map_of (event_filter_fields f) k = None"
  by (auto simp: wire_names_def map_of_event_filter_fields Let_def split: option.split account.split)

lemma get_all_append_event_other:
  "k \<notin> wire_names \<Longrightarrow> params_get_all (append_event_filter_params ps f) k = params_get_all ps k"
  by (simp add: get_all_append_event map_of_event_filter_fields_None)

lemma get_append_event_other:
  "k \<notin> wire_names \<Longrightarrow> params_get (append_event_filter_params ps f) k = params_get ps k"
  by (simp add: get_eq_get_all get_all_append_event_other)

lemma location_guess_of_FBool:
  "location_guess_of (map_option (\<lambda>b. js_string_of (FBool b)) (has_coords_filter g)) = canon_guess g"
  by (auto simp: location_guess_of_def canon_guess_def split: option.split bool.split)

lemma read_append_event:
  assumes "no_wire_name ps"
  shows "read_event_filter_params (append_event_filter_params ps f) = canon f"
proof -
  have none: "params_get_all ps k = []" if "k \<in> wire_names" for k
    using assms that by (simp add: no_wire_name_def)
  let ?ps = "append_event_filter_params ps f"
  have lists: "read_list ?ps LShow = filter is_status (f_show f)"
    "read_list ?ps LConflicts = f_conflicts f" "read_list ?ps LTags = f_tags f"
    "read_list ?ps LSourceKinds = f_source_kinds f" "read_list ?ps LLevels = f_levels f"
    "read_list ?ps LMediaTypes = f_media_types f"
    by (simp_all add: read_list_def LIST_DIMENSIONS_eq or_else_def get_all_append_event wire_fields
        none wire_names_def)
  have dates: "read_date ?ps ''occurred_date_from'' = f_event_from f"
    "read_date ?ps ''occurred_date_to'' = f_event_to f"
    "read_date ?ps ''submitted_from'' = f_added_from f"
    "read_date ?ps ''submitted_to'' = f_added_to f"
    by (simp_all add: read_date_def or_else_def get_append_event wire_fields none wire_names_def)
  have guess: "location_guess_of (params_get ?ps ''has_coords'') = canon_guess (f_location_guess f)"
    by (subst location_guess_of_FBool [symmetric])
      (simp add: get_append_event wire_fields none wire_names_def option.map_comp comp_def
        split: option.split)
  have approved: "params_get ?ps ''approved'' = Some ''true'' \<longleftrightarrow> f_approved f"
    by (simp add: get_append_event wire_fields none wire_names_def)
  have author: "params_get ?ps ''author'' =
      (if canon_author (f_author f) = [] then None else Some (canon_author (f_author f)))"
    by (simp add: get_append_event wire_fields none wire_names_def)
  have "\<not> rx_nullable AUTHOR_FILTER_RE"
    using author_gate_iff [of "[]"] by simp
  then have appr: "read_approved_by ?ps = Option.bind (f_approved_by f) canon_account"
    by (auto simp: read_approved_by_def get_append_event wire_fields none wire_names_def or_else_def
        APPROVED_BY_ORG_def Let_def split: option.split account.split)
  show ?thesis
    unfolding read_event_filter_params_def canon_def Let_def
    by (rule filter_state.equality)
      (simp_all add: lists dates guess approved author appr or_else_def canon_author_def author_gate_iff)
qed

section \<open>Writing what was read\<close>

text \<open>The approver a URL can carry: its name passes the gate, as the picker's suggestions do.\<close>

definition approver_ok :: "filter_state \<Rightarrow> bool" where
  "approver_ok f \<longleftrightarrow> (\<forall>a. f_approved_by f = Some a \<longrightarrow> canon_account a \<noteq> None)"

lemma canon_author_idem [simp]: "canon_author (canon_author a) = canon_author a"
  by (auto simp: canon_author_def)

lemma has_coords_canon_guess [simp]: "has_coords_filter (canon_guess g) = has_coords_filter g"
  by (auto simp: canon_guess_def has_coords_filter_def split: list.split option.split bool.split)

lemma put_author_canon: "put_author f acc = (if canon_author (f_author f) = [] then acc
    else AList.update ''author'' (FStr (canon_author (f_author f))) acc)"
  by (simp add: put_author_def Let_def canon_author_def author_gate_iff)

lemma put_list_fields_cong:
  assumes "\<And>field. field \<noteq> LLocationGuess \<Longrightarrow> list_values f field = list_values g field"
  shows "put_list_fields f acc = put_list_fields g acc"
  using assms by (simp add: put_list_fields_def LIST_DIMENSIONS_eq)

text \<open>The wire fields depend on the filter set through these views of it alone.\<close>

lemma event_filter_fields_cong:
  assumes "\<And>field. field \<noteq> LLocationGuess \<Longrightarrow> list_values f field = list_values g field"
    "canon_author (f_author f) = canon_author (f_author g)"
    "has_coords_filter (f_location_guess f) = has_coords_filter (f_location_guess g)"
    "f_approved f = f_approved g"
    "map_option account_key (f_approved_by f) = map_option account_key (f_approved_by g)"
    "f_event_from f = f_event_from g" "f_event_to f = f_event_to g"
    "f_added_from f = f_added_from g" "f_added_to f = f_added_to g"
  shows "event_filter_fields f = event_filter_fields g"
proof -
  have by1: "put_approved_by f acc = put_approved_by g acc" for acc
    using assms(5) by (auto simp: put_approved_by_def split: option.splits account.splits)
  have dates: "put_date f acc key = put_date g acc key" for acc key
    using assms(6-9) by (cases key) (simp_all add: put_date_def)
  have "put_list_fields f acc = put_list_fields g acc" for acc
    using assms(1) by (rule put_list_fields_cong)
  moreover have "put_author f acc = put_author g acc" for acc
    by (simp add: put_author_canon assms(2))
  moreover have "put_location_guess f acc = put_location_guess g acc" for acc
    by (simp add: put_location_guess_def assms(3))
  moreover have "put_approved f acc = put_approved g acc" for acc
    by (simp add: put_approved_def assms(4))
  ultimately show ?thesis
    by (simp add: event_filter_fields_def by1 dates DATE_KEYS_def)
qed

lemma list_values_canon:
  "field \<noteq> LLocationGuess \<Longrightarrow> list_values (canon f) field = list_values f field"
  by (cases field) (simp_all add: list_values_def canon_def)

lemma account_key_canon:
  "approver_ok f \<Longrightarrow>
   map_option account_key (Option.bind (f_approved_by f) canon_account) =
   map_option account_key (f_approved_by f)"
  by (cases "f_approved_by f")
    (auto simp: approver_ok_def elim!: canon_account.elims split: if_splits)

lemma event_filter_fields_canon:
  assumes "approver_ok f"
  shows "event_filter_fields ((canon f)\<lparr>f_following := b\<rparr>) = event_filter_fields f"
proof (rule event_filter_fields_cong)
  fix field :: list_field
  assume "field \<noteq> LLocationGuess"
  then show "list_values ((canon f)\<lparr>f_following := b\<rparr>) field = list_values f field"
    by (cases field) (simp_all add: list_values_def canon_def)
qed (simp_all add: canon_def account_key_canon assms)

lemma event_filter_fields_following:
  "event_filter_fields (f\<lparr>f_following := b\<rparr>) = event_filter_fields f"
proof (rule event_filter_fields_cong)
  fix field :: list_field
  show "list_values (f\<lparr>f_following := b\<rparr>) field = list_values f field"
    by (cases field) (simp_all add: list_values_def)
qed simp_all

lemma append_event_canon:
  "approver_ok f \<Longrightarrow>
   append_event_filter_params ps ((canon f)\<lparr>f_following := b\<rparr>) = append_event_filter_params ps f"
  by (simp add: append_event_filter_params_def event_filter_fields_canon)

lemma no_wire_Nil [simp]: "no_wire_name []"
  by (simp add: no_wire_name_def params_simps)

lemma no_wire_set: "no_wire_name ps \<Longrightarrow> k \<notin> wire_names \<Longrightarrow> no_wire_name (params_set ps k v)"
  by (auto simp: no_wire_name_def params_simps)

lemma no_wire_append_all: "no_wire_name ps \<Longrightarrow> k \<notin> wire_names \<Longrightarrow> no_wire_name (params_append_all ps k vs)"
  by (auto simp: no_wire_name_def params_simps)

lemma not_wire_names [simp]: "''scope'' \<notin> wire_names" "''type'' \<notin> wire_names" "''q'' \<notin> wire_names"
  by (simp_all add: wire_names_def)

section \<open>The feed's URL\<close>

lemma feed_read_write: "feed_page_read (feed_page_write f) = (canon f)\<lparr>f_following := f_following f\<rparr>"
proof -
  let ?ps = "if f_following f then [] else params_set [] ''scope'' ''all''"
  have "no_wire_name ?ps" by (simp add: no_wire_set)
  moreover have "params_get (append_event_filter_params ?ps f) ''scope'' \<noteq> Some ''all'' \<longleftrightarrow> f_following f"
    by (simp add: get_append_event_other params_simps)
  ultimately show ?thesis
    by (simp add: feed_page_read_def feed_page_write_def read_append_event del: if_split)
qed

lemma feed_write_read_write:
  "approver_ok f \<Longrightarrow> feed_page_write (feed_page_read (feed_page_write f)) = feed_page_write f"
  unfolding feed_read_write by (simp add: feed_page_write_def append_event_canon)

lemma approver_ok_read: "approver_ok (read_event_filter_params ps)"
  by (simp add: approver_ok_def read_event_filter_params_def read_approved_by_def Let_def)

section \<open>The search page's URL\<close>

text \<open>Every value of a Show pick is one the chips offer.\<close>

definition pick_ok :: "jsstring list \<Rightarrow> bool" where
  "pick_ok pick \<longleftrightarrow> set pick \<subseteq> set (FILTER_STATUSES @ SHOW_KINDS)"

lemma SHOW_KINDS_not_status [simp]: "filter is_status (filter P SHOW_KINDS) = []"
  by (auto simp: filter_empty_conv SHOW_KINDS_def is_status_def FILTER_STATUSES_def EVENT_STATUSES_def)

lemma SHOW_KINDS_not_event: "EVENT_TYPE \<notin> set SHOW_KINDS"
  by (simp add: SHOW_KINDS_def EVENT_TYPE_def)

lemma FILTER_STATUSES_facts [simp]:
  "FILTER_STATUSES \<noteq> []" "filter is_status FILTER_STATUSES = FILTER_STATUSES"
  "filter (\<lambda>k. k \<in> set FILTER_STATUSES) SHOW_KINDS = []"
  by (simp_all add: is_status_def FILTER_STATUSES_def EVENT_STATUSES_def SHOW_KINDS_def)

lemma statuses_no_kind [simp]: "filter (\<lambda>k. k \<in> set pick \<and> is_status k) SHOW_KINDS = []"
  by (auto simp: filter_empty_conv SHOW_KINDS_def is_status_def FILTER_STATUSES_def EVENT_STATUSES_def)

text \<open>The pick a URL written for \<open>pick\<close> reads back as.\<close>

definition every_status :: "jsstring list \<Rightarrow> bool" where
  "every_status pick \<longleftrightarrow> length (search_types pick) = 1 \<and> search_types pick ! 0 = EVENT_TYPE \<and>
     length pick = length FILTER_STATUSES"

definition canon_pick :: "jsstring list \<Rightarrow> jsstring list" where
  "canon_pick pick = (if every_status pick then FILTER_STATUSES
     else fst (split_show pick) @ snd (split_show pick))"

lemma search_types_eq:
  "search_types pick = (if fst (split_show pick) \<noteq> [] then [EVENT_TYPE] else []) @ snd (split_show pick)"
  by (auto simp: search_types_def show_scope_def Let_def split: prod.split)

lemma every_status_iff:
  "every_status pick \<longleftrightarrow> fst (split_show pick) \<noteq> [] \<and> snd (split_show pick) = [] \<and>
     length pick = length FILTER_STATUSES"
proof -
  have "EVENT_TYPE \<notin> set (snd (split_show pick))"
    using SHOW_KINDS_not_event by (auto simp: split_show_def)
  then show ?thesis
    by (cases "snd (split_show pick)") (auto simp: every_status_def search_types_eq)
qed

lemma kind_not_status: "k \<in> set SHOW_KINDS \<Longrightarrow> \<not> is_status k"
  by (auto simp: SHOW_KINDS_def is_status_def FILTER_STATUSES_def EVENT_STATUSES_def)

lemma split_show_concat:
  "split_show (fst (split_show pick) @ snd (split_show pick)) = split_show pick"
  by (auto simp: split_show_def kind_not_status cong: filter_cong)

lemma split_show_FILTER_STATUSES: "split_show FILTER_STATUSES = (FILTER_STATUSES, [])"
  by (simp add: split_show_def)

lemma search_types_canon [simp]: "search_types (canon_pick pick) = search_types pick"
proof (cases "every_status pick")
  case True
  then show ?thesis
    by (simp add: canon_pick_def search_types_eq split_show_FILTER_STATUSES every_status_iff)
next
  case False
  then show ?thesis
    by (simp add: canon_pick_def search_types_eq split_show_concat)
qed

lemma show_scope_canon [simp]: "show_scope (canon_pick pick) = show_scope pick"
proof (cases "every_status pick")
  case True
  then have "fst (split_show pick) \<noteq> []" "snd (split_show pick) = []"
    by (simp_all add: every_status_iff)
  with True show ?thesis
    by (cases "split_show pick") (simp add: canon_pick_def show_scope_def split_show_FILTER_STATUSES)
next
  case False
  then show ?thesis
    by (simp add: canon_pick_def show_scope_def split_show_concat)
qed

lemma snd_split_show_canon [simp]: "snd (split_show (canon_pick pick)) = snd (split_show pick)"
  by (cases "every_status pick")
    (simp_all add: canon_pick_def split_show_concat split_show_FILTER_STATUSES, simp add: every_status_iff)

lemma offered_canon_pick [simp]:
  "offered_dimensions surface (canon_pick pick) = offered_dimensions surface pick"
  "dates_offered surface (canon_pick pick) = dates_offered surface pick"
  by (simp_all add: offered_dimensions_def dates_offered_def Let_def)

lemma length_split_show:
  assumes "pick_ok pick" "snd (split_show pick) = []"
  shows "fst (split_show pick) = pick"
proof -
  have "is_status v" if "v \<in> set pick" for v
    using assms that by (auto simp: pick_ok_def split_show_def filter_empty_conv is_status_def)
  then show ?thesis by (simp add: split_show_def filter_id_conv)
qed

lemma every_status_canon [simp]:
  assumes "pick_ok pick"
  shows "every_status (canon_pick pick) \<longleftrightarrow> every_status pick"
proof (cases "every_status pick")
  case True
  then show ?thesis
    by (simp add: canon_pick_def every_status_iff split_show_FILTER_STATUSES)
next
  case False
  then show ?thesis
    using length_split_show [OF assms]
    by (auto simp: canon_pick_def every_status_iff split_show_concat)
qed

lemma set_canon_pick:
  assumes "pick_ok pick" "distinct pick"
  shows "set (canon_pick pick) = set pick"
proof (cases "every_status pick")
  case True
  then have "snd (split_show pick) = []" and len: "length pick = length FILTER_STATUSES"
    by (simp_all add: every_status_iff)
  then have "filter is_status pick = pick"
    using length_split_show [OF assms(1)] by (simp add: split_show_def)
  then have "set pick \<subseteq> set FILTER_STATUSES"
    by (metis is_status_def mem_Collect_eq set_filter subsetI)
  moreover have "card (set pick) = card (set FILTER_STATUSES)"
    using len assms(2) by (simp add: distinct_card FILTER_STATUSES_def EVENT_STATUSES_def)
  ultimately have "set pick = set FILTER_STATUSES"
    by (simp add: card_subset_eq)
  with True show ?thesis by (simp add: canon_pick_def)
next
  case False
  with assms(1) show ?thesis
    by (auto simp: canon_pick_def split_show_def pick_ok_def is_status_def)
qed

lemma read_show_pick_write:
  assumes "params_get_all ps ''status'' = []" "params_get_all ps ''type'' = []"
  shows "read_show_pick (append_event_filter_params (append_search_types ps (search_types (f_show f)))
      (if every_status (f_show f) then f\<lparr>f_show := []\<rparr> else f)) = canon_pick (f_show f)"
proof -
  let ?g = "if every_status (f_show f) then f\<lparr>f_show := []\<rparr> else f"
  let ?ps = "append_event_filter_params (append_search_types ps (search_types (f_show f))) ?g"
  have types: "params_get_all ?ps ''type'' = search_types (f_show f)"
    by (simp add: get_all_append_event_other append_search_types_def params_simps assms)
  have status: "params_get_all ?ps ''status'' = filter is_status (f_show ?g)"
    by (simp add: get_all_append_event wire_fields append_search_types_def params_simps assms)
  have kinds: "filter (\<lambda>k. k \<in> set (search_types (f_show f))) SHOW_KINDS = snd (split_show (f_show f))"
    using SHOW_KINDS_not_event
    by (auto simp: search_types_eq split_show_def intro!: filter_cong)
  have named: "EVENT_TYPE \<in> set (search_types (f_show f)) \<longleftrightarrow> fst (split_show (f_show f)) \<noteq> []"
    using SHOW_KINDS_not_event by (auto simp: search_types_eq split_show_def)
  show ?thesis
  proof (cases "every_status (f_show f)")
    case True
    moreover from this have "fst (split_show (f_show f)) \<noteq> []" "snd (split_show (f_show f)) = []"
      by (simp_all add: every_status_iff)
    ultimately show ?thesis
      unfolding read_show_pick_def types status kinds named Let_def by (simp add: canon_pick_def)
  next
    case False
    then show ?thesis
      unfolding read_show_pick_def types status kinds named Let_def
      by (simp add: canon_pick_def split_show_def)
  qed
qed

definition q_params :: "jsstring \<Rightarrow> params" where
  "q_params q = (if q \<noteq> [] then params_set [] ''q'' q else [])"

lemma search_page_params_eq:
  "search_page_params q f = append_event_filter_params
     (append_search_types (q_params q) (search_types (f_show f)))
     (if every_status (f_show f) then f\<lparr>f_show := []\<rparr> else f)"
  by (simp add: search_page_params_def q_params_def every_status_def Let_def)

lemma q_params_facts [simp]:
  "no_wire_name (append_search_types (q_params q) types)"
  "params_get_all (q_params q) ''status'' = []" "params_get_all (q_params q) ''type'' = []"
  by (simp_all add: q_params_def append_search_types_def no_wire_append_all no_wire_set params_simps)

lemma canon_show_any: "(canon (f\<lparr>f_show := p\<rparr>))\<lparr>f_show := r\<rparr> = (canon f)\<lparr>f_show := r\<rparr>"
  by (simp add: canon_def)

lemma search_read_write:
  "search_page_read (search_page_write (q, f)) =
     (q, scope_state SSearch ((canon f)\<lparr>f_show := canon_pick (f_show f)\<rparr>))"
proof -
  have "or_else (params_get (search_page_params q f) ''q'') [] = q"
    by (simp add: search_page_params_eq get_append_event_other append_search_types_def params_simps
        q_params_def or_else_def)
  moreover have "(read_event_filter_params (search_page_params q f))\<lparr>f_show := r\<rparr> = (canon f)\<lparr>f_show := r\<rparr>" for r
    by (simp add: search_page_params_eq read_append_event canon_show_any)
  moreover have "read_show_pick (search_page_params q f) = canon_pick (f_show f)"
    unfolding search_page_params_eq by (rule read_show_pick_write) simp_all
  ultimately show ?thesis
    by (simp add: search_page_read_def search_page_write_def)
qed

lemma canon_guess_Nil [simp]: "canon_guess [] = []"
  by (simp add: canon_guess_def has_coords_filter_def)

lemma canon_author_Nil [simp]: "canon_author [] = []"
  using author_gate_iff [of "[]"] by (auto simp: canon_author_def)

lemma scoped_canon:
  assumes "scoped SSearch f"
  shows "scoped SSearch ((canon f)\<lparr>f_show := canon_pick (f_show f)\<rparr>)"
proof -
  have "canon_pick [] = []"
    by (simp add: canon_pick_def every_status_iff split_show_def)
  then have kept: "keep_if c (canon_pick p) [] = canon_pick (keep_if c p [])"
      "keep_if c (canon_guess g) [] = canon_guess (keep_if c g [])"
      "keep_if c (canon_author a) [] = canon_author (keep_if c a [])"
      "keep_if c (Option.bind b canon_account) None = Option.bind (keep_if c b None) canon_account"
      "keep_if c False False = False" for c p g a b
    by (simp_all add: keep_if_def)
  show ?thesis
    unfolding scoped_def scope_state_eq Let_def
    by (rule filter_state.equality) (simp_all add: canon_def kept scoped_fields [OF assms])
qed

text \<open>The page states a URL can carry whole: scoped, picked from the chips, a nameable approver.\<close>

definition search_page_ok :: "jsstring \<times> filter_state \<Rightarrow> bool" where
  "search_page_ok v \<longleftrightarrow> scoped SSearch (snd v) \<and> pick_ok (f_show (snd v)) \<and> approver_ok (snd v)"

lemma search_read_write_ok:
  assumes "search_page_ok (q, f)"
  shows "search_page_read (search_page_write (q, f)) = (q, (canon f)\<lparr>f_show := canon_pick (f_show f)\<rparr>)"
  using scoped_canon assms by (simp add: search_read_write search_page_ok_def scoped_def)

lemma search_page_params_canon:
  assumes "pick_ok (f_show f)" "approver_ok f"
  shows "search_page_params q ((canon f)\<lparr>f_show := canon_pick (f_show f)\<rparr>) = search_page_params q f"
proof -
  let ?g = "(canon f)\<lparr>f_show := canon_pick (f_show f)\<rparr>"
  have pick: "filter is_status (canon_pick (f_show f)) = filter is_status (f_show f)"
    if "\<not> every_status (f_show f)"
    using that by (simp add: canon_pick_def split_show_def)
  have "event_filter_fields (if every_status (f_show f) then ?g\<lparr>f_show := []\<rparr> else ?g) =
      event_filter_fields (if every_status (f_show f) then f\<lparr>f_show := []\<rparr> else f)"
  proof (rule event_filter_fields_cong)
    fix field :: list_field
    assume "field \<noteq> LLocationGuess"
    then show "list_values (if every_status (f_show f) then ?g\<lparr>f_show := []\<rparr> else ?g) field =
        list_values (if every_status (f_show f) then f\<lparr>f_show := []\<rparr> else f) field"
      by (cases field) (simp_all add: list_values_def canon_def pick)
  qed (simp_all add: canon_def account_key_canon assms)
  with assms show ?thesis
    by (simp add: search_page_params_eq append_event_filter_params_def)
qed

lemma search_write_read_write:
  assumes "search_page_ok v"
  shows "search_page_write (search_page_read (search_page_write v)) = search_page_write v"
proof (cases v)
  case (Pair q f)
  then have "search_page_read (search_page_write v) = (q, (canon f)\<lparr>f_show := canon_pick (f_show f)\<rparr>)"
    using assms search_read_write_ok by simp
  with Pair assms show ?thesis
    by (simp add: search_page_write_def search_page_ok_def search_page_params_canon)
qed

lemma pick_ok_read_show_pick: "pick_ok (read_show_pick ps)"
  by (auto simp: pick_ok_def read_show_pick_def Let_def is_status_def)

lemma approver_ok_scope: "approver_ok f \<Longrightarrow> approver_ok (scope_state surface f)"
  by (auto simp: approver_ok_def scope_state_eq Let_def keep_if_def split: if_splits)

lemma search_page_ok_read: "search_page_ok (search_page_read ps)"
proof -
  have "pick_ok []" by (simp add: pick_ok_def)
  moreover have "approver_ok ((read_event_filter_params ps)\<lparr>f_show := p\<rparr>)" for p
    using approver_ok_read [of ps] by (simp add: approver_ok_def)
  ultimately show ?thesis
    by (simp add: search_page_ok_def search_page_read_def f_show_scope_state approver_ok_scope
        pick_ok_read_show_pick keep_if_def)
qed

section \<open>The requests board's URL\<close>

definition requests_page_ok :: "filter_state \<Rightarrow> bool" where
  "requests_page_ok f \<longleftrightarrow> scoped SRequests f"

lemma offered_requests: "DShow \<notin> set (offered_dimensions SRequests pick)"
    "DFollowing \<notin> set (offered_dimensions SRequests pick)"
    "DApprovedBy \<notin> set (offered_dimensions SRequests pick)"
  by (simp_all add: set_offered_dimensions)

lemma requests_write_read_write:
  assumes "requests_page_ok f"
  shows "requests_page_write (requests_page_read (requests_page_write f)) = requests_page_write f"
proof -
  have f: "f_show f = []" "\<not> f_following f" "f_approved_by f = None"
    using scoped_fields [OF assms [unfolded requests_page_ok_def]]
    by (simp_all add: offered_requests)
  have "scoped SRequests (canon f)"
    using scoped_fields [OF assms [unfolded requests_page_ok_def]] f
    unfolding scoped_def scope_state_eq Let_def
    by (intro filter_state.equality) (simp_all add: canon_def keep_if_def split: if_splits)
  then have "requests_page_read (requests_page_write f) = canon f"
    by (simp add: requests_page_read_def requests_page_write_def read_append_event scoped_def)
  moreover have "(canon f)\<lparr>f_following := False\<rparr> = canon f"
    by (simp add: canon_def)
  moreover have "approver_ok f"
    using f by (simp add: approver_ok_def)
  ultimately show ?thesis
    by (metis append_event_canon requests_page_write_def)
qed

end
