(* ===== verification/Event_Forms.thy ===== *)
theory Event_Forms
  imports Event_History Proof_Html Search_Params Api_Errors
begin

text \<open>
  The writes of \<open>lib/events.ts\<close> and the form behind them (\<open>useEventForm\<close> of
  \<open>components/geolocations/EventFormFields.tsx\<close>): what a form still misses, the multipart body it
  posts, the list paths, the archive import's upload refusals and its polling loop. A file is named
  by the type variable \<open>'f\<close>; the HTML parser is the parameter \<open>to_dom\<close>.
\<close>

section \<open>Missing fields\<close>

datatype missing_key =
    Key_title | Key_coordinates | Key_source_file | Key_source_link | Key_source_kind
  | Key_proof | Key_proof_image | Key_conflict_tag | Key_site_effect

fun FIELD_LABELS :: "missing_key \<Rightarrow> jsstring" where
  "FIELD_LABELS Key_title = ''Title''"
| "FIELD_LABELS Key_coordinates = ''Coordinates''"
| "FIELD_LABELS Key_source_file = ''Source file''"
| "FIELD_LABELS Key_source_link = ''Source URL''"
| "FIELD_LABELS Key_source_kind = ''Source kind''"
| "FIELD_LABELS Key_proof = ''Proof''"
| "FIELD_LABELS Key_proof_image = ''Proof image''"
| "FIELD_LABELS Key_conflict_tag = ''Conflict''"
| "FIELD_LABELS Key_site_effect = ''Effect at a linked site''"

record missing_field =
  mf_key :: missing_key
  mf_label :: jsstring

definition missing_add :: "bool \<Rightarrow> missing_key \<Rightarrow> missing_field list" where
  "missing_add unmet key = (if unmet then [\<lparr>mf_key = key, mf_label = FIELD_LABELS key\<rparr>] else [])"

definition missing_event_request_fields :: "jsstring \<Rightarrow> source_floor \<Rightarrow> missing_field list" where
  "missing_event_request_fields title floor' =
     missing_add (js_trim title = []) Key_title @
     missing_add (\<not> fl_evidence_file floor') Key_source_file @
     missing_add (fl_missing_link floor') Key_source_link @
     missing_add (fl_missing_kind floor') Key_source_kind"

record event_fields_state =
  ef_title :: jsstring
  ef_lat :: jsstring
  ef_lng :: jsstring
  ef_proof :: "jsstring option"
  ef_sources :: source_floor
  ef_has_conflict :: bool
  ef_site_effect_missing :: bool

definition missing_event_fields :: "(jsstring \<Rightarrow> dom list) \<Rightarrow> event_fields_state \<Rightarrow> missing_field list" where
  "missing_event_fields to_dom s =
     (let coords_valid = (case (clean_number (ef_lat s), clean_number (ef_lng s)) of
            (Some la, Some lo) \<Rightarrow> in_bounds la lo | _ \<Rightarrow> False);
          no_proof = (ef_proof s = None \<or> ef_proof s = Some [])
      in missing_event_request_fields (ef_title s) (ef_sources s) @
         (if no_proof then missing_add True Key_proof
          else missing_add (\<not> proof_has_image to_dom (ef_proof s)) Key_proof_image) @
         missing_add (\<not> coords_valid) Key_coordinates @
         missing_add (\<not> ef_has_conflict s) Key_conflict_tag @
         missing_add (ef_site_effect_missing s) Key_site_effect)"

definition missing_summary :: "missing_field list \<Rightarrow> jsstring" where
  "missing_summary missing = nat_text (length missing) @ '' missing: '' @ js_join '', '' (map mf_label missing)"

definition batch_completion_blockers :: "(jsstring \<Rightarrow> dom list) \<Rightarrow> event \<Rightarrow> jsstring list" where
  "batch_completion_blockers to_dom geo =
     (if e_coords geo = None then [FIELD_LABELS Key_coordinates] else []) @
     (if e_proof geo = None \<or> e_proof geo = Some [] \<or> \<not> proof_has_image to_dom (e_proof geo)
      then [FIELD_LABELS Key_proof_image] else []) @
     (if list_ex (\<lambda>s. s_links s = []) (e_sources geo) then [FIELD_LABELS Key_source_link] else []) @
     (if \<not> list_ex (\<lambda>s. is_evidence_level (s_level s) \<and> s_media s \<noteq> None) (e_sources geo)
      then [FIELD_LABELS Key_source_file] else [])"

definition provenance_label :: "bool \<Rightarrow> jsstring" where
  "provenance_label opened_as_request = (if opened_as_request then ''Requested from'' else ''Detected from'')"

section \<open>Paths\<close>

datatype detection_readiness = All_detections | Ready_detections | Incomplete_detections

fun readiness_text :: "detection_readiness \<Rightarrow> jsstring" where
  "readiness_text All_detections = ''all''"
| "readiness_text Ready_detections = ''ready''"
| "readiness_text Incomplete_detections = ''incomplete''"

definition DETECTIONS_PER_PAGE :: nat where
  "DETECTIONS_PER_PAGE = 10"

definition DETECTIONS_REVIEW_QUEUE :: nat where
  "DETECTIONS_REVIEW_QUEUE = 100"

definition detections_path :: "nat \<Rightarrow> nat \<Rightarrow> detection_readiness \<Rightarrow> jsstring" where
  "detections_path page per_page readiness =
     ''/events/detections?page='' @ nat_text page @ ''&per_page='' @ nat_text per_page @ ''&readiness='' @ readiness_text readiness"

definition detections_review_path :: jsstring where
  "detections_review_path = detections_path 1 DETECTIONS_REVIEW_QUEUE All_detections"

record event_list_params =
  el_view :: "jsstring option"
  el_filters :: filter_state
  el_sort :: "jsstring option"
  el_limit :: "nat option"
  el_cursor :: "jsstring option"

text \<open>\<open>if (value) search.set(name, value)\<close>: an absent or empty value sets nothing.\<close>

definition set_truthy :: "params \<Rightarrow> jsstring \<Rightarrow> jsstring option \<Rightarrow> params" where
  "set_truthy ps k v = (case v of Some s \<Rightarrow> if s \<noteq> [] then params_set ps k s else ps | None \<Rightarrow> ps)"

definition event_list_path :: "event_list_params \<Rightarrow> jsstring \<times> params" where
  "event_list_path params =
     (let ps = append_event_filter_params (set_truthy [] ''view'' (el_view params)) (el_filters params);
          ps = set_truthy ps ''sort'' (el_sort params);
          ps = (case el_limit params of Some n \<Rightarrow> params_set ps ''limit'' (nat_text n) | None \<Rightarrow> ps)
      in (''/events'', set_truthy ps ''cursor'' (el_cursor params)))"

section \<open>The write's body\<close>

text \<open>A number as a form posts it: absent, not a number, or a double.\<close>

datatype js_value = Absent | Not_a_number | Number rat

fun js_value_text :: "js_value \<Rightarrow> jsstring" where
  "js_value_text Absent = ''undefined''"
| "js_value_text Not_a_number = ''NaN''"
| "js_value_text (Number x) = js_to_string x"

definition parse_guess_coords :: "jsstring \<Rightarrow> jsstring \<Rightarrow> js_value \<times> js_value" where
  "parse_guess_coords la lo = (case (clean_number la, clean_number lo) of
       (Some x, Some y) \<Rightarrow> (Number x, Number y) | _ \<Rightarrow> (Absent, Absent))"

record 'f event_write =
  ew_title :: jsstring
  ew_lat :: js_value
  ew_lng :: js_value
  ew_sources :: "source_create list"
  ew_date :: "jsstring option"
  ew_time :: "jsstring option"
  ew_proof :: "jsstring option"
  ew_tags :: "jsstring list"
  ew_conflicts :: "jsstring list"
  ew_files :: "'f list"

datatype 'f part = Part_text jsstring | Part_file 'f

type_synonym 'f form_data = "(jsstring \<times> 'f part) list"

definition pair_json :: "coordinate_pair option \<Rightarrow> json" where
  "pair_json p = (case p of None \<Rightarrow> JNull | Some p \<Rightarrow> JObj [(''lat'', JNum (lat p)), (''lng'', JNum (lng p))])"

definition link_json :: "source_create_link \<Rightarrow> json" where
  "link_json l = JObj [(''url'', JStr (cl_url l)), (''posted_at'', json_option (cl_posted_at l)),
     (''snapshot_url'', json_option (cl_snapshot l))]"

text \<open>One source as the write serialises it, its keys in the order the payload names them.\<close>

definition source_create_json :: "source_create \<Rightarrow> json" where
  "source_create_json s = JObj [
     (''id'', json_option (sc_id s)), (''title'', JStr (sc_title s)), (''level'', JStr (level_text (sc_level s))),
     (''kind'', JStr (kind_text (sc_kind s))), (''captured_at'', json_option (sc_captured_at s)),
     (''capture_position'', pair_json (sc_position s)), (''is_graphic'', JBool (sc_graphic s)),
     (''links'', JArr (map link_json (sc_links s))), (''tag_ids'', JArr (map JStr (sc_tags s))),
     (''media_id'', json_option (sc_media_id s)), (''upload_id'', json_option (sc_upload_id s))]"

definition truthy_part :: "jsstring \<Rightarrow> jsstring option \<Rightarrow> 'f form_data" where
  "truthy_part name v = (case v of Some s \<Rightarrow> if s \<noteq> [] then [(name, Part_text s)] else [] | None \<Rightarrow> [])"

definition ids_part :: "jsstring \<Rightarrow> jsstring list \<Rightarrow> 'f form_data" where
  "ids_part name ids = (if ids \<noteq> [] then [(name, Part_text (json_stringify (JArr (map JStr ids))))] else [])"

definition event_form_data :: "'f event_write \<Rightarrow> 'f form_data" where
  "event_form_data input =
     [(''title'', Part_text (ew_title input))] @
     (if ew_lat input \<noteq> Absent \<and> ew_lng input \<noteq> Absent
      then [(''lat'', Part_text (js_value_text (ew_lat input))), (''lng'', Part_text (js_value_text (ew_lng input)))] else []) @
     [(''sources'', Part_text (json_stringify (JArr (map source_create_json (ew_sources input)))))] @
     truthy_part ''occurred_date'' (ew_date input) @ truthy_part ''occurred_time'' (ew_time input) @
     truthy_part ''proof'' (ew_proof input) @
     ids_part ''tag_ids'' (ew_tags input) @ ids_part ''conflict_ids'' (ew_conflicts input) @
     map (\<lambda>f. (''proof_files'', Part_file f)) (ew_files input)"

definition geolocator_invites_part :: "jsstring list \<Rightarrow> 'f form_data" where
  "geolocator_invites_part usernames = (if usernames = [] then [] else
     [(''geolocator_invites'', Part_text (json_stringify (JArr (map (\<lambda>u. JObj [(''username'', JStr u)]) usernames))))])"

text \<open>The three posts: a version, a new event, a new request; each a path and a body.\<close>

definition save_version :: "jsstring \<Rightarrow> 'f event_write \<Rightarrow> jsstring option \<Rightarrow> int \<Rightarrow> jsstring list \<Rightarrow> jsstring \<times> 'f form_data" where
  "save_version eid input note version_no invites =
     (''/events/'' @ eid @ ''/versions'',
      event_form_data input @ truthy_part ''note'' (map_option js_trim note) @
      [(''version_no'', Part_text (int_text version_no))] @ geolocator_invites_part invites)"

definition create_event :: "'f event_write \<Rightarrow> jsstring list \<Rightarrow> jsstring \<times> 'f form_data" where
  "create_event input invites = (''/events'', event_form_data input @ geolocator_invites_part invites)"

definition create_event_request :: "'f event_write \<Rightarrow> jsstring \<times> 'f form_data" where
  "create_event_request input = (''/events/requests'', event_form_data input)"

definition update_event_request :: "jsstring \<Rightarrow> 'f event_write \<Rightarrow> jsstring \<times> 'f form_data" where
  "update_event_request eid input = (''/events/'' @ eid @ ''/request'', event_form_data input)"

section \<open>The form\<close>

record 'f event_form =
  fm_title :: jsstring
  fm_lat :: jsstring
  fm_lng :: jsstring
  fm_sources :: "source_draft list"
  fm_date :: jsstring
  fm_time :: jsstring
  fm_proof :: "jsstring option"
  fm_files :: "'f list"
  fm_tags :: "jsstring list"
  fm_conflicts :: "jsstring list"

text \<open>The editors of a row's sources, the key counter threaded through.\<close>

fun drafts_from :: "(int \<Rightarrow> int) \<Rightarrow> source list \<Rightarrow> nat \<Rightarrow> source_draft list \<times> nat" where
  "drafts_from tz [] c = ([], c)"
| "drafts_from tz (s # ss) c = (case source_draft_from tz s c of (d, c1) \<Rightarrow>
     (case drafts_from tz ss c1 of (ds, c2) \<Rightarrow> (d # ds, c2)))"

definition seed_sources :: "(int \<Rightarrow> int) \<Rightarrow> event option \<Rightarrow> nat \<Rightarrow> source_draft list \<times> nat" where
  "seed_sources tz row c = (case row of
       Some geo \<Rightarrow> if e_sources geo \<noteq> [] then drafts_from tz (e_sources geo) c
         else (case new_source_draft c of (d, c1) \<Rightarrow> ([d], c1))
     | None \<Rightarrow> (case new_source_draft c of (d, c1) \<Rightarrow> ([d], c1)))"

definition seeded_time :: "event option \<Rightarrow> jsstring" where
  "seeded_time row = (case Option.bind row e_time of Some t \<Rightarrow> if t \<noteq> [] then hhmm t else [] | None \<Rightarrow> [])"

definition open_form :: "(int \<Rightarrow> int) \<Rightarrow> event option \<Rightarrow> nat \<Rightarrow> 'f event_form \<times> nat" where
  "open_form tz row c = (case seed_sources tz row c of (drafts, c1) \<Rightarrow>
     (\<lparr>fm_title = (case row of Some geo \<Rightarrow> e_title geo | None \<Rightarrow> []),
       fm_lat = (case Option.bind row e_coords of Some p \<Rightarrow> js_to_string (lat p) | None \<Rightarrow> []),
       fm_lng = (case Option.bind row e_coords of Some p \<Rightarrow> js_to_string (lng p) | None \<Rightarrow> []),
       fm_sources = drafts,
       fm_date = or_else (Option.bind row e_date) [],
       fm_time = seeded_time row,
       fm_proof = Option.bind row e_proof,
       fm_files = [],
       fm_tags = (case row of Some geo \<Rightarrow> map t_id (e_tags geo) | None \<Rightarrow> []),
       fm_conflicts = (case row of Some geo \<Rightarrow> map c_id (e_conflicts geo) | None \<Rightarrow> [])\<rparr>, c1))"

definition request_missing :: "'f event_form \<Rightarrow> missing_field list" where
  "request_missing form = missing_event_request_fields (fm_title form) (source_floor_of (fm_sources form))"

definition publish_missing :: "(jsstring \<Rightarrow> dom list) \<Rightarrow> 'f event_form \<Rightarrow> bool \<Rightarrow> missing_field list" where
  "publish_missing to_dom form site_effect_missing = missing_event_fields to_dom
     \<lparr>ef_title = fm_title form, ef_lat = fm_lat form, ef_lng = fm_lng form, ef_proof = fm_proof form,
      ef_sources = source_floor_of (fm_sources form), ef_has_conflict = (fm_conflicts form \<noteq> []),
      ef_site_effect_missing = site_effect_missing\<rparr>"

definition shared_input :: "(int \<Rightarrow> int) \<Rightarrow> event option \<Rightarrow> 'f event_form \<Rightarrow> 'f event_write" where
  "shared_input tz row form =
     \<lparr>ew_title = js_trim (fm_title form), ew_lat = Absent, ew_lng = Absent,
      ew_sources = map (source_create_payload tz) (fm_sources form),
      ew_date = blank_to_null (fm_date form),
      ew_time = (if row \<noteq> None \<and> fm_time form = seeded_time row then Option.bind row e_time
        else blank_to_null (fm_time form)),
      ew_proof = fm_proof form, ew_tags = fm_tags form, ew_conflicts = fm_conflicts form, ew_files = fm_files form\<rparr>"

definition number_or_nan :: "jsstring \<Rightarrow> js_value" where
  "number_or_nan s = (case clean_number s of Some x \<Rightarrow> Number x | None \<Rightarrow> Not_a_number)"

definition publish_input :: "(int \<Rightarrow> int) \<Rightarrow> event option \<Rightarrow> 'f event_form \<Rightarrow> 'f event_write" where
  "publish_input tz row form =
     (shared_input tz row form)\<lparr>ew_lat := number_or_nan (fm_lat form), ew_lng := number_or_nan (fm_lng form)\<rparr>"

definition request_input :: "(int \<Rightarrow> int) \<Rightarrow> event option \<Rightarrow> 'f event_form \<Rightarrow> 'f event_write" where
  "request_input tz row form = (case parse_guess_coords (fm_lat form) (fm_lng form) of (la, lo) \<Rightarrow>
     (shared_input tz row form)\<lparr>ew_lat := la, ew_lng := lo\<rparr>)"

text \<open>What the edit form compares against the row (\<open>versionState\<close> of \<open>EventEditForm\<close>).\<close>

definition version_state :: "(int \<Rightarrow> int) \<Rightarrow> event \<Rightarrow> 'f event_form \<Rightarrow> version_form" where
  "version_state tz geo form = \<lparr>vf_title = fm_title form, vf_sources_moved = sources_changed tz (e_sources geo) (fm_sources form),
     vf_lat = fm_lat form, vf_lng = fm_lng form, vf_date = fm_date form, vf_time = fm_time form, vf_proof = fm_proof form,
     vf_tags = fm_tags form, vf_conflicts = fm_conflicts form\<rparr>"

section \<open>An untouched form\<close>

text \<open>A row as the server stores it: trimmed title, no blank date or time, doubles for coordinates,
  and at least one source, each as the server keeps it.\<close>

definition stored_event :: "event \<Rightarrow> bool" where
  "stored_event geo \<longleftrightarrow> js_trim (e_title geo) = e_title geo \<and> e_date geo \<noteq> Some [] \<and> e_time geo \<noteq> Some [] \<and>
     (case e_coords geo of None \<Rightarrow> True | Some p \<Rightarrow> is_double (lat p) \<and> is_double (lng p)) \<and>
     e_sources geo \<noteq> [] \<and> list_all stored_source (e_sources geo)"

lemma drafts_from_zip:
  "list_all stored_source ss \<Longrightarrow>
     length (fst (drafts_from tz ss c)) = length ss \<and>
     list_all (\<lambda>(s, d). \<not> draft_changed tz s d) (zip ss (fst (drafts_from tz ss c)))"
proof (induction ss arbitrary: c)
  case (Cons s ss)
  obtain d c1 where d: "source_draft_from tz s c = (d, c1)" by force
  obtain ds c2 where ds: "drafts_from tz ss c1 = (ds, c2)" by force
  from Cons.prems seeded_unchanged [of s tz c] Cons.IH [of c1] show ?case by (simp add: d ds)
qed simp

lemma drafts_unchanged:
  "list_all stored_source ss \<Longrightarrow> \<not> sources_changed tz ss (fst (drafts_from tz ss c))"
  using drafts_from_zip [of ss tz c] by (auto simp: sources_changed_def list_all_iff list_ex_iff)

lemma coords_of_seed:
  assumes "case p of None \<Rightarrow> True | Some p \<Rightarrow> is_double (lat p) \<and> is_double (lng p)"
  shows "coords_of (case p of Some p \<Rightarrow> js_to_string (lat p) | None \<Rightarrow> []) (case p of Some p \<Rightarrow> js_to_string (lng p) | None \<Rightarrow> []) = p"
  using assms by (cases p) (simp_all add: coords_of_def clean_number_to_string, simp add: clean_number_def)

lemma opened_fields:
  assumes "stored_event geo"
  shows "fm_sources (fst (open_form tz (Some geo) c)) = fst (drafts_from tz (e_sources geo) c)"
    "fm_title (fst (open_form tz (Some geo) c)) = e_title geo"
    "coords_of (fm_lat (fst (open_form tz (Some geo) c))) (fm_lng (fst (open_form tz (Some geo) c))) = e_coords geo"
    "blank_to_null (fm_date (fst (open_form tz (Some geo) c))) = e_date geo"
    "fm_time (fst (open_form tz (Some geo) c)) = (case e_time geo of Some t \<Rightarrow> hhmm t | None \<Rightarrow> [])"
    "fm_proof (fst (open_form tz (Some geo) c)) = e_proof geo"
    "fm_tags (fst (open_form tz (Some geo) c)) = map t_id (e_tags geo)"
    "fm_conflicts (fst (open_form tz (Some geo) c)) = map c_id (e_conflicts geo)"
  using assms coords_of_seed [of "e_coords geo"]
  by (auto simp: open_form_def stored_event_def seed_sources_def seeded_time_def blank_to_null_def or_else_def
      split: prod.split option.split)

text \<open>
  C8. Opening the edit form changes nothing: the form of a stored row, untouched, files no version,
  whatever its sources, times and coordinates.
\<close>

theorem untouched_form_files_no_version:
  assumes "stored_event geo"
  shows "\<not> has_version_changes tz geo (version_state tz geo (fst (open_form tz (Some geo) c :: 'f event_form \<times> nat)))"
proof -
  let ?candidate = "candidate_version geo (version_state tz geo (fst (open_form tz (Some geo) c :: 'f event_form \<times> nat)))"
  have "e_title ?candidate = e_title geo" "e_sources ?candidate = e_sources geo" "e_coords ?candidate = e_coords geo"
    "e_date ?candidate = e_date geo" "e_proof ?candidate = e_proof geo"
    "map c_id (e_conflicts ?candidate) = map c_id (e_conflicts geo)" "map t_id (e_tags ?candidate) = map t_id (e_tags geo)"
    using assms by (simp_all add: candidate_version_def version_state_def opened_fields stored_event_def id_conflict_def comp_def)
  moreover have "same_time (e_time ?candidate) (e_time geo)"
    using assms
    by (cases "e_time geo")
      (auto simp: candidate_version_def version_state_def opened_fields same_time_def hhmm_def blank_to_null_def stored_event_def)
  ultimately have "changed_fields tz ?candidate geo = []"
    by (simp add: changed_fields_def source_keys_def archived_pairs_def same_set_iff)
  moreover have "\<not> sources_changed tz (e_sources geo) (fst (drafts_from tz (e_sources geo) c))"
    using assms drafts_unchanged by (simp add: stored_event_def)
  ultimately show ?thesis by (simp add: has_version_changes_def version_state_def opened_fields(1) [OF assms])
qed

text \<open>
  A published row written back untouched keeps every field: the write posts its title, its point
  to the last bit, its date, its time with the seconds the input never showed, its proof, tags and
  conflicts.
\<close>

theorem untouched_form_posts_the_row:
  assumes "stored_event geo" "e_coords geo = Some p"
  shows "\<exists>input. publish_input tz (Some geo) (fst (open_form tz (Some geo) c :: 'f event_form \<times> nat)) = input \<and>
    ew_title input = e_title geo \<and> ew_lat input = Number (lat p) \<and> ew_lng input = Number (lng p) \<and>
    ew_date input = e_date geo \<and> ew_time input = e_time geo \<and> ew_proof input = e_proof geo \<and>
    ew_tags input = map t_id (e_tags geo) \<and> ew_conflicts input = map c_id (e_conflicts geo)"
proof -
  let ?form = "fst (open_form tz (Some geo) c :: 'f event_form \<times> nat)"
  have "number_or_nan (fm_lat ?form) = Number (lat p)" "number_or_nan (fm_lng ?form) = Number (lng p)"
    using assms by (auto simp: open_form_def number_or_nan_def stored_event_def clean_number_to_string split: prod.split)
  moreover have "fm_time ?form = seeded_time (Some geo)" by (simp add: open_form_def split: prod.split)
  ultimately show ?thesis
    using assms by (simp add: publish_input_def shared_input_def opened_fields stored_event_def)
qed

lemma example_stored: "stored_event example_event"
proof -
  have "js_trim ''Strike'' = ''Strike''" by (simp add: js_trim_def js_space_def)
  moreover have "is_double 48" "is_double 37" using is_double_of_int [of 48] is_double_of_int [of 37] by simp_all
  moreover have "stored_source example_source"
    by (simp add: stored_source_def stored_link_ok_def example_source_def js_trim_def js_space_def)
  ultimately show ?thesis by (simp add: stored_event_def example_event_def)
qed

lemma untouched_form_files_no_version_witness:
  "\<not> has_version_changes (\<lambda>x. x) example_event
     (version_state (\<lambda>x. x) example_event (fst (open_form (\<lambda>x. x) (Some example_event) 0 :: unit event_form \<times> nat)))"
  by (rule untouched_form_files_no_version [OF example_stored])

lemma untouched_form_posts_the_row_witness:
  "ew_time (publish_input (\<lambda>x. x) (Some example_event) (fst (open_form (\<lambda>x. x) (Some example_event) 0 :: unit event_form \<times> nat))) =
     Some ''14:05:00''"
proof -
  have "e_coords example_event = Some \<lparr>lat = 48, lng = 37\<rparr>" "e_time example_event = Some ''14:05:00''"
    by (simp_all add: example_event_def)
  with untouched_form_posts_the_row [where 'f = unit, OF example_stored, of "\<lparr>lat = 48, lng = 37\<rparr>" "\<lambda>x. x" 0] show ?thesis by simp
qed

section \<open>The floor\<close>

lemma missing_add_Nil [simp]: "missing_add unmet key = [] \<longleftrightarrow> \<not> unmet"
  by (simp add: missing_add_def)

lemma no_floor_no_links:
  "\<not> fl_missing_link (source_floor_of drafts) \<Longrightarrow> d \<in> set drafts \<Longrightarrow> draft_urls d \<noteq> []"
  by (auto simp: source_floor_of_def list_ex_iff)

lemma posted_links_urls: "map cl_url (sc_links (source_create_payload tz d)) = draft_urls d"
  by (simp add: source_create_payload_def file_reference_def Let_def post_links_urls draft_urls_def)

text \<open>
  No publish leaves the form below the evidence floor: when the form names nothing missing, the
  body holds a title, a point in bounds (never the NaN a bad input would post), a proof with an
  image, a conflict, a direct or indirect source with a file, and for each source a kind and a URL.
\<close>

theorem nothing_missing_meets_floor:
  assumes "publish_missing to_dom form site_effect_missing = []"
  shows "\<exists>input la lo. publish_input tz row form = input \<and> ew_title input \<noteq> [] \<and>
    ew_lat input = Number la \<and> ew_lng input = Number lo \<and> in_bounds la lo \<and>
    proof_has_image to_dom (ew_proof input) \<and> ew_conflicts input \<noteq> [] \<and>
    list_ex (\<lambda>d. is_evidence_level (d_level d) \<and> holds_file d) (fm_sources form) \<and>
    list_all (\<lambda>d. d_kind d \<noteq> None) (fm_sources form) \<and> list_all (\<lambda>s. sc_links s \<noteq> []) (ew_sources input)"
proof -
  note unmet = assms [unfolded publish_missing_def missing_event_fields_def Let_def]
  have request: "js_trim (fm_title form) \<noteq> []" "fl_evidence_file (source_floor_of (fm_sources form))"
    "\<not> fl_missing_link (source_floor_of (fm_sources form))" "\<not> fl_missing_kind (source_floor_of (fm_sources form))"
    using unmet by (simp_all add: missing_event_request_fields_def)
  have rest: "fm_conflicts form \<noteq> []" "proof_has_image to_dom (fm_proof form)"
    using unmet by (simp_all split: if_splits)
  obtain la lo where "clean_number (fm_lat form) = Some la" "clean_number (fm_lng form) = Some lo" "in_bounds la lo"
    using unmet by (auto split: option.splits)
  moreover have "list_all (\<lambda>s. sc_links s \<noteq> []) (map (source_create_payload tz) (fm_sources form))"
    using no_floor_no_links [OF request(3)] posted_links_urls [of tz] by (auto simp: list_all_iff) (metis list.simps(8))
  ultimately show ?thesis
    using request rest
    by (simp add: publish_input_def shared_input_def number_or_nan_def source_floor_of_def list_all_iff list_ex_iff)
qed

definition example_form :: "unit event_form" where
  "example_form = \<lparr>fm_title = ''Strike'', fm_lat = ''48'', fm_lng = ''37'',
     fm_sources = [(fst (new_source_draft 0))\<lparr>d_kind := Some Drone, d_links := [blank_link\<lparr>ld_url := ''https://t.me/a/1''\<rparr>],
       d_file := Some (Stored \<lparr>m_id = ''m1'', m_kind = Video, m_filename = None, m_role = Source_role, m_sha256 = [], m_url = ''/m1''\<rparr>)\<rparr>],
     fm_date = [], fm_time = [], fm_proof = Some ''<img src=/p1>'', fm_files = [], fm_tags = [], fm_conflicts = [''c1'']\<rparr>"

lemma example_form_complete:
  "publish_missing (\<lambda>_. [DElem ''img'' [(''src'', ''/p1'')] []]) example_form False = []"
proof -
  have "nat_text 48 = ''48''" "nat_text 37 = ''37''" by code_simp+
  then have "js_number ''48'' = Some 48" "js_number ''37'' = Some 37"
    using js_number_nat_text [of 48] js_number_nat_text [of 37] by simp_all
  then have "clean_number ''48'' = Some 48" "clean_number ''37'' = Some 37"
    by (simp_all add: clean_number_def js_trim_def js_space_def)
  moreover have "draft_urls (hd (fm_sources example_form)) \<noteq> []"
    by (simp add: example_form_def new_source_draft_def next_key_def blank_link_def draft_urls_def js_trim_def js_space_def uniq_def)
  ultimately show ?thesis
    by (simp add: publish_missing_def missing_event_fields_def missing_event_request_fields_def source_floor_of_def
        example_form_def in_bounds_def coordinate_bounds proof_has_image_def proof_image_srcs_def new_source_draft_def
        next_key_def holds_file_def js_trim_def js_space_def)
qed

lemma nothing_missing_meets_floor_witness:
  "\<exists>la lo. ew_lat (publish_input (\<lambda>x. x) None example_form) = Number la \<and>
     ew_lng (publish_input (\<lambda>x. x) None example_form) = Number lo \<and> in_bounds la lo"
  using nothing_missing_meets_floor [OF example_form_complete, of "\<lambda>x. x" None] by auto

end
