(* ===== verification/Js_Float.thy ===== *)
theory Js_Float
  imports Js_Number
begin

text \<open>
  The number type of JavaScript with its \<open>NaN\<close> and its infinities, for the code that computes on
  what a map library reports: every operation is the exact one followed by the rounding of
  \<open>Js_Number\<close>, a result past the largest double is an infinity, and a comparison with \<open>NaN\<close> is
  false. \<open>-0\<close> is \<open>0\<close>.
\<close>

datatype js_float = Nan | Neg_inf | Pos_inf | Fin rat

definition f_round :: "rat \<Rightarrow> js_float" where
  "f_round x = (case round_double x of Some r \<Rightarrow> Fin r | None \<Rightarrow> if x < 0 then Neg_inf else Pos_inf)"

fun f_neg :: "js_float \<Rightarrow> js_float" where
  "f_neg Nan = Nan"
| "f_neg Neg_inf = Pos_inf"
| "f_neg Pos_inf = Neg_inf"
| "f_neg (Fin x) = Fin (- x)"

fun f_add :: "js_float \<Rightarrow> js_float \<Rightarrow> js_float" where
  "f_add (Fin x) (Fin y) = f_round (x + y)"
| "f_add Nan _ = Nan"
| "f_add _ Nan = Nan"
| "f_add Pos_inf Neg_inf = Nan"
| "f_add Neg_inf Pos_inf = Nan"
| "f_add Pos_inf _ = Pos_inf"
| "f_add Neg_inf _ = Neg_inf"
| "f_add _ Pos_inf = Pos_inf"
| "f_add _ Neg_inf = Neg_inf"

definition f_sub :: "js_float \<Rightarrow> js_float \<Rightarrow> js_float" where
  "f_sub x y = f_add x (f_neg y)"

text \<open>The sign of an infinity is \<open>1\<close> or \<open>-1\<close> here.\<close>

definition inf_signed :: "rat \<Rightarrow> js_float" where
  "inf_signed s = (if s = 0 then Nan else if 0 < s then Pos_inf else Neg_inf)"

fun f_mul :: "js_float \<Rightarrow> js_float \<Rightarrow> js_float" where
  "f_mul (Fin x) (Fin y) = f_round (x * y)"
| "f_mul Nan _ = Nan"
| "f_mul _ Nan = Nan"
| "f_mul Pos_inf (Fin y) = inf_signed y"
| "f_mul Neg_inf (Fin y) = inf_signed (- y)"
| "f_mul (Fin x) Pos_inf = inf_signed x"
| "f_mul (Fin x) Neg_inf = inf_signed (- x)"
| "f_mul Pos_inf Pos_inf = Pos_inf"
| "f_mul Neg_inf Neg_inf = Pos_inf"
| "f_mul Pos_inf Neg_inf = Neg_inf"
| "f_mul Neg_inf Pos_inf = Neg_inf"

text \<open>Division by a zero takes the zero as positive; the code divides by such a zero nowhere.\<close>

fun f_div :: "js_float \<Rightarrow> js_float \<Rightarrow> js_float" where
  "f_div (Fin x) (Fin y) = (if y = 0 then inf_signed x else f_round (x / y))"
| "f_div Nan _ = Nan"
| "f_div _ Nan = Nan"
| "f_div Pos_inf (Fin y) = (if y < 0 then Neg_inf else Pos_inf)"
| "f_div Neg_inf (Fin y) = (if y < 0 then Pos_inf else Neg_inf)"
| "f_div (Fin x) _ = Fin 0"
| "f_div _ _ = Nan"

fun f_le :: "js_float \<Rightarrow> js_float \<Rightarrow> bool" where
  "f_le (Fin x) (Fin y) = (x \<le> y)"
| "f_le Nan _ = False"
| "f_le _ Nan = False"
| "f_le Neg_inf _ = True"
| "f_le _ Pos_inf = True"
| "f_le _ _ = False"

fun f_less :: "js_float \<Rightarrow> js_float \<Rightarrow> bool" where
  "f_less Nan _ = False"
| "f_less _ Nan = False"
| "f_less x y = (\<not> f_le y x)"

fun f_finite :: "js_float \<Rightarrow> bool" where
  "f_finite (Fin _) = True"
| "f_finite _ = False"

text \<open>\<open>Math.min\<close>, \<open>Math.max\<close>, \<open>Math.floor\<close>, \<open>Math.ceil\<close>, \<open>Math.abs\<close>, and \<open>Math.round\<close>, which takes a half
  upward. The integers these give from a double are doubles, so no rounding is lost.\<close>

definition f_min :: "js_float \<Rightarrow> js_float \<Rightarrow> js_float" where
  "f_min x y = (if x = Nan \<or> y = Nan then Nan else if f_le x y then x else y)"

definition f_max :: "js_float \<Rightarrow> js_float \<Rightarrow> js_float" where
  "f_max x y = (if x = Nan \<or> y = Nan then Nan else if f_le x y then y else x)"

fun f_map_int :: "(rat \<Rightarrow> int) \<Rightarrow> js_float \<Rightarrow> js_float" where
  "f_map_int g (Fin x) = f_round (of_int (g x))"
| "f_map_int g x = x"

definition f_floor :: "js_float \<Rightarrow> js_float" where
  "f_floor = f_map_int floor"

definition f_ceil :: "js_float \<Rightarrow> js_float" where
  "f_ceil = f_map_int ceiling"

definition f_nearest :: "js_float \<Rightarrow> js_float" where
  "f_nearest = f_map_int (\<lambda>x. \<lfloor>x + 1 / 2\<rfloor>)"

fun f_abs :: "js_float \<Rightarrow> js_float" where
  "f_abs Nan = Nan"
| "f_abs (Fin x) = Fin \<bar>x\<bar>"
| "f_abs _ = Pos_inf"

text \<open>\<open>Math.PI\<close>\<close>

definition MATH_PI :: js_float where
  "MATH_PI = Fin (884279719003555 / 281474976710656)"

text \<open>\<open>String(x)\<close>\<close>

fun f_text :: "js_float \<Rightarrow> jsstring" where
  "f_text Nan = ''NaN''"
| "f_text Pos_inf = ''Infinity''"
| "f_text Neg_inf = ''-Infinity''"
| "f_text (Fin x) = js_to_string x"

text \<open>A value a program can hold: the finite ones are doubles.\<close>

fun f_ok :: "js_float \<Rightarrow> bool" where
  "f_ok (Fin x) = is_double x"
| "f_ok _ = True"

lemma f_round_ok [simp]: "f_ok (f_round x)"
  by (auto simp: f_round_def round_double_is_double split: option.splits)

lemma f_round_not_Nan [simp]: "f_round x \<noteq> Nan"
  by (auto simp: f_round_def split: option.splits)

lemma f_round_double [simp]: "is_double x \<Longrightarrow> f_round x = Fin x"
  by (simp add: f_round_def is_double_def)

lemma f_neg_ok [simp]: "f_ok (f_neg x) \<longleftrightarrow> f_ok x"
  by (cases x) simp_all

lemma inf_signed_ok [simp]: "f_ok (inf_signed s)"
  by (simp add: inf_signed_def)

lemma f_add_ok [simp]: "f_ok x \<Longrightarrow> f_ok y \<Longrightarrow> f_ok (f_add x y)"
  by (cases x; cases y) simp_all

lemma f_sub_ok [simp]: "f_ok x \<Longrightarrow> f_ok y \<Longrightarrow> f_ok (f_sub x y)"
  by (simp add: f_sub_def)

lemma f_mul_ok [simp]: "f_ok (f_mul x y)"
  by (cases x; cases y) simp_all

lemma is_double_0 [simp]: "is_double 0"
  by (simp add: is_double_def)

lemma f_div_ok [simp]: "f_ok (f_div x y)"
  by (cases x; cases y) simp_all

lemma f_min_ok [simp]: "f_ok x \<Longrightarrow> f_ok y \<Longrightarrow> f_ok (f_min x y)"
  by (simp add: f_min_def)

lemma f_max_ok [simp]: "f_ok x \<Longrightarrow> f_ok y \<Longrightarrow> f_ok (f_max x y)"
  by (simp add: f_max_def)

lemma f_map_int_ok [simp]: "f_ok x \<Longrightarrow> f_ok (f_map_int g x)"
  by (cases x) simp_all

lemma f_le_refl [simp]: "x \<noteq> Nan \<Longrightarrow> f_le x x"
  by (cases x) simp_all

lemma f_le_inf [simp]: "f_le Neg_inf x \<longleftrightarrow> x \<noteq> Nan" "f_le x Pos_inf \<longleftrightarrow> x \<noteq> Nan"
  by (cases x; simp)+

lemma f_le_trans [trans]: "f_le x y \<Longrightarrow> f_le y z \<Longrightarrow> f_le x z"
  by (cases x; cases y; cases z) auto

lemma f_le_antisym: "f_le x y \<Longrightarrow> f_le y x \<Longrightarrow> x = y"
  by (cases x; cases y) auto

lemma f_le_not_Nan: "f_le x y \<Longrightarrow> x \<noteq> Nan \<and> y \<noteq> Nan"
  by (cases x; cases y) auto

lemma f_le_total: "x \<noteq> Nan \<Longrightarrow> y \<noteq> Nan \<Longrightarrow> f_le x y \<or> f_le y x"
  by (cases x; cases y) auto

lemma f_less_iff: "f_less x y \<longleftrightarrow> x \<noteq> Nan \<and> y \<noteq> Nan \<and> \<not> f_le y x"
  by (cases x; cases y) auto

lemma f_less_Fin [simp]: "f_less (Fin x) (Fin y) \<longleftrightarrow> x < y"
  by auto

section \<open>Rounding keeps the order of any two numbers\<close>

definition nearest_double :: "rat \<Rightarrow> rat" where
  "nearest_double x = (if x = 0 then 0 else of_int (round_even (x / ulp x)) * ulp x)"

lemma round_double_rounded: "round_double x = (if \<bar>nearest_double x\<bar> < pow2 1024 then Some (nearest_double x) else None)"
  by (simp add: round_double_def nearest_double_def ulp_def Let_def)

lemma nearest_double_minus: "nearest_double (- x) = - nearest_double x"
  by (simp add: nearest_double_def ulp_def ulp_exponent_def round_even_minus)

lemma nearest_double_sign: "0 \<le> x \<Longrightarrow> 0 \<le> nearest_double x"
  using round_at_least_multiple [of 0 "ulp x" x] by (simp add: nearest_double_def)

lemma nearest_double_mono_pos:
  assumes "0 < x" "x \<le> y"
  shows "nearest_double x \<le> nearest_double y"
proof (cases "ulp_exponent x = ulp_exponent y")
  case True
  then have "ulp x = ulp y" by (simp add: ulp_def)
  moreover have "(of_int (round_even (x / ulp y)) :: rat) \<le> of_int (round_even (y / ulp y))"
    unfolding of_int_le_iff using assms by (intro round_even_mono divide_right_mono) simp_all
  ultimately show ?thesis using assms by (simp add: nearest_double_def mult_right_mono)
next
  case False
  define e where "e = exponent_of y"
  have y: "0 < y" using assms by simp
  have ex: "exponent_of x \<le> e" unfolding e_def by (rule exponent_of_mono [OF assms])
  with False assms y have ue: "ulp_exponent y = e - 52" and ux: "ulp_exponent x \<le> e - 52" and lt: "exponent_of x + 1 \<le> e"
    by (auto simp: ulp_exponent_def e_def max_def split: if_splits)
  have "x \<le> pow2 e" using exponent_of_bounds(2) [OF assms(1)] pow2_mono [OF lt] by linarith
  moreover have "pow2 e = of_int (2 ^ nat (e - ulp_exponent x)) * ulp x"
    using pow2_add [of "e - ulp_exponent x" "ulp_exponent x"] ux by (simp add: ulp_def pow2_def [of "e - ulp_exponent x"])
  ultimately have "nearest_double x \<le> pow2 e"
    using round_at_most_multiple [of x _ "ulp x"] assms by (simp add: nearest_double_def)
  moreover have "pow2 e = of_int (2 ^ 52) * ulp y"
    using pow2_add [of 52 "e - 52"] by (simp add: ulp_def ue pow2_def [of 52])
  then have "pow2 e \<le> nearest_double y"
    using round_at_least_multiple [of "2 ^ 52" "ulp y" y] exponent_of_bounds(1) [OF y] y by (simp add: nearest_double_def e_def)
  ultimately show ?thesis by linarith
qed

lemma nearest_double_mono: "x \<le> y \<Longrightarrow> nearest_double x \<le> nearest_double y"
proof -
  assume le: "x \<le> y"
  consider "0 < x" | "x \<le> 0" "0 \<le> y" | "y < 0" by linarith
  then show ?thesis
  proof cases
    case 2
    then show ?thesis using nearest_double_sign [of y] nearest_double_sign [of "- x"] by (simp add: nearest_double_minus)
  next
    case 3
    then show ?thesis using nearest_double_mono_pos [of "- y" "- x"] le by (simp add: nearest_double_minus)
  qed (use le nearest_double_mono_pos in simp)
qed

theorem f_round_mono: "x \<le> y \<Longrightarrow> f_le (f_round x) (f_round y)"
proof -
  assume le: "x \<le> y"
  have s: "0 \<le> nearest_double z" if "\<not> z < 0" for z using nearest_double_sign that by simp
  have n: "nearest_double z \<le> 0" if "z < 0" for z using nearest_double_sign [of "- z"] that by (simp add: nearest_double_minus)
  show ?thesis
    using nearest_double_mono [OF le] le s [of x] s [of y] n [of x] n [of y]
    by (auto simp: f_round_def round_double_rounded abs_if split: if_splits)
qed

lemma f_round_le: "is_double d \<Longrightarrow> x \<le> d \<Longrightarrow> f_le (f_round x) (Fin d)"
  using f_round_mono [of x d] by simp

lemma f_round_ge: "is_double d \<Longrightarrow> d \<le> x \<Longrightarrow> f_le (Fin d) (f_round x)"
  using f_round_mono [of d x] by simp

lemma f_add_mono: "f_le x y \<Longrightarrow> f_le (f_add x (Fin c)) (f_add y (Fin c))"
  by (cases x; cases y) (auto intro: f_round_mono)

lemma f_sub_mono: "f_le x y \<Longrightarrow> f_le (f_sub x (Fin c)) (f_sub y (Fin c))"
  by (simp add: f_sub_def f_add_mono)

lemma f_min_le: "x \<noteq> Nan \<Longrightarrow> y \<noteq> Nan \<Longrightarrow> f_le (f_min x y) x \<and> f_le (f_min x y) y"
  using f_le_total by (auto simp: f_min_def)

lemma f_max_ge: "x \<noteq> Nan \<Longrightarrow> y \<noteq> Nan \<Longrightarrow> f_le x (f_max x y) \<and> f_le y (f_max x y)"
  using f_le_total by (auto simp: f_max_def)

lemma f_between_finite: "f_le (Fin a) x \<Longrightarrow> f_le x (Fin b) \<Longrightarrow> \<exists>r. x = Fin r \<and> a \<le> r \<and> r \<le> b"
  by (cases x) auto

text \<open>Whole numbers up to \<open>2 ^ 53\<close> are doubles, which the simplifier decides on numerals.\<close>

lemma is_double_numeral [simp]:
  "(numeral w :: int) \<le> 2 ^ 53 \<Longrightarrow> is_double (numeral w)" "is_double 1" "is_double (- 1)"
  "(numeral w :: int) \<le> 2 ^ 53 \<Longrightarrow> is_double (- numeral w)"
  using is_double_of_int [of "numeral w"] is_double_of_int [of 1] by simp_all

section \<open>The text of a number\<close>

lemma number_text_no_comma: "is_double x \<Longrightarrow> CHR '','' \<notin> set (js_to_string x)"
  using js_to_string_chars [of x] by (auto simp: number_char_def is_digit_def)

lemma f_text_no_comma: "f_ok x \<Longrightarrow> CHR '','' \<notin> set (f_text x)"
  by (cases x) (simp_all add: number_text_no_comma)

lemma number_text_hd:
  assumes "is_double r"
  shows "js_to_string r \<noteq> CHR ''N'' # w" "js_to_string r \<noteq> CHR ''I'' # w" "js_to_string r \<noteq> CHR ''-'' # CHR ''I'' # w"
  using js_to_string_chars [OF assms] by (auto simp: number_char_def is_digit_def)

lemma f_text_inject: "f_ok x \<Longrightarrow> f_ok y \<Longrightarrow> f_text x = f_text y \<Longrightarrow> x = y"
proof (cases "f_finite x \<and> f_finite y")
  case True
  assume "f_ok x" "f_ok y" "f_text x = f_text y"
  with True show ?thesis by (cases x; cases y) (simp_all, metis js_number_to_string option.inject)
next
  case False
  assume "f_ok x" "f_ok y" "f_text x = f_text y"
  with False show ?thesis
    by (cases x; cases y) (simp_all add: number_text_hd number_text_hd [THEN not_sym])
qed

end
