(* ===== verification/Viewport.thy ===== *)
theory Viewport
  imports Js_Float Coordinates
begin

text \<open>
  \<open>lib/viewport.ts\<close>: the viewport a map library reports, brought into the ranges the point
  endpoint accepts, padded, compared with what was fetched, and written as the \<open>bbox\<close> parameter.
  The edges are numbers that may be \<open>NaN\<close> or infinite (\<open>Js_Float\<close>).
\<close>

record map_bounds =
  south :: js_float
  west :: js_float
  north :: js_float
  east :: js_float

definition WORLD_BOUNDS :: map_bounds where
  "WORLD_BOUNDS = \<lparr>south = Fin LAT_MIN, west = Fin LNG_MIN, north = Fin LAT_MAX, east = Fin LNG_MAX\<rparr>"

definition VIEWPORT_PADDING :: rat where
  "VIEWPORT_PADDING = 1 / 4"

definition BBOX_PRECISION :: nat where
  "BBOX_PRECISION = 4"

definition clamp :: "js_float \<Rightarrow> rat \<Rightarrow> rat \<Rightarrow> js_float" where
  "clamp value mn mx = f_min (f_max value (Fin mn)) (Fin mx)"

definition normalizeLongitudes :: "js_float \<Rightarrow> js_float \<Rightarrow> js_float \<times> js_float" where
  "normalizeLongitudes w e =
     (if \<not> f_finite w \<or> \<not> f_finite e \<or> f_less e w \<or> f_le (Fin 360) (f_sub e w) then (Fin LNG_MIN, Fin LNG_MAX)
      else (let turns = f_nearest (f_div (f_div (f_add w e) (Fin 2)) (Fin 360));
          w' = f_sub w (f_mul turns (Fin 360)); e' = f_sub e (f_mul turns (Fin 360))
        in if f_less w' (Fin LNG_MIN) \<or> f_less (Fin LNG_MAX) e' then (Fin LNG_MIN, Fin LNG_MAX) else (w', e')))"

definition normalizeLatitudes :: "js_float \<Rightarrow> js_float \<Rightarrow> js_float \<times> js_float" where
  "normalizeLatitudes s n =
     (if \<not> f_finite s \<or> \<not> f_finite n then (Fin LAT_MIN, Fin LAT_MAX)
      else (clamp (f_min s n) LAT_MIN LAT_MAX, clamp (f_max s n) LAT_MIN LAT_MAX))"

definition normalizeBounds :: "map_bounds \<Rightarrow> map_bounds" where
  "normalizeBounds b = (let (w, e) = normalizeLongitudes (west b) (east b);
       (s, n) = normalizeLatitudes (south b) (north b)
     in \<lparr>south = s, west = w, north = n, east = e\<rparr>)"

definition padBounds :: "map_bounds \<Rightarrow> map_bounds" where
  "padBounds b = (let base = normalizeBounds b;
       latMargin = f_mul (f_sub (north base) (south base)) (Fin VIEWPORT_PADDING);
       lngMargin = f_mul (f_sub (east base) (west base)) (Fin VIEWPORT_PADDING)
     in \<lparr>south = clamp (f_sub (south base) latMargin) LAT_MIN LAT_MAX,
         west = clamp (f_sub (west base) lngMargin) LNG_MIN LNG_MAX,
         north = clamp (f_add (north base) latMargin) LAT_MIN LAT_MAX,
         east = clamp (f_add (east base) lngMargin) LNG_MIN LNG_MAX\<rparr>)"

definition boundsContain :: "map_bounds \<Rightarrow> map_bounds \<Rightarrow> bool" where
  "boundsContain outer inner = (let box = normalizeBounds inner
     in f_le (south outer) (south box) \<and> f_le (north box) (north outer) \<and>
        f_le (west outer) (west box) \<and> f_le (east box) (east outer))"

definition bbox_scale :: js_float where
  "bbox_scale = Fin (10 ^ BBOX_PRECISION)"

definition bbox_down :: "js_float \<Rightarrow> js_float" where
  "bbox_down v = f_div (f_floor (f_mul v bbox_scale)) bbox_scale"

definition bbox_up :: "js_float \<Rightarrow> js_float" where
  "bbox_up v = f_div (f_ceil (f_mul v bbox_scale)) bbox_scale"

text \<open>The four numbers \<open>toBboxParam\<close> joins, and the text.\<close>

definition bbox_numbers :: "map_bounds \<Rightarrow> js_float list" where
  "bbox_numbers b = (let box = normalizeBounds b in
     [clamp (bbox_down (south box)) LAT_MIN LAT_MAX, clamp (bbox_down (west box)) LNG_MIN LNG_MAX,
      clamp (bbox_up (north box)) LAT_MIN LAT_MAX, clamp (bbox_up (east box)) LNG_MIN LNG_MAX])"

definition toBboxParam :: "map_bounds \<Rightarrow> jsstring" where
  "toBboxParam b = js_join '','' (map f_text (bbox_numbers b))"

section \<open>A box of the planet\<close>

text \<open>What \<open>parse_bbox\<close> accepts: finite doubles in range, south before north, west before east.\<close>

definition planet_box :: "map_bounds \<Rightarrow> bool" where
  "planet_box b \<longleftrightarrow> (\<exists>s w n e. b = \<lparr>south = Fin s, west = Fin w, north = Fin n, east = Fin e\<rparr> \<and>
     is_double s \<and> is_double w \<and> is_double n \<and> is_double e \<and>
     LAT_MIN \<le> s \<and> s \<le> n \<and> n \<le> LAT_MAX \<and> LNG_MIN \<le> w \<and> w \<le> e \<and> e \<le> LNG_MAX)"

definition bounds_ok :: "map_bounds \<Rightarrow> bool" where
  "bounds_ok b \<longleftrightarrow> f_ok (south b) \<and> f_ok (west b) \<and> f_ok (north b) \<and> f_ok (east b)"

lemma bound_doubles [simp]: "is_double LAT_MIN" "is_double LAT_MAX" "is_double LNG_MIN" "is_double LNG_MAX"
  using is_double_of_int [of "-90"] is_double_of_int [of 90] is_double_of_int [of "-180"] is_double_of_int [of 180]
  by (simp_all add: coordinate_bounds)

lemma bound_order [simp]: "LAT_MIN \<le> LAT_MAX" "LNG_MIN \<le> LNG_MAX"
  by (simp_all add: coordinate_bounds)

lemma clamp_Fin: "x \<noteq> Nan \<Longrightarrow> mn \<le> mx \<Longrightarrow> \<exists>r. clamp x mn mx = Fin r \<and> mn \<le> r \<and> r \<le> mx"
  by (cases x) (auto simp: clamp_def f_min_def f_max_def)

lemma clamp_mono: "f_le x y \<Longrightarrow> mn \<le> mx \<Longrightarrow> f_le (clamp x mn mx) (clamp y mn mx)"
  by (cases x; cases y) (auto simp: clamp_def f_min_def f_max_def)

lemma clamp_id: "mn \<le> r \<Longrightarrow> r \<le> mx \<Longrightarrow> clamp (Fin r) mn mx = Fin r"
  by (auto simp: clamp_def f_min_def f_max_def)

lemma clamp_ok [simp]: "f_ok x \<Longrightarrow> is_double mn \<Longrightarrow> is_double mx \<Longrightarrow> f_ok (clamp x mn mx)"
  by (simp add: clamp_def)

lemma clamp_pair:
  assumes "f_le x y" "f_ok x" "f_ok y" "mn \<le> mx" "is_double mn" "is_double mx"
  shows "\<exists>a b. clamp x mn mx = Fin a \<and> clamp y mn mx = Fin b \<and> mn \<le> a \<and> a \<le> b \<and> b \<le> mx \<and> is_double a \<and> is_double b"
proof -
  have n: "x \<noteq> Nan" "y \<noteq> Nan" using f_le_not_Nan [OF assms(1)] by auto
  obtain a where a: "clamp x mn mx = Fin a" "mn \<le> a" using clamp_Fin [OF n(1) assms(4)] by blast
  obtain b where b: "clamp y mn mx = Fin b" "b \<le> mx" using clamp_Fin [OF n(2) assms(4)] by blast
  have "f_ok (clamp x mn mx)" "f_ok (clamp y mn mx)" using assms by simp_all
  moreover have "f_le (clamp x mn mx) (clamp y mn mx)" by (rule clamp_mono [OF assms(1,4)])
  ultimately show ?thesis using a b by auto
qed

lemma normalize_latitudes_ok:
  assumes "f_ok s" "f_ok n"
  shows "\<exists>a b. normalizeLatitudes s n = (Fin a, Fin b) \<and> LAT_MIN \<le> a \<and> a \<le> b \<and> b \<le> LAT_MAX \<and> is_double a \<and> is_double b"
proof (cases "f_finite s \<and> f_finite n")
  case True
  then obtain a b where ab: "s = Fin a" "n = Fin b" by (cases s; cases n) auto
  have "f_le (f_min s n) (f_max s n)" by (simp add: ab f_min_def f_max_def)
  from clamp_pair [OF this, of LAT_MIN LAT_MAX] assms show ?thesis
    using True by (auto simp: normalizeLatitudes_def)
qed (auto simp: normalizeLatitudes_def)

lemma f_mul_360: "f_mul (f_round x) (Fin 360) \<noteq> Nan"
  by (cases "f_round x") (auto simp: inf_signed_def)

lemma normalize_longitudes_ok:
  assumes "f_ok w" "f_ok e"
  shows "\<exists>a b. normalizeLongitudes w e = (Fin a, Fin b) \<and> LNG_MIN \<le> a \<and> a \<le> b \<and> b \<le> LNG_MAX \<and> is_double a \<and> is_double b"
proof -
  define t where "t = f_mul (f_nearest (f_div (f_div (f_add w e) (Fin 2)) (Fin 360))) (Fin 360)"
  show ?thesis
  proof (cases "normalizeLongitudes w e = (Fin LNG_MIN, Fin LNG_MAX)")
    case False
    then have fin: "f_finite w" "f_finite e" "\<not> f_less e w"
      and inside: "\<not> f_less (f_sub w t) (Fin LNG_MIN)" "\<not> f_less (Fin LNG_MAX) (f_sub e t)"
      and eq: "normalizeLongitudes w e = (f_sub w t, f_sub e t)"
      by (auto simp: normalizeLongitudes_def Let_def t_def split: if_splits)
    obtain a b where ab: "w = Fin a" "e = Fin b" "a \<le> b" using fin by (cases w; cases e) auto
    have "f_div (f_div (f_add w e) (Fin 2)) (Fin 360) \<noteq> Nan"
      by (cases "f_round (a + b)"; cases "f_div (f_round (a + b)) (Fin 2)") (auto simp: ab)
    then have tn: "t \<noteq> Nan"
      by (cases "f_div (f_div (f_add w e) (Fin 2)) (Fin 360)") (auto simp: t_def f_nearest_def inf_signed_def f_mul_360)
    show ?thesis
    proof (cases t)
      case (Fin c)
      have le: "f_le (f_sub w t) (f_sub e t)" using f_sub_mono [of w e c] ab by (simp add: Fin)
      then have "f_sub w t \<noteq> Nan" "f_sub e t \<noteq> Nan" using f_le_not_Nan by blast+
      with inside have lo: "f_le (Fin LNG_MIN) (f_sub w t)" and hi: "f_le (f_sub e t) (Fin LNG_MAX)"
        by (auto simp: f_less_iff)
      have "f_ok t" by (simp add: t_def)
      then have "f_ok (f_sub w t)" "f_ok (f_sub e t)" using assms by simp_all
      then show ?thesis
        using f_between_finite [OF lo f_le_trans [OF le hi]] f_between_finite [OF f_le_trans [OF lo le] hi] le eq by auto
    qed (use tn inside ab in \<open>auto simp: f_sub_def\<close>)
  qed auto
qed

text \<open>
  Whatever the map library reports (no size yet, a globe, a viewport past the antimeridian), the
  normalised box lies on the planet with its edges in order.
\<close>

theorem normalized_box_is_on_the_planet:
  "bounds_ok b \<Longrightarrow> planet_box (normalizeBounds b)"
  using normalize_latitudes_ok [of "south b" "north b"] normalize_longitudes_ok [of "west b" "east b"]
  by (auto simp: bounds_ok_def planet_box_def normalizeBounds_def)

text \<open>
  The padded box that is fetched always covers the viewport it was padded from, so a fetch
  answers the view that asked for it.
\<close>

theorem padded_box_contains_the_view:
  assumes "bounds_ok b"
  shows "planet_box (padBounds b) \<and> boundsContain (padBounds b) b"
proof -
  obtain s w n e where box: "normalizeBounds b = \<lparr>south = Fin s, west = Fin w, north = Fin n, east = Fin e\<rparr>"
    and d: "is_double s" "is_double w" "is_double n" "is_double e"
    and o: "LAT_MIN \<le> s" "s \<le> n" "n \<le> LAT_MAX" "LNG_MIN \<le> w" "w \<le> e" "e \<le> LNG_MAX"
    using normalized_box_is_on_the_planet [OF assms] unfolding planet_box_def by blast
  have side: "\<exists>a b. clamp (f_sub (Fin x) m) mn mx = Fin a \<and> clamp (f_add (Fin y) m) mn mx = Fin b \<and>
      mn \<le> a \<and> a \<le> x \<and> y \<le> b \<and> b \<le> mx \<and> is_double a \<and> is_double b"
    if xy: "is_double x" "is_double y" "x \<le> y" "mn \<le> x" "y \<le> mx" "is_double mn" "is_double mx"
      and m: "m = f_mul (f_sub (Fin y) (Fin x)) (Fin VIEWPORT_PADDING)" for x y mn mx m
  proof -
    have z: "is_double (0 :: rat)" by simp
    have "f_le (Fin 0) m"
    proof -
      have "f_le (Fin 0) (f_round (y - x))" using xy by (intro f_round_ge) simp_all
      then show ?thesis
        by (cases "f_round (y - x)") (auto simp: m f_sub_def VIEWPORT_PADDING_def inf_signed_def intro: f_round_ge)
    qed
    moreover have "f_ok m" by (simp add: m)
    ultimately have lo: "f_le (f_sub (Fin x) m) (Fin x)" and hi: "f_le (Fin y) (f_add (Fin y) m)"
      and ok: "f_ok (f_sub (Fin x) m)" "f_ok (f_add (Fin y) m)"
      using xy by (cases m; auto simp: f_sub_def intro: f_round_le f_round_ge)+
    have "f_le (clamp (f_sub (Fin x) m) mn mx) (Fin x)" "f_le (Fin y) (clamp (f_add (Fin y) m) mn mx)"
      using clamp_mono [OF lo, of mn mx] clamp_mono [OF hi, of mn mx] xy by (simp_all add: clamp_id)
    moreover obtain a where "clamp (f_sub (Fin x) m) mn mx = Fin a" "mn \<le> a"
      using clamp_Fin [of "f_sub (Fin x) m" mn mx] f_le_not_Nan [OF lo] xy by auto
    moreover obtain b where "clamp (f_add (Fin y) m) mn mx = Fin b" "b \<le> mx"
      using clamp_Fin [of "f_add (Fin y) m" mn mx] f_le_not_Nan [OF hi] xy by auto
    moreover have "f_ok (clamp (f_sub (Fin x) m) mn mx)" "f_ok (clamp (f_add (Fin y) m) mn mx)"
      using ok xy by simp_all
    ultimately show ?thesis by auto
  qed
  obtain s' n' where lat: "clamp (f_sub (Fin s) (f_mul (f_sub (Fin n) (Fin s)) (Fin VIEWPORT_PADDING))) LAT_MIN LAT_MAX = Fin s'"
      "clamp (f_add (Fin n) (f_mul (f_sub (Fin n) (Fin s)) (Fin VIEWPORT_PADDING))) LAT_MIN LAT_MAX = Fin n'"
      "LAT_MIN \<le> s'" "s' \<le> s" "n \<le> n'" "n' \<le> LAT_MAX" "is_double s'" "is_double n'"
    using side [OF d(1) d(3) o(2) o(1) o(3) _ _ refl] by auto
  obtain w' e' where lng: "clamp (f_sub (Fin w) (f_mul (f_sub (Fin e) (Fin w)) (Fin VIEWPORT_PADDING))) LNG_MIN LNG_MAX = Fin w'"
      "clamp (f_add (Fin e) (f_mul (f_sub (Fin e) (Fin w)) (Fin VIEWPORT_PADDING))) LNG_MIN LNG_MAX = Fin e'"
      "LNG_MIN \<le> w'" "w' \<le> w" "e \<le> e'" "e' \<le> LNG_MAX" "is_double w'" "is_double e'"
    using side [OF d(2) d(4) o(5) o(4) o(6) _ _ refl] by auto
  have "padBounds b = \<lparr>south = Fin s', west = Fin w', north = Fin n', east = Fin e'\<rparr>"
    using lat lng by (simp add: padBounds_def box Let_def)
  then show ?thesis using lat lng o by (simp add: planet_box_def boundsContain_def box Let_def)
qed

section \<open>The parameter\<close>

lemma round_error_bound:
  assumes "\<bar>x\<bar> \<le> pow2 m" "-1022 \<le> m" "m < 1024"
  obtains r where "f_round x = Fin r" "is_double r" "\<bar>r - x\<bar> \<le> pow2 (m - 53)" "\<bar>r\<bar> \<le> pow2 m"
proof -
  have p: "is_double (pow2 m)" using assms(2,3) by (intro is_double_multiple [of _ 1 m]) simp_all
  then have "f_le (f_round x) (Fin (pow2 m))" "f_le (Fin (- pow2 m)) (f_round x)"
    using assms(1) by (auto intro: f_round_le f_round_ge)
  then obtain r where r: "f_round x = Fin r" "- pow2 m \<le> r" "r \<le> pow2 m" using f_between_finite by blast
  have "\<bar>r - x\<bar> \<le> pow2 (m - 53)"
  proof (cases "x = 0")
    case False
    have rd: "round_double x = Some r" using r(1) by (auto simp: f_round_def split: option.splits if_splits)
    have "exponent_of \<bar>x\<bar> \<le> m"
    proof (rule ccontr)
      assume "\<not> exponent_of \<bar>x\<bar> \<le> m"
      then have "pow2 m < pow2 (exponent_of \<bar>x\<bar>)" by simp
      with exponent_of_bounds [of "\<bar>x\<bar>"] assms False show False by simp
    qed
    with assms(2) have "ulp_exponent x - 1 \<le> m - 53" by (simp add: ulp_exponent_def)
    then show ?thesis using round_double_error [OF rd] pow2_mono by (meson order_trans)
  qed (use r in auto)
  moreover have "is_double r" using f_round_ok [of x] r(1) by simp
  ultimately show ?thesis using that r by (simp add: abs_le_iff)
qed

text \<open>How far an edge moves: at most one grid step outward, and inward by no more than rounding.\<close>

definition BBOX_SLACK :: rat where
  "BBOX_SLACK = 1 / 10 ^ 12"

lemma bbox_down_bounds:
  assumes "\<bar>v\<bar> \<le> 180"
  obtains r where "bbox_down (Fin v) = Fin r" "is_double r" "r \<le> v + BBOX_SLACK" "v - 1 / 10 ^ 4 - BBOX_SLACK \<le> r"
proof -
  have "\<bar>v * 10 ^ 4\<bar> \<le> pow2 21" using assms by (simp add: abs_mult pow2_def)
  from round_error_bound [OF this] obtain p where p: "f_round (v * 10 ^ 4) = Fin p" "\<bar>p - v * 10 ^ 4\<bar> \<le> pow2 (-32)"
    "\<bar>p\<bar> \<le> pow2 21" by auto
  have "p \<le> 2 ^ 21" "- (2 ^ 21) \<le> p" using p(3) by (simp_all add: pow2_def abs_le_iff)
  then have "\<lfloor>p\<rfloor> \<le> 2097152" "- 2097152 \<le> \<lfloor>p\<rfloor>" by (simp_all add: floor_le_iff le_floor_iff)
  then have "\<bar>\<lfloor>p\<rfloor>\<bar> \<le> 2097152" by linarith
  then have "\<bar>\<lfloor>p\<rfloor>\<bar> \<le> 2 ^ 53" by (rule order_trans) simp
  then have dk: "is_double (of_int \<lfloor>p\<rfloor>)" by (rule is_double_of_int)
  have fp: "of_int \<lfloor>p\<rfloor> \<le> p" "p - 1 \<le> of_int \<lfloor>p\<rfloor>" by linarith+
  have pe: "p \<le> v * 10 ^ 4 + pow2 (-32)" "v * 10 ^ 4 - pow2 (-32) \<le> p" using p(2) by (simp_all add: abs_le_iff)
  define q :: rat where "q = of_int \<lfloor>p\<rfloor> / 10 ^ 4"
  define d :: rat where "d = pow2 (-32) / 10 ^ 4"
  have q: "q \<le> v + d" "v - 1 / 10 ^ 4 - d \<le> q"
    using divide_right_mono [OF order_trans [OF fp(1) pe(1)], of "10 ^ 4"]
      divide_right_mono [OF order_trans [OF diff_right_mono [OF pe(2), of 1] fp(2)], of "10 ^ 4"]
    by (simp_all add: q_def d_def add_divide_distrib diff_divide_distrib)
  have d: "d + pow2 (-45) \<le> BBOX_SLACK" "d \<le> 1"
    by (simp_all add: d_def pow2_def BBOX_SLACK_def)
  have "v \<le> 180" "- 180 \<le> v" using assms by (simp_all add: abs_le_iff)
  with q d(2) have "q \<le> 256" "- 256 \<le> q" by simp_all
  then have "\<bar>q\<bar> \<le> pow2 8" by (simp add: pow2_def)
  then obtain r where r: "f_round q = Fin r" "is_double r" "\<bar>r - q\<bar> \<le> pow2 (-45)"
    using round_error_bound [of q 8] by auto
  have re: "r \<le> q + pow2 (-45)" "q - pow2 (-45) \<le> r" using r(3) by (simp_all add: abs_le_iff)
  have "bbox_down (Fin v) = Fin r"
    using p(1) r(1) dk by (simp add: bbox_down_def bbox_scale_def BBOX_PRECISION_def f_floor_def q_def)
  moreover have "r \<le> v + BBOX_SLACK" "v - 1 / 10 ^ 4 - BBOX_SLACK \<le> r" using re q d by linarith+
  ultimately show ?thesis using that r(2) by blast
qed

lemma bbox_up_down: "bbox_up (Fin v) = f_neg (bbox_down (Fin (- v)))"
proof -
  have neg: "f_round (- x) = f_neg (f_round x)" for x
    by (cases "x = 0") (auto simp: f_round_def round_double_minus split: option.splits)
  have inf: "f_neg (f_div y (Fin z)) = f_div (f_neg y) (Fin z)" if "0 < z" for y z
    using that neg by (cases y) (auto simp flip: neg)
  show ?thesis
    using neg [of "v * 10 ^ 4"] neg [of "of_int (floor x)" for x]
    by (cases "f_round (v * 10 ^ 4)")
      (auto simp: bbox_up_def bbox_down_def bbox_scale_def BBOX_PRECISION_def f_floor_def f_ceil_def inf ceiling_def
        neg)
qed

lemma bbox_up_bounds:
  assumes "\<bar>v\<bar> \<le> 180"
  obtains r where "bbox_up (Fin v) = Fin r" "is_double r" "v - BBOX_SLACK \<le> r" "r \<le> v + 1 / 10 ^ 4 + BBOX_SLACK"
proof -
  obtain r where "bbox_down (Fin (- v)) = Fin r" "is_double r" "r \<le> - v + BBOX_SLACK" "- v - 1 / 10 ^ 4 - BBOX_SLACK \<le> r"
    using bbox_down_bounds [of "- v"] assms by auto
  then show ?thesis using that [of "- r"] by (simp add: bbox_up_down)
qed

lemma bbox_down_up:
  assumes "x \<le> y" "\<bar>x\<bar> \<le> 180" "\<bar>y\<bar> \<le> 180"
  shows "f_le (bbox_down (Fin x)) (bbox_up (Fin y))"
proof -
  have fin: "\<exists>p. f_round (z * 10 ^ 4) = Fin p" if "\<bar>z\<bar> \<le> 180" for z
  proof -
    have "\<bar>z * 10 ^ 4\<bar> \<le> pow2 21" using that by (simp add: abs_mult pow2_def)
    from round_error_bound [OF this] show ?thesis by auto
  qed
  obtain p q where p: "f_round (x * 10 ^ 4) = Fin p" and q: "f_round (y * 10 ^ 4) = Fin q"
    using fin assms by blast
  have "f_le (f_round (x * 10 ^ 4)) (f_round (y * 10 ^ 4))" using assms(1) by (intro f_round_mono) simp
  then have "p \<le> q" by (simp only: p q f_le.simps)
  then have "(of_int \<lfloor>p\<rfloor> :: rat) \<le> of_int \<lceil>q\<rceil>" by linarith
  then have "f_le (f_round (of_int \<lfloor>p\<rfloor>)) (f_round (of_int \<lceil>q\<rceil>))" by (rule f_round_mono)
  then have "f_le (f_div (f_round (of_int \<lfloor>p\<rfloor>)) (Fin (10 ^ 4))) (f_div (f_round (of_int \<lceil>q\<rceil>)) (Fin (10 ^ 4)))"
    by (cases "f_round (of_int \<lfloor>p\<rfloor>)"; cases "f_round (of_int \<lceil>q\<rceil>)") (auto intro: f_round_mono divide_right_mono)
  then show ?thesis
    using p q by (simp add: bbox_down_def bbox_up_def bbox_scale_def BBOX_PRECISION_def f_floor_def f_ceil_def)
qed

text \<open>
  The request for a viewport sends four doubles the endpoint accepts, in range and in order,
  and the box they span is the viewport's, one ten-thousandth of a degree wider at most and no
  narrower than rounding error.
\<close>

definition covers_within :: "rat \<Rightarrow> rat \<Rightarrow> map_bounds \<Rightarrow> map_bounds \<Rightarrow> bool" where
  "covers_within slack over box b \<longleftrightarrow> (\<exists>s w n e s' w' n' e'.
     box = \<lparr>south = Fin s, west = Fin w, north = Fin n, east = Fin e\<rparr> \<and>
     b = \<lparr>south = Fin s', west = Fin w', north = Fin n', east = Fin e'\<rparr> \<and>
     s - over - slack \<le> s' \<and> s' \<le> s + slack \<and> w - over - slack \<le> w' \<and> w' \<le> w + slack \<and>
     n - slack \<le> n' \<and> n' \<le> n + over + slack \<and> e - slack \<le> e' \<and> e' \<le> e + over + slack)"

fun box_of_numbers :: "js_float list \<Rightarrow> map_bounds" where
  "box_of_numbers [s, w, n, e] = \<lparr>south = s, west = w, north = n, east = e\<rparr>"
| "box_of_numbers _ = WORLD_BOUNDS"

lemma clamp_near:
  assumes "clamp (Fin r) mn mx = Fin r'" "mn \<le> x" "x \<le> mx" "x - a \<le> r" "r \<le> x + b" "0 \<le> a" "0 \<le> b"
  shows "x - a \<le> r'" "r' \<le> x + b"
  using assms by (auto simp: clamp_def f_min_def f_max_def split: if_splits)

theorem bbox_covers_the_view:
  assumes "bounds_ok b"
  shows "planet_box (box_of_numbers (bbox_numbers b))"
    and "covers_within BBOX_SLACK (1 / 10 ^ 4) (normalizeBounds b) (box_of_numbers (bbox_numbers b))"
proof -
  obtain s w n e where box: "normalizeBounds b = \<lparr>south = Fin s, west = Fin w, north = Fin n, east = Fin e\<rparr>"
    and o: "LAT_MIN \<le> s" "s \<le> n" "n \<le> LAT_MAX" "LNG_MIN \<le> w" "w \<le> e" "e \<le> LNG_MAX"
    using normalized_box_is_on_the_planet [OF assms] unfolding planet_box_def by blast
  have pair: "\<exists>a b. clamp (bbox_down (Fin x)) mn mx = Fin a \<and> clamp (bbox_up (Fin y)) mn mx = Fin b \<and>
      mn \<le> a \<and> a \<le> b \<and> b \<le> mx \<and> is_double a \<and> is_double b \<and>
      x - 1 / 10 ^ 4 - BBOX_SLACK \<le> a \<and> a \<le> x + BBOX_SLACK \<and>
      y - BBOX_SLACK \<le> b \<and> b \<le> y + 1 / 10 ^ 4 + BBOX_SLACK"
    if xy: "mn \<le> x" "x \<le> y" "y \<le> mx" and m: "-180 \<le> mn" "mx \<le> 180" "is_double mn" "is_double mx" for x y mn mx
  proof -
    have ax: "\<bar>x\<bar> \<le> 180" "\<bar>y\<bar> \<le> 180" using xy m by linarith+
    have z: "0 \<le> BBOX_SLACK" by (simp add: BBOX_SLACK_def)
    obtain r where r: "bbox_down (Fin x) = Fin r" "is_double r" "r \<le> x + BBOX_SLACK" "x - 1 / 10 ^ 4 - BBOX_SLACK \<le> r"
      using bbox_down_bounds [OF ax(1)] by blast
    obtain q where q: "bbox_up (Fin y) = Fin q" "is_double q" "y - BBOX_SLACK \<le> q" "q \<le> y + 1 / 10 ^ 4 + BBOX_SLACK"
      using bbox_up_bounds [OF ax(2)] by blast
    have "f_le (Fin r) (Fin q)" using bbox_down_up [OF xy(2) ax] by (simp add: r q)
    from clamp_pair [OF this, of mn mx] r q xy m obtain a b where
      ab: "clamp (Fin r) mn mx = Fin a" "clamp (Fin q) mn mx = Fin b" "mn \<le> a" "a \<le> b" "b \<le> mx" "is_double a" "is_double b"
      by auto
    have "x - (1 / 10 ^ 4 + BBOX_SLACK) \<le> a" "a \<le> x + BBOX_SLACK"
      using clamp_near [OF ab(1), of x "1 / 10 ^ 4 + BBOX_SLACK" BBOX_SLACK] r z xy by auto
    moreover have "y - BBOX_SLACK \<le> b" "b \<le> y + (1 / 10 ^ 4 + BBOX_SLACK)"
      using clamp_near [OF ab(2), of y BBOX_SLACK "1 / 10 ^ 4 + BBOX_SLACK"] q z xy by auto
    ultimately show ?thesis using ab r q by (auto simp: algebra_simps)
  qed
  have m: "-180 \<le> LAT_MIN" "LAT_MAX \<le> 180" "-180 \<le> LNG_MIN" "LNG_MAX \<le> 180" by (simp_all add: coordinate_bounds)
  obtain a c where lat: "clamp (bbox_down (Fin s)) LAT_MIN LAT_MAX = Fin a" "clamp (bbox_up (Fin n)) LAT_MIN LAT_MAX = Fin c"
    "LAT_MIN \<le> a" "a \<le> c" "c \<le> LAT_MAX" "is_double a" "is_double c"
    "s - 1 / 10 ^ 4 - BBOX_SLACK \<le> a" "a \<le> s + BBOX_SLACK" "n - BBOX_SLACK \<le> c" "c \<le> n + 1 / 10 ^ 4 + BBOX_SLACK"
    using pair [OF o(1-3) m(1,2) bound_doubles(1,2)] by blast
  obtain d f where lng: "clamp (bbox_down (Fin w)) LNG_MIN LNG_MAX = Fin d" "clamp (bbox_up (Fin e)) LNG_MIN LNG_MAX = Fin f"
    "LNG_MIN \<le> d" "d \<le> f" "f \<le> LNG_MAX" "is_double d" "is_double f"
    "w - 1 / 10 ^ 4 - BBOX_SLACK \<le> d" "d \<le> w + BBOX_SLACK" "e - BBOX_SLACK \<le> f" "f \<le> e + 1 / 10 ^ 4 + BBOX_SLACK"
    using pair [OF o(4-6) m(3,4) bound_doubles(3,4)] by blast
  have eq: "box_of_numbers (bbox_numbers b) = \<lparr>south = Fin a, west = Fin d, north = Fin c, east = Fin f\<rparr>"
    using lat(1,2) lng(1,2) by (simp add: bbox_numbers_def box Let_def)
  show "planet_box (box_of_numbers (bbox_numbers b))"
    using lat lng by (simp add: eq planet_box_def)
  show "covers_within BBOX_SLACK (1 / 10 ^ 4) (normalizeBounds b) (box_of_numbers (bbox_numbers b))"
    using lat lng by (simp add: eq covers_within_def box)
qed

text \<open>\<open>Edges round outward, so the box never shrinks\<close> holds up to that error only: the product
  with 10000 can round up to the next grid line.\<close>

lemma exponent_unique: "pow2 k \<le> x \<Longrightarrow> x < pow2 (k + 1) \<Longrightarrow> exponent_of x = k"
proof -
  assume x: "pow2 k \<le> x" "x < pow2 (k + 1)"
  then have "0 < x" using pow2_pos(1) [of k] by linarith
  from exponent_of_bounds [OF this] x have "pow2 (exponent_of x) < pow2 (k + 1)" "pow2 k < pow2 (exponent_of x + 1)" by linarith+
  then show ?thesis by simp
qed

lemma f_round_at:
  assumes "pow2 k \<le> \<bar>x\<bar>" "\<bar>x\<bar> < pow2 (k + 1)" "-1022 \<le> k" "k < 1023"
  shows "f_round x = Fin (of_int (round_even (x / pow2 (k - 52))) * pow2 (k - 52))"
proof -
  have e: "ulp_exponent x = k - 52" using exponent_unique [OF assms(1,2)] assms(3) by (simp add: ulp_exponent_def)
  have "\<bar>x\<bar> \<le> pow2 (k + 1)" using assms(2) by simp
  from round_error_bound [OF this] assms obtain r where r: "f_round x = Fin r" by auto
  then have "round_double x = Some r" by (auto simp: f_round_def split: option.splits if_splits)
  moreover have "x \<noteq> 0" using assms(1) pow2_pos(1) [of k] by (metis abs_zero linorder_not_le)
  ultimately have "r = of_int (round_even (x / ulp x)) * ulp x" by (rule round_double_some)
  with r show ?thesis by (simp add: ulp_def e)
qed

definition shrinking_edge :: rat where
  "shrinking_edge = - 8301034833169299 / 9223372036854775808"

lemma bbox_can_shrink:
  "is_double shrinking_edge \<and> bbox_down (Fin shrinking_edge) = Fin (- 4150517416584649 / 4611686018427387904) \<and>
   shrinking_edge < - 4150517416584649 / 4611686018427387904"
proof (intro conjI)
  show "is_double shrinking_edge"
    by (rule is_double_multiple [of _ "- 8301034833169299" "-63"]) (simp_all add: shrinking_edge_def pow2_def)
  have "\<lfloor>5188146770730811875 / 1024 :: rat\<rfloor> = 5066549580791808" "\<lfloor>5188146770730811392 / 625 :: rat\<rfloor> = 8301034833169298"
    by (rule floor_unique; simp)+
  note floors = this
  have "f_round (shrinking_edge * 10 ^ 4) = Fin (- 9)"
    by (subst f_round_at [of 3]) (simp_all add: shrinking_edge_def pow2_def round_even_minus, simp add: round_even_def Let_def floors)
  moreover have "f_round (- 9) = Fin (- 9)" using is_double_of_int [of 9] by simp
  moreover have "f_round (- 9 / 10 ^ 4) = Fin (- 4150517416584649 / 4611686018427387904)"
    by (subst f_round_at [of "-11"]) (simp_all add: pow2_def round_even_minus, simp add: round_even_def Let_def floors)
  ultimately show "bbox_down (Fin shrinking_edge) = Fin (- 4150517416584649 / 4611686018427387904)"
    by (simp add: bbox_down_def bbox_scale_def BBOX_PRECISION_def f_floor_def)
qed (simp add: shrinking_edge_def)

section \<open>Reading the parameter back\<close>

text \<open>\<open>text.split(sep)\<close> on one character.\<close>

fun split_on :: "char \<Rightarrow> jsstring \<Rightarrow> jsstring list" where
  "split_on d [] = [[]]"
| "split_on d (c # cs) = (if c = d then [] # split_on d cs
     else case split_on d cs of w # ws \<Rightarrow> (c # w) # ws | [] \<Rightarrow> [[c]])"

lemma split_on_no: "d \<notin> set w \<Longrightarrow> split_on d w = [w]"
  by (induction w) auto

lemma split_on_append: "d \<notin> set w \<Longrightarrow> split_on d (w @ d # r) = w # split_on d r"
  by (induction w) auto

lemma split_on_join: "ws \<noteq> [] \<Longrightarrow> \<forall>w \<in> set ws. d \<notin> set w \<Longrightarrow> split_on d (js_join [d] ws) = ws"
proof (induction ws rule: induct_list012)
  case (3 x y zs)
  then show ?case using split_on_append [of d x "js_join [d] (y # zs)"] by simp
qed (simp_all add: split_on_no)

text \<open>What the endpoint makes of the text: four numbers in the order south, west, north, east.\<close>

definition read_bbox :: "jsstring \<Rightarrow> map_bounds option" where
  "read_bbox s = (case map js_number (split_on CHR '','' s) of
       [Some a, Some b, Some c, Some d] \<Rightarrow> Some \<lparr>south = Fin a, west = Fin b, north = Fin c, east = Fin d\<rparr>
     | _ \<Rightarrow> None)"

section \<open>The viewport that was reported\<close>

text \<open>
  What the box of a request owes the reported viewport, said without the code's own normalisation. Every latitude of
  the planet between the reported ones is in the box, all of them where one is no number. Every longitude from the
  reported west to the reported east is in the box after some whole turns; so is every longitude there is where an
  edge is no number or the east lies before the west.
\<close>

definition reported_latitude :: "map_bounds \<Rightarrow> rat \<Rightarrow> bool" where
  "reported_latitude b y \<longleftrightarrow> -90 \<le> y \<and> y \<le> 90 \<and>
     (\<forall>s n. south b = Fin s \<longrightarrow> north b = Fin n \<longrightarrow> min s n \<le> y \<and> y \<le> max s n)"

definition reported_longitude :: "map_bounds \<Rightarrow> rat \<Rightarrow> bool" where
  "reported_longitude b x \<longleftrightarrow> (\<forall>w e. west b = Fin w \<longrightarrow> east b = Fin e \<longrightarrow> w \<le> e \<longrightarrow> w \<le> x \<and> x \<le> e)"

definition covers_view :: "rat \<Rightarrow> map_bounds \<Rightarrow> map_bounds \<Rightarrow> bool" where
  "covers_view slack b box \<longleftrightarrow> (\<exists>s w n e. box = \<lparr>south = Fin s, west = Fin w, north = Fin n, east = Fin e\<rparr> \<and>
     (\<forall>y. reported_latitude b y \<longrightarrow> s - slack \<le> y \<and> y \<le> n + slack) \<and>
     (\<forall>x. reported_longitude b x \<longrightarrow> (\<exists>k. w - slack \<le> x - 360 * of_int k \<and> x - 360 * of_int k \<le> e + slack)))"

text \<open>How much wider it may be: where the reported latitudes are on the planet, and the reported longitudes are on it
  after \<open>k\<close> whole turns, a millionth of a degree inside the antimeridian, each side is \<open>over\<close> further out at most.\<close>

definition fits_view :: "rat \<Rightarrow> map_bounds \<Rightarrow> map_bounds \<Rightarrow> bool" where
  "fits_view over b box \<longleftrightarrow> (\<exists>s w n e. box = \<lparr>south = Fin s, west = Fin w, north = Fin n, east = Fin e\<rparr> \<and>
     (\<forall>s' n'. south b = Fin s' \<longrightarrow> north b = Fin n' \<longrightarrow> -90 \<le> s' \<longrightarrow> s' \<le> n' \<longrightarrow> n' \<le> 90 \<longrightarrow> s' - over \<le> s \<and> n \<le> n' + over) \<and>
     (\<forall>w' e' k. west b = Fin w' \<longrightarrow> east b = Fin e' \<longrightarrow> w' \<le> e' \<longrightarrow>
        -180 + 1 / 10 ^ 6 \<le> w' - 360 * of_int k \<longrightarrow> e' - 360 * of_int k \<le> 180 - 1 / 10 ^ 6 \<longrightarrow>
        w' - 360 * of_int k - over \<le> w \<and> e \<le> e' - 360 * of_int k + over))"

lemma fits_longitudes:
  assumes "fits_view over b \<lparr>south = Fin s, west = Fin w, north = Fin n, east = Fin e\<rparr>"
    "west b = Fin w'" "east b = Fin e'" "w' \<le> e'"
    "-180 + 1 / 10 ^ 6 \<le> w' - 360 * of_int k" "e' - 360 * of_int k \<le> 180 - 1 / 10 ^ 6"
  shows "w' - 360 * of_int k - over \<le> w \<and> e \<le> e' - 360 * of_int k + over"
proof -
  from assms(1) have "\<forall>w' e' k. west b = Fin w' \<longrightarrow> east b = Fin e' \<longrightarrow> w' \<le> e' \<longrightarrow>
        -180 + 1 / 10 ^ 6 \<le> w' - 360 * of_int k \<longrightarrow> e' - 360 * of_int k \<le> 180 - 1 / 10 ^ 6 \<longrightarrow>
        w' - 360 * of_int k - over \<le> w \<and> e \<le> e' - 360 * of_int k + over"
    unfolding fits_view_def map_bounds.ext_inject js_float.inject by metis
  with assms(2-) show ?thesis by blast
qed

text \<open>Past a million degrees, some thousands of turns, the rounding of the shift is not bounded here.\<close>

definition near_view :: "map_bounds \<Rightarrow> bool" where
  "near_view b \<longleftrightarrow> (\<forall>x. west b = Fin x \<or> east b = Fin x \<longrightarrow> \<bar>x\<bar> \<le> 10 ^ 6)"

lemma pow2_numerals: "pow2 20 = 1048576" "pow2 21 = 2097152" "pow2 12 = 4096" "pow2 8 = 256"
  "pow2 (-32) = 1 / 4294967296" "pow2 (-33) = 1 / 8589934592" "pow2 (-41) = 1 / 2199023255552" "pow2 (-45) = 1 / 35184372088832"
  by (simp_all add: pow2_def)

lemma millionth: "(1 :: rat) / 10 ^ 6 = 1 / 1000000"
  by simp

lemma turns_counted:
  assumes "\<bar>a\<bar> \<le> 10 ^ 6" "\<bar>b\<bar> \<le> 10 ^ 6"
  obtains k q where
    "f_mul (f_nearest (f_div (f_div (f_add (Fin a) (Fin b)) (Fin 2)) (Fin 360))) (Fin 360) = Fin (360 * of_int k)"
    "k = \<lfloor>q + 1 / 2\<rfloor>" "\<bar>720 * q - (a + b)\<bar> \<le> 1 / 10 ^ 6"
proof -
  have "\<bar>a + b\<bar> \<le> pow2 21" using assms by (simp add: pow2_numerals)
  from round_error_bound [OF this] obtain p where
    p: "f_round (a + b) = Fin p" "\<bar>p - (a + b)\<bar> \<le> pow2 (-32)" "\<bar>p\<bar> \<le> pow2 21" by auto
  then have "\<bar>p / 2\<bar> \<le> pow2 20" by (simp add: pow2_numerals)
  from round_error_bound [OF this] obtain m where
    m: "f_round (p / 2) = Fin m" "\<bar>m - p / 2\<bar> \<le> pow2 (-33)" "\<bar>m\<bar> \<le> pow2 20" by auto
  then have "\<bar>m / 360\<bar> \<le> pow2 12" by (simp add: pow2_numerals)
  from round_error_bound [OF this] obtain q where
    q: "f_round (m / 360) = Fin q" "\<bar>q - m / 360\<bar> \<le> pow2 (-41)" "\<bar>q\<bar> \<le> pow2 12" by auto
  define k where "k = \<lfloor>q + 1 / 2\<rfloor>"
  have k: "\<bar>k\<bar> \<le> 4097" using q(3) unfolding k_def pow2_numerals by linarith
  then have "is_double (of_int k)" "is_double (of_int (360 * k))" by (intro is_double_of_int; simp)+
  then have "f_mul (f_nearest (f_div (f_div (f_add (Fin a) (Fin b)) (Fin 2)) (Fin 360))) (Fin 360) = Fin (360 * of_int k)"
    using p(1) m(1) q(1) by (simp add: f_nearest_def k_def [symmetric] mult.commute)
  moreover have "\<bar>720 * q - (a + b)\<bar> \<le> 1 / 10 ^ 6"
  proof -
    have "720 * q - (a + b) = 720 * (q - m / 360) + 2 * (m - p / 2) + (p - (a + b))" by simp
    then show ?thesis using p(2) m(2) q(2) unfolding pow2_numerals abs_le_iff millionth by linarith
  qed
  ultimately show ?thesis using that k_def by blast
qed

lemma shift_error:
  assumes "f_round x = Fin r" "\<bar>r\<bar> \<le> 180"
  shows "\<bar>r - x\<bar> \<le> pow2 (-45)"
proof -
  have d: "is_double 256" by simp
  have "\<bar>x\<bar> \<le> pow2 8"
  proof (rule ccontr)
    assume "\<not> \<bar>x\<bar> \<le> pow2 8"
    then consider "256 \<le> x" | "x \<le> - 256" unfolding pow2_numerals by linarith
    then show False
      using f_round_ge [of 256 x] f_round_le [of "- 256" x] assms by cases auto
  qed
  from round_error_bound [OF this] show ?thesis using assms(1) by auto
qed

lemma normal_longitudes_shift:
  assumes "is_double a" "is_double b" "a \<le> b" "\<bar>a\<bar> \<le> 10 ^ 6" "\<bar>b\<bar> \<le> 10 ^ 6"
  shows "normalizeLongitudes (Fin a) (Fin b) = (Fin LNG_MIN, Fin LNG_MAX) \<or>
    (\<exists>k w e. normalizeLongitudes (Fin a) (Fin b) = (Fin w, Fin e) \<and>
       \<bar>w - (a - 360 * of_int k)\<bar> \<le> pow2 (-45) \<and> \<bar>e - (b - 360 * of_int k)\<bar> \<le> pow2 (-45))"
proof (cases "normalizeLongitudes (Fin a) (Fin b) = (Fin LNG_MIN, Fin LNG_MAX)")
  case False
  obtain k q where k: "f_mul (f_nearest (f_div (f_div (f_add (Fin a) (Fin b)) (Fin 2)) (Fin 360))) (Fin 360) = Fin (360 * of_int k)"
    using turns_counted [OF assms(4,5)] by blast
  have "normalizeLongitudes (Fin a) (Fin b) = (f_round (a - 360 * of_int k), f_round (b - 360 * of_int k))"
    using False unfolding normalizeLongitudes_def Let_def k by (auto simp: f_sub_def split: if_splits)
  moreover obtain w e where "normalizeLongitudes (Fin a) (Fin b) = (Fin w, Fin e)" "LNG_MIN \<le> w" "w \<le> e" "e \<le> LNG_MAX"
    using normalize_longitudes_ok [of "Fin a" "Fin b"] assms(1,2) by auto
  ultimately show ?thesis
    using shift_error [of "a - 360 * of_int k" w] shift_error [of "b - 360 * of_int k" e]
    by (intro disjI2 exI [of _ k] exI [of _ w] exI [of _ e]) (auto simp: coordinate_bounds abs_le_iff)
qed simp

lemma normal_longitudes_fit:
  assumes "a \<le> b" "\<bar>a\<bar> \<le> 10 ^ 6" "\<bar>b\<bar> \<le> 10 ^ 6"
    and fit: "-180 + 1 / 10 ^ 6 \<le> a - 360 * of_int k" "b - 360 * of_int k \<le> 180 - 1 / 10 ^ 6"
  shows "normalizeLongitudes (Fin a) (Fin b) = (f_round (a - 360 * of_int k), f_round (b - 360 * of_int k))"
proof -
  obtain j q where j: "f_mul (f_nearest (f_div (f_div (f_add (Fin a) (Fin b)) (Fin 2)) (Fin 360))) (Fin 360) = Fin (360 * of_int j)"
    and q: "j = \<lfloor>q + 1 / 2\<rfloor>" "\<bar>720 * q - (a + b)\<bar> \<le> 1 / 10 ^ 6" using turns_counted [OF assms(2,3)] by blast
  have "of_int k \<le> q + 1 / 2" "q + 1 / 2 < of_int k + 1" using q(2) fit assms(1) unfolding abs_le_iff millionth by linarith+
  then have jk: "j = k" unfolding q(1) by (intro floor_unique) simp_all
  have narrow: "0 \<le> b - a" "b - a \<le> 360 - 2 / 10 ^ 6" using fit assms(1) by linarith+
  then have "\<bar>b - a\<bar> \<le> pow2 9" by (simp add: pow2_def)
  from round_error_bound [OF this] obtain r where r: "f_round (b - a) = Fin r" "\<bar>r - (b - a)\<bar> \<le> pow2 (-44)" by auto
  have "pow2 (-44) < 1 / 10 ^ 6" by (simp add: pow2_def)
  then have "r < 360" using r(2) narrow(2) unfolding abs_le_iff by linarith
  then have span: "\<not> f_le (Fin 360) (f_round (b - a))" by (simp add: r(1))
  have "f_le (Fin (- 180)) (f_round (a - 360 * of_int k))" "f_le (f_round (b - 360 * of_int k)) (Fin 180)"
    using fit by (intro f_round_ge f_round_le; simp)+
  then have "\<not> f_less (f_round (a - 360 * of_int k)) (Fin LNG_MIN)" "\<not> f_less (Fin LNG_MAX) (f_round (b - 360 * of_int k))"
    by (simp_all add: f_less_iff coordinate_bounds)
  with span assms(1) show ?thesis
    unfolding normalizeLongitudes_def Let_def j jk by (simp add: f_sub_def)
qed

text \<open>A longitude reported lies in the box of the normalised view after whole turns.\<close>

lemma longitude_in_normal_view:
  assumes "f_ok (west b)" "f_ok (east b)" "near_view b" "normalizeLongitudes (west b) (east b) = (Fin w, Fin e)" "reported_longitude b x"
  shows "\<exists>k. w - pow2 (-45) \<le> x - 360 * of_int k \<and> x - 360 * of_int k \<le> e + pow2 (-45)"
proof (cases "w = LNG_MIN \<and> e = LNG_MAX")
  case True
  have "- 180 \<le> x - 360 * of_int \<lfloor>(x + 180) / 360\<rfloor>" "x - 360 * of_int \<lfloor>(x + 180) / 360\<rfloor> \<le> 180"
    using floor_correct [of "(x + 180) / 360"] by (simp_all add: field_simps)
  moreover have "0 < pow2 (-45)" by simp
  moreover have "w = - 180" "e = 180" using True by (simp_all add: coordinate_bounds)
  ultimately show ?thesis by (intro exI [of _ "\<lfloor>(x + 180) / 360\<rfloor>"]) linarith
next
  case False
  then have "f_finite (west b)" "f_finite (east b)" "\<not> f_less (east b) (west b)"
    using assms(4) by (auto simp: normalizeLongitudes_def split: if_splits)
  then obtain a c where ac: "west b = Fin a" "east b = Fin c" "a \<le> c" by (cases "west b"; cases "east b") auto
  have "is_double a" "is_double c" "\<bar>a\<bar> \<le> 10 ^ 6" "\<bar>c\<bar> \<le> 10 ^ 6" "a \<le> x" "x \<le> c"
    using assms ac by (auto simp: near_view_def reported_longitude_def)
  with normal_longitudes_shift [of a c] False assms(4) ac obtain k where
    "\<bar>w - (a - 360 * of_int k)\<bar> \<le> pow2 (-45)" "\<bar>e - (c - 360 * of_int k)\<bar> \<le> pow2 (-45)" by auto
  with \<open>a \<le> x\<close> \<open>x \<le> c\<close> show ?thesis unfolding abs_le_iff by (intro exI [of _ k]) linarith
qed

lemma latitude_in_normal_view:
  assumes "f_ok (south b)" "f_ok (north b)" "normalizeLatitudes (south b) (north b) = (Fin s, Fin n)" "reported_latitude b y"
  shows "s \<le> y \<and> y \<le> n"
proof (cases "f_finite (south b) \<and> f_finite (north b)")
  case True
  then obtain a c where ac: "south b = Fin a" "north b = Fin c" by (cases "south b"; cases "north b") auto
  then show ?thesis
    using assms(3,4)
    by (auto simp: normalizeLatitudes_def reported_latitude_def clamp_def f_min_def f_max_def coordinate_bounds split: if_splits)
next
  case False
  then show ?thesis using assms(3,4) by (auto simp: normalizeLatitudes_def reported_latitude_def coordinate_bounds)
qed

lemma normal_latitudes_id:
  assumes "- 90 \<le> s" "s \<le> n" "n \<le> 90"
  shows "normalizeLatitudes (Fin s) (Fin n) = (Fin s, Fin n)"
  using assms by (simp add: normalizeLatitudes_def f_min_def f_max_def clamp_id coordinate_bounds)

definition VIEW_SLACK :: rat where
  "VIEW_SLACK = 2 / 10 ^ 12"

lemma view_slack: "BBOX_SLACK + pow2 (-45) \<le> VIEW_SLACK" "BBOX_SLACK \<le> VIEW_SLACK" "0 < BBOX_SLACK"
  by (simp_all add: BBOX_SLACK_def VIEW_SLACK_def pow2_def)

lemma bbox_covers_the_report:
  assumes "bounds_ok b" "near_view b" "covers_within BBOX_SLACK (1 / 10 ^ 4) (normalizeBounds b) box"
  shows "covers_view VIEW_SLACK b box" "fits_view (1 / 10 ^ 4 + VIEW_SLACK) b box"
proof -
  obtain s w n e s' w' n' e' where norm: "normalizeBounds b = \<lparr>south = Fin s, west = Fin w, north = Fin n, east = Fin e\<rparr>"
    and box: "box = \<lparr>south = Fin s', west = Fin w', north = Fin n', east = Fin e'\<rparr>"
    and near: "s - 1 / 10 ^ 4 - BBOX_SLACK \<le> s'" "s' \<le> s + BBOX_SLACK" "w - 1 / 10 ^ 4 - BBOX_SLACK \<le> w'" "w' \<le> w + BBOX_SLACK"
      "n - BBOX_SLACK \<le> n'" "n' \<le> n + 1 / 10 ^ 4 + BBOX_SLACK" "e - BBOX_SLACK \<le> e'" "e' \<le> e + 1 / 10 ^ 4 + BBOX_SLACK"
    using assms(3) unfolding covers_within_def by blast
  have parts: "normalizeLongitudes (west b) (east b) = (Fin w, Fin e)" "normalizeLatitudes (south b) (north b) = (Fin s, Fin n)"
    using norm by (simp_all add: normalizeBounds_def split: prod.splits)
  have ok: "f_ok (south b)" "f_ok (north b)" "f_ok (west b)" "f_ok (east b)" using assms(1) by (simp_all add: bounds_ok_def)
  have "s' - VIEW_SLACK \<le> y \<and> y \<le> n' + VIEW_SLACK" if "reported_latitude b y" for y
    using latitude_in_normal_view [OF ok(1,2) parts(2) that] near view_slack by linarith
  moreover have "\<exists>k. w' - VIEW_SLACK \<le> x - 360 * of_int k \<and> x - 360 * of_int k \<le> e' + VIEW_SLACK"
    if x: "reported_longitude b x" for x
  proof -
    obtain k where "w - pow2 (-45) \<le> x - 360 * of_int k" "x - 360 * of_int k \<le> e + pow2 (-45)"
      using longitude_in_normal_view [OF ok(3,4) assms(2) parts(1) x] by blast
    with near view_slack show ?thesis by (intro exI [of _ k]) linarith
  qed
  ultimately show "covers_view VIEW_SLACK b box" unfolding covers_view_def box by blast
  have "s'' - (1 / 10 ^ 4 + VIEW_SLACK) \<le> s' \<and> n' \<le> n'' + (1 / 10 ^ 4 + VIEW_SLACK)"
    if "south b = Fin s''" "north b = Fin n''" "- 90 \<le> s''" "s'' \<le> n''" "n'' \<le> 90" for s'' n''
  proof -
    have "s = s''" "n = n''" using normal_latitudes_id [OF that(3-5)] parts(2) that(1,2) by simp_all
    with near view_slack show ?thesis by linarith
  qed
  moreover have "a - 360 * of_int k - (1 / 10 ^ 4 + VIEW_SLACK) \<le> w' \<and> e' \<le> c - 360 * of_int k + (1 / 10 ^ 4 + VIEW_SLACK)"
    if ac: "west b = Fin a" "east b = Fin c" "a \<le> c" and fit: "- 180 + 1 / 10 ^ 6 \<le> a - 360 * of_int k"
      "c - 360 * of_int k \<le> 180 - 1 / 10 ^ 6" for a c k
  proof -
    have lim: "\<bar>a\<bar> \<le> 10 ^ 6" "\<bar>c\<bar> \<le> 10 ^ 6" using assms(2) ac by (simp_all add: near_view_def)
    have r: "f_round (a - 360 * of_int k) = Fin w" "f_round (c - 360 * of_int k) = Fin e"
      using normal_longitudes_fit [OF ac(3) lim fit] parts(1) ac by simp_all
    have "\<bar>w\<bar> \<le> 180" "\<bar>e\<bar> \<le> 180"
      using normalized_box_is_on_the_planet [OF assms(1)] by (auto simp: planet_box_def norm coordinate_bounds abs_le_iff)
    then have "\<bar>w - (a - 360 * of_int k)\<bar> \<le> pow2 (-45)" "\<bar>e - (c - 360 * of_int k)\<bar> \<le> pow2 (-45)"
      using shift_error r by blast+
    with near view_slack show ?thesis unfolding abs_le_iff by linarith
  qed
  ultimately show "fits_view (1 / 10 ^ 4 + VIEW_SLACK) b box" unfolding fits_view_def box by blast
qed

text \<open>
  C20. Whatever viewport the map reports, the text of its \<open>bbox\<close> parameter reads back as four doubles in range and in
  order. Within a million degrees of the meridian, the box they span covers the viewport as reported, up to a rounding
  error of two million-millionths of a degree: all its latitudes on the planet, and all its longitudes after whole
  turns, also where it crosses the antimeridian, has no size or spans the globe. Where the reported latitudes are on the
  planet and in order, or the longitudes after some whole turns a millionth of a degree clear of the antimeridian, the
  box is at most one ten-thousandth of a degree wider on those sides, up to the same error.
\<close>

theorem bbox_reads_back:
  assumes "bounds_ok b"
  shows "\<exists>box. read_bbox (toBboxParam b) = Some box \<and> planet_box box \<and>
    covers_within BBOX_SLACK (1 / 10 ^ 4) (normalizeBounds b) box \<and>
    (near_view b \<longrightarrow> covers_view VIEW_SLACK b box \<and> fits_view (1 / 10 ^ 4 + VIEW_SLACK) b box)"
proof -
  let ?box = "box_of_numbers (bbox_numbers b)"
  obtain x y z u where n: "bbox_numbers b = [x, y, z, u]" by (auto simp: bbox_numbers_def Let_def)
  with bbox_covers_the_view(1) [OF assms] obtain s w n e where
    eq: "bbox_numbers b = [Fin s, Fin w, Fin n, Fin e]" and d: "is_double s" "is_double w" "is_double n" "is_double e"
    unfolding planet_box_def by auto
  have "split_on CHR '','' (js_join '','' (map js_to_string [s, w, n, e])) = map js_to_string [s, w, n, e]"
    using d by (intro split_on_join) (simp_all add: number_text_no_comma)
  then have "read_bbox (toBboxParam b) = Some ?box"
    using d by (simp add: toBboxParam_def eq read_bbox_def js_number_to_string)
  then show ?thesis
    using bbox_covers_the_view [OF assms] bbox_covers_the_report [OF assms] by blast
qed

text \<open>A map panned one turn east reports longitudes past the antimeridian; one without a size reports no number.\<close>

definition turned_view :: map_bounds where
  "turned_view = \<lparr>south = Fin 10, west = Fin 350, north = Fin 20, east = Fin 370\<rparr>"

definition unsized_view :: map_bounds where
  "unsized_view = \<lparr>south = Nan, west = Nan, north = Nan, east = Nan\<rparr>"

lemma bbox_reads_back_witness:
  "\<exists>s w n e. read_bbox (toBboxParam turned_view) = Some \<lparr>south = Fin s, west = Fin w, north = Fin n, east = Fin e\<rparr> \<and>
     -11 \<le> w \<and> w \<le> -9 \<and> 9 \<le> e \<and> e \<le> 11"
proof -
  have ok: "bounds_ok turned_view" "near_view turned_view" by (auto simp: bounds_ok_def turned_view_def near_view_def)
  from bbox_reads_back [OF ok(1)] ok(2) obtain box where box: "read_bbox (toBboxParam turned_view) = Some box"
    "covers_view VIEW_SLACK turned_view box" "fits_view (1 / 10 ^ 4 + VIEW_SLACK) turned_view box" by blast
  obtain s w n e where b: "box = \<lparr>south = Fin s, west = Fin w, north = Fin n, east = Fin e\<rparr>"
    and near: "\<And>x. reported_longitude turned_view x \<Longrightarrow> \<exists>k. w - VIEW_SLACK \<le> x - 360 * of_int k \<and> x - 360 * of_int k \<le> e + VIEW_SLACK"
    using box(2) unfolding covers_view_def by blast
  have "west turned_view = Fin 350" "east turned_view = Fin 370" "(350 :: rat) \<le> 370" by (simp_all add: turned_view_def)
  moreover have "-180 + 1 / 10 ^ 6 \<le> (350 :: rat) - 360 * of_int 1" "(370 :: rat) - 360 * of_int 1 \<le> 180 - 1 / 10 ^ 6" by simp_all
  ultimately have "(350 :: rat) - 360 * of_int 1 - (1 / 10 ^ 4 + VIEW_SLACK) \<le> w \<and> e \<le> 370 - 360 * of_int 1 + (1 / 10 ^ 4 + VIEW_SLACK)"
    using fits_longitudes box(3) unfolding b by blast
  then have out: "-11 \<le> w" "e \<le> 11" by (simp_all add: VIEW_SLACK_def)
  have side: "w \<le> x - 360 + 1 \<and> x - 360 - 1 \<le> e" if "350 \<le> x" "x \<le> 370" for x
  proof -
    have "reported_longitude turned_view x" using that by (simp add: reported_longitude_def turned_view_def)
    from near [OF this] obtain k where k: "w - VIEW_SLACK \<le> x - 360 * of_int k" "x - 360 * of_int k \<le> e + VIEW_SLACK"
      by blast
    then have "(of_int k :: rat) < of_int 2" "of_int 0 < (of_int k :: rat)"
      using out that by (simp_all add: VIEW_SLACK_def)
    then have "k = 1" by (simp only: of_int_less_iff)
    with k show ?thesis by (simp add: VIEW_SLACK_def)
  qed
  show ?thesis using box(1) b out side [of 350] side [of 370] by auto
qed

lemma unsized_view_covers_the_planet: "normalizeBounds unsized_view = WORLD_BOUNDS"
  by (simp add: unsized_view_def normalizeBounds_def normalizeLongitudes_def normalizeLatitudes_def WORLD_BOUNDS_def)

end
