(* ===== verification/Map_Bounds.thy ===== *)
theory Map_Bounds
  imports Viewport
begin

text \<open>
  \<open>components/map/bounds.ts\<close>: the box that frames a list of points, with its longitudes on the
  shorter arc, and \<open>positionsBounds\<close> of \<open>lib/siteZone.ts\<close>, the plain box of a list of positions.
\<close>

text \<open>The compact point of \<open>/events/points\<close>, a tuple in the code.\<close>

record map_point =
  mp_id :: jsstring
  mp_lat :: js_float
  mp_lng :: js_float
  mp_occurred :: "jsstring option"
  mp_added :: jsstring
  mp_detected :: bool

definition hasFiniteCoords :: "map_point \<Rightarrow> bool" where
  "hasFiniteCoords p \<longleftrightarrow> f_finite (mp_lat p) \<and> f_finite (mp_lng p)"

fun f_value :: "js_float \<Rightarrow> rat" where
  "f_value (Fin x) = x"
| "f_value _ = 0"

definition lower_of :: "js_float list \<Rightarrow> js_float" where
  "lower_of xs = foldl (\<lambda>m x. if f_less x m then x else m) Pos_inf xs"

definition upper_of :: "js_float list \<Rightarrow> js_float" where
  "upper_of xs = foldl (\<lambda>m x. if f_less m x then x else m) Neg_inf xs"

text \<open>\<open>sort((a, b) => a - b)\<close> on finite numbers: the sign of the rounded difference is that of the
  order (\<open>f_sub_sign\<close>).\<close>

definition sort_numbers :: "rat list \<Rightarrow> rat list" where
  "sort_numbers xs = sort_by (compare_on (\<lambda>x. x)) xs"

definition wrap_gap :: "rat list \<Rightarrow> js_float" where
  "wrap_gap lngs = f_sub (f_add (Fin (lngs ! 0)) (Fin 360)) (Fin (lngs ! (length lngs - 1)))"

definition inner_gap :: "rat list \<Rightarrow> nat \<Rightarrow> js_float" where
  "inner_gap lngs i = f_sub (Fin (lngs ! i)) (Fin (lngs ! (i - 1)))"

definition gap_step :: "rat list \<Rightarrow> js_float \<times> nat \<Rightarrow> nat \<Rightarrow> js_float \<times> nat" where
  "gap_step lngs best i = (if f_less (fst best) (inner_gap lngs i) then (inner_gap lngs i, i) else best)"

definition widest_gap :: "rat list \<Rightarrow> js_float \<times> nat" where
  "widest_gap lngs = foldl (gap_step lngs) (wrap_gap lngs, 0) [1 ..< length lngs]"

definition shorter_arc :: "rat list \<Rightarrow> js_float \<times> js_float" where
  "shorter_arc lngs = (let westIndex = snd (widest_gap lngs) in
     (Fin (lngs ! westIndex),
      if westIndex = 0 then Fin (lngs ! (length lngs - 1)) else f_add (Fin (lngs ! (westIndex - 1))) (Fin 360)))"

definition pointsBounds :: "map_point list \<Rightarrow> map_bounds option" where
  "pointsBounds points = (let usable = filter hasFiniteCoords points in
     if usable = [] then None
     else (let (w, e) = shorter_arc (sort_numbers (map (f_value \<circ> mp_lng) usable))
       in Some \<lparr>south = lower_of (map mp_lat usable), west = w, north = upper_of (map mp_lat usable), east = e\<rparr>))"

text \<open>A position is \<open>[lng, lat]\<close>, the GeoJSON order.\<close>

type_synonym position = "js_float \<times> js_float"

definition positionsBounds :: "position list \<Rightarrow> map_bounds option" where
  "positionsBounds ps = (if ps = [] then None
     else Some (foldl (\<lambda>b p. \<lparr>south = f_min (south b) (snd p), west = f_min (west b) (fst p),
         north = f_max (north b) (snd p), east = f_max (east b) (fst p)\<rparr>)
       \<lparr>south = Pos_inf, west = Pos_inf, north = Neg_inf, east = Neg_inf\<rparr> ps))"

section \<open>The comparator\<close>

lemma double_grid: "is_double d \<Longrightarrow> \<exists>m. d = of_int m * pow2 (-1074)"
proof (cases "d = 0")
  case False
  assume "is_double d"
  from double_multiple [OF this False] obtain m where m: "d = of_int m * ulp d" by blast
  have "-1074 \<le> ulp_exponent d" by (simp add: ulp_exponent_def)
  then have "ulp d = of_int (2 ^ nat (ulp_exponent d + 1074)) * pow2 (-1074)"
    using pow2_add [of "ulp_exponent d + 1074" "-1074"] by (simp add: ulp_def pow2_def [of "ulp_exponent d + 1074"])
  then have "d = of_int (m * 2 ^ nat (ulp_exponent d + 1074)) * pow2 (-1074)" using m by (metis mult.assoc of_int_mult)
  then show ?thesis by blast
qed (auto intro: exI [of _ 0])

lemma f_sub_sign:
  assumes "is_double a" "is_double b"
  shows "f_less (f_sub (Fin a) (Fin b)) (Fin 0) \<longleftrightarrow> a < b"
proof
  assume "a < b"
  obtain m n where mn: "a = of_int m * pow2 (-1074)" "b = of_int n * pow2 (-1074)" using double_grid assms by blast
  with \<open>a < b\<close> have "m < n" by simp
  then have "(of_int (m - n) :: rat) \<le> of_int (- 1)" unfolding of_int_le_iff by simp
  then have "a - b \<le> of_int (- 1) * pow2 (-1074)"
    unfolding mn left_diff_distrib [symmetric] of_int_diff [symmetric] by (rule mult_right_mono) simp
  then have "a - b \<le> - pow2 (-1074)" by simp
  moreover have "is_double (- pow2 (-1074))"
    using pow2_mono [of "-1074" 0] pow2_strict_mono [of 0 1024]
    by (intro is_double_multiple [of _ "- 1" "-1074"]) simp_all
  ultimately have "f_le (f_round (a - b)) (Fin (- pow2 (-1074)))" by (intro f_round_le)
  then show "f_less (f_sub (Fin a) (Fin b)) (Fin 0)"
    using f_le_trans [of "Fin 0" "f_round (a - b)" "Fin (- pow2 (-1074))"] pow2_pos(1) [of "-1074"]
    by (auto simp: f_sub_def f_less_iff simp del: pow2_pos)
next
  assume less: "f_less (f_sub (Fin a) (Fin b)) (Fin 0)"
  show "a < b"
  proof (rule ccontr)
    assume "\<not> a < b"
    then have "f_le (Fin 0) (f_round (a - b))" by (intro f_round_ge) simp_all
    with less show False by (simp add: f_sub_def f_less_iff)
  qed
qed

section \<open>The latitudes\<close>

text \<open>A fold whose every step stays below what it holds and what it meets (or above).\<close>

lemma fold_bound:
  assumes step: "\<And>m x. m \<noteq> Nan \<Longrightarrow> x \<noteq> Nan \<Longrightarrow> f m x \<noteq> Nan \<and> R (f m x) m \<and> R (f m x) x"
    and tr: "\<And>x y z. R x y \<Longrightarrow> R y z \<Longrightarrow> R x z" and refl: "\<And>x. x \<noteq> Nan \<Longrightarrow> R x x"
    and "m \<noteq> Nan" "Nan \<notin> set xs"
  shows "R (foldl f m xs) m \<and> (\<forall>x \<in> set xs. R (foldl f m xs) x)"
  using assms(4,5)
proof (induction xs arbitrary: m)
  case (Cons x xs)
  have x: "x \<noteq> Nan" using Cons.prems(2) by auto
  note s = step [OF Cons.prems(1) x]
  have IH: "R (foldl f (f m x) xs) (f m x)" "\<forall>y \<in> set xs. R (foldl f (f m x) xs) y"
    using Cons.IH [of "f m x"] Cons.prems(2) s by simp_all
  from s tr [OF IH(1)] IH(2) show ?case by simp
qed (simp add: refl)

lemma min_step: "m \<noteq> Nan \<Longrightarrow> x \<noteq> Nan \<Longrightarrow> f_min m x \<noteq> Nan \<and> f_le (f_min m x) m \<and> f_le (f_min m x) x"
  using f_min_le by (simp add: f_min_def)

lemma max_step: "m \<noteq> Nan \<Longrightarrow> x \<noteq> Nan \<Longrightarrow> f_max m x \<noteq> Nan \<and> f_le m (f_max m x) \<and> f_le x (f_max m x)"
  using f_max_ge by (simp add: f_max_def)

lemma lower_step: "m \<noteq> Nan \<Longrightarrow> x \<noteq> Nan \<Longrightarrow> (if f_less x m then x else m) = f_min x m"
  using f_le_total [of x m] f_le_antisym [of x m] by (auto simp: f_less_iff f_min_def)

lemma upper_step: "m \<noteq> Nan \<Longrightarrow> x \<noteq> Nan \<Longrightarrow> (if f_less m x then x else m) = f_max x m"
  using f_le_total [of x m] f_le_antisym [of x m] by (auto simp: f_less_iff f_max_def)

lemma lower_of_fold: "Nan \<notin> set xs \<Longrightarrow> x \<in> set xs \<Longrightarrow> f_le (lower_of xs) x"
  unfolding lower_of_def
  by (rule fold_bound [of _ f_le Pos_inf xs, THEN conjunct2, THEN bspec])
    (simp add: lower_step min_step, erule (1) f_le_trans, simp_all)

lemma upper_of_fold: "Nan \<notin> set xs \<Longrightarrow> x \<in> set xs \<Longrightarrow> f_le x (upper_of xs)"
  unfolding upper_of_def
  by (rule fold_bound [of _ "\<lambda>x y. f_le y x" Neg_inf xs, THEN conjunct2, THEN bspec])
    (simp add: upper_step max_step, erule (1) f_le_trans [rotated], simp_all)

lemma min_fold: "Nan \<notin> set xs \<Longrightarrow> x \<in> set xs \<Longrightarrow> f_le (foldl f_min Pos_inf xs) x"
  by (rule fold_bound [of f_min f_le Pos_inf xs, THEN conjunct2, THEN bspec])
    (erule (1) min_step, erule (1) f_le_trans, simp_all)

lemma max_fold: "Nan \<notin> set xs \<Longrightarrow> x \<in> set xs \<Longrightarrow> f_le x (foldl f_max Neg_inf xs)"
  by (rule fold_bound [of f_max "\<lambda>x y. f_le y x" Neg_inf xs, THEN conjunct2, THEN bspec])
    (erule (1) max_step, erule (1) f_le_trans [rotated], simp_all)

section \<open>The longitudes\<close>

lemma gap_not_Nan [simp]: "inner_gap lngs i \<noteq> Nan" 
  by (simp add: inner_gap_def f_sub_def)

lemma wrap_not_Nan [simp]: "wrap_gap lngs \<noteq> Nan"
  by (cases "f_round (lngs ! 0 + 360)") (simp_all add: wrap_gap_def f_sub_def)

definition gap_at :: "rat list \<Rightarrow> nat \<Rightarrow> js_float" where
  "gap_at lngs i = (if i = 0 then wrap_gap lngs else inner_gap lngs i)"

lemma gap_fold:
  assumes "n \<le> length lngs" "0 < n"
  shows "case foldl (gap_step lngs) (wrap_gap lngs, 0) [1 ..< n] of (g, k) \<Rightarrow>
    k < n \<and> g = gap_at lngs k \<and> (\<forall>j < n. f_le (gap_at lngs j) g)"
  using assms
proof (induction n)
  case (Suc n)
  show ?case
  proof (cases "n = 0")
    case False
    then obtain g k where gk: "foldl (gap_step lngs) (wrap_gap lngs, 0) [1 ..< n] = (g, k)"
      and IH: "k < n" "g = gap_at lngs k" "\<forall>j < n. f_le (gap_at lngs j) g"
      using Suc by auto
    have "g \<noteq> Nan" using IH(2) by (simp add: gap_at_def)
    have less: "\<forall>j < n. f_le (gap_at lngs j) (inner_gap lngs n)" if "f_less g (inner_gap lngs n)"
    proof -
      have "f_le g (inner_gap lngs n)" using that f_le_total [of g "inner_gap lngs n"] by (auto simp: f_less_iff)
      with IH(3) show ?thesis using f_le_trans by blast
    qed
    have n: "gap_at lngs n = inner_gap lngs n" using False by (simp add: gap_at_def)
    have step: "foldl (gap_step lngs) (wrap_gap lngs, 0) [1 ..< Suc n] = gap_step lngs (g, k) n" using gk False by simp
    show ?thesis
    proof (cases "f_less g (inner_gap lngs n)")
      case True
      then have "gap_step lngs (g, k) n = (inner_gap lngs n, n)" by (simp add: gap_step_def)
      with step less [OF True] n show ?thesis by (simp add: less_Suc_eq)
    next
      case ge: False
      then have "gap_step lngs (g, k) n = (g, k)" by (simp add: gap_step_def)
      moreover have "f_le (gap_at lngs n) g" using ge \<open>g \<noteq> Nan\<close> n by (simp add: f_less_iff)
      ultimately show ?thesis using step IH by (simp add: less_Suc_eq)
    qed
  qed (simp add: gap_at_def)
qed simp

lemma widest_gap_is_widest:
  assumes "lngs \<noteq> []"
  shows "snd (widest_gap lngs) < length lngs"
    "fst (widest_gap lngs) = gap_at lngs (snd (widest_gap lngs))"
    "j < length lngs \<Longrightarrow> f_le (gap_at lngs j) (fst (widest_gap lngs))"
  using gap_fold [of "length lngs" lngs] assms by (auto simp: widest_gap_def split: prod.splits)

definition on_circle :: "rat list \<Rightarrow> bool" where
  "on_circle lngs \<longleftrightarrow> (\<forall>x \<in> set lngs. is_double x \<and> LNG_MIN \<le> x \<and> x \<le> LNG_MAX)"

lemma arc_encloses:
  assumes "sorted lngs" "x \<in> set lngs" "on_circle lngs"
  shows "case shorter_arc lngs of (w, e) \<Rightarrow>
    (f_le w (Fin x) \<and> f_le (Fin x) e) \<or> f_le (f_add (Fin x) (Fin 360)) e"
proof -
  define k where "k = snd (widest_gap lngs)"
  have ne: "lngs \<noteq> []" using assms(2) by auto
  have k: "k < length lngs" unfolding k_def by (rule widest_gap_is_widest(1) [OF ne])
  obtain j where j: "j < length lngs" "x = lngs ! j" using assms(2) by (auto simp: in_set_conv_nth)
  have mono: "lngs ! a \<le> lngs ! b" if "a \<le> b" "b < length lngs" for a b
    using assms(1) that by (simp add: sorted_iff_nth_mono)
  consider "k = 0" | "0 < k" "j < k" | "0 < k" "k \<le> j" by linarith
  then show ?thesis
  proof cases
    case 1
    then show ?thesis using mono [of 0 j] mono [of j "length lngs - 1"] j
      by (simp add: shorter_arc_def Let_def k_def [symmetric])
  next
    case 2
    then have "x \<le> lngs ! (k - 1)" using mono [of j "k - 1"] k j by simp
    then have "f_le (f_round (x + 360)) (f_round (lngs ! (k - 1) + 360))" by (intro f_round_mono) simp
    with 2 show ?thesis by (simp add: shorter_arc_def Let_def k_def [symmetric])
  next
    case 3
    have "lngs ! (k - 1) \<in> set lngs" using k by simp
    then have "LNG_MIN \<le> lngs ! (k - 1)" "x \<le> LNG_MAX" using assms(2,3) unfolding on_circle_def by blast+
    then have "x \<le> lngs ! (k - 1) + 360" by (simp add: coordinate_bounds)
    moreover have "is_double x" using assms(2,3) by (simp add: on_circle_def)
    ultimately have "f_le (Fin x) (f_round (lngs ! (k - 1) + 360))" by (intro f_round_ge)
    with 3 mono [of k j] j show ?thesis by (simp add: shorter_arc_def Let_def k_def [symmetric])
  qed
qed

lemma sorted_numbers [simp]: "sorted (sort_numbers xs)" "set (sort_numbers xs) = set xs"
  by (simp_all add: sort_numbers_def on_key.sort_by_sort_key)

text \<open>A point as the endpoint serves it: coordinates of the planet, or none that can be used.\<close>

definition served_point :: "map_point \<Rightarrow> bool" where
  "served_point p \<longleftrightarrow> (hasFiniteCoords p \<longrightarrow> f_ok (mp_lat p) \<and> f_ok (mp_lng p) \<and>
     LNG_MIN \<le> f_value (mp_lng p) \<and> f_value (mp_lng p) \<le> LNG_MAX)"

text \<open>The point lies in the box, directly or one turn east of its longitude.\<close>

definition enclosed :: "map_bounds \<Rightarrow> map_point \<Rightarrow> bool" where
  "enclosed b p \<longleftrightarrow> f_le (south b) (mp_lat p) \<and> f_le (mp_lat p) (north b) \<and>
     (f_le (west b) (mp_lng p) \<and> f_le (mp_lng p) (east b) \<or> f_le (f_add (mp_lng p) (Fin 360)) (east b))"

lemma finite_lng: "hasFiniteCoords p \<Longrightarrow> mp_lng p = Fin (f_value (mp_lng p))"
  by (cases "mp_lng p") (simp_all add: hasFiniteCoords_def)

text \<open>
  The framing box encloses every point it was given that has usable coordinates, on the arc it
  chose, and there is one exactly when some point is usable.
\<close>

theorem framing_box_encloses_the_points:
  assumes "\<forall>p \<in> set points. served_point p"
  shows "(case pointsBounds points of
      None \<Rightarrow> filter hasFiniteCoords points = []
    | Some b \<Rightarrow> filter hasFiniteCoords points \<noteq> [] \<and> list_all (enclosed b) (filter hasFiniteCoords points))"
proof (cases "filter hasFiniteCoords points = []")
  case False
  define us where "us = filter hasFiniteCoords points"
  define lngs where "lngs = sort_numbers (map (f_value \<circ> mp_lng) us)"
  obtain w e where we: "shorter_arc lngs = (w, e)" by fastforce
  have circle: "on_circle lngs"
  proof -
    have "is_double (f_value (mp_lng p))" if "p \<in> set us" for p
      using that assms finite_lng [of p] by (cases "mp_lng p") (auto simp: us_def served_point_def)
    then show ?thesis using assms by (auto simp: on_circle_def lngs_def us_def served_point_def)
  qed
  have "enclosed \<lparr>south = lower_of (map mp_lat us), west = w, north = upper_of (map mp_lat us), east = e\<rparr> p"
    if p: "p \<in> set us" for p
  proof -
    have fin: "Nan \<notin> set (map mp_lat us)" by (auto simp: us_def hasFiniteCoords_def)
    have lat: "f_le (lower_of (map mp_lat us)) (mp_lat p)" "f_le (mp_lat p) (upper_of (map mp_lat us))"
      using lower_of_fold [OF fin] upper_of_fold [OF fin] p by simp_all
    have "f_value (mp_lng p) \<in> set lngs" using p by (auto simp: lngs_def)
    with circle we have "(f_le w (Fin (f_value (mp_lng p))) \<and> f_le (Fin (f_value (mp_lng p))) e) \<or>
        f_le (f_add (Fin (f_value (mp_lng p))) (Fin 360)) e"
      using arc_encloses [of lngs "f_value (mp_lng p)"] by (simp add: lngs_def)
    moreover have "Fin (f_value (mp_lng p)) = mp_lng p" using finite_lng [of p] p by (simp add: us_def)
    ultimately show ?thesis using lat by (simp only: enclosed_def map_bounds.simps simp_thms)
  qed
  then show ?thesis
    using False we by (simp add: pointsBounds_def Let_def us_def [symmetric] lngs_def [symmetric] list_all_iff)
qed (simp add: pointsBounds_def)

text \<open>
  The arc left out is a widest one: the gap before the box's west edge is at least every other
  gap between neighbouring longitudes, the one across the antimeridian included, and the box is the
  plain one unless an inner gap is strictly wider.
\<close>

theorem widest_gap_is_left_out:
  assumes "lngs \<noteq> []"
  shows "(\<forall>j \<in> {..< length lngs}. f_le (gap_at lngs j) (gap_at lngs (snd (widest_gap lngs)))) \<and>
    fst (shorter_arc lngs) = Fin (lngs ! snd (widest_gap lngs))"
  using widest_gap_is_widest [OF assms] by (auto simp: shorter_arc_def Let_def)

section \<open>Positions\<close>

lemma positions_fold:
  "foldl (\<lambda>b p. \<lparr>south = f_min (south b) (snd p), west = f_min (west b) (fst p),
       north = f_max (north b) (snd p), east = f_max (east b) (fst p)\<rparr>) \<lparr>south = s, west = w, north = n, east = e\<rparr> ps =
   \<lparr>south = foldl f_min s (map snd ps), west = foldl f_min w (map fst ps),
    north = foldl f_max n (map snd ps), east = foldl f_max e (map fst ps)\<rparr>"
  by (induction ps arbitrary: s w n e) simp_all

text \<open>The box of a list of positions holds every one of them.\<close>

lemma positions_box_encloses:
  assumes "\<forall>p \<in> set ps. fst p \<noteq> Nan \<and> snd p \<noteq> Nan" "positionsBounds ps = Some b" "p \<in> set ps"
  shows "f_le (south b) (snd p) \<and> f_le (snd p) (north b) \<and> f_le (west b) (fst p) \<and> f_le (fst p) (east b)"
proof -
  have n: "Nan \<notin> set (map fst ps)" "Nan \<notin> set (map snd ps)" using assms(1) by auto
  have m: "fst p \<in> set (map fst ps)" "snd p \<in> set (map snd ps)" using assms(3) by auto
  have "b = \<lparr>south = foldl f_min Pos_inf (map snd ps), west = foldl f_min Pos_inf (map fst ps),
      north = foldl f_max Neg_inf (map snd ps), east = foldl f_max Neg_inf (map fst ps)\<rparr>"
    using assms(2) by (simp add: positionsBounds_def positions_fold split: if_splits)
  then show ?thesis using min_fold max_fold n m by (simp del: list.set_map)
qed

definition fiji :: "map_point list" where
  "fiji = [\<lparr>mp_id = ''a'', mp_lat = Fin (- 17), mp_lng = Fin 179, mp_occurred = None, mp_added = [], mp_detected = False\<rparr>,
     \<lparr>mp_id = ''b'', mp_lat = Fin (- 16), mp_lng = Fin (- 179), mp_occurred = None, mp_added = [], mp_detected = False\<rparr>,
     \<lparr>mp_id = ''c'', mp_lat = Nan, mp_lng = Fin 0, mp_occurred = None, mp_added = [], mp_detected = False\<rparr>]"

text \<open>Points on both sides of the antimeridian are framed across it.\<close>

lemma fiji_box: "pointsBounds fiji = Some \<lparr>south = Fin (- 17), west = Fin 179, north = Fin (- 16), east = Fin 181\<rparr>"
  by (simp add: pointsBounds_def fiji_def hasFiniteCoords_def sort_numbers_def sort_by_def compare_on_def shorter_arc_def
      widest_gap_def gap_step_def wrap_gap_def inner_gap_def f_sub_def lower_of_def upper_of_def upt_rec)

lemma framing_box_encloses_the_points_witness:
  "case pointsBounds fiji of None \<Rightarrow> False
     | Some b \<Rightarrow> east b = Fin 181 \<and> list_all (enclosed b) (filter hasFiniteCoords fiji)"
proof -
  have "\<forall>p \<in> set fiji. served_point p"
    by (simp add: fiji_def served_point_def hasFiniteCoords_def coordinate_bounds)
  from framing_box_encloses_the_points [OF this] show ?thesis by (simp add: fiji_box)
qed

end
