(* ===== verification/Collections.thy ===== *)
theory Collections
  imports Event_Forms Map_Bounds
begin

text \<open>
  \<open>lib/collections.ts\<close> but its search selection (\<open>Search_Selection\<close>), \<open>hooks/useCollectionSequence.ts\<close>, and
  the reading page of a collection: \<open>app/collections/[id]/page.tsx\<close>, \<open>CollectionCoverage.tsx\<close> and
  \<open>CollectionItems.tsx\<close>.
\<close>

section \<open>Routes\<close>

definition COLLECTION_TITLE_MAX_LEN :: nat where
  "COLLECTION_TITLE_MAX_LEN = 255"

definition COLLECTION_DESCRIPTION_MAX_LEN :: nat where
  "COLLECTION_DESCRIPTION_MAX_LEN = 500"

definition collection_href :: "jsstring \<Rightarrow> jsstring" where
  "collection_href cid = ''/collections/'' @ encode_uri_component cid"

definition collection_edit_href :: "jsstring \<Rightarrow> jsstring" where
  "collection_edit_href cid = collection_href cid @ ''/edit''"

definition NEW_COLLECTION_EVENT_PARAM :: jsstring where
  "NEW_COLLECTION_EVENT_PARAM = ''event''"

definition new_collection_href :: "jsstring option \<Rightarrow> jsstring" where
  "new_collection_href event_id = (case event_id of
       Some e \<Rightarrow> if e \<noteq> [] then ''/collections/new?'' @ NEW_COLLECTION_EVENT_PARAM @ ''='' @ encode_uri_component e
         else ''/collections/new''
     | None \<Rightarrow> ''/collections/new'')"

definition user_collections_path :: "jsstring \<Rightarrow> nat \<Rightarrow> jsstring" where
  "user_collections_path user per_page =
     ''/users/'' @ encode_uri_component user @ ''/collections?per_page='' @ nat_text per_page"

definition event_collections_path :: "jsstring \<Rightarrow> jsstring" where
  "event_collections_path eid = ''/events/'' @ encode_uri_component eid @ ''/collections''"

definition collection_events_path :: "jsstring \<Rightarrow> jsstring option \<Rightarrow> jsstring" where
  "collection_events_path cid cursor = with_cursor (''/collections/'' @ encode_uri_component cid @ ''/events'') cursor"

definition collection_step_href :: "jsstring \<Rightarrow> nat \<Rightarrow> jsstring" where
  "collection_step_href cid step = collection_href cid @ ''?step='' @ nat_text step"

section \<open>The sequence\<close>

definition READER_MAX_ITEMS :: nat where
  "READER_MAX_ITEMS = 500"

text \<open>
  The \<open>for (;;)\<close> over \<open>apiFetchPage\<close>: the \<open>n\<close>-th request of the read is answered \<open>srv n path\<close>, with a page
  and the cursor of its \<open>Link\<close> header, or a throw.
\<close>

type_synonym 'i page_source = "nat \<Rightarrow> jsstring \<Rightarrow> thrown + 'i list \<times> jsstring option"

partial_function (option) sequence_loop ::
    "'i page_source \<Rightarrow> jsstring \<Rightarrow> nat \<Rightarrow> 'i list \<Rightarrow> jsstring option \<Rightarrow> (thrown + 'i list) option" where
  "sequence_loop srv cid n rows cursor = (case srv n (collection_events_path cid cursor) of
       Inl err \<Rightarrow> Some (Inl err)
     | Inr (page, after) \<Rightarrow>
         let held = rows @ page
         in if READER_MAX_ITEMS \<le> length held then Some (Inr (take READER_MAX_ITEMS held))
            else (case after of None \<Rightarrow> Some (Inr held) | Some c \<Rightarrow> sequence_loop srv cid (Suc n) held (Some c)))"

definition fetch_collection_sequence :: "'i page_source \<Rightarrow> jsstring \<Rightarrow> (thrown + 'i list) option" where
  "fetch_collection_sequence srv cid = sequence_loop srv cid 0 [] None"

text \<open>\<open>useCollectionSequence\<close>: what is kept names the collection it answers; a cleanup aborts the read.\<close>

record 'i sequence_result =
  sq_items :: "'i list option"
  sq_error :: "jsstring option"
  sq_id :: "jsstring option"

record 'i sequence_hook =
  sh_id :: jsstring
  sh_result :: "'i sequence_result"
  sh_reading :: "jsstring option"

definition FAILED_TO_READ :: jsstring where
  "FAILED_TO_READ = ''Failed to read this collection''"

definition sequence_effect :: "'i sequence_hook \<Rightarrow> 'i sequence_hook" where
  "sequence_effect st = st\<lparr>sh_reading := (if sh_id st = [] then None else Some (sh_id st))\<rparr>"

definition sequence_mount :: "jsstring \<Rightarrow> 'i sequence_hook" where
  "sequence_mount cid = sequence_effect
     \<lparr>sh_id = cid, sh_result = \<lparr>sq_items = None, sq_error = None, sq_id = None\<rparr>, sh_reading = None\<rparr>"

definition sequence_render :: "jsstring \<Rightarrow> 'i sequence_hook \<Rightarrow> 'i sequence_hook" where
  "sequence_render cid st = (if cid = sh_id st then st else sequence_effect (st\<lparr>sh_id := cid\<rparr>))"

definition sequence_lands :: "thrown + 'i list \<Rightarrow> 'i sequence_hook \<Rightarrow> 'i sequence_hook" where
  "sequence_lands outcome st = (case sh_reading st of
       None \<Rightarrow> st
     | Some cid \<Rightarrow> st\<lparr>sh_reading := None, sh_result := (case outcome of
           Inr walk \<Rightarrow> \<lparr>sq_items = Some walk, sq_error = None, sq_id = Some cid\<rparr>
         | Inl err \<Rightarrow> \<lparr>sq_items = None, sq_error = Some (error_message err FAILED_TO_READ), sq_id = Some cid\<rparr>)\<rparr>)"

definition sequence_fresh :: "'i sequence_hook \<Rightarrow> 'i sequence_result option" where
  "sequence_fresh st = (if sq_id (sh_result st) = Some (sh_id st) then Some (sh_result st) else None)"

definition sequence_items :: "'i sequence_hook \<Rightarrow> 'i list option" where
  "sequence_items st = (case sequence_fresh st of Some r \<Rightarrow> sq_items r | None \<Rightarrow> None)"

definition sequence_error :: "'i sequence_hook \<Rightarrow> jsstring option" where
  "sequence_error st = (case sequence_fresh st of Some r \<Rightarrow> sq_error r | None \<Rightarrow> None)"

definition sequence_loading :: "'i sequence_hook \<Rightarrow> bool" where
  "sequence_loading st \<longleftrightarrow> sequence_fresh st = None"

text \<open>A page's renders and the end of its reads; a read in flight keeps the page loading.\<close>

datatype 'i sequence_event = Open_collection jsstring | Read_ends "'i page_source"

fun sequence_step :: "'i sequence_event \<Rightarrow> 'i sequence_hook \<Rightarrow> 'i sequence_hook" where
  "sequence_step (Open_collection cid) st = sequence_render cid st"
| "sequence_step (Read_ends srv) st = (case sh_reading st of
       None \<Rightarrow> st
     | Some cid \<Rightarrow> (case fetch_collection_sequence srv cid of None \<Rightarrow> st | Some outcome \<Rightarrow> sequence_lands outcome st))"

section \<open>The step\<close>

text \<open>\<open>parseInt\<close> rounds a number of more than 53 bits; \<open>total\<close>, the length of an array, is below those.\<close>

definition reader_step :: "jsstring option \<Rightarrow> nat \<Rightarrow> nat" where
  "reader_step raw n = (if n = 0 then 1 else (case raw of
       None \<Rightarrow> 1
     | Some s \<Rightarrow> if s = [] \<or> \<not> list_all is_digit s then 1 else min (max (digits_value s) 1) n))"

text \<open>
  The arrow keys of \<open>CollectionCoverage\<close>: \<open>walked\<close> runs ahead of the step of the URL, which the router
  reaches later. A press is the key, whether a modifier is held and whether a field has the caret.
\<close>

datatype step_key = Arrow_left | Arrow_right | Other_key

record step_walk =
  sw_total :: nat
  sw_step :: nat
  sw_walked :: int
  sw_asked :: "nat list"

definition step_key_down :: "step_key \<Rightarrow> bool \<Rightarrow> bool \<Rightarrow> step_walk \<Rightarrow> bool \<times> step_walk" where
  "step_key_down key modifier typing st =
     (if key = Other_key \<or> modifier \<or> typing then (False, st)
      else (let after = sw_walked st + (if key = Arrow_left then -1 else 1)
        in if after < 1 \<or> int (sw_total st) < after then (False, st)
           else (True, st\<lparr>sw_walked := after, sw_asked := sw_asked st @ [nat after]\<rparr>)))"

text \<open>The URL lands on a step: \<open>readerStep\<close> clamps it, and the effect on \<open>step\<close> runs when it changed.\<close>

definition step_lands :: "jsstring option \<Rightarrow> step_walk \<Rightarrow> step_walk" where
  "step_lands raw st = (let step = reader_step raw (sw_total st)
     in if step = sw_step st then st else st\<lparr>sw_step := step, sw_walked := int step\<rparr>)"

text \<open>The events of the page.\<close>

datatype step_event = Key step_key bool bool | Url "jsstring option"

fun step_walk_step :: "step_event \<Rightarrow> step_walk \<Rightarrow> step_walk" where
  "step_walk_step (Key key modifier typing) st = snd (step_key_down key modifier typing st)"
| "step_walk_step (Url raw) st = step_lands raw st"

definition step_open :: "nat \<Rightarrow> jsstring option \<Rightarrow> step_walk" where
  "step_open n raw = \<lparr>sw_total = n, sw_step = reader_step raw n, sw_walked = int (reader_step raw n), sw_asked = []\<rparr>"

text \<open>The rows the list shows: whole pages, down to the one with the step.\<close>

definition LIST_PAGE_SIZE :: nat where
  "LIST_PAGE_SIZE = 20"

definition visible_rows :: "nat \<Rightarrow> nat \<Rightarrow> nat" where
  "visible_rows shown step = max shown (((step + LIST_PAGE_SIZE - 1) div LIST_PAGE_SIZE) * LIST_PAGE_SIZE)"

definition more_rows :: "nat \<Rightarrow> nat \<Rightarrow> nat" where
  "more_rows shown step = visible_rows shown step + LIST_PAGE_SIZE"

section \<open>Rows of the picker\<close>

definition COLLECTABLE_STATUSES :: "event_status list" where
  "COLLECTABLE_STATUSES = [Geolocated, Detected]"

record pickable =
  pk_id :: jsstring
  pk_title :: jsstring
  pk_status :: event_status
  pk_media :: "media option"
  pk_graphic :: bool
  pk_date :: "jsstring option"
  pk_coords :: "coordinate_pair option"
  pk_tags :: "tag list"

definition PICKER_ROW_LIMIT :: nat where
  "PICKER_ROW_LIMIT = 5"

definition status_text :: "event_status \<Rightarrow> jsstring" where
  "status_text s = (case s of Requested \<Rightarrow> ''requested'' | Detected \<Rightarrow> ''detected''
     | Geolocated \<Rightarrow> ''geolocated'' | Closed \<Rightarrow> ''closed'')"

definition picker_browse_path :: "jsstring \<Rightarrow> jsstring option \<Rightarrow> jsstring \<times> params" where
  "picker_browse_path user cursor = event_list_path
     \<lparr>el_view = Some ''located'',
      el_filters = EMPTY_FILTERS\<lparr>f_show := map status_text COLLECTABLE_STATUSES, f_author := user\<rparr>,
      el_sort = None, el_limit = Some PICKER_ROW_LIMIT, el_cursor = cursor\<rparr>"

definition pickable_from_detail :: "event \<Rightarrow> pickable" where
  "pickable_from_detail e = \<lparr>pk_id = e_id e, pk_title = e_title e, pk_status = e_status e, pk_media = e_thumbnail e,
     pk_graphic = e_graphic e, pk_date = e_date e, pk_coords = e_coords e, pk_tags = e_tags e\<rparr>"

record event_hit =
  eh_id :: jsstring
  eh_title :: jsstring
  eh_status :: event_status
  eh_media :: "media list"
  eh_graphic :: bool
  eh_date :: "jsstring option"
  eh_lat :: "rat option"
  eh_lng :: "rat option"
  eh_tags :: "tag list"
  eh_owner :: author
  eh_geolocators :: "author list"

text \<open>A hit of any other type carries its type.\<close>

datatype search_hit = Event_hit event_hit | Other_hit jsstring

definition event_hits :: "search_hit list \<Rightarrow> event_hit list" where
  "event_hits hits = List.map_filter (\<lambda>h. case h of Event_hit e \<Rightarrow> Some e | Other_hit _ \<Rightarrow> None) hits"

definition pickable_from_hit :: "event_hit \<Rightarrow> pickable" where
  "pickable_from_hit h = \<lparr>pk_id = eh_id h, pk_title = eh_title h, pk_status = eh_status h,
     pk_media = (case eh_media h of [] \<Rightarrow> None | m # _ \<Rightarrow> Some m), pk_graphic = eh_graphic h, pk_date = eh_date h,
     pk_coords = (case (eh_lat h, eh_lng h) of (Some y, Some x) \<Rightarrow> Some \<lparr>lat = y, lng = x\<rparr> | _ \<Rightarrow> None),
     pk_tags = eh_tags h\<rparr>"

section \<open>Lines and pins\<close>

definition event_count_label :: "nat \<Rightarrow> jsstring" where
  "event_count_label n = count_label n ''event''"

text \<open>\<open>day\<close> stands for \<open>formatDate\<close>, which needs the calendar of the platform (\<open>Format.format_date\<close>).\<close>

definition collection_span_label :: "(jsstring \<Rightarrow> jsstring) \<Rightarrow> jsstring option \<Rightarrow> jsstring option \<Rightarrow> jsstring option" where
  "collection_span_label day earliest latest = (case (earliest, latest) of
       (Some f, Some l) \<Rightarrow> if f = [] \<or> l = [] then None
         else Some (if f = l then day f else day f @ '' to '' @ day l)
     | _ \<Rightarrow> None)"

definition collection_meta_segments ::
    "(jsstring \<Rightarrow> jsstring) \<Rightarrow> nat \<Rightarrow> jsstring option \<Rightarrow> jsstring option \<Rightarrow> jsstring list" where
  "collection_meta_segments day n earliest latest =
     event_count_label n # (case collection_span_label day earliest latest of
       Some line \<Rightarrow> if line \<noteq> [] then [line] else [] | None \<Rightarrow> [])"

text \<open>A row with coordinates is a pin.\<close>

definition collection_points :: "pickable list \<Rightarrow> map_point list" where
  "collection_points rows = List.map_filter (\<lambda>r. map_option (\<lambda>c.
     \<lparr>mp_id = pk_id r, mp_lat = Fin (lat c), mp_lng = Fin (lng c), mp_occurred = pk_date r,
      mp_added = (case pk_date r of Some d \<Rightarrow> d | None \<Rightarrow> []), mp_detected = (pk_status r = Detected)\<rparr>) (pk_coords r)) rows"

section \<open>The read returns\<close>

definition pages_move :: "'i page_source \<Rightarrow> bool" where
  "pages_move srv \<longleftrightarrow> (\<forall>n p rows c. srv n p = Inr (rows, Some c) \<longrightarrow> rows \<noteq> [])"

lemma loop_returns:
  assumes "pages_move srv"
  shows "length rows < READER_MAX_ITEMS \<Longrightarrow>
    \<exists>r. sequence_loop srv cid n rows cursor = Some r \<and> (\<forall>seq. r = Inr seq \<longrightarrow> length seq \<le> READER_MAX_ITEMS)"
proof (induction "READER_MAX_ITEMS - length rows" arbitrary: n rows cursor rule: less_induct)
  case less
  note unfold = sequence_loop.simps [of srv cid n rows cursor]
  show ?case
  proof (cases "srv n (collection_events_path cid cursor)")
    case (Inl err)
    then show ?thesis by (simp add: unfold)
  next
    case (Inr answer)
    then obtain page after where page: "srv n (collection_events_path cid cursor) = Inr (page, after)" by (cases answer) simp
    show ?thesis
    proof (cases "READER_MAX_ITEMS \<le> length (rows @ page) \<or> after = None")
      case True
      then show ?thesis by (auto simp: unfold page Let_def split: option.splits)
    next
      case False
      then obtain c where c: "after = Some c" "length (rows @ page) < READER_MAX_ITEMS" by auto
      then have "page \<noteq> []" using assms page unfolding pages_move_def by blast
      then have "READER_MAX_ITEMS - length (rows @ page) < READER_MAX_ITEMS - length rows" using c less.prems by (cases page) auto
      from less.hyps [OF this c(2)] c show ?thesis by (simp add: unfold page)
    qed
  qed
qed

text \<open>
  C24. A read of a collection ends: where each page that names a next one carries a row, it returns the
  throw of a request or at most 500 rows, whatever the server answers.
\<close>

theorem sequence_read_returns:
  assumes "pages_move srv"
  shows "\<exists>r. fetch_collection_sequence srv cid = Some r \<and> (\<forall>seq. r = Inr seq \<longrightarrow> length seq \<le> READER_MAX_ITEMS)"
  unfolding fetch_collection_sequence_def by (rule loop_returns [OF assms]) (simp add: READER_MAX_ITEMS_def)

definition one_row_forever :: "nat page_source" where
  "one_row_forever n p = Inr ([n], Some ''c'')"

lemma sequence_read_returns_witness:
  "\<exists>r. fetch_collection_sequence one_row_forever ''k'' = Some r \<and> (\<forall>seq. r = Inr seq \<longrightarrow> length seq \<le> READER_MAX_ITEMS)"
  by (rule sequence_read_returns) (simp add: pages_move_def one_row_forever_def)

text \<open>The walk of a server that answers: the rows of its first \<open>k\<close> pages.\<close>

fun walk_rows :: "(nat \<Rightarrow> jsstring \<Rightarrow> 'i list \<times> jsstring option) \<Rightarrow> jsstring \<Rightarrow> nat \<Rightarrow> nat \<Rightarrow> jsstring option \<Rightarrow> 'i list" where
  "walk_rows srv cid 0 n cursor = []"
| "walk_rows srv cid (Suc k) n cursor = (case srv n (collection_events_path cid cursor) of
       (page, None) \<Rightarrow> page
     | (page, Some c) \<Rightarrow> page @ walk_rows srv cid k (Suc n) (Some c))"

lemma loop_walks:
  assumes "\<And>n p rows c. srv n p = (rows, Some c) \<Longrightarrow> rows \<noteq> []"
  shows "length rows < READER_MAX_ITEMS \<Longrightarrow> READER_MAX_ITEMS - length rows \<le> k \<Longrightarrow>
    sequence_loop (\<lambda>n p. Inr (srv n p)) cid n rows cursor =
      Some (Inr (take READER_MAX_ITEMS (rows @ walk_rows srv cid k n cursor)))"
proof (induction k arbitrary: n rows cursor)
  case (Suc k)
  obtain page after where page: "srv n (collection_events_path cid cursor) = (page, after)" by fastforce
  note unfold = sequence_loop.simps [of "\<lambda>n p. Inr (srv n p)" cid n rows cursor]
  show ?case
  proof (cases after)
    case None
    then show ?thesis by (simp add: unfold page Let_def)
  next
    case (Some c)
    then have "page \<noteq> []" using assms page by blast
    then have more: "length rows < length (rows @ page)" by (cases page) auto
    show ?thesis
    proof (cases "READER_MAX_ITEMS \<le> length (rows @ page)")
      case True
      then show ?thesis by (simp add: unfold page Some)
    next
      case False
      then have "READER_MAX_ITEMS - length (rows @ page) \<le> k" using Suc.prems(2) more by linarith
      from Suc.IH [OF _ this] False show ?thesis by (simp add: unfold page Some)
    qed
  qed
qed simp

text \<open>
  What a read returns is the collection from its first page: the rows of its pages in order, cut at
  500 when there are more; 500 pages are always enough to tell.
\<close>

theorem sequence_is_the_walk:
  assumes "\<And>n p rows c. srv n p = (rows, Some c) \<Longrightarrow> rows \<noteq> []"
  shows "fetch_collection_sequence (\<lambda>n p. Inr (srv n p)) cid =
    Some (Inr (take READER_MAX_ITEMS (walk_rows srv cid READER_MAX_ITEMS 0 None)))"
  unfolding fetch_collection_sequence_def using loop_walks [of srv "[]", OF assms] by (simp add: READER_MAX_ITEMS_def)

definition two_pages :: "nat \<Rightarrow> jsstring \<Rightarrow> nat list \<times> jsstring option" where
  "two_pages n p = (if p = ''/collections/k/events'' then ([1, 2], Some ''x'') else ([3], None))"

lemma sequence_is_the_walk_witness:
  "fetch_collection_sequence (\<lambda>n p. Inr (two_pages n p)) ''k'' =
    Some (Inr (take READER_MAX_ITEMS (walk_rows two_pages ''k'' READER_MAX_ITEMS 0 None)))"
  by (rule sequence_is_the_walk) (auto simp: two_pages_def split: if_splits)

section \<open>What the page shows\<close>

definition answered :: "'i page_source \<Rightarrow> jsstring \<Rightarrow> 'i sequence_result \<Rightarrow> bool" where
  "answered srv cid r \<longleftrightarrow> (case fetch_collection_sequence srv cid of
       Some (Inr rows) \<Rightarrow> sq_items r = Some rows \<and> sq_error r = None
     | Some (Inl err) \<Rightarrow> sq_items r = None \<and> sq_error r = Some (error_message err FAILED_TO_READ)
     | None \<Rightarrow> False)"

definition sequence_ok :: "'i page_source \<Rightarrow> 'i sequence_hook \<Rightarrow> bool" where
  "sequence_ok srv st \<longleftrightarrow> (sh_reading st = None \<or> sh_reading st = Some (sh_id st)) \<and>
     (\<forall>cid. sq_id (sh_result st) = Some cid \<longrightarrow> answered srv cid (sh_result st))"

lemma sequence_ok_mount: "sequence_ok srv (sequence_mount cid)"
  by (simp add: sequence_ok_def sequence_mount_def sequence_effect_def)

lemma sequence_ok_open: "sequence_ok srv st \<Longrightarrow> sequence_ok srv (sequence_step (Open_collection cid) st)"
  by (simp add: sequence_ok_def sequence_render_def sequence_effect_def)

lemma sequence_ok_ends: "sequence_ok srv st \<Longrightarrow> sequence_ok srv (sequence_step (Read_ends srv) st)"
  by (auto simp: sequence_ok_def sequence_lands_def answered_def split: option.splits sum.splits)

lemma sequence_ok_step: "sequence_ok srv st \<Longrightarrow> e = Read_ends srv \<or> (\<exists>cid. e = Open_collection cid) \<Longrightarrow> sequence_ok srv (sequence_step e st)"
  using sequence_ok_open sequence_ok_ends by blast

lemma sequence_ok_run:
  "\<forall>e \<in> set es. e = Read_ends srv \<or> (\<exists>cid. e = Open_collection cid) \<Longrightarrow> sequence_ok srv st \<Longrightarrow> sequence_ok srv (fold sequence_step es st)"
  by (induction es arbitrary: st) (auto intro: sequence_ok_step)

text \<open>
  Whatever collections a page is opened on, and however its reads interleave with that, the rows it
  shows are the read of the collection it is on, and so is its error.
\<close>

theorem page_shows_its_collection:
  assumes "\<forall>e \<in> set es. e = Read_ends srv \<or> (\<exists>cid. e = Open_collection cid)"
    and "st = fold sequence_step es (sequence_mount cid)" and "\<not> sequence_loading st"
  shows "(case fetch_collection_sequence srv (sh_id st) of
      Some (Inr rows) \<Rightarrow> sequence_items st = Some rows \<and> sequence_error st = None
    | Some (Inl err) \<Rightarrow> sequence_items st = None \<and> sequence_error st = Some (error_message err FAILED_TO_READ)
    | None \<Rightarrow> False)"
proof -
  have "sequence_ok srv st" unfolding assms(2) by (rule sequence_ok_run [OF assms(1) sequence_ok_mount])
  moreover have "sq_id (sh_result st) = Some (sh_id st)"
    using assms(3) by (simp add: sequence_loading_def sequence_fresh_def split: if_splits)
  ultimately show ?thesis
    by (auto simp: sequence_ok_def answered_def sequence_items_def sequence_error_def sequence_fresh_def split: option.splits sum.splits)
qed

definition two_opened :: "nat sequence_event list" where
  "two_opened = [Open_collection ''k'', Read_ends (\<lambda>n p. Inr (two_pages n p))]"

lemma two_pages_read: "fetch_collection_sequence (\<lambda>n p. Inr (two_pages n p)) ''k'' = Some (Inr [1, 2, 3])"
  by (simp add: fetch_collection_sequence_def sequence_loop.simps two_pages_def collection_events_path_def with_cursor_def
      encode_uri_component_def encode_char_def uri_unreserved_def is_alnum_def is_alpha_def is_digit_def READER_MAX_ITEMS_def)

lemma two_opened_ends:
  "fold sequence_step two_opened (sequence_mount ''j'') =
     \<lparr>sh_id = ''k'', sh_result = \<lparr>sq_items = Some [1, 2, 3], sq_error = None, sq_id = Some ''k''\<rparr>, sh_reading = None\<rparr>"
  by (simp add: two_opened_def sequence_mount_def sequence_render_def sequence_effect_def two_pages_read sequence_lands_def)

lemma page_shows_its_collection_witness:
  "let st = fold sequence_step two_opened (sequence_mount ''j'')
   in (case fetch_collection_sequence (\<lambda>n p. Inr (two_pages n p)) (sh_id st) of
      Some (Inr rows) \<Rightarrow> sequence_items st = Some rows \<and> sequence_error st = None
    | Some (Inl err) \<Rightarrow> sequence_items st = None \<and> sequence_error st = Some (error_message err FAILED_TO_READ)
    | None \<Rightarrow> False)"
  unfolding Let_def
  by (rule page_shows_its_collection [OF _ refl])
    (simp add: two_opened_def, simp add: two_opened_ends sequence_loading_def sequence_fresh_def)

section \<open>The step stays in the sequence\<close>

definition in_sequence :: "nat \<Rightarrow> int \<Rightarrow> bool" where
  "in_sequence n i \<longleftrightarrow> 1 \<le> i \<and> i \<le> int (max n 1)"

definition step_ok :: "step_walk \<Rightarrow> bool" where
  "step_ok st \<longleftrightarrow> in_sequence (sw_total st) (int (sw_step st)) \<and> in_sequence (sw_total st) (sw_walked st) \<and>
     list_all (\<lambda>i. 1 \<le> i \<and> i \<le> sw_total st) (sw_asked st)"

lemma reader_step_in: "in_sequence n (int (reader_step raw n))"
  by (auto simp: in_sequence_def reader_step_def split: option.splits)

lemma step_ok_open: "step_ok (step_open n raw)"
  by (simp add: step_ok_def step_open_def reader_step_in)

lemma step_ok_step: "step_ok st \<Longrightarrow> step_ok (step_walk_step e st)"
  by (cases e) (auto simp: step_ok_def step_key_down_def step_lands_def Let_def reader_step_in, auto simp: in_sequence_def)

lemma step_ok_run: "step_ok st \<Longrightarrow> step_ok (fold step_walk_step es st)"
  by (induction es arbitrary: st) (auto intro: step_ok_step)

text \<open>
  Whatever \<open>?step=\<close> a link carries and however the arrow keys race the URL, the reader stands on
  one of the collection's items, and every step the keys ask the router for exists.
\<close>

theorem reader_stays_in_the_sequence: "step_ok (fold step_walk_step es (step_open n raw))"
  by (rule step_ok_run [OF step_ok_open])

text \<open>A held key walks on whatever the URL does not yet say.\<close>

lemma held_key_walks:
  "int n \<le> int (sw_total st) - sw_walked st \<Longrightarrow> 1 \<le> sw_walked st \<Longrightarrow>
   sw_walked (fold step_walk_step (replicate n (Key Arrow_right False False)) st) = sw_walked st + int n"
  by (induction n arbitrary: st) (auto simp: step_key_down_def Let_def)

text \<open>The row of the step is among the rows shown.\<close>

lemma step_is_visible: "step \<le> visible_rows shown step"
proof -
  have "step + 20 - 1 < ((step + 20 - 1) div 20) * 20 + 20" using div_mult_mod_eq [of "step + 20 - 1" 20] by simp
  then show ?thesis by (simp add: visible_rows_def LIST_PAGE_SIZE_def)
qed

end
