(* ===== verification/Js_Parse.thy ===== *)
theory Js_Parse
  imports Js_Stringify Js_Regex
begin

text \<open>
  \<open>JSON.parse\<close>: the grammar of JSON texts with its escapes, \<open>None\<close> for a \<open>SyntaxError\<close>. An escape
  past Latin-1 names a code unit the model's strings do not hold and is refused with the errors. The
  nesting is read with fuel; the length of the text is enough, as the round trip shows.
\<close>

definition json_space :: "char \<Rightarrow> bool" where
  "json_space c \<longleftrightarrow> c \<in> {CHR 0x09, CHR 0x0A, CHR 0x0D, CHR '' ''}"

definition skip_space :: "jsstring \<Rightarrow> jsstring" where
  "skip_space s = dropWhile json_space s"

text \<open>A mark, past any space before it.\<close>

definition expect :: "char \<Rightarrow> jsstring \<Rightarrow> jsstring option" where
  "expect c s = (case skip_space s of d # u \<Rightarrow> if d = c then Some u else None | [] \<Rightarrow> None)"

definition json_unescape :: "char \<Rightarrow> char option" where
  "json_unescape c = map_of [(CHR ''b'', CHR 0x08), (CHR ''t'', CHR 0x09), (CHR ''n'', CHR 0x0A), (CHR ''f'', CHR 0x0C),
     (CHR ''r'', CHR 0x0D), (dquote, dquote), (backslash, backslash), (CHR ''/'', CHR ''/'')] c"

definition hex_code :: "char \<Rightarrow> char \<Rightarrow> char \<Rightarrow> char \<Rightarrow> char option" where
  "hex_code a b c d = (case (hex_value a, hex_value b, hex_value c, hex_value d) of
       (Some w, Some x, Some y, Some z) \<Rightarrow> if w = 0 \<and> x = 0 then Some (char_of (16 * y + z)) else None
     | _ \<Rightarrow> None)"

text \<open>The characters of a string up to its closing quote, and what follows it.\<close>

fun parse_chars :: "jsstring \<Rightarrow> (jsstring \<times> jsstring) option" where
  "parse_chars [] = None"
| "parse_chars (c # s) =
     (if c = dquote then Some ([], s)
      else if c = backslash then
        (case s of
           [] \<Rightarrow> None
         | e # t \<Rightarrow> (if e = CHR ''u'' then
             (case t of
                h1 # h2 # h3 # h4 # u \<Rightarrow> (case hex_code h1 h2 h3 h4 of
                    Some d \<Rightarrow> map_option (\<lambda>(ds, r). (d # ds, r)) (parse_chars u) | None \<Rightarrow> None)
              | _ \<Rightarrow> None)
           else (case json_unescape e of
               Some d \<Rightarrow> map_option (\<lambda>(ds, r). (d # ds, r)) (parse_chars t) | None \<Rightarrow> None)))
      else if (of_char c :: nat) < 32 then None
      else map_option (\<lambda>(ds, r). (c # ds, r)) (parse_chars s))"

definition JSON_NUMBER :: rx where
  "JSON_NUMBER = RSeq (ROpt (RLit ''-'')) (RSeq (RAlt (RLit ''0'')
     (RSeq (RCls (\<lambda>c. is_digit c \<and> c \<noteq> CHR ''0'')) (RStar (RCls is_digit))))
     (RSeq (ROpt (RSeq (RLit ''.'') (RPlus (RCls is_digit))))
       (ROpt (RSeq (RLitI ''e'') (RSeq (ROpt (RCls (\<lambda>c. c = CHR ''+'' \<or> c = CHR ''-''))) (RPlus (RCls is_digit)))))))"

definition parse_number :: "jsstring \<Rightarrow> (json \<times> jsstring) option" where
  "parse_number s = (let number = takeWhile (\<lambda>c. number_char c \<or> c = CHR ''E'') s
     in if rx_match JSON_NUMBER number
        then map_option (\<lambda>x. (JNum x, dropWhile (\<lambda>c. number_char c \<or> c = CHR ''E'') s)) (js_number number) else None)"

definition parse_literal :: "jsstring \<Rightarrow> json \<Rightarrow> jsstring \<Rightarrow> (json \<times> jsstring) option" where
  "parse_literal word v s = (if starts_with s word then Some (v, drop (length word) s) else None)"

text \<open>A repeated key keeps the place of its first and the value of its last.\<close>

fun put_member :: "(jsstring \<times> json) list \<Rightarrow> jsstring \<Rightarrow> json \<Rightarrow> (jsstring \<times> json) list" where
  "put_member [] k v = [(k, v)]"
| "put_member ((j, w) # kvs) k v = (if j = k then (j, v) # kvs else (j, w) # put_member kvs k v)"

fun parse_value :: "nat \<Rightarrow> jsstring \<Rightarrow> (json \<times> jsstring) option"
  and parse_items :: "nat \<Rightarrow> jsstring \<Rightarrow> (json list \<times> jsstring) option"
  and parse_members :: "nat \<Rightarrow> (jsstring \<times> json) list \<Rightarrow> jsstring \<Rightarrow> ((jsstring \<times> json) list \<times> jsstring) option" where
  "parse_value 0 s = None"
| "parse_value (Suc n) s = (case skip_space s of
       [] \<Rightarrow> None
     | c # r \<Rightarrow>
         if c = dquote then map_option (\<lambda>(t, u). (JStr t, u)) (parse_chars r)
         else if c = CHR ''['' then (case expect CHR '']'' r of
             Some u \<Rightarrow> Some (JArr [], u)
           | None \<Rightarrow> map_option (\<lambda>(vs, u). (JArr vs, u)) (parse_items n r))
         else if c = CHR ''{'' then (case expect CHR ''}'' r of
             Some u \<Rightarrow> Some (JObj [], u)
           | None \<Rightarrow> map_option (\<lambda>(kvs, u). (JObj kvs, u)) (parse_members n [] r))
         else if c = CHR ''n'' then parse_literal ''null'' JNull (c # r)
         else if c = CHR ''t'' then parse_literal ''true'' (JBool True) (c # r)
         else if c = CHR ''f'' then parse_literal ''false'' (JBool False) (c # r)
         else parse_number (c # r))"
| "parse_items 0 s = None"
| "parse_items (Suc n) s = (case parse_value n s of
       None \<Rightarrow> None
     | Some (v, t) \<Rightarrow> (case expect CHR '','' t of
         Some u \<Rightarrow> map_option (\<lambda>(vs, r). (v # vs, r)) (parse_items n u)
       | None \<Rightarrow> map_option (\<lambda>u. ([v], u)) (expect CHR '']'' t)))"
| "parse_members 0 kvs s = None"
| "parse_members (Suc n) kvs s = (case Option.bind (expect dquote s) parse_chars of
       None \<Rightarrow> None
     | Some (k, t) \<Rightarrow> (case Option.bind (expect CHR '':'' t) (parse_value n) of
         None \<Rightarrow> None
       | Some (v, u) \<Rightarrow> (case expect CHR '','' u of
           Some u' \<Rightarrow> parse_members n (put_member kvs k v) u'
         | None \<Rightarrow> map_option (\<lambda>u'. (put_member kvs k v, u')) (expect CHR ''}'' u))))"

definition json_parse :: "jsstring \<Rightarrow> json option" where
  "json_parse s = (case parse_value (Suc (length s)) s of
       Some (v, r) \<Rightarrow> if skip_space r = [] then Some v else None
     | None \<Rightarrow> None)"

section \<open>Reading back what is written\<close>

lemma json_unescape_escape: "json_escape c = Some d \<Longrightarrow> json_unescape d = Some c \<and> d \<noteq> CHR ''u''"
  by (auto simp: json_escape_def json_unescape_def dquote_def backslash_def split: if_splits)

lemma hex_value_lower: "k < 16 \<Longrightarrow> hex_value (hex_lower k) = Some k"
  by (auto simp: hex_value_def hex_lower_def is_digit_def Let_def)

lemma hex_code_lower: "(of_char c :: nat) < 32 \<Longrightarrow>
    hex_code CHR ''0'' CHR ''0'' (hex_lower (of_char c div 16)) (hex_lower (of_char c mod 16)) = Some c"
proof -
  assume "(of_char c :: nat) < 32"
  then have "(of_char c :: nat) div 16 < 16" by (simp add: div_less_iff_less_mult)
  moreover have "hex_value CHR ''0'' = Some 0" by (simp add: hex_value_def is_digit_def)
  moreover have "16 * ((of_char c :: nat) div 16) + of_char c mod 16 = of_char c" by simp
  ultimately show ?thesis by (simp add: hex_code_def hex_value_lower)
qed

lemma parse_json_char: "parse_chars (json_char c @ t) = map_option (\<lambda>(ds, r). (c # ds, r)) (parse_chars t)"
proof (cases "json_escape c")
  case (Some d)
  have "backslash \<noteq> dquote" by (simp add: backslash_def dquote_def)
  with Some json_unescape_escape [OF Some] show ?thesis by (simp add: json_char_def)
next
  case None
  have "backslash \<noteq> dquote" by (simp add: backslash_def dquote_def)
  show ?thesis
  proof (cases "(of_char c :: nat) < 32")
    case True
    with None \<open>backslash \<noteq> dquote\<close> hex_code_lower [OF True] show ?thesis by (simp add: json_char_def Let_def)
  next
    case False
    moreover have "c \<noteq> dquote" "c \<noteq> backslash" using None backslash_escaped by auto
    ultimately show ?thesis using None by (simp add: json_char_def Let_def)
  qed
qed

lemma parse_quoted: "parse_chars (concat (map json_char s) @ dquote # r) = Some (s, r)"
  by (induction s) (simp_all add: parse_json_char)

section \<open>The texts of numbers\<close>

lemma digits_value_less: "\<forall>c \<in> set ds. is_digit c \<Longrightarrow> digits_value ds < 10 ^ length ds"
proof (induction ds rule: rev_induct)
  case (snoc c ds)
  then have "digits_value ds < 10 ^ length ds" "digit_value c < 10"
    by (auto simp: is_digit_def digit_value_def)
  then show ?case by (simp add: digits_value_snoc)
qed simp

text \<open>Digits that do not start with a zero.\<close>

definition leading :: "nat \<times> int \<times> nat \<Rightarrow> bool" where
  "leading r \<longleftrightarrow> (case r of (s, n, k) \<Rightarrow> 1 \<le> k \<and> 10 ^ (k - 1) \<le> s \<and> s < 10 ^ k)"

lemma leading_hd:
  assumes "leading (s, n, k)"
  obtains c t where "pad_digits k s = c # t" "is_digit c" "c \<noteq> CHR ''0''" "\<forall>d \<in> set t. is_digit d" "length t = k - 1"
proof -
  obtain c t where ct: "pad_digits k s = c # t"
    using assms by (cases "pad_digits k s") (auto simp: leading_def simp flip: length_0_conv)
  then have d: "\<forall>d \<in> set (c # t). is_digit d" using pad_digits_digits [of _ k s] by auto
  have len: "length t = k - 1" using arg_cong [OF ct, of length] by simp
  have "c \<noteq> CHR ''0''"
  proof
    assume "c = CHR ''0''"
    then have "digit_value c = 0" by (simp add: digit_value_def)
    then have "digits_value (c # t) = digits_value t"
      using digits_value_append [of "[c]" t] by (simp add: digits_value_def)
    moreover have "digits_value t < 10 ^ (k - 1)" using digits_value_less [of t] d len by simp
    moreover have "digits_value (c # t) = s" using assms ct digits_value_pad [of k s] by (simp add: leading_def)
    ultimately show False using assms by (simp add: leading_def)
  qed
  with ct d len that show ?thesis by simp
qed

lemma nat_width_lower: "0 < n \<Longrightarrow> 10 ^ (nat_width n - 1) \<le> n"
proof (induction n rule: nat_width.induct)
  case (1 n)
  show ?case
  proof (cases "n < 10")
    case True
    with 1(2) show ?thesis by (simp add: nat_width.simps [of n])
  next
    case False
    then have "10 ^ (nat_width (n div 10) - 1) \<le> n div 10" using 1(1) by simp
    moreover obtain w where "nat_width (n div 10) = Suc w" using nat_width_pos [of "n div 10"] by (cases "nat_width (n div 10)") auto
    ultimately show ?thesis using False by (simp add: nat_width.simps [of n])
  qed
qed

lemma width_leading: "digits_of_width x n k = Some r \<Longrightarrow> 1 \<le> k \<Longrightarrow> leading r"
proof -
  assume r: "digits_of_width x n k = Some r" and k: "1 \<le> k"
  then obtain s where "10 ^ (k - 1) \<le> s" "s \<le> 10 ^ k" "r = (if s = 10 ^ k then (10 ^ (k - 1), n + 1, k) else (s, n, k))"
    by (auto simp: digits_of_width_def Let_def find_Some_iff split: if_splits)
  moreover have "(10 :: nat) ^ (k - 1) < 10 ^ k" using k by (intro power_strict_increasing) simp_all
  ultimately show ?thesis using k by (auto simp: leading_def)
qed

lemma shortest_from_leading: "shortest_from fuel x n k = Some r \<Longrightarrow> 1 \<le> k \<Longrightarrow> leading r"
  by (induction fuel x n k rule: shortest_from.induct) (auto split: option.splits dest: width_leading)

lemma exact_leading:
  assumes "is_double x" "0 < x"
  shows "leading (exact_digits x)"
proof -
  obtain p q where pq: "quotient_of x = (p, q)" by fastforce
  then have "0 < p" using assms(2) quotient_of_div [OF pq] quotient_of_denom_pos [OF pq]
    by (simp add: zero_less_divide_iff)
  then have "0 < nat p * 5 ^ (bit_length (nat q) - 1)" by simp
  then show ?thesis
    using nat_width_lower less_width nat_width_pos by (simp add: exact_digits_def pq Let_def leading_def Suc_le_eq)
qed

lemma shortest_leading: "is_double x \<Longrightarrow> 0 < x \<Longrightarrow> leading (shortest_digits x)"
  by (auto simp: shortest_digits_def exact_leading split: option.splits dest: shortest_from_leading)

definition JSON_INT :: rx where
  "JSON_INT = RAlt (RLit ''0'') (RSeq (RCls (\<lambda>c. is_digit c \<and> c \<noteq> CHR ''0'')) (RStar (RCls is_digit)))"

definition JSON_FRAC :: rx where
  "JSON_FRAC = ROpt (RSeq (RLit ''.'') (RPlus (RCls is_digit)))"

definition JSON_EXP :: rx where
  "JSON_EXP = ROpt (RSeq (RLitI ''e'') (RSeq (ROpt (RCls (\<lambda>c. c = CHR ''+'' \<or> c = CHR ''-''))) (RPlus (RCls is_digit))))"

lemma json_number_parts: "JSON_NUMBER = RSeq (ROpt (RLit ''-'')) (RSeq JSON_INT (RSeq JSON_FRAC JSON_EXP))"
  by (simp add: JSON_NUMBER_def JSON_INT_def JSON_FRAC_def JSON_EXP_def)

lemma seq_intro: "u \<in> rx_lang r \<Longrightarrow> v \<in> rx_lang q \<Longrightarrow> u @ v \<in> rx_lang (RSeq r q)"
  by auto

lemma lang_int: "is_digit c \<Longrightarrow> c \<noteq> CHR ''0'' \<Longrightarrow> \<forall>d \<in> set t. is_digit d \<Longrightarrow> c # t \<in> rx_lang JSON_INT"
  unfolding JSON_INT_def lang_alt seq_cls_iff by (simp add: lang_star_cls del: rx_lang.simps)

lemma lang_frac: "fs \<noteq> [] \<Longrightarrow> \<forall>d \<in> set fs. is_digit d \<Longrightarrow> CHR ''.'' # fs \<in> rx_lang JSON_FRAC" "[] \<in> rx_lang JSON_FRAC"
  unfolding JSON_FRAC_def lang_opt lang_seq_lit by (simp_all add: lang_plus_cls del: rx_lang.simps)

lemma lang_exp:
  assumes "c = CHR ''+'' \<or> c = CHR ''-''" "ds \<noteq> []" "\<forall>d \<in> set ds. is_digit d"
  shows "CHR ''e'' # c # ds \<in> rx_lang JSON_EXP" "[] \<in> rx_lang JSON_EXP"
proof -
  have "[c] @ ds \<in> rx_lang (RSeq (ROpt (RCls (\<lambda>c. c = CHR ''+'' \<or> c = CHR ''-''))) (RPlus (RCls is_digit)))"
    using assms by (intro seq_intro) (auto simp: lang_opt lang_plus_cls simp del: rx_lang.simps(4))
  moreover have "''e'' \<in> rx_lang (RLitI ''e'')" by (simp add: lang_litI)
  ultimately have "''e'' @ [c] @ ds \<in> rx_lang (RSeq (RLitI ''e'')
      (RSeq (ROpt (RCls (\<lambda>c. c = CHR ''+'' \<or> c = CHR ''-''))) (RPlus (RCls is_digit))))"
    by (rule seq_intro [rotated])
  then show "CHR ''e'' # c # ds \<in> rx_lang JSON_EXP" unfolding JSON_EXP_def lang_opt by simp
  show "[] \<in> rx_lang JSON_EXP" unfolding JSON_EXP_def lang_opt by simp
qed

lemma layout_lang:
  assumes "leading (s, n, k)"
  shows "layout_digits (s, n, k) \<in> rx_lang (RSeq JSON_INT (RSeq JSON_FRAC JSON_EXP))"
proof -
  obtain c t where ds: "pad_digits k s = c # t" "is_digit c" "c \<noteq> CHR ''0''" "\<forall>d \<in> set t. is_digit d" "length t = k - 1"
    by (rule leading_hd [OF assms])
  have k: "1 \<le> k" using assms by (simp add: leading_def)
  have z: "\<forall>d \<in> set (zeros i). is_digit d" for i using zeros_digits by blast
  have e0: "[] \<in> rx_lang JSON_EXP" by (rule lang_exp(2) [of "CHR ''+''" "''0''"]) simp_all
  note parts = seq_intro [OF _ seq_intro]
  consider "int k \<le> n" "n \<le> 21" | "0 < n" "n \<le> 21" "n < int k" | "-6 < n" "n \<le> 0"
    | "\<not> (int k \<le> n \<and> n \<le> 21)" "\<not> (0 < n \<and> n \<le> 21)" "\<not> (-6 < n \<and> n \<le> 0)" by linarith
  then show ?thesis
  proof cases
    case 1
    have "(c # t @ zeros (nat n - k)) @ [] @ [] \<in> rx_lang (RSeq JSON_INT (RSeq JSON_FRAC JSON_EXP))"
      using ds z by (intro parts lang_int lang_frac e0) auto
    with 1 show ?thesis by (simp add: layout_digits_def Let_def ds(1) del: rx_lang.simps)
  next
    case 2
    then obtain i where i: "nat n = Suc i" "i < length t" using ds(5) by (cases "nat n") auto
    have "(c # take i t) @ (CHR ''.'' # drop i t) @ [] \<in> rx_lang (RSeq JSON_INT (RSeq JSON_FRAC JSON_EXP))"
      using ds i by (intro parts lang_int lang_frac e0) (auto dest: in_set_takeD in_set_dropD)
    with 2 i show ?thesis by (simp add: layout_digits_def Let_def ds(1) del: rx_lang.simps)
  next
    case 3
    have "''0'' \<in> rx_lang JSON_INT" unfolding JSON_INT_def lang_alt lang_lit by simp
    then have "''0'' @ (CHR ''.'' # zeros (nat (- n)) @ c # t) @ [] \<in> rx_lang (RSeq JSON_INT (RSeq JSON_FRAC JSON_EXP))"
      using ds z by (intro parts lang_frac e0) auto
    with 3 k show ?thesis by (simp add: layout_digits_def Let_def ds(1) del: rx_lang.simps)
  next
    case 4
    let ?e = "(if 0 \<le> n - 1 then ''+'' else ''-'') @ nat_text (nat \<bar>n - 1\<bar>)"
    have m: "CHR ''e'' # (if b then ''+'' else ''-'') @ nat_text m \<in> rx_lang JSON_EXP" for b m
      using lang_exp(1) [of "CHR ''+''" "nat_text m"] lang_exp(1) [of "CHR ''-''" "nat_text m"] nat_text_digits
      by (cases b) simp_all
    have e: "CHR ''e'' # ?e \<in> rx_lang JSON_EXP" by (rule m)
    show ?thesis
    proof (cases "k = 1")
      case True
      with ds have t: "t = []" by simp
      have "[c] @ [] @ (CHR ''e'' # ?e) \<in> rx_lang (RSeq JSON_INT (RSeq JSON_FRAC JSON_EXP))"
        using ds e by (intro parts lang_int lang_frac) auto
      with True 4 t show ?thesis using ds(1) by (auto simp: layout_digits_def Let_def simp del: rx_lang.simps pad_digits.simps)
    next
      case False
      then have t: "t \<noteq> []" using ds(5) k by auto
      have "[c] @ (CHR ''.'' # t) @ (CHR ''e'' # ?e) \<in> rx_lang (RSeq JSON_INT (RSeq JSON_FRAC JSON_EXP))"
        using ds e t by (intro parts lang_int lang_frac) auto
      with False 4 show ?thesis by (auto simp: layout_digits_def Let_def ds(1) simp del: rx_lang.simps)
    qed
  qed
qed

lemma number_lang: "is_double x \<Longrightarrow> js_to_string x \<in> rx_lang JSON_NUMBER"
proof -
  assume x: "is_double x"
  have e0: "[] \<in> rx_lang JSON_EXP" by (rule lang_exp(2) [of "CHR ''+''" "''0''"]) simp_all
  note parts = seq_intro [OF _ seq_intro]
  have sign: "''-'' \<in> rx_lang (ROpt (RLit ''-''))" "[] \<in> rx_lang (ROpt (RLit ''-''))"
    unfolding lang_opt lang_lit by simp_all
  show ?thesis
  proof (cases "x = 0")
    case True
    have "''0'' \<in> rx_lang JSON_INT" unfolding JSON_INT_def lang_alt lang_lit by simp
    then have "''0'' @ [] @ [] \<in> rx_lang (RSeq JSON_INT (RSeq JSON_FRAC JSON_EXP))"
      by (intro parts lang_frac e0)
    from seq_intro [OF sign(2) this] True show ?thesis unfolding json_number_parts by (simp add: js_to_string_def del: rx_lang.simps)
  next
    case False
    obtain s n k where r: "shortest_digits \<bar>x\<bar> = (s, n, k)" by (metis prod_cases3)
    have "is_double \<bar>x\<bar>" using x by (auto simp: abs_if)
    then have "leading (s, n, k)" using shortest_leading [of "\<bar>x\<bar>"] False r by simp
    from seq_intro [OF sign(1) layout_lang [OF this]] seq_intro [OF sign(2) layout_lang [OF this]] False show ?thesis
      unfolding json_number_parts by (simp add: js_to_string_def r del: rx_lang.simps)
  qed
qed

lemma parse_number_text:
  assumes "is_double x" "json_stop r"
  shows "parse_number (js_to_string x @ r) = Some (JNum x, r)"
proof -
  let ?p = "\<lambda>c. number_char c \<or> c = CHR ''E''"
  have "r = [] \<or> \<not> ?p (hd r)" using assms(2) by (auto simp: json_stop_def number_char_def is_digit_def)
  moreover have "\<And>c. c \<in> set (js_to_string x) \<Longrightarrow> ?p c" using js_to_string_chars [OF assms(1)] by blast
  ultimately have "takeWhile ?p (js_to_string x @ r) = js_to_string x" "dropWhile ?p (js_to_string x @ r) = r"
    by (cases r; simp add: takeWhile_append2 dropWhile_append2)+
  then show ?thesis
    using number_lang [OF assms(1)] js_number_to_string [OF assms(1)] by (simp add: parse_number_def Let_def rx_match_iff del: rx_lang.simps)
qed

text \<open>The values whose round trip is stated: numbers are doubles, and no key is twice.\<close>

fun json_valid :: "json \<Rightarrow> bool" where
  "json_valid (JNum x) \<longleftrightarrow> is_double x"
| "json_valid (JArr xs) \<longleftrightarrow> list_all json_valid xs"
| "json_valid (JObj kvs) \<longleftrightarrow> distinct (map fst kvs) \<and> list_all (\<lambda>(k, v). json_valid v) kvs"
| "json_valid _ \<longleftrightarrow> True"

lemma valid_doubles: "json_valid v \<Longrightarrow> json_doubles v"
  by (induction v) (auto simp: list_all_iff)

text \<open>The values without a number, which need no fact of doubles.\<close>

fun json_plain :: "json \<Rightarrow> bool" where
  "json_plain (JNum x) \<longleftrightarrow> False"
| "json_plain (JArr xs) \<longleftrightarrow> list_all json_plain xs"
| "json_plain (JObj kvs) \<longleftrightarrow> distinct (map fst kvs) \<and> list_all (\<lambda>(k, v). json_plain v) kvs"
| "json_plain _ \<longleftrightarrow> True"

lemma plain_valid: "json_plain v \<Longrightarrow> json_valid v"
  by (induction v) (auto simp: list_all_iff)

lemma plain_doubles: "json_plain v \<Longrightarrow> json_doubles v"
  by (intro valid_doubles plain_valid)

lemma space_kind: "json_space c \<Longrightarrow> char_kind c = 6"
proof -
  have "char_kind CHR 0x09 = 6" "char_kind CHR 0x0A = 6" "char_kind CHR 0x0D = 6" "char_kind CHR '' '' = 6"
    by (simp_all add: char_kind_def number_char_def is_digit_def dquote_def)
  moreover assume "json_space c"
  ultimately show ?thesis by (auto simp: json_space_def)
qed

lemma skip_space_kind: "s \<noteq> [] \<Longrightarrow> char_kind (hd s) \<noteq> 6 \<Longrightarrow> skip_space s = s"
  using space_kind by (cases s) (auto simp: skip_space_def)

lemma skip_mark: "\<not> json_space c \<Longrightarrow> skip_space (c # s) = c # s"
  by (simp add: skip_space_def)

lemma json_space_marks [simp]:
  "\<not> json_space CHR '',''" "\<not> json_space CHR '']''" "\<not> json_space CHR ''}''" "\<not> json_space CHR '':''"
  "\<not> json_space dquote" "\<not> json_space CHR ''[''" "\<not> json_space CHR ''{''" "\<not> json_space CHR ''n''"
  "\<not> json_space CHR ''t''" "\<not> json_space CHR ''f''"
  by (simp_all add: json_space_def dquote_def)

lemma expect_mark [simp]: "\<not> json_space c \<Longrightarrow> expect d (c # s) = (if c = d then Some s else None)"
  by (simp add: expect_def skip_mark)

lemma dquote_neq [simp]: "dquote \<noteq> CHR ''[''" "dquote \<noteq> CHR ''{''" "dquote \<noteq> CHR '']''" "dquote \<noteq> CHR ''}''"
  "CHR ''['' \<noteq> dquote" "CHR ''{'' \<noteq> dquote" "CHR ''n'' \<noteq> dquote" "CHR ''t'' \<noteq> dquote" "CHR ''f'' \<noteq> dquote"
  by (simp_all add: dquote_def)

lemma value_start:
  assumes "json_valid v"
  shows "expect CHR '']'' (json_stringify v @ r) = None"
proof -
  obtain c t where c: "json_stringify v = c # t" "char_kind c = json_kind v"
    using json_stringify_kind [OF valid_doubles [OF assms]] by (cases "json_stringify v") auto
  then have "char_kind c \<noteq> 6" by (cases v) simp_all
  then have "\<not> json_space c" "c \<noteq> CHR '']''" using space_kind char_kind_simps by auto
  with c show ?thesis by simp
qed

lemma parse_items_join:
  assumes "\<And>x n r. x \<in> set xs \<Longrightarrow> length (json_stringify x) \<le> n \<Longrightarrow> json_stop r \<Longrightarrow>
      parse_value n (json_stringify x @ r) = Some (x, r)"
    "xs \<noteq> []" "length (js_join '','' (map json_stringify xs)) < n"
  shows "parse_items n (js_join '','' (map json_stringify xs) @ CHR '']'' # r) = Some (xs, r)"
  using assms
proof (induction xs arbitrary: n)
  case (Cons x xs)
  then obtain m where n: "n = Suc m" by (cases n) auto
  show ?case
  proof (cases "xs = []")
    case True
    then show ?thesis using Cons.prems(1) [of x m] Cons.prems(3) by (simp add: n)
  next
    case False
    then have join: "js_join '','' (map json_stringify (x # xs)) = json_stringify x @ '','' @ js_join '','' (map json_stringify xs)"
      by (cases xs) simp_all
    then have "length (json_stringify x) \<le> m" "length (js_join '','' (map json_stringify xs)) < m"
      using Cons.prems(3) n by simp_all
    then have "json_stop q \<Longrightarrow> parse_value m (json_stringify x @ q) = Some (x, q)"
        "parse_items m (js_join '','' (map json_stringify xs) @ CHR '']'' # r) = Some (xs, r)" for q
      using Cons.prems(1) False by (auto intro: Cons.IH)
    then show ?thesis unfolding join by (simp add: n)
  qed
qed simp

abbreviation member_text :: "jsstring \<times> json \<Rightarrow> jsstring" where
  "member_text \<equiv> \<lambda>(k, v). json_quote k @ '':'' @ json_stringify v"

lemma put_member_new: "k \<notin> fst ` set kvs \<Longrightarrow> put_member kvs k v = kvs @ [(k, v)]"
  by (induction kvs k v rule: put_member.induct) auto

lemma parse_members_join:
  assumes "\<And>k v n r. (k, v) \<in> set kvs \<Longrightarrow> length (json_stringify v) \<le> n \<Longrightarrow> json_stop r \<Longrightarrow>
      parse_value n (json_stringify v @ r) = Some (v, r)"
    "kvs \<noteq> []" "length (js_join '','' (map member_text kvs)) < n" "distinct (map fst (done @ kvs))"
  shows "parse_members n done (js_join '','' (map member_text kvs) @ CHR ''}'' # r) = Some (done @ kvs, r)"
  using assms
proof (induction kvs arbitrary: n "done")
  case (Cons p kvs)
  obtain k v where p: "p = (k, v)" by force
  obtain m where n: "n = Suc m" using Cons.prems by (cases n) auto
  have new: "put_member done k v = done @ [(k, v)]" using Cons.prems(4) by (intro put_member_new) (auto simp: p)
  have quoted: "parse_chars (concat (map json_char k) @ dquote # q) = Some (k, q)" for q by (rule parse_quoted)
  show ?case
  proof (cases "kvs = []")
    case True
    then show ?thesis using Cons.prems(1) [of k v m] Cons.prems(3) new quoted by (simp add: n p json_quote_def)
  next
    case False
    then have join: "js_join '','' (map member_text (p # kvs)) = member_text p @ '','' @ js_join '','' (map member_text kvs)"
      by (cases kvs) simp_all
    then have "length (json_stringify v) \<le> m" "length (js_join '','' (map member_text kvs)) < m"
      using Cons.prems(3) n by (simp_all add: p)
    then have "parse_value m (json_stringify v @ q) = Some (v, q)" if "json_stop q" for q
      using Cons.prems(1) [of k v m q] p that by simp
    moreover have "parse_members m (done @ [(k, v)]) (js_join '','' (map member_text kvs) @ CHR ''}'' # r) = Some ((done @ [(k, v)]) @ kvs, r)"
    proof (rule Cons.IH)
      show "parse_value n (json_stringify w @ r) = Some (w, r)" if "(j, w) \<in> set kvs" "length (json_stringify w) \<le> n" "json_stop r" for j w n r
        using Cons.prems(1) [of j w n r] that by simp
    qed (use Cons.prems(4) False p \<open>length (js_join '','' (map member_text kvs)) < m\<close> in simp_all)
    ultimately show ?thesis unfolding join using new quoted by (simp add: n p json_quote_def)
  qed
qed simp

lemma parse_value_stringify:
  "json_valid v \<Longrightarrow> length (json_stringify v) \<le> n \<Longrightarrow> json_stop r \<Longrightarrow>
    parse_value n (json_stringify v @ r) = Some (v, r)"
proof (induction v arbitrary: n r)
  case (JArr xs)
  then obtain m where n: "n = Suc m" by (cases n) auto
  show ?case
  proof (cases "xs = []")
    case True
    then show ?thesis by (simp add: n skip_mark)
  next
    case False
    then obtain x xs' where xs: "xs = x # xs'" by (cases xs) auto
    then have "json_valid x" using JArr.prems by simp
    obtain rest where rest: "js_join '','' (map json_stringify xs) @ CHR '']'' # r = json_stringify x @ rest"
      unfolding xs by (cases xs') auto
    have "parse_items m (js_join '','' (map json_stringify xs) @ CHR '']'' # r) = Some (xs, r)"
      using JArr False by (intro parse_items_join) (auto simp: n list_all_iff)
    with value_start [OF \<open>json_valid x\<close>, of rest] rest show ?thesis by (simp add: n skip_mark)
  qed
next
  case (JObj kvs)
  then obtain m where n: "n = Suc m" by (cases n) auto
  show ?case
  proof (cases "kvs = []")
    case True
    then show ?thesis by (simp add: n skip_mark)
  next
    case False
    then obtain k v kvs' where kvs: "kvs = (k, v) # kvs'" by (cases kvs) auto
    obtain rest where rest: "js_join '','' (map member_text kvs) @ CHR ''}'' # r = dquote # rest"
      unfolding kvs by (cases kvs') (auto simp: json_quote_def)
    have "parse_members m [] (js_join '','' (map member_text kvs) @ CHR ''}'' # r) = Some ([] @ kvs, r)"
      using JObj False by (intro parse_members_join) (auto simp: n list_all_iff)
    with rest show ?thesis by (simp add: n skip_mark)
  qed
next
  case JNull
  then show ?case by (cases n) (simp_all add: skip_mark parse_literal_def starts_with_def)
next
  case (JBool b)
  then show ?case by (cases n; cases b) (simp_all add: skip_mark parse_literal_def starts_with_def)
next
  case (JStr s)
  then show ?case by (cases n) (simp_all add: json_quote_def parse_quoted skip_mark)
next
  case (JNum x)
  then have x: "is_double x" by simp
  obtain c t where c: "js_to_string x = c # t" "number_char c"
    using js_to_string_chars [OF x] by (cases "js_to_string x") auto
  then obtain m where n: "n = Suc m" using JNum by (cases n) auto
  have "c \<noteq> dquote" "c \<notin> set ''[{ntf''" "\<not> json_space c"
    using c(2) by (auto simp: number_char_def is_digit_def dquote_def json_space_def)
  moreover have "parse_number (c # t @ r) = Some (JNum x, r)"
    using parse_number_text [OF x JNum(3)] by (simp add: c)
  ultimately show ?case by (simp add: n c skip_mark)
qed

theorem json_parse_stringify_valid: "json_valid v \<Longrightarrow> json_parse (json_stringify v) = Some v"
  using parse_value_stringify [of v "Suc (length (json_stringify v))" "[]"]
  by (simp add: json_parse_def skip_space_def del: parse_value.simps)

lemma json_parse_stringify: "json_plain v \<Longrightarrow> json_parse (json_stringify v) = Some v"
  by (intro json_parse_stringify_valid plain_valid)

end
