(* ===== verification/Stored_Json.thy ===== *)
theory Stored_Json
  imports Api_Errors Filter_Model Js_Parse
begin

text \<open>
  \<open>hooks/storedJson.ts\<close>, one JSON value in the local storage, with its three users: the open filter
  groups and panels of \<open>hooks/useFilterPanelState.ts\<close> and the basemap settings of
  \<open>components/map/basemapSettings.ts\<close>. The storage is the one of \<open>Api_Errors\<close>: \<open>None\<close> where each
  access throws; \<open>accepts\<close> says whether a write that reaches it is taken.
\<close>

section \<open>One stored value\<close>

record 'a stored_value =
  sv_raw :: "jsstring option"
  sv_value :: 'a
  sv_memory_only :: bool

definition stored_new :: "'a \<Rightarrow> 'a stored_value" where
  "stored_new fallback = \<lparr>sv_raw = None, sv_value = fallback, sv_memory_only = False\<rparr>"

definition stored_parse :: "'a \<Rightarrow> (json \<Rightarrow> 'a option) \<Rightarrow> jsstring option \<Rightarrow> 'a" where
  "stored_parse fallback parse raw = (case raw of
       None \<Rightarrow> fallback
     | Some r \<Rightarrow> (case json_parse r of
         None \<Rightarrow> fallback
       | Some j \<Rightarrow> (case parse j of Some v \<Rightarrow> v | None \<Rightarrow> fallback)))"

definition stored_read ::
    "jsstring \<Rightarrow> 'a \<Rightarrow> (json \<Rightarrow> 'a option) \<Rightarrow> storage \<Rightarrow> 'a stored_value \<Rightarrow> 'a \<times> 'a stored_value" where
  "stored_read key fallback parse store st =
     (if sv_memory_only st then (sv_value st, st)
      else (case store of
          None \<Rightarrow> (sv_value st, st\<lparr>sv_memory_only := True\<rparr>)
        | Some m \<Rightarrow>
            if m key = sv_raw st then (sv_value st, st)
            else (let value = stored_parse fallback parse (m key)
                  in (value, st\<lparr>sv_raw := m key, sv_value := value\<rparr>))))"

definition stored_write ::
    "jsstring \<Rightarrow> ('a \<Rightarrow> json) \<Rightarrow> bool \<Rightarrow> 'a \<Rightarrow> storage \<Rightarrow> 'a stored_value \<Rightarrow> storage \<times> 'a stored_value" where
  "stored_write key encode accepts value store st =
     (let raw = json_stringify (encode value); st = st\<lparr>sv_raw := Some raw, sv_value := value\<rparr>
      in case store of
          Some m \<Rightarrow> if accepts then (Some (m(key \<mapsto> raw)), st) else (store, st\<lparr>sv_memory_only := True\<rparr>)
        | None \<Rightarrow> (None, st\<lparr>sv_memory_only := True\<rparr>))"

text \<open>
  What a user of a stored value relies on: of the values it writes, the parser reads one back that
  shows the same.
\<close>

locale stored_json =
  fixes key :: jsstring and fallback :: 'a and parse :: "json \<Rightarrow> 'a option" and encode :: "'a \<Rightarrow> json"
    and good :: "'a \<Rightarrow> bool" and view :: "'a \<Rightarrow> 'b"
  assumes plain: "good v \<Longrightarrow> json_plain (encode v)"
    and reread: "good v \<Longrightarrow> \<exists>u. parse (encode v) = Some u \<and> view u = view v"
begin

text \<open>The tab that wrote a value reads it, whatever the storage did with it.\<close>

lemma written_reads:
  assumes "stored_write key encode accepts v store st = (store', st')"
  shows "fst (stored_read key fallback parse store' st') = v"
  using assms by (auto simp: stored_write_def stored_read_def Let_def split: option.splits if_splits)

text \<open>A value the storage took shows the same on the next visit.\<close>

lemma survives_reload:
  assumes "good v" "stored_write key encode True v (Some m) st = (store', st')"
  shows "view (fst (stored_read key fallback parse store' (stored_new fallback))) = view v"
proof -
  obtain u where "parse (encode v) = Some u" "view u = view v" using reread [OF assms(1)] by blast
  then show ?thesis
    using assms(2) plain [OF assms(1)]
    by (auto simp: stored_write_def stored_read_def stored_new_def stored_parse_def json_parse_stringify Let_def)
qed

end

section \<open>The open groups\<close>

definition FILTER_GROUPS_KEY :: jsstring where
  "FILTER_GROUPS_KEY = ''vidit:filter-groups-open''"

definition groups_parse :: "json \<Rightarrow> jsstring list option" where
  "groups_parse value = (case value of JArr xs \<Rightarrow> Some (List.map_filter (\<lambda>t. is_string (Some t)) xs) | _ \<Rightarrow> None)"

definition groups_encode :: "jsstring list \<Rightarrow> json" where
  "groups_encode titles = JArr (map JStr titles)"

definition toggled :: "jsstring \<Rightarrow> jsstring list \<Rightarrow> jsstring list" where
  "toggled title titles = (if title \<in> set titles then filter (\<lambda>t. t \<noteq> title) titles else titles @ [title])"

definition toggle_group ::
    "jsstring \<Rightarrow> bool \<Rightarrow> storage \<Rightarrow> jsstring list stored_value \<Rightarrow> storage \<times> jsstring list stored_value" where
  "toggle_group title accepts store st = (case stored_read FILTER_GROUPS_KEY [] groups_parse store st of
       (titles, st) \<Rightarrow> stored_write FILTER_GROUPS_KEY groups_encode accepts (toggled title titles) store st)"

lemma groups_reread: "groups_parse (groups_encode titles) = Some titles"
  by (induction titles) (simp_all add: groups_parse_def groups_encode_def List.map_filter_simps)

interpretation groups: stored_json FILTER_GROUPS_KEY "[]" groups_parse groups_encode "\<lambda>_. True" id
  by unfold_locales (simp_all add: groups_reread, simp add: groups_encode_def list_all_iff)

lemma toggle_twice: "distinct titles \<Longrightarrow> set (toggled title (toggled title titles)) = set titles"
  by (auto simp: toggled_def)

section \<open>The open panels\<close>

definition PANEL_KEY :: jsstring where
  "PANEL_KEY = ''vidit:filters-open''"

definition panel_parse :: "json \<Rightarrow> json option" where
  "panel_parse value = (case value of JObj _ \<Rightarrow> Some value | JArr _ \<Rightarrow> Some value | _ \<Rightarrow> None)"

fun surface_name :: "surface \<Rightarrow> jsstring" where
  "surface_name SMap = ''map''"
| "surface_name SSearch = ''search''"
| "surface_name SFeed = ''feed''"
| "surface_name SRequests = ''requests''"

fun OPEN_BY_DEFAULT :: "surface \<Rightarrow> bool" where
  "OPEN_BY_DEFAULT SMap = False"
| "OPEN_BY_DEFAULT _ = True"

definition panel_is_open :: "surface \<Rightarrow> json \<Rightarrow> bool" where
  "panel_is_open s stored = (case field stored (surface_name s) of Some (JBool b) \<Rightarrow> b | _ \<Rightarrow> OPEN_BY_DEFAULT s)"

text \<open>The object spread of a stored value: an array spreads as its indices.\<close>

definition spread :: "json \<Rightarrow> (jsstring \<times> json) list" where
  "spread value = (case value of JObj kvs \<Rightarrow> kvs | JArr xs \<Rightarrow> map (\<lambda>(i, x). (nat_text i, x)) (enumerate 0 xs) | _ \<Rightarrow> [])"

definition toggle_panel :: "surface \<Rightarrow> json \<Rightarrow> json \<Rightarrow> json" where
  "toggle_panel s shown stored = JObj (put_member (spread stored) (surface_name s) (JBool (\<not> panel_is_open s shown)))"

interpretation panels: stored_json PANEL_KEY "JObj []" panel_parse id
    "\<lambda>v. json_plain v \<and> panel_parse v \<noteq> None" id
  by unfold_locales (auto simp: panel_parse_def split: json.splits)

lemma map_of_put_member: "map_of (put_member kvs k v) = (map_of kvs)(k \<mapsto> v)"
  by (induction kvs k v rule: put_member.induct) auto

text \<open>The toggle changes the surface it is of, and no other.\<close>

lemma toggle_panel_open:
  "panel_is_open s (toggle_panel s (JObj kvs) (JObj kvs)) = (\<not> panel_is_open s (JObj kvs))"
  "t \<noteq> s \<Longrightarrow> panel_is_open t (toggle_panel s (JObj kvs) (JObj kvs)) = panel_is_open t (JObj kvs)"
proof -
  have names: "t \<noteq> s \<Longrightarrow> surface_name t \<noteq> surface_name s" by (cases t; cases s) simp_all
  show "panel_is_open s (toggle_panel s (JObj kvs) (JObj kvs)) = (\<not> panel_is_open s (JObj kvs))"
  proof -
    have "panel_is_open s (JObj (put_member kvs (surface_name s) (JBool b))) = b" for b
      by (simp add: panel_is_open_def field_def map_of_put_member)
    then show ?thesis by (simp add: toggle_panel_def spread_def)
  qed
  show "panel_is_open t (toggle_panel s (JObj kvs) (JObj kvs)) = panel_is_open t (JObj kvs)" if "t \<noteq> s"
    using names [OF that] by (simp add: panel_is_open_def toggle_panel_def field_def spread_def map_of_put_member)
qed

section \<open>The basemap settings\<close>

text \<open>A settings object is its fields in order; the stored choices are the fields the reader set.\<close>

type_synonym settings = "(jsstring \<times> json) list"

definition BASEMAP_PRESET_IDS :: "jsstring list" where
  "BASEMAP_PRESET_IDS = [''auto'', ''vidit-dark'', ''vidit-light'', ''streets'', ''terrain'', ''satellite'']"

definition LABEL_LANGUAGES :: "jsstring list" where
  "LABEL_LANGUAGES = [''latin'', ''local'', ''both'']"

definition LABEL_DENSITIES :: "jsstring list" where
  "LABEL_DENSITIES = [''sparse'', ''normal'']"

definition DEFAULT_BASEMAP_OPTIONS :: settings where
  "DEFAULT_BASEMAP_OPTIONS = [(''language'', JStr ''latin''), (''density'', JStr ''sparse''), (''regionBorders'', JBool False),
     (''roads'', JBool True), (''buildings'', JBool True), (''militaryAndAirports'', JBool False), (''relief'', JBool False),
     (''disputedDashed'', JBool True)]"

definition DEFAULT_BASEMAP_SETTINGS :: settings where
  "DEFAULT_BASEMAP_SETTINGS = [(''preset'', JStr ''auto'')] @ DEFAULT_BASEMAP_OPTIONS @
     [(''grid'', JBool False), (''dailyImagery'', JBool False), (''fires'', JBool False)]"

definition BASEMAP_KEY :: jsstring where
  "BASEMAP_KEY = ''vidit:basemap''"

definition BOOLEAN :: "json list" where
  "BOOLEAN = [JBool True, JBool False]"

definition FIELDS :: "(jsstring \<times> json list) list" where
  "FIELDS = [(''preset'', map JStr BASEMAP_PRESET_IDS), (''language'', map JStr LABEL_LANGUAGES), (''density'', map JStr LABEL_DENSITIES),
     (''regionBorders'', BOOLEAN), (''roads'', BOOLEAN), (''buildings'', BOOLEAN), (''militaryAndAirports'', BOOLEAN),
     (''relief'', BOOLEAN), (''disputedDashed'', BOOLEAN), (''grid'', BOOLEAN), (''dailyImagery'', BOOLEAN), (''fires'', BOOLEAN)]"

definition stored_choices :: "json \<Rightarrow> settings" where
  "stored_choices value = List.map_filter (\<lambda>(k, allowed). case field value k of
       Some v \<Rightarrow> if v \<in> set allowed then Some (k, v) else None | None \<Rightarrow> None) FIELDS"

definition choices_parse :: "json \<Rightarrow> settings option" where
  "choices_parse value = Some (stored_choices value)"

text \<open>The spread of one object over another.\<close>

definition spread_over :: "settings \<Rightarrow> settings \<Rightarrow> settings" where
  "spread_over base patch = fold (\<lambda>(k, v) acc. put_member acc k v) patch base"

definition basemap_settings :: "settings \<Rightarrow> settings" where
  "basemap_settings choices = spread_over DEFAULT_BASEMAP_SETTINGS choices"

definition get_basemap_settings :: "storage \<Rightarrow> settings stored_value \<Rightarrow> settings \<times> settings stored_value" where
  "get_basemap_settings store st = (case stored_read BASEMAP_KEY [] choices_parse store st of
       (choices, st) \<Rightarrow> (basemap_settings choices, st))"

definition save_basemap_settings ::
    "settings \<Rightarrow> bool \<Rightarrow> storage \<Rightarrow> settings stored_value \<Rightarrow> storage \<times> settings stored_value" where
  "save_basemap_settings patch accepts store st = (case stored_read BASEMAP_KEY [] choices_parse store st of
       (choices, st) \<Rightarrow> stored_write BASEMAP_KEY JObj accepts (spread_over choices patch) store st)"

text \<open>A valid set of choices: each field at most once, with a value it may take.\<close>

definition choices_ok :: "settings \<Rightarrow> bool" where
  "choices_ok choices \<longleftrightarrow> distinct (map fst choices) \<and>
     list_all (\<lambda>(k, v). \<exists>allowed. map_of FIELDS k = Some allowed \<and> v \<in> set allowed) choices"

lemma FIELDS_distinct: "distinct (map fst FIELDS)"
  by (simp add: FIELDS_def)

lemma field_plain: "map_of FIELDS k = Some allowed \<Longrightarrow> v \<in> set allowed \<Longrightarrow> json_plain v"
  by (auto simp: FIELDS_def BOOLEAN_def split: if_splits)

lemma put_member_keys: "fst ` set (put_member kvs k v) = insert k (fst ` set kvs)"
  by (induction kvs k v rule: put_member.induct) auto

lemma put_member_ok:
  assumes "choices_ok kvs" "map_of FIELDS k = Some allowed" "v \<in> set allowed"
  shows "choices_ok (put_member kvs k v)"
  using assms by (induction kvs k v rule: put_member.induct) (auto simp: choices_ok_def put_member_keys)

lemma spread_over_ok: "choices_ok patch \<Longrightarrow> choices_ok base \<Longrightarrow> choices_ok (spread_over base patch)"
  unfolding spread_over_def
proof (induction patch arbitrary: base)
  case (Cons p patch)
  obtain k v where p: "p = (k, v)" by (cases p)
  then obtain allowed where "map_of FIELDS k = Some allowed" "v \<in> set allowed" "choices_ok patch"
    using Cons.prems(1) by (auto simp: choices_ok_def)
  then show ?case using Cons.IH Cons.prems(2) p put_member_ok by simp
qed simp

lemma map_of_spread_over: "distinct (map fst patch) \<Longrightarrow> map_of (spread_over base patch) = map_of base ++ map_of patch"
  unfolding spread_over_def
proof (induction patch arbitrary: base)
  case (Cons p patch)
  have "map_of patch (fst p) = None" using Cons.prems by (simp add: map_of_eq_None_iff)
  then show ?case using Cons by (cases p) (auto simp: map_of_put_member map_add_def fun_eq_iff split: option.split)
qed simp

lemma map_of_map_filter:
  "distinct (map fst fs) \<Longrightarrow>
   map_of (List.map_filter (\<lambda>(k, a). case g k a of Some v \<Rightarrow> Some (k, v) | None \<Rightarrow> None) fs) k =
     Option.bind (map_of fs k) (g k)"
proof (induction fs)
  case (Cons f fs)
  have later: "k \<notin> fst ` set fs \<Longrightarrow> map_of (List.map_filter (\<lambda>(k, a). case g k a of Some v \<Rightarrow> Some (k, v) | None \<Rightarrow> None) fs) k = None"
    using Cons by (simp add: map_of_eq_None_iff [symmetric])
  then show ?case using Cons by (cases f) (auto simp: List.map_filter_simps split: option.split)
qed (simp add: List.map_filter_simps)

lemma stored_choices_alt:
  "stored_choices value = List.map_filter (\<lambda>(k, a). case Option.bind (field value k) (\<lambda>v. if v \<in> set a then Some v else None) of
     Some v \<Rightarrow> Some (k, v) | None \<Rightarrow> None) FIELDS"
  unfolding stored_choices_def by (intro arg_cong2 [of _ _ _ _ List.map_filter]) (auto simp: fun_eq_iff split: option.split)

lemma map_of_stored_choices:
  "map_of (stored_choices value) k = Option.bind (map_of FIELDS k) (\<lambda>a. Option.bind (field value k) (\<lambda>v. if v \<in> set a then Some v else None))"
  unfolding stored_choices_alt by (rule map_of_map_filter [OF FIELDS_distinct])

lemma distinct_map_filter_fst:
  "distinct (map fst fs) \<Longrightarrow> distinct (map fst (List.map_filter (\<lambda>(k, a). case g k a of Some v \<Rightarrow> Some (k, v) | None \<Rightarrow> None) fs))"
proof (induction fs)
  case (Cons f fs)
  have "fst ` set (List.map_filter (\<lambda>(k, a). case g k a of Some v \<Rightarrow> Some (k, v) | None \<Rightarrow> None) fs) \<subseteq> fst ` set fs" for fs
    by (induction fs) (auto simp: List.map_filter_simps split: option.splits)
  then show ?case using Cons by (cases f) (auto simp: List.map_filter_simps split: option.split)
qed (simp add: List.map_filter_simps)

lemma stored_choices_ok: "choices_ok (stored_choices value)"
proof -
  have dist: "distinct (map fst (stored_choices value))"
    unfolding stored_choices_alt by (rule distinct_map_filter_fst [OF FIELDS_distinct])
  moreover have "\<exists>allowed. map_of FIELDS k = Some allowed \<and> v \<in> set allowed" if "(k, v) \<in> set (stored_choices value)" for k v
    using map_of_is_SomeI [OF dist that] by (auto simp: map_of_stored_choices bind_eq_Some_conv split: if_splits)
  ultimately show ?thesis by (auto simp: choices_ok_def list_all_iff)
qed

lemma defaults_ok: "choices_ok DEFAULT_BASEMAP_SETTINGS" "map fst DEFAULT_BASEMAP_SETTINGS = map fst FIELDS"
  by (simp_all add: choices_ok_def DEFAULT_BASEMAP_SETTINGS_def DEFAULT_BASEMAP_OPTIONS_def FIELDS_def BOOLEAN_def
      BASEMAP_PRESET_IDS_def LABEL_LANGUAGES_def LABEL_DENSITIES_def)

lemma put_member_same_keys: "k \<in> fst ` set kvs \<Longrightarrow> map fst (put_member kvs k v) = map fst kvs"
  by (induction kvs k v rule: put_member.induct) auto

lemma spread_over_keys: "fst ` set patch \<subseteq> fst ` set base \<Longrightarrow> map fst (spread_over base patch) = map fst base"
  unfolding spread_over_def
proof (induction patch arbitrary: base)
  case (Cons p patch)
  have "map fst (put_member base (fst p) (snd p)) = map fst base"
    using Cons.prems by (intro put_member_same_keys) auto
  moreover from this have "fst ` set (put_member base (fst p) (snd p)) = fst ` set base" by (metis list.set_map)
  ultimately show ?case using Cons.IH [of "put_member base (fst p) (snd p)"] Cons.prems by (simp add: case_prod_beta)
qed simp

lemma choices_ok_member:
  "choices_ok choices \<Longrightarrow> (k, v) \<in> set choices \<Longrightarrow> \<exists>allowed. map_of FIELDS k = Some allowed \<and> v \<in> set allowed"
  by (fastforce simp: choices_ok_def list_all_iff)

lemma ok_keys_known: "choices_ok choices \<Longrightarrow> fst ` set choices \<subseteq> fst ` set FIELDS"
  by (fastforce dest: choices_ok_member map_of_SomeD intro: rev_image_eqI)

text \<open>Settings as the type has them: every field, in order, each with a value it may take.\<close>

definition settings_typed :: "settings \<Rightarrow> bool" where
  "settings_typed s \<longleftrightarrow> list_all2 (\<lambda>(k, v) (k', allowed). k = k' \<and> v \<in> set allowed) s FIELDS"

lemma settings_typedI:
  assumes "choices_ok s" "map fst s = map fst FIELDS"
  shows "settings_typed s"
  unfolding settings_typed_def list_all2_conv_all_nth
proof (intro conjI allI impI)
  show len: "length s = length FIELDS" using assms(2) by (metis length_map)
  fix i assume i: "i < length s"
  obtain k v where kv: "s ! i = (k, v)" by (cases "s ! i")
  obtain k' a where ka: "FIELDS ! i = (k', a)" by (cases "FIELDS ! i")
  have "k = k'" using assms(2) i len kv ka by (metis fst_conv nth_map)
  moreover have "map_of FIELDS k' = Some a"
    using FIELDS_distinct i len ka by (metis map_of_is_SomeI nth_mem)
  moreover have "\<exists>allowed. map_of FIELDS k = Some allowed \<and> v \<in> set allowed"
    using choices_ok_member [OF assms(1)] i kv by (metis nth_mem)
  ultimately show "(\<lambda>(k, v) (k', allowed). k = k' \<and> v \<in> set allowed) (s ! i) (FIELDS ! i)"
    by (simp add: kv ka)
qed

lemma basemap_settings_typed:
  assumes "choices_ok choices"
  shows "settings_typed (basemap_settings choices)"
proof -
  have "fst ` set choices \<subseteq> fst ` set DEFAULT_BASEMAP_SETTINGS"
    using ok_keys_known [OF assms] defaults_ok(2) by (metis list.set_map)
  then show ?thesis
    using spread_over_ok [OF assms defaults_ok(1)] spread_over_keys [of choices DEFAULT_BASEMAP_SETTINGS] defaults_ok(2)
    by (simp add: basemap_settings_def settings_typedI)
qed

interpretation basemap: stored_json BASEMAP_KEY "[]" choices_parse JObj choices_ok "map_of \<circ> basemap_settings"
proof unfold_locales
  fix v assume ok: "choices_ok v"
  then show "json_plain (JObj v)"
    using choices_ok_member [OF ok] field_plain by (fastforce simp: choices_ok_def list_all_iff)
  have "map_of (stored_choices (JObj v)) = map_of v"
  proof
    fix k
    show "map_of (stored_choices (JObj v)) k = map_of v k"
      using choices_ok_member [OF ok] by (cases "map_of v k")
        (fastforce simp: map_of_stored_choices field_def bind_eq_Some_conv dest: map_of_SomeD split: option.splits)+
  qed
  then show "\<exists>u. choices_parse (JObj v) = Some u \<and> (map_of \<circ> basemap_settings) u = (map_of \<circ> basemap_settings) v"
    using ok stored_choices_ok [of "JObj v"] by (simp add: choices_parse_def basemap_settings_def map_of_spread_over choices_ok_def)
qed

text \<open>Tabs read and save over any storage, which other tabs and sites of the code may change.\<close>

datatype settings_event = Read_settings storage | Save_settings settings bool storage

fun settings_step :: "settings_event \<Rightarrow> settings stored_value \<Rightarrow> settings stored_value" where
  "settings_step (Read_settings store) st = snd (get_basemap_settings store st)"
| "settings_step (Save_settings patch accepts store) st = snd (save_basemap_settings patch accepts store st)"

fun patch_ok :: "settings_event \<Rightarrow> bool" where
  "patch_ok (Save_settings patch _ _) = choices_ok patch"
| "patch_ok _ = True"

lemma stored_read_ok:
  assumes "choices_ok (sv_value st)"
  shows "choices_ok (fst (stored_read BASEMAP_KEY [] choices_parse store st)) \<and>
    choices_ok (sv_value (snd (stored_read BASEMAP_KEY [] choices_parse store st)))"
proof -
  have "choices_ok (stored_parse [] choices_parse raw)" for raw
    using stored_choices_ok by (auto simp: stored_parse_def choices_parse_def choices_ok_def split: option.split)
  then show ?thesis using assms by (auto simp: stored_read_def Let_def split: option.split)
qed

lemma settings_step_ok: "choices_ok (sv_value st) \<Longrightarrow> patch_ok e \<Longrightarrow> choices_ok (sv_value (settings_step e st))"
proof (induction e st rule: settings_step.induct)
  case (1 store st)
  then show ?case using stored_read_ok [of st store] by (simp add: get_basemap_settings_def case_prod_beta)
next
  case (2 patch accepts store st)
  then show ?case using stored_read_ok [of st store]
    by (auto simp: save_basemap_settings_def stored_write_def Let_def spread_over_ok case_prod_beta split: option.split)
qed

text \<open>
  C19. The basemap settings are always well typed: whatever text the storage holds, blocked or not, and
  whatever valid patches were saved before, what the map reads has every field, in order, each with a
  value it may take.
\<close>

theorem settings_always_typed:
  assumes "list_all patch_ok es"
  shows "settings_typed (fst (get_basemap_settings store (fold settings_step es (stored_new []))))"
proof -
  have "choices_ok (sv_value (fold settings_step es st))" if "choices_ok (sv_value st)" for st
    using assms that by (induction es arbitrary: st) (simp_all add: settings_step_ok)
  moreover have "choices_ok (sv_value (stored_new []))" by (simp add: stored_new_def choices_ok_def)
  ultimately have "choices_ok (sv_value (fold settings_step es (stored_new [])))" by blast
  then show ?thesis
    using stored_read_ok basemap_settings_typed by (simp add: get_basemap_settings_def case_prod_beta)
qed

lemma settings_always_typed_witness:
  "settings_typed (fst (get_basemap_settings None
     (fold settings_step [Read_settings (Some [BASEMAP_KEY \<mapsto> ''{broken'']), Save_settings [(''roads'', JBool False)] True None] (stored_new []))))"
  by (rule settings_always_typed) (simp add: choices_ok_def FIELDS_def BOOLEAN_def)

text \<open>Saved choices show the same on the next visit.\<close>

theorem choices_survive_reload:
  assumes "choices_ok choices" "stored_write BASEMAP_KEY JObj True choices (Some m) st = (store', st')"
  shows "map_of (fst (get_basemap_settings store' (stored_new []))) = map_of (basemap_settings choices)"
  using basemap.survives_reload [OF assms] by (simp add: get_basemap_settings_def case_prod_beta)

end
