(* ===== verification/Search_Selection.thy ===== *)
theory Search_Selection
  imports Collections Search_Params Stored_Json
begin

text \<open>
  The search page's selection for a bulk add (\<open>components/collections/SearchSelection.tsx\<close>), what it sends,
  and its handoff to the create page through the session storage (\<open>lib/collections.ts\<close>).
\<close>

section \<open>What a search matches\<close>

type_synonym search_match = "jsstring \<times> filter_state"

definition account_json :: "account \<Rightarrow> json" where
  "account_json a =
     (let avatar = (\<lambda>v. case v of None \<Rightarrow> [] | Some None \<Rightarrow> [(''avatar_url'', JNull)] | Some (Some u) \<Rightarrow> [(''avatar_url'', JStr u)])
      in case a of
        Analyst u v \<Rightarrow> JObj ([(''kind'', JStr ''analyst''), (''username'', JStr u)] @ avatar v)
      | Organization s n v \<Rightarrow> JObj ([(''kind'', JStr ''organization''), (''slug'', JStr s), (''name'', JStr n)] @ avatar v))"

text \<open>The object the search page builds, \<open>{ q, ...filters }\<close>, with the filters in their declared order.\<close>

definition strings_json :: "jsstring list \<Rightarrow> json" where
  "strings_json xs = JArr (map JStr xs)"

definition match_json :: "search_match \<Rightarrow> json" where
  "match_json m = (let f = snd m in JObj
     [(''q'', JStr (fst m)), (''show'', strings_json (f_show f)), (''conflicts'', strings_json (f_conflicts f)),
      (''tags'', strings_json (f_tags f)), (''sourceKinds'', strings_json (f_source_kinds f)),
      (''levels'', strings_json (f_levels f)), (''mediaTypes'', strings_json (f_media_types f)),
      (''locationGuess'', strings_json (f_location_guess f)), (''following'', JBool (f_following f)),
      (''author'', JStr (f_author f)), (''approved'', JBool (f_approved f)),
      (''approvedBy'', case f_approved_by f of None \<Rightarrow> JNull | Some a \<Rightarrow> account_json a),
      (''eventFrom'', JStr (f_event_from f)), (''eventTo'', JStr (f_event_to f)),
      (''addedFrom'', JStr (f_added_from f)), (''addedTo'', JStr (f_added_to f))])"

definition match_key :: "search_match \<Rightarrow> jsstring" where
  "match_key m = json_stringify (match_json m)"

fun field_json :: "field_value \<Rightarrow> json" where
  "field_json (FList vs) = strings_json vs"
| "field_json (FStr s) = JStr s"
| "field_json (FBool b) = JBool b"

definition search_match_body :: "search_match \<Rightarrow> json" where
  "search_match_body m = JObj [(''q'', JStr (fst m)),
     (''filters'', JObj (map (\<lambda>(k, v). (k, field_json v)) (event_filter_fields (snd m))))]"

datatype bulk_target = By_ids "jsstring list" | By_match search_match "jsstring list option"

definition BULK_ADD_MAX_EVENTS :: nat where
  "BULK_ADD_MAX_EVENTS = 500"

definition MATCH_PAGE_SIZE :: nat where
  "MATCH_PAGE_SIZE = 20"

definition collectable_events_path :: "jsstring option \<Rightarrow> jsstring \<times> params" where
  "collectable_events_path cursor = (''/collections/collectable-events'',
     set_truthy [(''limit'', nat_text MATCH_PAGE_SIZE)] ''cursor'' cursor)"

definition collectable_events_body :: "search_match \<Rightarrow> jsstring" where
  "collectable_events_body m = json_stringify (search_match_body m)"

definition bulk_add_body :: "bulk_target \<Rightarrow> json" where
  "bulk_add_body t = (case t of
       By_ids ids \<Rightarrow> JObj [(''event_ids'', strings_json ids)]
     | By_match m excluded \<Rightarrow> JObj [(''match'', search_match_body m),
         (''exclude_event_ids'', strings_json (case excluded of Some xs \<Rightarrow> xs | None \<Rightarrow> []))])"

section \<open>The selection\<close>

datatype picked = Picked_ids "jsstring list" | Picked_all

definition NOTHING_PICKED :: picked where
  "NOTHING_PICKED = Picked_ids []"

definition credited_authors :: "author \<Rightarrow> author list \<Rightarrow> author list" where
  "credited_authors owner geolocators = owner # filter (\<lambda>g. a_id g \<noteq> a_id owner) geolocators"

definition can_select_event :: "author option \<Rightarrow> event_hit \<Rightarrow> bool" where
  "can_select_event user h \<longleftrightarrow> (case user of None \<Rightarrow> False
     | Some u \<Rightarrow> eh_status h \<in> set COLLECTABLE_STATUSES \<and>
         (\<exists>a \<in> set (credited_authors (eh_owner h) (eh_geolocators h)). a_id a = a_id u))"

definition can_select :: "author option \<Rightarrow> search_hit \<Rightarrow> bool" where
  "can_select user h = (case h of Event_hit e \<Rightarrow> can_select_event user e | Other_hit _ \<Rightarrow> False)"

text \<open>The hook on the page: its arguments, its two states.\<close>

record selection =
  sl_user :: "author option"
  sl_match :: search_match
  sl_hits :: "event_hit list"
  sl_state :: "jsstring \<times> picked"
  sl_counted :: "(jsstring \<times> nat) option"

definition selection_open :: "author option \<Rightarrow> search_match \<Rightarrow> event_hit list \<Rightarrow> selection" where
  "selection_open user m hits = \<lparr>sl_user = user, sl_match = m, sl_hits = hits, sl_state = (match_key m, NOTHING_PICKED),
     sl_counted = None\<rparr>"

definition sl_key :: "selection \<Rightarrow> jsstring" where
  "sl_key s = match_key (sl_match s)"

definition sl_picked :: "selection \<Rightarrow> picked" where
  "sl_picked s = (if fst (sl_state s) = sl_key s then snd (sl_state s) else NOTHING_PICKED)"

definition set_picked :: "picked \<Rightarrow> selection \<Rightarrow> selection" where
  "set_picked after s = s\<lparr>sl_state := (sl_key s, after)\<rparr>"

definition sl_gutter :: "selection \<Rightarrow> bool" where
  "sl_gutter s = list_ex (can_select_event (sl_user s)) (sl_hits s)"

definition match_total :: "selection \<Rightarrow> nat option" where
  "match_total s = (case sl_counted s of Some (k, n) \<Rightarrow> if k = sl_key s then Some n else None | None \<Rightarrow> None)"

definition is_selected :: "selection \<Rightarrow> jsstring \<Rightarrow> bool" where
  "is_selected s hid = (case sl_picked s of Picked_all \<Rightarrow> True | Picked_ids ids \<Rightarrow> hid \<in> set ids)"

definition toggle_hit :: "event_hit \<Rightarrow> selection \<Rightarrow> selection" where
  "toggle_hit h s =
     (let ids = (case sl_picked s of
            Picked_all \<Rightarrow> uniq (map eh_id (filter (can_select_event (sl_user s)) (sl_hits s)))
          | Picked_ids ids \<Rightarrow> ids)
      in set_picked (Picked_ids (if sl_picked s \<noteq> Picked_all \<and> eh_id h \<notin> set ids then ids @ [eh_id h]
           else filter (\<lambda>i. i \<noteq> eh_id h) ids)) s)"

definition selection_count :: "selection \<Rightarrow> nat" where
  "selection_count s = (case sl_picked s of
       Picked_all \<Rightarrow> (case match_total s of Some n \<Rightarrow> n | None \<Rightarrow> 0) | Picked_ids ids \<Rightarrow> length ids)"

definition selection_target :: "selection \<Rightarrow> bulk_target" where
  "selection_target s = (case sl_picked s of Picked_all \<Rightarrow> By_match (sl_match s) None | Picked_ids ids \<Rightarrow> By_ids ids)"

definition selection_rows :: "selection \<Rightarrow> pickable list" where
  "selection_rows s = (case sl_picked s of Picked_all \<Rightarrow> []
     | Picked_ids ids \<Rightarrow> map pickable_from_hit (filter (\<lambda>h. eh_id h \<in> set ids) (sl_hits s)))"

text \<open>The head row's checkbox: checked, indeterminate, disabled, and what a click on it does.\<close>

definition over_cap :: "selection \<Rightarrow> bool" where
  "over_cap s \<longleftrightarrow> (case match_total s of Some n \<Rightarrow> BULK_ADD_MAX_EVENTS < n | None \<Rightarrow> False)"

definition all_checked :: "selection \<Rightarrow> bool" where
  "all_checked s \<longleftrightarrow> sl_picked s = Picked_all \<or> (case match_total s of Some n \<Rightarrow> n \<le> selection_count s | None \<Rightarrow> False)"

definition all_indeterminate :: "selection \<Rightarrow> bool" where
  "all_indeterminate s \<longleftrightarrow> 0 < selection_count s \<and> \<not> all_checked s"

definition all_disabled :: "selection \<Rightarrow> bool" where
  "all_disabled s \<longleftrightarrow> selection_count s = 0 \<and> (over_cap s \<or> match_total s = None)"

definition select_all_label :: "selection \<Rightarrow> jsstring" where
  "select_all_label s = (if 0 < selection_count s then nat_text (selection_count s) @ '' selected''
     else if over_cap s then ''Narrow to '' @ nat_text BULK_ADD_MAX_EVENTS @ '' or fewer to select all''
     else ''Select all'')"

definition click_select_all :: "selection \<Rightarrow> selection" where
  "click_select_all s = (if \<not> sl_gutter s \<or> all_disabled s then s
     else if 0 < selection_count s then set_picked NOTHING_PICKED s else set_picked Picked_all s)"

text \<open>A row has a checkbox where it is loaded and selectable.\<close>

definition click_row :: "event_hit \<Rightarrow> selection \<Rightarrow> selection" where
  "click_row h s = (if h \<in> set (sl_hits s) \<and> can_select_event (sl_user s) h then toggle_hit h s else s)"

text \<open>The count of the match; the effect's cleanup drops the answer to another match.\<close>

definition count_lands :: "nat \<Rightarrow> selection \<Rightarrow> selection" where
  "count_lands n s = (if sl_gutter s then s\<lparr>sl_counted := Some (sl_key s, n)\<rparr> else s)"

datatype selection_event =
    Searched search_match "event_hit list"
  | Row_clicked event_hit
  | All_clicked
  | Counted

fun selection_step :: "(search_match \<Rightarrow> nat) \<Rightarrow> selection_event \<Rightarrow> selection \<Rightarrow> selection" where
  "selection_step matching (Searched m hits) s = s\<lparr>sl_match := m, sl_hits := hits\<rparr>"
| "selection_step matching (Row_clicked h) s = click_row h s"
| "selection_step matching All_clicked s = click_select_all s"
| "selection_step matching Counted s = count_lands (matching (sl_match s)) s"

section \<open>The handoff\<close>

definition NEW_COLLECTION_SELECTION_PARAM :: jsstring where
  "NEW_COLLECTION_SELECTION_PARAM = ''selection''"

definition HANDOFF_PREFIX :: jsstring where
  "HANDOFF_PREFIX = ''vidit:collection-selection:''"

definition HANDOFF_TTL_MS :: rat where
  "HANDOFF_TTL_MS = 1800000"

record handoff =
  ho_target :: bulk_target
  ho_count :: nat
  ho_from :: jsstring
  ho_rows :: "pickable list"

text \<open>What a reader gets back: the target and the rows stay the JSON that was parsed.\<close>

record read_handoff =
  rh_target :: json
  rh_count :: rat
  rh_from :: jsstring
  rh_rows :: "json list"

definition target_json :: "bulk_target \<Rightarrow> json" where
  "target_json t = (case t of
       By_ids ids \<Rightarrow> JObj [(''eventIds'', strings_json ids)]
     | By_match m None \<Rightarrow> JObj [(''match'', match_json m)]
     | By_match m (Some xs) \<Rightarrow> JObj [(''match'', match_json m), (''excludeEventIds'', strings_json xs)])"

definition media_role_text :: "media_role \<Rightarrow> jsstring" where
  "media_role_text r = (case r of Source_role \<Rightarrow> ''source'' | Proof_role \<Rightarrow> ''proof'')"

definition media_json :: "media \<Rightarrow> json" where
  "media_json m = JObj [(''id'', JStr (m_id m)), (''kind'', JStr (media_kind_text (m_kind m))),
     (''original_filename'', json_option (m_filename m)), (''role'', JStr (media_role_text (m_role m))),
     (''sha256'', JStr (m_sha256 m)), (''storage_url'', JStr (m_url m))]"

definition pickable_json :: "pickable \<Rightarrow> json" where
  "pickable_json r = JObj [(''id'', JStr (pk_id r)), (''title'', JStr (pk_title r)), (''status'', JStr (status_text (pk_status r))),
     (''media'', case pk_media r of None \<Rightarrow> JNull | Some m \<Rightarrow> media_json m), (''is_graphic'', JBool (pk_graphic r)),
     (''occurred_date'', json_option (pk_date r)), (''coords'', pair_json (pk_coords r)),
     (''tags'', JArr (map (\<lambda>t. JObj [(''id'', JStr (t_id t)), (''name'', JStr (t_name t))]) (pk_tags r)))]"

definition handoff_json :: "handoff \<Rightarrow> nat \<Rightarrow> json" where
  "handoff_json h now = JObj [(''target'', target_json (ho_target h)), (''rows'', JArr (map pickable_json (ho_rows h))),
     (''count'', JNum (of_nat (ho_count h))), (''from'', JStr (ho_from h)), (''at'', JNum (of_nat now))]"

text \<open>\<open>token\<close> is the fresh UUID; a write that does not reach the storage opens the plain page.\<close>

definition new_collection_from_selection_href ::
    "jsstring \<Rightarrow> nat \<Rightarrow> bool \<Rightarrow> handoff \<Rightarrow> storage \<Rightarrow> jsstring \<times> storage" where
  "new_collection_from_selection_href token now accepts h store = (case store of
       Some m \<Rightarrow> if accepts
         then (''/collections/new?'' @ NEW_COLLECTION_SELECTION_PARAM @ ''='' @ encode_uri_component token,
               Some (m(HANDOFF_PREFIX @ token \<mapsto> json_stringify (handoff_json h now))))
         else (new_collection_href None, store)
     | None \<Rightarrow> (new_collection_href None, None))"

definition target_shaped :: "json option \<Rightarrow> bool" where
  "target_shaped t = (case t of None \<Rightarrow> False
     | Some v \<Rightarrow> (case field v ''eventIds'' of Some (JArr _) \<Rightarrow> True
         | _ \<Rightarrow> (case field v ''match'' of Some (JObj _) \<Rightarrow> True | Some (JArr _) \<Rightarrow> True | _ \<Rightarrow> False)))"

definition row_shaped :: "json \<Rightarrow> bool" where
  "row_shaped r \<longleftrightarrow> is_string (field r ''id'') \<noteq> None \<and> is_string (field r ''title'') \<noteq> None"

definition in_app :: "jsstring \<Rightarrow> bool" where
  "in_app p \<longleftrightarrow> starts_with p ''/'' \<and> \<not> starts_with p ''//''"

definition is_number :: "json option \<Rightarrow> rat option" where
  "is_number v = (case v of Some (JNum x) \<Rightarrow> Some x | _ \<Rightarrow> None)"

definition handoff_of :: "json \<Rightarrow> nat \<Rightarrow> read_handoff option" where
  "handoff_of parsed now =
     (if \<not> target_shaped (field parsed ''target'') then None
      else case (field parsed ''target'', is_number (field parsed ''count''), is_number (field parsed ''at''), field parsed ''rows'') of
        (Some target, Some n, Some parked, Some (JArr rows)) \<Rightarrow>
          if HANDOFF_TTL_MS < rounded (of_nat now - parked) then None
          else Some \<lparr>rh_target = target, rh_count = n,
            rh_from = (case is_string (field parsed ''from'') of Some p \<Rightarrow> if in_app p then p else ''/search'' | None \<Rightarrow> ''/search''),
            rh_rows = filter row_shaped rows\<rparr>
      | _ \<Rightarrow> None)"

definition read_selection_handoff :: "jsstring \<Rightarrow> nat \<Rightarrow> storage \<Rightarrow> read_handoff option" where
  "read_selection_handoff token now store = (case store of
       None \<Rightarrow> None
     | Some m \<Rightarrow> (case m (HANDOFF_PREFIX @ token) of
         None \<Rightarrow> None
       | Some raw \<Rightarrow> if raw = [] then None
           else (case json_parse raw of None \<Rightarrow> None | Some parsed \<Rightarrow> handoff_of parsed now)))"

definition clear_selection_handoff :: "jsstring \<Rightarrow> storage \<Rightarrow> storage" where
  "clear_selection_handoff token store = map_option (\<lambda>m. m(HANDOFF_PREFIX @ token := None)) store"

section \<open>A key names its match\<close>

lemma strings_json_inject [simp]: "strings_json xs = strings_json ys \<longleftrightarrow> xs = ys"
  by (auto simp: strings_json_def inj_def dest: map_injective)

lemma strings_json_valid [simp]: "json_doubles (strings_json xs)" "json_valid (strings_json xs)"
  by (simp_all add: strings_json_def list_all_iff)

lemma account_json_valid [simp]: "json_doubles (account_json a)" "json_valid (account_json a)" "account_json a \<noteq> JNull" "JNull \<noteq> account_json a"
  by (auto simp: account_json_def Let_def split: account.splits option.splits)

lemma account_json_inject [simp]: "account_json a = account_json b \<longleftrightarrow> a = b"
  by (auto simp: account_json_def Let_def split: account.splits option.splits)

lemma match_json_valid [simp]: "json_doubles (match_json m)" "json_valid (match_json m)"
  by (simp_all add: match_json_def Let_def split: option.split)

lemma match_json_inject: "match_json m = match_json n \<Longrightarrow> m = n"
  by (cases m; cases n) (auto simp: match_json_def Let_def intro!: filter_state.equality split: option.splits)

lemma match_key_inject: "match_key m = match_key n \<longleftrightarrow> m = n"
  unfolding match_key_def by (auto simp: json_stringify_inject dest: match_json_inject)

section \<open>What a selection holds\<close>

text \<open>\<open>seen\<close>: the hits the page has loaded so far.\<close>

definition selection_ok :: "(search_match \<Rightarrow> nat) \<Rightarrow> author option \<Rightarrow> event_hit set \<Rightarrow> selection \<Rightarrow> bool" where
  "selection_ok matching user seen s \<longleftrightarrow> sl_user s = user \<and> set (sl_hits s) \<subseteq> seen \<and>
     (case snd (sl_state s) of
        Picked_ids ids \<Rightarrow> distinct ids \<and> (\<forall>i \<in> set ids. \<exists>h \<in> seen. eh_id h = i \<and> can_select_event user h)
      | Picked_all \<Rightarrow> \<exists>m. fst (sl_state s) = match_key m \<and> matching m \<le> BULK_ADD_MAX_EVENTS) \<and>
     (case sl_counted s of None \<Rightarrow> True | Some (k, n) \<Rightarrow> \<exists>m. k = match_key m \<and> n = matching m)"

lemma picked_ok:
  assumes "selection_ok matching user seen s"
  shows "case sl_picked s of
      Picked_ids ids \<Rightarrow> distinct ids \<and> (\<forall>i \<in> set ids. \<exists>h \<in> seen. eh_id h = i \<and> can_select_event user h)
    | Picked_all \<Rightarrow> matching (sl_match s) \<le> BULK_ADD_MAX_EVENTS"
  using assms by (auto simp: selection_ok_def sl_picked_def NOTHING_PICKED_def sl_key_def match_key_inject split: picked.splits)

lemma total_ok: "selection_ok matching user seen s \<Longrightarrow> match_total s = Some n \<Longrightarrow> n = matching (sl_match s)"
  by (auto simp: selection_ok_def match_total_def sl_key_def match_key_inject split: option.splits if_splits)

lemma set_ids_ok:
  assumes "selection_ok matching user seen s" "distinct ids" "\<forall>i \<in> set ids. \<exists>h \<in> seen. eh_id h = i \<and> can_select_event user h"
  shows "selection_ok matching user seen (set_picked (Picked_ids ids) s)"
  using assms by (simp add: selection_ok_def set_picked_def)

lemma toggle_ok:
  assumes ok: "selection_ok matching user seen s" and h: "h \<in> set (sl_hits s)" "can_select_event (sl_user s) h"
  shows "selection_ok matching user seen (toggle_hit h s)"
proof -
  have loaded: "set (sl_hits s) \<subseteq> seen" "sl_user s = user" using ok by (simp_all add: selection_ok_def)
  show ?thesis
  proof (cases "sl_picked s")
    case (Picked_ids ids)
    then show ?thesis using picked_ok [OF ok] h loaded unfolding toggle_hit_def Picked_ids Let_def
      by (intro set_ids_ok [OF ok]) auto
  next
    case Picked_all
    then show ?thesis using loaded unfolding toggle_hit_def Picked_all Let_def
      by (intro set_ids_ok [OF ok]) auto
  qed
qed

lemma select_all_ok: "selection_ok matching user seen s \<Longrightarrow> selection_ok matching user seen (click_select_all s)"
proof -
  assume ok: "selection_ok matching user seen s"
  show ?thesis
  proof (cases "\<not> sl_gutter s \<or> all_disabled s \<or> 0 < selection_count s")
    case True
    then show ?thesis using ok set_ids_ok [OF ok, of "[]"] by (auto simp: click_select_all_def NOTHING_PICKED_def)
  next
    case False
    then obtain n where "match_total s = Some n" "n \<le> BULK_ADD_MAX_EVENTS"
      by (auto simp: all_disabled_def over_cap_def split: option.splits)
    with total_ok [OF ok this(1)] ok False show ?thesis
      by (auto simp: click_select_all_def selection_ok_def set_picked_def sl_key_def simp del: split_paired_Ex)
  qed
qed

fun hits_loaded :: "selection_event \<Rightarrow> event_hit set" where
  "hits_loaded (Searched m hits) = set hits"
| "hits_loaded _ = {}"

lemma selection_step_ok:
  "selection_ok matching user seen s \<Longrightarrow> selection_ok matching user (seen \<union> hits_loaded e) (selection_step matching e s)"
proof (cases e)
  case (Searched m hits)
  assume "selection_ok matching user seen s"
  with Searched show ?thesis by (fastforce simp: selection_ok_def split: picked.splits)
next
  case Counted
  assume "selection_ok matching user seen s"
  with Counted show ?thesis
    by (auto simp: selection_ok_def count_lands_def sl_key_def simp del: split_paired_Ex split: picked.splits)
qed (auto simp: click_row_def toggle_ok select_all_ok)

lemma selection_run_ok:
  "selection_ok matching user seen s \<Longrightarrow>
   selection_ok matching user (seen \<union> \<Union> (hits_loaded ` set es)) (fold (selection_step matching) es s)"
proof (induction es arbitrary: s seen)
  case (Cons e es)
  from Cons.IH [OF selection_step_ok [OF Cons.prems, of e]] show ?case by (simp add: Un_assoc)
qed simp

lemma selection_open_ok: "selection_ok matching user (set hits) (selection_open user m hits)"
  by (simp add: selection_ok_def selection_open_def NOTHING_PICKED_def)

text \<open>
  C25. However the reader searches and picks, what the bulk add is handed is either explicit events, each
  one a hit the page loaded that credits the reader and has a status a collection holds, and none twice,
  or the current search itself, and then only where the server counted at most 500 matches.
\<close>

theorem selection_stays_addable:
  "case selection_target (fold (selection_step matching) es (selection_open user m hits)) of
     By_ids ids \<Rightarrow> distinct ids \<and>
       set ids \<subseteq> eh_id ` {h \<in> set hits \<union> \<Union> (hits_loaded ` set es). can_select_event user h}
   | By_match n excluded \<Rightarrow> n = sl_match (fold (selection_step matching) es (selection_open user m hits)) \<and>
       matching n \<le> BULK_ADD_MAX_EVENTS"
proof -
  let ?s = "fold (selection_step matching) es (selection_open user m hits)"
  let ?seen = "set hits \<union> \<Union> (hits_loaded ` set es)"
  have ok: "selection_ok matching user ?seen ?s" by (rule selection_run_ok [OF selection_open_ok])
  show ?thesis
  proof (cases "sl_picked ?s")
    case (Picked_ids ids)
    then have "distinct ids" "\<forall>i \<in> set ids. \<exists>h \<in> ?seen. eh_id h = i \<and> can_select_event user h"
      using picked_ok [OF ok] by simp_all
    then show ?thesis unfolding selection_target_def Picked_ids by (fastforce simp: image_iff)
  next
    case Picked_all
    then show ?thesis using picked_ok [OF ok] by (simp add: selection_target_def)
  qed
qed

text \<open>The match of a new search starts with nothing picked.\<close>

lemma new_match_starts_empty:
  "fst (sl_state s) = sl_key s \<Longrightarrow> m \<noteq> sl_match s \<Longrightarrow>
   selection_target (selection_step matching (Searched m hits) s) = By_ids []"
  by (simp add: selection_target_def sl_picked_def sl_key_def match_key_inject NOTHING_PICKED_def)

text \<open>
  A search left and come back to shows its picks again, the picked rows of its further pages no longer
  loaded: the count says one, and there is no row to hand to the create page.
\<close>

definition hit_of :: "jsstring \<Rightarrow> event_hit" where
  "hit_of i = \<lparr>eh_id = i, eh_title = ''t'', eh_status = Geolocated, eh_media = [], eh_graphic = False, eh_date = None,
     eh_lat = None, eh_lng = None, eh_tags = [], eh_owner = \<lparr>a_id = ''u'', a_username = ''u'', a_avatar = None\<rparr>, eh_geolocators = []\<rparr>"

definition left_and_back :: "selection_event list" where
  "left_and_back = [Searched (''a'', EMPTY_FILTERS) [hit_of ''1'', hit_of ''2''], Row_clicked (hit_of ''2''),
     Searched (''b'', EMPTY_FILTERS) [], Searched (''a'', EMPTY_FILTERS) [hit_of ''1'']]"

lemma picked_rows_can_be_gone:
  "let s = fold (selection_step (\<lambda>_. 0)) left_and_back (selection_open (Some \<lparr>a_id = ''u'', a_username = ''u'', a_avatar = None\<rparr>) (''a'', EMPTY_FILTERS) [])
   in selection_count s = 1 \<and> selection_rows s = []"
  by (simp add: left_and_back_def selection_open_def click_row_def toggle_hit_def can_select_event_def credited_authors_def
      COLLECTABLE_STATUSES_def set_picked_def sl_picked_def sl_key_def match_key_inject NOTHING_PICKED_def selection_count_def
      selection_rows_def hit_of_def)

section \<open>The handoff comes back\<close>

definition handoff_ok :: "handoff \<Rightarrow> bool" where
  "handoff_ok h \<longleftrightarrow> ho_count h \<le> 2 ^ 53 \<and> in_app (ho_from h) \<and>
     list_all (\<lambda>r. case pk_coords r of None \<Rightarrow> True | Some c \<Rightarrow> is_double (lat c) \<and> is_double (lng c)) (ho_rows h)"

lemma is_double_of_nat: "n \<le> 2 ^ 53 \<Longrightarrow> is_double (of_nat n)"
  using is_double_of_int [of "int n"] by simp

lemma json_option_valid [simp]: "json_valid (json_option v)"
  by (simp add: json_option_def split: option.split)

lemma target_json_valid [simp]: "json_valid (target_json t)"
  by (simp add: target_json_def split: bulk_target.split option.split)

lemma pickable_json_valid:
  "(case pk_coords r of None \<Rightarrow> True | Some c \<Rightarrow> is_double (lat c) \<and> is_double (lng c)) \<Longrightarrow> json_valid (pickable_json r)"
  by (auto simp: pickable_json_def media_json_def pair_json_def list_all_iff split: option.splits)

lemma handoff_json_valid: "handoff_ok h \<Longrightarrow> now \<le> 2 ^ 53 \<Longrightarrow> json_valid (handoff_json h now)"
  by (auto simp: handoff_json_def handoff_ok_def list_all_iff is_double_of_nat intro!: pickable_json_valid)

lemma target_json_shaped: "target_shaped (Some (target_json t))"
  by (simp add: target_shaped_def target_json_def match_json_def strings_json_def field_def Let_def split: bulk_target.split option.split)

lemma pickable_json_shaped: "filter row_shaped (map pickable_json rows) = map pickable_json rows"
  by (simp add: filter_id_conv row_shaped_def pickable_json_def field_def)

lemma rounded_nat_diff: "now \<le> later \<Longrightarrow> later \<le> 2 ^ 53 \<Longrightarrow> rounded (of_nat later - of_nat now) = of_nat later - of_nat now"
  using is_double_of_nat [of "later - now"] by (simp add: rounded_def is_double_def of_nat_diff)

lemma handoff_of_json:
  assumes "handoff_ok h" "now \<le> later" "later \<le> 2 ^ 53"
  shows "handoff_of (handoff_json h now) later =
    (if 1800000 < later - now then None
     else Some \<lparr>rh_target = target_json (ho_target h), rh_count = of_nat (ho_count h), rh_from = ho_from h,
       rh_rows = map pickable_json (ho_rows h)\<rparr>)"
proof -
  have "(HANDOFF_TTL_MS < of_nat later - of_nat now) = (1800000 < later - now)"
    using assms(2) of_nat_less_iff [of 1800000 "later - now", where ?'a = rat] by (simp add: HANDOFF_TTL_MS_def of_nat_diff)
  then show ?thesis
    using assms(1) target_json_shaped pickable_json_shaped rounded_nat_diff [OF assms(2,3)]
    by (simp add: handoff_of_def handoff_json_def field_def is_number_def handoff_ok_def)
qed

text \<open>
  A selection parked for the create page comes back whole under its token, for thirty minutes and
  not after: the same target, count, page of origin and rows, whatever else the storage holds.
\<close>

theorem handoff_comes_back:
  assumes "handoff_ok h" "now \<le> later" "later \<le> 2 ^ 53"
  shows "read_selection_handoff token later (snd (new_collection_from_selection_href token now True h (Some m))) =
    (if 1800000 < later - now then None
     else Some \<lparr>rh_target = target_json (ho_target h), rh_count = of_nat (ho_count h), rh_from = ho_from h,
       rh_rows = map pickable_json (ho_rows h)\<rparr>)"
proof -
  have "json_stringify (handoff_json h now) \<noteq> []" by (simp add: handoff_json_def)
  moreover have "json_parse (json_stringify (handoff_json h now)) = Some (handoff_json h now)"
    using handoff_json_valid [OF assms(1)] assms(2,3) by (intro json_parse_stringify_valid) simp
  ultimately show ?thesis
    using handoff_of_json [OF assms] by (simp add: read_selection_handoff_def new_collection_from_selection_href_def)
qed

definition example_handoff :: handoff where
  "example_handoff = \<lparr>ho_target = By_ids [''1''], ho_count = 1, ho_from = ''/search?q=a'', ho_rows = [pickable_from_hit (hit_of ''1'')]\<rparr>"

lemma handoff_comes_back_witness:
  "read_selection_handoff ''t'' 1000 (snd (new_collection_from_selection_href ''t'' 0 True example_handoff (Some Map.empty))) =
     Some \<lparr>rh_target = target_json (By_ids [''1'']), rh_count = 1, rh_from = ''/search?q=a'',
       rh_rows = [pickable_json (pickable_from_hit (hit_of ''1''))]\<rparr>"
  by (subst handoff_comes_back)
    (simp_all add: handoff_ok_def example_handoff_def in_app_def starts_with_def pickable_from_hit_def hit_of_def)

text \<open>A cleared handoff is gone, and no other entry of the storage is touched.\<close>

lemma cleared_handoff_is_gone: "read_selection_handoff token now (clear_selection_handoff token store) = None"
  by (simp add: read_selection_handoff_def clear_selection_handoff_def split: option.split)

lemma read_from_is_in_app: "handoff_of parsed now = Some r \<Longrightarrow> in_app (rh_from r)"
  by (auto simp: handoff_of_def in_app_def starts_with_def split: if_splits option.splits json.splits)

end
