(* ===== verification/Approvals.thy ===== *)
theory Approvals
  imports Organizations Event_History Search_Selection
begin

text \<open>
  Approvals and the requests for them (\<open>lib/approvals.ts\<close>, \<open>lib/approvalRequests.ts\<close>): the reviews of a version, what
  a reader may approve or ask for, and the calls. A user id is \<open>None\<close> while signed out.
\<close>

section \<open>Rows and paths\<close>

record approval =
  ap_id :: jsstring
  ap_created_at :: jsstring
  ap_current :: bool
  ap_organization :: "organization_ref option"
  ap_reviewer :: "author option"
  ap_version_no :: int

record approval_list =
  pl_items :: "approval list"
  pl_viewer_can_approve :: bool

definition approvals_path :: "jsstring \<Rightarrow> int option \<Rightarrow> jsstring" where
  "approvals_path eid version = (let base = ''/events/'' @ eid @ ''/approvals'' in
     case version of None \<Rightarrow> base | Some n \<Rightarrow> base @ ''?version_no='' @ int_text n)"

definition all_approvals_path :: "jsstring \<Rightarrow> jsstring" where
  "all_approvals_path eid = approvals_path eid None @ ''?all_versions=true''"

definition organization_approvals_path :: "jsstring \<Rightarrow> jsstring option \<Rightarrow> jsstring" where
  "organization_approvals_path slg cursor = with_cursor (''/organizations/'' @ encode_uri_component slg @ ''/approvals'') cursor"

definition approval_before :: "approval list \<Rightarrow> int \<Rightarrow> int option" where
  "approval_before rows live = (let versions = map ap_version_no (filter (\<lambda>a. ap_version_no a < live) rows)
     in if 0 < length versions then Some (Max (set versions)) else None)"

definition changes_since :: "(int \<Rightarrow> int) \<Rightarrow> casts \<Rightarrow> url_parser \<Rightarrow> event \<Rightarrow> event_version \<Rightarrow> jsstring list option" where
  "changes_since tz cs parse current approved =
     (if v_redacted approved then None else Some (changed_fields tz current (snapshot_to_event_view cs parse current approved)))"

definition approve_event :: "jsstring \<Rightarrow> int \<Rightarrow> jsstring option \<Rightarrow> 'f write_call" where
  "approve_event eid version organization = post_json (approvals_path eid None)
     (JObj ((''version_no'', JNum (of_int version)) #
       (case organization of Some o' \<Rightarrow> if o' \<noteq> [] then [(''organization'', JStr o')] else [] | None \<Rightarrow> [])))"

definition delete_approval :: "jsstring \<Rightarrow> 'f write_call" where
  "delete_approval i = delete_call (''/admin/approvals/'' @ i)"

section \<open>Who may approve\<close>

text \<open>The empty user id and the empty slg count as none.\<close>

definition can_approve :: "event \<Rightarrow> jsstring option \<Rightarrow> approval list \<Rightarrow> jsstring option \<Rightarrow> bool" where
  "can_approve e user live organization = (case user of
       None \<Rightarrow> False
     | Some uid \<Rightarrow>
         if uid = [] \<or> e_status e \<noteq> Geolocated then False
         else if list_ex (\<lambda>a. a_id a = uid) (credited_authors (e_owner e) (e_geolocators e)) then False
         else (case organization of
             Some slg \<Rightarrow>
               if slg \<noteq> [] then \<not> list_ex (\<lambda>a. map_option or_slug (ap_organization a) = Some slg) live
               else \<not> list_ex (\<lambda>a. ap_organization a = None \<and> map_option a_id (ap_reviewer a) = Some uid) live
           | None \<Rightarrow> \<not> list_ex (\<lambda>a. ap_organization a = None \<and> map_option a_id (ap_reviewer a) = Some uid) live))"

record approve_options =
  ao_eligible :: bool
  ao_organizations :: "organization_ref list"

definition approve_options_of :: "event \<Rightarrow> approval_list \<Rightarrow> organization_ref list \<Rightarrow> jsstring option \<Rightarrow> approve_options" where
  "approve_options_of e approvals member_of user =
     (if \<not> pl_viewer_can_approve approvals then \<lparr>ao_eligible = False, ao_organizations = []\<rparr>
      else (let live = filter (\<lambda>a. ap_version_no a = e_version_no e) (pl_items approvals)
        in \<lparr>ao_eligible = can_approve e user live None,
            ao_organizations = filter (\<lambda>o'. can_approve e user live (Some (or_slug o'))) member_of\<rparr>))"

section \<open>Requests\<close>

datatype approval_audience = Following | Everyone | Nobody

datatype approval_target = Ask_analyst jsstring | Ask_organization jsstring

definition APPROVAL_REQUEST_AUDIENCE_DEFAULT :: approval_audience where
  "APPROVAL_REQUEST_AUDIENCE_DEFAULT = Following"

fun audience_text :: "approval_audience \<Rightarrow> jsstring" where
  "audience_text Following = ''following''"
| "audience_text Everyone = ''everyone''"
| "audience_text Nobody = ''nobody''"

definition AUDIENCE_LABELS :: "(approval_audience \<times> jsstring) list" where
  "AUDIENCE_LABELS = [(Following, ''People I follow''), (Everyone, ''Everyone''), (Nobody, ''Nobody'')]"

definition APPROVAL_REQUEST_AUDIENCE_OPTIONS :: "(approval_audience \<times> jsstring) list" where
  "APPROVAL_REQUEST_AUDIENCE_OPTIONS = AUDIENCE_LABELS"

definition ORGANIZATION_AUDIENCE_OPTIONS :: "(approval_audience \<times> jsstring) list" where
  "ORGANIZATION_AUDIENCE_OPTIONS = map (\<lambda>(v, label). (v, if v = Following then ''People our org managers follow'' else label)) AUDIENCE_LABELS"

definition approval_requests_path :: "jsstring \<Rightarrow> jsstring" where
  "approval_requests_path eid = ''/events/'' @ eid @ ''/approval-requests''"

definition approval_request_targets_path :: "jsstring \<Rightarrow> jsstring \<Rightarrow> jsstring" where
  "approval_request_targets_path eid q = ''/events/'' @ eid @ ''/approval-request-targets?q='' @ encode_uri_component q"

definition organization_approval_requests_path :: "jsstring \<Rightarrow> jsstring" where
  "organization_approval_requests_path slg = ''/organizations/'' @ encode_uri_component slg @ ''/approval-requests''"

definition request_approval :: "jsstring \<Rightarrow> approval_target \<Rightarrow> 'f write_call" where
  "request_approval eid target = post_json (approval_requests_path eid) (case target of
       Ask_analyst name \<Rightarrow> JObj [(''username'', JStr name)] | Ask_organization slg \<Rightarrow> JObj [(''organization'', JStr slg)])"

definition decline_approval_request :: "jsstring \<Rightarrow> jsstring \<Rightarrow> 'f write_call" where
  "decline_approval_request eid request = post_call (approval_requests_path eid @ ''/'' @ request @ ''/decline'')"

definition can_request_approval :: "event \<Rightarrow> jsstring option \<Rightarrow> bool" where
  "can_request_approval e user = (case user of
       None \<Rightarrow> False
     | Some uid \<Rightarrow> if uid = [] \<or> e_status e \<noteq> Geolocated then False
         else list_ex (\<lambda>a. a_id a = uid) (credited_authors (e_owner e) (e_geolocators e)))"

section \<open>Facts\<close>

lemma approval_before_Some:
  "approval_before rows live = Some n \<longleftrightarrow>
     (\<exists>a \<in> set rows. ap_version_no a = n) \<and> n < live \<and> (\<forall>a \<in> set rows. ap_version_no a < live \<longrightarrow> ap_version_no a \<le> n)"
proof -
  let ?V = "set (map ap_version_no (filter (\<lambda>a. ap_version_no a < live) rows))"
  have "?V \<noteq> {} \<Longrightarrow> (Max ?V = n \<longleftrightarrow> n \<in> ?V \<and> (\<forall>v \<in> ?V. v \<le> n))" by (simp add: eq_Max_iff eq_commute [of _ n] del: set_map set_filter)
  moreover have "approval_before rows live = (if ?V = {} then None else Some (Max ?V))"
    by (simp add: approval_before_def Let_def filter_empty_conv)
  ultimately show ?thesis by (cases "?V = {}") auto
qed

text \<open>A reader approves or asks, never both: on a published event, one who is credited asks, one who is not approves.\<close>

lemma approve_or_ask:
  "can_request_approval e user \<Longrightarrow> \<not> can_approve e user live organization"
  by (auto simp: can_request_approval_def can_approve_def split: option.splits if_splits)

lemma can_approve_iff:
  "can_approve e (Some uid) live None \<longleftrightarrow> can_approve e (Some uid) [] None \<and>
     \<not> list_ex (\<lambda>a. ap_organization a = None \<and> map_option a_id (ap_reviewer a) = Some uid) live"
  "slg \<noteq> [] \<Longrightarrow> can_approve e (Some uid) live (Some slg) \<longleftrightarrow> can_approve e (Some uid) [] (Some slg) \<and>
     \<not> list_ex (\<lambda>a. map_option or_slug (ap_organization a) = Some slg) live"
  by (auto simp: can_approve_def)

text \<open>The reader's choices among the organizations they are in (each has a slug), and an approval they place.\<close>

definition choices_of :: "event \<Rightarrow> approval_list \<Rightarrow> organization_ref list \<Rightarrow> author \<Rightarrow> approve_options" where
  "choices_of e approvals member_of u = approve_options_of e approvals (filter (\<lambda>o'. or_slug o' \<noteq> []) member_of) (Some (a_id u))"

definition place :: "jsstring \<Rightarrow> jsstring \<Rightarrow> author \<Rightarrow> organization_ref option \<Rightarrow> int \<Rightarrow> approval_list \<Rightarrow> approval_list" where
  "place i at' u org n approvals = approvals\<lparr>pl_items := pl_items approvals @
     [\<lparr>ap_id = i, ap_created_at = at', ap_current = True, ap_organization = org, ap_reviewer = Some u, ap_version_no = n\<rparr>]\<rparr>"

text \<open>
  A reviewer approves a version once, in each name: after the approval the reader just placed joins the list, the same
  choice is not offered again and every other one stays; an approval of another version changes no choice.
\<close>

theorem approval_is_offered_once:
  "ao_eligible (choices_of e (place i at' u org (e_version_no e) approvals) member_of u) =
     (ao_eligible (choices_of e approvals member_of u) \<and> org \<noteq> None) \<and>
   ao_organizations (choices_of e (place i at' u org (e_version_no e) approvals) member_of u) =
     filter (\<lambda>o'. map_option or_slug org \<noteq> Some (or_slug o')) (ao_organizations (choices_of e approvals member_of u)) \<and>
   (n = e_version_no e \<or> choices_of e (place i at' u org n approvals) member_of u = choices_of e approvals member_of u)"
proof -
  let ?uid = "a_id u" and ?live = "filter (\<lambda>a. ap_version_no a = e_version_no e) (pl_items approvals)"
  let ?ms = "filter (\<lambda>o'. or_slug o' \<noteq> []) member_of"
  let ?a = "\<lparr>ap_id = i, ap_created_at = at', ap_current = True, ap_organization = org, ap_reviewer = Some u, ap_version_no = e_version_no e\<rparr>"
  have own: "can_approve e (Some ?uid) (?live @ [?a]) None \<longleftrightarrow> can_approve e (Some ?uid) ?live None \<and> org \<noteq> None"
    using can_approve_iff(1) [of e ?uid "?live @ [?a]"] can_approve_iff(1) [of e ?uid ?live] by auto
  have "can_approve e (Some ?uid) (?live @ [?a]) (Some (or_slug o')) \<longleftrightarrow>
      map_option or_slug org \<noteq> Some (or_slug o') \<and> can_approve e (Some ?uid) ?live (Some (or_slug o'))"
    if "or_slug o' \<noteq> []" for o'
    using can_approve_iff(2) [OF that, of e ?uid "?live @ [?a]"] can_approve_iff(2) [OF that, of e ?uid ?live] by auto
  then have orgs: "filter (\<lambda>o'. can_approve e (Some ?uid) (?live @ [?a]) (Some (or_slug o'))) ?ms =
      filter (\<lambda>o'. map_option or_slug org \<noteq> Some (or_slug o')) (filter (\<lambda>o'. can_approve e (Some ?uid) ?live (Some (or_slug o'))) ?ms)"
    unfolding filter_filter by (intro filter_cong) auto
  have now: "choices_of e (place i at' u org (e_version_no e) approvals) member_of u =
      (if \<not> pl_viewer_can_approve approvals then \<lparr>ao_eligible = False, ao_organizations = []\<rparr>
       else \<lparr>ao_eligible = can_approve e (Some ?uid) (?live @ [?a]) None,
         ao_organizations = filter (\<lambda>o'. can_approve e (Some ?uid) (?live @ [?a]) (Some (or_slug o'))) ?ms\<rparr>)"
    by (simp add: choices_of_def place_def approve_options_of_def Let_def)
  have before: "choices_of e approvals member_of u =
      (if \<not> pl_viewer_can_approve approvals then \<lparr>ao_eligible = False, ao_organizations = []\<rparr>
       else \<lparr>ao_eligible = can_approve e (Some ?uid) ?live None,
         ao_organizations = filter (\<lambda>o'. can_approve e (Some ?uid) ?live (Some (or_slug o'))) ?ms\<rparr>)"
    by (simp add: choices_of_def approve_options_of_def Let_def)
  have "n = e_version_no e \<or> choices_of e (place i at' u org n approvals) member_of u = choices_of e approvals member_of u"
    by (simp add: choices_of_def place_def approve_options_of_def Let_def)
  then show ?thesis unfolding now before own orgs by simp
qed

end
