(* ===== verification/Proof_Images.thy ===== *)
theory Proof_Images
  imports Proof_Html "HOL-Library.Word"
begin

text \<open>
  \<open>lib/proofImages.ts\<close>: the name a picked proof image is staged under, the frame count of a GIF
  read off its bytes, and the names its frames take. Decoding a frame to a picture is the
  browser's; a GIF file is a list of bytes.
\<close>

unbundle bit_operations_syntax

definition PROOF_PLACEHOLDER_PREFIX :: jsstring where
  "PROOF_PLACEHOLDER_PREFIX = ''placeholder://''"

definition ORIGINAL_FILENAME_MAX_LEN :: nat where
  "ORIGINAL_FILENAME_MAX_LEN = 255"

definition MAX_GIF_FRAMES :: nat where
  "MAX_GIF_FRAMES = 6"

section \<open>Names\<close>

text \<open>A control or format character: of the Latin-1 code units, the two control blocks and the soft
  hyphen.\<close>

definition control_char :: "char \<Rightarrow> bool" where
  "control_char c \<longleftrightarrow> (let n = of_char c :: nat in n < 32 \<or> 127 \<le> n \<and> n < 160 \<or> n = 173)"

definition sanitize_filename :: "jsstring \<Rightarrow> jsstring option" where
  "sanitize_filename name =
     (let slashed = map (\<lambda>c. if of_char c = (92 :: nat) then CHR ''/'' else c) name;
          base = js_trim (last (split_char (CHR ''/'') slashed))
      in if base = [] then None
         else if list_ex control_char base then None
         else Some (take ORIGINAL_FILENAME_MAX_LEN base))"

text \<open>The stem and the extension, which starts at the last dot past the first character.\<close>

definition split_name :: "jsstring \<Rightarrow> jsstring \<times> jsstring" where
  "split_name name = (case last_index (CHR ''.'') name of
       Some dot \<Rightarrow> if 0 < dot then (take dot name, drop dot name) else (name, [])
     | None \<Rightarrow> (name, []))"

definition name_candidate :: "jsstring \<Rightarrow> jsstring \<Rightarrow> nat \<Rightarrow> jsstring" where
  "name_candidate stem ext i = (let suffix = ''-'' @ nat_text i;
       budget = ORIGINAL_FILENAME_MAX_LEN - length ext - length suffix
     in take budget stem @ suffix @ ext)"

definition safe_proof_filename :: "jsstring \<Rightarrow> jsstring set \<Rightarrow> jsstring option" where
  "safe_proof_filename name used = (case sanitize_filename name of
       None \<Rightarrow> None
     | Some safe \<Rightarrow> if safe \<notin> used then Some safe
         else (let (stem, ext) = split_name safe
           in find (\<lambda>candidate. candidate \<notin> used) (map (name_candidate stem ext) [2 ..< 1000])))"

section \<open>Frames\<close>

type_synonym bytes = "8 word list"

definition byte_at :: "bytes \<Rightarrow> nat \<Rightarrow> 8 word" where
  "byte_at bs i = (if i < length bs then bs ! i else 0)"

definition color_table :: "8 word \<Rightarrow> nat" where
  "color_table packed = (if packed AND 0x80 \<noteq> 0 then 3 * 2 ^ (unat (packed AND 0x07) + 1) else 0)"

function end_sub_blocks :: "bytes \<Rightarrow> nat \<Rightarrow> nat" where
  "end_sub_blocks bs pos =
     (if pos < length bs \<and> byte_at bs pos \<noteq> 0 then end_sub_blocks bs (pos + unat (byte_at bs pos) + 1) else pos)"
  by auto
termination
  by (relation "measure (\<lambda>(bs, pos). length bs - pos)") auto

declare end_sub_blocks.simps [simp del]

definition skip_sub_blocks :: "bytes \<Rightarrow> nat \<Rightarrow> nat" where
  "skip_sub_blocks bs pos = end_sub_blocks bs pos + 1"

lemma end_sub_blocks_ge: "pos \<le> end_sub_blocks bs pos"
proof (induction bs pos rule: end_sub_blocks.induct)
  case (1 bs pos)
  then show ?case by (subst end_sub_blocks.simps) auto
qed

lemma skip_sub_blocks_gt: "pos < skip_sub_blocks bs pos"
  using end_sub_blocks_ge [of pos bs] by (simp add: skip_sub_blocks_def)

function count_frames :: "bytes \<Rightarrow> nat \<Rightarrow> nat \<Rightarrow> nat" where
  "count_frames bs pos frames =
     (if pos < length bs then
        (if byte_at bs pos = 0x3b then frames
         else if byte_at bs pos = 0x21 then count_frames bs (skip_sub_blocks bs (pos + 2)) frames
         else if byte_at bs pos = 0x2c then
           count_frames bs (skip_sub_blocks bs (pos + 10 + color_table (byte_at bs (pos + 9)) + 1)) (frames + 1)
         else frames)
      else frames)"
  by auto
termination
proof (relation "measure (\<lambda>(bs, pos, _). length bs - pos)", goal_cases)
  case (2 bs pos frames)
  with skip_sub_blocks_gt [of "pos + 2" bs] show ?case by simp
next
  case (3 bs pos frames)
  with skip_sub_blocks_gt [of "pos + 10 + color_table (byte_at bs (pos + 9)) + 1" bs] show ?case by simp
qed simp

declare count_frames.simps [simp del]

definition ascii_bytes :: "jsstring \<Rightarrow> bytes" where
  "ascii_bytes = map (\<lambda>c. of_nat (of_char c))"

definition gif_frame_count :: "bytes \<Rightarrow> nat option" where
  "gif_frame_count bs =
     (if take 6 bs \<noteq> ascii_bytes ''GIF87a'' \<and> take 6 bs \<noteq> ascii_bytes ''GIF89a'' then None
      else (let frames = count_frames bs (13 + color_table (byte_at bs 10)) 0
        in if 0 < frames then Some frames else None))"

definition gif_refusal :: "nat option \<Rightarrow> nat \<Rightarrow> jsstring option" where
  "gif_refusal frames max_frames = (case frames of
       None \<Rightarrow> Some ''Could not read this GIF. Insert a valid GIF file.''
     | Some n \<Rightarrow> if n \<le> max_frames then None
         else Some (''This GIF holds '' @ nat_text n @ '' frames, and a GIF may hold at most '' @ nat_text max_frames
           @ ''. Insert a GIF of '' @ nat_text max_frames @ '' frames or fewer.''))"

definition GIF_MIME :: jsstring where
  "GIF_MIME = ''image/gif''"

definition gif_split_frames :: "jsstring \<Rightarrow> bytes \<Rightarrow> nat option" where
  "gif_split_frames mime bs = (if mime \<noteq> GIF_MIME then None
     else (case gif_frame_count bs of
         Some n \<Rightarrow> if 1 < n \<and> n \<le> MAX_GIF_FRAMES then Some n else None
       | None \<Rightarrow> None))"

definition gif_frame_filename :: "jsstring \<Rightarrow> nat \<Rightarrow> nat \<Rightarrow> jsstring" where
  "gif_frame_filename name i n = (let stem = fst (split_name name)
     in if 1 < n then stem @ ''-'' @ nat_text (i + 1) @ ''.png'' else stem @ ''.png'')"

section \<open>What the counter reads\<close>

text \<open>A GIF as its format lays it out: extensions and images, each with data sub-blocks of 1 to 255
  bytes. An image names its descriptor's bytes before the packed one, the packed byte, its colors
  and its code size. A color is three bytes. The highest bit of a packed byte says whether a color
  table follows, and its lowest three bits spell the number \<open>n\<close> of a table of \<open>2 ^ (n + 1)\<close> colors.\<close>

type_synonym color = "8 word \<times> 8 word \<times> 8 word"

definition table_bytes :: "color list \<Rightarrow> bytes" where
  "table_bytes colors = concat (map (\<lambda>(r, g, b). [r, g, b]) colors)"

definition table_fits :: "8 word \<Rightarrow> color list \<Rightarrow> bool" where
  "table_fits packed colors \<longleftrightarrow> length colors =
     (if bit packed 7
      then 2 ^ (of_bool (bit packed 0) + 2 * of_bool (bit packed 1) + 4 * of_bool (bit packed 2) + 1) else 0)"

datatype gif_block =
    Extension "8 word" "bytes list"
  | Frame bytes "8 word" "color list" "8 word" "bytes list"

definition sub_blocks_bytes :: "bytes list \<Rightarrow> bytes" where
  "sub_blocks_bytes subs = concat (map (\<lambda>b. of_nat (length b) # b) subs) @ [0]"

fun block_bytes :: "gif_block \<Rightarrow> bytes" where
  "block_bytes (Extension label subs) = [0x21, label] @ sub_blocks_bytes subs"
| "block_bytes (Frame descriptor packed table lzw subs) =
     [0x2c] @ descriptor @ [packed] @ table_bytes table @ [lzw] @ sub_blocks_bytes subs"

definition sub_blocks_ok :: "bytes list \<Rightarrow> bool" where
  "sub_blocks_ok subs \<longleftrightarrow> (\<forall>b \<in> set subs. b \<noteq> [] \<and> length b < 256)"

fun block_ok :: "gif_block \<Rightarrow> bool" where
  "block_ok (Extension label subs) \<longleftrightarrow> sub_blocks_ok subs"
| "block_ok (Frame descriptor packed table lzw subs) \<longleftrightarrow>
     length descriptor = 8 \<and> table_fits packed table \<and> sub_blocks_ok subs"

fun is_frame :: "gif_block \<Rightarrow> bool" where
  "is_frame (Extension label subs) = False"
| "is_frame (Frame descriptor packed table lzw subs) = True"

definition gif_bytes :: "jsstring \<Rightarrow> bytes \<Rightarrow> 8 word \<Rightarrow> bytes \<Rightarrow> color list \<Rightarrow> gif_block list \<Rightarrow> bytes \<Rightarrow> bytes" where
  "gif_bytes version dims packed rest table blocks after =
     ascii_bytes version @ dims @ [packed] @ rest @ table_bytes table @ concat (map block_bytes blocks) @ [0x3b] @ after"

text \<open>The code reads the length of a table off its packed byte as the format spells it.\<close>

lemma flag_bit: "(w :: 8 word) AND 0x80 \<noteq> 0 \<longleftrightarrow> bit w 7"
  using and_exp_eq_0_iff_not_bit [of w 7] by simp

lemma take_three_bits: "take_bit 3 n = of_bool (bit n 0) + 2 * of_bool (bit n 1) + 4 * of_bool (bit n 2)" for n :: nat
  using take_bit_Suc_from_most [of 2 n] take_bit_Suc_from_most [of 1 n] take_bit_eq_mod [of 1 n]
  by (simp add: bit_0 odd_iff_mod_2_eq_one Suc_1 del: One_nat_def)

lemma low_three_bits: "unat ((w :: 8 word) AND 0x07) = of_bool (bit w 0) + 2 * of_bool (bit w 1) + 4 * of_bool (bit w 2)"
proof -
  have "w AND 0x07 = take_bit 3 w" by (simp add: take_bit_eq_mask mask_eq_exp_minus_1)
  then have "unat (w AND 0x07) = take_bit 3 (unat w)" by (simp only: unsigned_take_bit_eq)
  then show ?thesis by (simp only: take_three_bits bit_unsigned_iff) simp
qed

lemma table_bytes_length: "length (table_bytes colors) = 3 * length colors"
  by (induction colors) (auto simp: table_bytes_def)

lemma table_fits_length: "table_fits packed colors \<Longrightarrow> length (table_bytes colors) = color_table packed"
  by (simp add: table_fits_def table_bytes_length color_table_def flag_bit low_three_bits)

lemma byte_at_append: "byte_at (pre @ b # post) (length pre) = b"
  by (simp add: byte_at_def)

lemma byte_at_append_plus: "byte_at (pre @ post) (length pre + i) = byte_at post i"
  by (simp add: byte_at_def nth_append)

lemma unat_of_length: "b \<noteq> [] \<Longrightarrow> length b < 256 \<Longrightarrow> unat (of_nat (length b) :: 8 word) = length b"
  by (simp add: unat_of_nat)

lemma end_sub_blocks_bytes:
  "sub_blocks_ok subs \<Longrightarrow>
     end_sub_blocks (pre @ sub_blocks_bytes subs @ post) (length pre) + 1 = length pre + length (sub_blocks_bytes subs)"
proof (induction subs arbitrary: pre)
  case Nil
  then show ?case by (subst end_sub_blocks.simps) (simp add: sub_blocks_bytes_def byte_at_append)
next
  case (Cons b subs)
  let ?n = "of_nat (length b) :: 8 word"
  have n: "unat ?n = length b" "?n \<noteq> 0"
    using Cons.prems unat_of_length [of b] by (auto simp: sub_blocks_ok_def)
  have bs: "pre @ sub_blocks_bytes (b # subs) @ post = (pre @ ?n # b) @ sub_blocks_bytes subs @ post"
    by (simp add: sub_blocks_bytes_def)
  have "byte_at (pre @ sub_blocks_bytes (b # subs) @ post) (length pre) = ?n"
    by (simp add: sub_blocks_bytes_def byte_at_append)
  then have "end_sub_blocks (pre @ sub_blocks_bytes (b # subs) @ post) (length pre) =
      end_sub_blocks (pre @ sub_blocks_bytes (b # subs) @ post) (length (pre @ ?n # b))"
    using n by (subst end_sub_blocks.simps) (simp add: sub_blocks_bytes_def)
  with Cons.IH [of "pre @ ?n # b"] Cons.prems show ?case
    by (simp add: bs sub_blocks_ok_def) (simp add: sub_blocks_bytes_def)
qed

lemma skip_sub_blocks_bytes:
  "sub_blocks_ok subs \<Longrightarrow>
     skip_sub_blocks (pre @ sub_blocks_bytes subs @ post) (length pre) = length (pre @ sub_blocks_bytes subs)"
  using end_sub_blocks_bytes [of subs pre post] by (simp add: skip_sub_blocks_def)

lemma count_block:
  assumes "block_ok block"
  shows "count_frames (pre @ block_bytes block @ post) (length pre) frames =
    count_frames (pre @ block_bytes block @ post) (length (pre @ block_bytes block)) (frames + (if is_frame block then 1 else 0))"
proof (cases block)
  case (Extension label subs)
  have "skip_sub_blocks (pre @ block_bytes block @ post) (length pre + 2) = length (pre @ block_bytes block)"
    using skip_sub_blocks_bytes [of subs "pre @ [0x21, label]" post] assms Extension by simp
  then show ?thesis
    using Extension by (subst count_frames.simps) (simp add: byte_at_append)
next
  case (Frame descriptor packed table lzw subs)
  let ?pre = "pre @ [0x2c] @ descriptor @ [packed] @ table_bytes table @ [lzw]"
  have ok: "length descriptor = 8" "length (table_bytes table) = color_table packed" "sub_blocks_ok subs"
    using assms Frame by (simp_all add: table_fits_length)
  have bs: "pre @ block_bytes block @ post = ?pre @ sub_blocks_bytes subs @ post" using Frame by simp
  have packed: "byte_at (pre @ block_bytes block @ post) (length pre + 9) = packed"
    using byte_at_append [of "pre @ [0x2c] @ descriptor" packed] ok Frame by simp
  have "skip_sub_blocks (?pre @ sub_blocks_bytes subs @ post) (length ?pre) = length (?pre @ sub_blocks_bytes subs)"
    by (rule skip_sub_blocks_bytes [OF ok(3)])
  moreover have "length pre + 10 + color_table packed + 1 = length ?pre" using ok by simp
  moreover have "?pre @ sub_blocks_bytes subs = pre @ block_bytes block" using Frame by simp
  ultimately have skip: "skip_sub_blocks (pre @ block_bytes block @ post) (length pre + 10 + color_table packed + 1) =
      length (pre @ block_bytes block)"
    by (simp only: bs)
  have "byte_at (pre @ block_bytes block @ post) (length pre) = 0x2c" "length pre < length (pre @ block_bytes block @ post)"
    "is_frame block"
    using Frame by (simp_all add: byte_at_append)
  with packed skip show ?thesis
    by (subst count_frames.simps) simp
qed

lemma count_blocks:
  "list_all block_ok blocks \<Longrightarrow>
     count_frames (pre @ concat (map block_bytes blocks) @ [0x3b] @ after) (length pre) frames =
     frames + length (filter is_frame blocks)"
proof (induction blocks arbitrary: pre frames)
  case Nil
  then show ?case by (subst count_frames.simps) (simp add: byte_at_append)
next
  case (Cons b blocks)
  let ?post = "concat (map block_bytes blocks) @ [0x3b] @ after"
  have "count_frames (pre @ block_bytes b @ ?post) (length pre) frames =
      count_frames ((pre @ block_bytes b) @ ?post) (length (pre @ block_bytes b)) (frames + (if is_frame b then 1 else 0))"
    using count_block [of b pre ?post frames] Cons.prems by simp
  also have "\<dots> = frames + (if is_frame b then 1 else 0) + length (filter is_frame blocks)"
    using Cons.IH [of "pre @ block_bytes b" "frames + (if is_frame b then 1 else 0)"] Cons.prems by simp
  finally show ?case by simp
qed

text \<open>
  C6. The frame counter counts what the format holds: over the bytes of any well-formed GIF, of
  either version, with or without color tables, it answers the number of its images, whatever
  extensions stand between them and whatever follows the trailer, and no answer without an image.
\<close>

theorem gif_frames_counted:
  assumes "version = ''GIF87a'' \<or> version = ''GIF89a''" "length dims = 4" "length rest = 2"
    "table_fits packed table" "list_all block_ok blocks"
  shows "gif_frame_count (gif_bytes version dims packed rest table blocks after) =
    (if filter is_frame blocks = [] then None else Some (length (filter is_frame blocks)))"
proof -
  let ?bs = "gif_bytes version dims packed rest table blocks after"
  have six: "length (ascii_bytes version) = 6" using assms(1) by (auto simp: ascii_bytes_def)
  have "take 6 ?bs = ascii_bytes version" using six by (simp add: gif_bytes_def)
  moreover have "byte_at ?bs 10 = packed"
    using byte_at_append [of "ascii_bytes version @ dims" packed] six assms(2) by (simp add: gif_bytes_def)
  moreover have "count_frames ?bs (13 + color_table packed) 0 = length (filter is_frame blocks)"
    using count_blocks [OF assms(5), of "ascii_bytes version @ dims @ [packed] @ rest @ table_bytes table" after 0]
      six assms(2,3) table_fits_length [OF assms(4)] by (simp add: gif_bytes_def)
  ultimately show ?thesis using assms(1) by (auto simp: gif_frame_count_def Let_def)
qed

text \<open>A GIF of a global table of two colors, and of two images, the first with a table of four of its own.\<close>

definition example_blocks :: "gif_block list" where
  "example_blocks = [Frame [0, 0, 0, 0, 1, 0, 1, 0] 0x81 [(0, 0, 0), (255, 0, 0), (0, 255, 0), (0, 0, 255)] 2 [[76, 1]],
     Extension 0xf9 [[4, 0, 0, 0]], Frame [0, 0, 0, 0, 1, 0, 1, 0] 0 [] 2 [[76, 1]]]"

lemma gif_frames_counted_witness:
  "gif_frame_count (gif_bytes ''GIF89a'' [1, 0, 1, 0] 0x80 [0, 0] [(0, 0, 0), (255, 255, 255)] example_blocks []) = Some 2"
proof -
  have "table_fits 0x80 [(0, 0, 0), (255, 255, 255)]" by code_simp
  moreover have "list_all block_ok example_blocks" by code_simp
  moreover have "length (filter is_frame example_blocks) = 2" by (simp add: example_blocks_def)
  ultimately show ?thesis
    using gif_frames_counted [of "''GIF89a''" "[1, 0, 1, 0]" "[0, 0]" "0x80" _ example_blocks "[]"] by force
qed

section \<open>What the names promise\<close>

lemma nat_text_no_dash: "CHR ''-'' \<notin> set (nat_text n)"
proof
  assume "CHR ''-'' \<in> set (nat_text n)"
  then have "is_digit CHR ''-''" using nat_text_digits by blast
  then show False by (simp add: is_digit_def)
qed

lemma after_last_dash:
  assumes "u @ ''-'' @ v = u' @ ''-'' @ v'" "CHR ''-'' \<notin> set v" "CHR ''-'' \<notin> set v'"
  shows "v = v'"
proof -
  have cut: "takeWhile (\<lambda>c. c \<noteq> CHR ''-'') (rev (u @ ''-'' @ v)) = rev v" if "CHR ''-'' \<notin> set v" for u v
    using that by (auto simp: takeWhile_append2 takeWhile_tail)
  from cut [OF assms(2), of u] cut [OF assms(3), of u'] show ?thesis unfolding assms(1) by (metis rev_is_rev_conv)
qed

lemma name_candidate_inject: "name_candidate stem ext i = name_candidate stem ext j \<longleftrightarrow> i = j"
proof
  assume "name_candidate stem ext i = name_candidate stem ext j"
  then have "nat_text i = nat_text j"
    using after_last_dash [of _ "nat_text i" _ "nat_text j"] by (simp add: name_candidate_def Let_def nat_text_no_dash)
  then show "i = j" by (simp add: nat_text_inject)
qed simp

lemma sanitized_length: "sanitize_filename name = Some safe \<Longrightarrow> length safe \<le> ORIGINAL_FILENAME_MAX_LEN"
  by (auto simp: sanitize_filename_def Let_def split: if_splits)

lemma split_name_append: "fst (split_name name) @ snd (split_name name) = name"
  by (simp add: split_name_def split: option.split)

text \<open>
  The staged name of a proof image is free, and there is one: the name is none of those in use,
  within the length cap wherever its extension leaves room for the suffix, and while fewer than 998
  names are in use every name the server accepts gets one.
\<close>

theorem staged_name_is_free:
  assumes "sanitize_filename name = Some safe" "finite used" "card used < 998"
  shows "\<exists>staged. safe_proof_filename name used = Some staged \<and> staged \<notin> used \<and>
    (length (snd (split_name safe)) \<le> 251 \<longrightarrow> length staged \<le> ORIGINAL_FILENAME_MAX_LEN)"
proof (cases "safe \<in> used")
  case False
  then show ?thesis using assms(1) sanitized_length by (auto simp: safe_proof_filename_def)
next
  case True
  obtain stem ext where parts: "split_name safe = (stem, ext)" by force
  define names where "names = map (name_candidate stem ext) [2 ..< 1000]"
  have range: "set names = name_candidate stem ext ` {2 ..< 1000}" by (simp only: names_def set_map set_upt)
  have "inj_on (name_candidate stem ext) {2 ..< 1000}" by (simp add: inj_on_def name_candidate_inject)
  then have "card (set names) = 998" unfolding range by (simp add: card_image)
  then have "\<not> set names \<subseteq> used" using card_mono [OF assms(2)] assms(3) by (metis not_less)
  then have "find (\<lambda>c. c \<notin> used) names \<noteq> None" by (auto simp: find_None_iff)
  then obtain staged where staged: "find (\<lambda>c. c \<notin> used) names = Some staged" by blast
  then have "staged \<in> set names" "staged \<notin> used" by (auto simp: find_Some_iff)
  then obtain i where i: "i < 1000" "staged = name_candidate stem ext i" "staged \<notin> used" by (auto simp: range)
  have "length (nat_text i) \<le> 3" using nat_width_le [of i 3] i(1) by (simp add: nat_text_def)
  then have "length staged \<le> ORIGINAL_FILENAME_MAX_LEN" if "length ext \<le> 251"
    using that by (simp add: i(2) name_candidate_def Let_def ORIGINAL_FILENAME_MAX_LEN_def)
  then show ?thesis using True assms(1) parts staged i(3) unfolding names_def by (simp add: safe_proof_filename_def del: upt_rec_numeral)
qed

lemma staged_name_is_free_witness: "\<exists>staged. safe_proof_filename ''a.png'' {''a.png''} = Some staged \<and> staged \<noteq> ''a.png''"
proof -
  have "sanitize_filename ''a.png'' = Some ''a.png''"
    by (simp add: sanitize_filename_def Let_def control_char_def js_trim_def js_space_def ORIGINAL_FILENAME_MAX_LEN_def)
  from staged_name_is_free [OF this, of "{''a.png''}"] show ?thesis by auto
qed

text \<open>An extension of 254 characters leaves no room: the name passes the cap the suffix was to keep.\<close>

lemma long_extension_passes_cap:
  "length ext = 254 \<Longrightarrow> ORIGINAL_FILENAME_MAX_LEN < length (name_candidate stem ext 2)"
  by (simp add: name_candidate_def Let_def ORIGINAL_FILENAME_MAX_LEN_def nat_text_def nat_width.simps)

text \<open>The frames of one GIF take distinct names.\<close>

lemma gif_frame_filenames_distinct: "distinct (map (\<lambda>i. gif_frame_filename name i n) [0 ..< n])"
proof -
  have "gif_frame_filename name i n = gif_frame_filename name j n \<longleftrightarrow> i = j" if "1 < n" for i j
    using that by (auto simp: gif_frame_filename_def Let_def nat_text_inject)
  then show ?thesis by (cases "1 < n") (auto simp: distinct_map inj_on_def less_Suc_eq_le not_less le_Suc_eq)
qed

end
