(* ===== verification/Archive_Import.thy ===== *)
theory Archive_Import
  imports Api_Errors Event_Types Proof_Images "HOL-Library.Monad_Syntax"
begin

text \<open>
  The X archive import: \<open>lib/archive.ts\<close>, which strips an export to its tweets in the browser by
  copying compressed bytes over the central directory of the zip, and the upload and polling steps of
  \<open>lib/events.ts\<close>. A file is its list of bytes. The zip writer (\<open>fflate\<close>) and the text decoder are
  parameters. Offsets past \<open>2 ^ 53\<close> are rounded as they are read; every file is shorter, so a slice
  at such an offset is empty however a further sum would round.
\<close>

definition TWEETS_FILE :: jsstring where
  "TWEETS_FILE = ''tweets.js''"

definition MEDIA_DIR :: jsstring where
  "MEDIA_DIR = ''tweets_media/''"

definition MAX_UPLOAD_BYTES :: nat where
  "MAX_UPLOAD_BYTES = 4 * 1024 * 1024 * 1024"

definition MAX_UPLOAD_LABEL :: jsstring where
  "MAX_UPLOAD_LABEL = nat_text (MAX_UPLOAD_BYTES div 1024 ^ 3) @ '' GB''"

text \<open>\<open>new ApiError(message, 0, code)\<close>, the other arguments at their defaults.\<close>

definition coded_error :: "jsstring \<Rightarrow> jsstring \<Rightarrow> thrown" where
  "coded_error message code = Api_thrown \<lparr>ae_message = message, ae_status = 0, ae_code = Some code, ae_rejected = False,
     ae_readable = plain_error message\<rparr>"

definition apostrophe :: jsstring where
  "apostrophe = [CHR 0x27]"

definition archive_too_large :: thrown where
  "archive_too_large = coded_error (''That archive is over the '' @ MAX_UPLOAD_LABEL @
     '' safety limit, even after stripping. Get in touch and we'' @ apostrophe @ ''ll find a way to import it.'') ''archive_too_large''"

definition BYTES_PER_TWEET_ESTIMATE :: nat where
  "BYTES_PER_TWEET_ESTIMATE = 1500"

definition anchored_tweets_match :: "jsstring \<Rightarrow> bool" where
  "anchored_tweets_match name \<longleftrightarrow> name = TWEETS_FILE \<or> ends_with name (''/'' @ TWEETS_FILE)"

definition NOT_A_ZIP_MESSAGE :: jsstring where
  "NOT_A_ZIP_MESSAGE = ''That file isn'' @ apostrophe @ ''t a valid .zip archive.''"

definition malformed :: thrown where
  "malformed = coded_error NOT_A_ZIP_MESSAGE ''archive_malformed''"

definition no_tweets :: thrown where
  "no_tweets = coded_error (''That zip isn'' @ apostrophe @ ''t an X data export (no tweets.js inside).'') ''archive_no_tweets''"

definition ZIP_TYPES :: "jsstring list" where
  "ZIP_TYPES = [''application/zip'', ''application/x-zip-compressed'']"

definition is_zip_file :: "jsstring \<Rightarrow> jsstring \<Rightarrow> bool" where
  "is_zip_file name mime \<longleftrightarrow> ends_with (js_lower name) ''.zip'' \<or> mime \<in> set ZIP_TYPES"

section \<open>The central directory\<close>

record cd_entry =
  cd_name :: jsstring
  cd_method :: nat
  cd_crc :: nat
  cd_csize :: nat
  cd_usize :: nat
  cd_offset :: nat

definition slice_bytes :: "bytes \<Rightarrow> nat \<Rightarrow> nat \<Rightarrow> bytes" where
  "slice_bytes file start stop = take (stop - start) (drop start file)"

text \<open>A little-endian read of \<open>n\<close> bytes; \<open>None\<close> is the \<open>RangeError\<close> of a read past the end.\<close>

definition le_read :: "nat \<Rightarrow> bytes \<Rightarrow> nat \<Rightarrow> nat option" where
  "le_read n bs i = (if i + n \<le> length bs then Some (foldr (\<lambda>b acc. unat b + 256 * acc) (take n (drop i bs)) 0) else None)"

text \<open>\<open>Number\<close> of a 64-bit integer: the nearest double.\<close>

definition big_number :: "nat \<Rightarrow> nat" where
  "big_number n = (case round_double (of_nat n) of Some x \<Rightarrow> nat \<lfloor>x\<rfloor> | None \<Rightarrow> n)"

definition find_eocd :: "bytes \<Rightarrow> nat option" where
  "find_eocd tail = find (\<lambda>i. le_read 4 tail i = Some 0x06054b50) (rev [0 ..< length tail - 21])"

text \<open>The entry count, size and offset of the directory, from the classic record or the zip64 one.\<close>

definition directory_bounds :: "bytes \<Rightarrow> (nat \<times> nat \<times> nat) option" where
  "directory_bounds file = do {
     let tail = slice_bytes file (length file - min (length file) (65557 + 20)) (length file);
     eocd \<leftarrow> find_eocd tail;
     n \<leftarrow> le_read 2 tail (eocd + 10);
     cd_size \<leftarrow> le_read 4 tail (eocd + 12);
     cd_offset \<leftarrow> le_read 4 tail (eocd + 16);
     (if n = 0xffff \<or> cd_size = 0xffffffff \<or> cd_offset = 0xffffffff then
        (if eocd < 20 \<or> le_read 4 tail (eocd - 20) \<noteq> Some 0x07064b50 then None
         else do {
           at64 \<leftarrow> le_read 8 tail (eocd - 20 + 8);
           let z64 = slice_bytes file (big_number at64) (big_number at64 + 56);
           sig \<leftarrow> le_read 4 z64 0;
           (if sig \<noteq> 0x06064b50 then None
            else do {
              n64 \<leftarrow> le_read 8 z64 32;
              size64 \<leftarrow> le_read 8 z64 40;
              offset64 \<leftarrow> le_read 8 z64 48;
              Some (big_number n64, big_number size64, big_number offset64)
            })
         })
      else Some (n, cd_size, cd_offset))
   }"

text \<open>The 64-bit values of an entry for whichever field overflowed, in this fixed order.\<close>

definition zip64_fields :: "bytes \<Rightarrow> nat \<Rightarrow> nat \<times> nat \<times> nat \<Rightarrow> (nat \<times> nat \<times> nat) option" where
  "zip64_fields cd f sizes = (case sizes of (usize, csize, offset) \<Rightarrow> do {
     (usize', f1) \<leftarrow> (if usize = 0xffffffff then map_option (\<lambda>v. (big_number v, f + 8)) (le_read 8 cd f) else Some (usize, f));
     (csize', f2) \<leftarrow> (if csize = 0xffffffff then map_option (\<lambda>v. (big_number v, f1 + 8)) (le_read 8 cd f1) else Some (csize, f1));
     offset' \<leftarrow> (if offset = 0xffffffff then map_option big_number (le_read 8 cd f2) else Some offset);
     Some (usize', csize', offset')
   })"

function scan_extra :: "bytes \<Rightarrow> nat \<Rightarrow> nat \<Rightarrow> nat \<times> nat \<times> nat \<Rightarrow> (nat \<times> nat \<times> nat) option" where
  "scan_extra cd ex ex_end sizes =
     (if ex + 4 \<le> ex_end then
        (case (le_read 2 cd ex, le_read 2 cd (ex + 2)) of
           (Some fid, Some len) \<Rightarrow> if fid = 0x0001 then zip64_fields cd (ex + 4) sizes
             else scan_extra cd (ex + (4 + len)) ex_end sizes
         | _ \<Rightarrow> None)
      else Some sizes)"
  by auto
termination
  by (relation "measure (\<lambda>(cd, ex, ex_end, sizes). ex_end - ex)") auto

declare scan_extra.simps [simp del]

definition read_entry :: "(bytes \<Rightarrow> jsstring) \<Rightarrow> bytes \<Rightarrow> nat \<Rightarrow> (cd_entry \<times> nat) option" where
  "read_entry decode cd pos = do {
     sig \<leftarrow> le_read 4 cd pos;
     (if sig \<noteq> 0x02014b50 then None
      else do {
        zip_method \<leftarrow> le_read 2 cd (pos + 10);
        crc \<leftarrow> le_read 4 cd (pos + 16);
        csize \<leftarrow> le_read 4 cd (pos + 20);
        usize \<leftarrow> le_read 4 cd (pos + 24);
        name_len \<leftarrow> le_read 2 cd (pos + 28);
        extra_len \<leftarrow> le_read 2 cd (pos + 30);
        comment_len \<leftarrow> le_read 2 cd (pos + 32);
        offset \<leftarrow> le_read 4 cd (pos + 42);
        let name = decode (slice_bytes cd (pos + 46) (pos + 46 + name_len));
        let ex = pos + 46 + name_len;
        sizes \<leftarrow> (if csize = 0xffffffff \<or> usize = 0xffffffff \<or> offset = 0xffffffff
          then scan_extra cd ex (ex + extra_len) (usize, csize, offset) else Some (usize, csize, offset));
        Some (\<lparr>cd_name = name, cd_method = zip_method, cd_crc = crc, cd_csize = fst (snd sizes), cd_usize = fst sizes,
                cd_offset = snd (snd sizes)\<rparr>, pos + (46 + name_len + extra_len + comment_len))
      })
   }"

fun read_entries :: "(bytes \<Rightarrow> jsstring) \<Rightarrow> bytes \<Rightarrow> nat \<Rightarrow> nat \<Rightarrow> cd_entry list option" where
  "read_entries decode cd pos 0 = Some []"
| "read_entries decode cd pos (Suc n) =
     (if pos + 46 \<le> length cd then
        (case read_entry decode cd pos of
           None \<Rightarrow> None
         | Some (entry, next) \<Rightarrow> map_option ((#) entry) (read_entries decode cd next n))
      else Some [])"

definition read_central_directory :: "(bytes \<Rightarrow> jsstring) \<Rightarrow> bytes \<Rightarrow> cd_entry list option" where
  "read_central_directory decode file = do {
     (n, cd_size, cd_offset) \<leftarrow> directory_bounds file;
     read_entries decode (slice_bytes file cd_offset (cd_offset + cd_size)) 0 n
   }"

section \<open>What is kept\<close>

definition tweets_entry :: "cd_entry list \<Rightarrow> cd_entry option" where
  "tweets_entry entries = (case sort_by (compare_on (\<lambda>e. length (cd_name e)))
       (filter (\<lambda>e. anchored_tweets_match (cd_name e)) entries) of
     [] \<Rightarrow> None | e # _ \<Rightarrow> Some e)"

definition archive_root :: "cd_entry \<Rightarrow> jsstring" where
  "archive_root tweets = take (length (cd_name tweets) - length TWEETS_FILE) (cd_name tweets)"

definition base_name :: "jsstring \<Rightarrow> jsstring" where
  "base_name name = (case last_index (CHR ''/'') name of Some i \<Rightarrow> drop (i + 1) name | None \<Rightarrow> name)"

fun keep_media :: "jsstring \<Rightarrow> jsstring list \<Rightarrow> cd_entry list \<Rightarrow> (cd_entry \<times> jsstring) list" where
  "keep_media media_prefix seen [] = []"
| "keep_media media_prefix seen (entry # entries) =
     (let base = base_name (cd_name entry) in
      if \<not> starts_with (cd_name entry) media_prefix then keep_media media_prefix seen entries
      else if base = [] \<or> ends_with (cd_name entry) ''/'' \<or> base \<in> set seen then keep_media media_prefix seen entries
      else (entry, MEDIA_DIR @ base) # keep_media media_prefix (base # seen) entries)"

definition kept_entries :: "cd_entry list \<Rightarrow> (cd_entry \<times> jsstring) list option" where
  "kept_entries entries = map_option (\<lambda>tweets.
     (tweets, TWEETS_FILE) # keep_media (archive_root tweets @ MEDIA_DIR) [] entries) (tweets_entry entries)"

section \<open>The copy\<close>

text \<open>The streaming zip writer: its state, a new member, bytes pushed to it (the last marked), the
  end of the archive, the bytes emitted so far, and whether it reported an error.\<close>

record 'z zip_writer =
  zw_start :: 'z
  zw_add :: "'z \<Rightarrow> jsstring \<Rightarrow> cd_entry \<Rightarrow> 'z"
  zw_push :: "'z \<Rightarrow> bytes \<Rightarrow> bool \<Rightarrow> 'z"
  zw_end :: "'z \<Rightarrow> 'z"
  zw_out :: "'z \<Rightarrow> bytes"
  zw_failed :: "'z \<Rightarrow> bool"

definition CHUNK :: nat where
  "CHUNK = 4 * 1024 * 1024"

definition push_capped :: "'z zip_writer \<Rightarrow> nat \<Rightarrow> 'z \<Rightarrow> bytes \<Rightarrow> bool \<Rightarrow> thrown + 'z" where
  "push_capped w max_bytes z part final =
     (let z' = zw_push w z part final in if max_bytes < length (zw_out w z') then Inl archive_too_large else Inr z')"

function copy_chunks :: "'z zip_writer \<Rightarrow> nat \<Rightarrow> bytes \<Rightarrow> nat \<Rightarrow> nat \<Rightarrow> nat \<Rightarrow> 'z \<Rightarrow> thrown + 'z" where
  "copy_chunks w max_bytes file start csize off z =
     (if off < csize then
        (let stop = min (off + CHUNK) csize; part = slice_bytes file (start + off) (start + stop)
         in if length part \<noteq> stop - off then Inl malformed
            else (case push_capped w max_bytes z part (stop = csize) of
                Inl e \<Rightarrow> Inl e
              | Inr z' \<Rightarrow> copy_chunks w max_bytes file start csize (off + CHUNK) z'))
      else Inr z)"
  by pat_completeness auto
termination
  by (relation "measure (\<lambda>(w, m, file, start, csize, off, z). csize - off)") (auto simp: CHUNK_def)

declare copy_chunks.simps [simp del]

definition data_start :: "bytes \<Rightarrow> cd_entry \<Rightarrow> nat option" where
  "data_start file entry = do {
     let lh = slice_bytes file (cd_offset entry) (cd_offset entry + 30);
     sig \<leftarrow> le_read 4 lh 0;
     (if sig \<noteq> 0x04034b50 then None
      else do {
        name_len \<leftarrow> le_read 2 lh 26;
        extra_len \<leftarrow> le_read 2 lh 28;
        Some (cd_offset entry + 30 + name_len + extra_len)
      })
   }"

definition copy_entry :: "'z zip_writer \<Rightarrow> nat \<Rightarrow> bytes \<Rightarrow> cd_entry \<times> jsstring \<Rightarrow> 'z \<Rightarrow> thrown + 'z" where
  "copy_entry w max_bytes file kept z = (case data_start file (fst kept) of
       None \<Rightarrow> Inl malformed
     | Some start \<Rightarrow> (let z1 = zw_add w z (snd kept) (fst kept)
         in if cd_csize (fst kept) = 0 then push_capped w max_bytes z1 [] True
            else copy_chunks w max_bytes file start (cd_csize (fst kept)) 0 z1))"

fun copy_entries :: "'z zip_writer \<Rightarrow> nat \<Rightarrow> bytes \<Rightarrow> (cd_entry \<times> jsstring) list \<Rightarrow> 'z \<Rightarrow> thrown + 'z" where
  "copy_entries w max_bytes file [] z = Inr z"
| "copy_entries w max_bytes file (k # ks) z = (case copy_entry w max_bytes file k z of
     Inl e \<Rightarrow> Inl e | Inr z' \<Rightarrow> copy_entries w max_bytes file ks z')"

record stripped_archive =
  sa_bytes :: bytes
  sa_estimate :: nat

definition post_estimate :: "nat \<Rightarrow> nat" where
  "post_estimate usize = max 1 (nat \<lfloor>rounded (of_nat usize / of_nat BYTES_PER_TWEET_ESTIMATE) + 1 / 2\<rfloor>)"

definition strip_archive :: "(bytes \<Rightarrow> jsstring) \<Rightarrow> 'z zip_writer \<Rightarrow> nat \<Rightarrow> bytes \<Rightarrow> thrown + stripped_archive" where
  "strip_archive decode w max_bytes file =
     (if \<not> (4 \<le> length (take 4 file) \<and> file ! 0 = 0x50 \<and> file ! 1 = 0x4b) then Inl malformed
      else (case read_central_directory decode file of
        None \<Rightarrow> Inl malformed
      | Some entries \<Rightarrow> (case kept_entries entries of
          None \<Rightarrow> Inl no_tweets
        | Some kept \<Rightarrow> (case copy_entries w max_bytes file kept (zw_start w) of
            Inl e \<Rightarrow> Inl e
          | Inr z \<Rightarrow> (let z' = zw_end w z in
              if zw_failed w z' then Inl malformed
              else if max_bytes < length (zw_out w z') then Inl archive_too_large
              else Inr \<lparr>sa_bytes = zw_out w z', sa_estimate = post_estimate (cd_usize (fst (hd kept)))\<rparr>)))))"

section \<open>Uploading and polling\<close>

definition ARCHIVE_UPLOAD_ERROR :: thrown where
  "ARCHIVE_UPLOAD_ERROR = Error_thrown (''The upload didn'' @ apostrophe @ ''t complete. Check your connection and try again.'')"

definition DEV_UPLOAD_TOO_LARGE_DETAILS :: "jsstring list" where
  "DEV_UPLOAD_TOO_LARGE_DETAILS = [''Upload exceeds the size guard'', ''Request body too large'']"

text \<open>\<open>parse\<close> is \<open>JSON.parse\<close>, \<open>None\<close> where it throws.\<close>

definition is_dev_upload_too_large :: "(jsstring \<Rightarrow> json option) \<Rightarrow> jsstring \<Rightarrow> bool" where
  "is_dev_upload_too_large parse body = (case parse body of
       None \<Rightarrow> False
     | Some parsed \<Rightarrow> (case is_string (field parsed ''detail'') of
         None \<Rightarrow> False
       | Some detail \<Rightarrow> list_ex (\<lambda>lead. starts_with detail lead) DEV_UPLOAD_TOO_LARGE_DETAILS))"

definition upload_failure :: "(jsstring \<Rightarrow> json option) \<Rightarrow> int \<Rightarrow> jsstring \<Rightarrow> thrown" where
  "upload_failure parse status body =
     (if js_includes body ''<Code>EntityTooLarge</Code>'' \<or> (status = 413 \<and> is_dev_upload_too_large parse body)
      then archive_too_large else ARCHIVE_UPLOAD_ERROR)"

text \<open>The end of the storage request: loaded with a status and a body, or failed in transit.\<close>

datatype xhr_end = Loaded int jsstring | Xhr_failed

definition upload_archive :: "(jsstring \<Rightarrow> json option) \<Rightarrow> xhr_end \<Rightarrow> thrown + unit" where
  "upload_archive parse outcome = (case outcome of
       Loaded status body \<Rightarrow> if 200 \<le> status \<and> status < 300 then Inr () else Inl (upload_failure parse status body)
     | Xhr_failed \<Rightarrow> Inl ARCHIVE_UPLOAD_ERROR)"

datatype job_status = Job_queued | Job_running | Job_done | Job_failed

record import_job =
  ij_id :: jsstring
  ij_status :: job_status
  ij_created :: nat
  ij_updated :: nat
  ij_skipped :: nat
  ij_failed :: nat
  ij_processed :: nat
  ij_detections :: "nat option"
  ij_estimate :: "nat option"
  ij_error :: "jsstring option"
  ij_created_at :: jsstring

datatype poll_end = Poll_job import_job | Poll_lost jsstring

definition job_ended :: "import_job \<Rightarrow> bool" where
  "job_ended job \<longleftrightarrow> ij_status job = Job_done \<or> ij_status job = Job_failed"

text \<open>The polling loop from its \<open>i\<close>-th request: the answer of each request (\<open>None\<close> for one that
  fails), the clock after it, the consecutive misses, and the jobs \<open>onUpdate\<close> was told. \<open>None\<close> is a
  loop that never returns.\<close>

partial_function (option) poll_loop ::
  "(nat \<Rightarrow> import_job option) \<Rightarrow> (nat \<Rightarrow> int) \<Rightarrow> int \<Rightarrow> nat \<Rightarrow> nat \<Rightarrow> nat \<Rightarrow> import_job list \<Rightarrow> (poll_end \<times> import_job list) option" where
  "poll_loop answers now deadline max_errors i misses told =
     (case answers i of
        Some job \<Rightarrow> if job_ended job then Some (Poll_job job, told @ [job])
          else if deadline \<le> now i then Some (Poll_lost ''import job polling timed out'', told @ [job])
          else poll_loop answers now deadline max_errors (Suc i) 0 (told @ [job])
      | None \<Rightarrow> if max_errors \<le> misses + 1 then Some (Poll_lost ''import job polling lost after repeated errors'', told)
          else if deadline \<le> now i then Some (Poll_lost ''import job polling timed out'', told)
          else poll_loop answers now deadline max_errors (Suc i) (misses + 1) told)"

definition await_import_job :: "(nat \<Rightarrow> import_job option) \<Rightarrow> (nat \<Rightarrow> int) \<Rightarrow> int \<Rightarrow> nat \<Rightarrow> int \<Rightarrow> (poll_end \<times> import_job list) option" where
  "await_import_job answers now start max_errors timeout = poll_loop answers now (start + timeout) max_errors 0 0 []"

section \<open>What leaves the device\<close>

lemma keep_media_sound:
  "(e, out) \<in> set (keep_media media_prefix seen entries) \<Longrightarrow>
     e \<in> set entries \<and> starts_with (cd_name e) media_prefix \<and> (\<exists>base. out = MEDIA_DIR @ base \<and> base \<noteq> [] \<and>
       base = base_name (cd_name e) \<and> base \<notin> set seen)"
  by (induction entries arbitrary: seen) (fastforce simp: Let_def split: if_splits)+

lemma keep_media_distinct: "distinct (map snd (keep_media media_prefix seen entries))"
proof (induction entries arbitrary: seen)
  case (Cons e entries)
  have "MEDIA_DIR @ b \<notin> snd ` set (keep_media media_prefix (b # seen) entries)" for b
    by (auto dest: keep_media_sound)
  with Cons show ?case by (simp add: Let_def)
qed simp

lemma base_name_no_slash: "CHR ''/'' \<notin> set (base_name name)"
  using last_index_Some [of "CHR ''/''" name] last_index_None [of "CHR ''/''" name]
  by (auto simp: base_name_def split: option.split)

lemma tweets_entry_in: "tweets_entry entries = Some e \<Longrightarrow> e \<in> set entries \<and> anchored_tweets_match (cd_name e)"
proof -
  assume "tweets_entry entries = Some e"
  then obtain es where es: "sort_by (compare_on (\<lambda>e. length (cd_name e))) (filter (\<lambda>e. anchored_tweets_match (cd_name e)) entries) = e # es"
    by (auto simp: tweets_entry_def split: list.splits)
  have "e \<in> set (sort_by (compare_on (\<lambda>e. length (cd_name e))) (filter (\<lambda>e. anchored_tweets_match (cd_name e)) entries))"
    unfolding es by simp
  then show ?thesis by simp
qed

lemma tweets_entry_shortest:
  assumes "tweets_entry entries = Some e" "e' \<in> set entries" "anchored_tweets_match (cd_name e')"
  shows "length (cd_name e) \<le> length (cd_name e')"
proof -
  let ?cmp = "compare_on (\<lambda>e :: cd_entry. length (cd_name e))"
  let ?found = "filter (\<lambda>e. anchored_tweets_match (cd_name e)) entries"
  obtain es where es: "sort_by ?cmp ?found = e # es" using assms(1) by (auto simp: tweets_entry_def split: list.splits)
  have "e' \<in> set (e # es)" using assms(2,3) unfolding es [symmetric] by simp
  moreover have "sorted_wrt (\<lambda>a b. ?cmp a b \<le> 0) (e # es)" unfolding es [symmetric] by (rule on_key.sorted_sort_by)
  ultimately show ?thesis by (auto simp: compare_on_def split: if_splits)
qed

lemma no_tweets_entry: "tweets_entry entries = None \<longleftrightarrow> list_all (\<lambda>e. \<not> anchored_tweets_match (cd_name e)) entries"
proof -
  have "tweets_entry entries = None \<longleftrightarrow> filter (\<lambda>e. anchored_tweets_match (cd_name e)) entries = []"
    by (auto simp: tweets_entry_def split: list.splits) (metis length_0_conv length_sort_by)+
  then show ?thesis by (auto simp: filter_empty_conv list_all_iff)
qed

text \<open>A member of the media directory beside the tweets of \<open>home\<close>, with the last part of its path; and the first
  member of a list that is such and such.\<close>

definition media_member :: "jsstring \<Rightarrow> jsstring \<Rightarrow> cd_entry \<Rightarrow> bool" where
  "media_member home base e \<longleftrightarrow> base \<noteq> [] \<and> CHR ''/'' \<notin> set base \<and>
     (\<exists>dirs. cd_name e = home @ ''tweets_media/'' @ dirs @ base \<and> (dirs = [] \<or> last dirs = CHR ''/''))"

definition first_such :: "('a \<Rightarrow> bool) \<Rightarrow> 'a list \<Rightarrow> 'a \<Rightarrow> bool" where
  "first_such P xs x \<longleftrightarrow> (\<exists>pre post. xs = pre @ x # post \<and> P x \<and> list_all (\<lambda>y. \<not> P y) pre)"

lemma first_such_Nil [simp]: "\<not> first_such P [] x"
  by (simp add: first_such_def)

lemma first_such_Cons [simp]: "first_such P (y # xs) x \<longleftrightarrow> (if P y then x = y else first_such P xs x)"
proof (cases "P y")
  case True
  then show ?thesis by (auto simp: first_such_def Cons_eq_append_conv)
next
  case False
  then have "first_such P (y # xs) x" if "first_such P xs x"
    using that unfolding first_such_def by (metis append_Cons list.pred_inject(2))
  moreover have "first_such P xs x" if "first_such P (y # xs) x"
    using that False by (auto simp: first_such_def Cons_eq_append_conv)
  ultimately show ?thesis using False by auto
qed

lemma base_name_of: "CHR ''/'' \<notin> set base \<Longrightarrow> base_name (dirs @ CHR ''/'' # base) = base"
  by (simp add: base_name_def)

lemma base_name_ends: "\<exists>dirs. name = dirs @ base_name name \<and> (dirs = [] \<or> last dirs = CHR ''/'')"
proof (cases "last_index (CHR ''/'') name")
  case (Some i)
  then have "name = (take i name @ ''/'') @ base_name name"
    using last_index_Some [OF Some] id_take_nth_drop [of i name] by (simp add: base_name_def)
  then show ?thesis by (metis last_snoc)
qed (simp add: base_name_def)

lemma base_name_under:
  assumes "p \<noteq> []" "last p = CHR ''/''" "CHR ''/'' \<notin> set base"
  shows "base_name (p @ base) = base"
proof -
  have "p @ base = butlast p @ CHR ''/'' # base" using append_butlast_last_id [OF assms(1)] assms(2) by simp
  then show ?thesis by (simp only: base_name_of [OF assms(3)])
qed

lemma media_member_base:
  "media_member home base e \<longleftrightarrow> starts_with (cd_name e) (home @ MEDIA_DIR) \<and> base_name (cd_name e) = base \<and> base \<noteq> []"
  (is "_ \<longleftrightarrow> ?code")
proof -
  have slash: "home @ MEDIA_DIR @ dirs \<noteq> [] \<and> last (home @ MEDIA_DIR @ dirs) = CHR ''/''"
    if "dirs = [] \<or> last dirs = CHR ''/''" for dirs using that by (auto simp: MEDIA_DIR_def)
  show ?thesis
  proof
    assume "media_member home base e"
    then obtain dirs where d: "cd_name e = (home @ MEDIA_DIR @ dirs) @ base" "dirs = [] \<or> last dirs = CHR ''/''"
      and b: "base \<noteq> []" "CHR ''/'' \<notin> set base" unfolding media_member_def MEDIA_DIR_def [symmetric] by auto
    have "base_name (cd_name e) = base" unfolding d(1) using base_name_under slash [OF d(2)] b(2) by blast
    moreover have "starts_with (cd_name e) (home @ MEDIA_DIR)" unfolding d(1) starts_with_iff by simp
    ultimately show ?code using b(1) by blast
  next
    assume code: ?code
    then obtain under where under: "cd_name e = (home @ MEDIA_DIR) @ under" unfolding starts_with_iff by blast
    obtain dirs where d: "under = dirs @ base_name under" "dirs = [] \<or> last dirs = CHR ''/''" using base_name_ends by blast
    have name: "cd_name e = (home @ MEDIA_DIR @ dirs) @ base_name under" unfolding under by (subst d(1)) simp
    then have "base_name (cd_name e) = base_name under"
      using base_name_under slash [OF d(2)] base_name_no_slash by metis
    with name d(2) code base_name_no_slash [of under] show "media_member home base e"
      unfolding media_member_def MEDIA_DIR_def [symmetric] by auto
  qed
qed

lemma in_keep_media:
  "(e, out) \<in> set (keep_media (home @ MEDIA_DIR) seen entries) \<longleftrightarrow>
     (\<exists>base. out = MEDIA_DIR @ base \<and> base \<notin> set seen \<and> first_such (media_member home base) entries e)"
proof (induction entries arbitrary: seen)
  case (Cons x entries)
  let ?b = "base_name (cd_name x)"
  let ?is = "media_member home"
  have taken: "?is base x \<longleftrightarrow> starts_with (cd_name x) (home @ MEDIA_DIR) \<and> ?b = base \<and> base \<noteq> []" for base
    by (rule media_member_base)
  have dir: "?b = [] \<or> \<not> ends_with (cd_name x) ''/''"
    using base_name_of [of "[]"] by (auto simp: ends_with_iff)
  show ?case
  proof (cases "starts_with (cd_name x) (home @ MEDIA_DIR) \<and> ?b \<noteq> []")
    case True
    then have is_b: "?is base x \<longleftrightarrow> base = ?b" for base using taken [of base] by auto
    show ?thesis
    proof (cases "?b \<in> set seen")
      case True
      then have keep: "keep_media (home @ MEDIA_DIR) seen (x # entries) = keep_media (home @ MEDIA_DIR) seen entries"
        by (simp add: Let_def)
      have "first_such (?is base) (x # entries) e = first_such (?is base) entries e" if "base \<notin> set seen" for base
        using is_b [of base] True that by auto
      then show ?thesis unfolding keep Cons.IH by blast
    next
      case False
      then have keep: "keep_media (home @ MEDIA_DIR) seen (x # entries) =
          (x, MEDIA_DIR @ ?b) # keep_media (home @ MEDIA_DIR) (?b # seen) entries"
        using \<open>starts_with (cd_name x) (home @ MEDIA_DIR) \<and> ?b \<noteq> []\<close> dir by (simp add: Let_def)
      have "first_such (?is base) (x # entries) e = (if base = ?b then e = x else first_such (?is base) entries e)" for base
        using is_b [of base] by auto
      then show ?thesis
        unfolding keep using Cons.IH [of "?b # seen"] False by (auto simp del: keep_media.simps first_such_Cons)
    qed
  next
    case False
    then have keep: "keep_media (home @ MEDIA_DIR) seen (x # entries) = keep_media (home @ MEDIA_DIR) seen entries"
      by (auto simp: Let_def)
    have "first_such (?is base) (x # entries) e = first_such (?is base) entries e" for base
      using taken [of base] False by auto
    then show ?thesis unfolding keep Cons.IH by blast
  qed
qed simp

text \<open>
  C9. Stripping an export uploads the tweets and their media, all of them and nothing else: it refuses just where no
  member is an anchored \<open>tweets.js\<close>; otherwise the one of the shortest name is written as \<open>tweets.js\<close>, and
  beside it, under \<open>tweets_media/\<close> and the last part of its path, exactly the first member of each such name in the
  media directory next to it. No name is written twice.
\<close>

theorem strip_keeps_tweets_and_media:
  "case kept_entries entries of
     None \<Rightarrow> list_all (\<lambda>e. \<not> anchored_tweets_match (cd_name e)) entries
   | Some kept \<Rightarrow> distinct (map snd kept) \<and>
       (\<exists>tweets home media. kept = (tweets, ''tweets.js'') # media \<and> tweets \<in> set entries \<and>
          cd_name tweets = home @ ''tweets.js'' \<and> (home = [] \<or> last home = CHR ''/'') \<and>
          list_all (\<lambda>e. anchored_tweets_match (cd_name e) \<longrightarrow> length (cd_name tweets) \<le> length (cd_name e)) entries \<and>
          (\<forall>e out. (e, out) \<in> set media \<longleftrightarrow>
             (\<exists>base. out = ''tweets_media/'' @ base \<and> first_such (media_member home base) entries e)))"
proof (cases "tweets_entry entries")
  case None
  then have "kept_entries entries = None" by (simp add: kept_entries_def)
  then show ?thesis using None no_tweets_entry by (simp only: option.case)
next
  case (Some tweets)
  let ?home = "archive_root tweets"
  let ?media = "keep_media (?home @ MEDIA_DIR) [] entries"
  have kept: "kept_entries entries = Some ((tweets, TWEETS_FILE) # ?media)" by (simp add: kept_entries_def Some)
  have "TWEETS_FILE \<noteq> MEDIA_DIR @ base" for base by (simp add: TWEETS_FILE_def MEDIA_DIR_def)
  then have "TWEETS_FILE \<notin> snd ` set ?media" by (auto dest!: keep_media_sound)
  then have distinct: "distinct (map snd ((tweets, TWEETS_FILE) # ?media))" using keep_media_distinct by simp
  have name: "cd_name tweets = ?home @ ''tweets.js''" "?home = [] \<or> last ?home = CHR ''/''"
    using tweets_entry_in [OF Some]
    by (auto simp: archive_root_def anchored_tweets_match_def TWEETS_FILE_def ends_with_iff)
  have "list_all (\<lambda>e. anchored_tweets_match (cd_name e) \<longrightarrow> length (cd_name tweets) \<le> length (cd_name e)) entries"
    using tweets_entry_shortest [OF Some] by (simp add: list_all_iff)
  moreover have "\<forall>e out. (e, out) \<in> set ?media \<longleftrightarrow>
      (\<exists>base. out = ''tweets_media/'' @ base \<and> first_such (media_member ?home base) entries e)"
    unfolding in_keep_media MEDIA_DIR_def [symmetric] by simp
  ultimately show ?thesis
    using distinct name tweets_entry_in [OF Some] unfolding kept option.case
    by (intro conjI exI [of _ tweets] exI [of _ ?home] exI [of _ ?media]) (simp_all add: TWEETS_FILE_def)
qed

text \<open>The parts a member's data is pushed in.\<close>

lemma slice_append:
  "a \<le> b \<Longrightarrow> b \<le> c \<Longrightarrow> slice_bytes file a b @ slice_bytes file b c = slice_bytes file a c"
proof -
  assume "a \<le> b" "b \<le> c"
  then have "drop b file = drop (b - a) (drop a file)" "c - a = (b - a) + (c - b)" by simp_all
  then show ?thesis by (simp only: slice_bytes_def take_add)
qed

lemma copy_chunks_parts:
  assumes "copy_chunks w max_bytes file start csize off z = Inr z'" "off < csize"
  shows "\<exists>parts. z' = foldl (\<lambda>z p. zw_push w z (fst p) (snd p)) z parts \<and>
    concat (map fst parts) = slice_bytes file (start + off) (start + csize) \<and>
    length (concat (map fst parts)) = csize - off \<and>
    list_all (\<lambda>p. length (fst p) \<le> CHUNK) parts \<and>
    map snd parts = replicate (length parts - 1) False @ [True]"
  using assms
proof (induction w max_bytes "file" start csize off z rule: copy_chunks.induct)
  case (1 w max_bytes "file" start csize off z)
  let ?stop = "min (off + CHUNK) csize"
  let ?part = "slice_bytes file (start + off) (start + ?stop)"
  have pos: "0 < CHUNK" by (simp add: CHUNK_def)
  have len: "length ?part = ?stop - off" "length ?part \<le> CHUNK"
    using 1(2,3) by (auto simp: copy_chunks.simps [of w max_bytes "file" start csize off z] Let_def split: if_splits)
  let ?z = "zw_push w z ?part (?stop = csize)"
  have rest: "copy_chunks w max_bytes file start csize (off + CHUNK) ?z = Inr z'" and push: "push_capped w max_bytes z ?part (?stop = csize) = Inr ?z"
    using 1(2,3) len by (auto simp: copy_chunks.simps [of w max_bytes "file" start csize off z] Let_def push_capped_def split: if_splits)
  show ?case
  proof (cases "off + CHUNK < csize")
    case False
    then have "z' = ?z" using rest by (simp add: copy_chunks.simps)
    moreover have "?stop = csize" using False by simp
    ultimately show ?thesis using len by (intro exI [where x = "[(?part, True)]"]) simp
  next
    case True
    have "\<exists>parts. z' = foldl (\<lambda>z p. zw_push w z (fst p) (snd p)) ?z parts \<and>
        concat (map fst parts) = slice_bytes file (start + (off + CHUNK)) (start + csize) \<and>
        length (concat (map fst parts)) = csize - (off + CHUNK) \<and>
        list_all (\<lambda>p. length (fst p) \<le> CHUNK) parts \<and> map snd parts = replicate (length parts - 1) False @ [True]"
      by (rule 1(1) [OF 1(3) refl refl _ push rest True]) (use len in simp)
    then obtain parts where parts: "z' = foldl (\<lambda>z p. zw_push w z (fst p) (snd p)) ?z parts"
        "concat (map fst parts) = slice_bytes file (start + (off + CHUNK)) (start + csize)"
        "length (concat (map fst parts)) = csize - (off + CHUNK)"
        "list_all (\<lambda>p. length (fst p) \<le> CHUNK) parts" "map snd parts = replicate (length parts - 1) False @ [True]" by blast
    have stop: "?stop = off + CHUNK" "?stop \<noteq> csize" using True by simp_all
    have "parts \<noteq> []" using parts(5) by auto
    then have "map snd ((?part, False) # parts) = replicate (length ((?part, False) # parts) - 1) False @ [True]"
      using parts(5) by (cases parts) simp_all
    moreover have "?part @ slice_bytes file (start + (off + CHUNK)) (start + csize) = slice_bytes file (start + off) (start + csize)"
      using True by (simp add: stop slice_append)
    moreover have "length (concat (map fst ((?part, False) # parts))) = csize - off"
    proof -
      have "length (concat (map fst ((?part, False) # parts))) = length ?part + length (concat (map fst parts))" by simp
      then show ?thesis unfolding parts(3) len(1) using stop True by simp
    qed
    moreover have "z' = foldl (\<lambda>z p. zw_push w z (fst p) (snd p)) z ((?part, False) # parts)"
      using parts(1) stop by simp
    ultimately show ?thesis
      using parts(2,4) len(2) by (intro exI [where x = "(?part, False) # parts"]) (simp only: list.map fst_conv concat.simps list.pred_inject simp_thms)
  qed
qed

text \<open>
  A member is copied byte for byte: the writer is given, in order, exactly the compressed bytes
  the directory counts from where the local header says they start, in parts of at most 4 MB, only
  the last marked as the end; a file too short for them is refused.
\<close>

theorem member_copied_byte_for_byte:
  assumes "copy_entry w max_bytes file (e, out) z = Inr z'" "0 < cd_csize e"
  shows "\<exists>start parts. data_start file e = Some start \<and>
    z' = foldl (\<lambda>z p. zw_push w z (fst p) (snd p)) (zw_add w z out e) parts \<and>
    concat (map fst parts) = slice_bytes file start (start + cd_csize e) \<and>
    length (concat (map fst parts)) = cd_csize e \<and>
    list_all (\<lambda>p. length (fst p) \<le> CHUNK) parts \<and>
    map snd parts = replicate (length parts - 1) False @ [True]"
proof -
  obtain start where start: "data_start file e = Some start"
    and copied: "copy_chunks w max_bytes file start (cd_csize e) 0 (zw_add w z out e) = Inr z'"
    using assms by (auto simp: copy_entry_def Let_def split: option.splits)
  show ?thesis using copy_chunks_parts [OF copied assms(2)] start by (intro exI [where x = start]) simp
qed

text \<open>A writer that emits its pushes as they come, for the examples.\<close>

definition plain_writer :: "bytes zip_writer" where
  "plain_writer = \<lparr>zw_start = [], zw_add = (\<lambda>z out e. z), zw_push = (\<lambda>z part final. z @ part), zw_end = (\<lambda>z. z),
     zw_out = (\<lambda>z. z), zw_failed = (\<lambda>z. False)\<rparr>"

definition example_member :: cd_entry where
  "example_member = \<lparr>cd_name = ''tweets.js'', cd_method = 0, cd_crc = 0, cd_csize = 2, cd_usize = 2, cd_offset = 0\<rparr>"

definition example_file :: bytes where
  "example_file = [0x50, 0x4b, 3, 4, 0, 0, 0, 0, 0, 0, 0, 0, 0, 0, 0, 0, 0, 0, 0, 0, 0, 0, 0, 0, 0, 0, 0, 0, 0, 0, 7, 8]"

lemma example_start: "data_start example_file example_member = Some 30"
  by (simp add: data_start_def example_file_def example_member_def slice_bytes_def le_read_def)

lemma example_copied: "copy_entry plain_writer 100 example_file (example_member, ''tweets.js'') [] = Inr [7, 8]"
proof -
  have "slice_bytes example_file 30 32 = [7, 8]"
    by (simp add: example_file_def slice_bytes_def)
  then show ?thesis using example_start
    by (simp add: copy_entry_def copy_chunks.simps push_capped_def plain_writer_def example_member_def CHUNK_def Let_def)
qed

lemma member_copied_byte_for_byte_witness:
  "\<exists>parts. concat (map fst parts) = slice_bytes example_file 30 32 \<and> map snd parts = replicate (length parts - 1) False @ [True]"
  using member_copied_byte_for_byte [OF example_copied] example_start by (auto simp: example_member_def)

text \<open>An export with deleted tweets beside the tweets, and one picture.\<close>

definition example_export :: "cd_entry list" where
  "example_export = map (\<lambda>name. example_member\<lparr>cd_name := name\<rparr>)
     [''data/deleted-tweets.js'', ''data/tweets.js'', ''data/tweets_media/1.jpg'']"

lemma strip_keeps_tweets_and_media_witness:
  "\<exists>kept. kept_entries example_export = Some kept \<and> map snd kept = [''tweets.js'', ''tweets_media/1.jpg''] \<and>
     distinct (map snd kept)"
proof -
  have "map_option (map snd) (kept_entries example_export) = Some [''tweets.js'', ''tweets_media/1.jpg'']" by code_simp
  then obtain kept where kept: "kept_entries example_export = Some kept" "map snd kept = [''tweets.js'', ''tweets_media/1.jpg'']"
    by auto
  with strip_keeps_tweets_and_media [of example_export] show ?thesis by auto
qed

lemma copy_chunks_error:
  "copy_chunks w max_bytes file start csize off z = Inl e \<Longrightarrow> e = malformed \<or> e = archive_too_large"
proof (induction w max_bytes "file" start csize off z rule: copy_chunks.induct)
  case (1 w max_bytes "file" start csize off z)
  then show ?case
    by (auto simp: copy_chunks.simps [of w max_bytes "file" start csize off z] Let_def push_capped_def split: if_splits)
qed

lemma copy_entry_error: "copy_entry w max_bytes file k z = Inl e \<Longrightarrow> e = malformed \<or> e = archive_too_large"
  using copy_chunks_error
  by (fastforce simp: copy_entry_def Let_def push_capped_def split: option.splits if_splits)

lemma copy_entries_error: "copy_entries w max_bytes file ks z = Inl e \<Longrightarrow> e = malformed \<or> e = archive_too_large"
proof (induction ks arbitrary: z)
  case (Cons k ks)
  then show ?case using copy_entry_error [of w max_bytes "file" k z e] by (cases "copy_entry w max_bytes file k z") simp_all
qed simp

text \<open>
  Stripping an archive answers an archive within the cap or one of three refusals: whatever the
  bytes of the file and whatever the zip writer does, it gives at most \<open>max_bytes\<close> bytes and an
  estimate of at least one post, or says the file is no zip, holds no tweets, or stays too large.
\<close>

theorem strip_capped_or_refused:
  "case strip_archive decode w max_bytes file of
     Inr stripped \<Rightarrow> length (sa_bytes stripped) \<le> max_bytes \<and> 1 \<le> sa_estimate stripped
   | Inl e \<Rightarrow> e \<in> {malformed, no_tweets, archive_too_large}"
  using copy_entries_error [of w max_bytes "file" _ "zw_start w"]
  by (auto simp: strip_archive_def Let_def post_estimate_def split: option.splits sum.splits)

section \<open>The polling loop ends\<close>

definition poll_answer_ok :: "poll_end \<times> import_job list \<Rightarrow> bool" where
  "poll_answer_ok p = (case fst p of
       Poll_job job \<Rightarrow> job_ended job \<and> snd p \<noteq> [] \<and> last (snd p) = job
     | Poll_lost message \<Rightarrow> list_all (\<lambda>job. \<not> job_ended job) (snd p))"

lemma poll_loop_returns:
  assumes "\<forall>i. now i + 1 \<le> now (Suc i)"
  shows "list_all (\<lambda>job. \<not> job_ended job) told \<Longrightarrow>
    \<exists>p. poll_loop answers now deadline max_errors i misses told = Some p \<and> poll_answer_ok p"
proof (induction "nat (deadline - now i)" arbitrary: i misses told rule: less_induct)
  case less
  have step: "\<exists>p. poll_loop answers now deadline max_errors (Suc i) m t = Some p \<and> poll_answer_ok p"
    if "\<not> deadline \<le> now i" "list_all (\<lambda>job. \<not> job_ended job) t" for m t
  proof (rule less.hyps)
    have "now i + 1 \<le> now (Suc i)" using assms by blast
    with that(1) show "nat (deadline - now (Suc i)) < nat (deadline - now i)" by simp
  qed (rule that(2))
  show ?case
  proof (cases "answers i")
    case None
    then show ?thesis using step [of told "misses + 1"] less.prems
      by (subst poll_loop.simps) (simp add: poll_answer_ok_def)
  next
    case (Some job)
    then show ?thesis using step [of "told @ [job]" 0] less.prems
      by (subst poll_loop.simps) (simp add: poll_answer_ok_def)
  qed
qed

text \<open>
  C10. Polling an import always ends: whatever the server answers, as long as the clock moves on
  between two requests the wait returns, either with a job that is done or failed, told last to the
  page, or having lost sight of it, and then no job it told had ended.
\<close>

theorem import_wait_ends:
  assumes "\<forall>i. now i + 1 \<le> now (Suc i)"
  shows "\<exists>r told. await_import_job answers now start max_errors timeout = Some (r, told) \<and>
    (case r of Poll_job job \<Rightarrow> job_ended job \<and> told \<noteq> [] \<and> last told = job
     | Poll_lost message \<Rightarrow> list_all (\<lambda>job. \<not> job_ended job) told)"
proof -
  have "\<exists>p. poll_loop answers now (start + timeout) max_errors 0 0 [] = Some p \<and> poll_answer_ok p"
    by (rule poll_loop_returns [OF assms]) simp
  then obtain p where "poll_loop answers now (start + timeout) max_errors 0 0 [] = Some p" "poll_answer_ok p" by blast
  then show ?thesis by (cases p) (simp add: await_import_job_def poll_answer_ok_def split: poll_end.splits)
qed

lemma import_wait_ends_witness:
  "\<exists>r told. await_import_job (\<lambda>_. None) (\<lambda>i. 2500 * int i) 0 8 900000 = Some (r, told)"
  using import_wait_ends [of "\<lambda>i. 2500 * int i" "\<lambda>_. None" 0 8 900000] by auto

end
