(* ===== verification/Map_Layers.thy ===== *)
theory Map_Layers
  imports Js_Prelude "HOL-Library.Multiset"
begin

text \<open>
  The order of the map's layers, bottom first: the satellite overlays kept right above the basemap
  (\<open>aboveBasemap\<close> of \<open>components/map/basemap.ts\<close>, \<open>SatelliteOverlays.tsx\<close>), the grid and the site zones kept under
  the event pins (\<open>useUnderEventPins\<close> of \<open>SiteLayers.tsx\<close>). Each runs again on every style change, the moves of
  the other included. The move itself is the map library's: \<open>move\<close> is a parameter.
\<close>

section \<open>The two orders\<close>

definition DAILY_IMAGERY_SOURCE :: jsstring where
  "DAILY_IMAGERY_SOURCE = ''gibs-true-colour''"

definition CLUSTER_LAYER :: jsstring where
  "CLUSTER_LAYER = ''clusters''"

definition SATELLITE_LAYERS :: "jsstring list" where
  "SATELLITE_LAYERS = [''daily-imagery'', ''fire-detections'']"

definition GRID_LAYERS :: "jsstring list" where
  "GRID_LAYERS = [''coordinate-grid-line'', ''coordinate-grid-label'']"

definition ZONE_LAYERS :: "jsstring list" where
  "ZONE_LAYERS = [''sites-zone-fill'', ''sites-zone-line'']"

definition is_overlay_source :: "jsstring \<Rightarrow> jsstring \<Rightarrow> bool" where
  "is_overlay_source i kind \<longleftrightarrow> kind = ''geojson'' \<or> i = DAILY_IMAGERY_SOURCE"

text \<open>The sources of a map: the one a layer draws from, and the type of each.\<close>

record map_sources =
  layer_source :: "jsstring \<Rightarrow> jsstring option"
  source_type :: "jsstring \<Rightarrow> jsstring option"

definition is_overlay_layer :: "map_sources \<Rightarrow> jsstring \<Rightarrow> bool" where
  "is_overlay_layer ms i = (case layer_source ms i of
       None \<Rightarrow> False
     | Some s \<Rightarrow> is_overlay_source s (case source_type ms s of Some t \<Rightarrow> t | None \<Rightarrow> []))"

text \<open>\<open>wanted.every((id, i) => stack[i] === id)\<close>: the stack starts with the wanted layers.\<close>

definition above_basemap ::
  "jsstring list \<Rightarrow> jsstring list \<Rightarrow> (jsstring \<Rightarrow> bool) \<Rightarrow> (jsstring list \<times> jsstring option) option" where
  "above_basemap stack own overlay =
     (let layers = filter (\<lambda>i. i \<in> set stack) own;
          rest = filter (\<lambda>i. i \<notin> set layers) stack;
          before = List.find overlay rest;
          at' = (case before of None \<Rightarrow> length rest | Some b \<Rightarrow> (case find_index (\<lambda>i. i = b) rest of Some n \<Rightarrow> n | None \<Rightarrow> 0));
          wanted = take at' rest @ layers @ drop at' rest
      in if take (length wanted) stack = wanted then None else Some (layers, before))"

type_synonym layer_move = "jsstring list \<Rightarrow> jsstring \<Rightarrow> jsstring option \<Rightarrow> jsstring list"

definition move_all :: "layer_move \<Rightarrow> jsstring list \<Rightarrow> jsstring list \<Rightarrow> jsstring option \<Rightarrow> jsstring list" where
  "move_all move stack ids before = foldl (\<lambda>s i. move s i before) stack ids"

definition order_above :: "layer_move \<Rightarrow> (jsstring \<Rightarrow> bool) \<Rightarrow> jsstring list \<Rightarrow> jsstring list" where
  "order_above move overlay stack = (case above_basemap stack SATELLITE_LAYERS overlay of
       None \<Rightarrow> stack
     | Some (layers, before) \<Rightarrow> move_all move stack layers before)"

text \<open>\<open>stack.indexOf(id)\<close> is read on the stack the run started from; a missing layer has none.\<close>

definition order_under :: "layer_move \<Rightarrow> jsstring list \<Rightarrow> jsstring list \<Rightarrow> jsstring list" where
  "order_under move ids stack = (case find_index (\<lambda>i. i = CLUSTER_LAYER) stack of
       None \<Rightarrow> stack
     | Some bottom \<Rightarrow> foldl (\<lambda>s i. case find_index (\<lambda>j. j = i) stack of
           Some n \<Rightarrow> if bottom < n then move s i (Some CLUSTER_LAYER) else s
         | None \<Rightarrow> s) stack ids)"

datatype order_run = Order_satellites | Order_grid | Order_zones

fun order_step :: "layer_move \<Rightarrow> (jsstring \<Rightarrow> bool) \<Rightarrow> order_run \<Rightarrow> jsstring list \<Rightarrow> jsstring list" where
  "order_step move overlay Order_satellites = order_above move overlay"
| "order_step move overlay Order_grid = order_under move GRID_LAYERS"
| "order_step move overlay Order_zones = order_under move ZONE_LAYERS"

section \<open>Moving layers\<close>

text \<open>What the map library documents of a move: the layer is taken out and put back right before the other one, or on
  top; the rest keeps its order.\<close>

definition documented_move :: "layer_move \<Rightarrow> bool" where
  "documented_move move \<longleftrightarrow>
     (\<forall>us vs i stack. distinct stack \<and> i \<in> set stack \<longrightarrow>
        (filter (\<lambda>j. j \<noteq> i) stack = us \<longrightarrow> move stack i None = us @ [i]) \<and>
        (\<forall>b. filter (\<lambda>j. j \<noteq> i) stack = us @ b # vs \<longrightarrow> move stack i (Some b) = us @ i # b # vs))"

lemma move_before:
  "documented_move move \<Longrightarrow> distinct stack \<Longrightarrow> i \<in> set stack \<Longrightarrow> filter (\<lambda>j. j \<noteq> i) stack = us @ b # vs \<Longrightarrow>
   move stack i (Some b) = us @ i # b # vs"
  unfolding documented_move_def by blast

lemma move_top:
  "documented_move move \<Longrightarrow> distinct stack \<Longrightarrow> i \<in> set stack \<Longrightarrow> move stack i None = filter (\<lambda>j. j \<noteq> i) stack @ [i]"
  unfolding documented_move_def by blast

lemma filter_split: "distinct (us @ b # vs) \<Longrightarrow> P b \<Longrightarrow> filter P (us @ b # vs) = filter P us @ b # filter P vs"
  by simp

lemma move_all_before:
  assumes "documented_move move" "distinct (us @ b # vs)" "distinct ls" "set ls \<subseteq> set (us @ b # vs)" "b \<notin> set ls"
  shows "move_all move (us @ b # vs) ls (Some b) =
    filter (\<lambda>i. i \<notin> set ls) us @ ls @ b # filter (\<lambda>i. i \<notin> set ls) vs"
  using assms(3-5)
proof (induction ls rule: rev_induct)
  case (snoc l ls)
  let ?us = "filter (\<lambda>i. i \<notin> set ls) us" and ?vs = "filter (\<lambda>i. i \<notin> set ls) vs"
  let ?s = "?us @ ls @ b # ?vs"
  have s: "move_all move (us @ b # vs) ls (Some b) = ?s" using snoc by simp
  have "distinct ?s" using assms(2) snoc.prems by auto
  moreover have "l \<in> set ?s" using snoc.prems by auto
  moreover have "filter (\<lambda>j. j \<noteq> l) ?s = (filter (\<lambda>i. i \<notin> set (ls @ [l])) us @ ls) @ b # filter (\<lambda>i. i \<notin> set (ls @ [l])) vs"
  proof -
    have "filter (\<lambda>j. j \<noteq> l) ls = ls" using snoc.prems(1) by (auto simp: filter_id_conv)
    moreover have "b \<noteq> l" using snoc.prems(3) by auto
    ultimately show ?thesis by (simp add: conj_commute)
  qed
  ultimately have "move ?s l (Some b) =
      (filter (\<lambda>i. i \<notin> set (ls @ [l])) us @ ls) @ l # b # filter (\<lambda>i. i \<notin> set (ls @ [l])) vs"
    using move_before [OF assms(1)] by blast
  then show ?case using s by (simp add: move_all_def)
qed (simp add: move_all_def)

lemma move_all_top:
  assumes "documented_move move" "distinct stack" "distinct ls" "set ls \<subseteq> set stack"
  shows "move_all move stack ls None = filter (\<lambda>i. i \<notin> set ls) stack @ ls"
  using assms(3,4)
proof (induction ls rule: rev_induct)
  case (snoc l ls)
  let ?s = "filter (\<lambda>i. i \<notin> set ls) stack @ ls"
  have s: "move_all move stack ls None = ?s" using snoc by simp
  have "distinct ?s" using assms(2) snoc.prems by auto
  moreover have "l \<in> set ?s" using snoc.prems by auto
  ultimately have "move ?s l None = filter (\<lambda>j. j \<noteq> l) ?s @ [l]" by (rule move_top [OF assms(1)])
  moreover have "filter (\<lambda>j. j \<noteq> l) ls = ls" using snoc.prems(1) by (auto simp: filter_id_conv)
  ultimately show ?case using s by (simp add: move_all_def conj_commute)
qed (simp add: move_all_def)

section \<open>Right above the basemap\<close>

text \<open>The abstract order: no overlay under the own layers, and an overlay, if any is left, right over them.\<close>

definition stands_above :: "(jsstring \<Rightarrow> bool) \<Rightarrow> jsstring list \<Rightarrow> jsstring list \<Rightarrow> bool" where
  "stands_above overlay own stack \<longleftrightarrow>
     (\<exists>us vs. stack = us @ filter (\<lambda>i. i \<in> set stack) own @ vs \<and> (\<forall>i \<in> set us. \<not> overlay i) \<and>
       (vs = [] \<or> overlay (hd vs)) \<and> set own \<inter> set (us @ vs) = {})"

lemma find_split:
  "List.find P xs = None \<Longrightarrow> \<forall>x \<in> set xs. \<not> P x"
  "List.find P xs = Some b \<Longrightarrow> \<exists>us vs. xs = us @ b # vs \<and> (\<forall>x \<in> set us. \<not> P x) \<and> P b"
  by (simp add: find_None_iff) (induction xs, simp, metis (no_types, lifting) append.left_neutral append_Cons empty_iff
      empty_set find.simps(2) option.inject set_ConsD)

lemma find_index_split: "b \<notin> set us \<Longrightarrow> find_index (\<lambda>i. i = b) (us @ b # vs) = Some (length us)"
  by (induction us) auto

lemma above_basemap_cases:
  assumes "distinct stack" "distinct own"
  defines "ls \<equiv> filter (\<lambda>i. i \<in> set stack) own"
  shows "\<exists>us vs. filter (\<lambda>i. i \<notin> set ls) stack = us @ vs \<and> (\<forall>i \<in> set us. \<not> overlay i) \<and> (vs = [] \<or> overlay (hd vs)) \<and>
    above_basemap stack own overlay =
      (if stack = us @ ls @ vs then None else Some (ls, if vs = [] then None else Some (hd vs)))"
proof -
  let ?rest = "filter (\<lambda>i. i \<notin> set ls) stack"
  have sub: "set ls \<subseteq> set stack" "distinct ls" using assms(2) by (auto simp: ls_def)
  have len: "length ?rest + length ls = length stack"
  proof -
    have "mset stack = mset ?rest + mset (filter (\<lambda>i. i \<in> set ls) stack)"
      using multiset_partition [of "mset stack" "\<lambda>i. i \<in> set ls"] by (simp add: add.commute)
    moreover have "mset (filter (\<lambda>i. i \<in> set ls) stack) = mset ls"
      using assms(1) sub by (intro set_eq_iff_mset_eq_distinct [THEN iffD1]) auto
    ultimately show ?thesis by (metis mset_append length_append size_mset)
  qed
  have whole: "take (length (us @ ls @ vs)) stack = us @ ls @ vs \<longleftrightarrow> stack = us @ ls @ vs" if "?rest = us @ vs" for us vs
  proof -
    have "length (us @ ls @ vs) = length stack" using len that by (metis add.commute add.left_commute length_append)
    then show ?thesis by simp
  qed
  show ?thesis
  proof (cases "List.find overlay ?rest")
    case None
    with find_split(1) [OF None] whole [of ?rest "[]"] show ?thesis
      by (intro exI [of _ ?rest] exI [of _ "[]"]) (simp add: above_basemap_def Let_def ls_def [symmetric])
  next
    case (Some b)
    then obtain us vs where split: "?rest = us @ b # vs" "\<forall>x \<in> set us. \<not> overlay x" "overlay b"
      using find_split(2) by fast
    then have "find_index (\<lambda>i. i = b) (us @ b # vs) = Some (length us)"
      by (intro find_index_split) auto
    with split Some whole [OF split(1)] show ?thesis
      by (intro exI [of _ us] exI [of _ "b # vs"]) (simp add: above_basemap_def Let_def ls_def [symmetric])
  qed
qed

lemma prefix_unique:
  assumes "us @ vs = us' @ vs'" "\<forall>i \<in> set us. \<not> P i" "vs = [] \<or> P (hd vs)" "\<forall>i \<in> set us'. \<not> P i" "vs' = [] \<or> P (hd vs')"
  shows "us = us' \<and> vs = vs'"
proof -
  have "takeWhile (\<lambda>i. \<not> P i) (as @ bs) = as" if "\<forall>i \<in> set as. \<not> P i" "bs = [] \<or> P (hd bs)" for as bs
    using that by (cases bs) (auto simp: takeWhile_append2)
  from this [OF assms(2,3)] this [OF assms(4,5)] have "us = us'" by (simp add: assms(1))
  with assms(1) show ?thesis by simp
qed

lemma own_filter:
  "filter (\<lambda>i. i \<notin> set (filter (\<lambda>i. i \<in> set stack) own)) stack = filter (\<lambda>i. i \<notin> set own) stack"
  by (rule filter_cong) auto

lemma stands_aboveI:
  assumes "filter (\<lambda>i. i \<notin> set own) stack = us @ vs" "\<forall>i \<in> set us. \<not> overlay i" "vs = [] \<or> overlay (hd vs)"
    "stack = us @ filter (\<lambda>i. i \<in> set stack) own @ vs"
  shows "stands_above overlay own stack"
proof -
  have "set own \<inter> set (us @ vs) = {}" unfolding assms(1) [symmetric] by auto
  with assms(2-4) show ?thesis unfolding stands_above_def by blast
qed

lemma stands_above_iff:
  assumes "distinct stack" "distinct own"
  shows "above_basemap stack own overlay = None \<longleftrightarrow> stands_above overlay own stack"
proof -
  let ?ls = "filter (\<lambda>i. i \<in> set stack) own"
  obtain us vs where split: "filter (\<lambda>i. i \<notin> set own) stack = us @ vs" "\<forall>i \<in> set us. \<not> overlay i" "vs = [] \<or> overlay (hd vs)"
    and res: "above_basemap stack own overlay = (if stack = us @ ?ls @ vs then None else Some (?ls, if vs = [] then None else Some (hd vs)))"
    using above_basemap_cases [OF assms, of overlay] unfolding own_filter by blast
  show ?thesis
  proof
    assume "above_basemap stack own overlay = None"
    then have "stack = us @ ?ls @ vs" using res by (metis option.distinct(1))
    with split show "stands_above overlay own stack" by (rule stands_aboveI)
  next
    assume "stands_above overlay own stack"
    then obtain us' vs' where s: "stack = us' @ ?ls @ vs'" "\<forall>i \<in> set us'. \<not> overlay i" "vs' = [] \<or> overlay (hd vs')"
      "set own \<inter> set (us' @ vs') = {}" unfolding stands_above_def by blast
    have "filter (\<lambda>i. i \<notin> set own) us' = us'" "filter (\<lambda>i. i \<notin> set own) vs' = vs'"
      using s(4) by (auto simp: filter_id_conv)
    then have "filter (\<lambda>i. i \<notin> set own) (us' @ ?ls @ vs') = us' @ vs'" by (simp add: filter_empty_conv)
    then have "us' @ vs' = us @ vs" using split(1) s(1) by metis
    from prefix_unique [OF this s(2,3) split(2,3)] show "above_basemap stack own overlay = None" using res s(1) by metis
  qed
qed

lemma distinct_satellites: "distinct SATELLITE_LAYERS"
  by (simp add: SATELLITE_LAYERS_def)

lemma order_above_form:
  assumes "documented_move move" "distinct stack"
  shows "\<exists>us vs. filter (\<lambda>i. i \<notin> set SATELLITE_LAYERS) stack = us @ vs \<and> (\<forall>i \<in> set us. \<not> overlay i) \<and>
    (vs = [] \<or> overlay (hd vs)) \<and> order_above move overlay stack = us @ filter (\<lambda>i. i \<in> set stack) SATELLITE_LAYERS @ vs"
proof -
  let ?ls = "filter (\<lambda>i. i \<in> set stack) SATELLITE_LAYERS"
  obtain us vs where split: "filter (\<lambda>i. i \<notin> set ?ls) stack = us @ vs" "\<forall>i \<in> set us. \<not> overlay i" "vs = [] \<or> overlay (hd vs)"
    and res: "above_basemap stack SATELLITE_LAYERS overlay =
      (if stack = us @ ?ls @ vs then None else Some (?ls, if vs = [] then None else Some (hd vs)))"
    using above_basemap_cases [OF assms(2) distinct_satellites, of overlay] by blast
  have ls: "distinct ?ls" "set ?ls \<subseteq> set stack" using distinct_satellites by auto
  have "order_above move overlay stack = us @ ?ls @ vs"
  proof (cases "stack = us @ ?ls @ vs")
    case True
    have "above_basemap stack SATELLITE_LAYERS overlay = None" using res unfolding if_P [OF True] .
    with True show ?thesis unfolding order_above_def by simp
  next
    case False
    with res have run: "order_above move overlay stack = move_all move stack ?ls (if vs = [] then None else Some (hd vs))"
      unfolding order_above_def by simp
    show ?thesis
    proof (cases vs)
      case Nil
      then show ?thesis using run split(1) move_all_top [OF assms ls] by simp
    next
      case (Cons b vs')
      then have "b \<in> set (filter (\<lambda>i. i \<notin> set ?ls) stack)" unfolding split(1) by simp
      then have b: "b \<in> set stack" "b \<notin> set ?ls" by auto
      then obtain p q where stack: "stack = p @ b # q" by (metis split_list)
      have kept: "filter (\<lambda>i. i \<notin> set ?ls) p @ b # filter (\<lambda>i. i \<notin> set ?ls) q = us @ b # vs'"
        using split(1) b(2) Cons unfolding stack by simp
      have nb: "b \<notin> set (filter (\<lambda>i. i \<notin> set ?ls) p)" "b \<notin> set (filter (\<lambda>i. i \<notin> set ?ls) q)" using assms(2) stack by auto
      have "filter (\<lambda>i. i \<notin> set ?ls) p = us \<and> filter (\<lambda>i. i \<notin> set ?ls) q = vs'"
        by (rule iffD1 [OF append_Cons_eq_iff [OF nb] kept])
      moreover have "move_all move stack ?ls (Some b) = filter (\<lambda>i. i \<notin> set ?ls) p @ ?ls @ b # filter (\<lambda>i. i \<notin> set ?ls) q"
        using move_all_before [OF assms(1), of p b q ?ls] assms(2) ls b(2) unfolding stack by simp
      ultimately show ?thesis using run Cons by simp
    qed
  qed
  with split show ?thesis unfolding own_filter by blast
qed

lemma satellite_partition:
  assumes "distinct stack" "filter (\<lambda>i. i \<notin> set own) stack = us @ vs" "distinct own"
  shows "mset (us @ filter (\<lambda>i. i \<in> set stack) own @ vs) = mset stack"
proof -
  have "mset stack = mset (us @ vs) + mset (filter (\<lambda>i. i \<in> set own) stack)"
    using multiset_partition [of "mset stack" "\<lambda>i. i \<notin> set own"] by (simp add: assms(2) [symmetric] mset_filter)
  moreover have "mset (filter (\<lambda>i. i \<in> set own) stack) = mset (filter (\<lambda>i. i \<in> set stack) own)"
    using assms(1,3) by (intro set_eq_iff_mset_eq_distinct [THEN iffD1]) auto
  ultimately show ?thesis by simp
qed

lemma order_above_spec:
  assumes "documented_move move" "distinct stack"
  shows "mset (order_above move overlay stack) = mset stack"
    "stands_above overlay SATELLITE_LAYERS (order_above move overlay stack)"
    "filter (\<lambda>i. i \<notin> set SATELLITE_LAYERS) (order_above move overlay stack) = filter (\<lambda>i. i \<notin> set SATELLITE_LAYERS) stack"
proof -
  let ?ls = "filter (\<lambda>i. i \<in> set stack) SATELLITE_LAYERS"
  obtain us vs where split: "filter (\<lambda>i. i \<notin> set SATELLITE_LAYERS) stack = us @ vs" "\<forall>i \<in> set us. \<not> overlay i"
    "vs = [] \<or> overlay (hd vs)" and res: "order_above move overlay stack = us @ ?ls @ vs"
    using order_above_form [OF assms] by blast
  show m: "mset (order_above move overlay stack) = mset stack"
    unfolding res by (rule satellite_partition [OF assms(2) split(1) distinct_satellites])
  then have "set (us @ ?ls @ vs) = set stack" using res by (metis mset_eq_setD)
  then have self: "us @ ?ls @ vs = us @ filter (\<lambda>i. i \<in> set (us @ ?ls @ vs)) SATELLITE_LAYERS @ vs" by metis
  have "\<forall>i \<in> set (us @ vs). i \<notin> set SATELLITE_LAYERS" unfolding split(1) [symmetric] by auto
  then have "filter (\<lambda>i. i \<notin> set SATELLITE_LAYERS) us = us" "filter (\<lambda>i. i \<notin> set SATELLITE_LAYERS) vs = vs"
    by (simp_all add: filter_id_conv)
  then have f: "filter (\<lambda>i. i \<notin> set SATELLITE_LAYERS) (us @ ?ls @ vs) = us @ vs" by (auto simp: filter_empty_conv)
  show "stands_above overlay SATELLITE_LAYERS (order_above move overlay stack)"
    unfolding res by (rule stands_aboveI [OF f split(2,3) self])
  show "filter (\<lambda>i. i \<notin> set SATELLITE_LAYERS) (order_above move overlay stack) = filter (\<lambda>i. i \<notin> set SATELLITE_LAYERS) stack"
    unfolding res f split(1) ..
qed

section \<open>Under the event pins\<close>

definition stays_under :: "jsstring list \<Rightarrow> jsstring list \<Rightarrow> bool" where
  "stays_under ids stack \<longleftrightarrow> (\<forall>p q. stack = p @ CLUSTER_LAYER # q \<longrightarrow> set ids \<inter> set q = {})"

lemma foldl_filter: "foldl (\<lambda>s i. if P i then f s i else s) s xs = foldl f s (filter P xs)"
  by (induction xs arbitrary: s) auto

lemma index_after:
  assumes "distinct (p @ c # q)"
  shows "(case find_index (\<lambda>j. j = i) (p @ c # q) of Some n \<Rightarrow> if length p < n then x else y | None \<Rightarrow> y) = (if i \<in> set q then x else y)"
proof (cases "i \<in> set q")
  case True
  then obtain q1 q2 where q: "q = q1 @ i # q2" "i \<notin> set q1" by (metis split_list_first)
  then have "find_index (\<lambda>j. j = i) ((p @ c # q1) @ i # q2) = Some (length (p @ c # q1))"
    using assms by (intro find_index_split) auto
  then show ?thesis using True q(1) by simp
next
  case False
  consider "i \<notin> set (p @ c # q)" | p1 p2 where "p = p1 @ i # p2" "i \<notin> set p1" | "i = c" "i \<notin> set p"
    using False by (metis Un_iff set_ConsD set_append split_list_first)
  then show ?thesis
  proof cases
    case 1
    then have none: "find_index (\<lambda>j. j = i) (p @ c # q) = None" by auto
    show ?thesis unfolding none using False by simp
  next
    case 2
    then have "find_index (\<lambda>j. j = i) (p1 @ i # (p2 @ c # q)) = Some (length p1)" by (intro find_index_split)
    with False 2 show ?thesis by simp
  next
    case 3
    then have "find_index (\<lambda>j. j = i) (p @ i # q) = Some (length p)" by (intro find_index_split)
    with False 3 show ?thesis by simp
  qed
qed

lemma order_under_form:
  assumes "documented_move move" "distinct (p @ CLUSTER_LAYER # q)" "distinct ids"
  defines "ms \<equiv> filter (\<lambda>i. i \<in> set q) ids"
  shows "order_under move ids (p @ CLUSTER_LAYER # q) = p @ ms @ CLUSTER_LAYER # filter (\<lambda>i. i \<notin> set ids) q"
proof -
  have "find_index (\<lambda>i. i = CLUSTER_LAYER) (p @ CLUSTER_LAYER # q) = Some (length p)"
    using assms(2) by (intro find_index_split) simp
  then have "order_under move ids (p @ CLUSTER_LAYER # q) = move_all move (p @ CLUSTER_LAYER # q) ms (Some CLUSTER_LAYER)"
    by (simp add: order_under_def index_after [OF assms(2)] foldl_filter move_all_def ms_def)
  also have "\<dots> = filter (\<lambda>i. i \<notin> set ms) p @ ms @ CLUSTER_LAYER # filter (\<lambda>i. i \<notin> set ms) q"
    using assms(2,3) by (intro move_all_before [OF assms(1)]) (auto simp: ms_def)
  also have "filter (\<lambda>i. i \<notin> set ms) p = p" using assms(2) by (auto simp: ms_def filter_id_conv)
  also have "filter (\<lambda>i. i \<notin> set ms) q = filter (\<lambda>i. i \<notin> set ids) q" by (rule filter_cong) (auto simp: ms_def)
  finally show ?thesis .
qed

lemma no_cluster: "CLUSTER_LAYER \<notin> set stack \<Longrightarrow> order_under move ids stack = stack"
proof -
  assume "CLUSTER_LAYER \<notin> set stack"
  then have none: "find_index (\<lambda>i. i = CLUSTER_LAYER) stack = None" by auto
  show ?thesis unfolding order_under_def none by simp
qed

lemma cluster_unique:
  "distinct (p @ c # q) \<Longrightarrow> p @ c # q = p' @ c # q' \<Longrightarrow> p = p' \<and> q = q'"
  by (subst (asm) append_Cons_eq_iff) auto

lemma stays_underI: "distinct (p @ CLUSTER_LAYER # q) \<Longrightarrow> set ids \<inter> set q = {} \<Longrightarrow> stays_under ids (p @ CLUSTER_LAYER # q)"
  unfolding stays_under_def using cluster_unique by metis

lemma order_under_settled:
  assumes "documented_move move" "distinct stack" "distinct ids" "stays_under ids stack"
  shows "order_under move ids stack = stack"
proof (cases "CLUSTER_LAYER \<in> set stack")
  case True
  then obtain p q where stack: "stack = p @ CLUSTER_LAYER # q" by (metis split_list)
  then have "set ids \<inter> set q = {}" using assms(4) unfolding stays_under_def by blast
  then have "filter (\<lambda>i. i \<in> set q) ids = []" "filter (\<lambda>i. i \<notin> set ids) q = q" by (auto simp: filter_empty_conv filter_id_conv)
  then show ?thesis using order_under_form [OF assms(1) _ assms(3), of p q] assms(2) stack by simp
qed (simp add: no_cluster)

lemma order_under_spec:
  assumes "documented_move move" "distinct stack" "distinct ids" "CLUSTER_LAYER \<notin> set ids"
  shows "mset (order_under move ids stack) = mset stack" "stays_under ids (order_under move ids stack)"
    "filter (\<lambda>i. i \<notin> set ids) (order_under move ids stack) = filter (\<lambda>i. i \<notin> set ids) stack"
    "stays_under others stack \<Longrightarrow> stays_under others (order_under move ids stack)"
proof -
  have "mset (order_under move ids stack) = mset stack \<and> stays_under ids (order_under move ids stack) \<and>
    filter (\<lambda>i. i \<notin> set ids) (order_under move ids stack) = filter (\<lambda>i. i \<notin> set ids) stack \<and>
    (stays_under others stack \<longrightarrow> stays_under others (order_under move ids stack))"
  proof (cases "CLUSTER_LAYER \<in> set stack")
    case True
    then obtain p q where stack: "stack = p @ CLUSTER_LAYER # q" by (metis split_list)
    let ?ms = "filter (\<lambda>i. i \<in> set q) ids" and ?q = "filter (\<lambda>i. i \<notin> set ids) q"
    have res: "order_under move ids stack = (p @ ?ms) @ CLUSTER_LAYER # ?q"
      using order_under_form [OF assms(1) _ assms(3), of p q] assms(2) stack by simp
    have "mset q = mset ?q + mset (filter (\<lambda>i. i \<in> set ids) q)" by (induction q) simp_all
    moreover have "mset (filter (\<lambda>i. i \<in> set ids) q) = mset ?ms"
      using assms(2,3) stack by (intro set_eq_iff_mset_eq_distinct [THEN iffD1]) auto
    ultimately have "mset ?q + mset ?ms = mset q" by metis
    then have m: "mset (order_under move ids stack) = mset stack" unfolding res unfolding stack by (simp add: ac_simps)
    then have d: "distinct ((p @ ?ms) @ CLUSTER_LAYER # ?q)" using assms(2) res by (metis mset_eq_imp_distinct_iff)
    have "stays_under ids (order_under move ids stack)" unfolding res by (rule stays_underI [OF d]) auto
    moreover have "filter (\<lambda>i. i \<notin> set ids) (order_under move ids stack) = filter (\<lambda>i. i \<notin> set ids) stack"
      unfolding res unfolding stack using assms(4) by (simp add: filter_empty_conv)
    moreover have "stays_under others stack \<longrightarrow> stays_under others (order_under move ids stack)"
    proof
      assume "stays_under others stack"
      then have "set others \<inter> set q = {}" using stack unfolding stays_under_def by blast
      then show "stays_under others (order_under move ids stack)" unfolding res by (intro stays_underI [OF d]) auto
    qed
    ultimately show ?thesis using m by blast
  next
    case False
    then have "stays_under ids stack" unfolding stays_under_def by auto
    with False show ?thesis by (simp add: no_cluster)
  qed
  then show "mset (order_under move ids stack) = mset stack" "stays_under ids (order_under move ids stack)"
    "filter (\<lambda>i. i \<notin> set ids) (order_under move ids stack) = filter (\<lambda>i. i \<notin> set ids) stack"
    "stays_under others stack \<Longrightarrow> stays_under others (order_under move ids stack)" by blast+
qed

section \<open>The two together\<close>

lemma above_keeps_under:
  assumes "documented_move move" "distinct stack" "stays_under ids stack" "set ids \<inter> set SATELLITE_LAYERS = {}"
  shows "stays_under ids (order_above move overlay stack)"
  unfolding stays_under_def
proof (intro allI impI)
  fix p q assume res: "order_above move overlay stack = p @ CLUSTER_LAYER # q"
  let ?f = "filter (\<lambda>i. i \<notin> set SATELLITE_LAYERS)"
  have c: "CLUSTER_LAYER \<notin> set SATELLITE_LAYERS" by (simp add: CLUSTER_LAYER_def SATELLITE_LAYERS_def)
  have "CLUSTER_LAYER \<in> set stack"
    using order_above_spec(1) [OF assms(1,2), of overlay] res by (metis in_set_conv_decomp mset_eq_setD)
  then obtain p' q' where stack: "stack = p' @ CLUSTER_LAYER # q'" by (metis split_list)
  then have "?f p @ CLUSTER_LAYER # ?f q = ?f p' @ CLUSTER_LAYER # ?f q'"
    using order_above_spec(3) [OF assms(1,2), of overlay] c unfolding res by simp
  moreover have "distinct (?f p' @ CLUSTER_LAYER # ?f q')" using assms(2) stack by auto
  ultimately have "?f q = ?f q'" using cluster_unique by metis
  moreover have "set ids \<inter> set q' = {}" using assms(3) stack unfolding stays_under_def by blast
  ultimately have "set ids \<inter> set (?f q) = {}" by auto
  then show "set ids \<inter> set q = {}" using assms(4) by auto
qed

lemma under_keeps_above:
  assumes "documented_move move" "distinct stack" "distinct ids" "stands_above overlay SATELLITE_LAYERS stack"
    "set ids \<inter> set SATELLITE_LAYERS = {}" "\<forall>i \<in> set ids. overlay i" "overlay CLUSTER_LAYER"
    and under_ids: "CLUSTER_LAYER \<notin> set ids"
  shows "stands_above overlay SATELLITE_LAYERS (order_under move ids stack)"
proof (cases "CLUSTER_LAYER \<in> set stack")
  case True
  let ?ls = "filter (\<lambda>i. i \<in> set stack) SATELLITE_LAYERS"
  obtain us vs where above: "stack = us @ ?ls @ vs" "\<forall>i \<in> set us. \<not> overlay i" "vs = [] \<or> overlay (hd vs)"
    "set SATELLITE_LAYERS \<inter> set (us @ vs) = {}" using assms(4) unfolding stands_above_def by blast
  have "CLUSTER_LAYER \<notin> set SATELLITE_LAYERS" by (simp add: CLUSTER_LAYER_def SATELLITE_LAYERS_def)
  then have "CLUSTER_LAYER \<in> set vs" using True above(2) assms(7) by (subst (asm) above(1)) auto
  then obtain w q where vs: "vs = w @ CLUSTER_LAYER # q" by (metis split_list)
  let ?ms = "filter (\<lambda>i. i \<in> set q) ids"
  let ?vs = "w @ ?ms @ CLUSTER_LAYER # filter (\<lambda>i. i \<notin> set ids) q"
  have "stack = (us @ ?ls @ w) @ CLUSTER_LAYER # q" using above(1) vs by simp
  then have res: "order_under move ids stack = us @ ?ls @ ?vs"
    using order_under_form [OF assms(1) _ assms(3), of "us @ ?ls @ w" q] assms(2) by simp
  have "mset (order_under move ids stack) = mset stack"
    using order_under_spec(1) [OF assms(1-3)] under_ids by blast
  then have "set (order_under move ids stack) = set stack" by (rule mset_eq_setD)
  then have ls: "filter (\<lambda>i. i \<in> set (order_under move ids stack)) SATELLITE_LAYERS = ?ls" by simp
  have "overlay (hd ?vs)"
  proof (cases w)
    case Nil
    then show ?thesis using assms(6,7) by (cases ?ms) (auto dest: filter_eq_ConsD)
  next
    case (Cons a w')
    then show ?thesis using above(3) vs by simp
  qed
  moreover have "set SATELLITE_LAYERS \<inter> set (us @ ?vs) = {}" using above(4) assms(5) vs by auto
  ultimately show ?thesis unfolding stands_above_def ls using above(2) res by blast
qed (simp add: no_cluster assms(4))

fun in_order :: "(jsstring \<Rightarrow> bool) \<Rightarrow> order_run \<Rightarrow> jsstring list \<Rightarrow> bool" where
  "in_order overlay Order_satellites stack = stands_above overlay SATELLITE_LAYERS stack"
| "in_order overlay Order_grid stack = stays_under GRID_LAYERS stack"
| "in_order overlay Order_zones stack = stays_under ZONE_LAYERS stack"

lemma own_layers:
  "distinct GRID_LAYERS" "distinct ZONE_LAYERS" "set GRID_LAYERS \<inter> set SATELLITE_LAYERS = {}"
  "set ZONE_LAYERS \<inter> set SATELLITE_LAYERS = {}" "CLUSTER_LAYER \<notin> set GRID_LAYERS" "CLUSTER_LAYER \<notin> set ZONE_LAYERS"
  by (simp_all add: GRID_LAYERS_def ZONE_LAYERS_def SATELLITE_LAYERS_def CLUSTER_LAYER_def)

lemma order_step_spec:
  assumes "documented_move move" "distinct stack" "\<forall>i \<in> set (CLUSTER_LAYER # GRID_LAYERS @ ZONE_LAYERS). overlay i"
  shows "mset (order_step move overlay r stack) = mset stack" "in_order overlay r (order_step move overlay r stack)"
    "in_order overlay r' stack \<Longrightarrow> in_order overlay r' (order_step move overlay r stack)"
    "in_order overlay r stack \<Longrightarrow> order_step move overlay r stack = stack"
proof -
  note above = order_above_spec [OF assms(1,2), of overlay] and under = order_under_spec [OF assms(1,2)]
  show "mset (order_step move overlay r stack) = mset stack"
    by (cases r) (simp_all add: above under own_layers)
  show "in_order overlay r (order_step move overlay r stack)"
    by (cases r) (simp_all add: above under own_layers)
  show "order_step move overlay r stack = stack" if "in_order overlay r stack"
    using that stands_above_iff [OF assms(2) distinct_satellites, of overlay]
    by (cases r) (auto simp: order_above_def order_under_settled [OF assms(1,2)] own_layers)
  show "in_order overlay r' (order_step move overlay r stack)" if "in_order overlay r' stack"
    using that above_keeps_under [OF assms(1,2)] under_keeps_above [OF assms(1,2)] under(4) assms(3) above(2)
    by (cases r; cases r') (auto simp: own_layers)
qed

text \<open>
  C32. The two orders settle together: whatever style changes run them, in whatever interleaving, no layer is lost, each
  order that ran holds at the end, and running it again moves nothing, so the moves they answer each other with end.
\<close>

theorem layer_orders_settle:
  assumes "documented_move move" "distinct stack"
    "\<forall>i \<in> set (CLUSTER_LAYER # GRID_LAYERS @ ZONE_LAYERS). is_overlay_layer ms i"
  shows "let after = fold (order_step move (is_overlay_layer ms)) runs stack in
    mset after = mset stack \<and>
    (\<forall>r \<in> set runs. in_order (is_overlay_layer ms) r after \<and> order_step move (is_overlay_layer ms) r after = after)"
proof -
  let ?step = "order_step move (is_overlay_layer ms)"
  have "mset (fold ?step runs stack) = mset stack \<and> (\<forall>r \<in> set runs. in_order (is_overlay_layer ms) r (fold ?step runs stack))"
  proof (induction runs rule: rev_induct)
    case (snoc r runs)
    then have m: "mset (fold ?step runs stack) = mset stack"
      and old: "\<forall>r \<in> set runs. in_order (is_overlay_layer ms) r (fold ?step runs stack)" by blast+
    have "distinct (fold ?step runs stack)" using assms(2) m by (metis mset_eq_imp_distinct_iff)
    note spec = order_step_spec [OF assms(1) this assms(3)]
    show ?case using spec(1,2) [of r] spec(3) [of _ r] m old by auto
  qed simp
  moreover from this have "distinct (fold ?step runs stack)" using assms(2) by (metis mset_eq_imp_distinct_iff)
  ultimately show ?thesis using order_step_spec(4) [OF assms(1) _ assms(3)] by (simp add: Let_def)
qed

definition move_in_list :: layer_move where
  "move_in_list stack i before = (let rest = filter (\<lambda>j. j \<noteq> i) stack in case before of
       None \<Rightarrow> rest @ [i]
     | Some b \<Rightarrow> takeWhile (\<lambda>j. j \<noteq> b) rest @ i # dropWhile (\<lambda>j. j \<noteq> b) rest)"

lemma move_in_list_documented: "documented_move move_in_list"
  unfolding documented_move_def
proof (intro allI impI conjI)
  fix us vs :: "jsstring list" and i b stack
  assume d: "distinct stack \<and> i \<in> set stack" and f: "filter (\<lambda>j. j \<noteq> i) stack = us @ b # vs"
  have "distinct (us @ b # vs)" using d by (metis distinct_filter f)
  then have "takeWhile (\<lambda>j. j \<noteq> b) (us @ b # vs) = us" "dropWhile (\<lambda>j. j \<noteq> b) (us @ b # vs) = b # vs"
    by (auto simp: takeWhile_tail dropWhile_append takeWhile_append2)
  then show "move_in_list stack i (Some b) = us @ i # b # vs" by (simp add: move_in_list_def Let_def f)
qed (simp add: move_in_list_def Let_def)

theorem layer_orders_settle_witness:
  "let ms = \<lparr>layer_source = \<lambda>i. if i = ''base'' then Some ''tiles'' else Some ''own'',
             source_type = \<lambda>s. if s = ''own'' then Some ''geojson'' else Some ''vector''\<rparr>;
       after = fold (order_step move_in_list (is_overlay_layer ms)) [Order_grid, Order_satellites]
         [''base'', ''clusters'', ''daily-imagery'', ''coordinate-grid-line'']
   in mset after = mset [''base'', ''clusters'', ''daily-imagery'', ''coordinate-grid-line''] \<and>
     (\<forall>r \<in> set [Order_grid, Order_satellites]. in_order (is_overlay_layer ms) r after \<and>
        order_step move_in_list (is_overlay_layer ms) r after = after)"
  unfolding Let_def
  by (rule layer_orders_settle [OF move_in_list_documented, unfolded Let_def])
    (simp_all add: is_overlay_layer_def is_overlay_source_def GRID_LAYERS_def ZONE_LAYERS_def CLUSTER_LAYER_def)

end
