(* ===== verification/Basemap.thy ===== *)
theory Basemap
  imports Map_Layers Stored_Json Js_Text
begin

text \<open>
  The map styles of \<open>components/map/basemap.ts\<close>: what the reader's options change in a Vidit style, the overlays kept
  across a basemap swap, and the self-hosted files of \<open>mapAssets.ts\<close>. A style is a record of the members the code
  reads; the three style files (JSON data) and the page's origin are parameters. Source ids are no names of the
  object prototype.
\<close>

section \<open>Styles\<close>

type_synonym members = "(jsstring \<times> json) list"

record map_layer =
  ml_id :: jsstring
  ml_type :: jsstring
  ml_source :: "jsstring option"
  ml_source_layer :: "jsstring option"
  ml_filter :: "json option"
  ml_layout :: "members option"
  ml_paint :: "members option"
  ml_metadata :: "members option"
  ml_minzoom :: "rat option"

record map_style =
  st_name :: "jsstring option"
  st_glyphs :: "jsstring option"
  st_sprite :: "json option"
  st_projection :: "json option"
  st_sources :: members
  st_layers :: "map_layer list"

datatype brightness = Dark | Light

record basemap_options =
  bo_language :: jsstring
  bo_density :: jsstring
  bo_region_borders :: bool
  bo_roads :: bool
  bo_buildings :: bool
  bo_military_and_airports :: bool
  bo_relief :: bool
  bo_disputed_dashed :: bool

text \<open>A number literal is the double it names.\<close>

definition lit :: "rat \<Rightarrow> json" where
  "lit x = JNum (case round_double x of Some d \<Rightarrow> d | None \<Rightarrow> x)"

definition get :: "jsstring \<Rightarrow> json" where
  "get k = JArr [JStr ''get'', JStr k]"

section \<open>The reader's options\<close>

definition LOW_ZOOM :: rat where "LOW_ZOOM = 5"
definition TOWN_ZOOM :: rat where "TOWN_ZOOM = 7"
definition VILLAGE_ZOOM :: rat where "VILLAGE_ZOOM = 10"
definition MINOR_ZOOM :: rat where "MINOR_ZOOM = 12"

definition ROAD_ROLES :: "jsstring list" where
  "ROAD_ROLES = [''road'', ''minor-road'', ''road-label'']"

definition SPARSE_PLACE_FILTER :: json where
  "SPARSE_PLACE_FILTER = JArr [JStr ''any'', JArr [JStr ''=='', get ''class'', JStr ''country''],
     JArr [JStr ''=='', get ''capital'', lit 2],
     JArr [JStr ''>='', JArr [JStr ''zoom''],
       JArr [JStr ''match'', get ''class'', JStr ''city'', lit LOW_ZOOM, JArr [JStr ''town'', JStr ''state''], lit TOWN_ZOOM,
         JStr ''village'', lit VILLAGE_ZOOM, lit MINOR_ZOOM]]]"

definition SPARSE_MIN_ZOOM :: "jsstring \<Rightarrow> rat option" where
  "SPARSE_MIN_ZOOM role = (if role = ''label'' then Some LOW_ZOOM else if role = ''road'' then Some LOW_ZOOM
     else if role = ''road-label'' then Some LOW_ZOOM else if role = ''minor-road'' then Some MINOR_ZOOM else None)"

definition LATIN_NAME :: json where
  "LATIN_NAME = JArr [JStr ''coalesce'', get ''name:latin'', get ''name'']"

definition label_text :: "jsstring \<Rightarrow> jsstring \<Rightarrow> json" where
  "label_text language separator =
     (if language = ''latin'' then LATIN_NAME
      else if language = ''local'' then
        JArr [JStr ''case'', JArr [JStr ''all'', JArr [JStr ''has'', JStr ''name''], JArr [JStr ''is-supported-script'', get ''name'']],
          get ''name'', LATIN_NAME]
      else JArr [JStr ''case'',
          JArr [JStr ''all'', JArr [JStr ''has'', JStr ''name:nonlatin''], JArr [JStr ''is-supported-script'', get ''name:nonlatin'']],
          JArr [JStr ''concat'', get ''name:latin'', JStr separator, get ''name:nonlatin''], LATIN_NAME])"

definition role_of :: "map_layer \<Rightarrow> jsstring option" where
  "role_of layer = is_string (Option.bind (ml_metadata layer) (\<lambda>m. map_of m ''vidit:role''))"

definition hidden_role :: "basemap_options \<Rightarrow> jsstring \<Rightarrow> bool" where
  "hidden_role options role \<longleftrightarrow>
     (role = ''region-border'' \<and> \<not> bo_region_borders options) \<or>
     (role \<in> set ROAD_ROLES \<and> \<not> bo_roads options) \<or>
     (role = ''building'' \<and> \<not> bo_buildings options) \<or>
     (role = ''military-airport'' \<and> \<not> bo_military_and_airports options) \<or>
     (role = ''relief'' \<and> \<not> bo_relief options)"

definition names_label :: "members \<Rightarrow> bool" where
  "names_label layout = js_includes (json_stringify (case map_of layout ''text-field'' of Some v \<Rightarrow> v | None \<Rightarrow> JNull)) (dquote # ''name'')"

definition adjust_layer :: "basemap_options \<Rightarrow> map_layer \<Rightarrow> map_layer" where
  "adjust_layer options layer = (case role_of layer of
       None \<Rightarrow> layer
     | Some role \<Rightarrow> if role = [] then layer else
         (let layout = (case ml_layout layer of Some l \<Rightarrow> l | None \<Rightarrow> []);
              layout = (if hidden_role options role then put_member layout ''visibility'' (JStr ''none'') else layout);
              paint = (if role = ''disputed-border'' \<and> \<not> bo_disputed_dashed options
                then Some (filter (\<lambda>(k, v). k \<noteq> ''line-dasharray'') (case ml_paint layer of Some p \<Rightarrow> p | None \<Rightarrow> []))
                else ml_paint layer);
              layout = (if names_label layout
                then put_member layout ''text-field'' (label_text (bo_language options)
                  (if map_of layout ''symbol-placement'' = Some (JStr ''line'') then '' '' else [CHR 0x0A]))
                else layout);
              sparse = bo_density options = ''sparse'';
              flt = (if sparse \<and> role = ''place-label''
                then Some (case ml_filter layer of Some f \<Rightarrow> JArr [JStr ''all'', f, SPARSE_PLACE_FILTER] | None \<Rightarrow> SPARSE_PLACE_FILTER)
                else ml_filter layer);
              floor = (if sparse then SPARSE_MIN_ZOOM role else None);
              minzoom = (case floor of Some z \<Rightarrow> Some (max (case ml_minzoom layer of Some m \<Rightarrow> m | None \<Rightarrow> 0) z) | None \<Rightarrow> ml_minzoom layer)
          in layer\<lparr>ml_layout := Some layout, ml_paint := paint, ml_filter := flt, ml_minzoom := minzoom\<rparr>))"

section \<open>The layers the styles do not ship\<close>

definition VECTOR_SOURCE :: jsstring where "VECTOR_SOURCE = ''openmaptiles''"
definition NATURAL_EARTH_SOURCE :: jsstring where "NATURAL_EARTH_SOURCE = ''ne2_shaded''"
definition RELIEF_SOURCE :: jsstring where "RELIEF_SOURCE = ''relief-dem''"

record layer_colors =
  lc_military :: jsstring
  lc_airport :: jsstring
  lc_fire :: jsstring
  lc_grid :: jsstring
  lc_grid_label :: jsstring
  lc_grid_halo :: jsstring
  lc_relief_shadow :: jsstring
  lc_relief_highlight :: jsstring
  lc_relief_accent :: jsstring

fun MAP_LAYER_COLORS :: "brightness \<Rightarrow> layer_colors" where
  "MAP_LAYER_COLORS Dark = \<lparr>lc_military = ''#a3e635'', lc_airport = ''#22d3ee'', lc_fire = ''#facc15'',
     lc_grid = ''rgba(255,255,255,0.22)'', lc_grid_label = ''#a3a3a3'', lc_grid_halo = ''#0a0a0a'',
     lc_relief_shadow = ''rgba(0,0,0,0.7)'', lc_relief_highlight = ''rgba(255,255,255,0.14)'', lc_relief_accent = ''rgba(0,0,0,0.25)''\<rparr>"
| "MAP_LAYER_COLORS Light = \<lparr>lc_military = ''#4d7c0f'', lc_airport = ''#0e7490'', lc_fire = ''#ca8a04'',
     lc_grid = ''rgba(0,0,0,0.25)'', lc_grid_label = ''#525252'', lc_grid_halo = ''#ffffff'',
     lc_relief_shadow = ''rgba(64,56,48,0.4)'', lc_relief_highlight = ''rgba(255,255,255,0.45)'', lc_relief_accent = ''rgba(64,56,48,0.15)''\<rparr>"

definition role_metadata :: "jsstring \<Rightarrow> members" where
  "role_metadata role = [(''vidit:role'', JStr role)]"

definition area_layer :: "jsstring \<Rightarrow> jsstring \<Rightarrow> jsstring \<Rightarrow> json \<Rightarrow> members \<Rightarrow> map_layer" where
  "area_layer i kind source_layer flt paint =
     \<lparr>ml_id = i, ml_type = kind, ml_source = Some VECTOR_SOURCE, ml_source_layer = Some source_layer, ml_filter = Some flt,
      ml_layout = None, ml_paint = Some paint, ml_metadata = Some (role_metadata ''military-airport''), ml_minzoom = None\<rparr>"

definition LINES :: json where
  "LINES = JArr [JStr ''match'', JArr [JStr ''geometry-type''], JArr [JStr ''LineString'', JStr ''MultiLineString''], JBool True, JBool False]"

definition class_is :: "jsstring \<Rightarrow> json" where
  "class_is c = JArr [JStr ''=='', get ''class'', JStr c]"

definition runway_width :: "rat \<Rightarrow> rat \<Rightarrow> json" where
  "runway_width runway other = JArr [JStr ''match'', get ''class'', JStr ''runway'', lit runway, lit other]"

definition military_airport_layers :: "brightness \<Rightarrow> map_layer list" where
  "military_airport_layers b =
     (let military = JStr (lc_military (MAP_LAYER_COLORS b)); airport = JStr (lc_airport (MAP_LAYER_COLORS b));
          outline = JArr [JStr ''interpolate'', JArr [JStr ''linear''], JArr [JStr ''zoom''], lit 10, lit (3/4), lit 16, lit (3/2)]
      in [area_layer ''vidit-military-fill'' ''fill'' ''landuse'' (class_is ''military'')
            [(''fill-color'', military), (''fill-opacity'', lit (12/100))],
          area_layer ''vidit-military-outline'' ''line'' ''landuse'' (class_is ''military'')
            [(''line-color'', military), (''line-opacity'', lit (7/10)), (''line-width'', outline)],
          area_layer ''vidit-airport-fill'' ''fill'' ''aeroway'' (class_is ''aerodrome'')
            [(''fill-color'', airport), (''fill-opacity'', lit (12/100))],
          area_layer ''vidit-airport-outline'' ''line'' ''aeroway'' (class_is ''aerodrome'')
            [(''line-color'', airport), (''line-opacity'', lit (7/10)), (''line-width'', outline)],
          (area_layer ''vidit-runway'' ''line'' ''aeroway''
            (JArr [JStr ''all'', LINES, JArr [JStr ''match'', get ''class'', JArr [JStr ''runway'', JStr ''taxiway''], JBool True, JBool False]])
            [(''line-color'', airport), (''line-opacity'', lit (85/100)),
             (''line-width'', JArr [JStr ''interpolate'', JArr [JStr ''exponential'', lit (3/2)], JArr [JStr ''zoom''],
               lit 10, runway_width (3/2) (1/2), lit 17, runway_width 16 4])])
          \<lparr>ml_layout := Some [(''line-cap'', JStr ''round'')]\<rparr>])"

definition attribution_link :: "jsstring \<Rightarrow> jsstring \<Rightarrow> jsstring" where
  "attribution_link href label = ''<a href='' @ dquote # href @ dquote # '' target='' @ dquote # ''_blank'' @ dquote # ''>'' @ label @ ''</a>''"

definition RELIEF_SOURCE_SPEC :: json where
  "RELIEF_SOURCE_SPEC = JObj [(''type'', JStr ''raster-dem''),
     (''tiles'', JArr [JStr ''https://s3.amazonaws.com/elevation-tiles-prod/terrarium/{z}/{x}/{y}.png'']),
     (''encoding'', JStr ''terrarium''), (''tileSize'', lit 256), (''maxzoom'', lit 15),
     (''attribution'', JStr (attribution_link ''https://registry.opendata.aws/terrain-tiles'' ''Terrain Tiles'' @
       '': USGS, NOAA, Copernicus EU-DEM and '' @
       attribution_link ''https://github.com/tilezen/joerd/blob/master/docs/attribution.md'' ''others''))]"

definition LAND_SOURCE_LAYERS :: "jsstring list" where
  "LAND_SOURCE_LAYERS = [''water'', ''landcover'', ''landuse'', ''park'']"

definition relief_layer :: "brightness \<Rightarrow> map_layer" where
  "relief_layer b = \<lparr>ml_id = ''vidit-relief'', ml_type = ''hillshade'', ml_source = Some RELIEF_SOURCE, ml_source_layer = None,
     ml_filter = None, ml_layout = None,
     ml_paint = Some [(''hillshade-exaggeration'', lit (35/100)),
       (''hillshade-shadow-color'', JStr (lc_relief_shadow (MAP_LAYER_COLORS b))),
       (''hillshade-highlight-color'', JStr (lc_relief_highlight (MAP_LAYER_COLORS b))),
       (''hillshade-accent-color'', JStr (lc_relief_accent (MAP_LAYER_COLORS b)))],
     ml_metadata = Some (role_metadata ''relief''), ml_minzoom = None\<rparr>"

definition after_layers :: "jsstring list \<Rightarrow> map_layer list \<Rightarrow> nat" where
  "after_layers source_layers layers = fst (foldl (\<lambda>(at', i) layer.
     (if (case ml_source_layer layer of Some s \<Rightarrow> s | None \<Rightarrow> []) \<in> set source_layers then i + 1 else at', i + 1)) (0, 0) layers)"

definition splice_in :: "nat \<Rightarrow> 'a list \<Rightarrow> 'a list \<Rightarrow> 'a list" where
  "splice_in n new xs = take n xs @ new @ drop n xs"

text \<open>\<open>base\<close> is the style file of the brightness.\<close>

definition drawn_layers :: "brightness \<Rightarrow> map_style \<Rightarrow> map_layer list" where
  "drawn_layers b base =
     (let layers = st_layers base;
          layers = splice_in (after_layers LAND_SOURCE_LAYERS layers) [relief_layer b] layers
      in splice_in (after_layers [''aeroway''] layers) (military_airport_layers b) layers)"

definition build_vidit_style :: "brightness \<Rightarrow> map_style \<Rightarrow> basemap_options \<Rightarrow> map_style" where
  "build_vidit_style b base options =
     base\<lparr>st_sources := put_member (st_sources base) RELIEF_SOURCE RELIEF_SOURCE_SPEC,
       st_layers := map (adjust_layer options) (drawn_layers b base)\<rparr>"

section \<open>Presets\<close>

definition GLYPHS :: jsstring where
  "GLYPHS = ''/map-glyphs/{fontstack}/{range}.pbf''"

definition BLANK_STYLE :: map_style where
  "BLANK_STYLE = \<lparr>st_name = None, st_glyphs = Some GLYPHS, st_sprite = None, st_projection = None, st_sources = [], st_layers = []\<rparr>"

definition raster_style :: "jsstring \<Rightarrow> jsstring \<Rightarrow> members \<Rightarrow> map_style" where
  "raster_style name i source =
     \<lparr>st_name = Some name, st_glyphs = Some GLYPHS, st_sprite = None, st_projection = None, st_sources = [(i, JObj source)],
      st_layers = [\<lparr>ml_id = i, ml_type = ''raster'', ml_source = Some i, ml_source_layer = None, ml_filter = None,
        ml_layout = None, ml_paint = None, ml_metadata = None, ml_minzoom = None\<rparr>]\<rparr>"

definition TERRAIN_STYLE :: map_style where
  "TERRAIN_STYLE = raster_style ''OpenTopoMap'' ''opentopomap''
     [(''type'', JStr ''raster''),
      (''tiles'', JArr (map (\<lambda>s. JStr (''https://'' @ s @ ''.tile.opentopomap.org/{z}/{x}/{y}.png'')) [''a'', ''b'', ''c''])),
      (''tileSize'', lit 256), (''maxzoom'', lit 17),
      (''attribution'', JStr (''Map data: &copy; '' @ attribution_link ''https://www.openstreetmap.org/copyright'' ''OpenStreetMap'' @
        '' contributors, '' @ attribution_link ''http://viewfinderpanoramas.org'' ''SRTM'' @ '' | Map style: &copy; '' @
        attribution_link ''https://opentopomap.org'' ''OpenTopoMap'' @ '' ('' @
        attribution_link ''https://creativecommons.org/licenses/by-sa/3.0/'' ''CC-BY-SA'' @ '')''))]"

definition SATELLITE_STYLE :: map_style where
  "SATELLITE_STYLE = raster_style ''Sentinel-2 cloudless 2016'' ''s2cloudless-2016''
     [(''type'', JStr ''raster''),
      (''tiles'', JArr [JStr ''https://tiles.maps.eox.at/wmts/1.0.0/s2cloudless_3857/default/GoogleMapsCompatible/{z}/{y}/{x}.jpg'']),
      (''tileSize'', lit 256), (''maxzoom'', lit 14),
      (''attribution'', JStr (attribution_link ''https://s2maps.eu'' ''Sentinel-2 cloudless 2016'' @
        '' by EOX IT Services GmbH (Contains modified Copernicus Sentinel data 2016), '' @
        attribution_link ''https://creativecommons.org/licenses/by/4.0/'' ''CC BY 4.0''))]"

datatype preset = Vidit_dark | Vidit_light | Streets | Terrain | Satellite

text \<open>The style files: the two Vidit styles by brightness, and the streets.\<close>

record style_files =
  sf_vidit :: "brightness \<Rightarrow> map_style"
  sf_streets :: map_style

record basemap_preset =
  bp_brightness :: brightness
  bp_adjustable :: bool
  bp_style :: "basemap_options \<Rightarrow> map_style"

fun BASEMAP_PRESETS :: "style_files \<Rightarrow> preset \<Rightarrow> basemap_preset" where
  "BASEMAP_PRESETS files Vidit_dark =
     \<lparr>bp_brightness = Dark, bp_adjustable = True, bp_style = build_vidit_style Dark (sf_vidit files Dark)\<rparr>"
| "BASEMAP_PRESETS files Vidit_light =
     \<lparr>bp_brightness = Light, bp_adjustable = True, bp_style = build_vidit_style Light (sf_vidit files Light)\<rparr>"
| "BASEMAP_PRESETS files Streets = \<lparr>bp_brightness = Light, bp_adjustable = False, bp_style = (\<lambda>_. sf_streets files)\<rparr>"
| "BASEMAP_PRESETS files Terrain = \<lparr>bp_brightness = Light, bp_adjustable = False, bp_style = (\<lambda>_. TERRAIN_STYLE)\<rparr>"
| "BASEMAP_PRESETS files Satellite = \<lparr>bp_brightness = Dark, bp_adjustable = False, bp_style = (\<lambda>_. SATELLITE_STYLE)\<rparr>"

text \<open>\<open>None\<close> is the auto preset.\<close>

definition resolve_preset :: "preset option \<Rightarrow> brightness \<Rightarrow> preset" where
  "resolve_preset i theme = (case i of Some p \<Rightarrow> p | None \<Rightarrow> (case theme of Light \<Rightarrow> Vidit_light | Dark \<Rightarrow> Vidit_dark))"

section \<open>Swapping the basemap\<close>

definition vidit_font :: "jsstring \<Rightarrow> jsstring" where
  "vidit_font font = (if list_ex (js_includes (js_lower font)) [''medium'', ''semibold'', ''bold'', ''black'']
     then ''Montserrat Medium'' else ''Montserrat Regular'')"

text \<open>A font that is no string reads as its text.\<close>

definition vidit_glyph_layer :: "map_layer \<Rightarrow> map_layer" where
  "vidit_glyph_layer layer = (case ml_layout layer of
       None \<Rightarrow> layer
     | Some layout \<Rightarrow> (case map_of layout ''text-font'' of
           Some (JArr (f # fs)) \<Rightarrow>
             layer\<lparr>ml_layout := Some (put_member layout ''text-font''
               (JArr [JStr (vidit_font (case f of JStr s \<Rightarrow> s | v \<Rightarrow> json_stringify v))]))\<rparr>
         | _ \<Rightarrow> layer))"

definition with_vidit_glyphs :: "map_style \<Rightarrow> map_style" where
  "with_vidit_glyphs style = style\<lparr>st_glyphs := Some GLYPHS, st_layers := map vidit_glyph_layer (st_layers style)\<rparr>"

text \<open>\<open>absolute\<close> resolves a path against the page's origin.\<close>

definition with_absolute_sprite :: "(jsstring \<Rightarrow> jsstring) \<Rightarrow> map_style \<Rightarrow> map_style" where
  "with_absolute_sprite absolute style = (case st_sprite style of
       Some (JStr s) \<Rightarrow> if starts_with s ''/'' then style\<lparr>st_sprite := Some (JStr (absolute s))\<rparr> else style
     | _ \<Rightarrow> style)"

definition kind_of_source :: "json \<Rightarrow> jsstring" where
  "kind_of_source source = (case is_string (field source ''type'') of Some t \<Rightarrow> t | None \<Rightarrow> [])"

definition overlay_sources :: "map_style \<Rightarrow> map_style \<Rightarrow> members" where
  "overlay_sources previous style =
     filter (\<lambda>(i, source). is_overlay_source i (kind_of_source source) \<and> i \<notin> fst ` set (st_sources style)) (st_sources previous)"

definition carry_overlays :: "(jsstring \<Rightarrow> jsstring) \<Rightarrow> map_style option \<Rightarrow> map_style \<Rightarrow> map_style" where
  "carry_overlays absolute previous' next' =
     (let style = with_vidit_glyphs (with_absolute_sprite absolute next') in
      case previous' of
        None \<Rightarrow> style
      | Some previous \<Rightarrow>
          (let overlays = overlay_sources previous style in
           style\<lparr>st_projection := (case st_projection previous of Some p \<Rightarrow> Some p | None \<Rightarrow> st_projection style),
             st_sources := fold (\<lambda>(i, source) m. put_member m i source) overlays (st_sources style),
             st_layers := st_layers style @
               filter (\<lambda>l. case ml_source l of Some s \<Rightarrow> s \<in> fst ` set overlays | None \<Rightarrow> False) (st_layers previous)\<rparr>))"

section \<open>What an option changes\<close>

definition visible :: "map_layer \<Rightarrow> bool" where
  "visible layer = (case ml_layout layer of Some l \<Rightarrow> map_of l ''visibility'' \<noteq> Some (JStr ''none'') | None \<Rightarrow> True)"

definition role_hidden :: "basemap_options \<Rightarrow> map_layer \<Rightarrow> bool" where
  "role_hidden options layer = (case role_of layer of Some role \<Rightarrow> hidden_role options role | None \<Rightarrow> False)"

lemma not_hidden_Nil: "\<not> hidden_role options []"
  by (simp add: hidden_role_def ROAD_ROLES_def)

lemma adjust_layer_keeps:
  "ml_id (adjust_layer options l) = ml_id l" "ml_type (adjust_layer options l) = ml_type l"
  "ml_source (adjust_layer options l) = ml_source l" "ml_source_layer (adjust_layer options l) = ml_source_layer l"
  "ml_metadata (adjust_layer options l) = ml_metadata l"
  by (simp_all add: adjust_layer_def Let_def split: option.split)

lemma adjust_layer_visible: "visible (adjust_layer options l) \<longleftrightarrow> visible l \<and> \<not> role_hidden options l"
proof (cases "role_of l")
  case None
  then show ?thesis by (simp add: adjust_layer_def role_hidden_def)
next
  case (Some role)
  show ?thesis
  proof (cases "role = []")
    case True
    then show ?thesis using Some by (simp add: adjust_layer_def role_hidden_def not_hidden_Nil)
  next
    case False
    then show ?thesis using Some
      by (simp add: adjust_layer_def role_hidden_def Let_def visible_def map_of_put_member split: option.split)
  qed
qed

text \<open>
  An option only draws or hides: whatever the options, a Vidit style has the same sources and the same layers in the
  same order, each with its type, source and role, and the visible ones are those whose role the options keep.
\<close>

theorem options_draw_what_they_say:
  "st_sources (build_vidit_style b base o1) = st_sources (build_vidit_style b base o2) \<and>
   list_all2 (\<lambda>l m. ml_id l = ml_id m \<and> ml_type l = ml_type m \<and> ml_source l = ml_source m \<and>
       ml_source_layer l = ml_source_layer m \<and> ml_metadata l = ml_metadata m)
     (st_layers (build_vidit_style b base o1)) (st_layers (build_vidit_style b base o2)) \<and>
   map ml_id (filter visible (st_layers (build_vidit_style b base o1))) =
     map ml_id (filter (\<lambda>l. visible l \<and> \<not> role_hidden o1 l) (drawn_layers b base))"
proof -
  have "list_all2 (\<lambda>l m. ml_id l = ml_id m \<and> ml_type l = ml_type m \<and> ml_source l = ml_source m \<and>
       ml_source_layer l = ml_source_layer m \<and> ml_metadata l = ml_metadata m) (map (adjust_layer o1) ls) (map (adjust_layer o2) ls)" for ls
    by (induction ls) (simp_all add: adjust_layer_keeps)
  moreover have "map ml_id (filter visible (map (adjust_layer o1) ls)) = map ml_id (filter (\<lambda>l. visible l \<and> \<not> role_hidden o1 l) ls)" for ls
    by (induction ls) (simp_all add: adjust_layer_keeps adjust_layer_visible)
  ultimately show ?thesis by (simp add: build_vidit_style_def)
qed

section \<open>What a swap keeps\<close>

definition overlays_of :: "map_style \<Rightarrow> members" where
  "overlays_of m = filter (\<lambda>(i, source). is_overlay_source i (kind_of_source source)) (st_sources m)"

definition drawn_from :: "jsstring set \<Rightarrow> map_layer \<Rightarrow> bool" where
  "drawn_from ids l \<longleftrightarrow> (case ml_source l of Some s \<Rightarrow> s \<in> ids | None \<Rightarrow> False)"

definition overlay_layers_of :: "map_style \<Rightarrow> map_layer list" where
  "overlay_layers_of m = filter (drawn_from (fst ` set (overlays_of m))) (st_layers m)"

text \<open>A basemap: no overlay among its sources, layers drawn from its own sources, no projection, and no source id of
  an overlay on the map.\<close>

definition plain_basemap :: "map_style \<Rightarrow> map_style \<Rightarrow> bool" where
  "plain_basemap m b \<longleftrightarrow> distinct (map fst (st_sources b)) \<and> overlays_of b = [] \<and>
     list_all (\<lambda>l. case ml_source l of Some s \<Rightarrow> s \<in> fst ` set (st_sources b) | None \<Rightarrow> True) (st_layers b) \<and>
     st_projection b = None \<and> fst ` set (st_sources b) \<inter> fst ` set (overlays_of m) = {}"

lemma prepared_style:
  "st_sources (with_vidit_glyphs (with_absolute_sprite absolute b)) = st_sources b"
  "st_projection (with_vidit_glyphs (with_absolute_sprite absolute b)) = st_projection b"
  "st_layers (with_vidit_glyphs (with_absolute_sprite absolute b)) = map vidit_glyph_layer (st_layers b)"
  by (simp_all add: with_vidit_glyphs_def with_absolute_sprite_def split: option.split json.split)

lemma ml_source_glyph [simp]: "ml_source (vidit_glyph_layer l) = ml_source l"
  by (auto simp: vidit_glyph_layer_def split: option.split json.split list.split)

lemma fold_put_new:
  "distinct (map fst kvs) \<Longrightarrow> fst ` set kvs \<inter> fst ` set m = {} \<Longrightarrow> fold (\<lambda>(i, s) m. put_member m i s) kvs m = m @ kvs"
proof (induction kvs arbitrary: m)
  case (Cons kv kvs)
  obtain i s where kv: "kv = (i, s)" by (cases kv)
  have "put_member m i s = m @ [(i, s)]" using Cons.prems kv by (intro put_member_new) auto
  then show ?case using Cons.IH [of "m @ [(i, s)]"] Cons.prems kv by auto
qed simp

lemma carry_plain:
  assumes "distinct (map fst (st_sources m))" "plain_basemap m b"
  shows "st_sources (carry_overlays absolute (Some m) b) = st_sources b @ overlays_of m"
    "st_layers (carry_overlays absolute (Some m) b) = map vidit_glyph_layer (st_layers b) @ overlay_layers_of m"
    "st_projection (carry_overlays absolute (Some m) b) = st_projection m"
    "st_name (carry_overlays absolute (Some m) b) = st_name b" "st_glyphs (carry_overlays absolute (Some m) b) = Some GLYPHS"
    "st_sprite (carry_overlays absolute (Some m) b) = st_sprite (with_absolute_sprite absolute b)"
proof -
  have disj: "fst ` set (overlays_of m) \<inter> fst ` set (st_sources b) = {}" using assms(2) by (auto simp: plain_basemap_def)
  then have o: "overlay_sources m (with_vidit_glyphs (with_absolute_sprite absolute b)) = overlays_of m"
    unfolding overlay_sources_def overlays_of_def prepared_style by (intro filter_cong) force+
  have "distinct (map fst (overlays_of m))" using assms(1) by (simp add: overlays_of_def distinct_map_filter)
  then show "st_sources (carry_overlays absolute (Some m) b) = st_sources b @ overlays_of m"
    using disj by (simp add: carry_overlays_def Let_def o prepared_style fold_put_new)
  show "st_layers (carry_overlays absolute (Some m) b) = map vidit_glyph_layer (st_layers b) @ overlay_layers_of m"
    unfolding carry_overlays_def Let_def option.case o overlay_layers_of_def drawn_from_def by (simp add: prepared_style)
  show "st_projection (carry_overlays absolute (Some m) b) = st_projection m"
    using assms(2) by (simp add: carry_overlays_def Let_def prepared_style plain_basemap_def split: option.split)
  show "st_name (carry_overlays absolute (Some m) b) = st_name b" "st_glyphs (carry_overlays absolute (Some m) b) = Some GLYPHS"
    "st_sprite (carry_overlays absolute (Some m) b) = st_sprite (with_absolute_sprite absolute b)"
    by (simp_all add: carry_overlays_def Let_def with_vidit_glyphs_def with_absolute_sprite_def split: option.split json.split)
qed

lemma swap_keeps_overlays:
  assumes "distinct (map fst (st_sources m))" "plain_basemap m b"
  shows "overlays_of (carry_overlays absolute (Some m) b) = overlays_of m"
    "overlay_layers_of (carry_overlays absolute (Some m) b) = overlay_layers_of m"
    "distinct (map fst (st_sources (carry_overlays absolute (Some m) b)))"
proof -
  note carry = carry_plain [OF assms, of absolute]
  have "overlays_of b = []" using assms(2) by (simp add: plain_basemap_def)
  then show over: "overlays_of (carry_overlays absolute (Some m) b) = overlays_of m"
    unfolding overlays_of_def [of "carry_overlays absolute (Some m) b"] carry(1) by (simp add: overlays_of_def)
  have "filter (drawn_from (fst ` set (overlays_of m))) (map vidit_glyph_layer (st_layers b)) = []"
  proof -
    have "\<not> drawn_from (fst ` set (overlays_of m)) (vidit_glyph_layer l)" if "l \<in> set (st_layers b)" for l
      using assms(2) that by (auto simp: plain_basemap_def list_all_iff drawn_from_def split: option.splits)
    then show ?thesis by (auto simp: filter_empty_conv)
  qed
  then show "overlay_layers_of (carry_overlays absolute (Some m) b) = overlay_layers_of m"
    unfolding overlay_layers_of_def [of "carry_overlays absolute (Some m) b"] over carry(2) by (simp add: overlay_layers_of_def)
  have "distinct (map fst (overlays_of m))" using assms(1) by (simp add: overlays_of_def distinct_map_filter)
  then show "distinct (map fst (st_sources (carry_overlays absolute (Some m) b)))"
    using assms(2) by (auto simp: carry(1) plain_basemap_def)
qed

text \<open>
  C33. Swapping the basemap leaves no trace but the last: whatever basemaps were on show before, the overlays and their
  layers stand over the current one, whole and in their order, under the map's own projection, as if it had been the
  only swap.
\<close>

theorem swaps_keep_the_overlays:
  assumes "distinct (map fst (st_sources m))" "\<forall>b \<in> set (bs @ [b]). plain_basemap m b"
  shows "let after = foldl (\<lambda>m b. carry_overlays absolute (Some m) b) m (bs @ [b]) in
    after = carry_overlays absolute (Some m) b \<and> st_sources after = st_sources b @ overlays_of m \<and>
    st_layers after = map vidit_glyph_layer (st_layers b) @ overlay_layers_of m \<and> st_projection after = st_projection m"
proof -
  define start where "start = foldl (\<lambda>m b. carry_overlays absolute (Some m) b) m bs"
  have "overlays_of start = overlays_of m \<and> overlay_layers_of start = overlay_layers_of m \<and> st_projection start = st_projection m \<and>
      distinct (map fst (st_sources start))"
    unfolding start_def using assms(2)
  proof (induction bs rule: rev_induct)
    case (snoc c bs)
    let ?old = "foldl (\<lambda>m b. carry_overlays absolute (Some m) b) m bs"
    have old: "overlays_of ?old = overlays_of m" "overlay_layers_of ?old = overlay_layers_of m" "st_projection ?old = st_projection m"
      "distinct (map fst (st_sources ?old))" using snoc by auto
    have "plain_basemap ?old c" using snoc.prems old(1) by (simp add: plain_basemap_def)
    with carry_plain(3) [OF old(4) this] swap_keeps_overlays [OF old(4) this] old show ?case by simp
  qed (use assms(1) in simp)
  then have start: "overlays_of start = overlays_of m" "overlay_layers_of start = overlay_layers_of m"
    "st_projection start = st_projection m" "distinct (map fst (st_sources start))" by blast+
  have b: "plain_basemap m b" "plain_basemap start b" using assms(2) start(1) by (simp_all add: plain_basemap_def)
  note once = carry_plain [OF assms(1) b(1), of absolute] and after = carry_plain [OF start(4) b(2), of absolute]
  have "carry_overlays absolute (Some start) b = carry_overlays absolute (Some m) b"
    by (rule map_style.equality) (simp_all add: once after start)
  then show ?thesis using once by (simp add: start_def [symmetric] Let_def)
qed

theorem swaps_keep_the_overlays_witness:
  "let m = BLANK_STYLE\<lparr>st_sources := [(''events'', JObj [(''type'', JStr ''geojson'')])]\<rparr>;
       after = foldl (\<lambda>m b. carry_overlays id (Some m) b) m ([TERRAIN_STYLE] @ [SATELLITE_STYLE])
   in after = carry_overlays id (Some m) SATELLITE_STYLE \<and>
      st_sources after = st_sources SATELLITE_STYLE @ overlays_of m \<and>
      st_layers after = map vidit_glyph_layer (st_layers SATELLITE_STYLE) @ overlay_layers_of m \<and>
      st_projection after = st_projection m"
  unfolding Let_def
  by (rule swaps_keep_the_overlays [unfolded Let_def])
    (simp_all add: BLANK_STYLE_def plain_basemap_def TERRAIN_STYLE_def SATELLITE_STYLE_def raster_style_def overlays_of_def
      is_overlay_source_def kind_of_source_def field_def DAILY_IMAGERY_SOURCE_def)

section \<open>The self-hosted files\<close>

record map_assets =
  ma_planet :: jsstring
  ma_sprite :: jsstring
  ma_natural_earth :: jsstring
  ma_relief :: jsstring

definition asset_urls :: "map_assets \<Rightarrow> (jsstring \<times> jsstring) list" where
  "asset_urls assets = [(VECTOR_SOURCE, ma_planet assets), (NATURAL_EARTH_SOURCE, ma_natural_earth assets), (RELIEF_SOURCE, ma_relief assets)]"

definition hosted_source :: "map_assets \<Rightarrow> jsstring \<Rightarrow> json \<Rightarrow> json" where
  "hosted_source assets i source = (case map_of (asset_urls assets) i of
       None \<Rightarrow> source
     | Some u \<Rightarrow> if field source ''tiles'' = None \<and> field source ''url'' = None then source
         else JObj (put_member (filter (\<lambda>(k, v). k \<notin> {''tiles'', ''url'', ''maxzoom''}) (spread source)) ''url'' (JStr u)))"

text \<open>A sprite is set only where the style has one; the empty text counts as none.\<close>

definition apply_map_assets :: "map_style \<Rightarrow> map_assets option \<Rightarrow> map_style" where
  "apply_map_assets style assets' = (case assets' of
       None \<Rightarrow> style
     | Some assets \<Rightarrow> style\<lparr>st_sources := map (\<lambda>(i, source). (i, hosted_source assets i source)) (st_sources style),
         st_sprite := (case st_sprite style of None \<Rightarrow> None | Some v \<Rightarrow> if v = JNull \<or> v = JStr [] then Some v else Some (JStr (ma_sprite assets)))\<rparr>)"

text \<open>\<open>/^[\w@.-]+(\/[\w@.-]+)*$/\<close>, and no segment \<open>..\<close>\<close>

definition key_char :: "char \<Rightarrow> bool" where
  "key_char c \<longleftrightarrow> is_alnum c \<or> c \<in> set ''_@.-''"

definition safe_key :: "jsstring \<Rightarrow> bool" where
  "safe_key key \<longleftrightarrow> list_all (\<lambda>p. p \<noteq> [] \<and> list_all key_char p) (split_char CHR ''/'' key) \<and> ''..'' \<notin> set (split_char CHR ''/'' key)"

definition key_of :: "json \<Rightarrow> jsstring \<Rightarrow> jsstring + jsstring" where
  "key_of latest f = (case is_string (Option.bind (field latest f) (\<lambda>entry. field entry ''key'')) of
       Some key \<Rightarrow> if safe_key key then Inr key else Inl (''latest.json: no valid '' @ f @ ''.key'')
     | None \<Rightarrow> Inl (''latest.json: no valid '' @ f @ ''.key''))"

definition is_object :: "json \<Rightarrow> bool" where
  "is_object v = (case v of JObj _ \<Rightarrow> True | JArr _ \<Rightarrow> True | _ \<Rightarrow> False)"

text \<open>The fields are read in this order, and the first that is missing or unsafe throws.\<close>

definition parse_latest :: "jsstring \<Rightarrow> json \<Rightarrow> jsstring + map_assets" where
  "parse_latest base latest =
     (if \<not> is_object latest then Inl ''latest.json: not an object''
      else (case key_of latest ''planet'' of Inl e \<Rightarrow> Inl e | Inr planet \<Rightarrow>
       (case key_of latest ''sprite'' of Inl e \<Rightarrow> Inl e | Inr sprite \<Rightarrow>
       (case key_of latest ''natural_earth'' of Inl e \<Rightarrow> Inl e | Inr earth \<Rightarrow>
       (case key_of latest ''relief'' of Inl e \<Rightarrow> Inl e | Inr relief \<Rightarrow>
         Inr \<lparr>ma_planet = ''pmtiles://'' @ base @ ''/'' @ planet, ma_sprite = base @ ''/'' @ sprite,
              ma_natural_earth = ''pmtiles://'' @ base @ ''/'' @ earth, ma_relief = ''pmtiles://'' @ base @ ''/'' @ relief\<rparr>)))))"

text \<open>An answer is its status and its parsed body; the warning is the console's.\<close>

definition fetch_map_assets :: "jsstring \<Rightarrow> (int \<times> json option) option \<Rightarrow> map_assets option" where
  "fetch_map_assets base answer = (case answer of
       Some (status, Some body) \<Rightarrow> if 200 \<le> status \<and> status \<le> 299
         then (case parse_latest base body of Inr assets \<Rightarrow> Some assets | Inl _ \<Rightarrow> None) else None
     | _ \<Rightarrow> None)"

definition base_url :: "jsstring option \<Rightarrow> jsstring option" where
  "base_url env = (case env of None \<Rightarrow> None
     | Some v \<Rightarrow> (let u = rev (dropWhile (\<lambda>c. c = CHR ''/'') (rev (js_trim v))) in if u = [] then None else Some u))"

definition asset_at :: "jsstring \<Rightarrow> jsstring \<Rightarrow> bool" where
  "asset_at base u \<longleftrightarrow> (\<exists>key. (u = base @ ''/'' @ key \<or> u = ''pmtiles://'' @ base @ ''/'' @ key) \<and> safe_key key)"

lemma key_of_safe: "key_of latest f = Inr key \<Longrightarrow> safe_key key"
  by (auto simp: key_of_def split: option.splits if_splits)

text \<open>
  Whatever \<open>latest.json\<close> says, the files a map draws from lie under the base URL: a read gives no file, or four under
  it, each path of plain segments that never leaves it.
\<close>

theorem hosted_files_stay_under_the_base:
  "case fetch_map_assets base answer of None \<Rightarrow> True
   | Some a \<Rightarrow> asset_at base (ma_planet a) \<and> asset_at base (ma_sprite a) \<and> asset_at base (ma_natural_earth a) \<and> asset_at base (ma_relief a)"
  by (auto simp: fetch_map_assets_def parse_latest_def asset_at_def dest!: key_of_safe split: option.splits sum.splits if_splits)

text \<open>
  C1. The self-hosted files replace exactly the three public sources: every other source and every layer stays, and a
  replaced source keeps its members but for its tiles, its address and its zoom limit.
\<close>

theorem hosted_sources_replace_the_public_ones:
  fixes assets
  assumes "(i, source) \<in> set (st_sources style)"
  defines "hosted \<equiv> hosted_source assets i source"
  shows "(i, hosted) \<in> set (st_sources (apply_map_assets style (Some assets))) \<and>
    st_layers (apply_map_assets style (Some assets)) = st_layers style \<and>
    (hosted = source \<or>
     (\<exists>u. map_of (asset_urls assets) i = Some u \<and> field hosted ''url'' = Some (JStr u) \<and> field hosted ''tiles'' = None \<and>
        field hosted ''maxzoom'' = None \<and>
        (\<forall>k. k \<in> {''url'', ''tiles'', ''maxzoom''} \<or> field hosted k = map_of (spread source) k)))"
proof -
  define K where "K = {''tiles'', ''url'', ''maxzoom''}"
  have kept: "map_of (filter (\<lambda>(k, v). k \<notin> K) kvs) k = (if k \<in> K then None else map_of kvs k)" for kvs :: members and k
    by (induction kvs) auto
  have cases: "hosted = source \<or> (\<exists>u. map_of (asset_urls assets) i = Some u \<and>
      hosted = JObj (put_member (filter (\<lambda>(k, v). k \<notin> K) (spread source)) ''url'' (JStr u)))"
    unfolding hosted_def hosted_source_def K_def by (simp split: option.split)
  have "field (JObj (put_member (filter (\<lambda>(k, v). k \<notin> K) (spread source)) ''url'' (JStr u))) k =
      (if k = ''url'' then Some (JStr u) else if k \<in> K then None else map_of (spread source) k)" for u k
    unfolding field_def by (simp add: map_of_put_member kept)
  with cases have "hosted = source \<or>
     (\<exists>u. map_of (asset_urls assets) i = Some u \<and> field hosted ''url'' = Some (JStr u) \<and> field hosted ''tiles'' = None \<and>
        field hosted ''maxzoom'' = None \<and> (\<forall>k. k \<in> {''url'', ''tiles'', ''maxzoom''} \<or> field hosted k = map_of (spread source) k))"
    unfolding K_def by auto
  moreover have "(i, hosted) \<in> set (st_sources (apply_map_assets style (Some assets)))"
    using assms(1) by (force simp: apply_map_assets_def hosted_def)
  ultimately show ?thesis by (simp add: apply_map_assets_def)
qed

end
