(* ===== verification/Request_Hooks.thy ===== *)
theory Request_Hooks
  imports Api_Errors Js_Text
begin

text \<open>
  The hooks around one request or one write: \<open>hooks/useApiResource.ts\<close>, \<open>hooks/useMutation.ts\<close>,
  \<open>hooks/useConfirmAction.ts\<close> and the blank fields of \<open>hooks/useIncompleteForm.ts\<close>. Each hook is a
  record of its state and refs; an event is followed by the render it causes.
\<close>

section \<open>A resource\<close>

record 'd fetch_result =
  fr_data :: "'d option"
  fr_error :: "readable_error option"
  fr_path :: "jsstring option"

definition EMPTY :: "'d fetch_result" where
  "EMPTY = \<lparr>fr_data = None, fr_error = None, fr_path = None\<rparr>"

text \<open>\<open>ar_flight\<close> is the request not aborted, by the path it reads.\<close>

record 'd api_resource =
  ar_path :: "jsstring option"
  ar_generation :: nat
  ar_result :: "'d fetch_result"
  ar_flight :: "jsstring option"

definition resource_mount :: "jsstring option \<Rightarrow> 'd api_resource" where
  "resource_mount path = \<lparr>ar_path = path, ar_generation = 0, ar_result = EMPTY, ar_flight = path\<rparr>"

text \<open>A render with a path: the adjustment, then the effect when the path or the generation changed.\<close>

definition resource_effect :: "nat \<Rightarrow> jsstring option \<Rightarrow> 'd api_resource \<Rightarrow> 'd api_resource" where
  "resource_effect generation path st =
     (if path \<noteq> ar_path st \<or> generation \<noteq> ar_generation st
      then st\<lparr>ar_path := path, ar_generation := generation, ar_flight := path\<rparr> else st)"

definition resource_render :: "jsstring option \<Rightarrow> 'd api_resource \<Rightarrow> 'd api_resource" where
  "resource_render path st = resource_effect (ar_generation st) path
     (if path \<noteq> ar_path st \<and> path = None then st\<lparr>ar_result := EMPTY\<rparr> else st)"

definition resource_refetch :: "'d api_resource \<Rightarrow> 'd api_resource" where
  "resource_refetch st = resource_effect (ar_generation st + 1) (ar_path st)
     (st\<lparr>ar_result := (if fr_error (ar_result st) = None then ar_result st else EMPTY)\<rparr>)"

definition resource_lands :: "thrown + 'd \<Rightarrow> 'd api_resource \<Rightarrow> 'd api_resource" where
  "resource_lands answer st = (case ar_flight st of
       None \<Rightarrow> st
     | Some p \<Rightarrow> st\<lparr>ar_flight := None, ar_result := (case answer of
           Inr d \<Rightarrow> \<lparr>fr_data = Some d, fr_error = None, fr_path = Some p\<rparr>
         | Inl err \<Rightarrow> \<lparr>fr_data = None, fr_error = Some (read_error err SOMETHING_WENT_WRONG), fr_path = Some p\<rparr>)\<rparr>)"

text \<open>What the hook reports.\<close>

definition resource_fresh :: "'d api_resource \<Rightarrow> 'd fetch_result option" where
  "resource_fresh st = (if fr_path (ar_result st) = ar_path st then Some (ar_result st) else None)"

definition resource_data :: "'d api_resource \<Rightarrow> 'd option" where
  "resource_data st = (case resource_fresh st of Some r \<Rightarrow> fr_data r | None \<Rightarrow> None)"

definition resource_error :: "'d api_resource \<Rightarrow> readable_error option" where
  "resource_error st = (case resource_fresh st of Some r \<Rightarrow> fr_error r | None \<Rightarrow> None)"

definition resource_loading :: "'d api_resource \<Rightarrow> bool" where
  "resource_loading st \<longleftrightarrow> ar_path st \<noteq> None \<and> resource_fresh st = None"

datatype 'd resource_event =
    Path jsstring
  | No_path
  | Refetch
  | Lands "thrown + 'd"

fun resource_step :: "'d resource_event \<Rightarrow> 'd api_resource \<Rightarrow> 'd api_resource" where
  "resource_step (Path p) st = resource_render (Some p) st"
| "resource_step No_path st = resource_render None st"
| "resource_step Refetch st = resource_refetch st"
| "resource_step (Lands answer) st = resource_lands answer st"

definition resource_run :: "'d resource_event list \<Rightarrow> 'd api_resource \<Rightarrow> 'd api_resource" where
  "resource_run es st = fold resource_step es st"

definition resource_ok :: "'d api_resource \<Rightarrow> bool" where
  "resource_ok st \<longleftrightarrow>
     (ar_flight st = None \<or> ar_flight st = ar_path st) \<and>
     (resource_loading st \<longrightarrow> ar_flight st \<noteq> None) \<and>
     (fr_path (ar_result st) = None \<longrightarrow> ar_result st = EMPTY) \<and>
     (fr_path (ar_result st) \<noteq> None \<longrightarrow> ar_path st \<noteq> None) \<and>
     (fr_data (ar_result st) = None \<or> fr_error (ar_result st) = None)"

lemma resource_ok_step: "resource_ok st \<Longrightarrow> resource_ok (resource_step e st)"
  by (cases e) (auto simp: resource_ok_def resource_render_def resource_refetch_def resource_effect_def resource_lands_def
      resource_loading_def resource_fresh_def EMPTY_def split: option.splits sum.splits if_splits)

lemma resource_ok_run: "resource_ok (resource_run es (resource_mount path))"
proof -
  have "resource_ok st \<Longrightarrow> resource_ok (resource_run es st)" for st :: "'a api_resource"
    unfolding resource_run_def by (induction es arbitrary: st) (simp_all add: resource_ok_step)
  moreover have "resource_ok (resource_mount path :: 'a api_resource)"
    by (simp add: resource_ok_def resource_mount_def resource_loading_def resource_fresh_def EMPTY_def)
  ultimately show ?thesis .
qed

text \<open>The data shown, the error and the loading state exclude each other, and a resource that loads has its request on its way.\<close>

theorem resource_states_exclusive:
  assumes "st = resource_run es (resource_mount path)"
  shows "(resource_loading st \<longrightarrow> resource_data st = None \<and> resource_error st = None \<and> ar_flight st = ar_path st) \<and>
    (resource_data st = None \<or> resource_error st = None)"
proof -
  have "resource_ok st" using resource_ok_run assms by simp
  then show ?thesis
    by (auto simp: resource_ok_def resource_loading_def resource_data_def resource_error_def resource_fresh_def
        split: option.splits if_splits)
qed

text \<open>What a signed-in reader saw is gone once the path is: the next reader starts with nothing.\<close>

lemma nothing_survives_no_path:
  "resource_data (resource_step (Path p) (resource_step No_path (resource_run es (resource_mount path)))) = None"
  using resource_ok_run [of es path]
  by (auto simp: resource_ok_def resource_render_def resource_effect_def resource_data_def resource_fresh_def EMPTY_def
      split: option.splits)

section \<open>A write\<close>

record mutation_state =
  mu_loading :: bool
  mu_error :: "jsstring option"
  mu_fields :: "(jsstring \<times> jsstring) list"

definition mutation_start :: "mutation_state \<Rightarrow> mutation_state" where
  "mutation_start st = \<lparr>mu_loading = True, mu_error = None, mu_fields = []\<rparr>"

text \<open>The \<open>catch\<close>: \<open>fields\<close> are the ones the form shows a refusal under, \<open>on_error\<close> is the caller's.\<close>

definition mutation_refused ::
    "jsstring list \<Rightarrow> (thrown \<Rightarrow> jsstring option) \<Rightarrow> jsstring \<Rightarrow> thrown \<Rightarrow> mutation_state \<Rightarrow> mutation_state" where
  "mutation_refused shown on_error fallback err st =
     (let refused = re_fields (read_error err SOMETHING_WENT_WRONG);
          in_place = filter (\<lambda>f. fst f \<in> set shown) refused;
          message = (if in_place \<noteq> [] \<and> length in_place = length refused then None
            else (case on_error err of Some m \<Rightarrow> Some m | None \<Rightarrow> Some (error_message err fallback)))
      in st\<lparr>mu_fields := in_place, mu_error := (if is_session_rejected err then None else message)\<rparr>)"

text \<open>\<open>run\<close>, from the outcome of the call and of \<open>onSuccess\<close> after it.\<close>

definition mutation_run ::
    "jsstring list \<Rightarrow> (thrown \<Rightarrow> jsstring option) \<Rightarrow> jsstring \<Rightarrow> thrown + 'r \<Rightarrow> ('r \<Rightarrow> thrown option) \<Rightarrow> mutation_state \<Rightarrow>
     'r option \<times> mutation_state" where
  "mutation_run shown on_error fallback outcome on_success st =
     (let st = mutation_start st;
          (result, st) = (case outcome of
             Inl err \<Rightarrow> (None, mutation_refused shown on_error fallback err st)
           | Inr r \<Rightarrow> (case on_success r of
               Some err \<Rightarrow> (None, mutation_refused shown on_error fallback err st)
             | None \<Rightarrow> (Some r, st)))
      in (result, st\<lparr>mu_loading := False\<rparr>))"

definition mutation_reset :: "mutation_state \<Rightarrow> mutation_state" where
  "mutation_reset st = st\<lparr>mu_error := None, mu_fields := []\<rparr>"

lemma filter_whole: "length (filter P xs) = length xs \<longleftrightarrow> filter P xs = xs"
  by (metis filter_id_conv length_filter_less less_irrefl)

text \<open>
  C18. No failed write is silent: a run that gives no result ends with a message, unless the session
  notice speaks for it or every refused field is shown under its own input; a run that gives a result
  ends with neither. Either way it no longer loads, and only fields the form shows hold a refusal.
\<close>

theorem failed_write_is_told:
  "(case mutation_run shown on_error fallback outcome on_success st of
      (Some r, st') \<Rightarrow> outcome = Inr r \<and> mu_error st' = None \<and> mu_fields st' = [] \<and> \<not> mu_loading st'
    | (None, st') \<Rightarrow> \<not> mu_loading st' \<and> fst ` set (mu_fields st') \<subseteq> set shown \<and>
        (\<exists>err. (outcome = Inl err \<or> (\<exists>r. outcome = Inr r \<and> on_success r = Some err)) \<and>
          ((\<exists>m. mu_error st' = Some m) \<or> is_session_rejected err \<or>
            (mu_fields st' \<noteq> [] \<and> mu_fields st' = re_fields (read_error err SOMETHING_WENT_WRONG)))))"
  by (cases outcome)
    (auto simp: mutation_run_def mutation_refused_def mutation_start_def Let_def filter_whole split: option.splits)

section \<open>A click that must be confirmed\<close>

definition ARM_MS :: nat where
  "ARM_MS = 3000"

record confirm_state =
  ca_armed :: bool
  ca_timer :: bool
  ca_fired :: nat

datatype confirm_event = Trigger | Timer_fires | Outside | Escape | Cancel

definition confirm_cancel :: "confirm_state \<Rightarrow> confirm_state" where
  "confirm_cancel st = st\<lparr>ca_timer := False, ca_armed := False\<rparr>"

text \<open>A timer that fired or was cleared fires no more; the listeners hear only while armed.\<close>

fun confirm_step :: "nat option \<Rightarrow> bool \<Rightarrow> confirm_event \<Rightarrow> confirm_state \<Rightarrow> confirm_state" where
  "confirm_step timeout outside Trigger st =
     (if \<not> ca_armed st
      then st\<lparr>ca_armed := True, ca_timer := (case timeout of Some ms \<Rightarrow> ms \<noteq> 0 \<or> ca_timer st | None \<Rightarrow> ca_timer st)\<rparr>
      else (confirm_cancel st)\<lparr>ca_fired := ca_fired st + 1\<rparr>)"
| "confirm_step timeout outside Timer_fires st =
     (if ca_timer st then st\<lparr>ca_timer := False, ca_armed := False\<rparr> else st)"
| "confirm_step timeout outside Outside st = (if outside \<and> ca_armed st then confirm_cancel st else st)"
| "confirm_step timeout outside Escape st = (if outside \<and> ca_armed st then confirm_cancel st else st)"
| "confirm_step timeout outside Cancel st = confirm_cancel st"

definition confirm_run :: "nat option \<Rightarrow> bool \<Rightarrow> confirm_event list \<Rightarrow> confirm_state" where
  "confirm_run timeout outside es = fold (confirm_step timeout outside) es \<lparr>ca_armed = False, ca_timer = False, ca_fired = 0\<rparr>"

text \<open>The events that end an armed wait.\<close>

fun disarms :: "nat option \<Rightarrow> bool \<Rightarrow> confirm_event \<Rightarrow> bool" where
  "disarms timeout outside Timer_fires = (timeout \<noteq> None \<and> timeout \<noteq> Some 0)"
| "disarms timeout outside Outside = outside"
| "disarms timeout outside Escape = outside"
| "disarms timeout outside Cancel = True"
| "disarms timeout outside Trigger = True"

definition timer_ok :: "nat option \<Rightarrow> confirm_state \<Rightarrow> bool" where
  "timer_ok timeout st \<longleftrightarrow> ca_timer st = (ca_armed st \<and> timeout \<noteq> None \<and> timeout \<noteq> Some 0)"

lemma timer_ok_step: "timer_ok timeout st \<Longrightarrow> timer_ok timeout (confirm_step timeout outside e st)"
  by (cases e) (auto simp: timer_ok_def confirm_cancel_def split: option.splits)

lemma confirm_run_snoc: "confirm_run timeout outside (es @ [e]) = confirm_step timeout outside e (confirm_run timeout outside es)"
  by (simp add: confirm_run_def)

lemma timer_ok_run: "timer_ok timeout (confirm_run timeout outside es)"
proof (induction es rule: rev_induct)
  case Nil
  then show ?case by (simp add: confirm_run_def timer_ok_def)
next
  case (snoc e es)
  then show ?case by (simp add: confirm_run_snoc timer_ok_step)
qed

text \<open>An armed control was armed by a trigger nothing ended since.\<close>

lemma armed_by_trigger:
  "ca_armed (confirm_run timeout outside es) \<Longrightarrow>
   \<exists>before after. es = before @ Trigger # after \<and> \<not> ca_armed (confirm_run timeout outside before) \<and>
     list_all (\<lambda>e. \<not> disarms timeout outside e) after"
proof (induction es rule: rev_induct)
  case Nil
  then show ?case by (simp add: confirm_run_def)
next
  case (snoc e es)
  show ?case
  proof (cases "ca_armed (confirm_run timeout outside es)")
    case True
    then have "\<not> disarms timeout outside e"
      using snoc.prems timer_ok_run [of timeout outside es]
      by (cases e) (auto simp: confirm_run_snoc confirm_cancel_def timer_ok_def split: if_splits)
    moreover obtain before after where "es = before @ Trigger # after" "\<not> ca_armed (confirm_run timeout outside before)"
      "list_all (\<lambda>e. \<not> disarms timeout outside e) after"
      using snoc.IH [OF True] by blast
    ultimately show ?thesis by (intro exI [of _ before] exI [of _ "after @ [e]"]) simp
  next
    case False
    then have "e = Trigger" using snoc.prems
      by (cases e) (auto simp: confirm_run_snoc confirm_cancel_def split: if_splits)
    then show ?thesis using False by (intro exI [of _ es] exI [of _ "[]"]) simp
  qed
qed

text \<open>
  One click never acts: each time the action runs, the click that runs it follows a click that
  armed the control, with nothing in between that disarms it - not the timer, not a press outside or
  Escape, not a cancel, and no other click.
\<close>

theorem action_needs_two_clicks:
  assumes "ca_fired (confirm_run timeout outside (es @ [e])) \<noteq> ca_fired (confirm_run timeout outside es)"
  shows "e = Trigger \<and> (\<exists>before after. es = before @ Trigger # after \<and> \<not> ca_armed (confirm_run timeout outside before) \<and>
    list_all (\<lambda>e. \<not> disarms timeout outside e) after)"
proof -
  have "e = Trigger \<and> ca_armed (confirm_run timeout outside es)"
    using assms by (cases e) (auto simp: confirm_run_snoc confirm_cancel_def split: if_splits)
  then show ?thesis using armed_by_trigger by blast
qed

lemma action_needs_two_clicks_witness:
  "\<exists>before after. [Trigger, Timer_fires, Trigger] = before @ Trigger # after \<and>
    \<not> ca_armed (confirm_run (Some ARM_MS) True before) \<and> list_all (\<lambda>e. \<not> disarms (Some ARM_MS) True e) after"
  using action_needs_two_clicks [of "Some ARM_MS" True "[Trigger, Timer_fires, Trigger]" Trigger]
  by (simp add: confirm_run_def confirm_cancel_def ARM_MS_def)

section \<open>Blank fields\<close>

definition blank_fields :: "('k \<times> jsstring \<times> jsstring) list \<Rightarrow> ('k \<times> jsstring) list" where
  "blank_fields entries = map (\<lambda>(k, lab, v). (k, lab)) (filter (\<lambda>(k, lab, v). js_trim v = []) entries)"

end
