(* ===== verification/Collection_Forms.thy ===== *)
theory Collection_Forms
  imports Search_Selection Request_Hooks
begin

text \<open>
  The writes of a collection: the form behind both pages (\<open>CollectionDetailsForm.tsx\<close>), its picker
  (\<open>EventPicker.tsx\<close>), the create page (\<open>app/collections/new/page.tsx\<close>), the edit page's save
  (\<open>app/collections/[id]/edit/page.tsx\<close>), and the two panels that add to one
  (\<open>AddToCollectionPanel.tsx\<close>, \<open>BulkAddToCollectionPanel.tsx\<close>).
\<close>

section \<open>The form\<close>

datatype collection_field = Title_field | Description_field

definition missing_collection_fields :: "jsstring \<Rightarrow> jsstring \<Rightarrow> (collection_field \<times> jsstring) list" where
  "missing_collection_fields title description =
     (if js_trim title = [] then [(Title_field, ''Title'')]
      else if COLLECTION_TITLE_MAX_LEN < length title
        then [(Title_field, ''Title ('' @ nat_text COLLECTION_TITLE_MAX_LEN @ '' characters at most)'')] else []) @
     (if description = [] then [(Description_field, ''Description'')]
      else if COLLECTION_DESCRIPTION_MAX_LEN < length description
        then [(Description_field, ''Description ('' @ nat_text COLLECTION_DESCRIPTION_MAX_LEN @ '' characters at most)'')] else [])"

record collection_form =
  cf_title :: jsstring
  cf_description :: jsstring
  cf_events :: "pickable list"
  cf_attempt :: nat

definition collection_form_open :: "jsstring \<Rightarrow> jsstring \<Rightarrow> pickable list \<Rightarrow> collection_form" where
  "collection_form_open title description rows = \<lparr>cf_title = title, cf_description = description, cf_events = rows, cf_attempt = 0\<rparr>"

definition hold_event :: "pickable \<Rightarrow> collection_form \<Rightarrow> collection_form" where
  "hold_event e f = (if list_ex (\<lambda>h. pk_id h = pk_id e) (cf_events f) then f else f\<lparr>cf_events := cf_events f @ [e]\<rparr>)"

definition release_event :: "jsstring \<Rightarrow> collection_form \<Rightarrow> collection_form" where
  "release_event eid f = f\<lparr>cf_events := filter (\<lambda>h. pk_id h \<noteq> eid) (cf_events f)\<rparr>"

definition form_missing :: "(jsstring \<Rightarrow> dom list) \<Rightarrow> collection_form \<Rightarrow> (collection_field \<times> jsstring) list" where
  "form_missing to_dom f = missing_collection_fields (cf_title f) (html_text to_dom (Some (cf_description f)))"

definition flagged_field :: "(jsstring \<Rightarrow> dom list) \<Rightarrow> collection_form \<Rightarrow> collection_field \<Rightarrow> bool" where
  "flagged_field to_dom f key \<longleftrightarrow> 0 < cf_attempt f \<and> list_ex (\<lambda>m. fst m = key) (form_missing to_dom f)"

definition title_invalid :: "(jsstring \<Rightarrow> dom list) \<Rightarrow> collection_form \<Rightarrow> bool" where
  "title_invalid to_dom f \<longleftrightarrow> COLLECTION_TITLE_MAX_LEN < length (cf_title f) \<or> flagged_field to_dom f Title_field"

definition description_invalid :: "(jsstring \<Rightarrow> dom list) \<Rightarrow> collection_form \<Rightarrow> bool" where
  "description_invalid to_dom f \<longleftrightarrow>
     COLLECTION_DESCRIPTION_MAX_LEN < length (html_text to_dom (Some (cf_description f))) \<or> flagged_field to_dom f Description_field"

text \<open>What a submit hands over: the title, the body and the ids of the held events.\<close>

type_synonym collection_write = "jsstring \<times> jsstring \<times> jsstring list"

definition submit_form :: "(jsstring \<Rightarrow> dom list) \<Rightarrow> bool \<Rightarrow> collection_form \<Rightarrow> collection_write option \<times> collection_form" where
  "submit_form to_dom busy f =
     (if busy then (None, f)
      else if form_missing to_dom f \<noteq> [] then (None, f\<lparr>cf_attempt := cf_attempt f + 1\<rparr>)
      else (Some (js_trim (cf_title f), cf_description f, map pk_id (cf_events f)), f))"

datatype form_event = Type_title jsstring | Type_description jsstring | Pick_event pickable | Drop_event jsstring | Submitted bool

fun collection_form_step :: "(jsstring \<Rightarrow> dom list) \<Rightarrow> form_event \<Rightarrow> collection_form \<Rightarrow> collection_form" where
  "collection_form_step to_dom (Type_title s) f = f\<lparr>cf_title := s\<rparr>"
| "collection_form_step to_dom (Type_description s) f = f\<lparr>cf_description := s\<rparr>"
| "collection_form_step to_dom (Pick_event e) f = hold_event e f"
| "collection_form_step to_dom (Drop_event eid) f = release_event eid f"
| "collection_form_step to_dom (Submitted busy) f = snd (submit_form to_dom busy f)"

text \<open>The matched rows of a selection ride beside the picks: the rows so far, the match's count less
  the removed ones, and whether more pages follow.\<close>

record matched =
  mt_rows :: "pickable list"
  mt_total :: int
  mt_more :: bool

definition held_events :: "collection_form \<Rightarrow> matched option \<Rightarrow> pickable list" where
  "held_events f m = (case m of Some m \<Rightarrow> cf_events f @ mt_rows m | None \<Rightarrow> cf_events f)"

definition held_dates :: "pickable list \<Rightarrow> jsstring list" where
  "held_dates rows = js_sort (List.map_filter (\<lambda>e. case pk_date e of Some d \<Rightarrow> if d = [] then None else Some d | None \<Rightarrow> None) rows)"

definition held_span :: "collection_form \<Rightarrow> matched option \<Rightarrow> jsstring option \<times> jsstring option" where
  "held_span f m =
     (let dates = held_dates (held_events f m); known = (case m of Some m \<Rightarrow> \<not> mt_more m | None \<Rightarrow> True)
      in if known \<and> dates \<noteq> [] then (Some (hd dates), Some (List.last dates)) else (None, None))"

section \<open>The picker\<close>

text \<open>\<open>loc\<close> is \<open>localeCompare\<close>, which the platform's collation decides.\<close>

definition chronological :: "(jsstring \<Rightarrow> jsstring \<Rightarrow> int) \<Rightarrow> pickable list \<Rightarrow> pickable list" where
  "chronological loc rows =
     (let key = (\<lambda>e. case pk_date e of Some d \<Rightarrow> d | None \<Rightarrow> ''9999'')
      in sort_by (\<lambda>a b. let c = loc (key a) (key b) in if c \<noteq> 0 then c else loc (pk_id a) (pk_id b)) rows)"

definition held_rows :: "(jsstring \<Rightarrow> jsstring \<Rightarrow> int) \<Rightarrow> pickable list \<Rightarrow> matched option \<Rightarrow> pickable list" where
  "held_rows loc picks m = chronological loc (picks @
     (case m of Some m \<Rightarrow> filter (\<lambda>r. pk_id r \<notin> pk_id ` set picks) (mt_rows m) | None \<Rightarrow> []))"

definition held_count :: "pickable list \<Rightarrow> matched option \<Rightarrow> int" where
  "held_count picks m = int (length picks) +
     (case m of Some m \<Rightarrow> mt_total m - int (length (filter (\<lambda>r. pk_id r \<in> pk_id ` set picks) (mt_rows m))) | None \<Rightarrow> 0)"

text \<open>A removed row leaves the picks, or the match when it is no pick.\<close>

definition remove_held :: "pickable list \<Rightarrow> bool \<Rightarrow> jsstring \<Rightarrow> (jsstring + jsstring) option" where
  "remove_held picks in_match rid =
     (if rid \<in> pk_id ` set picks then Some (Inl rid) else if in_match then Some (Inr rid) else None)"

definition search_note :: "nat \<Rightarrow> nat \<Rightarrow> jsstring option" where
  "search_note shown n = (if shown = 0 then None
     else Some ((if shown < n then ''Showing '' @ nat_text shown @ '' of '' @ nat_text n @ '' matches. Refine the search to reach the rest. ''
       else []) @ ''Search reaches your events that carry coordinates; clear the field to see the rest.''))"

section \<open>The create page\<close>

record new_page =
  nc_created :: "jsstring option"
  nc_excluded :: "jsstring list"

definition new_page_open :: new_page where
  "new_page_open = \<lparr>nc_created = None, nc_excluded = []\<rparr>"

definition exclude_match :: "jsstring \<Rightarrow> new_page \<Rightarrow> new_page" where
  "exclude_match eid p = (if eid \<in> set (nc_excluded p) then p else p\<lparr>nc_excluded := nc_excluded p @ [eid]\<rparr>)"

definition page_matched :: "nat \<Rightarrow> pickable list \<Rightarrow> bool \<Rightarrow> new_page \<Rightarrow> matched" where
  "page_matched n walked goes_on p = \<lparr>mt_rows = filter (\<lambda>r. pk_id r \<notin> set (nc_excluded p)) walked,
     mt_total = int n - int (length (nc_excluded p)), mt_more = goes_on\<rparr>"

definition NOT_ADDED :: jsstring where
  "NOT_ADDED = ''The collection is created, but the geolocations were not added: ''"

datatype collection_request =
    Create_collection jsstring jsstring "jsstring list"
  | Add_match jsstring search_match "jsstring list"

text \<open>The call of the mutation: \<open>opened\<close> answers the create, \<open>added\<close> the add of the match.\<close>

definition create_call ::
    "search_match option \<Rightarrow> collection_write \<Rightarrow> thrown + jsstring \<Rightarrow> thrown option \<Rightarrow> new_page \<Rightarrow>
     collection_request list \<times> (thrown + jsstring) \<times> new_page" where
  "create_call match write opened added p =
     (let (title, description, ids) = write;
          (reqs, answer) = (case nc_created p of
             Some cid \<Rightarrow> ([], Inr cid)
           | None \<Rightarrow> ([Create_collection title description ids], opened))
      in case answer of
           Inl err \<Rightarrow> (reqs, Inl err, p)
         | Inr cid \<Rightarrow> (let p = p\<lparr>nc_created := Some cid\<rparr> in case match of
             None \<Rightarrow> (reqs, Inr cid, p)
           | Some m \<Rightarrow> (reqs @ [Add_match cid m (nc_excluded p)],
               (case added of None \<Rightarrow> Inr cid
                | Some err \<Rightarrow> Inl (Error_thrown (NOT_ADDED @ error_message err SOMETHING_WENT_WRONG))), p)))"

text \<open>Where both exits land.\<close>

definition new_page_origin :: "jsstring option \<Rightarrow> jsstring option \<Rightarrow> jsstring \<Rightarrow> jsstring" where
  "new_page_origin event_id from user = (case event_id of
       Some e \<Rightarrow> if e \<noteq> [] then event_href e else (case from of Some p \<Rightarrow> p | None \<Rightarrow> profile_href user)
     | None \<Rightarrow> (case from of Some p \<Rightarrow> p | None \<Rightarrow> profile_href user))"

text \<open>A page's submits and removals, with the answers the submits get; it keeps what was opened.\<close>

datatype new_event = New_submit collection_write "thrown + jsstring" "thrown option" | New_exclude jsstring

fun new_page_step ::
    "search_match option \<Rightarrow> new_event \<Rightarrow> new_page \<times> collection_request list \<times> (thrown + jsstring) list \<Rightarrow>
     new_page \<times> collection_request list \<times> (thrown + jsstring) list" where
  "new_page_step match (New_exclude eid) (p, sent, answers) = (exclude_match eid p, sent, answers)"
| "new_page_step match (New_submit write opened added) (p, sent, answers) =
     (case create_call match write opened added p of (reqs, answer, p) \<Rightarrow> (p, sent @ reqs, answers @ [answer]))"

section \<open>The edit page's save\<close>

datatype save_request = Save_details jsstring jsstring | Put_event jsstring | Delete_event jsstring

definition save_requests :: "jsstring list \<Rightarrow> collection_write \<Rightarrow> save_request list" where
  "save_requests items write = (case write of (title, description, ids) \<Rightarrow>
     Save_details title description #
     map Put_event (filter (\<lambda>e. e \<notin> set items) ids) @
     map Delete_event (filter (\<lambda>e. e \<notin> set ids) (uniq items)))"

text \<open>The requests in order, up to the first refusal.\<close>

fun send_in_order :: "(save_request \<Rightarrow> 's \<Rightarrow> 's) \<Rightarrow> save_request list \<Rightarrow> thrown option list \<Rightarrow> 's \<Rightarrow> thrown option \<times> 's" where
  "send_in_order take_in [] answers s = (None, s)"
| "send_in_order take_in (r # rs) (Some err # answers) s = (Some err, s)"
| "send_in_order take_in (r # rs) (None # answers) s = send_in_order take_in rs answers (take_in r s)"
| "send_in_order take_in (r # rs) [] s = send_in_order take_in rs [] (take_in r s)"

text \<open>The server's side of the routes: idempotent writes on the members.\<close>

fun save_members :: "save_request \<Rightarrow> jsstring set \<Rightarrow> jsstring set" where
  "save_members (Put_event e) ms = insert e ms"
| "save_members (Delete_event e) ms = ms - {e}"
| "save_members (Save_details title description) ms = ms"

definition save_collection ::
    "jsstring list \<Rightarrow> collection_write \<Rightarrow> thrown option list \<Rightarrow> jsstring set \<Rightarrow> thrown option \<times> jsstring set" where
  "save_collection items write answers ms = send_in_order save_members (save_requests items write) answers ms"

section \<open>The panels\<close>

record membership =
  cm_id :: jsstring
  cm_in :: bool
  cm_count :: nat

definition set_membership :: "jsstring \<Rightarrow> bool \<Rightarrow> membership list \<Rightarrow> membership list" where
  "set_membership cid on rows = map (\<lambda>r. if cm_id r = cid \<and> cm_in r \<noteq> on
     then r\<lparr>cm_in := on, cm_count := (if on then cm_count r + 1 else cm_count r - 1)\<rparr> else r) rows"

text \<open>One toggle of a row, and the end of its write.\<close>

definition membership_toggle :: "membership \<Rightarrow> membership list \<Rightarrow> membership list" where
  "membership_toggle r rows = set_membership (cm_id r) (\<not> cm_in r) rows"

definition membership_settles :: "membership \<Rightarrow> bool \<Rightarrow> membership list \<Rightarrow> membership list" where
  "membership_settles r accepted rows = (if accepted then rows else set_membership (cm_id r) (cm_in r) rows)"

record bulk_result =
  br_added :: nat
  br_already :: nat
  br_not_collectable :: nat

definition bulk_summary :: "bulk_result \<Rightarrow> jsstring" where
  "bulk_summary r = js_join '', '' ([nat_text (br_added r) @ '' added''] @
     (if 0 < br_already r then [nat_text (br_already r) @ '' already in this collection''] else []) @
     (if 0 < br_not_collectable r then [nat_text (br_not_collectable r) @ '' not collectable''] else []))"

record bulk_panel =
  bp_done :: "jsstring \<rightharpoonup> bulk_result"
  bp_last :: "(jsstring \<times> bulk_result) option"

definition bulk_added :: "jsstring \<Rightarrow> bulk_result \<Rightarrow> bulk_panel \<Rightarrow> bulk_panel" where
  "bulk_added cid r p = \<lparr>bp_done = (bp_done p)(cid \<mapsto> r), bp_last = Some (cid, r)\<rparr>"

definition bulk_row_count :: "bulk_panel \<Rightarrow> jsstring \<Rightarrow> nat \<Rightarrow> nat" where
  "bulk_row_count p cid n = n + (case bp_done p cid of Some r \<Rightarrow> br_added r | None \<Rightarrow> 0)"

section \<open>The form's invariant\<close>

lemma hold_distinct: "distinct (map pk_id (cf_events f)) \<Longrightarrow> distinct (map pk_id (cf_events (hold_event e f)))"
  by (auto simp: hold_event_def list_ex_iff)

lemma release_distinct: "distinct (map pk_id (cf_events f)) \<Longrightarrow> distinct (map pk_id (cf_events (release_event e f)))"
  by (simp add: release_event_def distinct_map_filter)

lemma submit_keeps_events: "cf_events (snd (submit_form to_dom busy f)) = cf_events f"
  by (simp add: submit_form_def)

lemma form_steps_distinct:
  "distinct (map pk_id (cf_events f)) \<Longrightarrow> distinct (map pk_id (cf_events (fold (collection_form_step to_dom) es f)))"
proof (induction es arbitrary: f)
  case (Cons e es)
  then have "distinct (map pk_id (cf_events (collection_form_step to_dom e f)))"
    by (cases e) (simp_all add: hold_distinct release_distinct submit_keeps_events)
  then show ?case by (simp add: Cons.IH)
qed simp

definition complete_write :: "(jsstring \<Rightarrow> dom list) \<Rightarrow> collection_write \<Rightarrow> bool" where
  "complete_write to_dom w = (case w of (title, description, ids) \<Rightarrow>
     title \<noteq> [] \<and> js_trim title = title \<and> length title \<le> COLLECTION_TITLE_MAX_LEN \<and>
     html_text to_dom (Some description) \<noteq> [] \<and>
     length (html_text to_dom (Some description)) \<le> COLLECTION_DESCRIPTION_MAX_LEN \<and> distinct ids)"

text \<open>
  Whatever the analyst types, picks and drops, a submit that goes through hands over a complete
  collection: a trimmed title and a description text of at least one character and within their caps,
  and no event twice.
\<close>

theorem submitted_collection_is_complete:
  assumes "distinct (map pk_id rows)"
  shows "list_all (complete_write to_dom)
    (case submit_form to_dom busy (fold (collection_form_step to_dom) es (collection_form_open title description rows)) of
       (Some w, _) \<Rightarrow> [w] | (None, _) \<Rightarrow> [])"
proof -
  let ?f = "fold (collection_form_step to_dom) es (collection_form_open title description rows)"
  have "distinct (map pk_id (cf_events ?f))"
    by (rule form_steps_distinct) (simp add: collection_form_open_def assms)
  then show ?thesis
    using length_js_trim [of "cf_title ?f"]
    by (auto simp: submit_form_def complete_write_def form_missing_def missing_collection_fields_def split: if_splits)
qed

lemma submitted_collection_is_complete_witness:
  "list_all (complete_write (\<lambda>s. [DText s]))
    (case submit_form (\<lambda>s. [DText s]) False (fold (collection_form_step (\<lambda>s. [DText s]))
        [Type_title '' Raids '', Pick_event (pickable_from_hit (hit_of ''1'')), Pick_event (pickable_from_hit (hit_of ''1''))]
        (collection_form_open [] ''Two raids'' [])) of
       (Some w, _) \<Rightarrow> [w] | (None, _) \<Rightarrow> [])"
  by (rule submitted_collection_is_complete) simp

section \<open>One collection is opened\<close>

definition landed_on :: "(thrown + jsstring) list \<Rightarrow> jsstring set" where
  "landed_on answers = {cid. Inr cid \<in> set answers}"

definition added_to :: "collection_request list \<Rightarrow> jsstring set" where
  "added_to sent = {cid. \<exists>m xs. Add_match cid m xs \<in> set sent}"

lemma landed_on_simps [simp]:
  "landed_on [] = {}" "landed_on (as @ bs) = landed_on as \<union> landed_on bs" "landed_on [Inr cid] = {cid}" "landed_on [Inl err] = {}"
  by (auto simp: landed_on_def)

lemma added_to_simps [simp]:
  "added_to [] = {}" "added_to (as @ bs) = added_to as \<union> added_to bs" "added_to [Add_match cid m xs] = {cid}"
  "added_to [Create_collection title description ids] = {}" "added_to (Create_collection title description ids # rs) = added_to rs"
  by (auto simp: added_to_def)

definition once_ok :: "new_page \<times> collection_request list \<times> (thrown + jsstring) list \<Rightarrow> bool" where
  "once_ok s \<longleftrightarrow> (case s of (p, sent, answers) \<Rightarrow> landed_on answers \<union> added_to sent \<subseteq> set_option (nc_created p))"

lemma create_call_on:
  "create_call match write opened added p = (reqs, answer, p') \<Longrightarrow>
   landed_on [answer] \<union> added_to reqs \<subseteq> set_option (nc_created p') \<and> set_option (nc_created p) \<subseteq> set_option (nc_created p')"
  by (auto simp: create_call_def Let_def split: prod.splits option.splits sum.splits)

lemma once_ok_submit: "once_ok (p, sent, answers) \<Longrightarrow> once_ok (new_page_step match (New_submit write opened added) (p, sent, answers))"
proof -
  assume ok: "once_ok (p, sent, answers)"
  obtain reqs answer p' where c: "create_call match write opened added p = (reqs, answer, p')" by (cases "create_call match write opened added p")
  from create_call_on [OF c] ok show ?thesis by (auto simp: once_ok_def c)
qed

lemma once_ok_step: "once_ok s \<Longrightarrow> once_ok (new_page_step match e s)"
proof (cases s; cases e)
  fix p sent answers eid assume "once_ok s" "s = (p, sent, answers)" "e = New_exclude eid"
  then show ?thesis by (simp add: once_ok_def exclude_match_def)
qed (simp_all only: once_ok_submit)

lemma once_ok_run: "once_ok s \<Longrightarrow> once_ok (fold (new_page_step match) es s)"
proof (induction es arbitrary: s)
  case (Cons e es)
  then show ?case by (simp add: once_ok_step del: new_page_step.simps)
qed simp

text \<open>
  C26. However many submits a create page takes, and whichever of their requests fail, they all land on
  one collection: every submit that succeeds answers it and every match added is added to it.
\<close>

theorem create_page_opens_one_collection:
  "case fold (new_page_step match) es (new_page_open, [], []) of
     (p, sent, answers) \<Rightarrow> landed_on answers \<union> added_to sent \<subseteq> set_option (nc_created p)"
proof -
  have "once_ok (fold (new_page_step match) es (new_page_open, [], []))"
    by (rule once_ok_run) (simp add: once_ok_def new_page_open_def)
  then show ?thesis by (auto simp: once_ok_def split: prod.splits)
qed

text \<open>
  Once a collection is opened no create is sent, so what the analyst changed in the form between a failed
  add and the retry reaches no request.
\<close>

lemma retry_drops_the_form:
  "nc_created p = Some cid \<Longrightarrow> create_call match w opened added p = create_call match w' opened added p"
  by (cases w; cases w') (simp add: create_call_def)

section \<open>The save writes the choice\<close>


lemma put_details [simp]: "send_in_order save_members (Save_details t d # rs) [] ms = send_in_order save_members rs [] ms"
  by simp

lemma send_all_puts: "send_in_order save_members (map Put_event es @ rs) [] ms = send_in_order save_members rs [] (ms \<union> set es)"
  by (induction es arbitrary: ms) simp_all

lemma send_all_deletes: "send_in_order save_members (map Delete_event es) [] ms = (None, ms - set es)"
proof (induction es arbitrary: ms)
  case (Cons e es)
  show ?case by (simp add: Cons.IH) blast
qed simp

lemma save_all: "save_collection items (t, d, ids) [] ms = (None, (ms \<union> (set ids - set items)) - (set items - set ids))"
proof -
  have "set (filter (\<lambda>e. e \<notin> set items) ids) = set ids - set items" "set (filter (\<lambda>e. e \<notin> set ids) (uniq items)) = set items - set ids"
    by auto
  then show ?thesis by (simp add: save_collection_def save_requests_def send_all_puts send_all_deletes del: set_filter)
qed


text \<open>Events the page did not read, past its 500, are left as they are.\<close>

lemma unread_events_stay: "e \<in> ms \<Longrightarrow> e \<notin> set items \<Longrightarrow> e \<in> snd (save_collection items w [] ms)"
  by (cases w) (simp add: save_all)

text \<open>
  The save compares with the rows the page opened on, not with what a stopped save wrote: an event it
  added and that is dropped before the retry stays in the collection.
\<close>

lemma dropped_after_refusal_stays:
  "snd (save_collection [''a''] (t, d, [''a'']) [] (snd (save_collection [''a''] (t, d, [''a'', ''b'', ''c'']) [None, None, Some Other_thrown] {''a''})))
     = {''a'', ''b''}"
  by (auto simp: save_collection_def save_requests_def uniq_def)

section \<open>The bit and the count move together\<close>

definition counted_apart :: "membership \<Rightarrow> int" where
  "counted_apart r = int (cm_count r) - (if cm_in r then 1 else 0)"

definition memberships_ok :: "membership list \<Rightarrow> bool" where
  "memberships_ok rows \<longleftrightarrow> list_all (\<lambda>r. 0 \<le> counted_apart r) rows"

lemma set_membership_keeps:
  "memberships_ok rows \<Longrightarrow> map counted_apart (set_membership cid on rows) = map counted_apart rows"
  by (auto simp: memberships_ok_def set_membership_def counted_apart_def list_all_iff)

lemma set_membership_ids [simp]: "map cm_id (set_membership cid on rows) = map cm_id rows"
  by (simp add: set_membership_def)

lemma set_membership_ok: "memberships_ok rows \<Longrightarrow> memberships_ok (set_membership cid on rows)"
  by (auto simp: memberships_ok_def set_membership_def counted_apart_def list_all_iff)

datatype shelf_event = Toggled membership | Settled membership bool

fun shelf_step :: "shelf_event \<Rightarrow> membership list \<Rightarrow> membership list" where
  "shelf_step (Toggled r) rows = membership_toggle r rows"
| "shelf_step (Settled r accepted) rows = membership_settles r accepted rows"

lemma shelf_step_keeps:
  "memberships_ok rows \<Longrightarrow> memberships_ok (shelf_step e rows) \<and> map counted_apart (shelf_step e rows) = map counted_apart rows"
  by (cases e) (simp_all add: membership_toggle_def membership_settles_def set_membership_ok set_membership_keeps)

text \<open>
  However the toggles of the shelving panel and the ends of their writes interleave, no event is
  counted twice: what a row counts beside this event never changes.
\<close>

theorem panel_counts_once:
  assumes "memberships_ok rows"
  shows "map counted_apart (fold shelf_step es rows) = map counted_apart rows"
proof -
  have "memberships_ok (fold shelf_step es rows) \<and> map counted_apart (fold shelf_step es rows) = map counted_apart rows"
    using assms by (induction es arbitrary: rows) (simp, metis fold_simps(2) shelf_step_keeps)
  then show ?thesis by simp
qed

lemma panel_counts_once_witness:
  "map counted_apart (fold shelf_step [Toggled \<lparr>cm_id = ''c'', cm_in = True, cm_count = 1\<rparr>, Settled \<lparr>cm_id = ''c'', cm_in = True, cm_count = 1\<rparr> False]
     [\<lparr>cm_id = ''c'', cm_in = True, cm_count = 1\<rparr>]) = [0]"
  by (subst panel_counts_once) (simp_all add: memberships_ok_def counted_apart_def)

text \<open>A refused write restores the row.\<close>

lemma refusal_restores:
  assumes "memberships_ok rows" "r \<in> set rows" "distinct (map cm_id rows)"
  shows "membership_settles r False (membership_toggle r rows) = rows"
proof -
  have same: "cm_id x = cm_id r \<longleftrightarrow> x = r" if "x \<in> set rows" for x
    using that assms(2,3) by (auto simp: distinct_map inj_on_def)
  have "cm_in r \<longrightarrow> 1 \<le> cm_count r" using assms(1,2) by (auto simp: memberships_ok_def list_all_iff counted_apart_def)
  then show ?thesis
    unfolding membership_settles_def membership_toggle_def set_membership_def
    by (auto simp: same intro!: map_idI)
qed

end
