(* ===== verification/Site_Zone.thy ===== *)
theory Site_Zone
  imports Map_Bounds Format
begin

text \<open>
  \<open>lib/siteZone.ts\<close>: a zone and its corners, its area, whether its ring crosses itself, the contour
  editor's state and the operations on it. The cosine and the hypotenuse, which the language leaves
  to approximations, and the localised number text are parameters.
\<close>

text \<open>\<open>ZonePolygon\<close>: the rings of a polygon, the exterior one first.\<close>

record zone =
  coordinates :: "position list list"

definition exterior :: "zone \<Rightarrow> position list" where
  "exterior z = (case coordinates z of [] \<Rightarrow> [] | r # _ \<Rightarrow> r)"

definition zoneVertices :: "zone \<Rightarrow> position list" where
  "zoneVertices z = butlast (exterior z)"

text \<open>With no corner the code reads the coordinates of \<open>undefined\<close> and throws: \<open>None\<close>.\<close>

definition zoneFromVertices :: "position list \<Rightarrow> zone option" where
  "zoneFromVertices vertices = (case vertices of [] \<Rightarrow> None
     | v # _ \<Rightarrow> Some \<lparr>coordinates = [vertices @ [v]]\<rparr>)"

definition MIN_ZONE_VERTICES :: nat where
  "MIN_ZONE_VERTICES = 3"

definition MAX_ZONE_AREA_KM2 :: rat where
  "MAX_ZONE_AREA_KM2 = 1000"

definition square_km :: jsstring where
  "square_km = '' km'' @ [char_of (178 :: nat)]"

definition formatAreaKm2 :: "(nat \<Rightarrow> js_float \<Rightarrow> jsstring) \<Rightarrow> js_float \<Rightarrow> nat \<Rightarrow> jsstring" where
  "formatAreaKm2 locale_number km2 decimals = locale_number decimals km2 @ square_km"

definition EARTH_RADIUS_M :: js_float where
  "EARTH_RADIUS_M = f_round (63710088 / 10)"

definition metres_per_degree :: js_float where
  "metres_per_degree = f_mul (f_div MATH_PI (Fin 180)) EARTH_RADIUS_M"

definition cos_of_degrees :: "(js_float \<Rightarrow> js_float) \<Rightarrow> js_float \<Rightarrow> js_float" where
  "cos_of_degrees js_cos x = js_cos (f_div (f_mul x MATH_PI) (Fin 180))"

definition toMetres :: "(js_float \<Rightarrow> js_float) \<Rightarrow> position \<Rightarrow> position \<Rightarrow> js_float \<times> js_float" where
  "toMetres js_cos p origin =
     (f_mul (f_mul (f_sub (fst p) (fst origin)) metres_per_degree) (cos_of_degrees js_cos (snd origin)),
      f_mul (f_sub (snd p) (snd origin)) metres_per_degree)"

definition fromMetres :: "(js_float \<Rightarrow> js_float) \<Rightarrow> js_float \<times> js_float \<Rightarrow> position \<Rightarrow> position" where
  "fromMetres js_cos m origin =
     (f_add (fst origin) (f_div (fst m) (f_mul metres_per_degree (cos_of_degrees js_cos (snd origin)))),
      f_add (snd origin) (f_div (snd m) metres_per_degree))"

definition zoneAreaKm2 :: "(js_float \<Rightarrow> js_float) \<Rightarrow> position list \<Rightarrow> js_float" where
  "zoneAreaKm2 js_cos vertices = (if length vertices < MIN_ZONE_VERTICES then Fin 0
     else (let pts = map (\<lambda>v. toMetres js_cos v (vertices ! 0)) vertices;
         twice = foldl (\<lambda>t i. let (x1, y1) = pts ! i; (x2, y2) = pts ! (Suc i mod length pts)
             in f_add t (f_sub (f_mul x1 y2) (f_mul x2 y1))) (Fin 0) [0 ..< length pts]
       in f_div (f_div (f_abs twice) (Fin 2)) (Fin 1000000)))"

section \<open>Crossings\<close>

text \<open>\<open>Math.sign\<close>, and \<open>===\<close> on numbers.\<close>

definition f_sign :: "js_float \<Rightarrow> js_float" where
  "f_sign x = (if x = Nan then Nan else if f_less (Fin 0) x then Fin 1 else if f_less x (Fin 0) then Fin (-1) else Fin 0)"

definition f_eq :: "js_float \<Rightarrow> js_float \<Rightarrow> bool" where
  "f_eq x y \<longleftrightarrow> x \<noteq> Nan \<and> x = y"

definition orientation :: "position \<Rightarrow> position \<Rightarrow> position \<Rightarrow> js_float" where
  "orientation a b c = f_sign (f_sub (f_mul (f_sub (fst b) (fst a)) (f_sub (snd c) (snd a)))
     (f_mul (f_sub (snd b) (snd a)) (f_sub (fst c) (fst a))))"

definition onSegment :: "position \<Rightarrow> position \<Rightarrow> position \<Rightarrow> bool" where
  "onSegment p a b \<longleftrightarrow> f_le (f_min (fst a) (fst b)) (fst p) \<and> f_le (fst p) (f_max (fst a) (fst b)) \<and>
     f_le (f_min (snd a) (snd b)) (snd p) \<and> f_le (snd p) (f_max (snd a) (snd b))"

definition segmentsTouch :: "position \<Rightarrow> position \<Rightarrow> position \<Rightarrow> position \<Rightarrow> bool" where
  "segmentsTouch p1 p2 q1 q2 = (let o1 = orientation p1 p2 q1; o2 = orientation p1 p2 q2;
       o3 = orientation q1 q2 p1; o4 = orientation q1 q2 p2
     in if \<not> f_eq o1 o2 \<and> \<not> f_eq o3 o4 then True
        else f_eq o1 (Fin 0) \<and> onSegment q1 p1 p2 \<or> f_eq o2 (Fin 0) \<and> onSegment q2 p1 p2 \<or>
          f_eq o3 (Fin 0) \<and> onSegment p1 q1 q2 \<or> f_eq o4 (Fin 0) \<and> onSegment p2 q1 q2)"

definition foldsBack :: "position \<Rightarrow> position \<Rightarrow> position \<Rightarrow> bool" where
  "foldsBack a b c \<longleftrightarrow> f_eq (orientation a b c) (Fin 0) \<and>
     f_less (Fin 0) (f_add (f_mul (f_sub (fst a) (fst b)) (f_sub (fst c) (fst b)))
       (f_mul (f_sub (snd a) (snd b)) (f_sub (snd c) (snd b))))"

text \<open>The corners without the repeats in a row, the first compared with the last.\<close>

definition ring_of :: "position list \<Rightarrow> position list" where
  "ring_of vertices = map fst (filter (\<lambda>(v, i).
     let previous = vertices ! ((i + length vertices - 1) mod length vertices)
     in length vertices = 1 \<or> \<not> f_eq (fst v) (fst previous) \<or> \<not> f_eq (snd v) (snd previous))
     (zip vertices [0 ..< length vertices]))"

definition zoneSelfIntersects :: "position list \<Rightarrow> bool" where
  "zoneSelfIntersects vertices = (let ring = ring_of vertices; n = length ring in
     if n < MIN_ZONE_VERTICES then MIN_ZONE_VERTICES \<le> length vertices
     else list_ex (\<lambda>i. foldsBack (ring ! ((i + n - 1) mod n)) (ring ! i) (ring ! (Suc i mod n))) [0 ..< n] \<or>
       list_ex (\<lambda>i. list_ex (\<lambda>j. \<not> (i = 0 \<and> j = n - 1) \<and>
           segmentsTouch (ring ! i) (ring ! (Suc i mod n)) (ring ! j) (ring ! (Suc j mod n))) [i + 2 ..< n]) [0 ..< n])"

section \<open>The nearest point\<close>

definition nearest_on_edge :: "(js_float \<Rightarrow> js_float) \<Rightarrow> (js_float \<Rightarrow> js_float \<Rightarrow> js_float) \<Rightarrow> position
    \<Rightarrow> position \<Rightarrow> position \<Rightarrow> (js_float \<times> js_float) \<times> js_float" where
  "nearest_on_edge js_cos js_hypot point r s = (let p = toMetres js_cos point point;
       a = toMetres js_cos r point; b = toMetres js_cos s point;
       dx = f_sub (fst b) (fst a); dy = f_sub (snd b) (snd a);
       length2 = f_add (f_mul dx dx) (f_mul dy dy);
       t = (if f_eq length2 (Fin 0) then Fin 0
            else f_max (Fin 0) (f_min (Fin 1)
              (f_div (f_add (f_mul (f_sub (fst p) (fst a)) dx) (f_mul (f_sub (snd p) (snd a)) dy)) length2)));
       candidate = (f_add (fst a) (f_mul t dx), f_add (snd a) (f_mul t dy))
     in (candidate, js_hypot (f_sub (fst candidate) (fst p)) (f_sub (snd candidate) (snd p))))"

fun edges :: "position list \<Rightarrow> (position \<times> position) list" where
  "edges (a # b # r) = (a, b) # edges (b # r)"
| "edges _ = []"

text \<open>An empty ring has no first corner to start from, and the code throws.\<close>

definition nearestPointOnZone :: "(js_float \<Rightarrow> js_float) \<Rightarrow> (js_float \<Rightarrow> js_float \<Rightarrow> js_float) \<Rightarrow> zone \<Rightarrow> position
    \<Rightarrow> position option" where
  "nearestPointOnZone js_cos js_hypot z point = (case exterior z of [] \<Rightarrow> None
     | r # _ \<Rightarrow> (let best = foldl (\<lambda>best e. let c = nearest_on_edge js_cos js_hypot point (fst e) (snd e)
             in if f_less (snd c) (snd best) then c else best)
           (toMetres js_cos r point, Pos_inf) (edges (exterior z))
         in Some (fromMetres js_cos (fst best) point)))"

section \<open>The contour editor's state\<close>

record draw_state =
  vertices :: "position list"
  closed :: bool
  selected :: "nat option"

definition EMPTY_DRAW :: draw_state where
  "EMPTY_DRAW = \<lparr>vertices = [], closed = False, selected = None\<rparr>"

definition drawFromZone :: "zone \<Rightarrow> draw_state" where
  "drawFromZone z = \<lparr>vertices = zoneVertices z, closed = True, selected = None\<rparr>"

definition drawRefusal :: "(js_float \<Rightarrow> js_float) \<Rightarrow> (nat \<Rightarrow> js_float \<Rightarrow> jsstring) \<Rightarrow> draw_state \<Rightarrow> jsstring option" where
  "drawRefusal js_cos locale_number s =
     (if closed s \<and> zoneSelfIntersects (vertices s) then Some ''Two edges cross or touch. Move a corner.''
      else if f_less (Fin MAX_ZONE_AREA_KM2) (zoneAreaKm2 js_cos (vertices s))
      then Some (''A site covers at most '' @ formatAreaKm2 locale_number (Fin MAX_ZONE_AREA_KM2) 0 @
        ''. Move the corners closer.'')
      else None)"

definition drawReady :: "(js_float \<Rightarrow> js_float) \<Rightarrow> (nat \<Rightarrow> js_float \<Rightarrow> jsstring) \<Rightarrow> draw_state \<Rightarrow> bool" where
  "drawReady js_cos locale_number s \<longleftrightarrow> closed s \<and> MIN_ZONE_VERTICES \<le> length (vertices s) \<and>
     drawRefusal js_cos locale_number s = None"

definition edgeMidpoints :: "position list \<Rightarrow> position list" where
  "edgeMidpoints vs = map (\<lambda>(v, i). let nxt = vs ! (Suc i mod length vs)
     in (f_div (f_add (fst v) (fst nxt)) (Fin 2), f_div (f_add (snd v) (snd nxt)) (Fin 2))) (zip vs [0 ..< length vs])"

text \<open>\<open>splice(edge + 1, 0, position)\<close> inserts at the end past it.\<close>

definition insertVertex :: "draw_state \<Rightarrow> nat \<Rightarrow> position \<Rightarrow> draw_state" where
  "insertVertex s e p = s\<lparr>vertices := take (Suc e) (vertices s) @ p # drop (Suc e) (vertices s), selected := Some (Suc e)\<rparr>"

text \<open>An index past the end would leave holes in the array: \<open>None\<close>.\<close>

definition moveVertex :: "draw_state \<Rightarrow> nat \<Rightarrow> position \<Rightarrow> draw_state option" where
  "moveVertex s i p = (if i < length (vertices s) then Some (s\<lparr>vertices := (vertices s)[i := p]\<rparr>)
     else if i = length (vertices s) then Some (s\<lparr>vertices := vertices s @ [p]\<rparr>) else None)"

definition removeVertex :: "draw_state \<Rightarrow> nat \<Rightarrow> draw_state" where
  "removeVertex s i = (if closed s \<and> length (vertices s) \<le> MIN_ZONE_VERTICES then s
     else s\<lparr>vertices := take i (vertices s) @ drop (Suc i) (vertices s), selected := None\<rparr>)"

section \<open>Corners and zones\<close>

text \<open>
  A drawn ring survives its zone: the corners of the zone made from them are the corners, and
  a zone whose ring is closed is made again from its corners.
\<close>

theorem corners_survive_the_zone:
  assumes "vs \<noteq> []"
  shows "\<exists>z. zoneFromVertices vs = Some z \<and> zoneVertices z = vs \<and> hd (exterior z) = last (exterior z)"
  using assms by (cases vs) (auto simp: zoneFromVertices_def zoneVertices_def exterior_def)

theorem closed_zone_is_made_again:
  assumes "coordinates z = [ring]" "2 \<le> length ring" "hd ring = last ring"
  shows "zoneFromVertices (zoneVertices z) = Some z"
proof -
  obtain a b r where ring: "ring = a # b # r" using assms(2) by (cases ring rule: remdups_adj.cases) auto
  then have "butlast ring \<noteq> []" "hd (butlast ring) = a" by simp_all
  then obtain t where t: "butlast ring = a # t" by (cases "butlast ring") auto
  have "last ring = a" using assms(3) ring by simp
  then have "butlast ring @ [a] = ring" using append_butlast_last_id [of ring] ring by simp
  then show ?thesis using assms(1) by (cases z) (simp add: zoneVertices_def exterior_def zoneFromVertices_def t)
qed

section \<open>What a crossing is\<close>

text \<open>The test does not depend on which of the two edges comes first.\<close>

lemma f_eq_sym: "f_eq x y = f_eq y x"
  by (auto simp: f_eq_def)

theorem touching_is_symmetric: "segmentsTouch p1 p2 q1 q2 = segmentsTouch q1 q2 p1 p2"
  by (auto simp: segmentsTouch_def Let_def)

text \<open>Coordinates of the planet, as the map gives them.\<close>

definition on_planet :: "position \<Rightarrow> bool" where
  "on_planet p \<longleftrightarrow> (\<exists>x y. p = (Fin x, Fin y) \<and> is_double x \<and> is_double y \<and> \<bar>x\<bar> \<le> 512 \<and> \<bar>y\<bar> \<le> 512)"

lemma planet_difference:
  assumes "\<bar>x\<bar> \<le> 512" "\<bar>y\<bar> \<le> (512 :: rat)"
  shows "\<exists>r. f_sub (Fin x) (Fin y) = Fin r"
proof -
  have "\<bar>x - y\<bar> \<le> pow2 10" using assms by (simp add: pow2_def abs_le_iff)
  from round_error_bound [OF this] show ?thesis by (auto simp: f_sub_def)
qed

lemma orientation_at_start:
  assumes "on_planet a" "on_planet b"
  shows "orientation a b a = Fin 0"
proof -
  obtain x y u v where e: "a = (Fin x, Fin y)" "b = (Fin u, Fin v)" "\<bar>x\<bar> \<le> 512" "\<bar>y\<bar> \<le> 512" "\<bar>u\<bar> \<le> 512" "\<bar>v\<bar> \<le> 512"
    using assms by (auto simp: on_planet_def)
  obtain r where "f_sub (Fin u) (Fin x) = Fin r" using planet_difference e by blast
  moreover obtain s where "f_sub (Fin v) (Fin y) = Fin s" using planet_difference e by blast
  ultimately show ?thesis by (simp add: orientation_def e) (simp add: f_sub_def f_sign_def)
qed

lemma planet_not_Nan: "on_planet p \<Longrightarrow> fst p \<noteq> Nan \<and> snd p \<noteq> Nan"
  by (auto simp: on_planet_def)

lemma start_on_segment: "on_planet a \<Longrightarrow> on_planet b \<Longrightarrow> onSegment a a b"
  using f_min_le f_max_ge by (simp add: onSegment_def planet_not_Nan)

lemma edges_at_one_corner_touch:
  assumes "on_planet p1" "on_planet p2"
  shows "segmentsTouch p1 p2 p1 q2"
  using orientation_at_start [OF assms] start_on_segment [OF assms]
  by (simp add: segmentsTouch_def Let_def f_eq_def)

text \<open>The ring drops a corner equal to the one before it, the last one before the first.\<close>

fun drop_repeats :: "'a \<Rightarrow> 'a list \<Rightarrow> 'a list" where
  "drop_repeats prev [] = []"
| "drop_repeats prev (v # vs) = (if v = prev then drop_repeats v vs else v # drop_repeats v vs)"

lemma drop_repeats_filter:
  "drop_repeats prev vs = map fst (filter (\<lambda>(v, u). v \<noteq> u) (zip vs (prev # vs)))"
  by (induction prev vs rule: drop_repeats.induct) auto

lemma drop_repeats_ends:
  "drop_repeats prev vs \<noteq> [] \<Longrightarrow> hd (drop_repeats prev vs) \<noteq> prev \<and> last (drop_repeats prev vs) = last vs"
proof (induction prev vs rule: drop_repeats.induct)
  case (2 prev v vs)
  show ?case
  proof (cases "drop_repeats v vs = []")
    case True
    have same: "drop_repeats w us = [] \<Longrightarrow> us \<noteq> [] \<Longrightarrow> last us = w" for w :: 'a and us
      by (induction w us rule: drop_repeats.induct) (auto split: if_splits)
    have "vs \<noteq> [] \<Longrightarrow> last vs = v" using same [OF True] .
    with True 2(3) show ?thesis by (auto split: if_splits)
  next
    case False
    then have "vs \<noteq> []" by auto
    with False 2 show ?thesis by auto
  qed
qed simp

lemma drop_repeats_adjacent:
  "Suc i < length (drop_repeats prev vs) \<Longrightarrow> drop_repeats prev vs ! i \<noteq> drop_repeats prev vs ! Suc i"
proof (induction prev vs arbitrary: i rule: drop_repeats.induct)
  case (2 prev v vs)
  show ?case
  proof (cases "v = prev \<or> i \<noteq> 0")
    case True
    with 2 show ?thesis by (cases i) auto
  next
    case False
    then have "drop_repeats v vs \<noteq> []" using 2(3) by auto
    then have "drop_repeats v vs ! 0 \<noteq> v" using drop_repeats_ends [of v vs] by (simp add: hd_conv_nth)
    with False show ?thesis by auto
  qed
qed simp

lemma ring_of_drop:
  assumes "\<forall>p \<in> set vs. on_planet p" "2 \<le> length vs"
  shows "ring_of vs = drop_repeats (last vs) vs"
proof -
  have prev: "vs ! ((i + length vs - 1) mod length vs) = (last vs # vs) ! i" if "i < length vs" for i
  proof (cases i)
    case 0
    moreover have "vs \<noteq> []" using assms(2) by auto
    ultimately show ?thesis using assms(2) by (simp add: last_conv_nth)
  next
    case (Suc k)
    then have "(i + length vs - 1) mod length vs = k" using that by simp
    then show ?thesis by (simp add: Suc)
  qed
  have eq: "zip vs (last vs # vs) = map (\<lambda>(v, i). (v, (last vs # vs) ! i)) (zip vs [0 ..< length vs])"
    by (rule nth_equalityI) simp_all
  have keep: "(length vs = 1 \<or> \<not> f_eq (fst v) (fst (vs ! ((i + length vs - 1) mod length vs))) \<or>
      \<not> f_eq (snd v) (snd (vs ! ((i + length vs - 1) mod length vs)))) \<longleftrightarrow> v \<noteq> (last vs # vs) ! i"
    if "(v, i) \<in> set (zip vs [0 ..< length vs])" for v i
  proof -
    have i: "i < length vs" "v \<in> set vs" using that by (auto simp: set_zip)
    then have "v \<noteq> (last vs # vs) ! i \<longleftrightarrow> fst v \<noteq> fst ((last vs # vs) ! i) \<or> snd v \<noteq> snd ((last vs # vs) ! i)"
      by (simp add: prod_eq_iff)
    then show ?thesis using planet_not_Nan [of v] i assms unfolding prev [OF i(1)] by (auto simp: f_eq_def)
  qed
  have "ring_of vs = map fst (filter (\<lambda>(v, i). v \<noteq> (last vs # vs) ! i) (zip vs [0 ..< length vs]))"
    unfolding ring_of_def Let_def using keep by (intro arg_cong [of _ _ "map fst"] filter_cong) auto
  also have "\<dots> = map fst (filter (\<lambda>(v, u). v \<noteq> u) (zip vs (last vs # vs)))"
    unfolding eq by (simp add: filter_map comp_def case_prod_unfold)
  finally show ?thesis by (simp add: drop_repeats_filter)
qed

text \<open>
  C22. A contour the editor finds simple visits no corner twice: past the repeats in a row, its
  corners are pairwise distinct.
\<close>

theorem simple_contour_has_distinct_corners:
  assumes "\<forall>p \<in> set vs. on_planet p" "MIN_ZONE_VERTICES \<le> length vs" "\<not> zoneSelfIntersects vs"
  shows "distinct (ring_of vs) \<and> MIN_ZONE_VERTICES \<le> length (ring_of vs)"
proof -
  define r where "r = ring_of vs"
  have n: "MIN_ZONE_VERTICES \<le> length r"
    using assms(2,3) by (auto simp: zoneSelfIntersects_def Let_def r_def split: if_splits)
  have drop: "r = drop_repeats (last vs) vs" unfolding r_def using assms(1,2)
    by (intro ring_of_drop) (simp_all add: MIN_ZONE_VERTICES_def)
  have planet: "on_planet p" if "p \<in> set r" for p
    using that assms(1) unfolding drop drop_repeats_filter by (auto dest: set_zip_leftD)
  have touch: "\<not> segmentsTouch (r ! i) (r ! (Suc i mod length r)) (r ! j) (r ! (Suc j mod length r))"
    if "i < length r" "i + 2 \<le> j" "j < length r" "\<not> (i = 0 \<and> j = length r - 1)" for i j
  proof -
    have "\<not> list_ex (\<lambda>i. list_ex (\<lambda>j. \<not> (i = 0 \<and> j = length r - 1) \<and>
        segmentsTouch (r ! i) (r ! (Suc i mod length r)) (r ! j) (r ! (Suc j mod length r))) [i + 2 ..< length r]) [0 ..< length r]"
      using assms(3) unfolding zoneSelfIntersects_def Let_def r_def [symmetric] if_not_P [OF n [unfolded not_less [symmetric]]]
      by (rule contrapos_nn) (rule disjI2)
    then have "\<forall>i \<in> {0 ..< length r}. \<forall>j \<in> {i + 2 ..< length r}. \<not> (\<not> (i = 0 \<and> j = length r - 1) \<and>
        segmentsTouch (r ! i) (r ! (Suc i mod length r)) (r ! j) (r ! (Suc j mod length r)))"
      unfolding list_ex_iff set_upt by blast
    from this [rule_format, of i j] that show ?thesis by (simp only: atLeastLessThan_iff simp_thms)
  qed
  have "r ! i \<noteq> r ! j" if ij: "i < j" "j < length r" for i j
  proof
    assume same: "r ! i = r ! j"
    consider "j = Suc i" | "i = 0" "j = length r - 1" | "i + 2 \<le> j" "\<not> (i = 0 \<and> j = length r - 1)" using ij by linarith
    then show False
    proof cases
      case 1
      then show False using drop_repeats_adjacent [of i "last vs" vs] ij same by (simp add: drop)
    next
      case 2
      have "r \<noteq> []" using ij by auto
      with drop_repeats_ends [of "last vs" vs] have "hd r \<noteq> last r" by (simp add: drop [symmetric])
      with 2 same \<open>r \<noteq> []\<close> show False by (simp add: hd_conv_nth last_conv_nth)
    next
      case 3
      have "Suc i mod length r < length r" using ij by simp
      then have "segmentsTouch (r ! i) (r ! (Suc i mod length r)) (r ! i) (r ! (Suc j mod length r))"
        using ij planet by (intro edges_at_one_corner_touch) simp_all
      with touch [of i j] 3 ij same show False by simp
    qed
  qed
  then have "distinct r" by (simp add: distinct_conv_nth) (metis linorder_neqE_nat)
  with n show ?thesis by (simp add: r_def)
qed

definition triangle :: "position list" where
  "triangle = [(Fin 0, Fin 0), (Fin 1, Fin 0), (Fin 0, Fin 1)]"

text \<open>A triangle is simple when no corner folds back: no two of its edges fail to follow each other.\<close>

lemma ring_of_triangle:
  assumes "a \<noteq> b" "b \<noteq> c" "c \<noteq> a" "on_planet a" "on_planet b" "on_planet c"
  shows "ring_of [a, b, c] = [a, b, c]"
  using assms ring_of_drop [of "[a, b, c]"] by auto

lemma triangle_contour:
  assumes "ring_of [a, b, c] = [a, b, c]" "\<not> foldsBack c a b" "\<not> foldsBack a b c" "\<not> foldsBack b c a"
  shows "\<not> zoneSelfIntersects [a, b, c]"
proof -
  have u: "[0 ..< 3] = [0, 1, 2 :: nat]" "[0 + 2 ..< 3] = [2 :: nat]" "[1 + 2 ..< 3] = ([] :: nat list)"
    "[2 + 2 ..< 3] = ([] :: nat list)" by (simp_all add: upt_rec)
  have l: "length [a, b, c] = 3" by simp
  show ?thesis
    unfolding zoneSelfIntersects_def Let_def assms(1) l u using assms
    by (simp add: MIN_ZONE_VERTICES_def upt_rec)
qed

lemma no_fold: "orientation a b c \<noteq> Fin 0 \<Longrightarrow> \<not> foldsBack a b c"
  by (simp add: foldsBack_def f_eq_def)

lemma triangle_simple: "\<not> zoneSelfIntersects triangle" "\<forall>p \<in> set triangle. on_planet p"
proof -
  show p: "\<forall>p \<in> set triangle. on_planet p" by (simp add: triangle_def on_planet_def)
  then have "ring_of [(Fin 0, Fin 0), (Fin 1, Fin 0), (Fin 0, Fin 1)] = [(Fin 0, Fin 0), (Fin 1, Fin 0), (Fin 0, Fin 1)]"
    by (intro ring_of_triangle) (simp_all add: triangle_def)
  then show "\<not> zoneSelfIntersects triangle"
    unfolding triangle_def
    by (rule triangle_contour) (rule no_fold, simp add: orientation_def f_sub_def f_sign_def)+
qed

lemma simple_contour_has_distinct_corners_witness:
  "distinct (ring_of triangle) \<and> MIN_ZONE_VERTICES \<le> length (ring_of triangle)"
  by (rule simple_contour_has_distinct_corners) (simp_all add: triangle_simple, simp add: triangle_def MIN_ZONE_VERTICES_def)

end
