(* ===== verification/Contour_Editor.thy ===== *)
theory Contour_Editor
  imports Site_Zone
begin

text \<open>
  The contour editor: the undo stack of \<open>useDrawHistory\<close> (\<open>components/sites/ZoneEditor.tsx\<close>), its
  toolbar, the pointer handlers of \<open>components/map/ZoneDrawMap.tsx\<close> and \<open>useLayerDrag.ts\<close>, and
  what \<open>ContourDraft\<close> (\<open>SiteFormFields.tsx\<close>) reports. A press carries the property of the drawn
  feature it hit (a corner or an edge of the ring as drawn), a click whether it hit one and how far
  it is from the first corner on screen.
\<close>

definition UNDO_DEPTH :: nat where
  "UNDO_DEPTH = 50"

record draw_history =
  hist_state :: draw_state
  hist_past :: "draw_state list"

definition history_start :: "draw_state \<Rightarrow> draw_history" where
  "history_start initial = \<lparr>hist_state = initial, hist_past = []\<rparr>"

definition slice_last :: "nat \<Rightarrow> 'a list \<Rightarrow> 'a list" where
  "slice_last n xs = drop (length xs - n) xs"

definition change_draw :: "draw_state \<Rightarrow> bool \<Rightarrow> draw_history \<Rightarrow> draw_history" where
  "change_draw nxt transient h = \<lparr>hist_state = nxt,
     hist_past = (if transient then hist_past h else slice_last (UNDO_DEPTH - 1) (hist_past h) @ [hist_state h])\<rparr>"

definition undo_draw :: "draw_history \<Rightarrow> draw_history" where
  "undo_draw h = (case hist_past h of [] \<Rightarrow> h
     | p # ps \<Rightarrow> \<lparr>hist_state = last (p # ps), hist_past = butlast (p # ps)\<rparr>)"

definition can_undo :: "draw_history \<Rightarrow> bool" where
  "can_undo h \<longleftrightarrow> hist_past h \<noteq> []"

section \<open>The toolbar\<close>

definition can_remove :: "draw_state \<Rightarrow> bool" where
  "can_remove s \<longleftrightarrow> selected s \<noteq> None \<and> (\<not> closed s \<or> MIN_ZONE_VERTICES < length (vertices s))"

definition closed_ring :: "draw_state \<Rightarrow> draw_state" where
  "closed_ring s = s\<lparr>closed := True, selected := None\<rparr>"

section \<open>The pointer\<close>

definition CLOSE_SNAP_PX :: rat where
  "CLOSE_SNAP_PX = 12"

datatype drawn_feature = Corner nat | Edge nat

text \<open>The handler of a press: what to change to, and the corner the drag moves.\<close>

definition grab_feature :: "draw_state \<Rightarrow> drawn_feature option \<Rightarrow> position \<Rightarrow> (draw_state \<times> nat) option" where
  "grab_feature s hit p = (if \<not> closed s then None
     else case hit of
         Some (Corner i) \<Rightarrow> Some (s\<lparr>selected := Some i\<rparr>, i)
       | Some (Edge e) \<Rightarrow> Some (insertVertex s e p, Suc e)
       | None \<Rightarrow> None)"

definition click_draw :: "draw_state \<Rightarrow> bool \<Rightarrow> js_float \<Rightarrow> position \<Rightarrow> draw_state option" where
  "click_draw s hit distance p = (if closed s
     then (if \<not> hit \<and> selected s \<noteq> None then Some (s\<lparr>selected := None\<rparr>) else None)
     else if MIN_ZONE_VERTICES \<le> length (vertices s) \<and> f_le distance (Fin CLOSE_SNAP_PX) then Some (closed_ring s)
     else Some (s\<lparr>vertices := vertices s @ [p]\<rparr>))"

text \<open>The editor: its history, the corner the last grab took, and whether a drag is under way.\<close>

record editor =
  ed_history :: draw_history
  ed_drag :: "nat option"
  ed_dragging :: bool

abbreviation ed_state :: "editor \<Rightarrow> draw_state" where
  "ed_state e \<equiv> hist_state (ed_history e)"

definition ed_change :: "draw_state \<Rightarrow> bool \<Rightarrow> editor \<Rightarrow> editor" where
  "ed_change nxt transient e = e\<lparr>ed_history := change_draw nxt transient (ed_history e)\<rparr>"

definition editor_start :: "draw_state \<Rightarrow> editor" where
  "editor_start initial = \<lparr>ed_history = history_start initial, ed_drag = None, ed_dragging = False\<rparr>"

text \<open>The features a press can hit are those drawn: a corner of the ring, or an edge of a closed one.\<close>

fun drawn :: "draw_state \<Rightarrow> drawn_feature option \<Rightarrow> bool" where
  "drawn s (Some (Corner i)) = (i < length (vertices s))"
| "drawn s (Some (Edge e)) = (closed s \<and> e < length (vertices s))"
| "drawn s None = True"

definition press_draw :: "drawn_feature option \<Rightarrow> position \<Rightarrow> editor \<Rightarrow> editor" where
  "press_draw hit p e = (case grab_feature (ed_state e) hit p of
       Some (s, i) \<Rightarrow> (ed_change s False e)\<lparr>ed_drag := Some i, ed_dragging := True\<rparr>
     | None \<Rightarrow> e)"

text \<open>A move past the end of the ring has no model (\<open>moveVertex\<close>).\<close>

definition drag_draw :: "position \<Rightarrow> editor \<Rightarrow> editor option" where
  "drag_draw p e = (if \<not> ed_dragging e then Some e
     else case ed_drag e of None \<Rightarrow> Some e
       | Some i \<Rightarrow> map_option (\<lambda>s. ed_change s True e) (moveVertex (ed_state e) i p))"

text \<open>Every way the state changes.\<close>

inductive editor_step :: "zone option \<Rightarrow> editor \<Rightarrow> editor \<Rightarrow> bool" for reference where
  press: "drawn (ed_state e) hit \<Longrightarrow> editor_step reference e (press_draw hit p e)"
| drag: "drag_draw p e = Some e' \<Longrightarrow> editor_step reference e e'"
| release: "editor_step reference e (e\<lparr>ed_dragging := False\<rparr>)"
| click: "click_draw (ed_state e) hit distance p = Some s \<Longrightarrow> editor_step reference e (ed_change s False e)"
| undo: "can_undo (ed_history e) \<Longrightarrow> editor_step reference e (e\<lparr>ed_history := undo_draw (ed_history e)\<rparr>)"
| remove: "closed (ed_state e) \<Longrightarrow> can_remove (ed_state e) \<Longrightarrow> selected (ed_state e) = Some i \<Longrightarrow>
    editor_step reference e (ed_change (removeVertex (ed_state e) i) False e)"
| close: "\<not> closed (ed_state e) \<Longrightarrow> MIN_ZONE_VERTICES \<le> length (vertices (ed_state e)) \<Longrightarrow>
    editor_step reference e (ed_change (closed_ring (ed_state e)) False e)"
| start_over: "vertices (ed_state e) \<noteq> [] \<Longrightarrow> editor_step reference e (ed_change EMPTY_DRAW False e)"
| reset: "reference = Some z \<Longrightarrow> editor_step reference e (ed_change (drawFromZone z) False e)"

section \<open>What the contour draft reports\<close>

datatype contour_value = Same_contour | No_contour | Open_ring | New_contour zone

text \<open>\<open>JSON.stringify\<close> of the corners compares them as numbers, all but the finite ones as \<open>null\<close>.\<close>

definition number_json :: "js_float \<Rightarrow> jsstring" where
  "number_json x = (if f_finite x then f_text x else ''null'')"

definition corners_json :: "position list \<Rightarrow> (jsstring \<times> jsstring) list" where
  "corners_json vs = map (\<lambda>(x, y). (number_json x, number_json y)) vs"

definition contour_report :: "(js_float \<Rightarrow> js_float) \<Rightarrow> (nat \<Rightarrow> js_float \<Rightarrow> jsstring) \<Rightarrow> zone option \<Rightarrow> draw_state
    \<Rightarrow> contour_value option" where
  "contour_report js_cos locale_number live s =
     (let baseline = corners_json (case live of Some z \<Rightarrow> zoneVertices z | None \<Rightarrow> [])
      in if corners_json (vertices s) = baseline \<and> (closed s \<or> live = None) then Some Same_contour
         else if vertices s = [] then Some No_contour
         else if drawReady js_cos locale_number s then map_option New_contour (zoneFromVertices (vertices s))
         else Some Open_ring)"

section \<open>The invariant\<close>

text \<open>A closed ring keeps its three corners, and only a closed ring has a picked corner, one of its own.\<close>

definition draw_ok :: "draw_state \<Rightarrow> bool" where
  "draw_ok s \<longleftrightarrow> (closed s \<longrightarrow> MIN_ZONE_VERTICES \<le> length (vertices s)) \<and>
     (case selected s of None \<Rightarrow> True | Some i \<Rightarrow> closed s \<and> i < length (vertices s))"

definition history_ok :: "draw_history \<Rightarrow> bool" where
  "history_ok h \<longleftrightarrow> draw_ok (hist_state h) \<and> list_all draw_ok (hist_past h) \<and> length (hist_past h) \<le> UNDO_DEPTH"

definition zone_ok :: "zone \<Rightarrow> bool" where
  "zone_ok z \<longleftrightarrow> MIN_ZONE_VERTICES \<le> length (zoneVertices z)"

lemma draw_ok_basic [simp]: "draw_ok EMPTY_DRAW" "zone_ok z \<Longrightarrow> draw_ok (drawFromZone z)"
  by (simp_all add: draw_ok_def EMPTY_DRAW_def drawFromZone_def zone_ok_def)

lemma insert_ok: "draw_ok s \<Longrightarrow> closed s \<Longrightarrow> e < length (vertices s) \<Longrightarrow> draw_ok (insertVertex s e p)"
  by (auto simp: draw_ok_def insertVertex_def)

lemma move_ok: "draw_ok s \<Longrightarrow> moveVertex s i p = Some s' \<Longrightarrow> draw_ok s'"
  by (auto simp: draw_ok_def moveVertex_def split: if_splits option.splits)

lemma remove_ok: "draw_ok s \<Longrightarrow> draw_ok (removeVertex s i)"
  by (auto simp: draw_ok_def removeVertex_def)

lemma close_ok: "MIN_ZONE_VERTICES \<le> length (vertices s) \<Longrightarrow> draw_ok (closed_ring s)"
  by (simp add: draw_ok_def closed_ring_def)

lemma click_ok: "draw_ok s \<Longrightarrow> click_draw s hit distance p = Some s' \<Longrightarrow> draw_ok s'"
  by (auto simp: click_draw_def draw_ok_def closed_ring_def split: if_splits option.splits)

lemma grab_ok: "draw_ok s \<Longrightarrow> drawn s hit \<Longrightarrow> grab_feature s hit p = Some (s', i) \<Longrightarrow> draw_ok s'"
  by (auto simp: grab_feature_def insert_ok draw_ok_def split: if_splits option.splits drawn_feature.splits)
    (auto simp: insertVertex_def)

lemma change_history_ok: "history_ok h \<Longrightarrow> draw_ok s \<Longrightarrow> history_ok (change_draw s transient h)"
  by (auto simp: history_ok_def change_draw_def slice_last_def list_all_iff UNDO_DEPTH_def dest: in_set_dropD)

lemma undo_history_ok: "history_ok h \<Longrightarrow> history_ok (undo_draw h)"
  by (auto simp: history_ok_def undo_draw_def list_all_iff split: list.splits dest: in_set_butlastD)

lemma editor_step_ok:
  assumes "editor_step reference e e'" "history_ok (ed_history e)" "pred_option zone_ok reference"
  shows "history_ok (ed_history e')"
proof -
  have s: "draw_ok (ed_state e)" using assms(2) by (simp add: history_ok_def)
  have c: "history_ok (ed_history (ed_change t b e))" if "draw_ok t" for t b
    using change_history_ok [OF assms(2) that] by (simp add: ed_change_def)
  from assms(1) show ?thesis
  proof cases
    case (press hit p)
    then show ?thesis using c grab_ok [OF s] assms(2) by (auto simp: press_draw_def split: option.splits)
  next
    case (drag p)
    have "history_ok (ed_history (ed_change t True e))" if "moveVertex (ed_state e) i p = Some t" for i t
      by (rule c [OF move_ok [OF s that]])
    with drag assms(2) show ?thesis by (auto simp: drag_draw_def split: if_splits option.splits)
  next
    case (click hit distance p t)
    then show ?thesis using c click_ok [OF s] by blast
  next
    case undo
    then show ?thesis using undo_history_ok [OF assms(2)] by simp
  next
    case (reset z)
    then show ?thesis using c assms(3) by simp
  qed (use assms(2) c remove_ok [OF s] close_ok in auto)
qed

text \<open>
  C23. Whatever the analyst does in the editor, in any order and with undo, a closed ring has at
  least three corners, only a closed ring has a corner picked and it is one of its own, and the
  undo stack never passes its depth.
\<close>

theorem editor_invariant:
  assumes "(editor_step reference)\<^sup>*\<^sup>* (editor_start initial) e" "draw_ok initial" "pred_option zone_ok reference"
  shows "history_ok (ed_history e)"
  using assms(1)
proof (induction rule: rtranclp_induct)
  case base
  show ?case using assms(2) by (simp add: editor_start_def history_start_def history_ok_def)
next
  case (step y z)
  then show ?case using editor_step_ok assms(3) by blast
qed

section \<open>One gesture, one undo\<close>

fun drags :: "position list \<Rightarrow> editor \<Rightarrow> editor option" where
  "drags [] e = Some e"
| "drags (p # ps) e = Option.bind (drag_draw p e) (drags ps)"

lemma undo_snoc: "hist_past h = xs @ [x] \<Longrightarrow> undo_draw h = \<lparr>hist_state = x, hist_past = xs\<rparr>"
  by (cases xs) (auto simp: undo_draw_def)

lemma drags_keep:
  assumes "ed_dragging e" "ed_drag e = Some i" "i < length (vertices (ed_state e))"
  shows "\<exists>e'. drags ps e = Some e' \<and> hist_past (ed_history e') = hist_past (ed_history e) \<and>
    length (vertices (ed_state e')) = length (vertices (ed_state e))"
  using assms
proof (induction ps arbitrary: e)
  case (Cons p ps)
  let ?s = "(ed_state e)\<lparr>vertices := (vertices (ed_state e))[i := p]\<rparr>"
  have step: "drag_draw p e = Some (ed_change ?s True e)" using Cons.prems by (simp add: drag_draw_def moveVertex_def)
  have "\<exists>e'. drags ps (ed_change ?s True e) = Some e' \<and>
      hist_past (ed_history e') = hist_past (ed_history (ed_change ?s True e)) \<and>
      length (vertices (ed_state e')) = length (vertices (ed_state (ed_change ?s True e)))"
    using Cons.prems by (intro Cons.IH) (simp_all add: ed_change_def change_draw_def)
  then show ?case by (simp add: step ed_change_def change_draw_def)
qed simp

text \<open>
  A grab of a corner or of an edge's dot never leaves the ring with holes however it is dragged,
  and one undo takes the whole gesture back: the state before the press.
\<close>

theorem one_undo_takes_a_gesture_back:
  assumes "closed (ed_state e)" "drawn (ed_state e) (Some hit)"
  shows "\<exists>e'. drags ps (press_draw (Some hit) p e) = Some e' \<and>
    hist_state (undo_draw (ed_history e')) = ed_state e \<and>
    hist_past (undo_draw (ed_history e')) = slice_last (UNDO_DEPTH - 1) (hist_past (ed_history e))"
proof -
  obtain s i where g: "grab_feature (ed_state e) (Some hit) p = Some (s, i)" and i: "i < length (vertices s)"
    using assms by (cases hit) (auto simp: grab_feature_def insertVertex_def)
  define e1 where "e1 = press_draw (Some hit) p e"
  have e1: "ed_dragging e1" "ed_drag e1 = Some i" "ed_state e1 = s"
    "hist_past (ed_history e1) = slice_last (UNDO_DEPTH - 1) (hist_past (ed_history e)) @ [ed_state e]"
    by (simp_all add: e1_def press_draw_def g ed_change_def change_draw_def)
  obtain e' where e': "drags ps e1 = Some e'" "hist_past (ed_history e') = hist_past (ed_history e1)"
    using drags_keep [OF e1(1,2), of ps] i e1(3) by auto
  then have "undo_draw (ed_history e') = \<lparr>hist_state = ed_state e, hist_past = slice_last (UNDO_DEPTH - 1) (hist_past (ed_history e))\<rparr>"
    by (intro undo_snoc) (simp add: e1(4))
  with e'(1) show ?thesis by (simp add: e1_def)
qed

section \<open>What reaches the form\<close>

text \<open>
  A new contour is reported only for a closed ring the API takes: simple, of at least three
  corners, within the area cap, and its zone's corners are the ring drawn.
\<close>

theorem reported_contour_is_ready:
  assumes "contour_report js_cos locale_number live s = Some (New_contour z)"
  shows "closed s \<and> \<not> zoneSelfIntersects (vertices s) \<and> MIN_ZONE_VERTICES \<le> length (vertices s) \<and>
    \<not> f_less (Fin MAX_ZONE_AREA_KM2) (zoneAreaKm2 js_cos (vertices s)) \<and> zoneVertices z = vertices s"
proof -
  have ready: "drawReady js_cos locale_number s" and z: "zoneFromVertices (vertices s) = Some z" and ne: "vertices s \<noteq> []"
    using assms by (auto simp: contour_report_def Let_def split: if_splits)
  have "zoneVertices z = vertices s" using corners_survive_the_zone [OF ne] z by auto
  with ready show ?thesis by (auto simp: drawReady_def drawRefusal_def split: if_splits)
qed

text \<open>The report is always defined, and an untouched contour reports no change.\<close>

lemma untouched_contour_reports_nothing:
  "contour_report js_cos locale_number (Some z) (drawFromZone z) = Some Same_contour"
  "contour_report js_cos locale_number None EMPTY_DRAW = Some Same_contour"
  by (simp_all add: contour_report_def drawFromZone_def EMPTY_DRAW_def Let_def)

lemma contour_report_total: "contour_report js_cos locale_number live s \<noteq> None"
  using corners_survive_the_zone [of "vertices s"] by (auto simp: contour_report_def Let_def)

section \<open>Witnesses\<close>

definition first_corner :: editor where
  "first_corner = ed_change (EMPTY_DRAW\<lparr>vertices := [(Fin 0, Fin 0)]\<rparr>) False (editor_start EMPTY_DRAW)"

lemma editor_invariant_witness: "history_ok (ed_history first_corner) \<and> can_undo (ed_history first_corner)"
proof
  have "click_draw (ed_state (editor_start EMPTY_DRAW)) False Nan (Fin 0, Fin 0) =
      Some (EMPTY_DRAW\<lparr>vertices := [(Fin 0, Fin 0)]\<rparr>)"
    by (simp add: click_draw_def editor_start_def history_start_def EMPTY_DRAW_def MIN_ZONE_VERTICES_def)
  then have "editor_step None (editor_start EMPTY_DRAW) first_corner"
    unfolding first_corner_def by (rule editor_step.click)
  then have "(editor_step None)\<^sup>*\<^sup>* (editor_start EMPTY_DRAW) first_corner" by (rule r_into_rtranclp)
  then show "history_ok (ed_history first_corner)" by (rule editor_invariant) simp_all
  show "can_undo (ed_history first_corner)"
    by (simp add: first_corner_def ed_change_def change_draw_def can_undo_def)
qed

definition triangle_editor :: editor where
  "triangle_editor = editor_start \<lparr>vertices = triangle, closed = True, selected = None\<rparr>"

lemma one_undo_takes_a_gesture_back_witness:
  "\<exists>e'. drags [(Fin 2, Fin 2), (Fin 3, Fin 3)] (press_draw (Some (Edge 1)) (Fin 1, Fin 1) triangle_editor) = Some e' \<and>
    hist_state (undo_draw (ed_history e')) = ed_state triangle_editor"
  using one_undo_takes_a_gesture_back [of triangle_editor "Edge 1" "[(Fin 2, Fin 2), (Fin 3, Fin 3)]" "(Fin 1, Fin 1)"]
  by (auto simp: triangle_editor_def editor_start_def history_start_def triangle_def)

text \<open>A contour an eighth of a degree wide, with the cosine of the equator.\<close>

definition small_ring :: "position list" where
  "small_ring = [(Fin 0, Fin 0), (Fin (1 / 8), Fin 0), (Fin 0, Fin (1 / 8))]"

lemma eighth_double [simp]: "is_double (1 / 8)" "is_double (1 / 64)"
  using is_double_multiple [of "1 / 8" 1 "-3"] is_double_multiple [of "1 / 64" 1 "-6"] by (simp_all add: pow2_def)

lemma small_ring_simple: "\<not> zoneSelfIntersects small_ring"
  unfolding small_ring_def
proof (rule triangle_contour)
  show "ring_of [(Fin 0, Fin 0), (Fin (1 / 8), Fin 0), (Fin 0, Fin (1 / 8))] =
      [(Fin 0, Fin 0), (Fin (1 / 8), Fin 0), (Fin 0, Fin (1 / 8))]"
  proof (rule ring_of_triangle)
    show "on_planet (Fin 0, Fin 0)" by (simp add: on_planet_def)
    show "on_planet (Fin (1 / 8), Fin 0)" "on_planet (Fin 0, Fin (1 / 8))"
      unfolding on_planet_def by (rule exI [of _ "1 / 8"], simp, rule exI [of _ 0], simp add: exI [of _ "1 / 8"])+
  qed simp_all
qed (rule no_fold, simp add: orientation_def f_sub_def f_sign_def)+

lemma f_round_between:
  assumes "a \<le> x" "x \<le> b" "is_double a" "is_double b"
  obtains r where "f_round x = Fin r" "a \<le> r" "r \<le> b" "is_double r"
proof -
  obtain r where r: "f_round x = Fin r" "a \<le> r" "r \<le> b"
    using f_between_finite [OF f_round_ge [OF assms(3,1)] f_round_le [OF assms(4,2)]] by blast
  moreover have "is_double r" using f_round_ok [of x] r(1) by simp
  ultimately show ?thesis using that by blast
qed

lemma metres_bound: obtains m where "metres_per_degree = Fin m" "0 \<le> m" "m \<le> 262144"
proof -
  have d: "is_double (1 / 32)" using is_double_multiple [of "1 / 32" 1 "-5"] by (simp add: pow2_def)
  obtain p where p: "f_round (884279719003555 / 281474976710656 / 180) = Fin p" "0 \<le> p" "p \<le> 1 / 32"
    using f_round_between [of 0 "884279719003555 / 281474976710656 / 180" "1 / 32"] d by auto
  obtain r where r: "f_round (63710088 / 10) = Fin r" "0 \<le> r" "r \<le> 6371009"
    using f_round_between [of 0 "63710088 / 10" 6371009] by auto
  have "p * r \<le> 1 / 32 * 6371009" using p r by (intro mult_mono) simp_all
  then have "p * r \<le> 262144" by simp
  moreover have "0 \<le> p * r" using p r by simp
  ultimately obtain m where "f_round (p * r) = Fin m" "0 \<le> m" "m \<le> 262144"
    using f_round_between [of 0 "p * r" 262144] by auto
  then show ?thesis using that p(1) r(1)
    by (simp add: metres_per_degree_def MATH_PI_def EARTH_RADIUS_M_def)
qed

lemma small_ring_area: "\<not> f_less (Fin MAX_ZONE_AREA_KM2) (zoneAreaKm2 (\<lambda>_. Fin 1) small_ring)"
proof -
  obtain m where m: "metres_per_degree = Fin m" "0 \<le> m" "m \<le> 262144" by (rule metres_bound)
  obtain k where k: "f_round (m / 8) = Fin k" "0 \<le> k" "k \<le> 32768" "is_double k"
    using f_round_between [of 0 "m / 8" 32768] m by auto
  have "k * k \<le> 32768 * 32768" using k by (intro mult_mono) simp_all
  then obtain q where q: "f_round (k * k) = Fin q" "0 \<le> q" "q \<le> 1073741824" "is_double q"
    using f_round_between [of 0 "k * k" 1073741824] k by auto
  obtain h where h: "f_round (q / 2) = Fin h" "0 \<le> h" "h \<le> 536870912"
    using f_round_between [of 0 "q / 2" 536870912] q by auto
  obtain a where a: "f_round (h / 1000000) = Fin a" "a \<le> 1000"
    using f_round_between [of 0 "h / 1000000" 1000] h by auto
  have pts: "map (\<lambda>v. toMetres (\<lambda>_. Fin 1) v (small_ring ! 0)) small_ring = [(Fin 0, Fin 0), (Fin k, Fin 0), (Fin 0, Fin k)]"
    using k by (simp add: small_ring_def toMetres_def f_sub_def m cos_of_degrees_def)
  have "zoneAreaKm2 (\<lambda>_. Fin 1) small_ring = Fin a"
    unfolding zoneAreaKm2_def Let_def pts using k q h a
    by (simp add: small_ring_def MIN_ZONE_VERTICES_def upt_rec f_sub_def)
  then show ?thesis using a by (simp add: MAX_ZONE_AREA_KM2_def)
qed

lemma reported_contour_is_ready_witness:
  "\<exists>z. contour_report (\<lambda>_. Fin 1) (\<lambda>_ _. ''1,000'') None \<lparr>vertices = small_ring, closed = True, selected = None\<rparr> =
      Some (New_contour z) \<and> zoneVertices z = small_ring \<and> \<not> zoneSelfIntersects small_ring"
proof -
  obtain z where z: "zoneFromVertices small_ring = Some z" by (simp add: zoneFromVertices_def small_ring_def)
  have "drawReady (\<lambda>_. Fin 1) (\<lambda>_ _. ''1,000'') \<lparr>vertices = small_ring, closed = True, selected = None\<rparr>"
    using small_ring_simple small_ring_area
    by (simp add: drawReady_def drawRefusal_def MIN_ZONE_VERTICES_def) (simp add: small_ring_def)
  moreover have "corners_json small_ring \<noteq> corners_json []" "small_ring \<noteq> []"
    by (simp_all add: small_ring_def corners_json_def)
  ultimately have r: "contour_report (\<lambda>_. Fin 1) (\<lambda>_ _. ''1,000'') None \<lparr>vertices = small_ring, closed = True, selected = None\<rparr> =
      Some (New_contour z)" by (simp add: contour_report_def z)
  from reported_contour_is_ready [OF r] r show ?thesis by auto
qed

end
