(* ===== verification/Cursor_List.thy ===== *)
theory Cursor_List
  imports Api_Errors Js_Text
begin

text \<open>
  \<open>hooks/useCursorList.ts\<close>: the rows of a cursor-paged list. The hook's state, refs and requests in
  flight are one record; a render with new props runs the adjustment made during render and then the
  first-page effect, where one of its dependencies changed. Each event is followed by such a render. A
  page is its payload and the cursor of its \<open>Link\<close> header; \<open>rows\<close> and \<open>pick\<close> are the hook's stable
  \<open>rows\<close> and \<open>next\<close>.
\<close>

section \<open>The hook\<close>

record list_config =
  lc_build :: "jsstring option \<Rightarrow> jsstring option"
  lc_body :: "jsstring option"

record 'i paged_result =
  pr_items :: "'i list"
  pr_cursor :: "jsstring option"
  pr_error :: "readable_error option"
  pr_generation :: int

record list_request =
  lr_started :: nat
  lr_path :: jsstring
  lr_body :: "jsstring option"
  lr_aborted :: bool

record 'i cursor_list =
  cl_config :: list_config
  cl_result :: "'i paged_result"
  cl_loading_more :: bool
  cl_token :: nat
  cl_key :: jsstring
  cl_generation :: nat
  cl_first :: "list_request option"
  cl_more :: "list_request option"

type_synonym 'p answer = "thrown + 'p \<times> jsstring option"

definition first_path :: "list_config \<Rightarrow> jsstring option" where
  "first_path cfg = lc_build cfg None"

text \<open>The template literal prints an absent path as \<open>null\<close>.\<close>

definition walk_key :: "nat \<Rightarrow> list_config \<Rightarrow> jsstring" where
  "walk_key token cfg = nat_text token @ '':'' @ (case first_path cfg of Some p \<Rightarrow> p | None \<Rightarrow> ''null'') @ '':'' @
     (case lc_body cfg of Some b \<Rightarrow> b | None \<Rightarrow> [])"

text \<open>The first-page effect and its cleanup.\<close>

definition start_walk :: "'i cursor_list \<Rightarrow> 'i cursor_list" where
  "start_walk st = st\<lparr>cl_first := map_option (\<lambda>p. \<lparr>lr_started = cl_generation st, lr_path = p, lr_body = lc_body (cl_config st),
     lr_aborted = False\<rparr>) (first_path (cl_config st))\<rparr>"

definition abort_walk :: "'i cursor_list \<Rightarrow> 'i cursor_list" where
  "abort_walk st = st\<lparr>cl_first := None, cl_more := map_option (\<lambda>m. m\<lparr>lr_aborted := True\<rparr>) (cl_more st)\<rparr>"

definition list_render :: "list_config \<Rightarrow> 'i cursor_list \<Rightarrow> 'i cursor_list" where
  "list_render cfg st =
     (let key = walk_key (cl_token st) cfg;
          generation = (if cl_key st \<noteq> key then cl_generation st + 1 else cl_generation st);
          changed = (first_path cfg \<noteq> first_path (cl_config st) \<or> generation \<noteq> cl_generation st \<or>
            lc_body cfg \<noteq> lc_body (cl_config st));
          next = st\<lparr>cl_config := cfg, cl_key := key, cl_generation := generation\<rparr>
      in if changed then start_walk (abort_walk next) else next)"

definition list_mount :: "list_config \<Rightarrow> 'i cursor_list" where
  "list_mount cfg = start_walk
     \<lparr>cl_config = cfg, cl_result = \<lparr>pr_items = [], pr_cursor = None, pr_error = None, pr_generation = -1\<rparr>,
      cl_loading_more = False, cl_token = 0, cl_key = walk_key 0 cfg, cl_generation = 0, cl_first = None, cl_more = None\<rparr>"

text \<open>The answer to the first page; an aborted request's answer is dropped.\<close>

definition first_lands ::
    "('p \<Rightarrow> 'i list) \<Rightarrow> ('p \<times> jsstring option \<Rightarrow> jsstring option) \<Rightarrow> 'p answer \<Rightarrow> 'i cursor_list \<Rightarrow> 'i cursor_list" where
  "first_lands rows pick answer st = (case cl_first st of
       None \<Rightarrow> st
     | Some r \<Rightarrow> st\<lparr>cl_first := None, cl_result := (case answer of
           Inr page \<Rightarrow> \<lparr>pr_items = rows (fst page), pr_cursor = pick page, pr_error = None, pr_generation = int (lr_started r)\<rparr>
         | Inl err \<Rightarrow> \<lparr>pr_items = [], pr_cursor = None, pr_error = Some (read_error err SOMETHING_WENT_WRONG),
             pr_generation = int (lr_started r)\<rparr>)\<rparr>)"

text \<open>What the hook reports.\<close>

definition fresh_result :: "'i cursor_list \<Rightarrow> 'i paged_result option" where
  "fresh_result st = (if pr_generation (cl_result st) = int (cl_generation st) then Some (cl_result st) else None)"

definition shown_items :: "'i cursor_list \<Rightarrow> 'i list" where
  "shown_items st = (case fresh_result st of Some r \<Rightarrow> pr_items r | None \<Rightarrow> [])"

definition shown_cursor :: "'i cursor_list \<Rightarrow> jsstring option" where
  "shown_cursor st = (case fresh_result st of Some r \<Rightarrow> pr_cursor r | None \<Rightarrow> None)"

definition shown_error :: "'i cursor_list \<Rightarrow> readable_error option" where
  "shown_error st = (case fresh_result st of Some r \<Rightarrow> pr_error r | None \<Rightarrow> None)"

definition list_loading :: "'i cursor_list \<Rightarrow> bool" where
  "list_loading st \<longleftrightarrow> first_path (cl_config st) \<noteq> None \<and> fresh_result st = None"

definition has_more :: "'i cursor_list \<Rightarrow> bool" where
  "has_more st \<longleftrightarrow> shown_cursor st \<noteq> None"

definition load_more :: "'i cursor_list \<Rightarrow> 'i cursor_list" where
  "load_more st = (case (case shown_cursor st of None \<Rightarrow> None | Some c \<Rightarrow> lc_build (cl_config st) (Some c)) of
       None \<Rightarrow> st
     | Some path \<Rightarrow>
         if cl_loading_more st then st
         else st\<lparr>cl_more := Some \<lparr>lr_started = cl_generation st, lr_path = path, lr_body = lc_body (cl_config st),
             lr_aborted = False\<rparr>, cl_loading_more := True\<rparr>)"

text \<open>The answer to a further page, and the \<open>finally\<close> that always clears the flag.\<close>

definition more_lands ::
    "('p \<Rightarrow> 'i list) \<Rightarrow> ('p \<times> jsstring option \<Rightarrow> jsstring option) \<Rightarrow> 'p answer \<Rightarrow> 'i cursor_list \<Rightarrow> 'i cursor_list" where
  "more_lands rows pick answer st = (case cl_more st of
       None \<Rightarrow> st
     | Some m \<Rightarrow>
         (let prev = cl_result st;
              result = (if lr_aborted m \<or> pr_generation prev \<noteq> int (lr_started m) then prev
                else (case answer of
                    Inr page \<Rightarrow> prev\<lparr>pr_items := pr_items prev @ rows (fst page), pr_cursor := pick page, pr_error := None\<rparr>
                  | Inl err \<Rightarrow> prev\<lparr>pr_error := Some (read_error err SOMETHING_WENT_WRONG)\<rparr>))
          in st\<lparr>cl_result := result, cl_more := None, cl_loading_more := False\<rparr>))"

definition list_reload :: "'i cursor_list \<Rightarrow> 'i cursor_list" where
  "list_reload st = list_render (cl_config st) (st\<lparr>cl_token := cl_token st + 1\<rparr>)"

section \<open>Runs against a server\<close>

text \<open>The server answers a path and body with a page, or a request fails.\<close>

datatype list_event =
    Props list_config
  | First_lands "thrown option"
  | More_lands "thrown option"
  | Load_more
  | Reload

type_synonym 'p server = "jsstring \<Rightarrow> jsstring option \<Rightarrow> 'p \<times> jsstring option"

definition answer_of :: "'p server \<Rightarrow> thrown option \<Rightarrow> list_request option \<Rightarrow> 'p answer" where
  "answer_of srv failed r = (case failed of Some err \<Rightarrow> Inl err
     | None \<Rightarrow> (case r of Some r \<Rightarrow> Inr (srv (lr_path r) (lr_body r)) | None \<Rightarrow> Inl Other_thrown))"

fun list_step ::
    "'p server \<Rightarrow> ('p \<Rightarrow> 'i list) \<Rightarrow> ('p \<times> jsstring option \<Rightarrow> jsstring option) \<Rightarrow> list_event \<Rightarrow> 'i cursor_list \<Rightarrow> 'i cursor_list" where
  "list_step srv rows pick (Props cfg) st = list_render cfg st"
| "list_step srv rows pick (First_lands failed) st = first_lands rows pick (answer_of srv failed (cl_first st)) st"
| "list_step srv rows pick (More_lands failed) st = more_lands rows pick (answer_of srv failed (cl_more st)) st"
| "list_step srv rows pick Load_more st = load_more st"
| "list_step srv rows pick Reload st = list_reload st"

definition list_run ::
    "'p server \<Rightarrow> ('p \<Rightarrow> 'i list) \<Rightarrow> ('p \<times> jsstring option \<Rightarrow> jsstring option) \<Rightarrow> list_event list \<Rightarrow> 'i cursor_list \<Rightarrow> 'i cursor_list" where
  "list_run srv rows pick es st = fold (list_step srv rows pick) es st"

text \<open>The walk the list stands for: the rows of its first pages and the cursor after them.\<close>

fun walk_pages ::
    "'p server \<Rightarrow> ('p \<Rightarrow> 'i list) \<Rightarrow> ('p \<times> jsstring option \<Rightarrow> jsstring option) \<Rightarrow> list_config \<Rightarrow> nat \<Rightarrow>
     ('i list \<times> jsstring option) option" where
  "walk_pages srv rows pick cfg 0 =
     map_option (\<lambda>p. let page = srv p (lc_body cfg) in (rows (fst page), pick page)) (first_path cfg)"
| "walk_pages srv rows pick cfg (Suc k) = (case walk_pages srv rows pick cfg k of
       Some (items, Some c) \<Rightarrow> map_option (\<lambda>p. let page = srv p (lc_body cfg) in (items @ rows (fst page), pick page))
         (lc_build cfg (Some c))
     | _ \<Rightarrow> None)"

section \<open>A walk has one key\<close>

text \<open>The lists one caller builds: its first path and body name its builder, no path holds a colon or is
  the word an absent one prints as, and no body is empty.\<close>

definition list_family :: "list_config set \<Rightarrow> bool" where
  "list_family C \<longleftrightarrow>
     (\<forall>c \<in> C. \<forall>d \<in> C. first_path c = first_path d \<longrightarrow> lc_body c = lc_body d \<longrightarrow> c = d) \<and>
     (\<forall>c \<in> C. lc_body c \<noteq> Some [] \<and> (\<forall>p. first_path c = Some p \<longrightarrow> CHR '':'' \<notin> set p \<and> p \<noteq> ''null''))"

lemma split_at_sep:
  assumes "c \<notin> set a" "c \<notin> set b" "a @ c # s = b @ c # t"
  shows "a = b \<and> s = t"
proof -
  have "takeWhile (\<lambda>x. x \<noteq> c) (a @ c # s) = a" "takeWhile (\<lambda>x. x \<noteq> c) (b @ c # t) = b"
    using assms(1,2) by (auto simp: takeWhile_tail)
  then show ?thesis using assms(3) by auto
qed

lemma walk_key_inject:
  assumes "list_family C" "c \<in> C" "d \<in> C" "walk_key n c = walk_key m d"
  shows "n = m \<and> c = d"
proof -
  let ?p = "\<lambda>c. case first_path c of Some p \<Rightarrow> p | None \<Rightarrow> ''null''" and ?b = "\<lambda>c. case lc_body c of Some b \<Rightarrow> b | None \<Rightarrow> []"
  have no_colon: "CHR '':'' \<notin> set (nat_text k)" for k
    using nat_text_digits [of "CHR '':''" k] by (auto simp: is_digit_def)
  have plain: "CHR '':'' \<notin> set (?p c)" "CHR '':'' \<notin> set (?p d)"
    using assms(1,2,3) by (auto simp: list_family_def split: option.split)
  have "n = m \<and> ?p c @ CHR '':'' # ?b c = ?p d @ CHR '':'' # ?b d"
    using split_at_sep [OF no_colon no_colon, of n _ m] assms(4) by (simp add: walk_key_def)
  then have parts: "n = m" "?p c = ?p d" "?b c = ?b d" using split_at_sep [OF plain] by auto
  have "first_path c = first_path d" "lc_body c = lc_body d"
    using parts(2,3) assms(1,2,3) by (auto simp: list_family_def split: option.splits)
  then show ?thesis using parts(1) assms(1,2,3) by (auto simp: list_family_def)
qed

section \<open>The rows are the walk\<close>

text \<open>What holds between events: the requests in flight are the current walk's, the rows shown are the
  walk's first pages, and a list that loads has its first page on the way.\<close>

definition shows_walk ::
    "'p server \<Rightarrow> ('p \<Rightarrow> 'i list) \<Rightarrow> ('p \<times> jsstring option \<Rightarrow> jsstring option) \<Rightarrow> 'i cursor_list \<Rightarrow> bool" where
  "shows_walk srv rows pick st \<longleftrightarrow>
     (shown_items st = [] \<and> shown_cursor st = None) \<or>
     (\<exists>k. walk_pages srv rows pick (cl_config st) k = Some (shown_items st, shown_cursor st))"

definition list_ok ::
    "list_config set \<Rightarrow> 'p server \<Rightarrow> ('p \<Rightarrow> 'i list) \<Rightarrow> ('p \<times> jsstring option \<Rightarrow> jsstring option) \<Rightarrow> 'i cursor_list \<Rightarrow> bool" where
  "list_ok C srv rows pick st \<longleftrightarrow>
     cl_config st \<in> C \<and> cl_key st = walk_key (cl_token st) (cl_config st) \<and>
     pr_generation (cl_result st) \<le> int (cl_generation st) \<and>
     (cl_loading_more st \<longleftrightarrow> cl_more st \<noteq> None) \<and>
     (cl_first st = (if list_loading st
       then Some \<lparr>lr_started = cl_generation st, lr_path = the (first_path (cl_config st)), lr_body = lc_body (cl_config st),
         lr_aborted = False\<rparr> else None)) \<and>
     (\<forall>m. cl_more st = Some m \<longrightarrow> \<not> lr_aborted m \<longrightarrow> lr_started m = cl_generation st \<and> lr_body m = lc_body (cl_config st) \<and>
       (\<exists>c. shown_cursor st = Some c \<and> lc_build (cl_config st) (Some c) = Some (lr_path m))) \<and>
     shows_walk srv rows pick st"

lemma no_fresh_shown: "fresh_result st = None \<Longrightarrow> shown_items st = [] \<and> shown_cursor st = None"
  by (simp add: shown_items_def shown_cursor_def)

lemma ok_start:
  assumes "cfg \<in> C" "pr_generation r < int g" "\<forall>m. extra = Some m \<longrightarrow> lr_aborted m" "loading = (extra \<noteq> None)"
  shows "list_ok C srv rows pick (start_walk \<lparr>cl_config = cfg, cl_result = r, cl_loading_more = loading, cl_token = t,
    cl_key = walk_key t cfg, cl_generation = g, cl_first = None, cl_more = extra\<rparr>)"
  using assms by (auto simp: list_ok_def start_walk_def shows_walk_def list_loading_def fresh_result_def shown_items_def
      shown_cursor_def split: option.split)

lemma ok_mount: "cfg \<in> C \<Longrightarrow> list_ok C srv rows pick (list_mount cfg)"
  unfolding list_mount_def by (rule ok_start) simp_all

lemma ok_render:
  assumes family: "list_family C" and ok: "list_ok C srv rows pick st" and "cfg \<in> C"
  shows "list_ok C srv rows pick (list_render cfg (st\<lparr>cl_token := t\<rparr>))"
proof (cases "cl_key st = walk_key t cfg")
  case True
  then have "cl_token st = t \<and> cl_config st = cfg"
    using walk_key_inject [OF family _ \<open>cfg \<in> C\<close>, of "cl_config st" "cl_token st" t] ok by (simp add: list_ok_def)
  then have "list_render cfg (st\<lparr>cl_token := t\<rparr>) = st"
    using True by (cases st) (auto simp: list_render_def Let_def)
  then show ?thesis using ok by simp
next
  case False
  have "list_render cfg (st\<lparr>cl_token := t\<rparr>) = start_walk \<lparr>cl_config = cfg, cl_result = cl_result st,
      cl_loading_more = cl_loading_more st, cl_token = t, cl_key = walk_key t cfg, cl_generation = cl_generation st + 1,
      cl_first = None, cl_more = map_option (\<lambda>m. m\<lparr>lr_aborted := True\<rparr>) (cl_more st)\<rparr>"
    using False by (cases st) (simp add: list_render_def Let_def abort_walk_def)
  moreover have "pr_generation (cl_result st) < int (cl_generation st + 1)" "cl_loading_more st = (cl_more st \<noteq> None)"
    using ok by (auto simp: list_ok_def)
  ultimately show ?thesis using \<open>cfg \<in> C\<close> by (auto intro!: ok_start)
qed

lemma ok_first:
  assumes ok: "list_ok C srv rows pick st"
  shows "list_ok C srv rows pick (first_lands rows pick (answer_of srv failed (cl_first st)) st)"
proof (cases "list_loading st")
  case False
  then show ?thesis using ok by (simp add: first_lands_def list_ok_def)
next
  case True
  then obtain p where path: "first_path (cl_config st) = Some p" and stale: "fresh_result st = None"
    by (auto simp: list_loading_def)
  have first: "cl_first st = Some \<lparr>lr_started = cl_generation st, lr_path = p, lr_body = lc_body (cl_config st), lr_aborted = False\<rparr>"
    using ok True path by (simp add: list_ok_def)
  have aborted: "\<forall>m. cl_more st = Some m \<longrightarrow> lr_aborted m"
    using ok no_fresh_shown [OF stale] by (auto simp: list_ok_def)
  show ?thesis
  proof (cases failed)
    case None
    then have "walk_pages srv rows pick (cl_config st) 0 = Some (rows (fst (srv p (lc_body (cl_config st)))), pick (srv p (lc_body (cl_config st))))"
      using path by (simp add: Let_def)
    then show ?thesis using ok first aborted None
      by (auto simp: list_ok_def first_lands_def answer_of_def shows_walk_def list_loading_def fresh_result_def shown_items_def
          shown_cursor_def simp del: walk_pages.simps)
  next
    case (Some err)
    then show ?thesis using ok first aborted
      by (auto simp: list_ok_def first_lands_def answer_of_def shows_walk_def list_loading_def fresh_result_def shown_items_def
          shown_cursor_def)
  qed
qed

lemma ok_load_more: "list_ok C srv rows pick st \<Longrightarrow> list_ok C srv rows pick (load_more st)"
  by (auto simp: list_ok_def load_more_def shows_walk_def list_loading_def fresh_result_def shown_items_def
      shown_cursor_def split: option.split)

lemma ok_more:
  assumes ok: "list_ok C srv rows pick st"
  shows "list_ok C srv rows pick (more_lands rows pick (answer_of srv failed (cl_more st)) st)"
proof (cases "\<exists>m. cl_more st = Some m \<and> \<not> lr_aborted m")
  case False
  then show ?thesis using ok
    by (auto simp: more_lands_def list_ok_def Let_def shows_walk_def list_loading_def fresh_result_def shown_items_def shown_cursor_def
        split: option.split)
next
  case True
  then obtain m c where m: "cl_more st = Some m" "\<not> lr_aborted m" "lr_started m = cl_generation st" "lr_body m = lc_body (cl_config st)"
    and c: "shown_cursor st = Some c" "lc_build (cl_config st) (Some c) = Some (lr_path m)"
    using ok by (auto simp: list_ok_def)
  have fresh: "fresh_result st = Some (cl_result st)" "pr_generation (cl_result st) = int (cl_generation st)"
    using c(1) by (auto simp: shown_cursor_def fresh_result_def split: if_splits)
  then obtain k where walked: "walk_pages srv rows pick (cl_config st) k = Some (pr_items (cl_result st), Some c)"
    using ok c by (auto simp: list_ok_def shows_walk_def shown_items_def shown_cursor_def)
  have next_page: "walk_pages srv rows pick (cl_config st) (Suc k) =
      Some (pr_items (cl_result st) @ rows (fst (srv (lr_path m) (lr_body m))), pick (srv (lr_path m) (lr_body m)))"
    using walked c(2) m(4) by (simp add: Let_def)
  show ?thesis
  proof (cases failed)
    case None
    then show ?thesis using ok m fresh next_page
      by (auto simp: list_ok_def more_lands_def answer_of_def Let_def shows_walk_def list_loading_def fresh_result_def shown_items_def
          shown_cursor_def simp del: walk_pages.simps)
  next
    case (Some err)
    then show ?thesis using ok m fresh walked c
      by (auto simp: list_ok_def more_lands_def answer_of_def Let_def shows_walk_def list_loading_def fresh_result_def shown_items_def
          shown_cursor_def simp del: walk_pages.simps)
  qed
qed

fun event_in :: "list_config set \<Rightarrow> list_event \<Rightarrow> bool" where
  "event_in C (Props cfg) = (cfg \<in> C)"
| "event_in C _ = True"

lemma ok_step:
  assumes "list_family C" "list_ok C srv rows pick st" "event_in C e"
  shows "list_ok C srv rows pick (list_step srv rows pick e st)"
proof (cases e)
  case (Props cfg)
  then show ?thesis using ok_render [OF assms(1,2), of cfg "cl_token st"] assms(3) by simp
next
  case Reload
  then show ?thesis using ok_render [OF assms(1,2), of "cl_config st" "cl_token st + 1"] assms(2)
    by (simp add: list_reload_def list_ok_def)
qed (use assms(2) in \<open>simp_all add: ok_first ok_more ok_load_more\<close>)

lemma ok_run:
  assumes "list_family C" "list_ok C srv rows pick st" "list_all (event_in C) es"
  shows "list_ok C srv rows pick (list_run srv rows pick es st)"
  using assms(2,3) unfolding list_run_def by (induction es arbitrary: st) (simp_all add: ok_step [OF assms(1)])

text \<open>
  C17. The rows are the walk: whatever props arrive, pages land or fail in whatever order, and however
  often the reader asks for more or reloads, the rows on screen are exactly the first pages of the
  current list in the server's order, each once, with the cursor that follows them, or none at all.
\<close>

theorem rows_are_the_walk:
  assumes "list_family C" "cfg \<in> C" "list_all (event_in C) es"
    and "st = list_run srv rows pick es (list_mount cfg)"
  shows "(shown_items st = [] \<and> \<not> has_more st) \<or>
    (\<exists>k. walk_pages srv rows pick (cl_config st) k = Some (shown_items st, shown_cursor st))"
  using ok_run [OF assms(1) ok_mount [OF assms(2)] assms(3), of srv rows pick] assms(4)
  by (simp add: list_ok_def shows_walk_def has_more_def)

text \<open>
  A list never hangs: it is loading exactly while the request for its first page is in flight and
  not aborted, and it is loading more exactly while one further page is in flight.
\<close>

theorem loading_means_in_flight:
  assumes "list_family C" "cfg \<in> C" "list_all (event_in C) es"
    and "st = list_run srv rows pick es (list_mount cfg)"
  shows "list_loading st = (\<exists>r. cl_first st = Some r \<and> \<not> lr_aborted r) \<and> cl_loading_more st = (cl_more st \<noteq> None)"
proof -
  have ok: "list_ok C srv rows pick st"
    using ok_run [OF assms(1) ok_mount [OF assms(2)] assms(3), of srv rows pick] assms(4) by simp
  then show ?thesis by (cases "list_loading st") (auto simp: list_ok_def)
qed

text \<open>Two pages, the second of which fails once.\<close>

abbreviation two_pages :: "jsstring list server" where
  "two_pages \<equiv> \<lambda>p _. if p = ''/rows'' then ([''a''], Some ''c1'') else ([''b''], None)"

abbreviation rows_config :: list_config where
  "rows_config \<equiv> \<lparr>lc_build = (\<lambda>c. Some (case c of None \<Rightarrow> ''/rows'' | Some k \<Rightarrow> ''/rows?c='' @ k)), lc_body = None\<rparr>"

abbreviation retried :: "list_event list" where
  "retried \<equiv> [First_lands None, Load_more, More_lands (Some Other_thrown), Load_more, More_lands None]"

lemma rows_family: "list_family {rows_config}"
  by (simp add: list_family_def first_path_def)

lemma retried_rows:
  "shown_items (list_run two_pages id snd retried (list_mount rows_config)) = [''a'', ''b'']"
  "\<not> list_loading (list_run two_pages id snd retried (list_mount rows_config))"
  by (simp_all add: list_run_def list_mount_def start_walk_def first_path_def first_lands_def answer_of_def load_more_def
      shown_cursor_def fresh_result_def more_lands_def Let_def shown_items_def list_loading_def)

lemma rows_are_the_walk_witness:
  "\<exists>k cursor. walk_pages two_pages id snd (cl_config (list_run two_pages id snd retried (list_mount rows_config))) k =
    Some ([''a'', ''b''], cursor)"
  using rows_are_the_walk [OF rows_family _ _ refl, of rows_config retried two_pages id snd]
  by (auto simp: retried_rows)

lemma loading_means_in_flight_witness:
  "\<exists>r. cl_first (list_run two_pages id snd [] (list_mount rows_config)) = Some r \<and> \<not> lr_aborted r"
  using loading_means_in_flight [OF rows_family _ _ refl, of rows_config "[]" two_pages id snd]
  by (simp add: list_run_def list_mount_def start_walk_def first_path_def list_loading_def fresh_result_def)

end
