(* ===== verification/Source_Editors.thy ===== *)
theory Source_Editors
  imports Sources Snapshots Event_Forms
begin

text \<open>
  \<open>components/sources/SourcesField.tsx\<close> with the patches of \<open>SourceEditor.tsx\<close> and the paste check of
  \<open>ArchivedCopies.tsx\<close>: the list of source editors of an event form. A pick, an import of a link and a
  copy of a proof image each run on a request of their own, whose answer lands on the draft only
  while that request is still its file. The counters of the keys and of the requests are the module's.
\<close>

section \<open>Archived copies\<close>

definition SOURCE_URL_MAX_LEN :: nat where
  "SOURCE_URL_MAX_LEN = 2000"

definition host_list :: "jsstring list \<Rightarrow> jsstring" where
  "host_list hosts = (let rest = js_join '', '' (butlast hosts); end_host = concat (drop (length hosts - 1) hosts)
     in if rest \<noteq> [] then rest @ '' or '' @ end_host else end_host)"

definition SNAPSHOT_HINT :: jsstring where
  "SNAPSHOT_HINT = ''A snapshot link is an https link on '' @ host_list SNAPSHOT_HOSTS @ ''.''"

definition is_snapshot_url :: "url_parser \<Rightarrow> jsstring \<Rightarrow> bool" where
  "is_snapshot_url parse value = (let trimmed = js_trim value in
     if SOURCE_URL_MAX_LEN < utf8_length trimmed then False
     else (case parse trimmed of
         None \<Rightarrow> False
       | Some p \<Rightarrow> url_protocol p = ''https:'' \<and> js_lower (url_hostname p) \<in> set SNAPSHOT_HOSTS))"

definition UPLOADS_RUNNING_MESSAGE :: jsstring where
  "UPLOADS_RUNNING_MESSAGE = ''Wait for the source files to finish uploading.''"

definition pasted_snapshot_refused :: "url_parser \<Rightarrow> source_draft list \<Rightarrow> bool" where
  "pasted_snapshot_refused parse drafts = list_ex (\<lambda>d. list_ex (\<lambda>l.
     js_trim (ld_snapshot l) \<noteq> [] \<and> \<not> is_snapshot_url parse (ld_snapshot l)) (d_links d)) drafts"

definition sources_block_write :: "url_parser \<Rightarrow> source_draft list \<Rightarrow> jsstring option" where
  "sources_block_write parse drafts =
     (if uploads_running drafts then Some UPLOADS_RUNNING_MESSAGE
      else if pasted_snapshot_refused parse drafts then Some SNAPSHOT_HINT
      else None)"

definition link_description :: "nat + jsstring \<Rightarrow> jsstring \<Rightarrow> nat \<Rightarrow> nat \<Rightarrow> jsstring" where
  "link_description src hostname link_index link_count = js_join '', '' (
     [(case src of Inr s \<Rightarrow> s | Inl i \<Rightarrow> js_lower (source_name i))] @
     (if 1 < link_count then [''link '' @ nat_text (link_index + 1)] else []) @
     [(let h = js_trim hostname in if h \<noteq> [] then h else ''this link'')])"

section \<open>One draft\<close>

text \<open>What the fields of an editor patch; the file is only ever removed, every other file comes from a request.\<close>

datatype draft_patch =
    Patch_title jsstring
  | Patch_level source_level
  | Patch_kind "source_kind option"
  | Patch_captured_at jsstring
  | Patch_lat jsstring
  | Patch_lng jsstring
  | Patch_tags "jsstring list"
  | Patch_graphic bool
  | Patch_links "link_draft list"
  | Patch_no_file

fun patch_draft :: "draft_patch \<Rightarrow> source_draft \<Rightarrow> source_draft" where
  "patch_draft (Patch_title v) d = d\<lparr>d_title := v\<rparr>"
| "patch_draft (Patch_level v) d = d\<lparr>d_level := v\<rparr>"
| "patch_draft (Patch_kind v) d = d\<lparr>d_kind := v\<rparr>"
| "patch_draft (Patch_captured_at v) d = d\<lparr>d_captured_at := v\<rparr>"
| "patch_draft (Patch_lat v) d = d\<lparr>d_lat := v\<rparr>"
| "patch_draft (Patch_lng v) d = d\<lparr>d_lng := v\<rparr>"
| "patch_draft (Patch_tags v) d = d\<lparr>d_tags := v\<rparr>"
| "patch_draft (Patch_graphic v) d = d\<lparr>d_graphic := v\<rparr>"
| "patch_draft (Patch_links v) d = d\<lparr>d_links := v\<rparr>"
| "patch_draft Patch_no_file d = d\<lparr>d_file := None\<rparr>"

definition holds_details :: "source_draft \<Rightarrow> bool" where
  "holds_details d \<longleftrightarrow> (let position = has_capture_position (d_kind d) \<and>
       (js_trim (d_lat d) \<noteq> [] \<or> js_trim (d_lng d) \<noteq> [])
     in d_captured_at d \<noteq> [] \<or> position \<or> d_tags d \<noteq> [] \<or> d_graphic d)"

text \<open>The picks of the two vocabularies: a level is never emptied, a kind may be.\<close>

definition level_pick :: "source_level list \<Rightarrow> draft_patch option" where
  "level_pick picks = (case picks of [] \<Rightarrow> None | l # _ \<Rightarrow> Some (Patch_level l))"

definition kind_pick :: "source_kind list \<Rightarrow> draft_patch" where
  "kind_pick picks = Patch_kind (case picks of [] \<Rightarrow> None | k # _ \<Rightarrow> Some k)"

section \<open>The list\<close>

text \<open>\<open>fileRunning(d.file) && d.file.token\<close>.\<close>

fun running_token :: "source_file option \<Rightarrow> nat option" where
  "running_token (Some (Uploading _ token _)) = Some token"
| "running_token (Some (Importing _ token)) = Some token"
| "running_token (Some (Copying _ token)) = Some token"
| "running_token _ = None"

definition update_draft :: "jsstring \<Rightarrow> (source_draft \<Rightarrow> source_draft) \<Rightarrow> source_draft list \<Rightarrow> source_draft list" where
  "update_draft key f drafts = map (\<lambda>d. if d_key d = key then f d else d) drafts"

definition settle_draft :: "jsstring \<Rightarrow> nat \<Rightarrow> source_file \<Rightarrow> source_draft list \<Rightarrow> source_draft list" where
  "settle_draft key token file drafts =
     map (\<lambda>d. if d_key d = key \<and> running_token (d_file d) = Some token then d\<lparr>d_file := Some file\<rparr> else d) drafts"

fun frame_drafts :: "source_draft \<Rightarrow> upload list \<Rightarrow> nat \<Rightarrow> source_draft list \<times> nat" where
  "frame_drafts picked [] counter = ([], counter)"
| "frame_drafts picked (u # us) counter = (case new_source_draft counter of (blank, c1) \<Rightarrow>
     (case frame_drafts picked us c1 of (ds, c2) \<Rightarrow>
       (blank\<lparr>d_level := d_level picked, d_kind := d_kind picked, d_file := Some (Staged u None None None)\<rparr> # ds, c2)))"

definition frames_refusal :: "nat \<Rightarrow> int \<Rightarrow> jsstring" where
  "frames_refusal uploads room = ''This GIF holds '' @ nat_text uploads @
     '' frames, one file each, and the form has room for '' @ int_text room @ ''.''"

text \<open>The answer of an upload: at least one staged file.\<close>

definition place_uploads ::
    "source_draft list \<Rightarrow> jsstring \<Rightarrow> nat \<Rightarrow> upload \<times> upload list \<Rightarrow> jsstring \<Rightarrow> nat \<Rightarrow> nat \<Rightarrow> source_draft list \<times> nat" where
  "place_uploads drafts key token uploads fname max_sources counter =
     (case find_index (\<lambda>d. d_key d = key \<and> running_token (d_file d) = Some token) drafts of
        None \<Rightarrow> (drafts, counter)
      | Some i \<Rightarrow> (case uploads of (u, rest) \<Rightarrow>
          (let picked = drafts ! i; room = int max_sources - int (length drafts) + 1 in
             if room \<le> int (length rest)
             then (drafts[i := picked\<lparr>d_file := Some (Failed fname (frames_refusal (Suc (length rest)) room))\<rparr>], counter)
             else (case frame_drafts picked rest counter of (added, counter') \<Rightarrow>
               (take i drafts @
                [picked\<lparr>d_file := Some (Staged u None None
                   (if rest \<noteq> [] then Some \<lparr>gs_name = fname, gs_frames = Suc (length rest)\<rparr> else None))\<rparr>] @
                added @ drop (Suc i) drafts, counter')))))"

datatype move_step = Earlier | Later

fun move_offset :: "move_step \<Rightarrow> int" where
  "move_offset Earlier = -1"
| "move_offset Later = 1"

definition move_draft :: "source_draft list \<Rightarrow> jsstring \<Rightarrow> move_step \<Rightarrow> source_draft list" where
  "move_draft drafts key step = (case find_index (\<lambda>d. d_key d = key) drafts of
       None \<Rightarrow> drafts
     | Some i \<Rightarrow> (let to = int i + move_offset step in
         if to < 0 \<or> int (length drafts) \<le> to then drafts
         else drafts[i := drafts ! nat to, nat to := drafts ! i]))"

section \<open>What a publish attempt flags\<close>

record source_gaps =
  gap_link :: bool
  gap_kind :: bool

definition source_gaps_of :: "source_draft \<Rightarrow> missing_key set \<Rightarrow> source_gaps" where
  "source_gaps_of draft invalid_keys = \<lparr>
     gap_link = (Key_source_link \<in> invalid_keys \<and> draft_urls draft = []),
     gap_kind = (Key_source_kind \<in> invalid_keys \<and> d_kind draft = None)\<rparr>"

definition first_gap :: "source_draft list \<Rightarrow> missing_key set \<Rightarrow> jsstring option" where
  "first_gap drafts invalid_keys = map_option d_key (
     case find (\<lambda>d. gap_link (source_gaps_of d invalid_keys) \<or> gap_kind (source_gaps_of d invalid_keys)) drafts of
       Some d \<Rightarrow> Some d
     | None \<Rightarrow> if Key_source_file \<in> invalid_keys then find (\<lambda>d. is_evidence_level (d_level d)) drafts else None)"

section \<open>The field\<close>

record editors =
  se_drafts :: "source_draft list"
  se_keys :: nat
  se_token :: nat

definition editors_add :: "editors \<Rightarrow> editors" where
  "editors_add st = (case new_source_draft (se_keys st) of (d, c) \<Rightarrow> st\<lparr>se_drafts := se_drafts st @ [d], se_keys := c\<rparr>)"

definition editors_remove :: "nat \<Rightarrow> editors \<Rightarrow> editors" where
  "editors_remove i st = st\<lparr>se_drafts := filter (\<lambda>d. d_key d \<noteq> d_key (se_drafts st ! i)) (se_drafts st)\<rparr>"

text \<open>The source shown after a removal: the next one, else the one before.\<close>

definition reveal_after_remove :: "nat \<Rightarrow> source_draft list \<Rightarrow> jsstring option" where
  "reveal_after_remove i drafts = (if Suc i < length drafts then Some (d_key (drafts ! Suc i))
     else if 0 < i \<and> i \<le> length drafts then Some (d_key (drafts ! (i - 1))) else None)"

definition editors_move :: "nat \<Rightarrow> move_step \<Rightarrow> editors \<Rightarrow> editors" where
  "editors_move i step st = st\<lparr>se_drafts := move_draft (se_drafts st) (d_key (se_drafts st ! i)) step\<rparr>"

definition editors_patch :: "jsstring \<Rightarrow> draft_patch \<Rightarrow> editors \<Rightarrow> editors" where
  "editors_patch key p st = st\<lparr>se_drafts := update_draft key (patch_draft p) (se_drafts st)\<rparr>"

text \<open>A request starts: the token goes up and names it, the draft holds it.\<close>

definition editors_start :: "jsstring \<Rightarrow> (nat \<Rightarrow> source_file) \<Rightarrow> editors \<Rightarrow> editors" where
  "editors_start key file st = (let token = Suc (se_token st) in
     st\<lparr>se_token := token, se_drafts := update_draft key (\<lambda>d. d\<lparr>d_file := Some (file token)\<rparr>) (se_drafts st)\<rparr>)"

definition editors_pick :: "jsstring \<Rightarrow> jsstring \<Rightarrow> editors \<Rightarrow> editors" where
  "editors_pick key fname st = editors_start key (\<lambda>token. Uploading fname token None) st"

definition editors_import :: "jsstring \<Rightarrow> link_post \<Rightarrow> editors \<Rightarrow> editors" where
  "editors_import key post st = editors_start key (\<lambda>token. Importing post token) st"

definition editors_copy :: "jsstring \<Rightarrow> jsstring \<Rightarrow> editors \<Rightarrow> editors" where
  "editors_copy key u st = editors_start key (\<lambda>token. Copying u token) st"

definition editors_settle :: "jsstring \<Rightarrow> nat \<Rightarrow> source_file \<Rightarrow> editors \<Rightarrow> editors" where
  "editors_settle key token file st = st\<lparr>se_drafts := settle_draft key token file (se_drafts st)\<rparr>"

definition frames_counted :: "jsstring \<Rightarrow> nat \<Rightarrow> jsstring \<Rightarrow> nat option \<Rightarrow> editors \<Rightarrow> editors" where
  "frames_counted key token fname frames st =
     (if frames \<noteq> None then editors_settle key token (Uploading fname token frames) st else st)"

definition pick_lands :: "nat \<Rightarrow> jsstring \<Rightarrow> nat \<Rightarrow> jsstring \<Rightarrow> thrown + upload \<times> upload list \<Rightarrow> editors \<Rightarrow> editors" where
  "pick_lands max_sources key token fname answer st = (case answer of
       Inl err \<Rightarrow> editors_settle key token (Failed fname (upload_error err)) st
     | Inr uploads \<Rightarrow> (case place_uploads (se_drafts st) key token uploads fname max_sources (se_keys st) of
         (drafts, c) \<Rightarrow> st\<lparr>se_drafts := drafts, se_keys := c\<rparr>))"

definition import_lands :: "url_parser \<Rightarrow> jsstring \<Rightarrow> nat \<Rightarrow> link_post \<Rightarrow> thrown + link_upload \<Rightarrow> editors \<Rightarrow> editors" where
  "import_lands parse key token post answer st = (case answer of
       Inl err \<Rightarrow> editors_settle key token (Failed (safe_hostname parse (lp_url post)) (upload_error err)) st
     | Inr u \<Rightarrow> editors_settle key token
         (Staged (upload.truncate u) (Some (post\<lparr>lp_kinds := lu_post_media u\<rparr>)) None None) st)"

definition copy_lands :: "jsstring \<Rightarrow> nat \<Rightarrow> jsstring \<Rightarrow> thrown + upload \<Rightarrow> editors \<Rightarrow> editors" where
  "copy_lands key token u answer st = (case answer of
       Inl err \<Rightarrow> editors_settle key token (Failed ''Proof image'' (upload_error err)) st
     | Inr up \<Rightarrow> editors_settle key token (Staged up None (Some u) None) st)"

text \<open>
  What can happen to a form's sources, in any order: \<open>Add\<close> is off at the cap, a move and a removal
  show on two sources or more, and an answer may land at any time.
\<close>

inductive editors_step :: "url_parser \<Rightarrow> nat \<Rightarrow> editors \<Rightarrow> editors \<Rightarrow> bool" for parse max_sources where
  add_source: "length (se_drafts st) < max_sources \<Longrightarrow> editors_step parse max_sources st (editors_add st)"
| remove_source: "1 < length (se_drafts st) \<Longrightarrow> i < length (se_drafts st) \<Longrightarrow>
    editors_step parse max_sources st (editors_remove i st)"
| move_source: "i < length (se_drafts st) \<Longrightarrow> editors_step parse max_sources st (editors_move i step st)"
| patch_source: "editors_step parse max_sources st (editors_patch key p st)"
| pick_file: "editors_step parse max_sources st (editors_pick key fname st)"
| import_link: "editors_step parse max_sources st (editors_import key post st)"
| copy_image: "editors_step parse max_sources st (editors_copy key u st)"
| frames_known: "editors_step parse max_sources st (frames_counted key token fname frames st)"
| pick_answer: "editors_step parse max_sources st (pick_lands max_sources key token fname answer st)"
| import_answer: "editors_step parse max_sources st (import_lands parse key token post answer' st)"
| copy_answer: "editors_step parse max_sources st (copy_lands key token u answer'' st)"

inductive_cases editors_stepE: "editors_step parse max_sources st st'"


section \<open>The list stays well formed\<close>

definition draft_key :: "nat \<Rightarrow> jsstring" where
  "draft_key n = ''source-'' @ nat_text n"

lemma draft_key_inj [simp]: "draft_key m = draft_key n \<longleftrightarrow> m = n"
  by (simp add: draft_key_def)

lemma new_source_draft_key:
  "new_source_draft c = (d, c') \<Longrightarrow> d_key d = draft_key (Suc c) \<and> c' = Suc c \<and> d_file d = None"
  by (auto simp: new_source_draft_def next_key_def draft_key_def)

definition keys_ok :: "source_draft list \<Rightarrow> nat \<Rightarrow> bool" where
  "keys_ok drafts c \<longleftrightarrow> distinct (map d_key drafts) \<and> set (map d_key drafts) \<subseteq> draft_key ` {..c}"

definition tokens_ok :: "source_draft list \<Rightarrow> nat \<Rightarrow> bool" where
  "tokens_ok drafts t \<longleftrightarrow> (\<forall>d \<in> set drafts. \<forall>k. running_token (d_file d) = Some k \<longrightarrow> k \<le> t)"

definition editors_ok :: "nat \<Rightarrow> editors \<Rightarrow> bool" where
  "editors_ok max_sources st \<longleftrightarrow> keys_ok (se_drafts st) (se_keys st) \<and> tokens_ok (se_drafts st) (se_token st) \<and>
     se_drafts st \<noteq> [] \<and> length (se_drafts st) \<le> max_sources"

lemma patch_draft_simps [simp]:
  "d_key (patch_draft p d) = d_key d"
  "running_token (d_file (patch_draft p d)) = (if p = Patch_no_file then None else running_token (d_file d))"
  by (cases p; simp)+

lemma update_draft_keys [simp]: "(\<And>d. d_key (f d) = d_key d) \<Longrightarrow> map d_key (update_draft key f drafts) = map d_key drafts"
  by (simp add: update_draft_def)

lemma settle_draft_keys [simp]: "map d_key (settle_draft key token file drafts) = map d_key drafts"
  by (simp add: settle_draft_def)

lemma same_keys_ok: "map d_key ds' = map d_key ds \<Longrightarrow> keys_ok ds' c = keys_ok ds c"
  by (simp only: keys_ok_def)

lemma keys_ok_filter: "keys_ok ds c \<Longrightarrow> keys_ok (filter P ds) c"
  unfolding keys_ok_def by (auto simp: distinct_map_filter)

lemma frame_drafts_keys:
  "frame_drafts picked us c = (ds, c') \<Longrightarrow>
     map d_key ds = map draft_key [Suc c..<Suc c'] \<and> c' = c + length us \<and> length ds = length us \<and>
     map d_file ds = map (\<lambda>u. Some (Staged u None None None)) us \<and>
     (\<forall>d \<in> set ds. d_level d = d_level picked \<and> d_kind d = d_kind picked)"
proof (induction us arbitrary: c ds c')
  case (Cons u us)
  obtain b c1 where b: "new_source_draft c = (b, c1)" by force
  obtain ds' c2 where ds': "frame_drafts picked us c1 = (ds', c2)" by force
  have c': "ds = b\<lparr>d_level := d_level picked, d_kind := d_kind picked, d_file := Some (Staged u None None None)\<rparr> # ds'" "c' = c2"
    using Cons.prems by (simp_all add: b ds')
  have up: "[Suc c..<Suc (c + length (u # us))] = Suc c # [Suc (Suc c)..<Suc (c + length (u # us))]"
    by (rule upt_conv_Cons) simp
  have b': "d_key b = draft_key (Suc c)" "c1 = Suc c" using new_source_draft_key [OF b] by auto
  then have ih: "map d_key ds' = map draft_key [Suc (Suc c)..<Suc c2]" "c2 = Suc c + length us" "length ds' = length us"
    "map d_file ds' = map (\<lambda>u. Some (Staged u None None None)) us"
    "\<forall>d \<in> set ds'. d_level d = d_level picked \<and> d_kind d = d_kind picked"
    using Cons.IH [OF ds'] by blast+
  have "map d_key ds = map draft_key [Suc c..<Suc c']"
    using ih(1,2) up unfolding c' by (simp del: upt_Suc add: b')
  moreover have "c' = c + length (u # us)" "length ds = length (u # us)"
    "map d_file ds = map (\<lambda>u. Some (Staged u None None None)) (u # us)"
    "\<forall>d \<in> set ds. d_level d = d_level picked \<and> d_kind d = d_kind picked"
    using ih unfolding c' by simp_all
  ultimately show ?case by blast
qed simp


lemma index_split:
  assumes "find_index p xs = Some i"
  shows "xs = take i xs @ xs ! i # drop (Suc i) xs" "i < length xs" "p (xs ! i)"
  using find_index_Some [OF assms] id_take_nth_drop [of i xs] by auto

text \<open>What lands where: nothing, a refusal in place, or the frames in a row.\<close>

lemma place_uploads_cases:
  assumes "place_uploads drafts key token (u, rest) fname max_sources c = (drafts', c')"
  obtains (dropped) "drafts' = drafts" "c' = c" "\<forall>d \<in> set drafts. \<not> (d_key d = key \<and> running_token (d_file d) = Some token)"
  | (refused) before picked after msg where "drafts = before @ picked # after" "d_key picked = key"
      "drafts' = before @ picked\<lparr>d_file := Some (Failed fname msg)\<rparr> # after" "c' = c"
      "max_sources < length drafts + length rest"
  | (placed) before picked after added split where "drafts = before @ picked # after" "d_key picked = key"
      "running_token (d_file picked) = Some token"
      "drafts' = before @ picked\<lparr>d_file := Some (Staged u None None split)\<rparr> # added @ after"
      "frame_drafts picked rest c = (added, c')" "length drafts + length rest \<le> max_sources"
proof (cases "find_index (\<lambda>d. d_key d = key \<and> running_token (d_file d) = Some token) drafts")
  case None
  then have "drafts' = drafts" "c' = c" using assms by (simp_all add: place_uploads_def del: find_index_None)
  moreover have "\<forall>d \<in> set drafts. \<not> (d_key d = key \<and> running_token (d_file d) = Some token)" using None by simp
  ultimately show ?thesis by (rule dropped)
next
  case (Some i)
  let ?room = "int max_sources - int (length drafts) + 1"
  note at = index_split [OF Some]
  show ?thesis
  proof (cases "?room \<le> int (length rest)")
    case True
    then have "drafts' = drafts[i := (drafts ! i)\<lparr>d_file := Some (Failed fname (frames_refusal (Suc (length rest)) ?room))\<rparr>]" "c' = c"
      using assms Some by (simp_all add: place_uploads_def)
    then show ?thesis
      using at True
      by (intro refused [of "take i drafts" "drafts ! i" "drop (Suc i) drafts"]) (simp_all add: upd_conv_take_nth_drop)
  next
    case False
    obtain added c1 where added: "frame_drafts (drafts ! i) rest c = (added, c1)" by force
    have "drafts' = take i drafts @ (drafts ! i)\<lparr>d_file := Some (Staged u None None
        (if rest \<noteq> [] then Some \<lparr>gs_name = fname, gs_frames = Suc (length rest)\<rparr> else None))\<rparr> # added @ drop (Suc i) drafts"
      "c' = c1"
      using assms Some False added by (simp_all add: place_uploads_def)
    then show ?thesis
      using at False added
      by (intro placed [of "take i drafts" "drafts ! i" "drop (Suc i) drafts" _ added]) simp_all
  qed
qed

lemma disjoint_sub: "A = B \<Longrightarrow> C \<subseteq> D \<Longrightarrow> B \<inter> D = {} \<Longrightarrow> A \<inter> C = {}"
  by blast

lemma distinct_inserted:
  "distinct (xs @ x # ys) \<Longrightarrow> distinct zs \<Longrightarrow> set zs \<inter> set (xs @ x # ys) = {} \<Longrightarrow> distinct (xs @ x # zs @ ys)"
  by auto

lemma keys_ok_frames:
  assumes "keys_ok (before @ picked # after) c" "frame_drafts p us c = (added, c')" "d_key picked' = d_key picked"
  shows "keys_ok (before @ picked' # added @ after) c'"
proof -
  have new: "map d_key added = map draft_key [Suc c..<Suc c']" "c' = c + length us"
    using frame_drafts_keys [OF assms(2)] by auto
  have added: "distinct (map d_key added)" unfolding new(1) by (simp add: distinct_map inj_on_def)
  have fresh: "set (map d_key added) = draft_key ` {Suc c..<Suc c'}" unfolding new(1) by (simp del: upt_Suc)
  moreover have old: "set (map d_key (before @ picked # after)) \<subseteq> draft_key ` {..c}"
    using assms(1) by (simp only: keys_ok_def)
  moreover have "draft_key ` {Suc c..<Suc c'} \<inter> draft_key ` {..c} = {}" by auto
  ultimately have "set (map d_key added) \<inter> set (map d_key (before @ picked # after)) = {}" by (rule disjoint_sub)
  then have "distinct (map d_key (before @ picked' # added @ after))"
    using assms(1) distinct_inserted [of "map d_key before" "d_key picked" "map d_key after" "map d_key added"]
      added by (simp only: keys_ok_def map_append list.map assms(3))
  moreover have "set (map d_key (before @ picked' # added @ after)) \<subseteq> draft_key ` {..c'}"
  proof -
    have "draft_key ` {Suc c..<Suc c'} \<subseteq> draft_key ` {..c'}" "draft_key ` {..c} \<subseteq> draft_key ` {..c'}" using new(2) by auto
    then have "set (map d_key added) \<subseteq> draft_key ` {..c'}" "set (map d_key (before @ picked # after)) \<subseteq> draft_key ` {..c'}"
      using subset_trans [OF equalityD1 [OF fresh]] subset_trans [OF old] by simp_all
    then show ?thesis using assms(3) by simp
  qed
  ultimately show ?thesis by (simp only: keys_ok_def)
qed


text \<open>The stored sources the drafts stand for; a step never makes a second draft of one.\<close>

definition stored_ids :: "source_draft list \<Rightarrow> jsstring multiset" where
  "stored_ids drafts = image_mset the (filter_mset (\<lambda>x. x \<noteq> None) (image_mset d_id (mset drafts)))"

lemma stored_ids_mono: "mset ds \<subseteq># mset ds' \<Longrightarrow> stored_ids ds \<subseteq># stored_ids ds'"
  unfolding stored_ids_def by (intro image_mset_subseteq_mono multiset_filter_mono)

lemma stored_ids_map: "(\<And>d. d_id (f d) = d_id d) \<Longrightarrow> stored_ids (map f ds) = stored_ids ds"
  by (simp add: stored_ids_def image_mset.compositionality comp_def)

lemma stored_ids_append [simp]: "stored_ids (ds @ ds') = stored_ids ds + stored_ids ds'"
  "stored_ids (d # ds) = (case d_id d of None \<Rightarrow> {#} | Some i \<Rightarrow> {#i#}) + stored_ids ds" "stored_ids [] = {#}"
  by (auto simp: stored_ids_def split: option.splits)

lemma frame_drafts_ids: "frame_drafts picked us c = (ds, c') \<Longrightarrow> stored_ids ds = {#}"
  by (induction us arbitrary: c ds c')
    (auto simp: new_source_draft_def next_key_def Let_def split: prod.splits)

lemma patch_draft_id [simp]: "d_id (patch_draft p d) = d_id d"
  by (cases p) simp_all

lemma move_draft_mset: "mset (move_draft drafts key step) = mset drafts"
proof (cases "find_index (\<lambda>d. d_key d = key) drafts")
  case None
  then show ?thesis by (simp add: move_draft_def del: find_index_None)
next
  case (Some i)
  then have "i < length drafts" by (rule index_split)
  then show ?thesis using Some by (auto simp: move_draft_def Let_def mset_swap)
qed

text \<open>The list a step leaves, by the shape of the change.\<close>

definition refiled :: "source_draft list \<Rightarrow> source_draft list \<Rightarrow> bool" where
  "refiled ds ds' \<longleftrightarrow> map d_key ds' = map d_key ds \<and> map d_id ds' = map d_id ds"

lemma refiled_ok:
  assumes "refiled ds ds'"
  shows "keys_ok ds' c = keys_ok ds c" "length ds' = length ds" "stored_ids ds' = stored_ids ds"
proof -
  show "keys_ok ds' c = keys_ok ds c" by (rule same_keys_ok [OF conjunct1 [OF assms [unfolded refiled_def]]])
  show "length ds' = length ds" using assms by (metis refiled_def length_map)
  show "stored_ids ds' = stored_ids ds"
    using assms unfolding stored_ids_def refiled_def by (metis mset_map)
qed

lemma refiled_update [simp]:
  "(\<And>d. d_key (f d) = d_key d \<and> d_id (f d) = d_id d) \<Longrightarrow> refiled ds (update_draft key f ds)"
  by (simp add: refiled_def update_draft_def)

lemma refiled_settle [simp]: "refiled ds (settle_draft key token file ds)"
  by (simp add: refiled_def settle_draft_def)

lemma tokens_ok_settle:
  assumes "tokens_ok ds t" "\<And>k. running_token (Some file) = Some k \<Longrightarrow> k = token"
  shows "tokens_ok (settle_draft key token file ds) t"
  using assms by (fastforce simp: tokens_ok_def settle_draft_def)

lemma tokens_ok_start: "tokens_ok ds t \<Longrightarrow> running_token (Some file) = Some (Suc t) \<Longrightarrow>
    tokens_ok (update_draft key (\<lambda>d. d\<lparr>d_file := Some file\<rparr>) ds) (Suc t)"
  by (fastforce simp: tokens_ok_def update_draft_def)

lemma tokens_ok_patch: "tokens_ok ds t \<Longrightarrow> tokens_ok (update_draft key (patch_draft p) ds) t"
  by (auto simp: tokens_ok_def update_draft_def split: if_splits)

lemma tokens_ok_sub: "tokens_ok ds t \<Longrightarrow> set ds' \<subseteq> set ds \<Longrightarrow> tokens_ok ds' t"
  by (auto simp: tokens_ok_def)

lemma tokens_ok_frames: "frame_drafts picked us c = (ds, c') \<Longrightarrow> tokens_ok ds t"
proof -
  assume "frame_drafts picked us c = (ds, c')"
  then have "map d_file ds = map (\<lambda>u. Some (Staged u None None None)) us" using frame_drafts_keys by blast
  then have "d_file ` set ds = (\<lambda>u. Some (Staged u None None None)) ` set us" by (metis list.set_map)
  then have "d_file d \<in> (\<lambda>u. Some (Staged u None None None)) ` set us" if "d \<in> set ds" for d
    using imageI [OF that, of d_file] by (simp only:)
  then have "running_token (d_file d) = None" if "d \<in> set ds" for d using that by force
  then show ?thesis by (simp add: tokens_ok_def)
qed

definition editors_good :: "nat \<Rightarrow> jsstring multiset \<Rightarrow> editors \<Rightarrow> bool" where
  "editors_good max_sources ids st \<longleftrightarrow> editors_ok max_sources st \<and> stored_ids (se_drafts st) \<subseteq># ids"

lemma good_refiled:
  assumes "editors_good max_sources ids st" "refiled (se_drafts st) (se_drafts st')" "se_keys st' = se_keys st"
    "tokens_ok (se_drafts st') (se_token st')"
  shows "editors_good max_sources ids st'"
proof -
  note r = refiled_ok [OF assms(2)]
  have "se_drafts st' \<noteq> []" using assms(1) r(2) by (auto simp: editors_good_def editors_ok_def)
  with assms r show ?thesis by (simp add: editors_good_def editors_ok_def)
qed

lemma good_settle:
  assumes "editors_good max_sources ids st" "\<And>k. running_token (Some file) = Some k \<Longrightarrow> k = token"
  shows "editors_good max_sources ids (editors_settle key token file st)"
  using assms
  by (intro good_refiled [OF assms(1)]) (auto simp: editors_settle_def editors_good_def editors_ok_def intro: tokens_ok_settle)

lemma good_start:
  assumes "editors_good max_sources ids st" "running_token (Some (file (Suc (se_token st)))) = Some (Suc (se_token st))"
  shows "editors_good max_sources ids (editors_start key file st)"
  using assms
  by (intro good_refiled [OF assms(1)])
    (auto simp: editors_start_def Let_def editors_good_def editors_ok_def intro: tokens_ok_start)

lemma good_patch: "editors_good max_sources ids st \<Longrightarrow> editors_good max_sources ids (editors_patch key p st)"
  by (rule good_refiled, assumption) (auto simp: editors_patch_def editors_good_def editors_ok_def intro: tokens_ok_patch)

lemma good_pick_lands:
  assumes "editors_good max_sources ids st"
  shows "editors_good max_sources ids (pick_lands max_sources key token fname (Inr (u, rest)) st)"
proof -
  obtain ds c where ds: "place_uploads (se_drafts st) key token (u, rest) fname max_sources (se_keys st) = (ds, c)" by force
  then have st': "pick_lands max_sources key token fname (Inr (u, rest)) st = st\<lparr>se_drafts := ds, se_keys := c\<rparr>"
    by (simp add: pick_lands_def)
  note g = assms [unfolded editors_good_def editors_ok_def]
  from ds show ?thesis
  proof (cases rule: place_uploads_cases)
    case dropped
    then show ?thesis using assms unfolding st' by simp
  next
    case (refused before picked after msg)
    then show ?thesis
      unfolding st' using g
      by (intro good_refiled [OF assms]) (auto simp: refiled_def tokens_ok_def)
  next
    case (placed before picked after added split)
    have "keys_ok ds c"
      unfolding placed(4) by (rule keys_ok_frames [OF _ placed(5)]) (use g placed(1) in simp_all)
    moreover have "tokens_ok ds (se_token st)"
      using g tokens_ok_frames [OF placed(5), of "se_token st"] unfolding placed(1,4) by (auto simp: tokens_ok_def)
    moreover have "length ds \<le> max_sources"
      using placed(6) frame_drafts_keys [OF placed(5)] unfolding placed(1,4) by simp
    moreover have "stored_ids ds = stored_ids (se_drafts st)"
      unfolding placed(1,4) by (simp add: frame_drafts_ids [OF placed(5)])
    ultimately show ?thesis using g unfolding st' editors_good_def editors_ok_def placed(4) by simp
  qed
qed

lemma good_remove:
  assumes "editors_good max_sources ids st" "1 < length (se_drafts st)" "i < length (se_drafts st)"
  shows "editors_good max_sources ids (editors_remove i st)"
proof -
  let ?ds = "se_drafts st" and ?P = "\<lambda>d. d_key d \<noteq> d_key (se_drafts st ! i)"
  note g = assms(1) [unfolded editors_good_def editors_ok_def]
  define j :: nat where "j = (if i = 0 then 1 else 0)"
  have "j < length ?ds" "j \<noteq> i" using assms by (auto simp: j_def)
  then have "d_key (?ds ! j) \<noteq> d_key (?ds ! i)"
    using g assms(3) nth_eq_iff_index_eq [of "map d_key ?ds" i j] by (auto simp: keys_ok_def)
  then have "?ds ! j \<in> set (filter ?P ?ds)" using \<open>j < length ?ds\<close> by simp
  then have "filter ?P ?ds \<noteq> []" by (metis empty_iff list.set(1))
  moreover have "keys_ok (filter ?P ?ds) (se_keys st)"
    by (rule keys_ok_filter) (use g in simp)
  moreover have "length (filter ?P ?ds) \<le> max_sources" by (rule le_trans [OF length_filter_le]) (use g in simp)
  moreover have "stored_ids (filter ?P ?ds) \<subseteq># ids"
    by (rule subset_mset.order_trans [OF stored_ids_mono [of _ ?ds]]) (use g in simp_all)
  ultimately show ?thesis
    using g tokens_ok_sub [of ?ds "se_token st" "filter ?P ?ds"] by (simp add: editors_remove_def editors_good_def editors_ok_def)
qed


lemma good_add:
  assumes "editors_good max_sources ids st" "length (se_drafts st) < max_sources"
  shows "editors_good max_sources ids (editors_add st)"
proof -
  obtain d c where d: "new_source_draft (se_keys st) = (d, c)" by force
  have f: "frame_drafts d [u] (se_keys st) = ([d\<lparr>d_level := d_level d, d_kind := d_kind d, d_file := Some (Staged u None None None)\<rparr>], c)"
    for u by (simp add: d)
  note new = new_source_draft_key [OF d]
  have sub: "set (map d_key (se_drafts st)) \<subseteq> draft_key ` {..se_keys st}" "distinct (map d_key (se_drafts st))"
    using assms(1) by (simp_all only: editors_good_def editors_ok_def keys_ok_def)
  then have "d_key d \<notin> set (map d_key (se_drafts st))" using new by auto
  moreover have "draft_key ` {..se_keys st} \<subseteq> draft_key ` {..c}" "d_key d \<in> draft_key ` {..c}" using new by auto
  ultimately have "keys_ok (se_drafts st @ [d]) c"
    using sub by (auto simp: keys_ok_def)
  moreover have "d_id d = None" using d by (auto simp: new_source_draft_def next_key_def)
  ultimately show ?thesis
    using assms new by (auto simp: editors_add_def d editors_good_def editors_ok_def tokens_ok_def)
qed

lemma good_move:
  assumes "editors_good max_sources ids st"
  shows "editors_good max_sources ids (editors_move i step st)"
proof -
  let ?ds = "move_draft (se_drafts st) (d_key (se_drafts st ! i)) step"
  have m: "mset ?ds = mset (se_drafts st)" by (rule move_draft_mset)
  then have "set ?ds = set (se_drafts st)" "length ?ds = length (se_drafts st)" "mset (map d_key ?ds) = mset (map d_key (se_drafts st))"
    by (auto dest: mset_eq_setD mset_eq_length)
  moreover have "distinct (map d_key ?ds) = distinct (map d_key (se_drafts st))"
    using m by (intro mset_eq_imp_distinct_iff) simp
  moreover have "stored_ids ?ds = stored_ids (se_drafts st)" by (simp add: stored_ids_def m)
  ultimately show ?thesis
    using assms by (auto simp: editors_move_def editors_good_def editors_ok_def keys_ok_def tokens_ok_def)
qed

lemma editors_step_good:
  assumes "editors_step parse max_sources st st'" "editors_good max_sources ids st"
  shows "editors_good max_sources ids st'"
  using assms
proof cases
  case (pick_answer key token fname answer)
  show ?thesis
  proof (cases answer)
    case (Inl err)
    then show ?thesis using pick_answer assms(2) by (auto simp: pick_lands_def intro: good_settle)
  next
    case (Inr up)
    then show ?thesis using pick_answer good_pick_lands [OF assms(2)] by (cases up) simp
  qed
next
  case (import_answer key token post answer)
  then show ?thesis using assms(2) by (auto simp: import_lands_def intro: good_settle split: sum.split)
next
  case (copy_answer key token u answer)
  then show ?thesis using assms(2) by (auto simp: copy_lands_def intro: good_settle split: sum.split)
qed (auto simp: good_add good_remove good_move good_patch editors_pick_def editors_import_def editors_copy_def frames_counted_def
    intro: good_start good_settle)


lemma source_draft_from_key:
  "source_draft_from tz s c = (d, c') \<Longrightarrow>
     d_key d = draft_key (Suc c) \<and> c' = Suc c \<and> running_token (d_file d) = None \<and> d_id d = Some (s_id s)"
  by (auto simp: source_draft_from_def next_key_def draft_key_def draft_fields_def Let_def split: option.splits)
    (cases "s_media s"; simp)+

lemma drafts_from_keys:
  "drafts_from tz ss c = (ds, c') \<Longrightarrow>
     map d_key ds = map draft_key [Suc c..<Suc c'] \<and> c' = c + length ss \<and> tokens_ok ds t \<and>
     stored_ids ds = mset (map s_id ss) \<and> length ds = length ss"
proof (induction ss arbitrary: c ds c')
  case (Cons s ss)
  obtain d c1 where d: "source_draft_from tz s c = (d, c1)" by force
  obtain ds' c2 where ds': "drafts_from tz ss c1 = (ds', c2)" by force
  have c': "ds = d # ds'" "c' = c2" using Cons.prems by (simp_all add: d ds')
  note d' = source_draft_from_key [OF d]
  note ih = Cons.IH [OF ds']
  have up: "[Suc c..<Suc (c + length (s # ss))] = Suc c # [Suc (Suc c)..<Suc (c + length (s # ss))]"
    by (rule upt_conv_Cons) simp
  have "map d_key ds = map draft_key [Suc c..<Suc c']"
    using ih d' up unfolding c' by (simp del: upt_Suc)
  moreover have "c' = c + length (s # ss)" "length ds = length (s # ss)" "tokens_ok ds t" "stored_ids ds = mset (map s_id (s # ss))"
    using ih d' unfolding c' by (simp_all add: tokens_ok_def)
  ultimately show ?case by blast
qed (simp add: tokens_ok_def)

lemma keys_ok_upto: "map d_key ds = map draft_key [Suc c..<Suc c'] \<Longrightarrow> keys_ok ds c'"
  unfolding keys_ok_def by (simp only:) (auto simp: distinct_map inj_on_def simp del: upt_Suc)

definition stored_sources_of :: "event option \<Rightarrow> source list" where
  "stored_sources_of row = (case row of Some geo \<Rightarrow> e_sources geo | None \<Rightarrow> [])"

definition editors_open :: "(int \<Rightarrow> int) \<Rightarrow> event option \<Rightarrow> nat \<Rightarrow> nat \<Rightarrow> editors" where
  "editors_open tz row c t = (case seed_sources tz row c of (ds, c') \<Rightarrow> \<lparr>se_drafts = ds, se_keys = c', se_token = t\<rparr>)"

lemma editors_open_good:
  assumes "length (stored_sources_of row) \<le> max_sources" "0 < max_sources"
  shows "editors_good max_sources (mset (map s_id (stored_sources_of row))) (editors_open tz row c t)"
proof (cases "stored_sources_of row = []")
  case True
  obtain d c1 where d: "new_source_draft c = (d, c1)" by force
  have "seed_sources tz row c = ([d], c1)" using True d
    by (auto simp: seed_sources_def stored_sources_of_def split: option.splits)
  moreover have "d_id d = None" using d by (auto simp: new_source_draft_def next_key_def)
  ultimately show ?thesis
    using new_source_draft_key [OF d] assms True
    by (auto simp: editors_open_def editors_good_def editors_ok_def keys_ok_def tokens_ok_def)
next
  case False
  then obtain geo where geo: "row = Some geo" "e_sources geo \<noteq> []" by (auto simp: stored_sources_of_def split: option.splits)
  obtain ds c' where ds: "drafts_from tz (e_sources geo) c = (ds, c')" by force
  note k = drafts_from_keys [OF ds, of t]
  have "keys_ok ds c'" using k keys_ok_upto by blast
  moreover have "ds \<noteq> []" using k geo(2) by auto
  ultimately show ?thesis
    using k assms geo by (simp add: editors_open_def seed_sources_def ds editors_good_def editors_ok_def stored_sources_of_def)
qed

text \<open>The ids of stored sources a write of the drafts names.\<close>

definition posted_ids :: "(int \<Rightarrow> int) \<Rightarrow> source_draft list \<Rightarrow> jsstring multiset" where
  "posted_ids tz drafts = image_mset the (filter_mset (\<lambda>x. x \<noteq> None) (mset (map (sc_id \<circ> source_create_payload tz) drafts)))"

lemma posted_ids_stored: "posted_ids tz drafts = stored_ids drafts"
proof -
  have "sc_id \<circ> source_create_payload tz = d_id"
    by (auto simp: source_create_payload_def file_reference_def Let_def)
  then show ?thesis by (simp add: posted_ids_def stored_ids_def)
qed

text \<open>
  C35. Whatever happens in the Sources section of a form, in any order - adds, moves, removals, edits,
  picks, imports, copies, and their answers landing late, twice or never - the form keeps at least
  one source and never passes the cap, however many frames a GIF splits into; every editor keeps a
  key of its own; and a write names no stored source twice and none the row did not hold.
\<close>

theorem sources_stay_well_formed:
  assumes "(editors_step parse MAX_SOURCES_PER_EVENT)\<^sup>*\<^sup>* (editors_open tz row c t) st"
    "length (stored_sources_of row) \<le> MAX_SOURCES_PER_EVENT"
  shows "se_drafts st \<noteq> [] \<and> length (se_drafts st) \<le> MAX_SOURCES_PER_EVENT \<and> distinct (map d_key (se_drafts st)) \<and>
    posted_ids tz (se_drafts st) \<subseteq># mset (map s_id (stored_sources_of row))"
proof -
  have "editors_good MAX_SOURCES_PER_EVENT (mset (map s_id (stored_sources_of row))) st"
    using assms(1)
  proof (induction rule: rtranclp_induct)
    case base
    show ?case using assms(2) by (intro editors_open_good) (simp_all add: MAX_SOURCES_PER_EVENT_def)
  next
    case (step y z)
    then show ?case by (blast intro: editors_step_good)
  qed
  then show ?thesis by (simp add: editors_good_def editors_ok_def keys_ok_def posted_ids_stored)
qed

section \<open>A superseded answer\<close>

definition awaits :: "jsstring \<Rightarrow> nat \<Rightarrow> source_draft list \<Rightarrow> bool" where
  "awaits key token drafts \<longleftrightarrow> (\<exists>d \<in> set drafts. d_key d = key \<and> running_token (d_file d) = Some token)"

lemma awaits_settle:
  "(\<And>k. running_token (Some file) = Some k \<Longrightarrow> k = token') \<Longrightarrow>
   awaits key token (settle_draft key' token' file ds) \<Longrightarrow> awaits key token ds"
  by (fastforce simp: awaits_def settle_draft_def split: if_splits)

lemma awaits_patch: "awaits key token (update_draft key' (patch_draft p) ds) \<Longrightarrow> awaits key token ds"
  by (auto simp: awaits_def update_draft_def split: if_splits)

lemma awaits_start:
  "running_token (Some file) = Some token' \<Longrightarrow> token \<noteq> token' \<Longrightarrow>
   awaits key token (update_draft key' (\<lambda>d. d\<lparr>d_file := Some file\<rparr>) ds) \<Longrightarrow> awaits key token ds \<and> key \<noteq> key'"
  by (auto simp: awaits_def update_draft_def split: if_splits)

lemma awaits_settled: "\<not> awaits key token ds \<Longrightarrow> settle_draft key token file ds = ds"
  unfolding settle_draft_def by (rule map_idI) (auto simp: awaits_def)

lemma awaits_placed: "\<not> awaits key token ds \<Longrightarrow> place_uploads ds key token us fname m c = (ds, c)"
proof -
  assume "\<not> awaits key token ds"
  then have "find_index (\<lambda>d. d_key d = key \<and> running_token (d_file d) = Some token) ds = None"
    by (auto simp: awaits_def)
  then show ?thesis by (simp add: place_uploads_def del: find_index_None)
qed

lemma awaits_place:
  assumes "place_uploads ds key' token' (u, rest) fname m c = (ds', c')" "awaits key token ds'"
  shows "awaits key token ds"
  using assms(1)
proof (cases rule: place_uploads_cases)
  case (placed before picked after added split)
  have "running_token (d_file d) = None" if "d \<in> set added" for d
  proof -
    have "d_file d \<in> set (map d_file added)" using that by simp
    then have "d_file d \<in> set (map (\<lambda>u. Some (Staged u None None None)) rest)" using frame_drafts_keys [OF placed(5)] by metis
    then show ?thesis by auto
  qed
  then show ?thesis using assms(2) unfolding placed(1,4) awaits_def by auto
qed (use assms(2) in \<open>auto simp: awaits_def\<close>)


lemma awaits_settle_at:
  "(\<And>k. running_token (Some file) = Some k \<Longrightarrow> k = token') \<Longrightarrow>
   awaits key token (se_drafts (editors_settle key' token' file st)) \<Longrightarrow> awaits key token (se_drafts st)"
proof -
  assume token: "\<And>k. running_token (Some file) = Some k \<Longrightarrow> k = token'"
  assume "awaits key token (se_drafts (editors_settle key' token' file st))"
  then show "awaits key token (se_drafts st)" using awaits_settle [OF token] by (simp add: editors_settle_def)
qed

lemma awaits_settle_dests:
  "awaits key token (se_drafts (editors_settle key' token' (Failed fname msg) st)) \<Longrightarrow> awaits key token (se_drafts st)"
  "awaits key token (se_drafts (editors_settle key' token' (Staged up post proof split) st)) \<Longrightarrow> awaits key token (se_drafts st)"
  "awaits key token (se_drafts (editors_settle key' token' (Uploading fname token' frames) st)) \<Longrightarrow> awaits key token (se_drafts st)"
  by (erule awaits_settle_at [rotated], simp)+

lemma editors_settle_token [simp]: "se_token (editors_settle key token file st) = se_token st"
  by (simp add: editors_settle_def)

lemma settle_unawaited: "\<not> awaits key token (se_drafts st) \<Longrightarrow> editors_settle key token file st = st"
  by (simp add: editors_settle_def awaits_settled)

lemma awaits_start_at:
  "running_token (Some (file (Suc (se_token st)))) = Some (Suc (se_token st)) \<Longrightarrow> token \<le> se_token st \<Longrightarrow>
   awaits key token (se_drafts (editors_start key' file st)) \<Longrightarrow> awaits key token (se_drafts st) \<and> key \<noteq> key'"
  using awaits_start [of "file (Suc (se_token st))" "Suc (se_token st)" token key key' "se_drafts st"]
  by (auto simp: editors_start_def Let_def)

text \<open>A request no draft waits for is not waited for again: tokens are given out once.\<close>

lemma awaits_step:
  assumes "editors_step parse max_sources st st'" "token \<le> se_token st"
  shows "(awaits key token (se_drafts st') \<longrightarrow> awaits key token (se_drafts st)) \<and> token \<le> se_token st'"
  using assms
proof cases
  case (pick_answer key' token' fname answer)
  show ?thesis
  proof (cases answer)
    case (Inl err)
    then show ?thesis using pick_answer assms(2)
      by (auto simp: pick_lands_def dest: awaits_settle_dests)
  next
    case (Inr up)
    obtain u rest where up: "up = (u, rest)" by force
    obtain ds c where ds: "place_uploads (se_drafts st) key' token' (u, rest) fname max_sources (se_keys st) = (ds, c)" by force
    show ?thesis using pick_answer assms(2) awaits_place [OF ds] by (auto simp: pick_lands_def Inr up ds)
  qed
next
  case (import_answer key' token' post answer)
  then show ?thesis using assms(2)
    by (auto simp: import_lands_def dest: awaits_settle_dests split: sum.splits)
next
  case (copy_answer key' token' u answer)
  then show ?thesis using assms(2)
    by (auto simp: copy_lands_def dest: awaits_settle_dests split: sum.splits)
next
  case (frames_known key' token' fname frames)
  then show ?thesis using assms(2)
    by (auto simp: frames_counted_def dest: awaits_settle_dests split: if_splits)
next
  case (pick_file key' fname)
  have "awaits key token (se_drafts st') \<Longrightarrow> awaits key token (se_drafts st)"
    using pick_file assms(2) awaits_start_at [of "\<lambda>t. Uploading fname t None"] by (simp add: editors_pick_def)
  then show ?thesis using pick_file assms(2) by (auto simp: editors_pick_def editors_start_def Let_def)
next
  case (import_link key' post)
  have "awaits key token (se_drafts st') \<Longrightarrow> awaits key token (se_drafts st)"
    using import_link assms(2) awaits_start_at [of "\<lambda>t. Importing post t"] by (simp add: editors_import_def)
  then show ?thesis using import_link assms(2) by (auto simp: editors_import_def editors_start_def Let_def)
next
  case (copy_image key' u)
  have "awaits key token (se_drafts st') \<Longrightarrow> awaits key token (se_drafts st)"
    using copy_image assms(2) awaits_start_at [of "\<lambda>t. Copying u t"] by (simp add: editors_copy_def)
  then show ?thesis using copy_image assms(2) by (auto simp: editors_copy_def editors_start_def Let_def)
next
  case add_source
  obtain d c where d: "new_source_draft (se_keys st) = (d, c)" by force
  show ?thesis using add_source assms(2) new_source_draft_key [OF d] by (auto simp: editors_add_def d awaits_def)
next
  case (remove_source i)
  then show ?thesis using assms(2) by (auto simp: editors_remove_def awaits_def)
next
  case (move_source i step)
  have "set (move_draft (se_drafts st) (d_key (se_drafts st ! i)) step) = set (se_drafts st)"
    using move_draft_mset by (metis set_mset_mset)
  then show ?thesis using move_source assms(2) by (auto simp: editors_move_def awaits_def)
next
  case (patch_source key' p)
  then show ?thesis using assms(2) by (auto simp: editors_patch_def dest: awaits_patch)
qed

lemma not_awaits_update:
  "(\<And>d. d_key (f d) = d_key d \<and> running_token (d_file (f d)) \<noteq> Some token) \<Longrightarrow> \<not> awaits key token (update_draft key f ds)"
  by (induction ds) (simp_all add: awaits_def update_draft_def)

text \<open>What takes a request's file away from its editor: another pick, import or copy, the file's removal.\<close>

inductive replaces :: "jsstring \<Rightarrow> editors \<Rightarrow> editors \<Rightarrow> bool" for key where
  by_pick: "replaces key st (editors_pick key fname st)"
| by_import: "replaces key st (editors_import key post st)"
| by_copy: "replaces key st (editors_copy key u st)"
| by_removal: "replaces key st (editors_patch key Patch_no_file st)"
| by_remove: "d_key (se_drafts st ! i) = key \<Longrightarrow> replaces key st (editors_remove i st)"

lemma replaced_not_awaited:
  assumes "replaces key st st'" "token \<le> se_token st"
  shows "\<not> awaits key token (se_drafts st') \<and> token \<le> se_token st'"
proof -
  have start: "\<not> awaits key token (se_drafts (editors_start key f st)) \<and> token \<le> se_token (editors_start key f st)"
    if "running_token (Some (f (Suc (se_token st)))) = Some (Suc (se_token st))" for f
    using awaits_start_at [of f st token key key] that assms(2) by (auto simp: editors_start_def Let_def)
  from assms(1) show ?thesis
  proof cases
    case by_removal
    have "\<not> awaits key token (update_draft key (patch_draft Patch_no_file) (se_drafts st))"
      by (rule not_awaits_update) simp
    with by_removal assms(2) show ?thesis by (simp add: editors_patch_def)
  next
    case (by_remove i)
    with assms(2) show ?thesis by (auto simp: editors_remove_def awaits_def)
  qed (use start in \<open>simp_all add: editors_pick_def editors_import_def editors_copy_def\<close>)
qed

text \<open>
  C36. A file picked, imported, copied or removed while a request runs drops that request's answer:
  from then on, whatever else happens in the section, the answer of the old pick, import or copy -
  success, failure, or the frame count of its GIF - changes nothing of the form.
\<close>

theorem superseded_answer_is_dropped:
  assumes "replaces key st st'" "token \<le> se_token st" "(editors_step parse max_sources)\<^sup>*\<^sup>* st' st''"
  shows "pick_lands max_sources key token fname answer st'' = st'' \<and> import_lands parse key token post answer' st'' = st'' \<and>
    copy_lands key token u answer'' st'' = st'' \<and> frames_counted key token fname frames st'' = st''"
proof -
  have "\<not> awaits key token (se_drafts st'') \<and> token \<le> se_token st''"
    using assms(3)
  proof (induction rule: rtranclp_induct)
    case base
    show ?case by (rule replaced_not_awaited [OF assms(1,2)])
  next
    case (step y z)
    then show ?case using awaits_step [OF step.hyps(2)] by blast
  qed
  then have not_awaited: "\<not> awaits key token (se_drafts st'')" by blast
  note same = settle_unawaited [OF not_awaited] awaits_placed [OF not_awaited]
  show ?thesis
    by (cases answer; cases answer'; cases answer'')
      (simp_all add: pick_lands_def import_lands_def copy_lands_def frames_counted_def same)
qed


section \<open>The frames of a GIF\<close>

lemma frame_drafts_fresh: "frame_drafts picked us c = (ds, c') \<Longrightarrow> \<forall>d \<in> set ds. d_id d = None"
  by (induction us arbitrary: c ds c')
    (auto simp: new_source_draft_def next_key_def Let_def split: prod.splits)

text \<open>
  C37. The answer of a pick still awaited is all or nothing: the staged files fill the editor that
  picked them and one new editor each right after it, in the order the server split them, at its
  level and kind, and the count of frames is kept; or, where they would pass the cap, that editor
  alone fails and no other changes. Either way every other editor stands as it was, in place.
\<close>

theorem frames_land_in_order_or_not_at_all:
  assumes "awaits key token drafts" "place_uploads drafts key token (u, rest) fname max_sources c = (drafts', c')"
  shows "\<exists>before picked after added f. drafts = before @ picked # after \<and> d_key picked = key \<and>
    drafts' = before @ picked\<lparr>d_file := Some f\<rparr> # added @ after \<and>
    (if max_sources < length drafts + length rest then added = [] \<and> (\<exists>msg. f = Failed fname msg)
     else map d_file (picked\<lparr>d_file := Some f\<rparr> # added) =
         Some (Staged u None None (if rest = [] then None else Some \<lparr>gs_name = fname, gs_frames = Suc (length rest)\<rparr>)) #
         map (\<lambda>u. Some (Staged u None None None)) rest \<and>
       (\<forall>d \<in> set added. d_level d = d_level picked \<and> d_kind d = d_kind picked \<and> d_id d = None))"
proof -
  obtain i where i: "find_index (\<lambda>d. d_key d = key \<and> running_token (d_file d) = Some token) drafts = Some i"
    using assms(1) by (cases "find_index (\<lambda>d. d_key d = key \<and> running_token (d_file d) = Some token) drafts") (auto simp: awaits_def)
  note at = index_split [OF i]
  let ?picked = "drafts ! i" and ?before = "take i drafts" and ?after = "drop (Suc i) drafts"
  show ?thesis
  proof (cases "max_sources < length drafts + length rest")
    case True
    let ?f = "Failed fname (frames_refusal (Suc (length rest)) (int max_sources - int (length drafts) + 1))"
    have "drafts' = ?before @ ?picked\<lparr>d_file := Some ?f\<rparr> # [] @ ?after"
      using assms(2) i True at(2) by (simp add: place_uploads_def upd_conv_take_nth_drop)
    with at True show ?thesis
      by (intro exI [of _ ?before] exI [of _ ?picked] exI [of _ ?after] exI [of _ "[]"] exI [of _ ?f]) simp
  next
    case False
    obtain added c1 where added: "frame_drafts ?picked rest c = (added, c1)" by force
    let ?f = "Staged u None None (if rest = [] then None else Some \<lparr>gs_name = fname, gs_frames = Suc (length rest)\<rparr>)"
    have "drafts' = ?before @ ?picked\<lparr>d_file := Some ?f\<rparr> # added @ ?after"
      using assms(2) i False added by (auto simp: place_uploads_def)
    moreover have "\<forall>d \<in> set added. d_id d = None" by (rule frame_drafts_fresh [OF added])
    moreover note frame_drafts_keys [OF added]
    ultimately show ?thesis using at False
      by (intro exI [of _ ?before] exI [of _ ?picked] exI [of _ ?after] exI [of _ added] exI [of _ ?f]) simp
  qed
qed

section \<open>Moves\<close>

fun other_way :: "move_step \<Rightarrow> move_step" where
  "other_way Earlier = Later"
| "other_way Later = Earlier"

lemma find_index_key: "distinct (map d_key ds) \<Longrightarrow> i < length ds \<Longrightarrow> find_index (\<lambda>d. d_key d = d_key (ds ! i)) ds = Some i"
proof -
  assume ds: "distinct (map d_key ds)" "i < length ds"
  obtain j where j: "find_index (\<lambda>d. d_key d = d_key (ds ! i)) ds = Some j"
    using ds(2) by (cases "find_index (\<lambda>d. d_key d = d_key (ds ! i)) ds") auto
  have "j < length ds" "d_key (ds ! j) = d_key (ds ! i)" using index_split [OF j] by auto
  then show ?thesis using ds j nth_eq_iff_index_eq [of "map d_key ds" j i] by simp
qed

lemma move_draft_swaps:
  assumes "distinct (map d_key ds)" "i < length ds" "int j = int i + move_offset step" "j < length ds"
  shows "move_draft ds (d_key (ds ! i)) step = ds[i := ds ! j, j := ds ! i]"
proof -
  have "nat (int i + move_offset step) = j" using assms(3) by simp
  then show ?thesis using find_index_key [OF assms(1,2)] assms(3,4) by (simp add: move_draft_def Let_def)
qed

text \<open>
  A move swaps the source with its neighbour and only that, and the move back undoes it; at the
  ends of the row nothing moves.
\<close>

theorem move_back_undoes_move:
  assumes "distinct (map d_key ds)" "i < length ds"
  shows "move_draft (move_draft ds (d_key (ds ! i)) step) (d_key (ds ! i)) (other_way step) = ds \<or>
    (move_draft ds (d_key (ds ! i)) step = ds \<and> (int i + move_offset step < 0 \<or> int (length ds) \<le> int i + move_offset step))"
proof (cases "int i + move_offset step < 0 \<or> int (length ds) \<le> int i + move_offset step")
  case True
  then show ?thesis using find_index_key [OF assms] by (simp add: move_draft_def Let_def)
next
  case False
  define j where "j = nat (int i + move_offset step)"
  have j: "int j = int i + move_offset step" "j < length ds" using False by (auto simp: j_def)
  let ?ds = "ds[i := ds ! j, j := ds ! i]"
  have "j \<noteq> i" using j by (cases step) auto
  then have "?ds ! j = ds ! i" "?ds ! i = ds ! j" using assms(2) j(2) by simp_all
  moreover have "map d_key ?ds = (map d_key ds)[i := map d_key ds ! j, j := map d_key ds ! i]"
    using assms(2) j(2) by (simp add: map_update)
  then have "distinct (map d_key ?ds)" using distinct_swap [of i "map d_key ds" j] assms j(2) by simp
  moreover have "int i = int j + move_offset (other_way step)" using j(1) by (cases step) auto
  ultimately have "move_draft ?ds (d_key (ds ! i)) (other_way step) = ?ds[j := ds ! j, i := ds ! i]"
    using move_draft_swaps [of ?ds j i "other_way step"] assms(2) j(2) by simp
  also have "\<dots> = ds" using \<open>j \<noteq> i\<close> assms(2) j(2) by (simp add: list_update_swap)
  finally show ?thesis using move_draft_swaps [OF assms j] by simp
qed

section \<open>What is flagged and what is held\<close>

lemma find_none: "find P xs = None \<longleftrightarrow> (\<forall>x \<in> set xs. \<not> P x)"
  by (auto simp: find_None_iff)

text \<open>
  A publish attempt that flags a source shows one: the editor it scrolls to is the first with a
  missing link or kind; else, when no file is there, the first that could hold it. There is none to
  show exactly when no link or kind misses and either no file does or every source is context.
\<close>

theorem flagged_source_is_shown:
  assumes "keys = mf_key ` set (missing_event_request_fields title (source_floor_of drafts))"
  shows "first_gap drafts keys = None \<longleftrightarrow>
    (\<not> fl_missing_link (source_floor_of drafts) \<and> \<not> fl_missing_kind (source_floor_of drafts) \<and>
     (fl_evidence_file (source_floor_of drafts) \<or> list_all (\<lambda>d. d_level d = Context) drafts))"
proof -
  let ?f = "source_floor_of drafts"
  have keys: "Key_source_link \<in> keys \<longleftrightarrow> fl_missing_link ?f" "Key_source_kind \<in> keys \<longleftrightarrow> fl_missing_kind ?f"
    "Key_source_file \<in> keys \<longleftrightarrow> \<not> fl_evidence_file ?f"
    unfolding assms by (auto simp: missing_event_request_fields_def missing_add_def)
  have gaps: "(\<exists>d \<in> set drafts. gap_link (source_gaps_of d keys) \<or> gap_kind (source_gaps_of d keys)) \<longleftrightarrow>
      fl_missing_link ?f \<or> fl_missing_kind ?f"
    unfolding source_gaps_of_def keys by (auto simp: source_floor_of_def list_ex_iff)
  have evidence: "is_evidence_level l \<longleftrightarrow> l \<noteq> Context" for l by (cases l) simp_all
  show ?thesis
  proof (cases "fl_missing_link ?f \<or> fl_missing_kind ?f")
    case True
    then obtain d where "find (\<lambda>d. gap_link (source_gaps_of d keys) \<or> gap_kind (source_gaps_of d keys)) drafts = Some d"
      using gaps find_none by (metis (mono_tags, lifting) not_None_eq)
    then show ?thesis using True by (auto simp: first_gap_def)
  next
    case False
    then have none: "find (\<lambda>d. gap_link (source_gaps_of d keys) \<or> gap_kind (source_gaps_of d keys)) drafts = None"
      using gaps by (auto simp: find_None_iff)
    show ?thesis using False unfolding first_gap_def none
      by (auto simp: keys find_None_iff evidence list_all_iff)
  qed
qed

text \<open>
  A write the sources do not hold leaves nothing running behind: each source that shows a file
  posts the media or the upload it stands for, and each archived copy posted is a snapshot URL.
\<close>

theorem unheld_write_posts_its_files:
  assumes "sources_block_write parse drafts = None" "d \<in> set drafts"
  shows "(holds_file d \<longleftrightarrow> sc_media_id (source_create_payload tz d) \<noteq> None \<or> sc_upload_id (source_create_payload tz d) \<noteq> None) \<and>
    (\<forall>l \<in> set (d_links d). js_trim (ld_snapshot l) = [] \<or> is_snapshot_url parse (ld_snapshot l))"
proof -
  have "\<not> file_running (d_file d)" "\<not> pasted_snapshot_refused parse drafts"
    using assms by (auto simp: sources_block_write_def uploads_running_def list_ex_iff split: if_splits)
  moreover have "holds_file d \<longleftrightarrow> sc_media_id (source_create_payload tz d) \<noteq> None \<or> sc_upload_id (source_create_payload tz d) \<noteq> None"
    if "\<not> file_running (d_file d)"
    using that
    by (cases "d_file d"; cases "the (d_file d)")
      (auto simp: holds_file_def source_create_payload_def file_reference_def Let_def)
  ultimately show ?thesis using assms(2) by (auto simp: pasted_snapshot_refused_def list_ex_iff)
qed


section \<open>Witnesses\<close>

definition blank_form :: editors where
  "blank_form = editors_open (\<lambda>x. x) None 0 0"

lemma sources_stay_well_formed_witness:
  "length (se_drafts (editors_add blank_form)) \<le> MAX_SOURCES_PER_EVENT \<and>
   posted_ids (\<lambda>x. x) (se_drafts (editors_add blank_form)) \<subseteq># {#}"
proof -
  have "length (se_drafts blank_form) = 1"
    by (simp add: blank_form_def editors_open_def seed_sources_def new_source_draft_def next_key_def)
  then have "editors_step (\<lambda>_. None) MAX_SOURCES_PER_EVENT blank_form (editors_add blank_form)"
    by (intro editors_step.add_source) (simp add: MAX_SOURCES_PER_EVENT_def)
  then have "(editors_step (\<lambda>_. None) MAX_SOURCES_PER_EVENT)\<^sup>*\<^sup>* (editors_open (\<lambda>x. x) None 0 0) (editors_add blank_form)"
    unfolding blank_form_def by (rule r_into_rtranclp)
  from sources_stay_well_formed [OF this] show ?thesis by (simp add: stored_sources_of_def)
qed

definition example_upload :: upload where
  "example_upload = \<lparr>u_id = ''u1'', u_kind = Image, u_filename = None, u_expires_at = ''2026-08-01T00:00:00Z'',
     u_sha256 = ''00'', u_url = ''https://cdn.vidit.app/u1''\<rparr>"

text \<open>A second file is picked while the first uploads; the first answers.\<close>

lemma superseded_answer_is_dropped_witness:
  "pick_lands 10 ''source-1'' 1 ''a.mp4'' (Inr (example_upload, []))
     (editors_pick ''source-1'' ''b.mp4'' (editors_pick ''source-1'' ''a.mp4'' blank_form)) =
   editors_pick ''source-1'' ''b.mp4'' (editors_pick ''source-1'' ''a.mp4'' blank_form)"
proof -
  have "1 \<le> se_token (editors_pick ''source-1'' ''a.mp4'' blank_form)"
    by (simp add: editors_pick_def editors_start_def Let_def)
  from superseded_answer_is_dropped [OF replaces.by_pick this rtranclp.rtrancl_refl] show ?thesis by blast
qed

definition picking_draft :: source_draft where
  "picking_draft = (fst (new_source_draft 0))\<lparr>d_file := Some (Uploading ''a.gif'' 1 None)\<rparr>"

lemma picking_awaits: "awaits (draft_key 1) 1 [picking_draft]"
  by (simp add: awaits_def picking_draft_def new_source_draft_def next_key_def draft_key_def)

lemma frames_land_in_order_or_not_at_all_witness:
  "\<exists>picked added f. [picking_draft] = [picked] \<and>
    fst (place_uploads [picking_draft] (draft_key 1) 1 (example_upload, [example_upload]) ''a.gif'' 10 1) =
      picked\<lparr>d_file := Some f\<rparr> # added \<and> length added = 1"
proof -
  obtain drafts' c' where placed:
    "place_uploads [picking_draft] (draft_key 1) 1 (example_upload, [example_upload]) ''a.gif'' 10 1 = (drafts', c')" by force
  from frames_land_in_order_or_not_at_all [OF picking_awaits placed]
  obtain before picked after added f where shape: "[picking_draft] = before @ picked # after"
    "drafts' = before @ picked\<lparr>d_file := Some f\<rparr> # added @ after"
    "map d_file (picked\<lparr>d_file := Some f\<rparr> # added) =
       [Some (Staged example_upload None None (Some \<lparr>gs_name = ''a.gif'', gs_frames = Suc (Suc 0)\<rparr>)),
        Some (Staged example_upload None None None)]"
    by auto
  have "before = []" "after = []" using shape(1) by (auto simp: Cons_eq_append_conv)
  moreover have "length added = 1" using arg_cong [OF shape(3), of length] by simp
  ultimately show ?thesis using shape placed by auto
qed

lemma move_back_undoes_move_witness:
  "move_draft (move_draft [picking_draft] (d_key ([picking_draft] ! 0)) Later) (d_key ([picking_draft] ! 0)) (other_way Later) =
     [picking_draft] \<or> move_draft [picking_draft] (d_key ([picking_draft] ! 0)) Later = [picking_draft]"
  using move_back_undoes_move [of "[picking_draft]" 0 Later] by auto

lemma unheld_write_posts_its_files_witness:
  "sc_upload_id (source_create_payload (\<lambda>x. x) (picking_draft\<lparr>d_file := Some (Staged example_upload None None None)\<rparr>)) \<noteq> None \<or>
   sc_media_id (source_create_payload (\<lambda>x. x) (picking_draft\<lparr>d_file := Some (Staged example_upload None None None)\<rparr>)) \<noteq> None"
proof -
  let ?d = "picking_draft\<lparr>d_file := Some (Staged example_upload None None None)\<rparr>"
  have "js_trim [] = []" by (simp add: js_trim_def)
  then have "sources_block_write (\<lambda>_. None) [?d] = None"
    by (simp add: sources_block_write_def uploads_running_def pasted_snapshot_refused_def picking_draft_def new_source_draft_def
        next_key_def blank_link_def)
  from unheld_write_posts_its_files [OF this, of ?d "\<lambda>x. x"] show ?thesis by (auto simp: holds_file_def)
qed

end
