(* ===== verification/Event_Write.thy ===== *)
theory Event_Write
  imports Source_Editors Request_Hooks
begin

text \<open>
  \<open>components/geolocations/useEventWrite.ts\<close> and \<open>usePublishAction\<close> of \<open>PublishActions.tsx\<close>: one write of
  an event form, from the click through its gate, its confirm or its panel, to the request and its
  answer. What a click reads of the form is a record; the caller's last refusal is one of its fields.
\<close>

section \<open>The gate\<close>

datatype write_kind = Kind_publish | Kind_version | Kind_save_request

fun WRITE_FALLBACK :: "write_kind \<Rightarrow> jsstring" where
  "WRITE_FALLBACK Kind_publish = ''Couldn't publish.''"
| "WRITE_FALLBACK Kind_version = ''Couldn't save this version.''"
| "WRITE_FALLBACK Kind_save_request = ''Couldn't save this request.''"

definition REQUEST_SITE_LINKS :: jsstring where
  "REQUEST_SITE_LINKS = ''A request links to no site. Remove the linked sites, or publish a geolocation.''"

datatype write_floor = Publish_floor | Request_floor

text \<open>What a click reads: the taxonomy's message while its conflicts are not there, what the two floors miss, the Linked sites, the sources, the caller's refusal.\<close>

record click_view =
  cv_blocked :: "jsstring option"
  cv_publish_missing :: "missing_field list"
  cv_request_missing :: "missing_field list"
  cv_links :: nat
  cv_sources :: "source_draft list"
  cv_extra :: "jsstring option"

definition view_missing :: "write_floor \<Rightarrow> click_view \<Rightarrow> missing_field list" where
  "view_missing fl v = (if fl = Publish_floor then cv_publish_missing v else cv_request_missing v)"

datatype gate = Held jsstring | Flagged "missing_field list" | Passed

definition write_gate :: "url_parser \<Rightarrow> write_floor \<Rightarrow> click_view \<Rightarrow> gate" where
  "write_gate parse fl v =
     (case (if fl = Publish_floor then cv_blocked v else None) of
        Some message \<Rightarrow> Held message
      | None \<Rightarrow>
          if view_missing fl v \<noteq> [] then Flagged (view_missing fl v)
          else if fl = Request_floor \<and> 0 < cv_links v then Held REQUEST_SITE_LINKS
          else (case (case sources_block_write parse (cv_sources v) of Some m \<Rightarrow> Some m | None \<Rightarrow> cv_extra v) of
              Some message \<Rightarrow> Held message
            | None \<Rightarrow> Passed))"

section \<open>One write\<close>

text \<open>\<open>pa_confirm\<close> is whether a first click arms, \<open>pa_ask\<close> whether it opens the panel; the panel wins.\<close>

record write_options =
  pa_floor :: write_floor
  pa_confirm :: bool
  pa_ask :: bool

record write_state =
  ws_mutation :: mutation_state
  ws_confirm :: confirm_state
  ws_asking :: bool
  ws_flagged :: "missing_field list"
  ws_attempts :: nat
  ws_writes :: nat

definition write_closed :: write_state where
  "write_closed = \<lparr>ws_mutation = \<lparr>mu_loading = False, mu_error = None, mu_fields = []\<rparr>,
     ws_confirm = \<lparr>ca_armed = False, ca_timer = False, ca_fired = 0\<rparr>, ws_asking = False, ws_flagged = [],
     ws_attempts = 0, ws_writes = 0\<rparr>"

text \<open>\<open>write\<close>: the mutation starts.\<close>

definition send_write :: "write_state \<Rightarrow> write_state" where
  "send_write st = st\<lparr>ws_mutation := mutation_start (ws_mutation st), ws_writes := ws_writes st + 1\<rparr>"

text \<open>\<open>trigger\<close> arms, or fires the write.\<close>

definition trigger_write :: "write_state \<Rightarrow> write_state" where
  "trigger_write st = (let c = confirm_step (Some ARM_MS) True Trigger (ws_confirm st); st' = st\<lparr>ws_confirm := c\<rparr>
     in if ca_fired c \<noteq> ca_fired (ws_confirm st) then send_write st' else st')"

definition held_back :: "write_state \<Rightarrow> write_state" where
  "held_back st = st\<lparr>ws_confirm := confirm_cancel (ws_confirm st), ws_asking := False\<rparr>"

text \<open>The check of a click: clear, then the gate.\<close>

definition click_cleared :: "write_state \<Rightarrow> write_state" where
  "click_cleared st = st\<lparr>ws_mutation := mutation_reset (ws_mutation st), ws_flagged := []\<rparr>"

definition attempt_write :: "url_parser \<Rightarrow> write_options \<Rightarrow> click_view \<Rightarrow> write_state \<Rightarrow> write_state" where
  "attempt_write parse opts v st = (let st = click_cleared st in
     case write_gate parse (pa_floor opts) v of
       Held message \<Rightarrow> held_back (st\<lparr>ws_mutation := (ws_mutation st)\<lparr>mu_error := Some message\<rparr>\<rparr>)
     | Flagged missing \<Rightarrow> held_back (st\<lparr>ws_flagged := missing, ws_attempts := ws_attempts st + 1\<rparr>)
     | Passed \<Rightarrow> if pa_ask opts then st\<lparr>ws_asking := True\<rparr>
         else if pa_confirm opts then trigger_write st
         else send_write st)"

definition confirm_ask :: "write_state \<Rightarrow> write_state" where
  "confirm_ask st = send_write (st\<lparr>ws_asking := False\<rparr>)"

definition cancel_ask :: "write_state \<Rightarrow> write_state" where
  "cancel_ask st = st\<lparr>ws_asking := False\<rparr>"

text \<open>The answer, refusals worded by the caller first, then by the source errors.\<close>

definition write_lands ::
    "(thrown \<Rightarrow> jsstring option) \<Rightarrow> jsstring \<Rightarrow> thrown + 'r \<Rightarrow> ('r \<Rightarrow> thrown option) \<Rightarrow> write_state \<Rightarrow> write_state" where
  "write_lands on_error fallback outcome on_success st = st\<lparr>ws_mutation :=
     snd (mutation_run [] (\<lambda>err. case on_error err of Some m \<Rightarrow> Some m | None \<Rightarrow> source_write_error err)
       fallback outcome on_success (ws_mutation st))\<rparr>"

text \<open>
  The events of a write. A click lands while no write of the form runs, the panel's buttons while it
  is open; another write's click resets this one's banner; the timer and the listeners disarm.
\<close>

datatype 'r write_event =
    Click click_view
  | Panel_confirm
  | Panel_cancel
  | Disarm confirm_event
  | Reset_by_group
  | Answer "thrown + 'r"

fun write_step :: "url_parser \<Rightarrow> write_options \<Rightarrow> (thrown \<Rightarrow> jsstring option) \<Rightarrow> jsstring \<Rightarrow> ('r \<Rightarrow> thrown option) \<Rightarrow>
    'r write_event \<Rightarrow> write_state \<Rightarrow> write_state" where
  "write_step parse opts on_error fallback on_success (Click v) st =
     (if mu_loading (ws_mutation st) then st else attempt_write parse opts v st)"
| "write_step parse opts on_error fallback on_success Panel_confirm st = (if ws_asking st then confirm_ask st else st)"
| "write_step parse opts on_error fallback on_success Panel_cancel st = cancel_ask st"
| "write_step parse opts on_error fallback on_success (Disarm e) st =
     (if e = Trigger then st else st\<lparr>ws_confirm := confirm_step (Some ARM_MS) True e (ws_confirm st)\<rparr>)"
| "write_step parse opts on_error fallback on_success Reset_by_group st = st\<lparr>ws_mutation := mutation_reset (ws_mutation st)\<rparr>"
| "write_step parse opts on_error fallback on_success (Answer outcome) st =
     (if mu_loading (ws_mutation st) then write_lands on_error fallback outcome on_success st else st)"

definition write_run :: "url_parser \<Rightarrow> write_options \<Rightarrow> (thrown \<Rightarrow> jsstring option) \<Rightarrow> jsstring \<Rightarrow> ('r \<Rightarrow> thrown option) \<Rightarrow>
    'r write_event list \<Rightarrow> write_state" where
  "write_run parse opts on_error fallback on_success es = fold (write_step parse opts on_error fallback on_success) es write_closed"

section \<open>The writes of a form\<close>

definition group_error :: "write_state list \<Rightarrow> jsstring option" where
  "group_error writes = Option.bind (find (\<lambda>w. mu_error (ws_mutation w) \<noteq> None) writes) (\<lambda>w. mu_error (ws_mutation w))"

definition group_busy :: "write_state list \<Rightarrow> bool" where
  "group_busy writes = list_ex (\<lambda>w. mu_loading (ws_mutation w)) writes"

definition group_reset :: "write_state list \<Rightarrow> write_state list" where
  "group_reset writes = map (\<lambda>w. w\<lparr>ws_mutation := mutation_reset (ws_mutation w)\<rparr>) writes"


section \<open>No write but through the gate\<close>

text \<open>What a waiting click survives: an armed one every event but a click and what disarms, an open panel every
  event but its own buttons and a click the gate refuses.\<close>

fun leaves_armed :: "'r write_event \<Rightarrow> bool" where
  "leaves_armed (Click v) = False"
| "leaves_armed (Disarm e) = (e = Trigger)"
| "leaves_armed _ = True"

fun leaves_asking :: "url_parser \<Rightarrow> write_options \<Rightarrow> 'r write_event \<Rightarrow> bool" where
  "leaves_asking parse opts (Click v) = (write_gate parse (pa_floor opts) v = Passed)"
| "leaves_asking parse opts Panel_confirm = False"
| "leaves_asking parse opts Panel_cancel = False"
| "leaves_asking parse opts _ = True"

definition passed_then :: "url_parser \<Rightarrow> write_options \<Rightarrow> ('r write_event \<Rightarrow> bool) \<Rightarrow> 'r write_event list \<Rightarrow> bool" where
  "passed_then parse opts P es \<longleftrightarrow> (\<exists>before v after. es = before @ Click v # after \<and>
     write_gate parse (pa_floor opts) v = Passed \<and> list_all P after)"

lemma passed_then_now: "write_gate parse (pa_floor opts) v = Passed \<Longrightarrow> passed_then parse opts P (es @ [Click v])"
  unfolding passed_then_def by (intro exI [of _ es] exI [of _ v] exI [of _ "[]"]) simp

lemma passed_then_later:
  assumes "passed_then parse opts P es" "P e"
  shows "passed_then parse opts P (es @ [e])"
proof -
  obtain before v after where "es = before @ Click v # after" "write_gate parse (pa_floor opts) v = Passed" "list_all P after"
    using assms(1) by (auto simp: passed_then_def)
  with assms(2) show ?thesis
    unfolding passed_then_def by (intro exI [of _ before] exI [of _ v] exI [of _ "after @ [e]"]) simp
qed

definition write_ok :: "url_parser \<Rightarrow> write_options \<Rightarrow> 'r write_event list \<Rightarrow> write_state \<Rightarrow> bool" where
  "write_ok parse opts es st \<longleftrightarrow> timer_ok (Some ARM_MS) (ws_confirm st) \<and>
     (mu_loading (ws_mutation st) \<longrightarrow> \<not> ca_armed (ws_confirm st) \<and> \<not> ws_asking st) \<and>
     (ca_armed (ws_confirm st) \<longrightarrow> \<not> pa_ask opts \<and> pa_confirm opts \<and> passed_then parse opts leaves_armed es) \<and>
     (ws_asking st \<longrightarrow> pa_ask opts \<and> passed_then parse opts (leaves_asking parse opts) es)"

lemmas write_defs = attempt_write_def click_cleared_def held_back_def send_write_def trigger_write_def confirm_ask_def
  cancel_ask_def confirm_cancel_def mutation_reset_def mutation_start_def timer_ok_def ARM_MS_def Let_def

lemma attempt_ok:
  assumes "write_ok parse opts es st" "\<not> mu_loading (ws_mutation st)"
  shows "write_ok parse opts (es @ [Click v]) (attempt_write parse opts v st)"
proof (cases "write_gate parse (pa_floor opts) v")
  case (Held m)
  then show ?thesis using assms by (simp add: write_ok_def write_defs)
next
  case (Flagged ms)
  then show ?thesis using assms by (simp add: write_ok_def write_defs)
next
  case Passed
  note now = passed_then_now [OF Passed]
  show ?thesis using assms Passed now by (auto simp: write_ok_def write_defs)
qed

lemma write_lands_simps [simp]:
  "ws_confirm (write_lands on_error fallback outcome on_success st) = ws_confirm st"
  "ws_asking (write_lands on_error fallback outcome on_success st) = ws_asking st"
  "ws_writes (write_lands on_error fallback outcome on_success st) = ws_writes st"
  "\<not> mu_loading (ws_mutation (write_lands on_error fallback outcome on_success st))"
  by (simp_all add: write_lands_def mutation_run_def Let_def split: prod.split)

lemma write_step_ok:
  assumes "write_ok parse opts es st"
  shows "write_ok parse opts (es @ [e]) (write_step parse opts on_error fallback on_success e st)"
proof (cases e)
  case (Click v)
  then show ?thesis
    using attempt_ok [OF assms, of v] assms by (auto simp: write_ok_def)
next
  case Panel_confirm
  then show ?thesis using assms by (auto simp: write_ok_def write_defs intro: passed_then_later)
next
  case Panel_cancel
  then show ?thesis using assms by (auto simp: write_ok_def write_defs intro: passed_then_later)
next
  case (Disarm d)
  then show ?thesis using assms
    by (cases d) (auto simp: write_ok_def write_defs intro: passed_then_later)
next
  case Reset_by_group
  then show ?thesis using assms by (auto simp: write_ok_def write_defs intro: passed_then_later)
next
  case (Answer outcome)
  then show ?thesis using assms by (auto simp: write_ok_def intro: passed_then_later)
qed


lemma write_run_snoc: "write_run parse opts on_error fallback on_success (es @ [e]) =
    write_step parse opts on_error fallback on_success e (write_run parse opts on_error fallback on_success es)"
  by (simp add: write_run_def)

lemma write_run_ok: "write_ok parse opts es (write_run parse opts on_error fallback on_success es)"
proof (induction es rule: rev_induct)
  case Nil
  show ?case by (simp add: write_run_def write_closed_def write_ok_def timer_ok_def)
next
  case (snoc e es)
  then show ?case by (simp add: write_run_snoc write_step_ok)
qed

text \<open>
  C39. Nothing is posted past the gate: each write a form sends is sent by a click the gate passes at
  that moment, and where the write publishes, an earlier click that passed armed it with nothing in
  between that disarms; a write that asks first is sent by its panel, opened by a click that passed
  and closed by nothing since.
\<close>

theorem write_only_through_gate:
  assumes "ws_writes (write_run parse opts on_error fallback on_success (es @ [e])) \<noteq>
      ws_writes (write_run parse opts on_error fallback on_success es)"
  shows "if pa_ask opts then e = Panel_confirm \<and> passed_then parse opts (leaves_asking parse opts) es
    else (\<exists>v. e = Click v \<and> write_gate parse (pa_floor opts) v = Passed) \<and>
      (pa_confirm opts \<longrightarrow> passed_then parse opts leaves_armed es)"
proof -
  let ?st = "write_run parse opts on_error fallback on_success es"
  have ok: "write_ok parse opts es ?st" by (rule write_run_ok)
  have moved: "ws_writes (write_step parse opts on_error fallback on_success e ?st) \<noteq> ws_writes ?st"
    using assms by (simp add: write_run_snoc)
  show ?thesis
  proof (cases e)
    case (Click v)
    show ?thesis
      using moved ok Click
      by (cases "write_gate parse (pa_floor opts) v") (auto simp: write_ok_def write_defs split: if_splits)
  next
    case Panel_confirm
    then show ?thesis using moved ok by (auto simp: write_ok_def split: if_splits)
  qed (use moved in \<open>auto simp: write_defs split: if_splits\<close>)
qed

text \<open>
  What a publish that passes the gate posts: a title, a point in bounds, a proof with an image, a
  conflict, a URL for each source; a direct or indirect source whose stored media or staged upload
  the body names, never one still uploading; and only archived copies that are snapshot URLs.
\<close>

theorem passed_publish_posts_evidence:
  assumes "write_gate parse Publish_floor v = Passed" "cv_sources v = fm_sources form"
    "cv_publish_missing v = publish_missing to_dom form site_effect_missing"
  shows "\<exists>input la lo. publish_input tz row form = input \<and> ew_title input \<noteq> [] \<and>
    ew_lat input = Number la \<and> ew_lng input = Number lo \<and> in_bounds la lo \<and>
    proof_has_image to_dom (ew_proof input) \<and> ew_conflicts input \<noteq> [] \<and>
    (\<exists>s \<in> set (ew_sources input). is_evidence_level (sc_level s) \<and> (sc_media_id s \<noteq> None \<or> sc_upload_id s \<noteq> None)) \<and>
    (\<forall>s \<in> set (ew_sources input). sc_links s \<noteq> [])"
proof -
  have missing: "publish_missing to_dom form site_effect_missing = []"
    and clear: "sources_block_write parse (fm_sources form) = None"
    using assms by (auto simp: write_gate_def view_missing_def split: option.splits if_splits)
  obtain input la lo where input: "publish_input tz row form = input" "ew_title input \<noteq> []"
    "ew_lat input = Number la" "ew_lng input = Number lo" "in_bounds la lo"
    "proof_has_image to_dom (ew_proof input)" "ew_conflicts input \<noteq> []"
    "list_ex (\<lambda>d. is_evidence_level (d_level d) \<and> holds_file d) (fm_sources form)"
    "list_all (\<lambda>s. sc_links s \<noteq> []) (ew_sources input)"
    using nothing_missing_meets_floor [OF missing] by blast
  obtain d where d: "d \<in> set (fm_sources form)" "is_evidence_level (d_level d)" "holds_file d"
    using input(8) by (auto simp: list_ex_iff)
  let ?s = "source_create_payload tz d"
  have "ew_sources input = map (source_create_payload tz) (fm_sources form)"
    using input(1) by (auto simp: publish_input_def shared_input_def)
  then have "?s \<in> set (ew_sources input)" using d(1) by simp
  moreover have "sc_level ?s = d_level d" by (simp add: source_create_payload_def file_reference_def Let_def)
  moreover have "sc_media_id ?s \<noteq> None \<or> sc_upload_id ?s \<noteq> None"
    using unheld_write_posts_its_files [OF clear d(1), of tz] d(3) by blast
  ultimately have "\<exists>s \<in> set (ew_sources input). is_evidence_level (sc_level s) \<and> (sc_media_id s \<noteq> None \<or> sc_upload_id s \<noteq> None)"
    using d(2) by (intro bexI [of _ ?s]) simp_all
  with input show ?thesis by (intro exI [of _ input] exI [of _ la] exI [of _ lo]) (simp add: list_all_iff)
qed

section \<open>Witnesses\<close>

definition example_view :: click_view where
  "example_view = \<lparr>cv_blocked = None, cv_publish_missing = [], cv_request_missing = [], cv_links = 0, cv_sources = [], cv_extra = None\<rparr>"

definition publish_options :: write_options where
  "publish_options = \<lparr>pa_floor = Publish_floor, pa_confirm = True, pa_ask = False\<rparr>"

lemma example_view_passes: "write_gate (\<lambda>_. None) Publish_floor example_view = Passed"
  by (simp add: write_gate_def example_view_def view_missing_def sources_block_write_def uploads_running_def
      pasted_snapshot_refused_def)

lemma write_only_through_gate_witness:
  "passed_then (\<lambda>_. None) publish_options leaves_armed [Click example_view :: unit write_event]"
proof -
  let ?run = "write_run (\<lambda>_. None) publish_options (\<lambda>_. None) [] (\<lambda>_::unit. None)"
  have pass: "write_gate (\<lambda>_. None) (pa_floor publish_options) example_view = Passed"
    using example_view_passes by (simp add: publish_options_def)
  have "ws_writes (?run ([Click example_view] @ [Click example_view])) \<noteq> ws_writes (?run [Click example_view])"
    by (simp add: write_run_def write_closed_def write_defs pass) (simp add: publish_options_def)
  from write_only_through_gate [OF this] show ?thesis by (simp add: publish_options_def)
qed

lemma passed_publish_posts_evidence_witness:
  "\<exists>s \<in> set (ew_sources (publish_input (\<lambda>x. x) None example_form)). sc_media_id s \<noteq> None \<or> sc_upload_id s \<noteq> None"
proof -
  have "js_trim [] = []" by (simp add: js_trim_def)
  then have "write_gate (\<lambda>_. None) Publish_floor (example_view\<lparr>cv_sources := fm_sources example_form\<rparr>) = Passed"
    by (simp add: write_gate_def example_view_def view_missing_def sources_block_write_def uploads_running_def
        pasted_snapshot_refused_def example_form_def new_source_draft_def next_key_def blank_link_def)
  moreover have "cv_publish_missing (example_view\<lparr>cv_sources := fm_sources example_form\<rparr>) =
      publish_missing (\<lambda>_. [DElem ''img'' [(''src'', ''/p1'')] []]) example_form False"
    by (simp add: example_form_complete example_view_def)
  ultimately show ?thesis
    using passed_publish_posts_evidence [of "\<lambda>_. None" "example_view\<lparr>cv_sources := fm_sources example_form\<rparr>" example_form
        "\<lambda>_. [DElem ''img'' [(''src'', ''/p1'')] []]" False "\<lambda>x. x" None]
    by auto
qed

end
