(* ===== verification/Union_Find.thy ===== *)
theory Union_Find
  imports Main
begin

text \<open>
  The union-find of \<open>groupStacks\<close> (\<open>components/map/stack.ts\<close>): a map from each key to its parent, a
  walk to the root that records it for the key it started from, and a merge that hangs one root
  under the other. The lemmas relate a sequence of merges to the components of the merged pairs:
  every walk ends, and two keys have one root exactly when a chain of merged pairs joins them.
\<close>

type_synonym 'k parents = "'k \<rightharpoonup> 'k"

text \<open>The loop \<open>while (parent.get(root) !== root)\<close>; on a cycle it would not end.\<close>

partial_function (option) uf_root :: "'k parents \<Rightarrow> 'k \<Rightarrow> 'k option" where
  "uf_root parent root = (case parent root of
       None \<Rightarrow> None
     | Some p \<Rightarrow> if p = root then Some root else uf_root parent p)"

definition uf_find :: "'k parents \<Rightarrow> 'k \<Rightarrow> ('k \<times> 'k parents) option" where
  "uf_find parent key = map_option (\<lambda>root. (root, parent(key \<mapsto> root))) (uf_root parent key)"

definition uf_union :: "'k parents \<Rightarrow> 'k \<Rightarrow> 'k \<Rightarrow> 'k parents option" where
  "uf_union parent a b = Option.bind (uf_find parent a) (\<lambda>(rootA, p). Option.bind (uf_find p b) (\<lambda>(rootB, q).
     Some (if rootA \<noteq> rootB then q(rootA \<mapsto> rootB) else q)))"

section \<open>The invariant\<close>

text \<open>
  \<open>rep\<close> gives each key's root; \<open>rank\<close> falls along every parent link, so no walk can cycle.
\<close>

definition uf_inv :: "'k set \<Rightarrow> 'k parents \<Rightarrow> ('k \<Rightarrow> 'k) \<Rightarrow> ('k \<Rightarrow> nat) \<Rightarrow> bool" where
  "uf_inv K parent rep rank \<longleftrightarrow> dom parent = K \<and> (\<forall>k \<in> K. rep k \<in> K \<and> parent (rep k) = Some (rep k) \<and>
     (\<forall>p. parent k = Some p \<longrightarrow> p \<in> K \<and> rep p = rep k \<and> (if p = k then rep k = k else rank p < rank k)))"

lemma uf_dom: "uf_inv K parent rep rank \<Longrightarrow> dom parent = K"
  unfolding uf_inv_def by (rule conjunct1)

lemma uf_at:
  assumes "uf_inv K parent rep rank" "k \<in> K"
  shows "\<exists>p. parent k = Some p \<and> p \<in> K \<and> rep p = rep k \<and> (p = k \<longrightarrow> rep k = k) \<and> (p \<noteq> k \<longrightarrow> rank p < rank k)"
proof -
  from uf_dom [OF assms(1)] assms(2) obtain p where p: "parent k = Some p" by blast
  with assms have "p \<in> K \<and> rep p = rep k \<and> (if p = k then rep k = k else rank p < rank k)"
    unfolding uf_inv_def by blast
  with p show ?thesis by (simp split: if_splits)
qed

lemma uf_rep:
  assumes "uf_inv K parent rep rank" "k \<in> K"
  shows "rep k \<in> K" "parent (rep k) = Some (rep k)" "rep (rep k) = rep k"
  using assms unfolding uf_inv_def by (blast, blast, metis)

lemma uf_root_rep: "uf_inv K parent rep rank \<Longrightarrow> k \<in> K \<Longrightarrow> uf_root parent k = Some (rep k)"
proof (induction "rank k" arbitrary: k rule: less_induct)
  case less
  from uf_at [OF less.prems] obtain p where p: "parent k = Some p" "p \<in> K" "rep p = rep k" "p = k \<longrightarrow> rep k = k"
    "p \<noteq> k \<longrightarrow> rank p < rank k" by blast
  show ?case
  proof (cases "p = k")
    case True
    with p show ?thesis by (subst uf_root.simps) simp
  next
    case False
    with p less show ?thesis by (subst uf_root.simps) simp
  qed
qed

lemma rank_rep_le: "uf_inv K parent rep rank \<Longrightarrow> k \<in> K \<Longrightarrow> rep k = k \<or> rank (rep k) < rank k"
proof (induction "rank k" arbitrary: k rule: less_induct)
  case less
  from uf_at [OF less.prems] obtain p where p: "p \<in> K" "rep p = rep k" "p = k \<longrightarrow> rep k = k"
    "p \<noteq> k \<longrightarrow> rank p < rank k" by blast
  show ?case
  proof (cases "p = k")
    case False
    with less.hyps [of p] less.prems(1) p show ?thesis by fastforce
  qed (use p in simp)
qed

text \<open>Recording the root of a key on the way changes no root.\<close>

lemma uf_find_inv:
  assumes "uf_inv K parent rep rank" "k \<in> K"
  shows "\<exists>q. uf_find parent k = Some (rep k, q) \<and> uf_inv K q rep rank"
proof -
  have "uf_inv K (parent(k \<mapsto> rep k)) rep rank"
    unfolding uf_inv_def
  proof (intro conjI ballI allI impI)
    show "dom (parent(k \<mapsto> rep k)) = K" using uf_dom [OF assms(1)] assms(2) by auto
  next
    fix l assume l: "l \<in> K"
    show "rep l \<in> K" by (rule uf_rep(1) [OF assms(1) l])
    have "rep l = rep k" if "k = rep l" using uf_rep(3) [OF assms(1) l] that by simp
    then show "(parent(k \<mapsto> rep k)) (rep l) = Some (rep l)" using uf_rep(2) [OF assms(1) l] by auto
  next
    fix l p assume l: "l \<in> K" and p: "(parent(k \<mapsto> rep k)) l = Some p"
    have "p \<in> K \<and> rep p = rep l \<and> (if p = l then rep l = l else rank p < rank l)"
    proof (cases "l = k")
      case True
      with p have "p = rep k" by simp
      with True uf_rep [OF assms] rank_rep_le [OF assms] show ?thesis by auto
    next
      case False
      with p uf_at [OF assms(1) l] show ?thesis by auto
    qed
    then show "p \<in> K" "rep p = rep l" "if p = l then rep l = l else rank p < rank l" by simp_all
  qed
  then show ?thesis using uf_root_rep [OF assms] by (simp add: uf_find_def)
qed

text \<open>A merge sends the component of the first key to the root of the second.\<close>

definition merged :: "('k \<Rightarrow> 'k) \<Rightarrow> 'k \<Rightarrow> 'k \<Rightarrow> 'k \<Rightarrow> 'k" where
  "merged rep a b k = (if rep k = rep a then rep b else rep k)"

lemma uf_union_inv:
  assumes "uf_inv K parent rep rank" "a \<in> K" "b \<in> K"
  shows "\<exists>q rank'. uf_union parent a b = Some q \<and> uf_inv K q (merged rep a b) rank'"
proof -
  obtain p where p: "uf_find parent a = Some (rep a, p)" "uf_inv K p rep rank"
    using uf_find_inv [OF assms(1,2)] by blast
  obtain q where q: "uf_find p b = Some (rep b, q)" "uf_inv K q rep rank"
    using uf_find_inv [OF p(2) assms(3)] by blast
  show ?thesis
  proof (cases "rep a = rep b")
    case True
    then have "merged rep a b = rep" by (auto simp: merged_def)
    with p q True show ?thesis by (auto simp: uf_union_def)
  next
    case False
    define rank' where "rank' k = rank k + (if rep k = rep a then Suc (rank (rep b)) else 0)" for k
    have ra: "rep a \<in> K" "rep (rep a) = rep a" and rb: "rep b \<in> K" "rep (rep b) = rep b" "q (rep b) = Some (rep b)"
      using uf_rep [OF q(2) assms(2)] uf_rep [OF q(2) assms(3)] by simp_all
    have "uf_inv K (q(rep a \<mapsto> rep b)) (merged rep a b) rank'"
      unfolding uf_inv_def
    proof (intro conjI ballI allI impI)
      show "dom (q(rep a \<mapsto> rep b)) = K" using uf_dom [OF q(2)] ra by auto
    next
      fix k assume k: "k \<in> K"
      show "merged rep a b k \<in> K" using uf_rep(1) [OF q(2) k] rb by (simp add: merged_def)
      show "(q(rep a \<mapsto> rep b)) (merged rep a b k) = Some (merged rep a b k)"
        using uf_rep(2) [OF q(2) k] rb False by (auto simp: merged_def)
    next
      fix k l assume k: "k \<in> K" and l: "(q(rep a \<mapsto> rep b)) k = Some l"
      have "l \<in> K \<and> merged rep a b l = merged rep a b k \<and>
          (if l = k then merged rep a b k = k else rank' l < rank' k)"
      proof (cases "k = rep a")
        case True
        with l have "l = rep b" by simp
        with True ra rb False show ?thesis by (simp add: merged_def rank'_def)
      next
        case other: False
        with l have qk: "q k = Some l" by simp
        with uf_at [OF q(2) k] have "l \<in> K" "rep l = rep k" "if l = k then rep k = k else rank l < rank k"
          by auto
        with other show ?thesis by (auto simp: merged_def rank'_def split: if_splits)
      qed
      then show "l \<in> K" "merged rep a b l = merged rep a b k"
        "if l = k then merged rep a b k = k else rank' l < rank' k" by simp_all
    qed
    with p q False show ?thesis by (auto simp: uf_union_def)
  qed
qed

section \<open>The components\<close>

text \<open>Two keys share a root exactly when merged pairs join them: both halves as an invariant.\<close>

definition reps_match :: "'k set \<Rightarrow> ('k \<Rightarrow> 'k \<Rightarrow> bool) \<Rightarrow> ('k \<Rightarrow> 'k) \<Rightarrow> bool" where
  "reps_match K E rep \<longleftrightarrow> (\<forall>k \<in> K. equivclp E k (rep k)) \<and> (\<forall>x y. E x y \<longrightarrow> rep x = rep y)"

lemma reps_match_iff:
  assumes "reps_match K E rep" "x \<in> K" "y \<in> K"
  shows "rep x = rep y \<longleftrightarrow> equivclp E x y"
proof
  assume "rep x = rep y"
  with assms show "equivclp E x y" unfolding reps_match_def by (metis equivclp_sym equivclp_trans)
next
  assume "equivclp E x y"
  then show "rep x = rep y"
    by (induction rule: equivclp_induct) (use assms(1) in \<open>auto simp: reps_match_def\<close>)
qed

lemma equivclp_weaken: "equivclp E x y \<Longrightarrow> (\<And>u v. E u v \<Longrightarrow> F u v) \<Longrightarrow> equivclp F x y"
proof (induction rule: equivclp_induct)
  case (step y z)
  then have "equivclp F y z" by (auto intro: r_into_equivclp equivclp_sym)
  with step show ?case by (blast intro: equivclp_trans)
qed simp

lemma reps_match_merge:
  assumes "reps_match K E rep" "a \<in> K" "b \<in> K"
  shows "reps_match K (\<lambda>x y. E x y \<or> x = a \<and> y = b) (merged rep a b)"
proof -
  let ?F = "\<lambda>x y. E x y \<or> x = a \<and> y = b"
  have w: "equivclp ?F x y" if "equivclp E x y" for x y using that by (rule equivclp_weaken) simp
  have k: "equivclp ?F k (rep k)" if "k \<in> K" for k using assms(1) that w by (simp add: reps_match_def)
  have ab: "equivclp ?F a b" by (rule r_into_equivclp) simp
  have "equivclp ?F k (merged rep a b k)" if "k \<in> K" for k
  proof (cases "rep k = rep a")
    case True
    have "equivclp ?F k (rep a)" using k [OF that] True by simp
    from equivclp_trans [OF equivclp_trans [OF this equivclp_sym [OF k [OF assms(2)]]] equivclp_trans [OF ab k [OF assms(3)]]]
    show ?thesis using True by (simp add: merged_def)
  qed (simp add: merged_def k that)
  moreover have "\<forall>x y. ?F x y \<longrightarrow> merged rep a b x = merged rep a b y"
    using assms(1) by (auto simp: reps_match_def merged_def)
  ultimately show ?thesis by (simp add: reps_match_def)
qed

text \<open>A sequence of merges, and what it leaves.\<close>

fun uf_unions :: "'k parents \<Rightarrow> ('k \<times> 'k) list \<Rightarrow> 'k parents option" where
  "uf_unions parent [] = Some parent"
| "uf_unions parent ((a, b) # ps) = Option.bind (uf_union parent a b) (\<lambda>q. uf_unions q ps)"

definition uf_start :: "'k list \<Rightarrow> 'k parents" where
  "uf_start keys = (\<lambda>k. if k \<in> set keys then Some k else None)"

lemma uf_unions_match:
  assumes "uf_inv K parent rep rank" "reps_match K E rep" "set ps \<subseteq> K \<times> K"
  shows "\<exists>q rep' rank'. uf_unions parent ps = Some q \<and> uf_inv K q rep' rank' \<and>
    reps_match K (\<lambda>x y. E x y \<or> (x, y) \<in> set ps) rep'"
  using assms
proof (induction ps arbitrary: parent rep rank E)
  case (Cons p ps)
  obtain a b where p: "p = (a, b)" by fastforce
  with Cons.prems have ab: "a \<in> K" "b \<in> K" by auto
  from uf_union_inv [OF Cons.prems(1) ab] obtain q rank' where
    q: "uf_union parent a b = Some q" "uf_inv K q (merged rep a b) rank'" by blast
  have sub: "set ps \<subseteq> K \<times> K" using Cons.prems(3) by simp
  from Cons.IH [OF q(2) reps_match_merge [OF Cons.prems(2) ab] sub] show ?case
    by (auto simp: q p disj_ac)
qed auto

theorem uf_unions_components:
  assumes "set ps \<subseteq> set keys \<times> set keys"
  shows "\<exists>q rep rank. uf_unions (uf_start keys) ps = Some q \<and> uf_inv (set keys) q rep rank \<and>
    reps_match (set keys) (\<lambda>x y. (x, y) \<in> set ps) rep"
proof -
  have "uf_inv (set keys) (uf_start keys) (\<lambda>k. k) (\<lambda>_. 0)" by (auto simp: uf_inv_def uf_start_def split: if_splits)
  moreover have "reps_match (set keys) (\<lambda>_ _. False) (\<lambda>k. k)" by (simp add: reps_match_def)
  ultimately show ?thesis using uf_unions_match [OF _ _ assms] by fastforce
qed

end
