(* ===== verification/Map_Stacks.thy ===== *)
theory Map_Stacks
  imports Js_Float Union_Find
begin

text \<open>
  \<open>components/map/stack.ts\<close>: the stacks of co-located points. Items fall into the cells of a grid,
  neighbouring cells that hold a close pair are merged by union-find (\<open>Union_Find\<close>), and the items
  are collected by root. The features a map library answers with carry their geometry as
  \<open>feature_geometry\<close>; the projection is a parameter, as in the code.
\<close>

definition CLUSTER_MAX_ZOOM :: nat where
  "CLUSTER_MAX_ZOOM = 14"

definition STACK_EPSILON :: js_float where
  "STACK_EPSILON = f_round (1 / 10 ^ 5)"

definition SPIDER_MAX_DOTS :: nat where
  "SPIDER_MAX_DOTS = 24"

definition TAP_SLOP_PX :: nat where
  "TAP_SLOP_PX = 12"

definition grid_cell :: "js_float \<Rightarrow> js_float" where
  "grid_cell x = f_nearest (f_div x STACK_EPSILON)"

definition cell_text :: "js_float \<Rightarrow> js_float \<Rightarrow> jsstring" where
  "cell_text a b = f_text a @ '','' @ f_text b"

definition stackCellKey :: "js_float \<Rightarrow> js_float \<Rightarrow> jsstring" where
  "stackCellKey la lo = cell_text (grid_cell la) (grid_cell lo)"

record 'a stack_cell =
  sc_key :: jsstring
  sc_lat :: js_float
  sc_lng :: js_float
  sc_items :: "'a list"

text \<open>The \<open>Map\<close> of cells, in the order their keys were first set.\<close>

fun add_to_cells :: "('a \<Rightarrow> js_float \<times> js_float) \<Rightarrow> 'a stack_cell list \<Rightarrow> 'a \<Rightarrow> 'a stack_cell list" where
  "add_to_cells coord [] item = [\<lparr>sc_key = stackCellKey (fst (coord item)) (snd (coord item)),
     sc_lat = grid_cell (fst (coord item)), sc_lng = grid_cell (snd (coord item)), sc_items = [item]\<rparr>]"
| "add_to_cells coord (c # cs) item =
     (if sc_key c = stackCellKey (fst (coord item)) (snd (coord item))
      then c\<lparr>sc_items := sc_items c @ [item]\<rparr> # cs else c # add_to_cells coord cs item)"

definition cells_of :: "('a \<Rightarrow> js_float \<times> js_float) \<Rightarrow> 'a list \<Rightarrow> 'a stack_cell list" where
  "cells_of coord items = foldl (add_to_cells coord) [] items"

definition close_pair :: "('a \<Rightarrow> js_float \<times> js_float) \<Rightarrow> 'a \<Rightarrow> 'a \<Rightarrow> bool" where
  "close_pair coord x y \<longleftrightarrow> f_le (f_abs (f_sub (fst (coord x)) (fst (coord y)))) STACK_EPSILON \<and>
     f_le (f_abs (f_sub (snd (coord x)) (snd (coord y)))) STACK_EPSILON"

definition near :: "('a \<Rightarrow> js_float \<times> js_float) \<Rightarrow> 'a list \<Rightarrow> 'a list \<Rightarrow> bool" where
  "near coord as bs \<longleftrightarrow> (\<exists>x \<in> set as. \<exists>y \<in> set bs. close_pair coord x y)"

definition forward :: "(rat \<times> rat) list" where
  "forward = [(0, 1), (1, -1), (1, 0), (1, 1)]"

definition shifted_key :: "js_float \<Rightarrow> js_float \<Rightarrow> rat \<times> rat \<Rightarrow> jsstring" where
  "shifted_key a b d = cell_text (f_add a (Fin (fst d))) (f_add b (Fin (snd d)))"

abbreviation neighbor_key :: "'a stack_cell \<Rightarrow> rat \<times> rat \<Rightarrow> jsstring" where
  "neighbor_key c d \<equiv> shifted_key (sc_lat c) (sc_lng c) d"

text \<open>The pairs of keys the loop over the cells hands to the union-find, in its order.\<close>

definition joined_pair :: "('a \<Rightarrow> js_float \<times> js_float) \<Rightarrow> 'a stack_cell list \<Rightarrow> 'a stack_cell \<Rightarrow> rat \<times> rat
    \<Rightarrow> (jsstring \<times> jsstring) option" where
  "joined_pair coord cells c d = (case List.find (\<lambda>n. sc_key n = neighbor_key c d) cells of
       Some n \<Rightarrow> if near coord (sc_items c) (sc_items n) then Some (sc_key c, neighbor_key c d) else None
     | None \<Rightarrow> None)"

definition joined_pairs :: "('a \<Rightarrow> js_float \<times> js_float) \<Rightarrow> 'a stack_cell list \<Rightarrow> (jsstring \<times> jsstring) list" where
  "joined_pairs coord cells = concat (map (\<lambda>c. List.map_filter (joined_pair coord cells c) forward) cells)"

text \<open>The last loop: the \<open>Map\<close> from roots to items, in the order the roots were met.\<close>

fun add_to_group :: "'k \<Rightarrow> 'a list \<Rightarrow> ('k \<times> 'a list) list \<Rightarrow> ('k \<times> 'a list) list" where
  "add_to_group r xs [] = [(r, xs)]"
| "add_to_group r xs ((k, ys) # gs) = (if k = r then (k, ys @ xs) # gs else (k, ys) # add_to_group r xs gs)"

fun collect_groups :: "jsstring parents \<Rightarrow> 'a stack_cell list \<Rightarrow> (jsstring \<times> 'a list) list
    \<Rightarrow> (jsstring \<times> 'a list) list option" where
  "collect_groups parent [] gs = Some gs"
| "collect_groups parent (c # cs) gs = Option.bind (uf_find parent (sc_key c))
     (\<lambda>(root, q). collect_groups q cs (add_to_group root (sc_items c) gs))"

definition groupStacks :: "('a \<Rightarrow> js_float \<times> js_float) \<Rightarrow> 'a list \<Rightarrow> 'a list list option" where
  "groupStacks coord items = (let cells = cells_of coord items in
     Option.bind (uf_unions (uf_start (map sc_key cells)) (joined_pairs coord cells))
       (\<lambda>parent. map_option (map snd) (collect_groups parent cells [])))"

section \<open>Features\<close>

datatype feature_geometry = Point_at js_float js_float | Other_geometry

record 'p feature =
  ft_geometry :: "feature_geometry option"
  ft_properties :: 'p

fun point_of :: "feature_geometry option \<Rightarrow> (js_float \<times> js_float) option" where
  "point_of (Some (Point_at lo la)) = Some (lo, la)"
| "point_of _ = None"

definition is_point :: "'p feature \<Rightarrow> bool" where
  "is_point f \<longleftrightarrow> point_of (ft_geometry f) \<noteq> None"

definition f_square :: "js_float \<Rightarrow> js_float" where
  "f_square x = f_mul x x"

definition squared_distance :: "(js_float \<times> js_float \<Rightarrow> js_float \<times> js_float) \<Rightarrow> js_float \<times> js_float \<Rightarrow> 'p feature \<Rightarrow> js_float" where
  "squared_distance project point f = (let p = project (the (point_of (ft_geometry f)))
     in f_add (f_square (f_sub (fst p) (fst point))) (f_square (f_sub (snd p) (snd point))))"

definition nearer :: "('f \<Rightarrow> js_float) \<Rightarrow> js_float \<times> 'f option \<Rightarrow> 'f \<Rightarrow> js_float \<times> 'f option" where
  "nearer away best f = (if f_less (away f) (fst best) then (away f, Some f) else best)"

definition nearestFeature :: "'p feature list \<Rightarrow> js_float \<times> js_float
    \<Rightarrow> (js_float \<times> js_float \<Rightarrow> js_float \<times> js_float) \<Rightarrow> 'p feature option" where
  "nearestFeature features point project = (let points = filter is_point features in
     case points of
       [] \<Rightarrow> None
     | [f] \<Rightarrow> Some f
     | _ \<Rightarrow> snd (foldl (nearer (squared_distance project point)) (Pos_inf, None) points))"

definition isCoincidentStack :: "'p feature list \<Rightarrow> bool" where
  "isCoincidentStack features = (let coords = List.map_filter (\<lambda>f. point_of (ft_geometry f)) features in
     if length coords < 2 then False
     else (let (lng0, lat0) = hd coords in
       \<forall>c \<in> set coords. f_le (f_abs (f_sub (fst c) lng0)) STACK_EPSILON \<and>
         f_le (f_abs (f_sub (snd c) lat0)) STACK_EPSILON))"

section \<open>The ring\<close>

definition ringRadius :: "nat \<Rightarrow> js_float" where
  "ringRadius n = (let slots = min n SPIDER_MAX_DOTS
     in f_max (Fin 18) (f_ceil (f_div (f_mul (Fin (of_nat slots)) (Fin 16)) (f_mul (Fin 2) MATH_PI))))"

text \<open>\<open>Math.cos\<close> and \<open>Math.sin\<close> are approximations the language leaves open: two parameters.\<close>

definition ringOffsets :: "(js_float \<Rightarrow> js_float) \<Rightarrow> (js_float \<Rightarrow> js_float) \<Rightarrow> nat \<Rightarrow> (js_float \<times> js_float) list" where
  "ringOffsets js_cos js_sin n = map (\<lambda>i.
     let angle = f_add (f_div (f_neg MATH_PI) (Fin 2))
         (f_div (f_mul (f_mul (Fin 2) MATH_PI) (Fin (of_nat i))) (Fin (of_nat n)))
     in (f_mul (js_cos angle) (ringRadius n), f_mul (js_sin angle) (ringRadius n))) [0 ..< n]"

section \<open>The cells\<close>

abbreviation item_key :: "('a \<Rightarrow> js_float \<times> js_float) \<Rightarrow> 'a \<Rightarrow> jsstring" where
  "item_key coord x \<equiv> stackCellKey (fst (coord x)) (snd (coord x))"

definition cells_ok :: "('a \<Rightarrow> js_float \<times> js_float) \<Rightarrow> 'a list \<Rightarrow> 'a stack_cell list \<Rightarrow> bool" where
  "cells_ok coord items cells \<longleftrightarrow> distinct (map sc_key cells) \<and>
     set (map sc_key cells) = item_key coord ` set items \<and>
     (\<forall>c \<in> set cells. sc_items c = filter (\<lambda>x. item_key coord x = sc_key c) items \<and>
        (\<exists>x \<in> set items. item_key coord x = sc_key c \<and> sc_lat c = grid_cell (fst (coord x)) \<and>
          sc_lng c = grid_cell (snd (coord x))))"

lemma keys_add:
  "set (map sc_key (add_to_cells coord cs x)) = insert (item_key coord x) (set (map sc_key cs))"
  by (induction cs) auto

lemma distinct_add: "distinct (map sc_key cs) \<Longrightarrow> distinct (map sc_key (add_to_cells coord cs x))"
proof (induction cs)
  case (Cons c cs)
  then show ?case using keys_add [of coord cs x] by auto
qed simp

lemma add_member:
  assumes "c' \<in> set (add_to_cells coord cs x)" "distinct (map sc_key cs)"
  shows "(\<exists>c \<in> set cs. sc_key c \<noteq> item_key coord x \<and> c' = c) \<or>
    (\<exists>c \<in> set cs. sc_key c = item_key coord x \<and> c' = c\<lparr>sc_items := sc_items c @ [x]\<rparr>) \<or>
    item_key coord x \<notin> set (map sc_key cs) \<and> c' = \<lparr>sc_key = item_key coord x, sc_lat = grid_cell (fst (coord x)),
      sc_lng = grid_cell (snd (coord x)), sc_items = [x]\<rparr>"
  using assms
proof (induction cs)
  case (Cons c cs)
  show ?case
  proof (cases "sc_key c = item_key coord x")
    case True
    then have "sc_key c' \<noteq> item_key coord x" if "c' \<in> set cs" using Cons.prems(2) that by (metis distinct.simps(2) image_eqI list.set_map list.simps(9))
    with True Cons.prems(1) show ?thesis by auto
  next
    case False
    with Cons show ?thesis by auto
  qed
qed simp

lemma cells_of_snoc: "cells_of coord (items @ [x]) = add_to_cells coord (cells_of coord items) x"
  by (simp add: cells_of_def)

definition cell_ok :: "('a \<Rightarrow> js_float \<times> js_float) \<Rightarrow> 'a list \<Rightarrow> 'a stack_cell \<Rightarrow> bool" where
  "cell_ok coord items c \<longleftrightarrow> sc_items c = filter (\<lambda>x. item_key coord x = sc_key c) items \<and>
     (\<exists>x \<in> set items. item_key coord x = sc_key c \<and> sc_lat c = grid_cell (fst (coord x)) \<and>
        sc_lng c = grid_cell (snd (coord x)))"

lemma cell_ok_add:
  assumes "cell_ok coord items c0"
  shows "sc_key c0 \<noteq> item_key coord x \<Longrightarrow> cell_ok coord (items @ [x]) c0"
    "sc_key c0 = item_key coord x \<Longrightarrow> cell_ok coord (items @ [x]) (c0\<lparr>sc_items := sc_items c0 @ [x]\<rparr>)"
  using assms by (auto simp: cell_ok_def)

lemma cells_of_ok:
  "distinct (map sc_key (cells_of coord items)) \<and>
   set (map sc_key (cells_of coord items)) = item_key coord ` set items \<and>
   (\<forall>c \<in> set (cells_of coord items). cell_ok coord items c)"
proof (induction items rule: rev_induct)
  case Nil
  then show ?case by (simp add: cells_of_def)
next
  case (snoc x items)
  let ?cs = "cells_of coord items"
  have d: "distinct (map sc_key ?cs)" by (rule conjunct1 [OF snoc])
  have k: "set (map sc_key ?cs) = item_key coord ` set items" by (rule conjunct1 [OF conjunct2 [OF snoc]])
  have m: "cell_ok coord items c" if "c \<in> set ?cs" for c by (rule bspec [OF conjunct2 [OF conjunct2 [OF snoc]] that])
  have "cell_ok coord (items @ [x]) c" if c: "c \<in> set (add_to_cells coord ?cs x)" for c
    using add_member [OF c d]
  proof (elim disjE bexE conjE)
    fix c0 assume "c0 \<in> set ?cs" "sc_key c0 \<noteq> item_key coord x" "c = c0"
    then show ?thesis using cell_ok_add(1) [OF m, of c0] by simp
  next
    fix c0 assume "c0 \<in> set ?cs" "sc_key c0 = item_key coord x" "c = c0\<lparr>sc_items := sc_items c0 @ [x]\<rparr>"
    then show ?thesis using cell_ok_add(2) [OF m, of c0] by simp
  next
    assume new: "item_key coord x \<notin> set (map sc_key ?cs)" and eq: "c = \<lparr>sc_key = item_key coord x,
      sc_lat = grid_cell (fst (coord x)), sc_lng = grid_cell (snd (coord x)), sc_items = [x]\<rparr>"
    have "item_key coord y \<noteq> item_key coord x" if "y \<in> set items" for y
      using imageI [OF that, of "item_key coord"] new unfolding k by auto
    then have "filter (\<lambda>y. item_key coord y = item_key coord x) items = []" by (auto simp: filter_empty_conv)
    then show ?thesis by (simp add: eq cell_ok_def)
  qed
  moreover have "set (map sc_key (add_to_cells coord ?cs x)) = item_key coord ` set (items @ [x])"
    unfolding keys_add k by simp
  ultimately show ?case unfolding cells_of_snoc using distinct_add [OF d, of coord x] by blast
qed

lemmas cells_keys = cells_of_ok [THEN conjunct2, THEN conjunct1]

lemma cells_each: "c \<in> set (cells_of coord items) \<Longrightarrow> cell_ok coord items c"
  using cells_of_ok [of coord items] by simp

lemma cells_items: "mset (concat (map sc_items (cells_of coord items))) = mset items"
proof (induction items rule: rev_induct)
  case (snoc x items)
  have "mset (concat (map sc_items (add_to_cells coord cs x))) = add_mset x (mset (concat (map sc_items cs)))" for cs
    by (induction cs) auto
  with snoc show ?case by (simp add: cells_of_snoc)
qed (simp add: cells_of_def)

section \<open>Keys\<close>

lemma cell_text_inject:
  assumes "f_ok a" "f_ok b" "f_ok a'" "f_ok b'" "cell_text a b = cell_text a' b'"
  shows "a = a' \<and> b = b'"
proof -
  have "takeWhile (\<lambda>c. c \<noteq> CHR '','') (cell_text x y) = f_text x \<and>
      dropWhile (\<lambda>c. c \<noteq> CHR '','') (cell_text x y) = CHR '','' # f_text y" if "f_ok x" for x y
  proof -
    have "\<And>c. c \<in> set (f_text x) \<Longrightarrow> c \<noteq> CHR '',''" using f_text_no_comma [OF that] by blast
    then show ?thesis by (simp add: cell_text_def takeWhile_append2 dropWhile_append2)
  qed
  from this [OF assms(1), of b] this [OF assms(3), of b'] have "f_text a = f_text a'" "f_text b = f_text b'"
    unfolding assms(5) by simp_all
  then show ?thesis using f_text_inject assms by blast
qed

lemma grid_cell_ok [simp]: "f_ok (grid_cell x)"
  by (simp add: grid_cell_def f_nearest_def)

section \<open>The stacks are the components\<close>

text \<open>Two keys touch: an item of the first cell and one of a forward neighbour lie within the epsilon.\<close>

definition touching :: "('a \<Rightarrow> js_float \<times> js_float) \<Rightarrow> 'a list \<Rightarrow> jsstring \<Rightarrow> jsstring \<Rightarrow> bool" where
  "touching coord items a b \<longleftrightarrow> (\<exists>x \<in> set items. \<exists>y \<in> set items. \<exists>d \<in> set forward.
     item_key coord x = a \<and> item_key coord y = b \<and> close_pair coord x y \<and>
     b = shifted_key (grid_cell (fst (coord x))) (grid_cell (snd (coord x))) d)"

lemma find_hit: "List.find P xs = Some n \<Longrightarrow> n \<in> set xs \<and> P n"
  by (induction xs) (auto split: if_splits)

lemma joined_pairs_touching:
  "(a, b) \<in> set (joined_pairs coord (cells_of coord items)) \<longleftrightarrow> touching coord items a b"
proof
  let ?cs = "cells_of coord items"
  assume "(a, b) \<in> set (joined_pairs coord ?cs)"
  then obtain c d where c: "c \<in> set ?cs" "d \<in> set forward" "joined_pair coord ?cs c d = Some (a, b)"
    by (auto simp: joined_pairs_def map_filter_def)
  then obtain n where n: "List.find (\<lambda>n. sc_key n = neighbor_key c d) ?cs = Some n"
    "near coord (sc_items c) (sc_items n)" "a = sc_key c" "b = neighbor_key c d"
    by (auto simp: joined_pair_def split: option.splits if_splits)
  have nc: "n \<in> set ?cs" "sc_key n = b" using find_hit [OF n(1)] n(4) by simp_all
  have co: "cell_ok coord items c" "cell_ok coord items n" by (rule cells_each [OF c(1)], rule cells_each [OF nc(1)])
  obtain x y where xy: "x \<in> set (sc_items c)" "y \<in> set (sc_items n)" "close_pair coord x y"
    using n(2) by (auto simp: near_def)
  have x: "x \<in> set items" "item_key coord x = a" and y: "y \<in> set items" "item_key coord y = b"
    using xy co n(3) nc(2) by (auto simp: cell_ok_def)
  obtain x0 where x0: "item_key coord x0 = sc_key c" "sc_lat c = grid_cell (fst (coord x0))"
    "sc_lng c = grid_cell (snd (coord x0))" using co(1) by (auto simp: cell_ok_def)
  have "cell_text (grid_cell (fst (coord x0))) (grid_cell (snd (coord x0))) =
      cell_text (grid_cell (fst (coord x))) (grid_cell (snd (coord x)))"
    using x0(1) x(2) n(3) by (simp add: stackCellKey_def)
  from cell_text_inject [OF _ _ _ _ this] have "sc_lat c = grid_cell (fst (coord x))" "sc_lng c = grid_cell (snd (coord x))"
    by (simp_all add: x0)
  then have "b = shifted_key (grid_cell (fst (coord x))) (grid_cell (snd (coord x))) d" by (simp add: n(4))
  with x y xy(3) c(2) show "touching coord items a b" unfolding touching_def by blast
next
  let ?cs = "cells_of coord items"
  assume "touching coord items a b"
  then obtain x y d where xy: "x \<in> set items" "y \<in> set items" "d \<in> set forward" "item_key coord x = a"
    "item_key coord y = b" "close_pair coord x y"
    and b: "b = shifted_key (grid_cell (fst (coord x))) (grid_cell (snd (coord x))) d"
    unfolding touching_def by blast
  have keys: "set (map sc_key ?cs) = item_key coord ` set items" by (rule cells_keys)
  have "a \<in> set (map sc_key ?cs)" unfolding keys using xy(1,4) by blast
  then obtain c where c: "c \<in> set ?cs" "sc_key c = a" by auto
  have "b \<in> set (map sc_key ?cs)" unfolding keys using xy(2,5) by blast
  then have "\<exists>n. List.find (\<lambda>n. sc_key n = b) ?cs = Some n" by (auto simp: find_None_iff simp flip: not_None_eq)
  then obtain n where n: "List.find (\<lambda>n. sc_key n = b) ?cs = Some n" by blast
  have nc: "n \<in> set ?cs" "sc_key n = b" using find_hit [OF n] by simp_all
  have co: "cell_ok coord items c" "cell_ok coord items n" by (rule cells_each [OF c(1)], rule cells_each [OF nc(1)])
  obtain x0 where x0: "item_key coord x0 = sc_key c" "sc_lat c = grid_cell (fst (coord x0))"
    "sc_lng c = grid_cell (snd (coord x0))" using co(1) by (auto simp: cell_ok_def)
  have "cell_text (grid_cell (fst (coord x0))) (grid_cell (snd (coord x0))) =
      cell_text (grid_cell (fst (coord x))) (grid_cell (snd (coord x)))"
    using x0(1) xy(4) c(2) by (simp add: stackCellKey_def)
  from cell_text_inject [OF _ _ _ _ this] have "neighbor_key c d = b" by (simp add: x0 b)
  moreover have "near coord (sc_items c) (sc_items n)"
    using xy co c(2) nc(2) by (auto simp: near_def cell_ok_def)
  ultimately have "joined_pair coord ?cs c d = Some (a, b)" using n c(2) by (simp add: joined_pair_def)
  with c(1) xy(3) show "(a, b) \<in> set (joined_pairs coord ?cs)"
    by (force simp: joined_pairs_def map_filter_def)
qed

lemma collect_reps:
  assumes "uf_inv K parent rep rank" "set (map sc_key cs) \<subseteq> K"
  shows "collect_groups parent cs gs = Some (foldl (\<lambda>g c. add_to_group (rep (sc_key c)) (sc_items c) g) gs cs)"
  using assms
proof (induction cs arbitrary: parent gs)
  case (Cons c cs)
  from uf_find_inv [OF Cons.prems(1), of "sc_key c"] Cons.prems(2) obtain q where
    "uf_find parent (sc_key c) = Some (rep (sc_key c), q)" "uf_inv K q rep rank" by auto
  with Cons show ?case by simp
qed simp

lemma groups_items: "mset (concat (map snd (add_to_group r xs gs))) = mset (concat (map snd gs)) + mset xs"
  by (induction r xs gs rule: add_to_group.induct) auto

lemma group_roots: "set (map fst (add_to_group r xs gs)) = insert r (set (map fst gs))"
  by (induction r xs gs rule: add_to_group.induct) auto

lemma group_distinct: "distinct (map fst gs) \<Longrightarrow> distinct (map fst (add_to_group r xs gs))"
proof (induction r xs gs rule: add_to_group.induct)
  case (2 r xs k ys gs)
  then show ?case using group_roots [of r xs gs] by auto
qed simp

lemma group_member:
  "distinct (map fst gs) \<Longrightarrow> (k, ys) \<in> set (add_to_group r xs gs) \<Longrightarrow>
   k \<noteq> r \<and> (k, ys) \<in> set gs \<or> k = r \<and> (\<exists>zs. ys = zs @ xs \<and> ((r, zs) \<in> set gs \<or> zs = [] \<and> r \<notin> set (map fst gs)))"
proof (induction r xs gs rule: add_to_group.induct)
  case (2 r xs l zs gs)
  show ?case
  proof (cases "l = r")
    case True
    then have "k \<noteq> r" if "(k, ys) \<in> set gs" using 2(2) that by force
    with True 2(3) show ?thesis by auto
  next
    case False
    with 2 show ?thesis by auto
  qed
qed simp

text \<open>After the last loop each root's group holds the items of exactly its cells.\<close>

lemma fold_groups:
  fixes r :: "'a stack_cell \<Rightarrow> jsstring"
  defines "G cs \<equiv> foldl (\<lambda>g c. add_to_group (r c) (sc_items c) g) [] cs"
  shows "distinct (map fst (G cs)) \<and> set (map fst (G cs)) = r ` set cs \<and>
    mset (concat (map snd (G cs))) = mset (concat (map sc_items cs)) \<and>
    (\<forall>(k, ys) \<in> set (G cs). set ys = (\<Union>c \<in> {c \<in> set cs. r c = k}. set (sc_items c)))"
proof (induction cs rule: rev_induct)
  case Nil
  then show ?case by (simp add: G_def)
next
  case (snoc c cs)
  have step: "G (cs @ [c]) = add_to_group (r c) (sc_items c) (G cs)" by (simp add: G_def)
  have d: "distinct (map fst (G cs))" and k: "set (map fst (G cs)) = r ` set cs"
    and m: "mset (concat (map snd (G cs))) = mset (concat (map sc_items cs))"
    and s: "\<forall>(k, ys) \<in> set (G cs). set ys = (\<Union>c \<in> {c \<in> set cs. r c = k}. set (sc_items c))"
    using snoc by simp_all
  have s': "set ys = (\<Union>c \<in> {c \<in> set cs. r c = k}. set (sc_items c))" if "(k, ys) \<in> set (G cs)" for k ys
    using bspec [OF s that] by simp
  have "set ys = (\<Union>c' \<in> {c' \<in> set (cs @ [c]). r c' = l}. set (sc_items c'))"
    if "(l, ys) \<in> set (add_to_group (r c) (sc_items c) (G cs))" for l ys
    using group_member [OF d that]
  proof (elim disjE conjE exE)
    assume "l \<noteq> r c" "(l, ys) \<in> set (G cs)"
    then show ?thesis using s' [of l ys] by auto
  next
    fix zs assume "l = r c" "ys = zs @ sc_items c" "(r c, zs) \<in> set (G cs)"
    then show ?thesis using s' [of "r c" zs] by auto
  next
    fix zs assume "l = r c" "ys = zs @ sc_items c" "zs = []" "r c \<notin> set (map fst (G cs))"
    moreover from this have "r c' \<noteq> r c" if "c' \<in> set cs" for c' unfolding k using imageI [OF that, of r] by auto
    ultimately show ?thesis by auto
  qed
  then have each: "\<forall>(l, ys) \<in> set (G (cs @ [c])). set ys = (\<Union>c' \<in> {c' \<in> set (cs @ [c]). r c' = l}. set (sc_items c'))"
    unfolding step by blast
  have "distinct (map fst (G (cs @ [c])))" unfolding step by (rule group_distinct [OF d])
  moreover have "set (map fst (G (cs @ [c]))) = r ` set (cs @ [c])" unfolding step group_roots k by simp
  moreover have "mset (concat (map snd (G (cs @ [c])))) = mset (concat (map sc_items (cs @ [c])))"
    unfolding step groups_items m by simp
  ultimately show ?case using each by blast
qed

text \<open>
  What the map promises of its stacks: they share out the items, none is empty, and two items
  lie in one stack exactly when a chain of touching cells joins theirs.
\<close>

definition stacks_of :: "('a \<Rightarrow> js_float \<times> js_float) \<Rightarrow> 'a list \<Rightarrow> 'a list list \<Rightarrow> bool" where
  "stacks_of coord items gs \<longleftrightarrow> mset (concat gs) = mset items \<and> [] \<notin> set gs \<and>
     (\<forall>x \<in> set items. \<forall>y \<in> set items. (\<exists>g \<in> set gs. x \<in> set g \<and> y \<in> set g) \<longleftrightarrow>
        equivclp (touching coord items) (item_key coord x) (item_key coord y))"

text \<open>
  C21. The grouping of the map always ends, and its stacks are the connected components of the
  grid: they share out the items, none is empty, and two items lie in one stack exactly when a chain
  of neighbouring cells with a close pair joins theirs.
\<close>

theorem stacks_are_the_components:
  "\<exists>gs. groupStacks coord items = Some gs \<and> stacks_of coord items gs"
proof -
  define cs where "cs = cells_of coord items"
  define K where "K = set (map sc_key cs)"
  have K: "K = item_key coord ` set items" unfolding K_def cs_def by (rule cells_keys)
  have "touching coord items = (\<lambda>x y. (x, y) \<in> set (joined_pairs coord cs))"
    by (intro ext) (simp add: cs_def joined_pairs_touching)
  moreover have "set (joined_pairs coord cs) \<subseteq> K \<times> K"
    unfolding K cs_def using joined_pairs_touching [of _ _ coord items] by (auto simp: touching_def)
  ultimately obtain q rep rank where q: "uf_unions (uf_start (map sc_key cs)) (joined_pairs coord cs) = Some q"
    and inv: "uf_inv K q rep rank" and match: "reps_match K (touching coord items) rep"
    using uf_unions_components [of "joined_pairs coord cs" "map sc_key cs"] by (auto simp: K_def)
  define gs where "gs = foldl (\<lambda>g c. add_to_group (rep (sc_key c)) (sc_items c) g) [] cs"
  have "groupStacks coord items = Some (map snd gs)"
    using q collect_reps [OF inv, of cs "[]"] by (simp add: groupStacks_def cs_def [symmetric] gs_def K_def)
  moreover have "stacks_of coord items (map snd gs)"
    unfolding stacks_of_def
  proof (intro conjI ballI)
    note F = fold_groups [of "\<lambda>c. rep (sc_key c)" cs, folded gs_def]
    have ok: "cell_ok coord items c" if "c \<in> set cs" for c using that unfolding cs_def by (rule cells_each)
    show "mset (concat (map snd gs)) = mset items" using F cells_items [of coord items] by (simp add: cs_def)
    have grp: "set g = (\<Union>c \<in> {c \<in> set cs. rep (sc_key c) = k}. set (sc_items c))" if "(k, g) \<in> set gs" for k g
      using F that by blast
    have mem: "x \<in> set g \<longleftrightarrow> rep (item_key coord x) = k" if "(k, g) \<in> set gs" "x \<in> set items" for k g x
    proof -
      have "item_key coord x \<in> set (map sc_key cs)" using that(2) K by (simp add: K_def)
      then obtain c where c: "c \<in> set cs" "sc_key c = item_key coord x" by auto
      then have "x \<in> set (sc_items c)" using ok that(2) by (auto simp: cell_ok_def)
      moreover have "sc_key c' = item_key coord x" if "c' \<in> set cs" "x \<in> set (sc_items c')" for c'
        using ok [OF that(1)] that(2) by (auto simp: cell_ok_def)
      ultimately show ?thesis using grp [OF that(1)] c by auto
    qed
    show "[] \<notin> set (map snd gs)"
    proof
      assume "[] \<in> set (map snd gs)"
      then obtain k where k: "(k, []) \<in> set gs" by auto
      have "set (map fst gs) = (\<lambda>c. rep (sc_key c)) ` set cs" by (rule conjunct1 [OF conjunct2 [OF F]])
      moreover have "k \<in> set (map fst gs)" using imageI [OF k, of fst] by simp
      ultimately have "k \<in> (\<lambda>c. rep (sc_key c)) ` set cs" by simp
      then obtain c where c: "c \<in> set cs" "rep (sc_key c) = k" by auto
      obtain x where x: "x \<in> set items" "item_key coord x = sc_key c" using ok [OF c(1)] by (auto simp: cell_ok_def)
      show False using mem [OF k x(1)] x(2) c(2) by simp
    qed
    fix x y assume xy: "x \<in> set items" "y \<in> set items"
    have "item_key coord x \<in> K" "item_key coord y \<in> K" using xy K by simp_all
    note eq = reps_match_iff [OF match this]
    have "\<exists>g. (rep (item_key coord x), g) \<in> set gs"
    proof -
      have "item_key coord x \<in> set (map sc_key cs)" using xy K by (simp add: K_def)
      then have "rep (item_key coord x) \<in> (\<lambda>c. rep (sc_key c)) ` set cs" by auto
      then have "rep (item_key coord x) \<in> set (map fst gs)" using F by blast
      then show ?thesis by auto
    qed
    then obtain g where g: "(rep (item_key coord x), g) \<in> set gs" by blast
    show "(\<exists>g \<in> set (map snd gs). x \<in> set g \<and> y \<in> set g) \<longleftrightarrow>
        equivclp (touching coord items) (item_key coord x) (item_key coord y)"
    proof
      assume "\<exists>g \<in> set (map snd gs). x \<in> set g \<and> y \<in> set g"
      then obtain k h where h: "(k, h) \<in> set gs" "x \<in> set h" "y \<in> set h" by auto
      then show "equivclp (touching coord items) (item_key coord x) (item_key coord y)"
        using mem [OF h(1)] xy eq by simp
    next
      assume "equivclp (touching coord items) (item_key coord x) (item_key coord y)"
      then have "x \<in> set g \<and> y \<in> set g" using mem [OF g] xy eq by simp
      then show "\<exists>g \<in> set (map snd gs). x \<in> set g \<and> y \<in> set g" using g by force
    qed
  qed
  ultimately show ?thesis by blast
qed

section \<open>The tapped feature\<close>

lemma nearest_fold:
  assumes "foldl (nearer away) (Pos_inf, None) fs = (d, best)"
  shows "(case best of None \<Rightarrow> d = Pos_inf | Some f \<Rightarrow> f \<in> set fs \<and> d = away f) \<and> d \<noteq> Nan \<and>
    (\<forall>g \<in> set fs. \<not> f_less (away g) d)"
  using assms
proof (induction fs arbitrary: d best rule: rev_induct)
  case (snoc f fs)
  obtain d' best' where fold: "foldl (nearer away) (Pos_inf, None) fs = (d', best')" by fastforce
  note IH = snoc.IH [OF fold]
  have step: "nearer away (d', best') f = (d, best)" using snoc.prems fold by simp
  show ?case
  proof (cases "f_less (away f) d'")
    case True
    then have "d = away f" "best = Some f" using step by (simp_all add: nearer_def)
    moreover have "\<not> f_less (away g) (away f)" if "g \<in> set fs" for g
      using IH that True f_le_trans [of d' "away g" "away f"] f_le_total [of "away f" "away g"] by (auto simp: f_less_iff)
    ultimately show ?thesis using True by (auto simp: f_less_iff)
  next
    case False
    then have "d = d'" "best = best'" using step by (simp_all add: nearer_def)
    with IH False show ?thesis by (auto split: option.splits)
  qed
qed simp

text \<open>
  A tap goes to a point feature no other point feature is nearer than; it goes to none only when
  no feature is a point, or when several are and no distance compares below infinity.
\<close>

theorem tap_goes_to_a_nearest_point:
  "case nearestFeature features point project of
     None \<Rightarrow> list_all (\<lambda>g. \<not> f_less (squared_distance project point g) Pos_inf) (filter is_point features) \<and>
       length (filter is_point features) \<noteq> 1
   | Some f \<Rightarrow> f \<in> set (filter is_point features) \<and>
       list_all (\<lambda>g. \<not> f_less (squared_distance project point g) (squared_distance project point f)) (filter is_point features)"
proof -
  define ps where "ps = filter is_point features"
  obtain d best where fold: "foldl (nearer (squared_distance project point)) (Pos_inf, None) ps = (d, best)" by fastforce
  consider "ps = []" | f where "ps = [f]" | f g rest where "ps = f # g # rest" by (cases ps rule: remdups_adj.cases) auto
  then have "case nearestFeature features point project of
     None \<Rightarrow> list_all (\<lambda>g. \<not> f_less (squared_distance project point g) Pos_inf) ps \<and> length ps \<noteq> 1
   | Some f \<Rightarrow> f \<in> set ps \<and>
       list_all (\<lambda>g. \<not> f_less (squared_distance project point g) (squared_distance project point f)) ps"
  proof cases
    case 1
    then show ?thesis by (simp add: nearestFeature_def ps_def [symmetric])
  next
    case 2
    then show ?thesis by (cases "squared_distance project point f") (simp_all add: nearestFeature_def ps_def [symmetric])
  next
    case 3
    then have "nearestFeature features point project = best"
      using fold by (simp add: nearestFeature_def ps_def [symmetric])
    with nearest_fold [OF fold] 3 show ?thesis by (auto simp: list_all_iff split: option.splits)
  qed
  then show ?thesis unfolding ps_def .
qed

text \<open>The ring is at least 18 pixels wide and its size is capped with the number of slots.\<close>

lemma ring_radius_bounds: "f_le (Fin 18) (ringRadius n) \<and> f_le (ringRadius n) (Fin 62)"
proof -
  define s :: rat where "s = of_nat (min n SPIDER_MAX_DOTS)"
  have s: "0 \<le> s" "s \<le> 24" by (simp_all add: s_def SPIDER_MAX_DOTS_def)
  have ds: "is_double (s * 16)"
  proof -
    have "is_double (of_int (int (min n SPIDER_MAX_DOTS * 16)))"
      by (intro is_double_of_int) (simp add: SPIDER_MAX_DOTS_def min_def)
    then show ?thesis by (simp add: s_def)
  qed
  define tau :: rat where "tau = 2 * (884279719003555 / 281474976710656)"
  have dt: "is_double tau"
    by (rule is_double_multiple [of _ 884279719003555 "-47"]) (simp_all add: tau_def pow2_def)
  have tau: "0 < tau" "31 / 5 < tau" by (simp_all add: tau_def)
  have d: "is_double 62" "is_double 18" using is_double_of_int [of 62] is_double_of_int [of 18] by simp_all
  have "s * 16 / tau \<le> 62" using s tau by (simp add: divide_le_eq)
  then have hi: "f_le (f_round (s * 16 / tau)) (Fin 62)" using d by (intro f_round_le)
  have "0 \<le> s * 16 / tau" using s tau by simp
  then have lo: "f_le (Fin 0) (f_round (s * 16 / tau))" by (intro f_round_ge) simp_all
  from f_between_finite [OF lo hi] obtain r where r: "f_round (s * 16 / tau) = Fin r" "0 \<le> r" "r \<le> 62" by blast
  then have "\<lceil>r\<rceil> \<le> 62" "0 \<le> \<lceil>r\<rceil>" by (simp_all add: ceiling_le_iff)
  then have "f_le (f_round (of_int \<lceil>r\<rceil>)) (Fin 62)" "f_round (of_int \<lceil>r\<rceil>) \<noteq> Nan"
    using d by (intro f_round_le, simp_all)
  moreover have "ringRadius n = f_max (Fin 18) (f_round (of_int \<lceil>r\<rceil>))"
    using ds dt r tau by (simp add: ringRadius_def Let_def MATH_PI_def f_ceil_def s_def [symmetric] tau_def)
  ultimately show ?thesis using f_max_ge [of "Fin 18"] d by (auto simp: f_max_def)
qed

end
