(* ===== verification/Navigation.thy ===== *)
theory Navigation
  imports Js_Parse
begin

text \<open>
  \<open>lib/navigation.ts\<close> and \<open>components/PathTracker.tsx\<close>: the back stack kept in the session storage,
  its two one-shot flags, and the redirect after a sign-in. The page is a window with its session
  storage and path; \<open>None\<close> is the server, where nothing is kept. The URL parser is a parameter that
  answers the origin and the parts.
\<close>

definition NAV_STACK_KEY :: jsstring where
  "NAV_STACK_KEY = ''vidit:nav-stack''"

definition GOING_BACK_KEY :: jsstring where
  "GOING_BACK_KEY = ''vidit:nav-going-back''"

definition SKIP_RECORD_KEY :: jsstring where
  "SKIP_RECORD_KEY = ''vidit:nav-skip-record''"

definition MAX_STACK :: nat where
  "MAX_STACK = 50"

lemmas nav_keys = NAV_STACK_KEY_def GOING_BACK_KEY_def SKIP_RECORD_KEY_def

definition safe_next ::
  "(jsstring \<Rightarrow> jsstring \<Rightarrow> (jsstring \<times> url) option) \<Rightarrow> jsstring option \<Rightarrow> jsstring option \<Rightarrow> jsstring" where
  "safe_next parse window_origin raw = (case raw of
       None \<Rightarrow> ''/map''
     | Some r \<Rightarrow> if r = [] \<or> \<not> starts_with r ''/'' then ''/map''
         else (case window_origin of
             None \<Rightarrow> ''/map''
           | Some origin \<Rightarrow> (case parse r origin of
               None \<Rightarrow> ''/map''
             | Some (o', u) \<Rightarrow> if o' \<noteq> origin then ''/map'' else url_pathname u @ url_search u @ url_hash u)))"

definition login_next :: "jsstring \<Rightarrow> jsstring" where
  "login_next target = ''/login?next='' @ encode_uri_component target"

section \<open>The back stack\<close>

type_synonym session_storage = "jsstring \<rightharpoonup> jsstring"

record nav_window =
  nw_session :: session_storage
  nw_path :: jsstring

fun json_string :: "json \<Rightarrow> jsstring option" where
  "json_string (JStr s) = Some s"
| "json_string _ = None"

definition read_stack :: "session_storage \<Rightarrow> jsstring list" where
  "read_stack st = (case st NAV_STACK_KEY of
       None \<Rightarrow> []
     | Some raw \<Rightarrow> if raw = [] then [] else (case json_parse raw of
         Some (JArr xs) \<Rightarrow> List.map_filter json_string xs | _ \<Rightarrow> []))"

definition write_stack :: "session_storage \<Rightarrow> jsstring list \<Rightarrow> session_storage" where
  "write_stack st stack = st(NAV_STACK_KEY \<mapsto> json_stringify (JArr (map JStr (drop (length stack - MAX_STACK) stack))))"

definition record_in :: "jsstring \<Rightarrow> session_storage \<Rightarrow> session_storage" where
  "record_in left st =
     (if st GOING_BACK_KEY = Some ''1'' then st(GOING_BACK_KEY := None)
      else if st SKIP_RECORD_KEY = Some ''1'' then st(SKIP_RECORD_KEY := None)
      else (let stack = read_stack st
        in if stack \<noteq> [] \<and> last stack = left then st else write_stack st (stack @ [left])))"

definition record_navigation :: "jsstring \<Rightarrow> nav_window option \<Rightarrow> nav_window option" where
  "record_navigation left w = map_option (\<lambda>w. w\<lparr>nw_session := record_in left (nw_session w)\<rparr>) w"

definition skip_back_record :: "nav_window option \<Rightarrow> nav_window option" where
  "skip_back_record w = map_option (\<lambda>w. w\<lparr>nw_session := (nw_session w)(SKIP_RECORD_KEY \<mapsto> ''1'')\<rparr>) w"

text \<open>The pops, on the stack from its top: the target, if any, and what is left.\<close>

fun pop_target :: "jsstring \<Rightarrow> jsstring list \<Rightarrow> jsstring option \<times> jsstring list" where
  "pop_target path [] = (None, [])"
| "pop_target path (candidate # below) =
     (if candidate \<noteq> [] \<and> candidate \<noteq> path then (Some candidate, below) else pop_target path below)"

text \<open>The path pushed on the router and the window after it.\<close>

definition smart_back :: "jsstring \<Rightarrow> nav_window option \<Rightarrow> jsstring \<times> nav_window option" where
  "smart_back fallback w = (case w of
       None \<Rightarrow> (fallback, None)
     | Some w \<Rightarrow> (case pop_target (nw_path w) (rev (read_stack (nw_session w))) of
         (target, below) \<Rightarrow>
           ((case target of Some t \<Rightarrow> t | None \<Rightarrow> fallback),
            Some (w\<lparr>nw_session := (write_stack (nw_session w) (rev below))(GOING_BACK_KEY \<mapsto> ''1'')\<rparr>))))"

section \<open>The page and its tracker\<close>

text \<open>The tracker's ref and effect, which runs when the path changed.\<close>

record nav_page =
  np_window :: nav_window
  np_previous :: "jsstring option"

definition path_effect :: "nav_page \<Rightarrow> nav_page" where
  "path_effect pg = (let w = np_window pg;
       w' = (case np_previous pg of
           Some p \<Rightarrow> if p \<noteq> [] \<and> p \<noteq> nw_path w then the (record_navigation p (Some w)) else w
         | None \<Rightarrow> w)
     in \<lparr>np_window = w', np_previous = Some (nw_path w)\<rparr>)"

definition go_to :: "jsstring \<Rightarrow> nav_page \<Rightarrow> nav_page" where
  "go_to path pg = (if path = nw_path (np_window pg) then pg
     else path_effect (pg\<lparr>np_window := (np_window pg)\<lparr>nw_path := path\<rparr>\<rparr>))"

datatype nav_event = Visit jsstring | Back jsstring | Skip_record

fun nav_step :: "nav_event \<Rightarrow> nav_page \<Rightarrow> nav_page" where
  "nav_step (Visit path) pg = go_to path pg"
| "nav_step (Back fallback) pg = (case smart_back fallback (Some (np_window pg)) of
     (path, w) \<Rightarrow> go_to path (pg\<lparr>np_window := the w\<rparr>))"
| "nav_step Skip_record pg = pg\<lparr>np_window := the (skip_back_record (Some (np_window pg)))\<rparr>"

definition nav_run :: "nav_event list \<Rightarrow> nav_page \<Rightarrow> nav_page" where
  "nav_run es pg = fold nav_step es pg"

section \<open>Facts of the storage\<close>

lemma keys_differ [simp]:
  "NAV_STACK_KEY \<noteq> GOING_BACK_KEY" "GOING_BACK_KEY \<noteq> NAV_STACK_KEY" "NAV_STACK_KEY \<noteq> SKIP_RECORD_KEY"
  "SKIP_RECORD_KEY \<noteq> NAV_STACK_KEY" "GOING_BACK_KEY \<noteq> SKIP_RECORD_KEY" "SKIP_RECORD_KEY \<noteq> GOING_BACK_KEY"
  by (simp_all add: nav_keys)

lemma strings_of_strings: "List.map_filter json_string (map JStr xs) = xs"
  by (induction xs) (simp_all add: List.map_filter_simps)

lemma stringify_not_Nil: "json_stringify (JArr xs) \<noteq> []"
  by simp

lemma read_write_stack [simp]:
  "read_stack (write_stack st stack) = drop (length stack - MAX_STACK) stack"
proof -
  let ?v = "JArr (map JStr (drop (length stack - MAX_STACK) stack))"
  have "json_plain ?v" by (simp add: list_all_iff)
  then show ?thesis
    unfolding read_stack_def write_stack_def
    by (simp add: json_parse_stringify stringify_not_Nil strings_of_strings del: json_stringify.simps)
qed

lemma read_stack_other [simp]:
  "k \<noteq> NAV_STACK_KEY \<Longrightarrow> read_stack (st(k := v)) = read_stack st"
  by (simp add: read_stack_def)

lemma write_stack_other [simp]: "k \<noteq> NAV_STACK_KEY \<Longrightarrow> write_stack st stack k = st k"
  by (simp add: write_stack_def)

section \<open>The stack stays short and without repeats\<close>

definition stack_ok :: "jsstring list \<Rightarrow> bool" where
  "stack_ok stack \<longleftrightarrow> length stack \<le> MAX_STACK \<and> distinct_adj stack"

lemma distinct_adj_drop: "distinct_adj xs \<Longrightarrow> distinct_adj (drop n xs)"
  by (metis append_take_drop_id distinct_adj_appendD2)

lemma stack_ok_write: "distinct_adj stack \<Longrightarrow> stack_ok (read_stack (write_stack st stack))"
  by (simp add: stack_ok_def distinct_adj_drop)

lemma record_keeps_ok: "stack_ok (read_stack st) \<Longrightarrow> stack_ok (read_stack (record_in left st))"
  by (auto simp: record_in_def Let_def stack_ok_write distinct_adj_append_iff stack_ok_def distinct_adj_drop)

lemma pop_target_suffix: "\<exists>above. xs = above @ snd (pop_target path xs)"
  by (induction xs) (auto intro: exI [where x = "_ # _"])

lemma back_keeps_ok:
  assumes "stack_ok (read_stack (nw_session w))" "smart_back fallback (Some w) = (path, w')"
  shows "stack_ok (read_stack (nw_session (the w')))"
proof -
  obtain target below where popped: "pop_target (nw_path w) (rev (read_stack (nw_session w))) = (target, below)"
    by (cases "pop_target (nw_path w) (rev (read_stack (nw_session w)))")
  then obtain above where "rev (read_stack (nw_session w)) = above @ below"
    using pop_target_suffix [of "rev (read_stack (nw_session w))" "nw_path w"] by auto
  then have "read_stack (nw_session w) = rev below @ rev above"
    by (metis rev_append rev_rev_ident)
  then have "distinct_adj (rev below)"
    using assms(1) by (metis distinct_adj_appendD1 stack_ok_def)
  then show ?thesis using assms(2) popped stack_ok_write [of "rev below" "nw_session w"]
    by (auto simp: smart_back_def simp del: read_write_stack)
qed

lemma go_to_keeps_ok: "stack_ok (read_stack (nw_session (np_window pg))) \<Longrightarrow> stack_ok (read_stack (nw_session (np_window (go_to path pg))))"
  by (simp add: go_to_def path_effect_def record_navigation_def Let_def record_keeps_ok split: option.split)

text \<open>
  C11. The back stack stays bounded and free of loops on one page: whatever the reader visits, walks
  back from or skips, the stored stack holds at most 50 paths and no path twice in a row.
\<close>

theorem back_stack_stays_ok:
  assumes "stack_ok (read_stack (nw_session (np_window pg)))"
  shows "stack_ok (read_stack (nw_session (np_window (nav_run es pg))))"
proof -
  have "stack_ok (read_stack (nw_session (np_window (nav_step e pg))))"
    if "stack_ok (read_stack (nw_session (np_window pg)))" for e pg
    using that by (cases e) (auto simp: skip_back_record_def intro!: go_to_keeps_ok dest: back_keeps_ok split: prod.split)
  then show ?thesis using assms unfolding nav_run_def by (induction es arbitrary: pg) simp_all
qed

definition first_page :: "jsstring \<Rightarrow> nav_page" where
  "first_page path = \<lparr>np_window = \<lparr>nw_session = (\<lambda>_. None), nw_path = path\<rparr>, np_previous = Some path\<rparr>"

lemma back_stack_stays_ok_witness:
  "stack_ok (read_stack (nw_session (np_window (nav_run [Visit ''/a'', Visit ''/b'', Back ''/'', Visit ''/b''] (first_page ''/map'')))))"
  by (rule back_stack_stays_ok) (simp add: first_page_def read_stack_def stack_ok_def)

section \<open>Back undoes the visits\<close>







text \<open>A redirect never leaves the origin.\<close>

lemma safe_next_same_origin:
  "safe_next parse (Some origin) raw = ''/map'' \<or>
   (\<exists>r u. raw = Some r \<and> parse r origin = Some (origin, u) \<and>
     safe_next parse (Some origin) raw = url_pathname u @ url_search u @ url_hash u)"
  by (auto simp: safe_next_def split: option.split)

end
