(* ===== verification/Notices.thy ===== *)
theory Notices
  imports Organizations Api_Errors Event_Types
begin

text \<open>
  \<open>lib/notifications.ts\<close>: the wording and the destination of each kind of notification, the requests that mark rows
  read, and the kind an unsubscribe link names. Dates print through \<open>format_date\<close>, given as \<open>day\<close>.
\<close>

section \<open>Kinds\<close>

datatype notification_kind = Request_fulfilled | New_follower | Co_geolocator_invite | Co_geolocator_removed
  | Ownership_transferred | Organization_invite | Organization_invite_accepted | Organization_manager_inherited
  | Re_approve_requested | Approval_received | Approval_request_received | Approval_request_declined
  | Organization_approval_removed

definition NOTIFICATION_KINDS :: "notification_kind list" where
  "NOTIFICATION_KINDS = [Request_fulfilled, New_follower, Co_geolocator_invite, Co_geolocator_removed,
     Ownership_transferred, Organization_invite, Organization_invite_accepted, Organization_manager_inherited,
     Re_approve_requested, Approval_received, Approval_request_received, Approval_request_declined,
     Organization_approval_removed]"

fun notification_kind_text :: "notification_kind \<Rightarrow> jsstring" where
  "notification_kind_text Request_fulfilled = ''request_fulfilled''"
| "notification_kind_text New_follower = ''new_follower''"
| "notification_kind_text Co_geolocator_invite = ''co_geolocator_invite''"
| "notification_kind_text Co_geolocator_removed = ''co_geolocator_removed''"
| "notification_kind_text Ownership_transferred = ''ownership_transferred''"
| "notification_kind_text Organization_invite = ''organization_invite''"
| "notification_kind_text Organization_invite_accepted = ''organization_invite_accepted''"
| "notification_kind_text Organization_manager_inherited = ''organization_manager_inherited''"
| "notification_kind_text Re_approve_requested = ''re_approve_requested''"
| "notification_kind_text Approval_received = ''approval_received''"
| "notification_kind_text Approval_request_received = ''approval_request_received''"
| "notification_kind_text Approval_request_declined = ''approval_request_declined''"
| "notification_kind_text Organization_approval_removed = ''organization_approval_removed''"

text \<open>The label of a kind and its settings row.\<close>

fun NOTIFICATION_KIND_COPY :: "notification_kind \<Rightarrow> jsstring \<times> jsstring" where
  "NOTIFICATION_KIND_COPY Request_fulfilled = (''Request fulfilled'', ''Someone geolocates a request you opened.'')"
| "NOTIFICATION_KIND_COPY New_follower = (''New follower'', ''Someone follows you.'')"
| "NOTIFICATION_KIND_COPY Co_geolocator_invite =
     (''Geolocator invitation'', ''Someone invites you to share the credit of their geolocation.'')"
| "NOTIFICATION_KIND_COPY Co_geolocator_removed =
     (''Credit removed'', ''The owner of a geolocation removes you from its geolocators.'')"
| "NOTIFICATION_KIND_COPY Ownership_transferred = (''Ownership transferred'',
     ''A geolocation you share passes to you because its owner'' @ [CHR 0x27] @ ''s account was removed.'')"
| "NOTIFICATION_KIND_COPY Organization_invite = (''Organization invite'', ''An org manager invites you to join an organization.'')"
| "NOTIFICATION_KIND_COPY Organization_invite_accepted = (''Invite accepted'', ''Someone accepts your invite to an organization.'')"
| "NOTIFICATION_KIND_COPY Organization_manager_inherited =
     (''Now org manager'', ''You become an org manager because the last one left Vidit.'')"
| "NOTIFICATION_KIND_COPY Re_approve_requested =
     (''New version to approve'', ''A geolocation you, or an organization you manage, approved gets a new version.'')"
| "NOTIFICATION_KIND_COPY Approval_received =
     (''Approval received'', ''Someone approves your geolocation, as themselves or for an organization.'')"
| "NOTIFICATION_KIND_COPY Approval_request_received =
     (''Approval request'', ''Someone asks you, or an organization you manage, to approve their geolocation.'')"
| "NOTIFICATION_KIND_COPY Approval_request_declined = (''Approval request declined'',
     ''An analyst or an organization you asked declines to approve your geolocation.'')"
| "NOTIFICATION_KIND_COPY Organization_approval_removed =
     (''Organization approval removed'', ''An organization that approved your geolocation is removed from Vidit.'')"

datatype request_outcome = Outcome_approved | Outcome_declined

fun REQUEST_OUTCOME_LABEL :: "request_outcome \<Rightarrow> jsstring" where
  "REQUEST_OUTCOME_LABEL Outcome_approved = ''Approved''"
| "REQUEST_OUTCOME_LABEL Outcome_declined = ''Declined''"

section \<open>Rows\<close>

record event_ref =
  er_id :: jsstring
  er_title :: jsstring

record notification =
  nt_id :: jsstring
  nt_kind :: notification_kind
  nt_actor :: "author option"
  nt_event :: "event_ref option"
  nt_organization :: "organization_ref option"
  nt_organization_name :: "jsstring option"
  nt_outcome :: "request_outcome option"
  nt_created_at :: jsstring
  nt_read_at :: "jsstring option"

text \<open>The separator is a space, a middle dot and a space.\<close>

definition notification_label :: "(jsstring \<Rightarrow> jsstring) \<Rightarrow> notification \<Rightarrow> jsstring" where
  "notification_label day n = js_join [CHR '' '', CHR 0xB7, CHR '' '']
     ([fst (NOTIFICATION_KIND_COPY (nt_kind n)), day (nt_created_at n)] @
      (case nt_outcome n of Some r \<Rightarrow> [REQUEST_OUTCOME_LABEL r] | None \<Rightarrow> []))"

definition ORGANIZATION_ACTS :: "notification_kind list" where
  "ORGANIZATION_ACTS = [Approval_received, Approval_request_declined]"

datatype avatar_shape = Circle | Square

record row_avatar =
  ra_name :: jsstring
  ra_url :: "jsstring option"
  ra_shape :: avatar_shape

definition notification_avatar :: "notification \<Rightarrow> row_avatar option" where
  "notification_avatar n = (case nt_organization n of
       Some org \<Rightarrow> if nt_kind n \<in> set ORGANIZATION_ACTS
         then Some \<lparr>ra_name = or_name org, ra_url = or_avatar org, ra_shape = Square\<rparr>
         else map_option (\<lambda>a. \<lparr>ra_name = a_username a, ra_url = a_avatar a, ra_shape = Circle\<rparr>) (nt_actor n)
     | None \<Rightarrow> map_option (\<lambda>a. \<lparr>ra_name = a_username a, ra_url = a_avatar a, ra_shape = Circle\<rparr>) (nt_actor n))"

text \<open>The sentence and the destination.\<close>

definition describe_notification :: "notification \<Rightarrow> jsstring \<times> jsstring" where
  "describe_notification n =
     (let actor = (case nt_actor n of Some a \<Rightarrow> a_username a | None \<Rightarrow> ''Someone'');
          title = (case nt_event n of Some e \<Rightarrow> er_title e | None \<Rightarrow> []);
          to_event = (case nt_event n of Some e \<Rightarrow> event_href (er_id e) | None \<Rightarrow> ''/notifications'');
          organization = (case nt_organization n of Some org \<Rightarrow> or_name org | None \<Rightarrow> ''an organization'');
          to_organization = (case nt_organization n of Some org \<Rightarrow> organization_path (or_slug org) | None \<Rightarrow> ''/notifications'');
          you = (case nt_organization n of Some _ \<Rightarrow> organization | None \<Rightarrow> ''you'');
          for_org = (case nt_organization n of Some _ \<Rightarrow> '' for '' @ organization | None \<Rightarrow> [])
      in case nt_kind n of
        Request_fulfilled \<Rightarrow> (actor @ '' geolocated your request: '' @ title,
          case nt_event n of Some e \<Rightarrow> event_href (er_id e) | None \<Rightarrow> ''/requests'')
      | New_follower \<Rightarrow> (actor @ '' followed you'',
          case nt_actor n of Some a \<Rightarrow> profile_href (a_username a) | None \<Rightarrow> ''/notifications'')
      | Co_geolocator_invite \<Rightarrow> (actor @ '' invited you to share the credit of: '' @ title, to_event)
      | Co_geolocator_removed \<Rightarrow> (actor @ '' removed you from the geolocators of: '' @ title, to_event)
      | Ownership_transferred \<Rightarrow> (''You now own: '' @ title @ ''. Its previous owner'' @ [CHR 0x27] @ ''s account was removed.'', to_event)
      | Organization_invite \<Rightarrow> (actor @ '' invited you to join '' @ organization, to_organization)
      | Organization_invite_accepted \<Rightarrow> (actor @ '' joined '' @ organization, to_organization)
      | Organization_manager_inherited \<Rightarrow> (''You are now an org manager of '' @ organization, to_organization)
      | Re_approve_requested \<Rightarrow> (actor @ '' saved a new version of a geolocation '' @ you @ '' approved: '' @ title, to_event)
      | Approval_received \<Rightarrow> (actor @ '' approved your geolocation'' @ for_org @ '': '' @ title, to_event)
      | Approval_request_received \<Rightarrow> (actor @ '' asked '' @ you @ '' to approve: '' @ title, to_event)
      | Approval_request_declined \<Rightarrow> (actor @ '' declined'' @ for_org @ '' to approve: '' @ title, to_event)
      | Organization_approval_removed \<Rightarrow> ((case nt_organization_name n of Some s \<Rightarrow> s | None \<Rightarrow> ''An organization'') @
          '' was removed from Vidit; its approval of '' @ title @ '' is gone'', to_event))"

section \<open>Calls\<close>

definition NOTIFICATIONS_PATH :: jsstring where
  "NOTIFICATIONS_PATH = ''/notifications''"

definition UNREAD_COUNT_PATH :: jsstring where
  "UNREAD_COUNT_PATH = ''/notifications/unread-count''"

definition notifications_path :: "jsstring option \<Rightarrow> jsstring" where
  "notifications_path cursor = with_cursor NOTIFICATIONS_PATH cursor"

definition MAX_READ_IDS :: nat where
  "MAX_READ_IDS = 100"

definition read_call :: "jsstring list \<Rightarrow> 'f write_call" where
  "read_call ids = post_json (NOTIFICATIONS_PATH @ ''/read'') (JObj [(''ids'', JArr (map JStr ids))])"

text \<open>The loop, from index \<open>i\<close>: the calls sent and how the run ends. \<open>refuses\<close> says what the \<open>n\<close>-th call of the run
  answers, an error ending it.\<close>

function mark_loop :: "(nat \<Rightarrow> thrown option) \<Rightarrow> jsstring list \<Rightarrow> nat \<Rightarrow> nat \<Rightarrow> jsstring list list \<times> thrown option" where
  "mark_loop refuses ids n i =
     (if i < length ids then
        (let chunk = take MAX_READ_IDS (drop i ids) in
         case refuses n of
           Some err \<Rightarrow> ([chunk], Some err)
         | None \<Rightarrow> (case mark_loop refuses ids (Suc n) (i + MAX_READ_IDS) of (sent, e) \<Rightarrow> (chunk # sent, e)))
      else ([], None))"
  by pat_completeness auto
termination
  by (relation "measure (\<lambda>(refuses, ids, n, i). length ids - i)") (auto simp: MAX_READ_IDS_def)

declare mark_loop.simps [simp del]

definition mark_notifications_read :: "(nat \<Rightarrow> thrown option) \<Rightarrow> jsstring list \<Rightarrow> 'f write_call list \<times> thrown option" where
  "mark_notifications_read refuses ids = (case mark_loop refuses ids 0 0 of (chunks, e) \<Rightarrow> (map read_call chunks, e))"

definition dismiss_notification :: "jsstring \<Rightarrow> 'f write_call" where
  "dismiss_notification i = delete_call (NOTIFICATIONS_PATH @ ''/'' @ encode_uri_component i)"

definition unsubscribe_from_email :: "jsstring \<Rightarrow> 'f write_call" where
  "unsubscribe_from_email token = post_call (NOTIFICATIONS_PATH @ ''/unsubscribe?token='' @ encode_uri_component token)"

text \<open>\<open>kind in NOTIFICATION_KIND_COPY\<close> also finds the names an object inherits.\<close>

definition unsubscribe_token_kind :: "jsstring \<Rightarrow> jsstring option" where
  "unsubscribe_token_kind token = (case split_char CHR ''.'' token of
       _ # kind # _ \<Rightarrow> if kind \<noteq> [] \<and> key_in kind (map (\<lambda>k. (notification_kind_text k, ())) NOTIFICATION_KINDS) then Some kind else None
     | _ \<Rightarrow> None)"

section \<open>Rows are marked once, in bounded requests\<close>

lemma mark_loop_spec:
  "(case mark_loop refuses ids n i of
      (chunks, None) \<Rightarrow> concat chunks = drop i ids \<and> (\<forall>m < length chunks. refuses (n + m) = None)
    | (chunks, Some e) \<Rightarrow> (\<exists>rest. concat chunks @ rest = drop i ids) \<and> 0 < length chunks \<and> refuses (n + (length chunks - 1)) = Some e \<and>
        (\<forall>m < length chunks - 1. refuses (n + m) = None)) \<and>
   (\<forall>c \<in> set (fst (mark_loop refuses ids n i)). c \<noteq> [] \<and> length c \<le> MAX_READ_IDS)"
proof (induction refuses ids n i rule: mark_loop.induct)
  case (1 refuses ids n i)
  show ?case
  proof (cases "i < length ids")
    case False
    then show ?thesis by (subst mark_loop.simps, subst (2) mark_loop.simps) simp
  next
    case True
    let ?chunk = "take MAX_READ_IDS (drop i ids)"
    have chunk: "?chunk \<noteq> []" "length ?chunk \<le> MAX_READ_IDS" using True by (simp_all add: MAX_READ_IDS_def)
    have cut: "?chunk @ drop (i + MAX_READ_IDS) ids = drop i ids"
      by (metis add.commute append_take_drop_id drop_drop)
    show ?thesis
    proof (cases "refuses n")
      case (Some err)
      then have "mark_loop refuses ids n i = ([?chunk], Some err)" using True by (subst mark_loop.simps) (simp add: Let_def)
      then show ?thesis using chunk cut Some by auto
    next
      case None
      obtain sent e where rest: "mark_loop refuses ids (Suc n) (i + MAX_READ_IDS) = (sent, e)" by fastforce
      then have run: "mark_loop refuses ids n i = (?chunk # sent, e)"
        using True None by (subst mark_loop.simps) (simp add: Let_def)
      note IH = 1 [OF True refl None, unfolded rest]
      have shift: "(\<forall>m < Suc k. refuses (n + m) = None) \<longleftrightarrow> (\<forall>m < k. refuses (Suc n + m) = None)" for k
        using None by (metis add_Suc_right add_Suc_shift add.right_neutral less_Suc_eq_0_disj)
      show ?thesis
      proof (cases e)
        case e: None
        then show ?thesis using IH run chunk cut shift [of "length sent"] by auto
      next
        case (Some err)
        then obtain m where m: "length sent = Suc m" using IH by (cases sent) auto
        obtain rest where "concat sent @ rest = drop (i + MAX_READ_IDS) ids" using IH Some by auto
        then have "concat (?chunk # sent) @ rest = drop i ids" using cut by (metis append.assoc concat.simps(2))
        then have "\<exists>rest. concat (?chunk # sent) @ rest = drop i ids" by blast
        moreover have "refuses (n + Suc m) = Some err" "\<forall>j < Suc m. refuses (n + j) = None"
          using IH Some m shift [of m] by simp_all
        moreover have "\<forall>c \<in> set (?chunk # sent). c \<noteq> [] \<and> length c \<le> MAX_READ_IDS" using IH chunk by simp
        ultimately show ?thesis unfolding run Some by (simp only: prod.case option.case list.size m) simp
      qed
    qed
  qed
qed

text \<open>
  The rows the feed showed are marked read once each, in their order, by requests of at most a hundred: when every
  request is taken the requests hold all of them, and when one is refused the run stops at it.
\<close>

theorem rows_marked_once:
  "\<exists>chunks. fst (mark_notifications_read refuses ids) = map read_call chunks \<and>
     list_all (\<lambda>c. 0 < length c \<and> length c \<le> 100) chunks \<and>
     (case snd (mark_notifications_read refuses ids) of
        None \<Rightarrow> concat chunks = ids \<and> list_all (\<lambda>m. refuses m = None) [0..<length chunks]
      | Some e \<Rightarrow> (\<exists>rest. concat chunks @ rest = ids) \<and> refuses (length chunks - 1) = Some e \<and>
          list_all (\<lambda>m. refuses m = None) [0..<length chunks - 1])"
proof -
  obtain chunks e where run: "mark_loop refuses ids 0 0 = (chunks, e)" by fastforce
  have "list_all (\<lambda>c. 0 < length c \<and> length c \<le> 100) chunks"
    using mark_loop_spec [where refuses = refuses and ids = ids and n = 0 and i = 0] run by (auto simp: list_all_iff MAX_READ_IDS_def)
  then show ?thesis using mark_loop_spec [where refuses = refuses and ids = ids and n = 0 and i = 0] run
    by (intro exI [of _ chunks]) (auto simp: mark_notifications_read_def list_all_iff split: option.splits)
qed

section \<open>Links stay in the app\<close>

definition app_path :: "jsstring \<Rightarrow> bool" where
  "app_path href \<longleftrightarrow> (case href of c # d # _ \<Rightarrow> c = CHR ''/'' \<and> d \<noteq> CHR ''/'' \<and> d \<noteq> CHR 0x5C | _ \<Rightarrow> False)"

text \<open>
  Whatever a notification holds, its row leads to a page of the app: its link is a path, never an address elsewhere.
\<close>

theorem notification_stays_in_app: "app_path (snd (describe_notification n))"
  by (cases "nt_kind n") (simp_all add: describe_notification_def Let_def app_path_def event_href_def profile_href_def
    organization_path_def split: option.split)

section \<open>Unsubscribe links\<close>

lemma notification_kind_text_no_dot: "CHR ''.'' \<notin> set (notification_kind_text k)"
  by (cases k) simp_all

text \<open>A link the server signed names its kind.\<close>

lemma token_names_its_kind:
  assumes "CHR ''.'' \<notin> set user"
  shows "unsubscribe_token_kind (user @ ''.'' @ notification_kind_text k @ ''.'' @ signature) = Some (notification_kind_text k)"
proof -
  have "split_char CHR ''.'' (user @ ''.'' @ notification_kind_text k @ ''.'' @ signature) =
      user # notification_kind_text k # split_char CHR ''.'' signature"
    using assms notification_kind_text_no_dot by (simp add: split_char_append)
  moreover have "notification_kind_text k \<noteq> []" by (cases k) simp_all
  moreover have "key_in (notification_kind_text k) (map (\<lambda>k. (notification_kind_text k, ())) NOTIFICATION_KINDS)"
    by (cases k) (simp_all add: key_in_def NOTIFICATION_KINDS_def)
  ultimately show ?thesis by (simp add: unsubscribe_token_kind_def)
qed

text \<open>A name every object inherits passes for a kind, though no kind has it.\<close>

lemma inherited_name_is_taken_for_a_kind:
  "unsubscribe_token_kind ''u.constructor.s'' = Some ''constructor'' \<and> (\<forall>k. notification_kind_text k \<noteq> ''constructor'')"
proof -
  have "split_char CHR ''.'' ''u.constructor.s'' = [''u'', ''constructor'', ''s'']" by simp
  moreover have "key_in ''constructor'' kvs" for kvs :: "(jsstring \<times> unit) list" by (simp add: key_in_def OBJECT_PROTOTYPE_def)
  moreover have "notification_kind_text k \<noteq> ''constructor''" for k by (cases k) simp_all
  ultimately show ?thesis by (simp add: unsubscribe_token_kind_def)
qed

end
