(* ===== verification/Outbound.thy ===== *)
theory Outbound
  imports Snapshots
begin

text \<open>
  \<open>lib/outbound.ts\<close> with the hosts of \<open>components/map/mapSources.ts\<close>: which links route in the app,
  open in one click or ask first, and how free text is cut into runs around the links in it. The URL
  parser is a parameter.
\<close>

section \<open>Where a link leads\<close>

definition VIDIT_HOST :: jsstring where
  "VIDIT_HOST = ''vidit.app''"

definition MAP_SOURCES :: "jsstring list" where
  "MAP_SOURCES =
    [''https://openfreemap.org/'', ''https://www.openstreetmap.org/copyright'', ''https://openmaptiles.org/docs/schema/'',
     ''https://www.naturalearthdata.com/downloads/10m-raster-data/10m-natural-earth-2/'', ''https://opentopomap.org/about'',
     ''https://cloudless.eox.at/'', ''https://registry.opendata.aws/terrain-tiles/'',
     ''https://www.earthdata.nasa.gov/engage/open-data-services-software/earthdata-developer-portal/gibs-api'',
     ''https://www.earthdata.nasa.gov/data/tools/firms'']"

text \<open>A map source whose link did not parse would stop the module from loading; none is one here.\<close>

definition KNOWN_HOSTS :: "url_parser \<Rightarrow> jsstring list" where
  "KNOWN_HOSTS parse = SNAPSHOT_HOSTS @
     [''x.com'', ''twitter.com'', ''t.me'', ''youtube.com'', ''youtu.be'', ''github.com'', ''discord.gg'', ''www.google.com/maps'',
      ''vercel.com'', ''railway.com'', ''aws.amazon.com''] @
     List.map_filter (\<lambda>href. map_option (\<lambda>u. url_hostname u @ url_pathname u) (parse href)) MAP_SOURCES"

definition http_hostname :: "url_parser \<Rightarrow> jsstring \<Rightarrow> jsstring option" where
  "http_hostname parse href = map_option url_hostname (parse_http parse href)"

definition on_host :: "jsstring \<Rightarrow> jsstring \<Rightarrow> bool" where
  "on_host hostname host \<longleftrightarrow> hostname = host \<or> ends_with hostname (''.'' @ host)"

definition is_known :: "url \<Rightarrow> jsstring \<Rightarrow> bool" where
  "is_known u entry = (case find_index (\<lambda>c. c = CHR ''/'') entry of
       None \<Rightarrow> on_host (url_hostname u) entry
     | Some slash \<Rightarrow> url_hostname u = take slash entry \<and> url_pathname u = drop slash entry)"

datatype link_kind = Internal | Known | Unknown

definition link_kind_of :: "url_parser \<Rightarrow> jsstring \<Rightarrow> link_kind option" where
  "link_kind_of parse href = (case parse_http parse href of
       None \<Rightarrow> None
     | Some u \<Rightarrow>
         if on_host (url_hostname u) VIDIT_HOST
         then Some (if starts_with (url_pathname u) ''//'' then Unknown else Internal)
         else Some (if list_ex (is_known u) (KNOWN_HOSTS parse) then Known else Unknown))"

text \<open>\<open>resolve\<close> is the URL constructor with a base, answering the \<open>href\<close>, and \<open>origin\<close> reads a URL's origin.\<close>

definition link_target :: "url_parser \<Rightarrow> (url \<Rightarrow> jsstring) \<Rightarrow> (jsstring \<Rightarrow> jsstring \<Rightarrow> jsstring) \<Rightarrow> jsstring \<Rightarrow> jsstring" where
  "link_target parse origin resolve href = (case parse_http parse href of
       None \<Rightarrow> href
     | Some u \<Rightarrow>
         if \<not> on_host (url_hostname u) VIDIT_HOST \<or> \<not> starts_with (url_pathname u) ''//'' then href
         else resolve (url_pathname u @ url_search u @ url_hash u) (origin u))"

section \<open>Links in free text\<close>

text \<open>\<open>URL_IN_TEXT\<close> at one position: the scheme in any case, then the longest run of characters that
  are no white space, angle bracket or double quote.\<close>

definition url_char :: "char \<Rightarrow> bool" where
  "url_char c \<longleftrightarrow> \<not> js_space c \<and> c \<noteq> CHR ''<'' \<and> c \<noteq> CHR ''>'' \<and> c \<noteq> CHR 0x22"

definition scheme_length :: "jsstring \<Rightarrow> nat option" where
  "scheme_length s = (if starts_with (js_lower s) ''https://'' then Some 8
     else if starts_with (js_lower s) ''http://'' then Some 7 else None)"

definition url_at :: "jsstring \<Rightarrow> jsstring option" where
  "url_at s = (case scheme_length s of
       None \<Rightarrow> None
     | Some n \<Rightarrow> (let run = takeWhile url_char (drop n s) in if run = [] then None else Some (take n s @ run)))"

definition trailing_punctuation :: "char \<Rightarrow> bool" where
  "trailing_punctuation c \<longleftrightarrow> c \<in> set ''.,;:!?)]'' \<or> c = CHR 0x27 \<or> c = CHR 0x22"

definition strip_trailing :: "jsstring \<Rightarrow> jsstring" where
  "strip_trailing s = rev (dropWhile trailing_punctuation (rev s))"

record text_segment =
  ts_text :: jsstring
  ts_href :: "jsstring option"

definition plain_run :: "jsstring \<Rightarrow> text_segment list" where
  "plain_run s = (if s = [] then [] else [\<lparr>ts_text = s, ts_href = None\<rparr>])"

text \<open>The loop over the matches: \<open>plain\<close> is the text since the last link.\<close>

function split_from :: "url_parser \<Rightarrow> jsstring \<Rightarrow> jsstring \<Rightarrow> text_segment list" where
  "split_from parse plain [] = plain_run plain"
| "split_from parse plain (c # s) = (case url_at (c # s) of
       None \<Rightarrow> split_from parse (plain @ [c]) s
     | Some m \<Rightarrow> (let u = strip_trailing m; rest = drop (length m) (c # s)
         in if u = [] \<or> http_hostname parse u = None \<or> http_hostname parse u = Some []
            then split_from parse (plain @ m) rest
            else plain_run plain @ \<lparr>ts_text = u, ts_href = Some u\<rparr> # split_from parse (drop (length u) m) rest))"
  by pat_completeness auto

lemma url_at_prefix:
  assumes "url_at s = Some m"
  shows "m \<noteq> [] \<and> m @ drop (length m) s = s"
proof -
  obtain n where n: "scheme_length s = Some n" and m: "m = take n s @ takeWhile url_char (drop n s)" "takeWhile url_char (drop n s) \<noteq> []"
    using assms by (auto simp: url_at_def Let_def split: option.splits if_splits)
  have "s = m @ dropWhile url_char (drop n s)"
    unfolding m(1) by (metis append.assoc append_take_drop_id takeWhile_dropWhile_id)
  then show ?thesis using m by (metis append_eq_conv_conj append_is_Nil_conv append_take_drop_id)
qed

termination split_from
proof (relation "measure (\<lambda>(_, _, s). length s)")
  fix c :: char and s m u rest
  assume "url_at (c # s) = Some m" "rest = drop (length m) (c # s)"
  then have "length rest < length (c # s)"
    using url_at_prefix [of "c # s" m] by (cases m) auto
  then show "((parse, plain @ m, rest), (parse, plain, c # s)) \<in> measure (\<lambda>(_, _, s). length s)"
    and "((parse, drop (length u) m, rest), (parse, plain, c # s)) \<in> measure (\<lambda>(_, _, s). length s)"
    for parse :: url_parser and plain :: jsstring
    by simp_all
qed simp_all

definition split_links :: "url_parser \<Rightarrow> jsstring \<Rightarrow> text_segment list" where
  "split_links parse s = split_from parse [] s"

section \<open>What a link renders as\<close>

text \<open>\<open>OutboundLink\<close>: plain text, a route of the app, a link opened in a new tab, or one asked about first,
  the last two with their \<open>rel\<close>.\<close>

datatype rendered_link =
    As_text
  | Routed jsstring
  | Opened jsstring jsstring
  | Asked jsstring jsstring

definition outbound_link ::
    "url_parser \<Rightarrow> (url \<Rightarrow> jsstring) \<Rightarrow> (jsstring \<Rightarrow> jsstring \<Rightarrow> jsstring) \<Rightarrow> jsstring \<Rightarrow> bool \<Rightarrow> rendered_link" where
  "outbound_link parse origin resolve href ugc =
     (let rel = (if ugc then ''noopener noreferrer nofollow ugc'' else ''noopener noreferrer'')
      in case link_kind_of parse href of
          None \<Rightarrow> As_text
        | Some Internal \<Rightarrow> (case parse href of
              Some u \<Rightarrow> Routed (url_pathname u @ url_search u @ url_hash u) | None \<Rightarrow> As_text)
        | Some Known \<Rightarrow> Opened href rel
        | Some Unknown \<Rightarrow> Asked (link_target parse origin resolve href) rel)"

section \<open>Hosts are compared on whole labels\<close>

lemma split_char_sep: "split_char c (a @ c # b) = split_char c a @ split_char c b"
  by (induction a) (auto split: list.splits)

lemma join_split [simp]: "js_join [c] (split_char c s) = s"
proof (induction s)
  case (Cons d s)
  then show ?case by (cases "split_char c s"; cases "tl (split_char c s)") auto
qed simp

lemma join_append: "ls \<noteq> [] \<Longrightarrow> ms \<noteq> [] \<Longrightarrow> js_join sep (ls @ ms) = js_join sep ls @ sep @ js_join sep ms"
proof (induction ls rule: induct_list012)
  case (2 l)
  then show ?case by (cases ms) auto
qed auto

lemma on_host_labels: "on_host hostname host \<longleftrightarrow> (\<exists>ls. split_char CHR ''.'' hostname = ls @ split_char CHR ''.'' host)"
proof
  assume "on_host hostname host"
  then consider "hostname = host" | a where "hostname = a @ CHR ''.'' # host"
    by (auto simp: on_host_def ends_with_iff)
  then show "\<exists>ls. split_char CHR ''.'' hostname = ls @ split_char CHR ''.'' host"
    by cases (auto simp: split_char_sep)
next
  assume "\<exists>ls. split_char CHR ''.'' hostname = ls @ split_char CHR ''.'' host"
  then obtain ls where ls: "split_char CHR ''.'' hostname = ls @ split_char CHR ''.'' host" ..
  show "on_host hostname host"
  proof (cases "ls = []")
    case True
    then show ?thesis using ls join_split by (metis append_Nil on_host_def)
  next
    case False
    then have "hostname = js_join ''.'' ls @ ''.'' @ host"
      using arg_cong [OF ls, of "js_join ''.''"] by (simp add: join_append)
    then show ?thesis by (auto simp: on_host_def ends_with_iff)
  qed
qed

definition known_page :: "url \<Rightarrow> jsstring \<Rightarrow> bool" where
  "known_page u entry \<longleftrightarrow>
     (\<exists>ls. split_char CHR ''.'' (url_hostname u) = ls @ split_char CHR ''.'' entry) \<or> url_hostname u @ url_pathname u = entry"

lemma is_known_page: "is_known u entry \<Longrightarrow> known_page u entry"
  by (auto simp: is_known_def known_page_def on_host_labels split: option.splits)

text \<open>
  C16. No link leaves for a host the reader was not asked about: a link that opens in one click leads to
  a host whose last labels are a listed host's, or to one listed page; a link that routes in the app is
  one of the app's host or its subdomains, and its path never starts with the two slashes the router
  would read as another host.
\<close>

theorem one_click_only_to_known:
  "(case outbound_link parse origin resolve href ugc of
      Opened target rel \<Rightarrow> target = href \<and>
        (\<exists>u. parse href = Some u \<and> (\<exists>entry \<in> set (KNOWN_HOSTS parse). known_page u entry))
    | Routed path \<Rightarrow>
        (\<exists>u ls. parse href = Some u \<and> split_char CHR ''.'' (url_hostname u) = ls @ [''vidit'', ''app''] \<and>
           path = url_pathname u @ url_search u @ url_hash u \<and> \<not> starts_with (url_pathname u) ''//'')
    | _ \<Rightarrow> True)"
proof -
  have app: "split_char CHR ''.'' VIDIT_HOST = [''vidit'', ''app'']" by (simp add: VIDIT_HOST_def)
  show ?thesis
    by (auto simp: outbound_link_def Let_def link_kind_of_def parse_http_def on_host_labels app list_ex_iff
        dest: is_known_page split: option.splits if_splits link_kind.splits rendered_link.splits)
qed

section \<open>Splitting loses nothing\<close>

lemma plain_run_text [simp]: "concat (map ts_text (plain_run s)) = s"
  by (simp add: plain_run_def)

lemma strip_trailing_prefix: "strip_trailing m @ drop (length (strip_trailing m)) m = m"
proof -
  have "m = strip_trailing m @ rev (takeWhile trailing_punctuation (rev m))"
    unfolding strip_trailing_def by (metis rev_append rev_rev_ident takeWhile_dropWhile_id)
  then show ?thesis by (metis append_eq_conv_conj)
qed

lemma split_from_text: "concat (map ts_text (split_from parse plain s)) = plain @ s"
proof (induction parse plain s rule: split_from.induct)
  case (2 parse plain c s)
  show ?case
  proof (cases "url_at (c # s)")
    case None
    then show ?thesis using 2(1) by simp
  next
    case (Some m)
    let ?u = "strip_trailing m" and ?rest = "drop (length m) (c # s)"
    note parts = url_at_prefix [OF Some] strip_trailing_prefix [of m]
    show ?thesis
      using 2(2) [OF Some refl refl] 2(3) [OF Some refl refl] parts Some
      by (simp add: Let_def del: drop_Cons') (metis append.assoc)
  qed
qed simp

text \<open>A run of plain text is never empty, and a link run is the http(s) URL it shows.\<close>

definition segment_ok :: "url_parser \<Rightarrow> text_segment \<Rightarrow> bool" where
  "segment_ok parse seg \<longleftrightarrow> ts_text seg \<noteq> [] \<and>
     (\<forall>href. ts_href seg = Some href \<longrightarrow> href = ts_text seg \<and> http_hostname parse href \<noteq> None)"

lemma plain_run_ok: "list_all (segment_ok parse) (plain_run s)"
  by (simp add: plain_run_def segment_ok_def)

lemma split_from_ok: "list_all (segment_ok parse) (split_from parse plain s)"
proof (induction parse plain s rule: split_from.induct)
  case (2 parse plain c s)
  show ?case
  proof (cases "url_at (c # s)")
    case None
    then show ?thesis using 2(1) by simp
  next
    case (Some m)
    then show ?thesis using 2(2) [OF Some refl refl] 2(3) [OF Some refl refl]
      by (simp add: Let_def plain_run_ok del: drop_Cons') (simp add: segment_ok_def)
  qed
qed (simp add: plain_run_ok)

text \<open>
  Cutting a text around its links loses nothing: the runs put together are the text, no run is
  empty, and a run that links shows exactly the http(s) URL it leads to.
\<close>

theorem split_links_keeps_text:
  "concat (map ts_text (split_links parse s)) = s \<and> list_all (segment_ok parse) (split_links parse s)"
  by (simp add: split_links_def split_from_text split_from_ok)

end
