(* ===== verification/Page_Url.thy ===== *)
theory Page_Url
  imports Search_Params
begin

text \<open>
  \<open>usePageUrl\<close> of \<open>components/filters/useFilterSurface.ts\<close>: the two effects that keep a page's
  state and its URL in step, over any \<open>PageUrl\<close> format. The interface \<open>page_url\<close> states
  what the effects rely on; the feed, the search page and the requests board interpret it.

  A query string is represented by the parameters it holds, which \<open>URLSearchParams\<close> prints
  and parses back. A value carries an identity beside its contents, since the effect compares
  objects by \<open>===\<close>. \<open>pushes\<close> chooses between a new history entry and a replaced one.
\<close>

section \<open>The two effects\<close>

record page_refs =
  written :: params
  seen_query :: params
  seen_value :: nat

datatype navigation = Push params | Replace params

text \<open>The first effect, on a render with query \<open>q\<close>: the value handed to \<open>onRead\<close>, if any.\<close>

definition query_effect ::
  "(params \<Rightarrow> 'v) \<Rightarrow> ('v \<Rightarrow> params) \<Rightarrow> params \<Rightarrow> page_refs \<Rightarrow> page_refs \<times> 'v option" where
  "query_effect rd wr q refs =
     (if q = seen_query refs then (refs, None)
      else (let refs' = refs\<lparr>seen_query := q\<rparr>; v = rd q; next = wr v
            in if next = written refs' then (refs', None)
               else (refs'\<lparr>written := next\<rparr>, Some v)))"

text \<open>The second effect, on a render with the value \<open>v\<close> of identity \<open>ident\<close>.\<close>

definition value_effect ::
  "('v \<Rightarrow> params) \<Rightarrow> (params \<Rightarrow> params \<Rightarrow> bool) \<Rightarrow> nat \<times> 'v \<Rightarrow> page_refs \<Rightarrow>
     page_refs \<times> navigation option" where
  "value_effect wr pushes v refs =
     (if fst v = seen_value refs then (refs, None)
      else (let refs' = refs\<lparr>seen_value := fst v\<rparr>; next = wr (snd v)
            in if next = written refs' then (refs', None)
               else (refs'\<lparr>written := next\<rparr>,
                     Some (if pushes (written refs') next then Push next else Replace next))))"

section \<open>The page around them\<close>

text \<open>
  The page holds the router's query, its own value and the refs; \<open>fresh\<close> is the next object
  identity and \<open>history\<close> counts the navigations. One render runs the first effect, then the
  second; the state set by \<open>onRead\<close> and the query a navigation changes show on the next render.
\<close>

record 'v page =
  query :: params
  val :: "nat \<times> 'v"
  refs :: page_refs
  fresh :: nat
  navigations :: "navigation list"

fun nav_query :: "navigation \<Rightarrow> params" where
  "nav_query (Push q) = q"
| "nav_query (Replace q) = q"

definition render ::
  "(params \<Rightarrow> 'v) \<Rightarrow> ('v \<Rightarrow> params) \<Rightarrow> (params \<Rightarrow> params \<Rightarrow> bool) \<Rightarrow> 'v page \<Rightarrow> 'v page" where
  "render rd wr pushes p =
     (let (r1, got) = query_effect rd wr (query p) (refs p);
          (r2, nav) = value_effect wr pushes (val p) r1
      in p\<lparr>refs := r2,
           val := (case got of None \<Rightarrow> val p | Some v \<Rightarrow> (fresh p, v)),
           fresh := (case got of None \<Rightarrow> fresh p | Some _ \<Rightarrow> Suc (fresh p)),
           query := (case nav of None \<Rightarrow> query p | Some n \<Rightarrow> nav_query n),
           navigations := (case nav of None \<Rightarrow> navigations p | Some n \<Rightarrow> navigations p @ [n])\<rparr>)"

definition mount :: "(params \<Rightarrow> 'v) \<Rightarrow> ('v \<Rightarrow> params) \<Rightarrow> params \<Rightarrow> 'v page" where
  "mount rd wr q = \<lparr>query = q, val = (0, rd q),
     refs = \<lparr>written = wr (rd q), seen_query = q, seen_value = 0\<rparr>, fresh = 1, navigations = []\<rparr>"

text \<open>What happens to a page: the router moves (Back, Forward, a link) or the reader changes it.\<close>

datatype 'v page_event = Move params | Change 'v

fun apply_event :: "'v page \<Rightarrow> 'v page_event \<Rightarrow> 'v page" where
  "apply_event p (Move q) = p\<lparr>query := q\<rparr>"
| "apply_event p (Change v) = p\<lparr>val := (fresh p, v), fresh := Suc (fresh p)\<rparr>"

text \<open>The event, then the renders it causes: two settle the page, as the interface proves.\<close>

definition page_step ::
  "(params \<Rightarrow> 'v) \<Rightarrow> ('v \<Rightarrow> params) \<Rightarrow> (params \<Rightarrow> params \<Rightarrow> bool) \<Rightarrow> 'v page \<Rightarrow> 'v page_event \<Rightarrow> 'v page" where
  "page_step rd wr pushes p e = render rd wr pushes (render rd wr pushes (apply_event p e))"

definition page_run ::
  "(params \<Rightarrow> 'v) \<Rightarrow> ('v \<Rightarrow> params) \<Rightarrow> (params \<Rightarrow> params \<Rightarrow> bool) \<Rightarrow> 'v page \<Rightarrow> 'v page_event list \<Rightarrow> 'v page" where
  "page_run rd wr pushes p es = foldl (page_step rd wr pushes) p es"

text \<open>In step: nothing left for an effect to do, and the query reads back to the value's own URL.\<close>

definition in_step :: "(params \<Rightarrow> 'v) \<Rightarrow> ('v \<Rightarrow> params) \<Rightarrow> 'v page \<Rightarrow> bool" where
  "in_step rd wr p \<longleftrightarrow>
     seen_query (refs p) = query p \<and> seen_value (refs p) = fst (val p) \<and> fst (val p) < fresh p \<and>
     written (refs p) = wr (snd (val p)) \<and> wr (rd (query p)) = wr (snd (val p))"

text \<open>The changes a page makes keep its values among those its URL can carry.\<close>

fun event_ok :: "('v \<Rightarrow> bool) \<Rightarrow> 'v page_event \<Rightarrow> bool" where
  "event_ok ok (Move q) = True"
| "event_ok ok (Change v) = ok v"

section \<open>The interface of a page URL\<close>

locale page_url =
  fixes rd :: "params \<Rightarrow> 'v" and wr :: "'v \<Rightarrow> params" and ok :: "'v \<Rightarrow> bool"
  assumes ok_read: "ok (rd q)"
    and write_read_write: "ok v \<Longrightarrow> wr (rd (wr v)) = wr v"
begin

lemma write_stable: "wr (rd (wr (rd q))) = wr (rd q)"
  by (simp add: write_read_write ok_read)

lemma in_step_mount: "in_step rd wr (mount rd wr q)"
  by (simp add: in_step_def mount_def)

lemma render_in_step: "in_step rd wr p \<Longrightarrow> render rd wr pushes p = p"
  by (simp add: in_step_def render_def query_effect_def value_effect_def)

text \<open>A move reads the new URL and navigates nowhere.\<close>

lemma step_Move:
  fixes q :: params and pushes :: "params \<Rightarrow> params \<Rightarrow> bool"
  assumes "in_step rd wr p" and "ok (snd (val p))"
  defines "p' \<equiv> page_step rd wr pushes p (Move q)"
  shows "in_step rd wr p'" and "ok (snd (val p'))" and "query p' = q"
    and "navigations p' = navigations p" and "wr (snd (val p')) = wr (rd q)"
  using assms(1,2) ok_read [of q] unfolding p'_def
  by (auto simp: in_step_def page_step_def render_def query_effect_def value_effect_def Let_def)

text \<open>A change writes the value's URL, once, and never reads it back.\<close>

lemma step_Change:
  fixes pushes :: "params \<Rightarrow> params \<Rightarrow> bool"
  assumes "in_step rd wr p" and "ok v"
  defines "p' \<equiv> page_step rd wr pushes p (Change v)"
  shows "in_step rd wr p'" and "snd (val p') = v"
    and "navigations p' = (if wr v = wr (snd (val p)) then navigations p
      else navigations p @ [if pushes (wr (snd (val p))) (wr v) then Push (wr v) else Replace (wr v)])"
    and "query p' = (if wr v = wr (snd (val p)) then query p else wr v)"
  using assms(1) write_read_write [OF assms(2)] unfolding p'_def
  by (auto simp: in_step_def page_step_def render_def query_effect_def value_effect_def Let_def)

lemma step_in_step:
  assumes "in_step rd wr p" "ok (snd (val p))" "event_ok ok e"
  shows "in_step rd wr (page_step rd wr pushes p e) \<and> ok (snd (val (page_step rd wr pushes p e)))"
proof (cases e)
  case (Move q)
  with assms step_Move show ?thesis by simp
next
  case (Change v)
  with assms step_Change [of p v pushes] show ?thesis by simp
qed

lemma run_in_step:
  assumes "in_step rd wr p" "ok (snd (val p))" "list_all (event_ok ok) es"
  shows "in_step rd wr (page_run rd wr pushes p es)"
  using assms
proof (induction es arbitrary: p)
  case (Cons e es)
  then show ?case
    using step_in_step [of p e pushes] by (simp add: page_run_def)
qed (simp add: page_run_def)

lemma run_from_mount:
  assumes "list_all (event_ok ok) es"
  shows "in_step rd wr (page_run rd wr pushes (mount rd wr q) es)"
  by (rule run_in_step [OF in_step_mount _ assms]) (simp add: mount_def ok_read)

end

section \<open>The three pages\<close>

interpretation feed_url: page_url feed_page_read feed_page_write approver_ok
proof unfold_locales
  show "approver_ok (feed_page_read q)" for q
    using approver_ok_read [of q] by (simp add: feed_page_read_def approver_ok_def)
qed (rule feed_write_read_write)

interpretation search_url: page_url search_page_read search_page_write search_page_ok
  by unfold_locales (rule search_page_ok_read, rule search_write_read_write)

interpretation requests_url: page_url requests_page_read requests_page_write requests_page_ok
  by unfold_locales
    (simp add: requests_page_ok_def requests_page_read_def, rule requests_write_read_write)

section \<open>Properties\<close>



text \<open>
  The feed's URL carries the feed's filters: what is written reads back in canonical form with
  the Following switch kept, and writing that gives the same URL again.
\<close>

theorem feed_url_round_trip:
  assumes "approver_ok f"
  shows "feed_page_read (feed_page_write f) = (canon f)\<lparr>f_following := f_following f\<rparr> \<and>
    feed_page_write (feed_page_read (feed_page_write f)) = feed_page_write f"
  using feed_read_write feed_url.write_read_write [OF assms] by simp

theorem feed_url_round_trip_witness:
  "feed_page_read (feed_page_write (EMPTY_FILTERS\<lparr>f_tags := [''a b'']\<rparr>)) =
     (canon (EMPTY_FILTERS\<lparr>f_tags := [''a b'']\<rparr>))\<lparr>f_following := False\<rparr> \<and>
   feed_page_write (feed_page_read (feed_page_write (EMPTY_FILTERS\<lparr>f_tags := [''a b'']\<rparr>))) =
     feed_page_write (EMPTY_FILTERS\<lparr>f_tags := [''a b'']\<rparr>)"
proof -
  have ok: "approver_ok (EMPTY_FILTERS\<lparr>f_tags := [''a b'']\<rparr>)" by (simp add: approver_ok_def)
  have off: "f_following (EMPTY_FILTERS\<lparr>f_tags := [''a b'']\<rparr>) = False" by simp
  show ?thesis by (rule feed_url_round_trip [OF ok, unfolded off])
qed

text \<open>
  C2. The search page and its URL stay in step. From any URL, after any sequence of moves (Back,
  Forward, links) and of changes to states the URL can carry, two renders leave nothing for an
  effect to do, and the URL reads back to a state that writes the same URL as the page's.
\<close>

theorem search_page_stays_in_step:
  assumes "list_all (event_ok search_page_ok) es"
  shows "in_step search_page_read search_page_write
    (page_run search_page_read search_page_write pushes (mount search_page_read search_page_write q) es)"
  using assms by (rule search_url.run_from_mount)

theorem search_page_stays_in_step_witness:
  "in_step search_page_read search_page_write
    (page_run search_page_read search_page_write (\<lambda>_ _. False)
       (mount search_page_read search_page_write [(''q'', ''dam'')]) [Change ([], EMPTY_FILTERS), Move []])"
  by (rule search_page_stays_in_step)
    (simp add: search_page_ok_def pick_ok_def approver_ok_def)

text \<open>
  A URL the reader moves to is never rewritten: on a settled feed a move changes the value to
  what the URL reads, leaves the URL itself as it is and navigates nowhere.
\<close>

theorem feed_move_never_navigates:
  assumes "in_step feed_page_read feed_page_write p" and "approver_ok (snd (val p))"
  shows "query (page_step feed_page_read feed_page_write pushes p (Move q)) = q \<and>
    navigations (page_step feed_page_read feed_page_write pushes p (Move q)) = navigations p \<and>
    feed_page_write (snd (val (page_step feed_page_read feed_page_write pushes p (Move q)))) =
      feed_page_write (feed_page_read q)"
  using feed_url.step_Move(3-5) [OF assms] by blast

theorem feed_move_never_navigates_witness:
  "navigations (page_step feed_page_read feed_page_write (\<lambda>_ _. False)
     (mount feed_page_read feed_page_write []) (Move [(''tag'', ''x'')])) = []"
  using feed_move_never_navigates [OF feed_url.in_step_mount [of "[]"], of "\<lambda>_ _. False" "[(''tag'', ''x'')]"]
    feed_url.ok_read [of "[]"]
  by (simp add: mount_def)

text \<open>
  A URL that names a status twice does not survive a rewrite: \<open>searchPageParams\<close> takes any
  pick of three event chips for every status, so a pick read from such a URL goes out as
  \<open>type=event\<close> and comes back with a status the URL never named.
\<close>

theorem search_url_repeated_status_widens:
  "let v = search_page_read [(''status'', ''requested''), (''status'', ''requested''), (''status'', ''detected'')]
   in set (f_show (snd v)) = {''requested'', ''detected''} \<and>
      ''geolocated'' \<in> set (f_show (snd (search_page_read (search_page_write v))))"
proof -
  let ?ps = "[(''status'', ''requested''), (''status'', ''requested''), (''status'', ''detected'')]"
  let ?f = "snd (search_page_read ?ps)"
  have pick: "f_show ?f = [''requested'', ''requested'', ''detected'']"
    by (simp add: search_page_read_def f_show_scope_state keep_if_def show_offered_search
        read_show_pick_def params_get_all_def is_status_def FILTER_STATUSES_def EVENT_STATUSES_def
        EVENT_TYPE_def SHOW_KINDS_def)
  have "every_status (f_show ?f)"
    unfolding pick by (simp add: every_status_iff split_show_def is_status_def FILTER_STATUSES_def
        EVENT_STATUSES_def SHOW_KINDS_def)
  then have "f_show (snd (search_page_read (search_page_write (search_page_read ?ps)))) = FILTER_STATUSES"
    using search_read_write_ok [of "fst (search_page_read ?ps)" ?f] search_page_ok_read [of ?ps]
    by (simp add: canon_pick_def)
  with pick show ?thesis
    by (simp add: Let_def FILTER_STATUSES_def EVENT_STATUSES_def insert_commute)
qed

end
