(* ===== verification/Preferences.thy ===== *)
theory Preferences
  imports Js_Text
begin

text \<open>
  \<open>lib/attributePreference.ts\<close>, \<open>lib/theme.ts\<close>, \<open>lib/palette.ts\<close>, \<open>lib/helpPreference.ts\<close> and
  \<open>lib/preferences.ts\<close>: the display preferences, saved in the browser as a cache the account owns
  and reconciled with the values the account has on the server. A window is the local storage, the
  attributes of the root element and the events dispatched; \<open>None\<close> is the server, where reads answer
  the fallback and writes do nothing.
\<close>

section \<open>One attribute preference\<close>

record browser =
  br_local :: "jsstring \<rightharpoonup> jsstring"
  br_dataset :: "jsstring \<rightharpoonup> jsstring"
  br_events :: "jsstring list"

type_synonym client = "browser option"

record attribute_config =
  ac_key :: jsstring
  ac_attribute :: jsstring
  ac_event :: jsstring
  ac_fallback :: jsstring
  ac_valid :: "jsstring option \<Rightarrow> bool"

definition set_local :: "jsstring \<Rightarrow> jsstring \<Rightarrow> browser \<Rightarrow> browser" where
  "set_local k v b = b\<lparr>br_local := (br_local b)(k \<mapsto> v)\<rparr>"

definition remove_local :: "jsstring \<Rightarrow> browser \<Rightarrow> browser" where
  "remove_local k b = b\<lparr>br_local := (br_local b)(k := None)\<rparr>"

definition dispatch :: "jsstring \<Rightarrow> browser \<Rightarrow> browser" where
  "dispatch e b = b\<lparr>br_events := br_events b @ [e]\<rparr>"

definition attr_saved :: "attribute_config \<Rightarrow> client \<Rightarrow> jsstring option" where
  "attr_saved cfg w = (case w of None \<Rightarrow> None
     | Some b \<Rightarrow> (let stored = br_local b (ac_key cfg) in if ac_valid cfg stored then stored else None))"

definition attr_get :: "attribute_config \<Rightarrow> client \<Rightarrow> jsstring" where
  "attr_get cfg w = (case attr_saved cfg w of Some v \<Rightarrow> v | None \<Rightarrow> ac_fallback cfg)"

definition attr_apply :: "attribute_config \<Rightarrow> jsstring \<Rightarrow> browser \<Rightarrow> browser" where
  "attr_apply cfg value b = b\<lparr>br_dataset := (br_dataset b)(ac_attribute cfg \<mapsto> value)\<rparr>"

definition attr_set :: "attribute_config \<Rightarrow> jsstring \<Rightarrow> client \<Rightarrow> client" where
  "attr_set cfg value w = map_option (\<lambda>b. dispatch (ac_event cfg) (attr_apply cfg value (set_local (ac_key cfg) value b))) w"

definition attr_clear :: "attribute_config \<Rightarrow> client \<Rightarrow> client" where
  "attr_clear cfg w = map_option (\<lambda>b. dispatch (ac_event cfg)
     ((remove_local (ac_key cfg) b)\<lparr>br_dataset := (br_dataset b)(ac_attribute cfg := None)\<rparr>)) w"

section \<open>The theme\<close>

definition DEFAULT_THEME :: jsstring where
  "DEFAULT_THEME = ''dark''"

definition THEME_EVENT :: jsstring where
  "THEME_EVENT = ''vidit:theme-changed''"

definition is_theme_id :: "jsstring option \<Rightarrow> bool" where
  "is_theme_id value \<longleftrightarrow> value = Some ''dark'' \<or> value = Some ''light''"

definition theme_pref :: attribute_config where
  "theme_pref = \<lparr>ac_key = ''vidit:theme'', ac_attribute = ''theme'', ac_event = THEME_EVENT,
     ac_fallback = DEFAULT_THEME, ac_valid = is_theme_id\<rparr>"

section \<open>The palette\<close>

record map_colors =
  mc_base :: jsstring
  mc_ramp_mid :: jsstring
  mc_ramp_high :: jsstring
  mc_detected :: jsstring

record palette_option =
  po_id :: jsstring
  po_label :: jsstring
  po_swatch :: jsstring
  po_map :: map_colors

definition PALETTES :: "palette_option list" where
  "PALETTES =
    [\<lparr>po_id = ''orange'', po_label = ''Orange'', po_swatch = ''#f97316'',
       po_map = \<lparr>mc_base = ''#f97316'', mc_ramp_mid = ''#ea580c'', mc_ramp_high = ''#c2410c'', mc_detected = ''#fdba74''\<rparr>\<rparr>,
     \<lparr>po_id = ''blue'', po_label = ''Blue'', po_swatch = ''#3b82f6'',
       po_map = \<lparr>mc_base = ''#3b82f6'', mc_ramp_mid = ''#2563eb'', mc_ramp_high = ''#1d4ed8'', mc_detected = ''#93c5fd''\<rparr>\<rparr>,
     \<lparr>po_id = ''emerald'', po_label = ''Emerald'', po_swatch = ''#10b981'',
       po_map = \<lparr>mc_base = ''#10b981'', mc_ramp_mid = ''#059669'', mc_ramp_high = ''#047857'', mc_detected = ''#6ee7b7''\<rparr>\<rparr>,
     \<lparr>po_id = ''violet'', po_label = ''Violet'', po_swatch = ''#8b5cf6'',
       po_map = \<lparr>mc_base = ''#8b5cf6'', mc_ramp_mid = ''#7c3aed'', mc_ramp_high = ''#6d28d9'', mc_detected = ''#c4b5fd''\<rparr>\<rparr>,
     \<lparr>po_id = ''rose'', po_label = ''Rose'', po_swatch = ''#f43f5e'',
       po_map = \<lparr>mc_base = ''#f43f5e'', mc_ramp_mid = ''#e11d48'', mc_ramp_high = ''#be123c'', mc_detected = ''#fda4af''\<rparr>\<rparr>]"

definition DEFAULT_PALETTE :: jsstring where
  "DEFAULT_PALETTE = ''orange''"

definition PALETTE_EVENT :: jsstring where
  "PALETTE_EVENT = ''vidit:palette-changed''"

definition is_palette_id :: "jsstring option \<Rightarrow> bool" where
  "is_palette_id value \<longleftrightarrow> (case value of None \<Rightarrow> False | Some v \<Rightarrow> list_ex (\<lambda>p. po_id p = v) PALETTES)"

definition palette_pref :: attribute_config where
  "palette_pref = \<lparr>ac_key = ''vidit:palette'', ac_attribute = ''palette'', ac_event = PALETTE_EVENT,
     ac_fallback = DEFAULT_PALETTE, ac_valid = is_palette_id\<rparr>"

definition palette_map_colors :: "jsstring \<Rightarrow> map_colors" where
  "palette_map_colors i = po_map (case find (\<lambda>p. po_id p = i) PALETTES of Some p \<Rightarrow> p | None \<Rightarrow> hd PALETTES)"

section \<open>The field help\<close>

definition HELP_KEY :: jsstring where
  "HELP_KEY = ''vidit:help-hidden''"

definition HELP_PREF_EVENT :: jsstring where
  "HELP_PREF_EVENT = ''vidit:help-hidden-changed''"

definition get_help_hidden :: "client \<Rightarrow> bool" where
  "get_help_hidden w \<longleftrightarrow> (case w of None \<Rightarrow> False | Some b \<Rightarrow> br_local b HELP_KEY = Some ''1'')"

definition get_saved_help_hidden :: "client \<Rightarrow> bool option" where
  "get_saved_help_hidden w = (case w of None \<Rightarrow> None
     | Some b \<Rightarrow> (let stored = br_local b HELP_KEY
         in if stored = Some ''1'' then Some True else if stored = Some ''0'' then Some False else None))"

definition clear_help_hidden :: "client \<Rightarrow> client" where
  "clear_help_hidden w = map_option (\<lambda>b. dispatch HELP_PREF_EVENT (remove_local HELP_KEY b)) w"

definition set_help_hidden :: "bool \<Rightarrow> client \<Rightarrow> client" where
  "set_help_hidden hidden w =
     map_option (\<lambda>b. dispatch HELP_PREF_EVENT (set_local HELP_KEY (if hidden then ''1'' else ''0'') b)) w"

section \<open>The cache and its owner\<close>

text \<open>\<open>DisplayPreferencesUpdate\<close>: an omitted or null field is \<open>None\<close>.\<close>

record display_values =
  dv_palette :: "jsstring option"
  dv_theme :: "jsstring option"
  dv_help :: "bool option"

definition no_values :: display_values where
  "no_values = \<lparr>dv_palette = None, dv_theme = None, dv_help = None\<rparr>"

definition OWNER_KEY :: jsstring where
  "OWNER_KEY = ''vidit:display-owner''"

definition cache_owner :: "client \<Rightarrow> jsstring option" where
  "cache_owner w = Option.bind w (\<lambda>b. br_local b OWNER_KEY)"

definition claim_cache :: "jsstring \<Rightarrow> client \<Rightarrow> client" where
  "claim_cache user w = map_option (set_local OWNER_KEY user) w"

definition clear_display :: "client \<Rightarrow> client" where
  "clear_display w = map_option (remove_local OWNER_KEY) (clear_help_hidden (attr_clear theme_pref (attr_clear palette_pref w)))"

text \<open>A string value that JavaScript's \<open>if\<close> lets through.\<close>

definition truthy_value :: "jsstring option \<Rightarrow> jsstring option" where
  "truthy_value v = (if v = Some [] then None else v)"

text \<open>The page: its window and the count of local changes.\<close>

record display_page =
  dp_client :: client
  dp_changes :: nat

definition set_values :: "display_values \<Rightarrow> client \<Rightarrow> client" where
  "set_values change w =
     (let w = (case truthy_value (dv_palette change) of Some v \<Rightarrow> attr_set palette_pref v w | None \<Rightarrow> w);
          w = (case truthy_value (dv_theme change) of Some v \<Rightarrow> attr_set theme_pref v w | None \<Rightarrow> w)
      in (case dv_help change of Some shown \<Rightarrow> set_help_hidden (\<not> shown) w | None \<Rightarrow> w))"

text \<open>\<open>saveDisplay\<close>: the page after it, and the change it sends.\<close>

definition save_display :: "jsstring \<Rightarrow> display_values \<Rightarrow> display_page \<Rightarrow> display_page \<times> display_values" where
  "save_display user change pg =
     (\<lparr>dp_client = set_values change (claim_cache user (dp_client pg)), dp_changes = dp_changes pg + 1\<rparr>, change)"

text \<open>
  \<open>syncDisplay\<close> once its answer is there: \<open>started\<close> is the count the pull began with, \<open>stored\<close> what
  the account has saved. The second result is the upload, sent when it holds a value.
\<close>

definition sync_owner :: "jsstring \<Rightarrow> client \<Rightarrow> client" where
  "sync_owner user w = claim_cache user
     (case cache_owner w of Some owner \<Rightarrow> if owner \<noteq> user then clear_display w else w | None \<Rightarrow> w)"

definition sync_upload :: "display_values \<Rightarrow> client \<Rightarrow> display_values" where
  "sync_upload stored w =
     \<lparr>dv_palette = (if truthy_value (dv_palette stored) = None then attr_saved palette_pref w else None),
      dv_theme = (if truthy_value (dv_theme stored) = None then attr_saved theme_pref w else None),
      dv_help = (if dv_help stored = None then map_option Not (get_saved_help_hidden w) else None)\<rparr>"

definition sync_display ::
    "jsstring \<Rightarrow> nat \<Rightarrow> bool \<Rightarrow> display_values option \<Rightarrow> display_page \<Rightarrow> display_page \<times> display_values option" where
  "sync_display user started aborted stored pg = (case stored of
       None \<Rightarrow> (pg, None)
     | Some s \<Rightarrow>
         if aborted \<or> started \<noteq> dp_changes pg then (pg, None)
         else (let w = sync_owner user (dp_client pg); upload = sync_upload s w
               in (pg\<lparr>dp_client := set_values s w\<rparr>, if upload \<noteq> no_values then Some upload else None)))"

section \<open>Reading the storage back\<close>

definition stored_at :: "client \<Rightarrow> jsstring \<Rightarrow> jsstring option" where
  "stored_at w k = Option.bind w (\<lambda>b. br_local b k)"

named_theorems storage_simps \<open>what the storage holds after an operation\<close>

lemma client_none [storage_simps]:
  "attr_set cfg v w = None \<longleftrightarrow> w = None" "attr_clear cfg w = None \<longleftrightarrow> w = None" "claim_cache u w = None \<longleftrightarrow> w = None"
  "set_help_hidden h w = None \<longleftrightarrow> w = None" "clear_help_hidden w = None \<longleftrightarrow> w = None" "clear_display w = None \<longleftrightarrow> w = None"
  by (simp_all add: attr_set_def attr_clear_def claim_cache_def set_help_hidden_def clear_help_hidden_def clear_display_def)

lemma stored_at_ops [storage_simps]:
  "stored_at (attr_set cfg v w) k = (if w \<noteq> None \<and> k = ac_key cfg then Some v else stored_at w k)"
  "stored_at (attr_clear cfg w) k = (if k = ac_key cfg then None else stored_at w k)"
  "stored_at (claim_cache u w) k = (if w \<noteq> None \<and> k = OWNER_KEY then Some u else stored_at w k)"
  "stored_at (set_help_hidden h w) k = (if w \<noteq> None \<and> k = HELP_KEY then Some (if h then ''1'' else ''0'') else stored_at w k)"
  "stored_at (clear_help_hidden w) k = (if k = HELP_KEY then None else stored_at w k)"
  by (cases w; simp add: stored_at_def attr_set_def attr_clear_def claim_cache_def set_help_hidden_def clear_help_hidden_def
      set_local_def remove_local_def dispatch_def attr_apply_def)+

lemma cache_owner_stored: "cache_owner w = stored_at w OWNER_KEY"
  by (simp add: cache_owner_def stored_at_def)

lemma attr_saved_stored: "attr_saved cfg w = Some v \<Longrightarrow> stored_at w (ac_key cfg) = Some v"
  by (auto simp: attr_saved_def stored_at_def Let_def split: option.splits if_splits)

lemma help_saved_stored: "get_saved_help_hidden w = Some h \<Longrightarrow> stored_at w HELP_KEY = Some (if h then ''1'' else ''0'')"
  by (auto simp: get_saved_help_hidden_def stored_at_def Let_def split: option.splits if_splits)

lemma preference_keys [simp]:
  "ac_key theme_pref = ''vidit:theme''" "ac_key palette_pref = ''vidit:palette''"
  by (simp_all add: theme_pref_def palette_pref_def)

lemmas key_defs = HELP_KEY_def OWNER_KEY_def

lemma stored_at_clear_display [storage_simps]:
  "stored_at (clear_display w) k =
     (if k \<in> {''vidit:theme'', ''vidit:palette'', HELP_KEY, OWNER_KEY} then None else stored_at w k)"
proof -
  have "stored_at (map_option (remove_local OWNER_KEY) w') k = (if k = OWNER_KEY then None else stored_at w' k)" for w'
    by (cases w') (simp_all add: stored_at_def remove_local_def)
  then show ?thesis by (auto simp: clear_display_def stored_at_ops)
qed

section \<open>One account's values never reach another\<close>

text \<open>What happens to the cache of one browser, with the account each event is of.\<close>

datatype display_event =
    Save jsstring display_values
  | Sync jsstring nat bool "display_values option"
  | Sign_out

fun display_step :: "display_event \<Rightarrow> display_page \<Rightarrow> display_page" where
  "display_step (Save user change) pg = fst (save_display user change pg)"
| "display_step (Sync user started aborted stored) pg = fst (sync_display user started aborted stored pg)"
| "display_step Sign_out pg = pg\<lparr>dp_client := clear_display (dp_client pg)\<rparr>"

definition display_run :: "display_event list \<Rightarrow> display_page \<Rightarrow> display_page" where
  "display_run es pg = fold display_step es pg"

text \<open>The values an account chose or had stored.\<close>

fun own_values :: "jsstring \<Rightarrow> display_event list \<Rightarrow> display_values list" where
  "own_values user [] = []"
| "own_values user (Save u change # es) = (if u = user then change # own_values user es else own_values user es)"
| "own_values user (Sync u _ _ (Some s) # es) = (if u = user then s # own_values user es else own_values user es)"
| "own_values user (_ # es) = own_values user es"

lemma own_values_append: "own_values user (es @ fs) = own_values user es @ own_values user fs"
  by (induction user es rule: own_values.induct) simp_all

text \<open>No change is saved over the cache of another account.\<close>

fun saves_own :: "display_event list \<Rightarrow> display_page \<Rightarrow> bool" where
  "saves_own [] pg = True"
| "saves_own (e # es) pg =
     ((case e of Save user _ \<Rightarrow> cache_owner (dp_client pg) = None \<or> cache_owner (dp_client pg) = Some user | _ \<Rightarrow> True) \<and>
      saves_own es (display_step e pg))"

text \<open>Each cached value is one of the given values, and so is the owner's.\<close>

definition holds_only :: "display_values list \<Rightarrow> client \<Rightarrow> bool" where
  "holds_only vs w \<longleftrightarrow>
     (\<forall>v. stored_at w ''vidit:palette'' = Some v \<longrightarrow> Some v \<in> dv_palette ` set vs) \<and>
     (\<forall>v. stored_at w ''vidit:theme'' = Some v \<longrightarrow> Some v \<in> dv_theme ` set vs) \<and>
     (\<forall>v. stored_at w HELP_KEY = Some v \<longrightarrow> Some (v = ''0'') \<in> dv_help ` set vs)"

definition cache_is_own :: "display_event list \<Rightarrow> client \<Rightarrow> bool" where
  "cache_is_own es w \<longleftrightarrow> holds_only (case cache_owner w of Some user \<Rightarrow> own_values user es | None \<Rightarrow> []) w"

lemma holds_only_mono: "holds_only vs w \<Longrightarrow> set vs \<subseteq> set us \<Longrightarrow> holds_only us w"
  unfolding holds_only_def by (meson image_mono subsetD)

lemma truthy_value_Some: "truthy_value x = Some v \<Longrightarrow> x = Some v"
  by (auto simp: truthy_value_def split: if_splits)

lemma set_values_holds:
  assumes "holds_only vs w" "s \<in> set vs"
  shows "holds_only vs (set_values s w)"
  using assms unfolding holds_only_def set_values_def Let_def
  by (auto simp: storage_simps key_defs image_iff split: option.splits dest!: truthy_value_Some) metis+

lemma set_values_owner: "cache_owner (set_values s w) = cache_owner w"
  by (simp add: cache_owner_stored set_values_def Let_def storage_simps key_defs split: option.splits)

lemma claim_holds: "holds_only vs (claim_cache u w) = holds_only vs w"
  by (simp add: holds_only_def storage_simps key_defs)

lemma cleared_holds: "holds_only vs (clear_display w)"
  by (simp add: holds_only_def storage_simps)

lemma claim_owner: "cache_owner (claim_cache u w) = (if w = None then None else Some u)"
  by (cases w) (simp_all add: cache_owner_def claim_cache_def set_local_def)

lemma sync_owner_holds:
  assumes "cache_is_own es w"
  shows "holds_only (own_values user es) (sync_owner user w)"
  using assms by (cases "cache_owner w")
    (auto simp: cache_is_own_def sync_owner_def claim_holds cleared_holds intro: holds_only_mono)

lemma sync_owner_owner: "cache_owner (sync_owner user w) = (if w = None then None else Some user)"
  by (simp add: sync_owner_def claim_owner client_none split: option.split) (auto simp: cache_owner_def)

lemma no_client_holds: "holds_only vs None"
  by (simp add: holds_only_def stored_at_def)

lemma set_values_None [simp]: "set_values s w = None \<longleftrightarrow> w = None"
  by (simp add: set_values_def Let_def storage_simps split: option.split)

lemma sync_owner_None [simp]: "sync_owner user w = None \<longleftrightarrow> w = None"
  by (simp add: sync_owner_def storage_simps split: option.split)

lemma cache_is_ownI:
  "holds_only (own_values user es) w \<Longrightarrow> cache_owner w = (if w = None then None else Some user) \<Longrightarrow> cache_is_own es w"
  by (cases w) (simp_all add: cache_is_own_def no_client_holds)

lemma own_snoc:
  "own_values user (es @ [Save user change]) = own_values user es @ [change]"
  "own_values user (es @ [Sync user st ab (Some s)]) = own_values user es @ [s]"
  by (simp_all add: own_values_append)

lemma cache_is_own_more: "cache_is_own es w \<Longrightarrow> cache_is_own (es @ fs) w"
  unfolding cache_is_own_def by (rule holds_only_mono) (auto simp: own_values_append split: option.split)

lemma step_keeps_own:
  assumes own: "cache_is_own es (dp_client pg)" and "saves_own [e] pg"
  shows "cache_is_own (es @ [e]) (dp_client (display_step e pg))"
proof (cases e)
  case (Save user change)
  let ?w = "dp_client pg"
  have "holds_only (own_values user es) (claim_cache user ?w)"
    using own assms(2) Save by (auto simp: cache_is_own_def claim_holds intro: holds_only_mono)
  then have "holds_only (own_values user (es @ [e])) (set_values change (claim_cache user ?w))"
    unfolding Save own_snoc by (intro set_values_holds) (auto intro: holds_only_mono)
  then show ?thesis unfolding Save
    by (simp add: save_display_def cache_is_ownI set_values_owner claim_owner client_none)
next
  case (Sync user started aborted stored)
  show ?thesis
  proof (cases "stored = None \<or> aborted \<or> started \<noteq> dp_changes pg")
    case True
    then show ?thesis using own Sync by (auto simp: sync_display_def cache_is_own_more split: option.splits)
  next
    case False
    then obtain s where s: "stored = Some s" by auto
    have "holds_only (own_values user (es @ [e])) (set_values s (sync_owner user (dp_client pg)))"
      unfolding Sync s own_snoc using sync_owner_holds [OF own, of user]
      by (intro set_values_holds) (auto intro: holds_only_mono)
    then show ?thesis using False s unfolding Sync
      by (simp add: sync_display_def Let_def cache_is_ownI set_values_owner sync_owner_owner)
  qed
next
  case Sign_out
  then show ?thesis
    by (simp add: cache_is_own_def cache_owner_stored storage_simps cleared_holds)
qed

lemma run_keeps_own:
  assumes "cache_is_own hs (dp_client pg)" "saves_own es pg"
  shows "cache_is_own (hs @ es) (dp_client (display_run es pg))"
  using assms
proof (induction es arbitrary: hs pg)
  case Nil
  then show ?case by (simp add: display_run_def)
next
  case (Cons e es)
  then show ?case using step_keeps_own [of hs pg e] Cons.IH [of "hs @ [e]" "display_step e pg"]
    by (simp add: display_run_def)
qed

definition new_browser :: display_page where
  "new_browser = \<lparr>dp_client = Some \<lparr>br_local = (\<lambda>_. None), br_dataset = (\<lambda>_. None), br_events = []\<rparr>, dp_changes = 0\<rparr>"

lemma new_browser_own: "cache_is_own [] (dp_client new_browser)"
  by (simp add: cache_is_own_def holds_only_def new_browser_def stored_at_def cache_owner_def)

lemma upload_holds:
  assumes "holds_only vs w"
  shows "dv_palette (sync_upload s w) \<in> insert None (dv_palette ` set vs)"
    "dv_theme (sync_upload s w) \<in> insert None (dv_theme ` set vs)"
    "dv_help (sync_upload s w) \<in> insert None (dv_help ` set vs)"
proof -
  show "dv_palette (sync_upload s w) \<in> insert None (dv_palette ` set vs)"
    using assms attr_saved_stored [of palette_pref w] by (cases "attr_saved palette_pref w") (auto simp: sync_upload_def holds_only_def)
  show "dv_theme (sync_upload s w) \<in> insert None (dv_theme ` set vs)"
    using assms attr_saved_stored [of theme_pref w] by (cases "attr_saved theme_pref w") (auto simp: sync_upload_def holds_only_def)
  show "dv_help (sync_upload s w) \<in> insert None (dv_help ` set vs)"
    using assms help_saved_stored [of w] by (cases "get_saved_help_hidden w") (auto simp: sync_upload_def holds_only_def split: if_splits)
qed

text \<open>
  C13. One account's display values never reach another on a shared browser: whatever accounts save,
  sync and sign out, as long as no change is saved over another account's cache, the values a sync
  uploads for an account are ones that account chose or had stored.
\<close>

theorem upload_is_own_choice:
  assumes "saves_own es new_browser"
    and "sync_display user started aborted stored (display_run es new_browser) = (pg, Some upload)"
  shows "dv_palette upload \<in> insert None (dv_palette ` set (own_values user es)) \<and>
    dv_theme upload \<in> insert None (dv_theme ` set (own_values user es)) \<and>
    dv_help upload \<in> insert None (dv_help ` set (own_values user es))"
proof -
  obtain s where "upload = sync_upload s (sync_owner user (dp_client (display_run es new_browser)))"
    using assms(2) by (auto simp: sync_display_def Let_def split: option.splits if_splits)
  then show ?thesis
    using upload_holds sync_owner_holds [OF run_keeps_own [OF new_browser_own assms(1)]] by simp
qed

text \<open>Two accounts on one browser: the second sync clears the first account's choice.\<close>

abbreviation blue_choice :: display_values where
  "blue_choice \<equiv> no_values\<lparr>dv_palette := Some ''blue''\<rparr>"

abbreviation light_choice :: display_values where
  "light_choice \<equiv> no_values\<lparr>dv_theme := Some ''light''\<rparr>"

abbreviation two_accounts :: "display_event list" where
  "two_accounts \<equiv> [Save ''ana'' blue_choice, Sync ''bo'' 1 False (Some no_values), Save ''bo'' light_choice]"

lemmas display_defs = sync_display_def save_display_def set_values_def sync_upload_def sync_owner_def new_browser_def
  display_run_def no_values_def truthy_value_def attr_saved_def attr_set_def attr_clear_def clear_display_def
  claim_cache_def cache_owner_def theme_pref_def palette_pref_def is_theme_id_def is_palette_id_def PALETTES_def
  set_help_hidden_def clear_help_hidden_def get_saved_help_hidden_def set_local_def remove_local_def dispatch_def
  attr_apply_def key_defs

lemma two_accounts_upload:
  "snd (sync_display ''bo'' 2 False (Some no_values) (display_run two_accounts new_browser)) = Some light_choice"
  by (simp add: display_defs)

lemma upload_is_own_choice_witness:
  "dv_palette light_choice = None \<and> Some ''light'' \<in> insert None (dv_theme ` set (own_values ''bo'' two_accounts))"
proof -
  have "saves_own two_accounts new_browser" by (simp add: display_defs)
  from upload_is_own_choice [OF this, of "''bo''" 2 False "Some no_values" _ light_choice]
  show ?thesis using two_accounts_upload by (simp add: prod_eq_iff no_values_def)
qed

text \<open>
  Without the condition the cache crosses over: an account that saves a change before its first sync
  takes the cache over with the other account's values in it, and the next sync uploads them.
\<close>

lemma early_save_adopts_cache:
  "snd (sync_display ''bo'' 0 False (Some light_choice)
     ((display_run [Save ''ana'' blue_choice, Save ''bo'' light_choice] new_browser)\<lparr>dp_changes := 0\<rparr>)) = Some blue_choice"
  by (simp add: display_defs)

text \<open>A local change is never undone by a pull that started before it.\<close>

lemma late_pull_changes_nothing:
  "started \<le> dp_changes pg \<Longrightarrow> fst (sync_display user started aborted stored (fst (save_display u change pg))) = fst (save_display u change pg)"
  by (simp add: sync_display_def save_display_def split: option.split)

end
