(* ===== verification/Private_Address.thy ===== *)
theory Private_Address
  imports Js_Text Js_Stringify "HOL-Library.Word"
begin

text \<open>
  The address guard of the share cards (\<open>isPrivateAddress\<close> of \<open>lib/og.ts\<close>): which addresses a picture may
  be fetched from. The octets and groups are read off the text as the code does; the groups are 16-bit
  words, tested with the code's masks. The verdict is compared with the address ranges themselves.
\<close>

section \<open>Version 4\<close>

definition octet_part :: "jsstring \<Rightarrow> nat option" where
  "octet_part p = (if p \<noteq> [] \<and> length p \<le> 3 \<and> list_all is_digit p \<and> digits_value p \<le> 255 then Some (digits_value p) else None)"

fun all_some :: "'a option list \<Rightarrow> 'a list option" where
  "all_some [] = Some []"
| "all_some (x # xs) = (case (x, all_some xs) of (Some y, Some ys) \<Rightarrow> Some (y # ys) | _ \<Rightarrow> None)"

definition ipv4_octets :: "jsstring \<Rightarrow> nat list option" where
  "ipv4_octets address = (let parts = split_char CHR ''.'' address in
     if length parts \<noteq> 4 then None else all_some (map octet_part parts))"

definition private_octets :: "nat \<Rightarrow> nat \<Rightarrow> bool" where
  "private_octets a b \<longleftrightarrow> a = 0 \<or> a = 127 \<or> a = 10 \<or> (a = 100 \<and> 64 \<le> b \<and> b \<le> 127) \<or> (a = 169 \<and> b = 254) \<or>
     (a = 172 \<and> 16 \<le> b \<and> b \<le> 31) \<or> (a = 192 \<and> b = 168) \<or> 224 \<le> a"

definition is_private_ipv4 :: "jsstring \<Rightarrow> bool" where
  "is_private_ipv4 address = (case ipv4_octets address of Some (a # b # _) \<Rightarrow> private_octets a b | _ \<Rightarrow> True)"

section \<open>Version 6\<close>

text \<open>\<open>split("::")\<close>\<close>

fun split_pair :: "char \<Rightarrow> jsstring \<Rightarrow> jsstring list" where
  "split_pair c (x # y # s) = (if x = c \<and> y = c then [] # split_pair c s
     else (case split_pair c (y # s) of p # ps \<Rightarrow> (x # p) # ps | [] \<Rightarrow> [[x]]))"
| "split_pair c s = [s]"

definition hex_char :: "char \<Rightarrow> bool" where
  "hex_char c \<longleftrightarrow> is_digit c \<or> c \<in> set ''abcdef''"

definition hex_digit_value :: "char \<Rightarrow> nat" where
  "hex_digit_value c = (if is_digit c then digit_value c else of_char c - 87)"

definition hex_number :: "jsstring \<Rightarrow> nat" where
  "hex_number p = foldl (\<lambda>n c. 16 * n + hex_digit_value c) 0 p"

definition group_part :: "jsstring \<Rightarrow> 16 word option" where
  "group_part p = (if p \<noteq> [] \<and> length p \<le> 4 \<and> list_all hex_char p then Some (of_nat (hex_number p)) else None)"

definition parse_groups :: "jsstring \<Rightarrow> 16 word list option" where
  "parse_groups part = (if part = [] then Some [] else all_some (map group_part (split_char CHR '':'' part)))"

definition ipv6_groups :: "jsstring \<Rightarrow> 16 word list option" where
  "ipv6_groups address = (let halves = split_pair CHR '':'' address in
     if 2 < length halves then None
     else (case (parse_groups (halves ! 0), if length halves = 2 then parse_groups (halves ! 1) else Some []) of
         (Some first, Some rest) \<Rightarrow>
           if length halves = 1 then (if length first = 8 then Some first else None)
           else if 8 < length first + length rest + 1 then None
           else Some (first @ replicate (8 - length first - length rest) 0 @ rest)
       | _ \<Rightarrow> None))"

unbundle bit_operations_syntax

definition high_byte :: "16 word \<Rightarrow> nat" where
  "high_byte g = unat (drop_bit 8 g)"

definition low_byte :: "16 word \<Rightarrow> nat" where
  "low_byte g = unat (g AND 0xff)"

definition private_groups :: "16 word list \<Rightarrow> bool" where
  "private_groups gs =
     (if list_all (\<lambda>g. g = 0) (take 5 gs) \<and> gs ! 5 = 0xffff
      then is_private_ipv4 (js_join ''.'' (map nat_text [high_byte (gs ! 6), low_byte (gs ! 6), high_byte (gs ! 7), low_byte (gs ! 7)]))
      else list_all (\<lambda>g. g = 0) gs \<or> (list_all (\<lambda>g. g = 0) (take 7 gs) \<and> gs ! 7 = 1) \<or>
        gs ! 0 AND 0xfe00 = 0xfc00 \<or> gs ! 0 AND 0xffc0 = 0xfe80 \<or> gs ! 0 AND 0xff00 = 0xff00)"

definition is_private_ipv6 :: "jsstring \<Rightarrow> bool" where
  "is_private_ipv6 address =
     (let tail_from = (case last_index CHR '':'' address of Some i \<Rightarrow> Suc i | None \<Rightarrow> 0); tail = drop tail_from address
      in if CHR ''.'' \<in> set tail
         then ipv6_groups (take tail_from address @ ''0'') = None \<or> is_private_ipv4 tail
         else (case ipv6_groups address of None \<Rightarrow> True | Some gs \<Rightarrow> private_groups gs))"

definition is_private_address :: "jsstring \<Rightarrow> bool" where
  "is_private_address address =
     (let value = js_lower (js_trim address) in
      if value = [] then True
      else (let bare = hd (split_char CHR ''%'' value)
        in if CHR '':'' \<in> set bare then is_private_ipv6 bare else is_private_ipv4 bare))"

section \<open>The ranges\<close>

text \<open>An address as a number, and a range by its first address and the length of its prefix.\<close>

definition in_range :: "nat \<Rightarrow> nat \<Rightarrow> nat \<times> nat \<Rightarrow> bool" where
  "in_range width n r \<longleftrightarrow> n div 2 ^ (width - snd r) = fst r div 2 ^ (width - snd r)"

definition v4_number :: "nat \<Rightarrow> nat \<Rightarrow> nat \<Rightarrow> nat \<Rightarrow> nat" where
  "v4_number a b c d = ((a * 256 + b) * 256 + c) * 256 + d"

definition V4_RANGES :: "(nat \<times> nat) list" where
  "V4_RANGES = [(v4_number 0 0 0 0, 8), (v4_number 10 0 0 0, 8), (v4_number 100 64 0 0, 10), (v4_number 127 0 0 0, 8),
     (v4_number 169 254 0 0, 16), (v4_number 172 16 0 0, 12), (v4_number 192 168 0 0, 16), (v4_number 224 0 0 0, 4),
     (v4_number 240 0 0 0, 4)]"

definition private_v4 :: "nat \<Rightarrow> bool" where
  "private_v4 n \<longleftrightarrow> list_ex (in_range 32 n) V4_RANGES"

definition v6_number :: "16 word list \<Rightarrow> nat" where
  "v6_number gs = foldl (\<lambda>n g. n * 65536 + unat g) 0 gs"

definition V6_RANGES :: "(nat \<times> nat) list" where
  "V6_RANGES = [(0, 128), (1, 128), (0xfc00 * 2 ^ 112, 7), (0xfe80 * 2 ^ 112, 10), (0xff00 * 2 ^ 112, 8)]"

definition V4_MAPPED :: "nat \<times> nat" where
  "V4_MAPPED = (0xffff * 2 ^ 32, 96)"

definition private_v6 :: "nat \<Rightarrow> bool" where
  "private_v6 n \<longleftrightarrow> (if in_range 128 n V4_MAPPED then private_v4 (n mod 2 ^ 32) else list_ex (in_range 128 n) V6_RANGES)"

section \<open>Version 4 verdicts\<close>

definition v4_text :: "nat \<Rightarrow> nat \<Rightarrow> nat \<Rightarrow> nat \<Rightarrow> jsstring" where
  "v4_text a b c d = js_join ''.'' (map nat_text [a, b, c, d])"

lemma drop_octet: "r < 256 \<Longrightarrow> (m * 256 + r) div (256 * k) = m div (k :: nat)"
  by (simp add: div_mult2_eq)

lemma quotient_is: "0 < (k :: nat) \<Longrightarrow> n div k = q \<longleftrightarrow> k * q \<le> n \<and> n < k * Suc q"
  by (metis div_nat_eqI le_refl less_mult_imp_div_less mult.commute dividend_less_times_div less_eq_div_iff_mult_less_eq
      div_less_iff_less_mult less_Suc_eq_le order.antisym mult_Suc_right)

lemma pair_is:
  assumes "y < (k :: nat)" "v < k"
  shows "x * k + y = u * k + v \<longleftrightarrow> x = u \<and> y = v"
  using assms by (metis div_mult_self3 add.commute div_less mod_less mod_mult_self1 add.right_neutral add_0 less_zeroE)

lemma v4_quotients:
  assumes "a < 256" "b < 256" "c < 256" "d < 256"
  shows "v4_number a b c d div 16777216 = a" "v4_number a b c d div 65536 = a * 256 + b"
    "v4_number a b c d div 4194304 = a * 4 + b div 64" "v4_number a b c d div 1048576 = a * 16 + b div 16"
    "v4_number a b c d div 268435456 = a div 16"
proof -
  have low: "v4_number a b c d div (65536 * k) = (a * 256 + b) div k" for k
    using drop_octet [of d "(a * 256 + b) * 256 + c" "256 * k"] drop_octet [of c "a * 256 + b" k] assms
    by (simp add: v4_number_def)
  have "(a * 256 + b) div 64 = a * 4 + b div 64" "(a * 256 + b) div 16 = a * 16 + b div 16"
    by (simp_all add: div_plus_div_distrib_dvd_left)
  then show "v4_number a b c d div 16777216 = a" "v4_number a b c d div 65536 = a * 256 + b"
    "v4_number a b c d div 4194304 = a * 4 + b div 64" "v4_number a b c d div 1048576 = a * 16 + b div 16"
    "v4_number a b c d div 268435456 = a div 16"
    using low [of 256] low [of 1] low [of 64] low [of 16] low [of 4096] drop_octet [of b a 1] drop_octet [of b a 16] assms
    by simp_all
qed

lemma private_octets_v4:
  assumes "a < 256" "b < 256" "c < 256" "d < 256"
  shows "private_octets a b \<longleftrightarrow> private_v4 (v4_number a b c d)"
proof -
  let ?n = "v4_number a b c d"
  have "private_v4 ?n \<longleftrightarrow> a = 0 \<or> a = 10 \<or> a * 4 + b div 64 = 401 \<or> a = 127 \<or> a * 256 + b = 43518 \<or>
      a * 16 + b div 16 = 2753 \<or> a * 256 + b = 49320 \<or> a div 16 = 14 \<or> a div 16 = 15"
    by (simp add: private_v4_def V4_RANGES_def in_range_def v4_quotients [OF assms]) (simp add: v4_number_def)
  moreover have "a * 4 + b div 64 = 401 \<longleftrightarrow> a = 100 \<and> 64 \<le> b \<and> b \<le> 127"
    using pair_is [of "b div 64" 4 1 a 100] quotient_is [of 64 b 1] assms by auto
  moreover have "a * 16 + b div 16 = 2753 \<longleftrightarrow> a = 172 \<and> 16 \<le> b \<and> b \<le> 31"
    using pair_is [of "b div 16" 16 1 a 172] quotient_is [of 16 b 1] assms by auto
  moreover have "a * 256 + b = 43518 \<longleftrightarrow> a = 169 \<and> b = 254" "a * 256 + b = 49320 \<longleftrightarrow> a = 192 \<and> b = 168"
    using pair_is [of b 256 254 a 169] pair_is [of b 256 168 a 192] assms by auto
  moreover have "a div 16 = 14 \<or> a div 16 = 15 \<longleftrightarrow> 224 \<le> a"
    using quotient_is [of 16 a 14] quotient_is [of 16 a 15] assms by auto
  ultimately show ?thesis unfolding private_octets_def by blast
qed

lemma all_some_Some: "list_all2 (\<lambda>x y. x = Some y) xs ys \<Longrightarrow> all_some xs = Some ys"
  by (induction rule: list_all2_induct) simp_all

lemma octet_part_text: "n < 256 \<Longrightarrow> octet_part (nat_text n) = Some n"
  using nat_width_le [of n 3]
  by (auto simp: octet_part_def list_all_iff dest: nat_text_digits) (simp add: nat_text_def)

lemma nat_text_absent: "\<not> is_digit c \<Longrightarrow> c \<notin> set (nat_text n)"
  using nat_text_digits by blast

lemma v4_octets:
  assumes "a < 256" "b < 256" "c < 256" "d < 256"
  shows "ipv4_octets (v4_text a b c d) = Some [a, b, c, d]"
proof -
  have "split_char CHR ''.'' (v4_text a b c d) = map nat_text [a, b, c, d]"
    unfolding v4_text_def by (rule split_join) (auto simp: is_digit_def dest: nat_text_digits)
  then show ?thesis by (simp add: ipv4_octets_def octet_part_text assms)
qed

lemma private_v4_text:
  assumes "a < 256" "b < 256" "c < 256" "d < 256"
  shows "is_private_ipv4 (v4_text a b c d) \<longleftrightarrow> private_v4 (v4_number a b c d)"
  using private_octets_v4 [OF assms] by (simp add: is_private_ipv4_def v4_octets [OF assms])

definition address_char :: "char \<Rightarrow> bool" where
  "address_char c \<longleftrightarrow> hex_char c \<or> c = CHR ''.'' \<or> c = CHR '':''"

lemma address_char_plain: "address_char c \<Longrightarrow> \<not> js_space c \<and> lower_char c = c \<and> c \<noteq> CHR ''%''"
  by (auto simp: address_char_def hex_char_def is_digit_def js_space_def lower_char_def)

lemma read_plain:
  assumes "list_all address_char s" "s \<noteq> []"
  shows "is_private_address s \<longleftrightarrow> (if CHR '':'' \<in> set s then is_private_ipv6 s else is_private_ipv4 s)"
proof -
  have c: "\<not> js_space c \<and> lower_char c = c \<and> c \<noteq> CHR ''%''" if "c \<in> set s" for c
    using assms(1) that by (intro address_char_plain) (simp add: list_all_iff)
  from assms(2) c have "dropWhile js_space s = s" "dropWhile js_space (rev s) = rev s"
    by (metis dropWhile_eq_self_iff hd_in_set) (metis assms(2) c dropWhile_eq_self_iff hd_in_set set_rev rev_is_Nil_conv)
  then have "js_trim s = s" by (simp add: js_trim_def)
  moreover have "js_lower s = s" using c by (simp add: js_lower_def map_idI)
  moreover have "CHR ''%'' \<notin> set s" using c by blast
  ultimately show ?thesis using assms(2) by (simp add: is_private_address_def)
qed

text \<open>Capitals are lowered first.\<close>

lemma space_not_lowered: "js_space c \<Longrightarrow> \<not> address_char (lower_char c)"
  by (auto simp: address_char_def hex_char_def is_digit_def js_space_def lower_char_def Let_def)

lemma read_lowered:
  assumes "list_all address_char (js_lower s)" "js_lower s \<noteq> []"
  shows "is_private_address s \<longleftrightarrow> (if CHR '':'' \<in> set (js_lower s) then is_private_ipv6 (js_lower s) else is_private_ipv4 (js_lower s))"
proof -
  have c: "\<not> js_space c" if "c \<in> set s" for c
    using assms(1) that space_not_lowered by (auto simp: list_all_iff js_lower_def)
  have "s \<noteq> []" using assms(2) by (auto simp: js_lower_def)
  with c have "dropWhile js_space s = s" "dropWhile js_space (rev s) = rev s"
    by (simp_all add: dropWhile_eq_self_iff hd_rev)
  then have "js_trim s = s" by (simp add: js_trim_def)
  moreover have "CHR ''%'' \<notin> set (js_lower s)" using assms(1) address_char_plain unfolding list_all_iff by blast
  ultimately show ?thesis using assms(2) by (simp add: is_private_address_def)
qed

lemma set_js_join: "set (js_join p xs) \<subseteq> set p \<union> \<Union> (set ` set xs)"
  by (induction xs rule: induct_list012) auto

lemma v4_text_chars: "c \<in> set (v4_text x y z w) \<Longrightarrow> is_digit c \<or> c = CHR ''.''"
  using set_js_join [of "''.''" "map nat_text [x, y, z, w]"] by (auto simp: v4_text_def dest!: subsetD dest: nat_text_digits)

text \<open>
  A dotted address is refused exactly when its number lies in one of the private, local, multicast or reserved
  ranges.
\<close>

theorem dotted_verdict:
  assumes "a < 256" "b < 256" "c < 256" "d < 256"
  shows "is_private_address (v4_text a b c d) \<longleftrightarrow> private_v4 (v4_number a b c d)"
proof -
  have "list_all address_char (v4_text a b c d)"
    by (auto simp: list_all_iff address_char_def hex_char_def dest: v4_text_chars)
  moreover have "CHR '':'' \<notin> set (v4_text a b c d)"
    by (auto simp: is_digit_def dest: v4_text_chars)
  moreover have "v4_text a b c d \<noteq> []" by (simp add: v4_text_def)
  ultimately show ?thesis using private_v4_text [OF assms] by (simp add: read_plain)
qed

theorem dotted_verdict_witness:
  "is_private_address (v4_text 169 254 169 254) \<longleftrightarrow> private_v4 (v4_number 169 254 169 254)"
  by (rule dotted_verdict) simp_all

section \<open>Version 6 verdicts\<close>

subsection \<open>Numbers and masks\<close>

lemma v6_number_append: "v6_number (gs @ hs) = v6_number gs * 65536 ^ length hs + v6_number hs"
  by (induction hs rule: rev_induct) (simp_all add: v6_number_def algebra_simps)

lemma v6_number_snoc: "v6_number (gs @ [g]) = v6_number gs * 65536 + unat g"
  by (simp add: v6_number_def)

lemma group_less: "unat (g :: 16 word) < 65536"
  using unsigned_less [of g] by simp

lemma v6_number_less: "v6_number gs < 65536 ^ length gs"
proof (induction gs rule: rev_induct)
  case (snoc g gs)
  then show ?case using group_less [of g] by (simp add: v6_number_snoc)
qed (simp add: v6_number_def)

lemma v6_number_div: "v6_number (gs @ hs) div 65536 ^ length hs = v6_number gs"
  using v6_number_less [of hs] by (simp add: v6_number_append)

lemma v6_number_mod: "v6_number (gs @ hs) mod 65536 ^ length hs = v6_number hs"
  using v6_number_less [of hs] by (simp add: v6_number_append)

lemma v6_number_zero: "v6_number gs = 0 \<longleftrightarrow> list_all (\<lambda>g. g = 0) gs"
  by (induction gs rule: rev_induct) (simp_all add: v6_number_snoc v6_number_def [of "[]"] unat_eq_zero)

lemma v6_number_low: "k < 65536 \<Longrightarrow> v6_number (gs @ [g]) = k \<longleftrightarrow> list_all (\<lambda>g. g = 0) gs \<and> unat g = k"
  using pair_is [of "unat g" 65536 k "v6_number gs" 0] group_less [of g] by (simp add: v6_number_snoc v6_number_zero)

lemma high_mask:
  fixes n :: nat
  assumes "n < 2 ^ (j + k)"
  shows "n AND push_bit k (mask j) = n div 2 ^ k * 2 ^ k"
proof -
  have "bit n i \<Longrightarrow> i < j + k" for i
    using assms by (metis bit_take_bit_iff take_bit_nat_eq_self_iff)
  then have "n AND push_bit k (mask j) = push_bit k (drop_bit k n)"
    by (intro bit_eqI) (auto simp: bit_simps less_diff_conv2)
  then show ?thesis by (simp add: push_bit_eq_mult drop_bit_eq_div)
qed

lemma masked_group:
  assumes "m = push_bit k (mask (16 - k))" "k < 16" "unat (w :: 16 word) = m" "unat v = q * 2 ^ k"
  shows "g AND w = v \<longleftrightarrow> unat g div 2 ^ k = q"
proof -
  have "unat (g AND w) = unat g AND unat w" by (rule unsigned_and_eq)
  then have "unat (g AND w) = unat g div 2 ^ k * 2 ^ k"
    using high_mask [of "unat g" "16 - k" k] group_less [of g] assms by simp
  then show ?thesis using assms(4) by (simp add: word_unat_eq_iff)
qed

lemma group_masks:
  "(g :: 16 word) AND 0xfe00 = 0xfc00 \<longleftrightarrow> unat g div 512 = 126"
  "(g :: 16 word) AND 0xffc0 = 0xfe80 \<longleftrightarrow> unat g div 64 = 1018"
  "(g :: 16 word) AND 0xff00 = 0xff00 \<longleftrightarrow> unat g div 256 = 255"
  using masked_group [of "0xfe00" 9 "0xfe00" "0xfc00" 126 g] masked_group [of "0xffc0" 6 "0xffc0" "0xfe80" 1018 g]
    masked_group [of "0xff00" 8 "0xff00" "0xff00" 255 g]
  by (simp_all add: mask_eq_exp_minus_1 push_bit_eq_mult)

lemma high_byte_div: "high_byte g = unat g div 256"
  by (simp add: high_byte_def drop_bit_eq_div unat_div)

lemma low_byte_mod: "low_byte g = unat g mod 256"
proof -
  have "g AND 0xff = take_bit 8 g" by (simp add: take_bit_eq_mask mask_eq_exp_minus_1)
  then show ?thesis by (simp add: low_byte_def take_bit_eq_mod unat_mod)
qed

lemma bytes_number:
  "v4_number (high_byte g) (low_byte g) (high_byte h) (low_byte h) = unat g * 65536 + unat h"
  "high_byte g < 256" "low_byte g < 256"
proof -
  have "unat w div 256 * 256 + unat w mod 256 = unat w" for w :: "16 word" by (rule div_mult_mod_eq)
  from this [of g] this [of h]
  show "v4_number (high_byte g) (low_byte g) (high_byte h) (low_byte h) = unat g * 65536 + unat h"
    by (simp add: v4_number_def high_byte_div low_byte_mod)
  show "high_byte g < 256" "low_byte g < 256"
    using group_less [of g] by (simp_all add: high_byte_div low_byte_mod less_mult_imp_div_less)
qed

lemma private_groups_v6:
  assumes "length gs = 8"
  shows "private_groups gs \<longleftrightarrow> private_v6 (v6_number gs)"
proof -
  from assms obtain a b c d e f g h where gs: "gs = [a, b, c, d, e, f, g, h]"
    by (auto simp: numeral_eq_Suc length_Suc_conv)
  have first: "v6_number gs div 2 ^ 112 = unat a"
    using v6_number_div [of "[a]" "[b, c, d, e, f, g, h]"] by (simp add: gs v6_number_def [of "[a]"])
  have "v6_number gs div 2 ^ (112 + k) = unat a div 2 ^ k" for k
    by (simp only: power_add div_mult2_eq first)
  from this [of 9] this [of 6] this [of 8]
  have prefixes: "v6_number gs div 2 ^ 121 = unat a div 512" "v6_number gs div 2 ^ 118 = unat a div 64"
    "v6_number gs div 2 ^ 120 = unat a div 256" by simp_all
  have zero: "v6_number gs = 0 \<longleftrightarrow> list_all (\<lambda>g. g = 0) gs" by (rule v6_number_zero)
  have one: "v6_number gs = 1 \<longleftrightarrow> list_all (\<lambda>g. g = 0) (take 7 gs) \<and> h = 1"
    using v6_number_low [of 1 "[a, b, c, d, e, f, g]" h] by (simp add: gs word_unat_eq_iff)
  have "v6_number gs div 2 ^ 32 = v6_number [a, b, c, d, e, f]"
    using v6_number_div [of "[a, b, c, d, e, f]" "[g, h]"] by (simp add: gs)
  moreover have "v6_number [a, b, c, d, e, f] = 65535 \<longleftrightarrow> list_all (\<lambda>g. g = 0) (take 5 gs) \<and> f = 0xffff"
    using v6_number_low [of 65535 "[a, b, c, d, e]" f] by (simp add: gs word_unat_eq_iff)
  ultimately have mapped: "in_range 128 (v6_number gs) V4_MAPPED \<longleftrightarrow> list_all (\<lambda>g. g = 0) (take 5 gs) \<and> gs ! 5 = 0xffff"
    by (simp add: in_range_def V4_MAPPED_def gs)
  have low: "v6_number gs mod 2 ^ 32 = unat g * 65536 + unat h"
    using v6_number_mod [of "[a, b, c, d, e, f]" "[g, h]"] by (simp add: gs v6_number_def [of "[g, h]"])
  have "is_private_ipv4 (js_join ''.'' (map nat_text [high_byte (gs ! 6), low_byte (gs ! 6), high_byte (gs ! 7), low_byte (gs ! 7)]))
      \<longleftrightarrow> private_v4 (v6_number gs mod 2 ^ 32)"
    using private_v4_text [of "high_byte g" "low_byte g" "high_byte h" "low_byte h"]
    unfolding low by (simp add: gs bytes_number v4_text_def)
  moreover have "list_ex (in_range 128 (v6_number gs)) V6_RANGES \<longleftrightarrow> list_all (\<lambda>g. g = 0) gs \<or>
      (list_all (\<lambda>g. g = 0) (take 7 gs) \<and> gs ! 7 = 1) \<or> gs ! 0 AND 0xfe00 = 0xfc00 \<or> gs ! 0 AND 0xffc0 = 0xfe80 \<or>
      gs ! 0 AND 0xff00 = 0xff00"
  proof -
    have "list_ex (in_range 128 (v6_number gs)) V6_RANGES \<longleftrightarrow> v6_number gs = 0 \<or> v6_number gs = 1 \<or>
        v6_number gs div 2 ^ 121 = 126 \<or> v6_number gs div 2 ^ 118 = 1018 \<or> v6_number gs div 2 ^ 120 = 255"
      by (simp add: V6_RANGES_def in_range_def)
    moreover have "gs ! 0 = a" "gs ! 7 = h" by (simp_all add: gs)
    ultimately show ?thesis using zero one prefixes by (simp only: group_masks)
  qed
  ultimately show ?thesis unfolding private_groups_def private_v6_def mapped by presburger
qed

subsection \<open>Spellings\<close>

text \<open>
  A group is written with one to four hexadecimal digits; an address with its eight groups, or with one run of
  zero groups left out.
\<close>

definition spells_group :: "jsstring \<Rightarrow> 16 word \<Rightarrow> bool" where
  "spells_group p g \<longleftrightarrow> p \<noteq> [] \<and> length p \<le> 4 \<and> list_all hex_char p \<and> hex_number p = unat g"

inductive spells :: "jsstring \<Rightarrow> 16 word list \<Rightarrow> bool" where
  spells_all: "list_all2 spells_group ps gs \<Longrightarrow> length gs = 8 \<Longrightarrow> spells (js_join '':'' ps) gs"
| spells_gap: "list_all2 spells_group ps hs \<Longrightarrow> list_all2 spells_group qs ts \<Longrightarrow> length hs + length ts \<le> 7 \<Longrightarrow>
    spells (js_join '':'' ps @ ''::'' @ js_join '':'' qs) (hs @ replicate (8 - length hs - length ts) 0 @ ts)"

definition prefixed :: "jsstring \<Rightarrow> jsstring list \<Rightarrow> jsstring list" where
  "prefixed p ps = (p @ hd ps) # tl ps"

lemma split_pair_not_Nil [simp]: "split_pair c s \<noteq> []"
  by (induction c s rule: split_pair.induct) (auto split: list.splits)

lemma split_pair_other: "x \<noteq> c \<Longrightarrow> split_pair c (x # s) = prefixed [x] (split_pair c s)"
  by (cases s) (auto simp: prefixed_def split: list.splits)

lemma split_pair_single: "y \<noteq> c \<Longrightarrow> split_pair c (c # y # s) = prefixed [c] (split_pair c (y # s))"
  by (auto simp: prefixed_def split: list.splits)

lemma split_pair_piece: "c \<notin> set p \<Longrightarrow> split_pair c (p @ s) = prefixed p (split_pair c s)"
  by (induction p) (auto simp: split_pair_other prefixed_def)

lemma split_pair_joined:
  "list_all (\<lambda>p. p \<noteq> [] \<and> c \<notin> set p) ps \<Longrightarrow> split_pair c (js_join [c] ps) = [js_join [c] ps] \<and>
     split_pair c (js_join [c] ps @ c # c # s) = js_join [c] ps # split_pair c s"
proof (induction ps rule: induct_list012)
  case (2 p)
  then show ?case using split_pair_piece [of c p "[]"] by (simp add: split_pair_piece prefixed_def)
next
  case (3 p q ps)
  then obtain y q' where q: "q = y # q'" "y \<noteq> c" by (cases q) auto
  have "js_join [c] (q # ps) = y # (q' @ (if ps = [] then [] else c # js_join [c] ps))" by (cases ps) (simp_all add: q)
  then obtain r where r: "js_join [c] (q # ps) = y # r" by blast
  from 3 have "split_pair c (y # r) = [y # r]" "split_pair c (y # r @ c # c # s) = (y # r) # split_pair c s"
    by (simp_all add: r [symmetric]) (metis r append_Cons)
  moreover have "js_join [c] (p # q # ps) = p @ c # y # r" using r by simp
  moreover have "c \<notin> set p" using 3 by simp
  ultimately show ?case using q(2) by (simp add: split_pair_piece split_pair_single prefixed_def del: split_pair.simps js_join.simps)
qed simp

lemma hex_char_neq: "hex_char c \<Longrightarrow> c \<noteq> CHR '':'' \<and> c \<noteq> CHR ''.''"
  by (auto simp: hex_char_def is_digit_def)

lemma spelled_parts:
  assumes "list_all2 spells_group ps gs"
  shows "list_all (\<lambda>p. p \<noteq> [] \<and> CHR '':'' \<notin> set p) ps" "parse_groups (js_join '':'' ps) = Some gs"
    "list_all address_char (js_join '':'' ps)" "CHR ''.'' \<notin> set (js_join '':'' ps)"
proof -
  have hex: "list_all hex_char p" if "p \<in> set ps" for p
    using assms that by (auto simp: list_all2_conv_all_nth in_set_conv_nth spells_group_def)
  have "p \<noteq> []" if "p \<in> set ps" for p
    using assms that by (auto simp: list_all2_conv_all_nth in_set_conv_nth spells_group_def)
  with hex show pieces: "list_all (\<lambda>p. p \<noteq> [] \<and> CHR '':'' \<notin> set p) ps"
    using hex_char_neq unfolding list_all_iff by blast
  have "list_all2 (\<lambda>x y. x = Some y) (map group_part ps) gs"
    using assms by (auto simp: list_all2_conv_all_nth spells_group_def group_part_def)
  then have some: "all_some (map group_part ps) = Some gs" by (rule all_some_Some)
  show "parse_groups (js_join '':'' ps) = Some gs"
  proof (cases "ps = []")
    case False
    then have "split_char CHR '':'' (js_join '':'' ps) = ps" using pieces by (intro split_join) (auto simp: list_all_iff)
    moreover have "js_join '':'' ps \<noteq> []" using False pieces by (cases ps rule: remdups_adj.cases) auto
    ultimately show ?thesis using some by (simp add: parse_groups_def)
  qed (use assms in \<open>simp add: parse_groups_def\<close>)
  have chars: "c = CHR '':'' \<or> hex_char c" if "c \<in> set (js_join '':'' ps)" for c
    using set_js_join [of "'':''" ps] that hex by (auto simp: list_all_iff dest!: subsetD)
  then show "list_all address_char (js_join '':'' ps)" "CHR ''.'' \<notin> set (js_join '':'' ps)"
    using hex_char_neq by (auto simp: list_all_iff address_char_def)
qed

lemma spelled_groups:
  assumes "spells s gs"
  shows "ipv6_groups s = Some gs \<and> length gs = 8 \<and> list_all address_char s \<and> CHR ''.'' \<notin> set s \<and> CHR '':'' \<in> set s"
  using assms
proof cases
  case (spells_all ps)
  note p = spelled_parts [OF this(2)]
  have "length ps = 8" using spells_all by (simp add: list_all2_lengthD)
  then have "CHR '':'' \<in> set (js_join '':'' ps)" by (auto simp: numeral_eq_Suc length_Suc_conv)
  with p spells_all split_pair_joined [OF p(1)] show ?thesis by (simp add: ipv6_groups_def)
next
  case (spells_gap ps hs qs ts)
  note p = spelled_parts [OF this(3)] and q = spelled_parts [OF this(4)]
  have "split_pair CHR '':'' s = [js_join '':'' ps, js_join '':'' qs]"
    using split_pair_joined [OF p(1), of "js_join '':'' qs"] split_pair_joined [OF q(1)] spells_gap(1) by simp
  then have "ipv6_groups s = Some gs" using p q spells_gap(2,5) by (simp add: ipv6_groups_def)
  with p q spells_gap show ?thesis by (simp add: address_char_def)
qed

text \<open>
  C29. A version 6 address spelled in hexadecimal groups, in full or with one \<open>::\<close> for a run of zeros, in either case
  and with or without leading zeros, is refused exactly when its number lies in one of the private, local or multicast
  ranges, or is a version 4 address of such a range in its mapped form. A spelling with a dotted tail is not of these:
  it is judged by its tail (\<open>dotted_tail_verdict\<close>, \<open>dotted_tail_skips_the_ranges\<close>).
\<close>

theorem spelled_verdict:
  assumes "spells (js_lower s) gs"
  shows "is_private_address s \<longleftrightarrow> private_v6 (v6_number gs)"
proof -
  let ?s = "js_lower s"
  note s = spelled_groups [OF assms]
  from s have "?s \<noteq> []" by auto
  with s have "is_private_address s \<longleftrightarrow> is_private_ipv6 ?s" by (simp add: read_lowered)
  moreover have "CHR ''.'' \<notin> set (drop i ?s)" for i using s set_drop_subset by fastforce
  then have "is_private_ipv6 ?s \<longleftrightarrow> private_groups gs" using s by (simp add: is_private_ipv6_def Let_def)
  ultimately show ?thesis using private_groups_v6 s by simp
qed

theorem spelled_verdict_witness:
  "is_private_address ''::FFFF:7f00:1'' \<longleftrightarrow> private_v6 (v6_number [0, 0, 0, 0, 0, 0xffff, 0x7f00, 1])"
proof (rule spelled_verdict)
  have "spells_group ''ffff'' 0xffff" "spells_group ''7f00'' 0x7f00" "spells_group ''1'' 1"
    by (simp_all add: spells_group_def hex_number_def hex_char_def hex_digit_value_def is_digit_def digit_value_def)
  then have "spells (js_join '':'' [] @ ''::'' @ js_join '':'' [''ffff'', ''7f00'', ''1''])
      ([] @ replicate (8 - length ([] :: 16 word list) - length [0xffff, 0x7f00, 1 :: 16 word]) 0 @ [0xffff, 0x7f00, 1])"
    by (intro spells_gap) simp_all
  moreover have "js_lower ''::FFFF:7f00:1'' = ''::ffff:7f00:1''" by code_simp
  ultimately show "spells (js_lower ''::FFFF:7f00:1'') [0, 0, 0, 0, 0, 0xffff, 0x7f00, 1]" by (simp add: eval_nat_numeral)
qed

text \<open>A dotted tail is judged on its own: the groups before it are only read, so a unique local address passes.\<close>

lemma dotted_tail_verdict:
  assumes "list_all address_char front" "a < 256" "b < 256" "c < 256" "d < 256"
  shows "is_private_address (front @ CHR '':'' # v4_text a b c d) \<longleftrightarrow>
    ipv6_groups (front @ '':0'') = None \<or> private_v4 (v4_number a b c d)"
proof -
  let ?s = "front @ CHR '':'' # v4_text a b c d"
  have "CHR '':'' \<notin> set (v4_text a b c d)" by (auto simp: is_digit_def dest: v4_text_chars)
  then have tail: "last_index CHR '':'' ?s = Some (length front)" by simp
  have "list_all address_char (v4_text a b c d)"
    by (auto simp: list_all_iff address_char_def hex_char_def dest: v4_text_chars)
  then have "list_all address_char ?s" using assms(1) by (simp add: address_char_def)
  then have "is_private_address ?s \<longleftrightarrow> is_private_ipv6 ?s" using read_plain [of ?s] by simp
  moreover have "CHR ''.'' \<in> set (v4_text a b c d)" by (simp add: v4_text_def)
  then have "is_private_ipv6 ?s \<longleftrightarrow> ipv6_groups (front @ '':0'') = None \<or> is_private_ipv4 (v4_text a b c d)"
    by (simp add: is_private_ipv6_def tail)
  ultimately show ?thesis by (simp add: private_v4_text assms)
qed

lemma dotted_tail_skips_the_ranges: "\<not> is_private_address ''fc00::8.8.8.8''"
proof -
  have "group_part ''fc00'' \<noteq> None" "group_part ''0'' \<noteq> None"
    by (simp_all add: group_part_def hex_char_def is_digit_def)
  then have "ipv6_groups (''fc00:'' @ '':0'') \<noteq> None"
    by (auto simp: ipv6_groups_def parse_groups_def)
  moreover have "\<not> private_v4 (v4_number 8 8 8 8)"
    using private_octets_v4 [of 8 8 8 8] by (simp add: private_octets_def)
  moreover have "list_all address_char ''fc00:''" by (simp add: address_char_def hex_char_def is_digit_def)
  ultimately have "\<not> is_private_address (''fc00:'' @ CHR '':'' # v4_text 8 8 8 8)" by (simp only: dotted_tail_verdict) simp
  moreover have "''fc00:'' @ CHR '':'' # v4_text 8 8 8 8 = ''fc00::8.8.8.8''" by code_simp
  ultimately show ?thesis by simp
qed

end
