(* ===== verification/Profiles.thy ===== *)
theory Profiles
  imports Organizations Event_Types
begin

text \<open>
  Profile links (\<open>lib/users.ts\<close>), the addresses of a picture's renditions (\<open>lib/mediaUrls.ts\<close>), and the names and
  the order of conflicts (\<open>lib/conflicts.ts\<close>). The URL parser, a URL's serialisation and \<open>localeCompare\<close> are
  parameters.
\<close>

section \<open>Account calls\<close>

definition update_my_profile :: "json \<Rightarrow> 'f write_call" where
  "update_my_profile body = patch_json ''/users/me'' body"

definition upload_my_avatar :: "'f \<Rightarrow> 'f write_call" where
  "upload_my_avatar f = put_file ''/users/me/avatar'' f"

definition delete_my_avatar :: "'f write_call" where
  "delete_my_avatar = delete_call ''/users/me/avatar''"

definition user_stats_path :: "jsstring \<Rightarrow> jsstring" where
  "user_stats_path name = ''/users/'' @ encode_uri_component name @ ''/stats''"

section \<open>Profile links\<close>

datatype link_platform = On_x | On_github | On_website | On_discord

type_synonym url_text = "url \<Rightarrow> jsstring"

definition as_http_url :: "url_parser \<Rightarrow> url_text \<Rightarrow> jsstring option \<Rightarrow> jsstring option" where
  "as_http_url parse href value' = (case value' of
       None \<Rightarrow> None
     | Some v \<Rightarrow> if v = [] then None else map_option href (parse_http parse (js_trim v)))"

fun SOCIAL_HOSTS :: "link_platform \<Rightarrow> jsstring list" where
  "SOCIAL_HOSTS On_x = [''x.com'', ''twitter.com'', ''mobile.twitter.com'']"
| "SOCIAL_HOSTS On_github = [''github.com'']"
| "SOCIAL_HOSTS _ = []"

fun SOCIAL_HANDLE_PATTERN :: "link_platform \<Rightarrow> jsstring \<Rightarrow> bool" where
  "SOCIAL_HANDLE_PATTERN On_x s \<longleftrightarrow> 1 \<le> length s \<and> length s \<le> 15 \<and> list_all (\<lambda>c. is_alnum c \<or> c = CHR ''_'') s"
| "SOCIAL_HANDLE_PATTERN On_github s \<longleftrightarrow> 1 \<le> length s \<and> length s \<le> 39 \<and> list_all (\<lambda>c. is_alnum c \<or> c = CHR ''-'') s"
| "SOCIAL_HANDLE_PATTERN _ s \<longleftrightarrow> False"

definition fold_www :: "jsstring \<Rightarrow> jsstring" where
  "fold_www host = (if starts_with host ''www.'' then drop 4 host else host)"

text \<open>The serialised form of a parsed URL parses back, so the last branch is not taken.\<close>

definition parse_social_link :: "url_parser \<Rightarrow> url_text \<Rightarrow> link_platform \<Rightarrow> jsstring \<Rightarrow> jsstring option" where
  "parse_social_link parse href platform value' =
     (let trimmed = js_trim value' in
      case as_http_url parse href (Some trimmed) of
        Some u \<Rightarrow> (case parse u of
            Some parsed \<Rightarrow>
              if fold_www (js_lower (url_hostname parsed)) \<notin> set (SOCIAL_HOSTS platform) then None
              else if url_search parsed \<noteq> [] \<or> url_hash parsed \<noteq> [] then None
              else (case filter (\<lambda>s. s \<noteq> []) (split_char CHR ''/'' (url_pathname parsed)) of
                  [segment] \<Rightarrow> if SOCIAL_HANDLE_PATTERN platform segment then Some segment else None
                | _ \<Rightarrow> None)
          | None \<Rightarrow> None)
      | None \<Rightarrow> (let handle = (if starts_with trimmed ''@'' then tl trimmed else trimmed) in
          if SOCIAL_HANDLE_PATTERN platform handle then Some handle else None))"

definition resolve_link_href :: "url_parser \<Rightarrow> url_text \<Rightarrow> link_platform \<Rightarrow> jsstring option \<Rightarrow> jsstring option" where
  "resolve_link_href parse href platform value' = (case value' of
       None \<Rightarrow> None
     | Some v \<Rightarrow> (let trimmed = js_trim v in
         if v = [] \<or> trimmed = [] then None
         else if platform = On_x \<or> platform = On_github
         then map_option (\<lambda>handle. ''https://'' @ hd (SOCIAL_HOSTS platform) @ ''/'' @ handle) (parse_social_link parse href platform trimmed)
         else if platform = On_website then as_http_url parse href (Some trimmed)
         else None))"

text \<open>\<open>replace(/^https?:\/\//i, "").replace(/\/$/, "")\<close>\<close>

definition bare_url :: "jsstring \<Rightarrow> jsstring" where
  "bare_url u = (let rest = (if starts_with (js_lower u) ''https://'' then drop 8 u
       else if starts_with (js_lower u) ''http://'' then drop 7 u else u)
     in if ends_with rest ''/'' then butlast rest else rest)"

definition display_link_value :: "url_parser \<Rightarrow> url_text \<Rightarrow> link_platform \<Rightarrow> jsstring option \<Rightarrow> jsstring" where
  "display_link_value parse href platform value' =
     (let trimmed = (case value' of Some v \<Rightarrow> js_trim v | None \<Rightarrow> []) in
      if trimmed = [] then []
      else if platform = On_x \<or> platform = On_github
      then (case parse_social_link parse href platform trimmed of Some handle \<Rightarrow> CHR ''@'' # handle | None \<Rightarrow> trimmed)
      else if platform = On_website
      then (case as_http_url parse href (Some trimmed) of Some u \<Rightarrow> bare_url u | None \<Rightarrow> trimmed)
      else trimmed)"

section \<open>Renditions of a picture\<close>

record media_urls =
  mu_original :: jsstring
  mu_hero :: jsstring
  mu_thumbnail :: jsstring

definition same_urls :: "jsstring \<Rightarrow> media_urls" where
  "same_urls u = \<lparr>mu_original = u, mu_hero = u, mu_thumbnail = u\<rparr>"

definition media_urls_of :: "jsstring \<Rightarrow> media_urls" where
  "media_urls_of storage_url =
     (let path_end = (case find_index (\<lambda>c. c = CHR ''?'' \<or> c = CHR ''#'') storage_url of Some i \<Rightarrow> i | None \<Rightarrow> length storage_url);
          path = take path_end storage_url
      in case last_index CHR ''.'' path of
           None \<Rightarrow> same_urls storage_url
         | Some dot \<Rightarrow>
             if (case last_index CHR ''/'' path of Some slash \<Rightarrow> dot \<le> slash | None \<Rightarrow> False) then same_urls storage_url
             else (let stem = take dot storage_url; suffix = drop path_end storage_url in
               if ends_with stem ''_hero'' \<or> ends_with stem ''_thumb'' then same_urls storage_url
               else \<lparr>mu_original = storage_url, mu_hero = stem @ ''_hero.jpg'' @ suffix, mu_thumbnail = stem @ ''_thumb.jpg'' @ suffix\<rparr>))"

definition poster_frame_url :: "jsstring \<Rightarrow> jsstring" where
  "poster_frame_url src = (if CHR ''#'' \<in> set src then src else src @ ''#t=0.1'')"

definition display_urls_for :: "media_kind \<Rightarrow> media_role \<Rightarrow> jsstring \<Rightarrow> media_urls" where
  "display_urls_for kind role storage_url =
     (if kind \<noteq> Image \<or> role = Proof_role then same_urls storage_url else media_urls_of storage_url)"

section \<open>Conflicts\<close>

definition CONFLICT_OTHER_NAME :: jsstring where
  "CONFLICT_OTHER_NAME = ''Other''"

text \<open>\<open>/\d{4}/\<close> found anywhere\<close>

fun has_year :: "jsstring \<Rightarrow> bool" where
  "has_year [] \<longleftrightarrow> False"
| "has_year (c # s) \<longleftrightarrow> (3 \<le> length s \<and> list_all is_digit (c # take 3 s)) \<or> has_year s"

definition conflict_label :: "conflict \<Rightarrow> jsstring" where
  "conflict_label c = (case c_start_year c of
       None \<Rightarrow> c_name c
     | Some start \<Rightarrow>
         if has_year (c_name c) then c_name c
         else (let suffix = (if c_ongoing c then int_text start @ ''-present''
             else (case c_end_year c of
                 None \<Rightarrow> int_text start
               | Some e \<Rightarrow> if e = start then int_text start else int_text start @ ''-'' @ int_text e))
           in c_name c @ '' ('' @ suffix @ '')''))"

fun TIER_RANK :: "conflict_tier \<Rightarrow> int" where
  "TIER_RANK Major = 0"
| "TIER_RANK Minor = 1"
| "TIER_RANK Conflict_tier = 2"

definition tier_rank :: "conflict \<Rightarrow> int" where
  "tier_rank c = (case c_tier c of Some t \<Rightarrow> TIER_RANK t | None \<Rightarrow> 3)"

definition compare_conflicts :: "(jsstring \<Rightarrow> jsstring \<Rightarrow> int) \<Rightarrow> conflict \<Rightarrow> conflict \<Rightarrow> int" where
  "compare_conflicts loc a b =
     (let other_a = c_name a = CONFLICT_OTHER_NAME; other_b = c_name b = CONFLICT_OTHER_NAME; rank = tier_rank a - tier_rank b
      in if other_a \<noteq> other_b then (if other_a then 1 else -1)
         else if rank \<noteq> 0 then rank
         else loc (c_name a) (c_name b))"

definition sort_conflicts :: "(jsstring \<Rightarrow> jsstring \<Rightarrow> int) \<Rightarrow> conflict list \<Rightarrow> conflict list" where
  "sort_conflicts loc cs = sort_by (compare_conflicts loc) cs"

section \<open>Links lead where they say\<close>

definition social_platform :: "link_platform \<Rightarrow> bool" where
  "social_platform p \<longleftrightarrow> p = On_x \<or> p = On_github"

lemma parse_social_link_pattern: "parse_social_link parse href p v = Some h \<Longrightarrow> SOCIAL_HANDLE_PATTERN p h"
  by (auto simp: parse_social_link_def Let_def split: option.splits if_splits list.splits)

text \<open>
  C34. A profile link never leads elsewhere than it says: an X or GitHub link opens the platform's own host at the handle
  the page prints after the at sign, of the characters a handle has, a website link opens the http address it is, and
  a Discord name opens nothing.
\<close>

theorem profile_link_opens_what_it_prints:
  "case resolve_link_href parse href platform value' of
     None \<Rightarrow> True
   | Some u \<Rightarrow>
       (social_platform platform \<and> (\<exists>handle. SOCIAL_HANDLE_PATTERN platform handle \<and>
          u = ''https://'' @ hd (SOCIAL_HOSTS platform) @ ''/'' @ handle \<and>
          display_link_value parse href platform value' = CHR ''@'' # handle)) \<or>
       (platform = On_website \<and> (\<exists>v p. value' = Some v \<and> parse (js_trim (js_trim v)) = Some p \<and> u = href p \<and>
          (url_protocol p = ''http:'' \<or> url_protocol p = ''https:'') \<and> url_hostname p \<noteq> [] \<and>
          display_link_value parse href platform value' = bare_url u))"
proof (cases "resolve_link_href parse href platform value'")
  case (Some u)
  then obtain v where v: "value' = Some v" "v \<noteq> []" "js_trim v \<noteq> []"
    by (auto simp: resolve_link_href_def Let_def split: option.splits if_splits)
  show ?thesis
  proof (cases "social_platform platform")
    case True
    then obtain handle where "parse_social_link parse href platform (js_trim v) = Some handle"
      "u = ''https://'' @ hd (SOCIAL_HOSTS platform) @ ''/'' @ handle"
      using Some v by (auto simp: resolve_link_href_def Let_def social_platform_def)
    then show ?thesis using Some True v parse_social_link_pattern
      by (auto simp: display_link_value_def Let_def social_platform_def)
  next
    case False
    then have site: "platform = On_website" and u: "as_http_url parse href (Some (js_trim v)) = Some u"
      using Some v by (auto simp: resolve_link_href_def Let_def social_platform_def split: if_splits)
    then obtain p where "parse (js_trim (js_trim v)) = Some p" "u = href p"
      "url_protocol p = ''http:'' \<or> url_protocol p = ''https:''" "url_hostname p \<noteq> []"
      using v by (auto simp: as_http_url_def parse_http_def split: option.splits if_splits)
    moreover have "display_link_value parse href platform value' = bare_url u"
      using v site u by (simp add: display_link_value_def Let_def)
    ultimately show ?thesis using Some site v by auto
  qed
qed simp

section \<open>Renditions\<close>

lemma ends_with_append [simp]: "ends_with (a @ p) p"
  by (simp add: ends_with_def)

lemma find_index_prefix: "list_all (\<lambda>c. \<not> P c) a \<Longrightarrow> find_index P (a @ b) = map_option (\<lambda>i. length a + i) (find_index P b)"
proof (induction a)
  case Nil
  then show ?case by (simp add: option.map_ident)
next
  case (Cons c a)
  then show ?case by (simp add: option.map_comp comp_def)
qed

lemma find_index_append_None: "find_index P b = None \<Longrightarrow> find_index P (a @ b) = find_index P a"
  by (induction a) auto

lemma rendition_is_fixed:
  assumes "list_all (\<lambda>c. c \<noteq> CHR ''?'' \<and> c \<noteq> CHR ''#'') stem" "name = ''_hero'' \<or> name = ''_thumb''"
    "suffix = [] \<or> hd suffix = CHR ''?'' \<or> hd suffix = CHR ''#''"
  shows "media_urls_of (stem @ name @ ''.jpg'' @ suffix) = same_urls (stem @ name @ ''.jpg'' @ suffix)"
proof -
  let ?P = "\<lambda>c. c = CHR ''?'' \<or> c = CHR ''#''" and ?path = "stem @ name @ ''.jpg''"
  have plain: "list_all (\<lambda>c. \<not> ?P c) ?path" using assms(1,2) by auto
  have first: "find_index ?P suffix = (if suffix = [] then None else Some 0)" using assms(3) by (cases suffix) auto
  have cut: "(case find_index ?P (?path @ suffix) of Some i \<Rightarrow> i | None \<Rightarrow> length (?path @ suffix)) = length ?path"
    unfolding find_index_prefix [OF plain] first by simp
  have "last_index CHR ''.'' ((stem @ name) @ CHR ''.'' # ''jpg'') = Some (length (stem @ name))"
    by (rule last_index_append) simp
  then have dot: "last_index CHR ''.'' ?path = Some (length (stem @ name))" by simp
  have "take (length (stem @ name)) (?path @ suffix) = stem @ name" by simp
  moreover have "ends_with (stem @ name) ''_hero'' \<or> ends_with (stem @ name) ''_thumb''" using assms(2) by auto
  ultimately have "media_urls_of (?path @ suffix) = same_urls (?path @ suffix)"
    unfolding media_urls_of_def cut Let_def using dot by (simp split: option.split)
  then show ?thesis by simp
qed

text \<open>
  A rendition has no rendition of its own: asking for the display addresses of a hero or a thumbnail gives that
  address back, whatever query or fragment it carries, so a picture resolved twice is asked for under a name that was
  written.
\<close>

theorem renditions_are_fixed:
  "display_urls_for kind role (mu_hero (display_urls_for kind role u)) = same_urls (mu_hero (display_urls_for kind role u)) \<and>
   display_urls_for kind role (mu_thumbnail (display_urls_for kind role u)) = same_urls (mu_thumbnail (display_urls_for kind role u)) \<and>
   mu_original (display_urls_for kind role u) = u"
proof (cases "media_urls_of u = same_urls u")
  case True
  then show ?thesis by (simp add: display_urls_for_def same_urls_def)
next
  case False
  let ?P = "\<lambda>c. c = CHR ''?'' \<or> c = CHR ''#''"
  define path_end where "path_end = (case find_index ?P u of Some i \<Rightarrow> i | None \<Rightarrow> length u)"
  obtain dot where dot: "last_index CHR ''.'' (take path_end u) = Some dot"
    and urls: "media_urls_of u = \<lparr>mu_original = u, mu_hero = take dot u @ ''_hero.jpg'' @ drop path_end u,
      mu_thumbnail = take dot u @ ''_thumb.jpg'' @ drop path_end u\<rparr>"
    using False unfolding media_urls_of_def Let_def path_end_def [symmetric] by (auto split: option.splits if_splits)
  have plain: "list_all (\<lambda>c. c \<noteq> CHR ''?'' \<and> c \<noteq> CHR ''#'') (take path_end u)"
  proof (cases "find_index ?P u")
    case None
    then have "\<forall>c \<in> set u. \<not> ?P c" by (rule find_index_None [THEN iffD1])
    moreover have "take path_end u = u" unfolding path_end_def None by simp
    ultimately show ?thesis by (simp add: list_all_iff)
  next
    case (Some i)
    have "path_end = i" unfolding path_end_def Some by simp
    with find_index_Some [OF Some] show ?thesis by (simp add: list_all_length)
  qed
  have "dot < length (take path_end u)" using last_index_Some [OF dot] by blast
  then have "take dot u = take dot (take path_end u)" by simp
  then have "set (take dot u) \<subseteq> set (take path_end u)" by (metis set_take_subset)
  then have stem: "list_all (\<lambda>c. c \<noteq> CHR ''?'' \<and> c \<noteq> CHR ''#'') (take dot u)" using plain unfolding list_all_iff by blast
  have suffix: "drop path_end u = [] \<or> hd (drop path_end u) = CHR ''?'' \<or> hd (drop path_end u) = CHR ''#''"
  proof (cases "find_index ?P u")
    case (Some i)
    have "path_end = i" unfolding path_end_def Some by simp
    with find_index_Some [OF Some] show ?thesis by (simp add: hd_drop_conv_nth)
  next
    case None
    have "path_end = length u" unfolding path_end_def None by simp
    then show ?thesis by simp
  qed
  from rendition_is_fixed [OF stem _ suffix, of "''_hero''"] rendition_is_fixed [OF stem _ suffix, of "''_thumb''"]
  show ?thesis by (simp add: display_urls_for_def urls) (simp add: same_urls_def)
qed

section \<open>The order of conflicts\<close>

lemma compare_conflicts_key:
  assumes "key_comparator key loc"
  shows "compare_conflicts loc a b \<le> 0 \<longleftrightarrow>
    (c_name a \<noteq> CONFLICT_OTHER_NAME \<or> c_name b = CONFLICT_OTHER_NAME) \<and>
    ((c_name a = CONFLICT_OTHER_NAME) \<noteq> (c_name b = CONFLICT_OTHER_NAME) \<or> tier_rank a < tier_rank b \<or>
     tier_rank a = tier_rank b \<and> key (c_name a) \<le> key (c_name b))"
  using key_comparator.cmp_key [OF assms, of "c_name a" "c_name b"] by (auto simp: compare_conflicts_def Let_def)

text \<open>The order of the key: last-pinned, then rank, then name.\<close>

definition lex_le :: "bool \<times> int \<times> 'k \<Rightarrow> bool \<times> int \<times> 'k :: linorder \<Rightarrow> bool" where
  "lex_le x y \<longleftrightarrow> (case (x, y) of ((o1, t1, k1), (o2, t2, k2)) \<Rightarrow>
     (\<not> o1 \<or> o2) \<and> (o1 \<noteq> o2 \<or> t1 < t2 \<or> t1 = t2 \<and> k1 \<le> k2))"

lemma lex_le_total: "lex_le x y \<or> lex_le y x"
  by (cases x; cases y) (auto simp: lex_le_def)

lemma lex_le_trans: "lex_le x y \<Longrightarrow> lex_le y z \<Longrightarrow> lex_le x z"
  by (cases x; cases y; cases z) (auto simp: lex_le_def)

definition conflict_key :: "(jsstring \<Rightarrow> 'k) \<Rightarrow> conflict \<Rightarrow> bool \<times> int \<times> 'k" where
  "conflict_key key c = (c_name c = CONFLICT_OTHER_NAME, tier_rank c, key (c_name c))"

lemma compare_conflicts_lex:
  "key_comparator key loc \<Longrightarrow> compare_conflicts loc a b \<le> 0 \<longleftrightarrow> lex_le (conflict_key key a) (conflict_key key b)"
  by (simp add: compare_conflicts_key lex_le_def conflict_key_def)

lemma compare_conflicts_comparator:
  assumes "key_comparator key loc"
  shows "comparator (compare_conflicts loc)"
proof
  show "compare_conflicts loc a b \<le> 0 \<or> compare_conflicts loc b a \<le> 0" for a b
    unfolding compare_conflicts_lex [OF assms] by (rule lex_le_total)
  show "compare_conflicts loc a b \<le> 0 \<Longrightarrow> compare_conflicts loc b c \<le> 0 \<Longrightarrow> compare_conflicts loc a c \<le> 0" for a b c
    unfolding compare_conflicts_lex [OF assms] by (rule lex_le_trans)
qed

text \<open>
  Conflicts list by tier and then by name, the untiered after the tiered and \<open>Other\<close> after all, each once: the list
  is a reordering, and a later row is never due before an earlier one.
\<close>

theorem conflicts_in_order:
  assumes "key_comparator key loc"
  shows "mset (sort_conflicts loc cs) = mset cs \<and>
    sorted_wrt (\<lambda>a b. c_name b = CONFLICT_OTHER_NAME \<or> (c_name a \<noteq> CONFLICT_OTHER_NAME \<and>
      (tier_rank a < tier_rank b \<or> tier_rank a = tier_rank b \<and> key (c_name a) \<le> key (c_name b)))) (sort_conflicts loc cs)"
proof -
  have "sorted_wrt (\<lambda>a b. compare_conflicts loc a b \<le> 0) (sort_conflicts loc cs)"
    unfolding sort_conflicts_def by (rule comparator.sorted_sort_by [OF compare_conflicts_comparator [OF assms]])
  then show ?thesis
    by (auto simp: sort_conflicts_def compare_conflicts_key [OF assms] elim: sorted_wrt_mono_rel [rotated])
qed

definition two_conflicts :: "conflict list" where
  "two_conflicts = map (\<lambda>(name, tier). \<lparr>c_id = name, c_name = name, c_ongoing = False, c_start_year = None, c_end_year = None,
     c_tier = tier, c_wikidata = None\<rparr>) [(''Other'', None), (''Civil war'', Some Major)]"

theorem conflicts_in_order_witness:
  "mset (sort_conflicts (compare_on id) two_conflicts) = mset two_conflicts \<and>
   sorted_wrt (\<lambda>a b. c_name b = CONFLICT_OTHER_NAME \<or> (c_name a \<noteq> CONFLICT_OTHER_NAME \<and>
      (tier_rank a < tier_rank b \<or> tier_rank a = tier_rank b \<and> id (c_name a) \<le> id (c_name b)))) (sort_conflicts (compare_on id) two_conflicts)"
proof (rule conflicts_in_order)
  show "key_comparator id (compare_on id :: jsstring \<Rightarrow> jsstring \<Rightarrow> int)" by unfold_locales (auto simp: compare_on_def)
qed

end
