(* ===== verification/Profile_Edit.thy ===== *)
theory Profile_Edit
  imports Profiles Request_Hooks Event_History
begin

text \<open>
  \<open>components/profile/useProfileEdit.ts\<close>: the edit mode of a profile or an organization page. The
  drafts are seeded on entering, dropped on leaving; a save patches the profile, then uploads the picked
  picture or deletes the stored one. A picked file is a value of \<open>'f\<close>; the reading of its bytes for the
  preview and the save are events that land later.
\<close>

section \<open>State\<close>

definition BIO_MAX_LEN :: nat where
  "BIO_MAX_LEN = 500"

definition LINK_KEYS :: "link_platform list" where
  "LINK_KEYS = [On_x, On_discord, On_website, On_github]"

fun platform_key :: "link_platform \<Rightarrow> jsstring" where
  "platform_key On_x = ''x''"
| "platform_key On_discord = ''discord''"
| "platform_key On_website = ''website''"
| "platform_key On_github = ''github''"

type_synonym external_links = "link_platform \<Rightarrow> jsstring option"

record editable_profile =
  ep_bio :: "jsstring option"
  ep_avatar :: "jsstring option"
  ep_links :: external_links

text \<open>\<open>pe_reading\<close> is the file whose preview is being read by an effect not cleaned up.\<close>

record 'f profile_edit =
  pe_username :: jsstring
  pe_profile :: "editable_profile option"
  pe_editing :: bool
  pe_bio :: jsstring
  pe_file :: "'f option"
  pe_preview :: "jsstring option"
  pe_reading :: "'f option"
  pe_remove :: bool
  pe_saved :: "(jsstring \<times> jsstring option) option"
  pe_links :: external_links
  pe_save :: mutation_state

definition edit_mount :: "jsstring \<Rightarrow> editable_profile option \<Rightarrow> 'f profile_edit" where
  "edit_mount uname profile = \<lparr>pe_username = uname, pe_profile = profile, pe_editing = False, pe_bio = [],
     pe_file = None, pe_preview = None, pe_reading = None, pe_remove = False, pe_saved = None, pe_links = (\<lambda>_. None),
     pe_save = \<lparr>mu_loading = False, mu_error = None, mu_fields = []\<rparr>\<rparr>"

definition set_save_error :: "jsstring option \<Rightarrow> 'f profile_edit \<Rightarrow> 'f profile_edit" where
  "set_save_error e st = st\<lparr>pe_save := (pe_save st)\<lparr>mu_error := e\<rparr>\<rparr>"

text \<open>A new file starts the effect that reads it, and cleans up the one before.\<close>

definition set_file :: "'f option \<Rightarrow> 'f profile_edit \<Rightarrow> 'f profile_edit" where
  "set_file f st = (if f = pe_file st then st else st\<lparr>pe_file := f, pe_reading := f\<rparr>)"

definition drop_staged_avatar :: "'f profile_edit \<Rightarrow> 'f profile_edit" where
  "drop_staged_avatar st = (set_file None st)\<lparr>pe_preview := None\<rparr>"

section \<open>Handlers\<close>

definition start_editing :: "'f profile_edit \<Rightarrow> 'f profile_edit" where
  "start_editing st = (case pe_profile st of
       None \<Rightarrow> st
     | Some p \<Rightarrow> (set_save_error None (drop_staged_avatar (st\<lparr>pe_bio := (case ep_bio p of Some b \<Rightarrow> b | None \<Rightarrow> [])\<rparr>)))
         \<lparr>pe_remove := False, pe_saved := None, pe_links := ep_links p, pe_editing := True\<rparr>)"

definition cancel_editing :: "'f profile_edit \<Rightarrow> 'f profile_edit" where
  "cancel_editing st = set_save_error None ((drop_staged_avatar (st\<lparr>pe_editing := False\<rparr>))\<lparr>pe_remove := False\<rparr>)"

definition stage_avatar_file :: "'f option \<Rightarrow> 'f profile_edit \<Rightarrow> 'f profile_edit" where
  "stage_avatar_file f st = (if f \<noteq> None then set_file f st else drop_staged_avatar st)\<lparr>pe_remove := False\<rparr>"

definition remove_shown_avatar :: "'f profile_edit \<Rightarrow> 'f profile_edit" where
  "remove_shown_avatar st = (let was_staged = pe_file st \<noteq> None; st' = drop_staged_avatar st
     in if was_staged then st' else st'\<lparr>pe_remove := True\<rparr>)"

definition preview_lands :: "jsstring option \<Rightarrow> 'f profile_edit \<Rightarrow> 'f profile_edit" where
  "preview_lands read st = (if pe_reading st = None then st else st\<lparr>pe_preview := read, pe_reading := None\<rparr>)"

definition bio_over :: "'f profile_edit \<Rightarrow> bool" where
  "bio_over st \<longleftrightarrow> BIO_MAX_LEN < length (pe_bio st)"

text \<open>A render with the props: another username leaves the edit mode.\<close>

definition edit_render :: "jsstring \<Rightarrow> editable_profile option \<Rightarrow> 'f profile_edit \<Rightarrow> 'f profile_edit" where
  "edit_render uname profile st = (let st' = st\<lparr>pe_username := uname, pe_profile := profile\<rparr>
     in if uname = pe_username st then st' else set_save_error None (st'\<lparr>pe_editing := False\<rparr>))"

section \<open>What the page shows\<close>

datatype 'f avatar_preview = Staged_pic 'f "jsstring option" | Stored_pic jsstring | No_pic

definition stored_avatar_url :: "'f profile_edit \<Rightarrow> jsstring option" where
  "stored_avatar_url st = (case pe_saved st of
       Some (uname, u) \<Rightarrow> if uname = pe_username st then u else Option.bind (pe_profile st) ep_avatar
     | None \<Rightarrow> Option.bind (pe_profile st) ep_avatar)"

definition truthy_text :: "jsstring option \<Rightarrow> bool" where
  "truthy_text v \<longleftrightarrow> v \<noteq> None \<and> v \<noteq> Some []"

definition avatar_preview_of :: "'f profile_edit \<Rightarrow> 'f avatar_preview" where
  "avatar_preview_of st =
     (let stored = (if truthy_text (stored_avatar_url st) then Stored_pic (the (stored_avatar_url st)) else No_pic)
      in if pe_editing st then (case pe_file st of
             Some f \<Rightarrow> Staged_pic f (pe_preview st)
           | None \<Rightarrow> if pe_remove st then No_pic else stored)
         else stored)"

section \<open>The save\<close>

datatype 'f avatar_call = Upload_avatar 'f | Delete_avatar | No_avatar_call

definition avatar_call_of :: "'f profile_edit \<Rightarrow> 'f avatar_call" where
  "avatar_call_of st = (case pe_file st of
       Some f \<Rightarrow> Upload_avatar f
     | None \<Rightarrow> if pe_remove st \<and> truthy_text (Option.bind (pe_profile st) ep_avatar) then Delete_avatar else No_avatar_call)"

definition profile_body :: "'f profile_edit \<Rightarrow> json" where
  "profile_body st = JObj [(''bio'', JStr (pe_bio st)),
     (''external_links'', JObj (map (\<lambda>k. (platform_key k, json_option (pe_links st k))) LINK_KEYS))]"

text \<open>The answers of the two calls: the patch, then the picture's where one was made, its stored address.\<close>

definition save_outcome :: "'f avatar_call \<Rightarrow> thrown option \<Rightarrow> thrown + jsstring option \<Rightarrow> thrown + jsstring option option" where
  "save_outcome call patched pictured = (case patched of
       Some err \<Rightarrow> Inl err
     | None \<Rightarrow> (case call of
         No_avatar_call \<Rightarrow> Inr None
       | _ \<Rightarrow> (case pictured of Inl err \<Rightarrow> Inl err | Inr u \<Rightarrow> Inr (Some u))))"

definition start_save :: "'f profile_edit \<Rightarrow> 'f profile_edit" where
  "start_save st = st\<lparr>pe_save := mutation_start (pe_save st)\<rparr>"

definition save_refused :: "thrown \<Rightarrow> 'f profile_edit \<Rightarrow> 'f profile_edit" where
  "save_refused err st = st\<lparr>pe_save :=
     (mutation_refused (map platform_key LINK_KEYS) (\<lambda>_. None) ''Failed to save'' err (pe_save st))\<lparr>mu_loading := False\<rparr>\<rparr>"

text \<open>The calls answered: a refusal ends the save; else \<open>onSuccess\<close> adopts the picture under the username of the
  save, and waits for the session to be reread. Until then the page stays in the edit mode and the save loads.\<close>

definition save_answered :: "jsstring \<Rightarrow> thrown + jsstring option option \<Rightarrow> 'f profile_edit \<Rightarrow> 'f profile_edit" where
  "save_answered uname outcome st = (case outcome of
       Inl err \<Rightarrow> save_refused err st
     | Inr None \<Rightarrow> st
     | Inr (Some u) \<Rightarrow> st\<lparr>pe_saved := Some (uname, u)\<rparr>)"

text \<open>The session was reread, or the reading threw: the edit mode ends, or the save is refused within it.\<close>

definition save_refreshed :: "thrown option \<Rightarrow> 'f profile_edit \<Rightarrow> 'f profile_edit" where
  "save_refreshed refreshed st = (case refreshed of
       Some err \<Rightarrow> save_refused err st
     | None \<Rightarrow> (drop_staged_avatar st)\<lparr>pe_remove := False, pe_editing := False,
         pe_save := (pe_save st)\<lparr>mu_loading := False\<rparr>\<rparr>)"

text \<open>The two waits are those of the write hook.\<close>

lemma save_runs_the_mutation:
  "pe_save (case outcome of Inl err \<Rightarrow> save_answered uname outcome (start_save st)
      | Inr r \<Rightarrow> save_refreshed refreshed (save_answered uname outcome (start_save st))) =
    snd (mutation_run (map platform_key LINK_KEYS) (\<lambda>_. None) ''Failed to save'' outcome (\<lambda>_. refreshed) (pe_save st))"
  by (simp add: mutation_run_def save_answered_def save_refreshed_def save_refused_def start_save_def
      drop_staged_avatar_def set_file_def Let_def split: sum.split option.split)

section \<open>Runs\<close>

text \<open>The edit controls show in the edit mode only; an answer, a read and a render come at any time.\<close>

datatype 'f edit_event =
    Render jsstring "editable_profile option"
  | Start
  | Cancel_edit
  | Type_bio jsstring
  | Type_link link_platform "jsstring option"
  | Stage "'f option"
  | Remove_shown
  | Read "jsstring option"
  | Save
  | Calls_answered jsstring "thrown + jsstring option option"
  | Session_reread "thrown option"

fun edit_step :: "'f edit_event \<Rightarrow> 'f profile_edit \<Rightarrow> 'f profile_edit" where
  "edit_step (Render uname profile) st = edit_render uname profile st"
| "edit_step Start st = start_editing st"
| "edit_step Cancel_edit st = cancel_editing st"
| "edit_step (Type_bio v) st = st\<lparr>pe_bio := v\<rparr>"
| "edit_step (Type_link k v) st = st\<lparr>pe_links := (pe_links st)(k := v)\<rparr>"
| "edit_step (Stage f) st = stage_avatar_file f st"
| "edit_step Remove_shown st = remove_shown_avatar st"
| "edit_step (Read u) st = preview_lands u st"
| "edit_step Save st = start_save st"
| "edit_step (Calls_answered uname outcome) st = save_answered uname outcome st"
| "edit_step (Session_reread refreshed) st = save_refreshed refreshed st"

definition edit_run :: "jsstring \<Rightarrow> editable_profile option \<Rightarrow> 'f edit_event list \<Rightarrow> 'f profile_edit" where
  "edit_run uname profile es = fold edit_step es (edit_mount uname profile)"

lemma edit_run_snoc: "edit_run uname profile (es @ [e]) = edit_step e (edit_run uname profile es)"
  by (simp add: edit_run_def)

definition edit_ok :: "'f profile_edit \<Rightarrow> bool" where
  "edit_ok st \<longleftrightarrow> (pe_file st \<noteq> None \<longrightarrow> \<not> pe_remove st) \<and>
     (pe_file st = None \<longrightarrow> pe_preview st = None \<and> pe_reading st = None) \<and>
     (pe_reading st = None \<or> pe_reading st = pe_file st)"

lemmas edit_defs = set_file_def drop_staged_avatar_def start_editing_def cancel_editing_def stage_avatar_file_def
  remove_shown_avatar_def preview_lands_def edit_render_def set_save_error_def start_save_def save_refused_def
  save_answered_def save_refreshed_def Let_def

lemma edit_step_ok: "edit_ok st \<Longrightarrow> edit_ok (edit_step e st)"
  by (cases e) (auto simp: edit_ok_def edit_defs split: option.splits sum.splits)

lemma edit_run_ok: "edit_ok (edit_run uname profile es)"
proof (induction es rule: rev_induct)
  case Nil
  show ?case by (simp add: edit_run_def edit_mount_def edit_ok_def)
next
  case (snoc e es)
  then show ?case by (simp add: edit_run_snoc edit_step_ok)
qed

text \<open>
  C40. What the picture control shows is what a save does, after any run in the edit mode: a staged picture is what
  the save uploads, and a pick and a removal are never both staged; a stored picture shown is left alone; only where no
  picture is shown does the save delete one. While the stored picture the control goes by is that of the profile as last
  read, which holds until a save adopts a picture and again once the profile is reread with it, the stored picture shown
  is the profile's, and no picture shown means it is deleted or there is none. A preview is never kept without its pick.
\<close>

theorem shown_picture_is_what_a_save_does:
  assumes "st = edit_run uname profile es" "pe_editing st"
  shows "(case avatar_preview_of st of
      Staged_pic f u \<Rightarrow> avatar_call_of st = Upload_avatar f \<and> \<not> pe_remove st
    | Stored_pic u \<Rightarrow> avatar_call_of st = No_avatar_call \<and>
        (stored_avatar_url st = Option.bind (pe_profile st) ep_avatar \<longrightarrow> Option.bind (pe_profile st) ep_avatar = Some u)
    | No_pic \<Rightarrow> avatar_call_of st = Delete_avatar \<or> avatar_call_of st = No_avatar_call \<and>
        (stored_avatar_url st = Option.bind (pe_profile st) ep_avatar \<longrightarrow> \<not> truthy_text (Option.bind (pe_profile st) ep_avatar))) \<and>
    (pe_saved st = None \<longrightarrow> stored_avatar_url st = Option.bind (pe_profile st) ep_avatar) \<and>
    (pe_file st = None \<longrightarrow> pe_preview st = None)"
proof -
  have "edit_ok st" using assms(1) edit_run_ok by simp
  then show ?thesis
    using assms(2)
    by (auto simp: edit_ok_def avatar_preview_of_def avatar_call_of_def stored_avatar_url_def truthy_text_def Let_def
        split: option.splits)
qed

text \<open>
  In between the control and the save part: a picture uploaded by a save whose session could not be reread is shown as
  stored before the profile is reread, and removing it there makes no call, so it stays stored.
\<close>

lemma removal_before_the_reread_is_lost:
  assumes "pe_editing st" "pe_file st = None" "pe_username st = uname" "\<not> truthy_text (Option.bind (pe_profile st) ep_avatar)"
    "u \<noteq> []"
    and "saved = fold edit_step [Stage (Some f), Save, Calls_answered uname (Inr (Some (Some u))), Session_reread (Some err), Remove_shown] st"
  shows "avatar_preview_of saved = Stored_pic u" "avatar_preview_of (edit_step Remove_shown saved) = No_pic"
    "avatar_call_of (edit_step Remove_shown saved) = No_avatar_call"
  using assms(1-5) unfolding assms(6)
  by (simp_all add: avatar_preview_of_def avatar_call_of_def stored_avatar_url_def truthy_text_def edit_defs)

text \<open>
  Every platform is in the body of a save, null where it is empty, so a cleared link is not left
  behind by the wholesale replacement.
\<close>

lemma save_posts_every_platform:
  "\<exists>links. profile_body st = JObj [(''bio'', JStr (pe_bio st)), (''external_links'', JObj links)] \<and>
     map fst links = map platform_key LINK_KEYS \<and> distinct (map fst links) \<and> (\<forall>k. map_of links (platform_key k) = Some (json_option (pe_links st k)))"
proof -
  have "map_of (map (\<lambda>k. (platform_key k, json_option (pe_links st k))) LINK_KEYS) (platform_key k) = Some (json_option (pe_links st k))" for k
    by (cases k) (simp_all add: LINK_KEYS_def)
  then show ?thesis by (simp add: profile_body_def LINK_KEYS_def comp_def)
qed

text \<open>
  A second pick shows the first one's preview under the second file's name until the second is
  read, where the preview's type says a staged picture carries no address while its bytes are read.
\<close>

lemma second_pick_shows_the_first_preview:
  assumes "pe_editing st" "f \<noteq> g"
  shows "avatar_preview_of (edit_step (Stage (Some g)) (edit_step (Read (Some u)) (edit_step (Stage (Some f)) (edit_step (Stage None) st)))) =
    Staged_pic g (Some u)"
  using assms by (simp add: avatar_preview_of_def edit_defs)

section \<open>Witnesses\<close>

definition example_profile :: editable_profile where
  "example_profile = \<lparr>ep_bio = None, ep_avatar = Some ''/a.png'', ep_links = (\<lambda>_. None)\<rparr>"

lemma shown_picture_is_what_a_save_does_witness:
  "avatar_call_of (edit_run ''ann'' (Some example_profile) [Start, Stage (Some True), Remove_shown, Remove_shown]) = Delete_avatar"
proof -
  let ?st = "edit_run ''ann'' (Some example_profile) [Start, Stage (Some True), Remove_shown, Remove_shown]"
  have st: "pe_editing ?st" "pe_saved ?st = None" "avatar_preview_of ?st = No_pic" "pe_profile ?st = Some example_profile"
    by (simp_all add: edit_run_def edit_mount_def edit_defs avatar_preview_of_def example_profile_def)
  have "truthy_text (Option.bind (pe_profile ?st) ep_avatar)"
    unfolding st(4) by (simp add: truthy_text_def example_profile_def)
  then show ?thesis
    using shown_picture_is_what_a_save_does [OF refl st(1)] st(2) unfolding st(3) avatar_preview.case by blast
qed

lemma removal_before_the_reread_is_lost_witness:
  "avatar_call_of (edit_run ''ann'' (Some (example_profile\<lparr>ep_avatar := None\<rparr>)) [Start, Stage (Some True), Save,
     Calls_answered ''ann'' (Inr (Some (Some ''/b.png''))), Session_reread (Some (Error_thrown ''gone'')), Remove_shown, Remove_shown]) = No_avatar_call"
proof -
  let ?st = "edit_run ''ann'' (Some (example_profile\<lparr>ep_avatar := None\<rparr>)) [Start]"
  have "pe_editing ?st" "pe_file ?st = None" "pe_username ?st = ''ann''"
    "\<not> truthy_text (Option.bind (pe_profile ?st) ep_avatar)"
    by (simp_all add: edit_run_def edit_mount_def edit_defs example_profile_def truthy_text_def)
  from removal_before_the_reread_is_lost(3) [OF this _ refl, of "''/b.png''" True "Error_thrown ''gone''"] show ?thesis
    by (simp add: edit_run_def)
qed

lemma second_pick_shows_the_first_preview_witness:
  "avatar_preview_of (edit_step (Stage (Some (2::nat))) (edit_step (Read (Some ''data:1'')) (edit_step (Stage (Some 1))
     (edit_step (Stage None) (edit_run ''ann'' (Some example_profile) [Start]))))) = Staged_pic 2 (Some ''data:1'')"
  by (rule second_pick_shows_the_first_preview)
    (simp_all add: edit_run_def edit_mount_def edit_defs example_profile_def)

end
