(* ===== verification/Session_State.thy ===== *)
theory Session_State
  imports Api_Errors Navigation Preferences "HOL-Library.Multiset"
begin

text \<open>
  \<open>contexts/AuthContext.tsx\<close> with the hooks that read it (\<open>hooks/useRequireAuth.ts\<close>,
  \<open>hooks/useRedirectIfAuthenticated.ts\<close>) and \<open>components/SessionEndedNotice.tsx\<close>: who is signed in.
  The provider's state, refs and requests in flight are one record; an answer that lands, the retry
  timer and each call of the provider are the labels of a step relation. The user is whatever
  \<open>/auth/me\<close> answers. Cookies change under the page at any time, so a step that reads them names them.
\<close>

section \<open>The provider\<close>

text \<open>In flight: a read of \<open>/auth/me\<close> with the version it started from and whether a transient failure
  is retried, the timer of that retry, and the read that checks a rejection.\<close>

datatype in_flight = Me_read nat bool | Retry_timer | Me_recheck nat

record 'u auth_state =
  as_user :: "'u option"
  as_loading :: bool
  as_ended :: bool
  as_version :: nat
  as_signed_in :: bool
  as_rechecking :: bool
  as_flight :: "in_flight multiset"
  as_client :: client
  as_destination :: "jsstring option"

text \<open>The held-session record is one key of the window's storage.\<close>

definition on_storage :: "(storage \<Rightarrow> storage) \<Rightarrow> client \<Rightarrow> client" where
  "on_storage f w = (case w of None \<Rightarrow> None
     | Some b \<Rightarrow> (case f (Some (br_local b)) of Some m \<Rightarrow> Some (b\<lparr>br_local := m\<rparr>) | None \<Rightarrow> w))"

definition set_user :: "'u option \<Rightarrow> 'u auth_state \<Rightarrow> 'u auth_state" where
  "set_user next st = st\<lparr>as_signed_in := next \<noteq> None,
     as_client := (if next \<noteq> None then on_storage (mark_session_held True) (as_client st) else as_client st),
     as_user := next\<rparr>"

definition settle_signed_out :: "'u auth_state \<Rightarrow> 'u auth_state" where
  "settle_signed_out st = (let st = set_user None st;
       taken = fst (take_ended_session (map_option br_local (as_client st)))
     in st\<lparr>as_client := on_storage (\<lambda>m. snd (take_ended_session m)) (as_client st),
          as_ended := (taken \<or> as_ended st)\<rparr>)"

definition fetch_user :: "(jsstring \<Rightarrow> jsstring option) \<Rightarrow> jsstring \<Rightarrow> bool \<Rightarrow> 'u auth_state \<Rightarrow> 'u auth_state" where
  "fetch_user decode cookie retry st =
     (if \<not> has_session_cookie decode cookie then (settle_signed_out st)\<lparr>as_loading := False\<rparr>
      else st\<lparr>as_flight := add_mset (Me_read (as_version st) retry) (as_flight st)\<rparr>)"

definition auth_failure :: "thrown \<Rightarrow> bool" where
  "auth_failure err \<longleftrightarrow> (case err of Api_thrown e \<Rightarrow> ae_status e = 401 \<or> ae_status e = 403 | _ \<Rightarrow> False)"

text \<open>\<open>fetchUser\<close> after its \<open>await\<close>.\<close>

definition me_read_lands :: "nat \<Rightarrow> bool \<Rightarrow> thrown + 'u \<Rightarrow> 'u auth_state \<Rightarrow> 'u auth_state" where
  "me_read_lands version retry answer st =
     (if version \<noteq> as_version st then st
      else (case answer of
          Inr me \<Rightarrow> (set_user (Some me) st)\<lparr>as_loading := False\<rparr>
        | Inl err \<Rightarrow>
            if \<not> auth_failure err \<and> retry then st\<lparr>as_flight := add_mset Retry_timer (as_flight st)\<rparr>
            else (if auth_failure err then settle_signed_out st else st)\<lparr>as_loading := False\<rparr>))"

text \<open>The session listener: what it answers \<open>apiFetch\<close>, and the provider after it.\<close>

definition session_rejected :: "'u auth_state \<Rightarrow> bool \<times> 'u auth_state" where
  "session_rejected st =
     (if \<not> as_signed_in st then (False, st)
      else if as_rechecking st then (True, st)
      else (True, st\<lparr>as_rechecking := True, as_flight := add_mset (Me_recheck (as_version st)) (as_flight st)\<rparr>))"

definition recheck_lands :: "nat \<Rightarrow> thrown + 'u \<Rightarrow> 'u auth_state \<Rightarrow> 'u auth_state" where
  "recheck_lands version answer st =
     (let st' = (if version \<noteq> as_version st then st
        else (case answer of
            Inr me \<Rightarrow> set_user (Some me) st
          | Inl (Api_thrown e) \<Rightarrow>
              if ae_status e = 401
              then (let st = set_user None (st\<lparr>as_version := as_version st + 1\<rparr>)
                in st\<lparr>as_client := on_storage (mark_session_held False) (as_client st), as_ended := True\<rparr>)
              else st
          | Inl _ \<Rightarrow> st))
      in st'\<lparr>as_rechecking := False\<rparr>)"

definition login_lands :: "thrown + 'u \<Rightarrow> 'u auth_state \<Rightarrow> 'u auth_state" where
  "login_lands answer st = (case answer of
       Inl _ \<Rightarrow> st
     | Inr me \<Rightarrow> (set_user (Some me) (st\<lparr>as_version := as_version st + 1\<rparr>))\<lparr>as_ended := False\<rparr>)"

text \<open>\<open>logout\<close> once the server call ended, either way; \<open>hardNavigate\<close> records where the page goes.\<close>

definition logout_lands :: "'u auth_state \<Rightarrow> 'u auth_state" where
  "logout_lands st = (let st = set_user None (st\<lparr>as_version := as_version st + 1\<rparr>);
       w = clear_display (on_storage (mark_session_held False) (as_client st))
     in st\<lparr>as_client := w, as_destination := (if w \<noteq> None then Some ''/login'' else as_destination st)\<rparr>)"

definition dismiss_session_ended :: "'u auth_state \<Rightarrow> 'u auth_state" where
  "dismiss_session_ended st = st\<lparr>as_ended := False\<rparr>"

text \<open>A page load: the initial state and the effect that reads the user.\<close>

definition auth_boot :: "(jsstring \<Rightarrow> jsstring option) \<Rightarrow> jsstring \<Rightarrow> client \<Rightarrow> 'u auth_state" where
  "auth_boot decode cookie w = fetch_user decode cookie True
     \<lparr>as_user = None, as_loading = True, as_ended = False, as_version = 0, as_signed_in = False, as_rechecking = False,
      as_flight = {#}, as_client = w, as_destination = None\<rparr>"

section \<open>Steps\<close>

datatype 'u auth_event =
    Refresh jsstring
  | Me_lands nat bool "thrown + 'u"
  | Retry_fires jsstring
  | Rejection
  | Recheck_lands nat "thrown + 'u"
  | Login_lands "thrown + 'u"
  | Logout_lands
  | Dismiss

definition landed :: "in_flight \<Rightarrow> 'u auth_state \<Rightarrow> 'u auth_state" where
  "landed p st = st\<lparr>as_flight := as_flight st - {#p#}\<rparr>"

inductive auth_step :: "(jsstring \<Rightarrow> jsstring option) \<Rightarrow> 'u auth_event \<Rightarrow> 'u auth_state \<Rightarrow> 'u auth_state \<Rightarrow> bool"
  for decode where
  refresh: "auth_step decode (Refresh cookie) st (fetch_user decode cookie True st)"
| me_lands: "Me_read v r \<in># as_flight st \<Longrightarrow>
    auth_step decode (Me_lands v r answer) st (me_read_lands v r answer (landed (Me_read v r) st))"
| retry_fires: "Retry_timer \<in># as_flight st \<Longrightarrow>
    auth_step decode (Retry_fires cookie) st (fetch_user decode cookie False (landed Retry_timer st))"
| rejection: "auth_step decode Rejection st (snd (session_rejected st))"
| recheck_lands: "Me_recheck v \<in># as_flight st \<Longrightarrow>
    auth_step decode (Recheck_lands v answer) st (recheck_lands v answer (landed (Me_recheck v) st))"
| login_lands: "auth_step decode (Login_lands answer) st (login_lands answer st)"
| logout_lands: "auth_step decode Logout_lands st (logout_lands st)"
| dismiss: "auth_step decode Dismiss st (dismiss_session_ended st)"

inductive_cases auth_stepE: "auth_step decode e st st'"

inductive auth_steps :: "(jsstring \<Rightarrow> jsstring option) \<Rightarrow> 'u auth_event list \<Rightarrow> 'u auth_state \<Rightarrow> 'u auth_state \<Rightarrow> bool"
  for decode where
  none: "auth_steps decode [] st st"
| more: "auth_step decode e st st' \<Longrightarrow> auth_steps decode es st' st'' \<Longrightarrow> auth_steps decode (e # es) st st''"

inductive_cases auth_steps_NilE: "auth_steps decode [] st st'"
inductive_cases auth_steps_ConsE: "auth_steps decode (e # es) st st'"

section \<open>What the pages do with it\<close>

text \<open>\<open>useRequireAuth\<close> and \<open>useRedirectIfAuthenticated\<close>: where the effect replaces the page to, if at all.\<close>

definition require_auth_redirect :: "jsstring \<Rightarrow> jsstring \<Rightarrow> 'u auth_state \<Rightarrow> jsstring option" where
  "require_auth_redirect pathname search st =
     (if \<not> as_loading st \<and> as_user st = None then Some (login_next (pathname @ search)) else None)"

definition redirect_if_authenticated :: "jsstring \<Rightarrow> 'u auth_state \<Rightarrow> jsstring option" where
  "redirect_if_authenticated target st = (if \<not> as_loading st \<and> as_user st \<noteq> None then Some target else None)"

definition AUTH_ROUTES :: "jsstring list" where
  "AUTH_ROUTES = [''/login'', ''/register'', ''/registration-pending'', ''/confirm-registration'',
     ''/resend-confirmation'', ''/forgot-password'', ''/reset-password'']"

definition is_auth_route :: "jsstring \<Rightarrow> bool" where
  "is_auth_route pathname \<longleftrightarrow> list_ex (starts_with pathname) AUTH_ROUTES"

text \<open>The notice: nothing, or its link back (none on the sign-in page).\<close>

definition session_ended_notice :: "jsstring option \<Rightarrow> 'u auth_state \<Rightarrow> jsstring option option" where
  "session_ended_notice path st =
     (let pathname = (case path of Some p \<Rightarrow> p | None \<Rightarrow> ''/''); on_sign_in = pathname = ''/login''
      in if \<not> as_ended st \<or> as_user st \<noteq> None \<or> is_auth_route pathname \<and> \<not> on_sign_in then None
         else Some (if on_sign_in then None else Some (login_next pathname)))"

section \<open>The provider stays consistent\<close>

fun started_by :: "nat \<Rightarrow> in_flight \<Rightarrow> bool" where
  "started_by n (Me_read v _) = (v \<le> n)"
| "started_by n (Me_recheck v) = (v \<le> n)"
| "started_by n Retry_timer = True"

fun is_recheck :: "in_flight \<Rightarrow> bool" where
  "is_recheck (Me_recheck _) = True"
| "is_recheck _ = False"

definition held_recorded :: "client \<Rightarrow> bool" where
  "held_recorded w \<longleftrightarrow> (case w of None \<Rightarrow> True | Some b \<Rightarrow> br_local b HELD_KEY = Some ''1'')"

definition rechecks :: "'u auth_state \<Rightarrow> nat" where
  "rechecks st = size (filter_mset is_recheck (as_flight st))"

text \<open>A read of the user at the current version, or the timer that repeats it, is still to come.\<close>

definition boot_pending :: "'u auth_state \<Rightarrow> bool" where
  "boot_pending st \<longleftrightarrow> Retry_timer \<in># as_flight st \<or> (\<exists>r. Me_read (as_version st) r \<in># as_flight st)"

definition auth_core :: "'u auth_state \<Rightarrow> bool" where
  "auth_core st \<longleftrightarrow>
     as_signed_in st = (as_user st \<noteq> None) \<and>
     rechecks st = of_bool (as_rechecking st) \<and>
     (\<forall>p \<in># as_flight st. started_by (as_version st) p) \<and>
     (as_user st \<noteq> None \<longrightarrow> held_recorded (as_client st))"

definition auth_ok :: "'u auth_state \<Rightarrow> bool" where
  "auth_ok st \<longleftrightarrow> auth_core st \<and> (as_loading st \<longrightarrow> boot_pending st \<or> 0 < as_version st)"

lemma started_by_Suc: "started_by n p \<Longrightarrow> started_by (Suc n) p"
  by (cases p) simp_all

lemma held_after_mark [simp]: "held_recorded (on_storage (mark_session_held True) w)"
  by (simp add: held_recorded_def on_storage_def mark_session_held_def split: option.split)

lemma rechecks_updates [simp]:
  "rechecks (st\<lparr>as_user := u\<rparr>) = rechecks st" "rechecks (st\<lparr>as_loading := l\<rparr>) = rechecks st"
  "rechecks (st\<lparr>as_ended := ended\<rparr>) = rechecks st" "rechecks (st\<lparr>as_version := v\<rparr>) = rechecks st"
  "rechecks (st\<lparr>as_signed_in := i\<rparr>) = rechecks st" "rechecks (st\<lparr>as_rechecking := r\<rparr>) = rechecks st"
  "rechecks (st\<lparr>as_client := w\<rparr>) = rechecks st" "rechecks (st\<lparr>as_destination := d\<rparr>) = rechecks st"
  "rechecks (st\<lparr>as_flight := add_mset p (as_flight st')\<rparr>) = of_bool (is_recheck p) + rechecks st'"
  by (simp_all add: rechecks_def)

lemma landed_simps [simp]:
  "as_user (landed q st) = as_user st" "as_loading (landed q st) = as_loading st" "as_ended (landed q st) = as_ended st"
  "as_version (landed q st) = as_version st" "as_signed_in (landed q st) = as_signed_in st"
  "as_rechecking (landed q st) = as_rechecking st" "as_client (landed q st) = as_client st"
  by (simp_all add: landed_def)

lemma in_landed: "p \<in># as_flight (landed q st) \<Longrightarrow> p \<in># as_flight st"
  by (simp add: landed_def in_diffD)

lemma rechecks_landed: "\<not> is_recheck q \<Longrightarrow> rechecks (landed q st) = rechecks st"
  by (simp add: rechecks_def landed_def filter_diff_mset)

lemma rechecks_landed_recheck:
  assumes "q \<in># as_flight st" "is_recheck q"
  shows "Suc (rechecks (landed q st)) = rechecks st"
proof -
  obtain rest where "as_flight st = add_mset q rest" using multi_member_split [OF assms(1)] by blast
  then show ?thesis using assms(2) by (simp add: rechecks_def landed_def)
qed

lemma boot_pending_landed:
  assumes "boot_pending st" "q \<noteq> Retry_timer" "\<And>r. q \<noteq> Me_read (as_version st) r"
  shows "boot_pending (landed q st)"
  using assms by (auto simp: boot_pending_def landed_def in_diff_count)

text \<open>What every operation builds on: the user is set, a session settles, a version starts.\<close>

lemma core_set_user: "auth_core st \<Longrightarrow> auth_core (set_user next st)"
  by (simp add: auth_core_def set_user_def)

lemma core_landed: "auth_core st \<Longrightarrow> \<not> is_recheck q \<Longrightarrow> auth_core (landed q st)"
  by (auto simp: auth_core_def rechecks_landed dest: in_landed)

lemma core_flags [simp]:
  "auth_core (st\<lparr>as_loading := l\<rparr>) = auth_core st" "auth_core (st\<lparr>as_ended := ended\<rparr>) = auth_core st"
  "auth_core (st\<lparr>as_destination := d\<rparr>) = auth_core st"
  by (simp_all add: auth_core_def)

lemma core_signed_out_client: "auth_core st \<Longrightarrow> as_user st = None \<Longrightarrow> auth_core (st\<lparr>as_client := w\<rparr>)"
  by (simp add: auth_core_def)

lemma set_user_simps [simp]:
  "as_user (set_user next st) = next" "as_loading (set_user next st) = as_loading st"
  "as_version (set_user next st) = as_version st" "as_flight (set_user next st) = as_flight st"
  by (simp_all add: set_user_def)

lemma core_settle: "auth_core st \<Longrightarrow> auth_core (settle_signed_out st)"
  unfolding settle_signed_out_def Let_def by (simp add: core_signed_out_client core_set_user)

lemma core_next_version: "auth_core st \<Longrightarrow> auth_core (st\<lparr>as_version := as_version st + 1\<rparr>)"
  by (auto simp: auth_core_def intro: started_by_Suc)

lemma core_flight:
  "auth_core st \<Longrightarrow> started_by (as_version st) p \<Longrightarrow> \<not> is_recheck p \<Longrightarrow>
   auth_core (st\<lparr>as_flight := add_mset p (as_flight st)\<rparr>)"
  by (simp add: auth_core_def)

lemma pending_after_flight: "boot_pending st \<Longrightarrow> boot_pending (st\<lparr>as_flight := add_mset p (as_flight st)\<rparr>)"
  by (auto simp: boot_pending_def)

lemma ok_fetch: "auth_core st \<Longrightarrow> auth_ok (fetch_user decode cookie retry st)"
  by (auto simp: auth_ok_def fetch_user_def core_settle core_flight boot_pending_def)

lemma ok_me_read:
  assumes "auth_ok st"
  shows "auth_ok (me_read_lands v r answer (landed (Me_read v r) st))"
proof (cases "v = as_version st")
  case True
  then show ?thesis using assms core_landed [of st "Me_read v r"]
    by (auto simp: auth_ok_def me_read_lands_def core_set_user core_settle core_flight boot_pending_def split: sum.split)
next
  case False
  then show ?thesis using assms core_landed [of st "Me_read v r"] boot_pending_landed [of st "Me_read v r"]
    by (auto simp: auth_ok_def me_read_lands_def)
qed

lemma ok_recheck:
  assumes "auth_ok st" "Me_recheck v \<in># as_flight st"
  shows "auth_ok (recheck_lands v answer (landed (Me_recheck v) st))"
proof -
  let ?st = "landed (Me_recheck v) st"
  have "rechecks ?st = 0"
    using rechecks_landed_recheck [OF assms(2)] assms(1) by (cases "as_rechecking st") (simp_all add: auth_ok_def auth_core_def)
  then have rest: "auth_core (?st\<lparr>as_rechecking := False\<rparr>)"
    using assms(1) by (auto simp: auth_ok_def auth_core_def dest: in_landed)
  have pending: "as_loading st \<longrightarrow> boot_pending ?st \<or> 0 < as_version st"
    using assms(1) boot_pending_landed [of st "Me_recheck v"] by (auto simp: auth_ok_def)
  have swap: "(set_user u s)\<lparr>as_rechecking := False\<rparr> = set_user u (s\<lparr>as_rechecking := False\<rparr>)" for u and s :: "'a auth_state"
    by (simp add: set_user_def)
  have "recheck_lands v answer ?st = (if v \<noteq> as_version st then ?st\<lparr>as_rechecking := False\<rparr>
      else (case answer of Inr me \<Rightarrow> set_user (Some me) (?st\<lparr>as_rechecking := False\<rparr>)
        | Inl (Api_thrown e) \<Rightarrow> if ae_status e = 401
            then (let s = set_user None (?st\<lparr>as_rechecking := False, as_version := as_version st + 1\<rparr>)
              in s\<lparr>as_client := on_storage (mark_session_held False) (as_client s), as_ended := True\<rparr>)
            else ?st\<lparr>as_rechecking := False\<rparr>
        | Inl _ \<Rightarrow> ?st\<lparr>as_rechecking := False\<rparr>))"
    by (simp add: recheck_lands_def Let_def set_user_def split: sum.split thrown.split)
  then show ?thesis
    using rest pending core_next_version [OF rest]
    by (auto simp: auth_ok_def boot_pending_def core_set_user core_signed_out_client Let_def split: sum.split thrown.split)
qed

lemma provider_step: "auth_step decode e st st' \<Longrightarrow> auth_ok st \<Longrightarrow> auth_ok st'"
proof (induction rule: auth_step.induct)
  case (retry_fires st cookie)
  then have "auth_core (landed Retry_timer st)" by (simp add: core_landed auth_ok_def)
  then show ?case by (rule ok_fetch)
next
  case (rejection st)
  then show ?case by (auto simp: auth_ok_def auth_core_def session_rejected_def boot_pending_def)
next
  case (login_lands answer st)
  then show ?case using core_next_version [of st]
    by (cases answer) (auto simp: auth_ok_def login_lands_def core_set_user)
next
  case (logout_lands st)
  then show ?case using core_next_version [of st]
    by (auto simp: auth_ok_def logout_lands_def Let_def core_set_user core_signed_out_client)
next
  case (dismiss st)
  then show ?case by (simp add: auth_ok_def dismiss_session_ended_def boot_pending_def)
qed (simp_all add: ok_fetch ok_me_read ok_recheck auth_ok_def [THEN iffD1, THEN conjunct1])

lemma provider_steps: "auth_steps decode es st st' \<Longrightarrow> auth_ok st \<Longrightarrow> auth_ok st'"
  by (induction rule: auth_steps.induct) (auto dest: provider_step)

lemma provider_boot: "auth_ok (auth_boot decode cookie w)"
  unfolding auth_boot_def by (rule ok_fetch) (simp add: auth_core_def rechecks_def)

lemma provider_consistent_core: "auth_steps decode es (auth_boot decode cookie w) st \<Longrightarrow> auth_core st"
  using provider_steps provider_boot unfolding auth_ok_def by blast

text \<open>
  The provider stays consistent through any interleaving of answers, timers and calls: the ref the
  session listener reads agrees with the user, at most one read checks a rejection and the flag says
  so, no request claims a version to come, a signed-in reader's browser records the held session, and
  the page is loading only while a read that can end it is on its way, unless a sign-in or sign-out
  came first.
\<close>

theorem provider_stays_consistent:
  assumes "auth_steps decode es (auth_boot decode cookie w) st"
  shows "as_signed_in st = (as_user st \<noteq> None) \<and>
    size (filter_mset is_recheck (as_flight st)) = of_bool (as_rechecking st) \<and>
    (\<forall>p \<in># as_flight st. started_by (as_version st) p) \<and>
    (as_user st \<noteq> None \<longrightarrow> held_recorded (as_client st)) \<and>
    (as_loading st \<longrightarrow> boot_pending st \<or> 0 < as_version st)"
  using provider_steps [OF assms provider_boot] by (auto simp: auth_ok_def auth_core_def rechecks_def)

section \<open>What ends a session\<close>

text \<open>
  C14. A backend hiccup never signs anyone out: in a step that ends a session the reader signed out, the
  page read cookies that hold no session, \<open>/auth/me\<close> answered 401 or 403 to a read of the current
  version, or answered 401 to the check of a rejected call.
\<close>

theorem session_ends_only_by_refusal:
  assumes "auth_step decode e st st'" "as_user st \<noteq> None" "as_user st' = None"
  shows "e = Logout_lands \<or>
    (\<exists>cookie. (e = Refresh cookie \<or> e = Retry_fires cookie) \<and> \<not> has_session_cookie decode cookie) \<or>
    (\<exists>r err. e = Me_lands (as_version st) r (Inl err) \<and> auth_failure err) \<or>
    (\<exists>error. e = Recheck_lands (as_version st) (Inl (Api_thrown error)) \<and> ae_status error = 401)"
  using assms
  by (cases rule: auth_step.cases)
    (auto simp: fetch_user_def me_read_lands_def settle_signed_out_def session_rejected_def recheck_lands_def
      login_lands_def dismiss_session_ended_def Let_def split: if_splits sum.splits thrown.splits)

section \<open>Late answers\<close>

text \<open>What the app reads of the provider, with the browser it writes.\<close>

definition session_view :: "'u auth_state \<Rightarrow> 'u option \<times> bool \<times> bool \<times> nat \<times> bool \<times> client" where
  "session_view st = (as_user st, as_loading st, as_ended st, as_version st, as_signed_in st, as_client st)"

fun answer_lands :: "'u auth_event \<Rightarrow> bool" where
  "answer_lands (Me_lands _ _ _) = True"
| "answer_lands (Recheck_lands _ _) = True"
| "answer_lands _ = False"

fun stale :: "nat \<Rightarrow> in_flight \<Rightarrow> bool" where
  "stale n (Me_read v _) = (v < n)"
| "stale n (Me_recheck v) = (v < n)"
| "stale n Retry_timer = True"

lemma stale_next: "started_by n p \<Longrightarrow> stale (Suc n) p"
  by (cases p) auto

lemma stale_step:
  assumes "auth_step decode e st st'" "answer_lands e" "\<forall>p \<in># as_flight st. stale (as_version st) p"
  shows "session_view st' = session_view st \<and> (\<forall>p \<in># as_flight st'. stale (as_version st') p)"
  using assms
  by (cases rule: auth_step.cases)
    (auto simp: me_read_lands_def recheck_lands_def session_view_def Let_def dest: in_landed)

lemma stale_steps:
  "auth_steps decode es st st' \<Longrightarrow> list_all answer_lands es \<Longrightarrow> \<forall>p \<in># as_flight st. stale (as_version st) p \<Longrightarrow>
   session_view st' = session_view st"
proof (induction rule: auth_steps.induct)
  case (more e st st' es st'')
  then show ?case using stale_step [OF more.hyps(1)] by simp
qed simp

text \<open>
  C15. A late read never overwrites a newer session: once a sign-in or a sign-out landed, whatever the
  \<open>/auth/me\<close> reads and rechecks still in flight answer, in whatever order they land, the user, the loading
  and ended flags and the browser's records stay as the sign-in or sign-out left them. The answers of other
  sign-in and sign-out calls are not reads: of those the last to land stands (\<open>last_call_stands\<close>).
\<close>

theorem late_answers_change_nothing:
  assumes "auth_steps decode hs (auth_boot decode cookie w) st"
    and "st1 = login_lands (Inr me) st \<or> st1 = logout_lands st"
    and "auth_steps decode es st1 st2" "list_all answer_lands es"
  shows "session_view st2 = session_view st1"
proof -
  have "\<forall>p \<in># as_flight st. started_by (as_version st) p"
    using provider_consistent_core [OF assms(1)] by (simp add: auth_core_def)
  then have "\<forall>p \<in># as_flight st1. stale (as_version st1) p"
    using assms(2) by (auto simp: login_lands_def logout_lands_def Let_def stale_next)
  then show ?thesis using stale_steps [OF assms(3,4)] by blast
qed

lemma last_call_stands:
  "as_user (login_lands (Inr me) (logout_lands st)) = Some me" "as_user (logout_lands (login_lands answer st)) = None"
  by (simp_all add: login_lands_def logout_lands_def Let_def)

text \<open>A session: the boot read answers, a call is rejected, the check fails with a fault, the reader signs
  out while a read is in flight.\<close>

abbreviation open_session :: "jsstring auth_state" where
  "open_session \<equiv> auth_boot Some ''vidit_csrf=t'' (dp_client new_browser)"

abbreviation fault :: thrown where
  "fault \<equiv> Error_thrown ''gone''"

lemma cookie_held: "has_session_cookie Some ''vidit_csrf=t''"
  by (simp add: has_session_cookie_def read_csrf_token_def CSRF_COOKIE_def starts_with_def)

lemma no_cookie: "\<not> has_session_cookie decode []"
  by (simp add: has_session_cookie_def read_csrf_token_def CSRF_COOKIE_def starts_with_def)

definition signed_in_session :: "jsstring auth_state" where
  "signed_in_session = me_read_lands 0 True (Inr ''ana'') (landed (Me_read 0 True) open_session)"

definition checked_session :: "jsstring auth_state" where
  "checked_session = snd (session_rejected signed_in_session)"

lemma open_session_flight: "as_flight open_session = {#Me_read 0 True#}" "as_version open_session = 0"
  by (simp_all add: auth_boot_def fetch_user_def cookie_held)

lemma signed_in_session_facts:
  "as_user signed_in_session = Some ''ana''" "as_version signed_in_session = 0" "as_signed_in signed_in_session"
  "as_flight signed_in_session = {#}" "\<not> as_rechecking signed_in_session" "\<not> as_loading signed_in_session"
  by (simp_all add: signed_in_session_def me_read_lands_def set_user_def landed_def auth_boot_def fetch_user_def cookie_held)

lemma checked_session_facts:
  "as_user checked_session = Some ''ana''" "as_version checked_session = 0"
  "as_flight checked_session = {#Me_recheck 0#}" "as_rechecking checked_session"
  by (simp_all add: checked_session_def session_rejected_def signed_in_session_facts)

lemma checked_session_reached: "auth_steps Some [Me_lands 0 True (Inr ''ana''), Rejection] open_session checked_session"
  unfolding checked_session_def signed_in_session_def
  by (rule auth_steps.more [OF me_lands auth_steps.more [OF rejection auth_steps.none]]) (simp add: open_session_flight)

lemma provider_stays_consistent_witness:
  "size (filter_mset is_recheck (as_flight checked_session)) = 1 \<and> as_user checked_session = Some ''ana''"
  using provider_stays_consistent [OF checked_session_reached] by (simp add: checked_session_facts)

lemma session_ends_only_by_refusal_witness:
  "Refresh [] = Logout_lands \<or>
    (\<exists>cookie. (Refresh [] = Refresh cookie \<or> Refresh [] = Retry_fires cookie) \<and> \<not> has_session_cookie Some cookie) \<or>
    (\<exists>r err. Refresh [] = Me_lands (as_version checked_session) r (Inl err) \<and> auth_failure err) \<or>
    (\<exists>error. (Refresh [] :: jsstring auth_event) = Recheck_lands (as_version checked_session) (Inl (Api_thrown error)) \<and>
       ae_status error = 401)"
proof -
  have "as_user (fetch_user Some [] True checked_session) = None"
    by (simp add: fetch_user_def no_cookie settle_signed_out_def Let_def)
  then show ?thesis
    using session_ends_only_by_refusal [OF refresh [of Some "[]" checked_session]] by (simp add: checked_session_facts)
qed

lemma late_answers_change_nothing_witness:
  "as_user (recheck_lands 0 (Inr ''ana'') (landed (Me_recheck 0) (logout_lands checked_session))) = None"
proof -
  let ?out = "logout_lands checked_session"
  have flight: "Me_recheck 0 \<in># as_flight ?out"
    by (simp add: logout_lands_def Let_def checked_session_facts)
  have "auth_steps Some [Recheck_lands 0 (Inr ''ana'')] ?out (recheck_lands 0 (Inr ''ana'') (landed (Me_recheck 0) ?out))"
    by (rule auth_steps.more [OF recheck_lands [OF flight] auth_steps.none])
  from late_answers_change_nothing [OF checked_session_reached _ this] show ?thesis
    by (simp add: session_view_def logout_lands_def Let_def)
qed

section \<open>Pages\<close>

text \<open>No page sends both ways at once, and no page sends anywhere while the session loads.\<close>

lemma redirects_exclusive:
  "require_auth_redirect pathname search st = None \<or> redirect_if_authenticated target st = None"
  "as_loading st \<Longrightarrow> require_auth_redirect pathname search st = None \<and> redirect_if_authenticated target st = None"
  by (simp_all add: require_auth_redirect_def redirect_if_authenticated_def)

text \<open>The notice shows only to a reader who is signed out, and a sign-in ends it.\<close>

lemma notice_after_login: "session_ended_notice path (login_lands (Inr me) st) = None"
  by (simp add: session_ended_notice_def login_lands_def Let_def)

text \<open>A sign-out leaves no cached preference behind.\<close>

lemma logout_clears_cache: "cache_owner (as_client (logout_lands st)) = None" "attr_saved theme_pref (as_client (logout_lands st)) = None"
proof -
  have "stored_at (as_client (logout_lands st)) k = None" if "k \<in> {OWNER_KEY, ''vidit:theme''}" for k
    using that by (auto simp: logout_lands_def Let_def storage_simps)
  then show "cache_owner (as_client (logout_lands st)) = None" "attr_saved theme_pref (as_client (logout_lands st)) = None"
    using attr_saved_stored [of theme_pref "as_client (logout_lands st)"]
    by (simp_all add: cache_owner_stored) (metis insertI1 insert_commute not_Some_eq)
qed

end
