(* ===== verification/Proxy_Wall.thy ===== *)
theory Proxy_Wall
  imports Outbound Session_State
begin

text \<open>
  \<open>proxy.ts\<close>: the edge in front of every page. It moves every other host onto the canonical one and
  sends a signed-out reader of a page that is not public to the sign-in page, which returns them. A
  request is its host header, whether it carries the session's cookie, and its URL.
\<close>

definition PUBLIC_EXACT :: "jsstring list" where
  "PUBLIC_EXACT = [''/'']"

definition PUBLIC_PREFIXES :: "jsstring list" where
  "PUBLIC_PREFIXES = [''/about'', ''/import'', ''/archive'', ''/bot'', ''/guide'', ''/legal'', ''/privacy'', ''/methodology'',
     ''/monitoring'', ''/map'', ''/collections'', ''/events'', ''/sites'', ''/requests'', ''/profile'', ''/organizations'',
     ''/search'', ''/login'', ''/register'', ''/registration-pending'', ''/confirm-registration'', ''/resend-confirmation'',
     ''/forgot-password'', ''/reset-password'', ''/unsubscribe'']"

definition is_public :: "jsstring \<Rightarrow> bool" where
  "is_public pathname \<longleftrightarrow> pathname \<in> set PUBLIC_EXACT \<or>
     list_ex (\<lambda>p. pathname = p \<or> starts_with pathname (p @ ''/'')) PUBLIC_PREFIXES"

record edge_request =
  er_host :: "jsstring option"
  er_cookies :: "jsstring \<rightharpoonup> jsstring"
  er_url :: url

datatype edge_response = Next_page | Redirect_to url "nat option"

definition redirect_to_login :: "edge_request \<Rightarrow> edge_response" where
  "redirect_to_login rq = (let target = url_pathname (er_url rq) @ url_search (er_url rq)
     in Redirect_to ((er_url rq)\<lparr>url_pathname := ''/login'', url_search := ''?next='' @ encode_uri_component target\<rparr>) None)"

definition host_only :: "edge_request \<Rightarrow> jsstring" where
  "host_only rq = hd (split_char CHR '':'' (case er_host rq of Some h \<Rightarrow> h | None \<Rightarrow> []))"

definition proxy :: "bool \<Rightarrow> edge_request \<Rightarrow> edge_response" where
  "proxy development rq =
     (let pathname = url_pathname (er_url rq); has_session = er_cookies rq CSRF_COOKIE \<noteq> None; host = host_only rq
      in if \<not> development \<and> host \<noteq> [] \<and> host \<noteq> VIDIT_HOST \<and> host \<noteq> ''localhost''
         then Redirect_to ((er_url rq)\<lparr>url_protocol := ''https:'', url_hostname := VIDIT_HOST\<rparr>) (Some 308)
         else if \<not> is_public pathname \<and> \<not> has_session then redirect_to_login rq
         else Next_page)"

section \<open>What is public\<close>

text \<open>The first segment of a path decides: a public name never opens a longer one beside it.\<close>

definition PUBLIC_NAMES :: "jsstring list" where
  "PUBLIC_NAMES = map tl PUBLIC_PREFIXES"

lemma prefix_segment:
  assumes "CHR ''/'' \<notin> set name"
  shows "pathname = CHR ''/'' # name \<or> starts_with pathname ((CHR ''/'' # name) @ ''/'') \<longleftrightarrow>
    (\<exists>segs. split_char CHR ''/'' pathname = [] # name # segs)"
proof
  assume "pathname = CHR ''/'' # name \<or> starts_with pathname ((CHR ''/'' # name) @ ''/'')"
  then consider "pathname = CHR ''/'' # name" | r where "pathname = (CHR ''/'' # name) @ ''/'' @ r"
    by (auto simp: starts_with_iff)
  then show "\<exists>segs. split_char CHR ''/'' pathname = [] # name # segs"
    using assms by cases (simp_all add: split_char_append)
next
  assume "\<exists>segs. split_char CHR ''/'' pathname = [] # name # segs"
  then obtain segs where segs: "split_char CHR ''/'' pathname = [] # name # segs" ..
  have "pathname = js_join ''/'' ([] # name # segs)"
    using arg_cong [OF segs, of "js_join ''/''"] by simp
  then show "pathname = CHR ''/'' # name \<or> starts_with pathname ((CHR ''/'' # name) @ ''/'')"
    by (cases segs) (auto simp: starts_with_iff)
qed

lemma public_prefix_names:
  "PUBLIC_PREFIXES = map (Cons CHR ''/'') PUBLIC_NAMES" "list_all (\<lambda>n. CHR ''/'' \<notin> set n) PUBLIC_NAMES"
  by (simp_all add: PUBLIC_NAMES_def PUBLIC_PREFIXES_def)

lemma is_public_segments:
  "is_public pathname \<longleftrightarrow> pathname = ''/'' \<or> (\<exists>name segs. name \<in> set PUBLIC_NAMES \<and> split_char CHR ''/'' pathname = [] # name # segs)"
proof -
  have "list_ex (\<lambda>p. pathname = p \<or> starts_with pathname (p @ ''/'')) PUBLIC_PREFIXES \<longleftrightarrow>
      (\<exists>name \<in> set PUBLIC_NAMES. pathname = CHR ''/'' # name \<or> starts_with pathname ((CHR ''/'' # name) @ ''/''))"
    unfolding public_prefix_names(1) by (auto simp: list_ex_iff)
  also have "\<dots> \<longleftrightarrow> (\<exists>name \<in> set PUBLIC_NAMES. \<exists>segs. split_char CHR ''/'' pathname = [] # name # segs)"
    using public_prefix_names(2) by (intro bex_cong refl prefix_segment) (simp add: list_all_iff)
  finally show ?thesis by (auto simp: is_public_def PUBLIC_EXACT_def)
qed

text \<open>
  Nothing is served to a signed-out reader by default: a request the edge lets through without the
  session's cookie is for the root or for a path whose first segment is one of the public names, on the
  canonical host outside development.
\<close>

theorem wall_denies_by_default:
  assumes "proxy development rq = Next_page" "er_cookies rq CSRF_COOKIE = None"
  shows "(url_pathname (er_url rq) = ''/'' \<or>
      (\<exists>name segs. name \<in> set PUBLIC_NAMES \<and> split_char CHR ''/'' (url_pathname (er_url rq)) = [] # name # segs)) \<and>
    (development \<or> host_only rq = [] \<or> host_only rq = VIDIT_HOST \<or> host_only rq = ''localhost'')"
  using assms by (auto simp: proxy_def redirect_to_login_def Let_def is_public_segments split: if_splits)

definition page_request :: "jsstring \<Rightarrow> jsstring \<Rightarrow> edge_request" where
  "page_request path query = \<lparr>er_host = Some ''vidit.app:443'', er_cookies = (\<lambda>_. None),
     er_url = \<lparr>url_protocol = ''https:'', url_username = [], url_password = [], url_hostname = ''vidit.app'', url_port = [],
       url_pathname = path, url_search = query, url_hash = []\<rparr>\<rparr>"

lemma host_only_page: "host_only (page_request path query) = ''vidit.app''"
  by (simp add: host_only_def page_request_def)

lemma wall_denies_by_default_witness:
  "proxy False (page_request ''/events/7'' []) = Next_page \<and>
   (\<exists>name segs. name \<in> set PUBLIC_NAMES \<and> split_char CHR ''/'' ''/events/7'' = [] # name # segs)"
proof -
  have "proxy False (page_request ''/events/7'' []) = Next_page"
    using host_only_page [of "''/events/7''" "[]"]
    by (simp add: proxy_def VIDIT_HOST_def Let_def page_request_def is_public_def PUBLIC_PREFIXES_def starts_with_def)
  then show ?thesis
    using wall_denies_by_default [of False "page_request ''/events/7'' []"] by (simp add: page_request_def)
qed

section \<open>Back after signing in\<close>

text \<open>The sign-in page reads \<open>?next=\<close> and goes where \<open>safeNext\<close> says.\<close>

definition login_destination ::
    "(jsstring \<Rightarrow> jsstring \<rightharpoonup> jsstring) \<Rightarrow> (jsstring \<Rightarrow> jsstring \<Rightarrow> (jsstring \<times> url) option) \<Rightarrow> jsstring \<Rightarrow> url \<Rightarrow> jsstring" where
  "login_destination search_param parse origin page = safe_next parse (Some origin) (search_param (url_search page) ''next'')"

text \<open>
  The wall returns the reader: a signed-out reader turned away from a page of the canonical host is
  sent to the sign-in page, and from there to the path and query they asked for, where the query parser
  undoes the percent encoding and the URL parser reads a path of the site as itself.
\<close>

theorem wall_returns_reader:
  assumes "proxy development rq \<noteq> Next_page" "development \<or> host_only rq = VIDIT_HOST"
    and path: "url_pathname (er_url rq) = CHR ''/'' # rest"
    and query: "search_param (''?next='' @ encode_uri_component (url_pathname (er_url rq) @ url_search (er_url rq))) ''next'' =
      Some (url_pathname (er_url rq) @ url_search (er_url rq))"
    and parsed: "parse (url_pathname (er_url rq) @ url_search (er_url rq)) origin = Some (origin, u)"
      "url_pathname u = url_pathname (er_url rq)" "url_search u = url_search (er_url rq)" "url_hash u = []"
  shows "\<exists>page. proxy development rq = Redirect_to page None \<and> url_pathname page = ''/login'' \<and>
    login_destination search_param parse origin page = url_pathname (er_url rq) @ url_search (er_url rq)"
proof -
  have "proxy development rq = redirect_to_login rq"
    using assms(1,2) by (auto simp: proxy_def Let_def VIDIT_HOST_def split: if_splits)
  moreover let ?target = "url_pathname (er_url rq) @ url_search (er_url rq)"
  let ?page = "(er_url rq)\<lparr>url_pathname := ''/login'', url_search := ''?next='' @ encode_uri_component ?target\<rparr>"
  have "redirect_to_login rq = Redirect_to ?page None"
    unfolding redirect_to_login_def Let_def by (rule refl)
  moreover have "search_param (url_search ?page) ''next'' = Some ?target"
    using query by simp
  then have "login_destination search_param parse origin ?page = ?target"
    unfolding login_destination_def using parsed by (simp add: safe_next_def path starts_with_def)
  ultimately show ?thesis by (intro exI [of _ ?page]) simp
qed

lemma wall_returns_reader_witness:
  "\<exists>page. proxy False (page_request ''/feed'' ''?status=open'') = Redirect_to page None \<and> url_pathname page = ''/login'' \<and>
    login_destination (\<lambda>_ _. Some ''/feed?status=open'')
      (\<lambda>_ o'. Some (o', er_url (page_request ''/feed'' ''?status=open''))) ''https://vidit.app'' page = ''/feed?status=open''"
proof -
  let ?rq = "page_request ''/feed'' ''?status=open''"
  have turned: "proxy False ?rq \<noteq> Next_page"
    using host_only_page [of "''/feed''" "''?status=open''"]
    by (simp add: proxy_def VIDIT_HOST_def Let_def page_request_def is_public_def PUBLIC_PREFIXES_def PUBLIC_EXACT_def
        starts_with_def redirect_to_login_def)
  show ?thesis
    using wall_returns_reader [OF turned, of "''feed''" "\<lambda>_ _. Some ''/feed?status=open''" "\<lambda>_ o'. Some (o', er_url ?rq)"
        "''https://vidit.app''" "er_url ?rq"]
    by (simp add: host_only_page VIDIT_HOST_def) (simp add: page_request_def)
qed

text \<open>A page that asks for the session itself sends to the same place.\<close>

lemma wall_agrees_with_pages:
  "as_user st = None \<Longrightarrow> \<not> as_loading st \<Longrightarrow>
   redirect_to_login rq = Redirect_to page status \<Longrightarrow>
   require_auth_redirect (url_pathname (er_url rq)) (url_search (er_url rq)) st = Some (url_pathname page @ url_search page)"
  by (auto simp: require_auth_redirect_def redirect_to_login_def login_next_def Let_def)

end
