(* ===== verification/Share_Cards.thy ===== *)
theory Share_Cards
  imports Private_Address Format Js_Json Js_Float Proof_Images
begin

text \<open>
  The share cards: the pure helpers of \<open>lib/og.ts\<close>, the reads and the guarded picture fetch of
  \<open>app/_og/data.ts\<close>, and the page tags of \<open>app/_og/metadata.ts\<close>. The ellipsis is outside the character type
  and a parameter, and so are the URL parser, the name server, the network and the picture library.
\<close>

section \<open>Panels and text\<close>

record projected_point =
  pp_x :: js_float
  pp_y :: js_float

definition clamp01 :: "js_float \<Rightarrow> js_float" where
  "clamp01 v = f_min (Fin 1) (f_max (Fin 0) v)"

definition project_equirectangular :: "js_float \<Rightarrow> js_float \<Rightarrow> projected_point" where
  "project_equirectangular lat lng =
     \<lparr>pp_x = clamp01 (f_div (f_add lng (Fin 180)) (Fin 360)), pp_y = clamp01 (f_div (f_sub (Fin 90) lat) (Fin 180))\<rparr>"

text \<open>\<open>replace(/\s+/g, " ")\<close>\<close>

function squeeze_spaces :: "jsstring \<Rightarrow> jsstring" where
  "squeeze_spaces [] = []"
| "squeeze_spaces (c # s) = (if js_space c then CHR '' '' # squeeze_spaces (dropWhile js_space s) else c # squeeze_spaces s)"
  by pat_completeness auto
termination
  by (relation "measure length") (auto simp: le_imp_less_Suc length_dropWhile_le)

definition trim_end :: "jsstring \<Rightarrow> jsstring" where
  "trim_end s = rev (dropWhile js_space (rev s))"

text \<open>A slice to \<open>budget - 1\<close> drops the last point where \<open>budget\<close> is 0.\<close>

definition og_truncate :: "jsstring \<Rightarrow> jsstring \<Rightarrow> nat \<Rightarrow> jsstring" where
  "og_truncate ellipsis s budget =
     (let cleaned = js_trim (squeeze_spaces s) in
      if length cleaned \<le> budget then cleaned
      else (let cut = (if budget = 0 then butlast cleaned else take (budget - 1) cleaned);
                body = (case last_index CHR '' '' cut of
                    Some i \<Rightarrow> if 3 * budget < 4 * i then take i cut else trim_end cut
                  | None \<Rightarrow> trim_end cut)
            in body @ ellipsis))"

record og_profile_count =
  opc_label :: jsstring
  opc_value :: nat

record user_stats =
  us_geolocated :: nat
  us_detected :: nat

text \<open>\<open>geolocations\<close> and \<open>followers\<close> are the profile's two counts.\<close>

definition og_profile_counts :: "nat \<Rightarrow> nat \<Rightarrow> user_stats option \<Rightarrow> og_profile_count list" where
  "og_profile_counts geolocations followers stats =
     [\<lparr>opc_label = ''Geolocated'', opc_value = (case stats of Some st \<Rightarrow> us_geolocated st | None \<Rightarrow> geolocations)\<rparr>] @
     (case stats of Some st \<Rightarrow> [\<lparr>opc_label = ''Detected'', opc_value = us_detected st\<rparr>] | None \<Rightarrow> []) @
     [\<lparr>opc_label = plural_noun followers ''Follower'', opc_value = followers\<rparr>]"

text \<open>The frames are small whole numbers of pixels, which a double halves exactly.\<close>

record mosaic_box =
  mb_left :: rat
  mb_top :: rat
  mb_width :: rat
  mb_height :: rat

definition MOSAIC_MAX_TILES :: int where
  "MOSAIC_MAX_TILES = 4"

definition math_trunc :: "rat \<Rightarrow> int" where
  "math_trunc x = (if x < 0 then \<lceil>x\<rceil> else \<lfloor>x\<rfloor>)"

definition og_mosaic_boxes :: "rat \<Rightarrow> rat \<Rightarrow> rat \<Rightarrow> rat \<Rightarrow> mosaic_box list" where
  "og_mosaic_boxes n width height gap =
     (let tiles = min (max (math_trunc n) 0) MOSAIC_MAX_TILES;
          col = (width - gap) / 2; row = (height - gap) / 2; right = col + gap; bottom = row + gap
      in if tiles = 0 then []
         else if tiles = 1 then [\<lparr>mb_left = 0, mb_top = 0, mb_width = width, mb_height = height\<rparr>]
         else if tiles = 2 then [\<lparr>mb_left = 0, mb_top = 0, mb_width = col, mb_height = height\<rparr>,
            \<lparr>mb_left = right, mb_top = 0, mb_width = col, mb_height = height\<rparr>]
         else if tiles = 3 then [\<lparr>mb_left = 0, mb_top = 0, mb_width = col, mb_height = height\<rparr>,
            \<lparr>mb_left = right, mb_top = 0, mb_width = col, mb_height = row\<rparr>,
            \<lparr>mb_left = right, mb_top = bottom, mb_width = col, mb_height = row\<rparr>]
         else [\<lparr>mb_left = 0, mb_top = 0, mb_width = col, mb_height = row\<rparr>,
            \<lparr>mb_left = right, mb_top = 0, mb_width = col, mb_height = row\<rparr>,
            \<lparr>mb_left = 0, mb_top = bottom, mb_width = col, mb_height = row\<rparr>,
            \<lparr>mb_left = right, mb_top = bottom, mb_width = col, mb_height = row\<rparr>])"

section \<open>The name guard\<close>

definition PRIVATE_HOST_SUFFIXES :: "jsstring list" where
  "PRIVATE_HOST_SUFFIXES = [''.local'', ''.internal'', ''.localhost'', ''.home.arpa'']"

definition strip_root_dot :: "jsstring \<Rightarrow> jsstring" where
  "strip_root_dot host = (if ends_with host ''.'' then butlast host else host)"

text \<open>\<open>/^\d+\.\d+\.\d+\.\d+$/\<close>\<close>

definition dotted_quad :: "jsstring \<Rightarrow> bool" where
  "dotted_quad host = (let parts = split_char CHR ''.'' host in
     length parts = 4 \<and> list_all (\<lambda>p. p \<noteq> [] \<and> list_all is_digit p) parts)"

definition is_fetchable_avatar_url :: "url_parser \<Rightarrow> jsstring option \<Rightarrow> bool" where
  "is_fetchable_avatar_url parse value' = (case value' of
       None \<Rightarrow> False
     | Some value \<Rightarrow>
         if value = [] then False
         else (case parse value of
             None \<Rightarrow> False
           | Some u \<Rightarrow>
               if url_protocol u \<noteq> ''https:'' then False
               else (let host = strip_root_dot (js_lower (url_hostname u)) in
                 if starts_with host ''['' then False
                 else if dotted_quad host then False
                 else if CHR ''.'' \<notin> set host then False
                 else if list_ex (ends_with host) PRIVATE_HOST_SUFFIXES then False
                 else True)))"

section \<open>Upstream reads\<close>

datatype 'a og_read = Og_ok 'a | Og_missing | Og_failed

text \<open>A response is its status and its parsed body, \<open>None\<close> where the body is not JSON; no response is a
  network error or the timeout. An \<open>ok\<close> response has a status in the two hundreds.\<close>

definition og_fetch :: "(int \<times> json option) option \<Rightarrow> json og_read" where
  "og_fetch answer = (case answer of
       None \<Rightarrow> Og_failed
     | Some (status, body) \<Rightarrow>
         if status = 404 \<or> status = 422 then Og_missing
         else if \<not> (200 \<le> status \<and> status \<le> 299) then Og_failed
         else (case body of None \<Rightarrow> Og_failed | Some data \<Rightarrow> Og_ok data))"

section \<open>The connection guard\<close>

record lookup_address =
  la_address :: jsstring
  la_family :: nat

datatype lookup_answer = Lookup_error jsstring | Lookup_all "lookup_address list" | Lookup_one jsstring nat

text \<open>\<open>answer\<close> is what the name server told of the host, asked for every address.\<close>

definition image_lookup :: "jsstring \<Rightarrow> bool \<Rightarrow> jsstring + lookup_address list \<Rightarrow> lookup_answer" where
  "image_lookup hostname all answer = (case answer of
       Inl err \<Rightarrow> Lookup_error err
     | Inr resolved \<Rightarrow>
         if resolved = [] \<or> list_ex (\<lambda>e. is_private_address (la_address e)) resolved
         then Lookup_error (''image host '' @ hostname @ '' does not resolve to a public address'')
         else (let ordered = filter (\<lambda>e. la_family e = 4) resolved @ filter (\<lambda>e. la_family e \<noteq> 4) resolved
           in if all then Lookup_all ordered else Lookup_one (la_address (hd ordered)) (la_family (hd ordered))))"

section \<open>The picture\<close>

definition IMAGE_MAX_BYTES :: nat where
  "IMAGE_MAX_BYTES = 8 * 1024 * 1024"

definition INLINE_MAX_BYTES :: nat where
  "INLINE_MAX_BYTES = 2 * 1024 * 1024"

definition DRAWABLE_TYPES :: "jsstring list" where
  "DRAWABLE_TYPES = [''image/png'', ''image/jpeg'']"

definition REENCODED_TYPES :: "jsstring list" where
  "REENCODED_TYPES = [''image/gif'', ''image/webp'', ''image/avif'']"

text \<open>What the reader of a body gives: a chunk, an answer with no value, or an error. The end of the list is
  the end of the body.\<close>

datatype body_read = Chunk bytes | No_value | Read_breaks jsstring

datatype capped_read = Read_ok bytes | Read_over | Read_empty

fun capped_loop :: "nat \<Rightarrow> bytes \<Rightarrow> body_read list \<Rightarrow> jsstring + capped_read" where
  "capped_loop limit held [] = Inr (if held = [] then Read_empty else Read_ok held)"
| "capped_loop limit held (Read_breaks err # reads) = Inl err"
| "capped_loop limit held (No_value # reads) = capped_loop limit held reads"
| "capped_loop limit held (Chunk bs # reads) =
     (if limit < length held + length bs then Inr Read_over else capped_loop limit (held @ bs) reads)"

definition read_capped :: "body_read list option \<Rightarrow> nat \<Rightarrow> jsstring + capped_read" where
  "read_capped body limit = (case body of None \<Rightarrow> Inr Read_empty | Some reads \<Rightarrow> capped_loop limit [] reads)"

definition url_host :: "url \<Rightarrow> jsstring" where
  "url_host u = url_hostname u @ (if url_port u = [] then [] else '':'' @ url_port u)"

definition image_target :: "url_parser \<Rightarrow> jsstring option \<Rightarrow> jsstring" where
  "image_target parse value' = (case value' of
       None \<Rightarrow> ''(no url)''
     | Some value \<Rightarrow> if value = [] then ''(no url)''
         else (case parse value of None \<Rightarrow> ''(unparsable url)'' | Some u \<Rightarrow> url_host u @ url_pathname u))"

text \<open>A picture is its data URI, \<open>None\<close> for the fallback, with the warnings printed.\<close>

type_synonym og_image = "jsstring option \<times> jsstring list"

definition skip_image :: "url_parser \<Rightarrow> jsstring option \<Rightarrow> jsstring \<Rightarrow> og_image" where
  "skip_image parse url reason = (None, [''og image skipped: '' @ reason @ '' ('' @ image_target parse url @ '')''])"

text \<open>\<open>origin\<close> reads a URL's origin; \<open>api_url\<close> is the configured one.\<close>

definition is_api_origin :: "url_parser \<Rightarrow> (url \<Rightarrow> jsstring) \<Rightarrow> jsstring \<Rightarrow> jsstring \<Rightarrow> bool" where
  "is_api_origin parse origin api_url value = (case (parse value, parse api_url) of
       (Some u, Some a) \<Rightarrow> origin u = origin a
     | _ \<Rightarrow> False)"

text \<open>\<open>toString("base64")\<close>\<close>

definition base64_char :: "nat \<Rightarrow> char" where
  "base64_char n = (if n < 26 then char_of (65 + n) else if n < 52 then char_of (71 + n)
     else if n < 62 then digit_char (n - 52) else if n = 62 then CHR ''+'' else CHR ''/'')"

fun base64 :: "bytes \<Rightarrow> jsstring" where
  "base64 [] = []"
| "base64 [a] = [base64_char (unat a div 4), base64_char (unat a mod 4 * 16), CHR ''='', CHR ''='']"
| "base64 [a, b] = [base64_char (unat a div 4), base64_char (unat a mod 4 * 16 + unat b div 16),
     base64_char (unat b mod 16 * 4), CHR ''='']"
| "base64 (a # b # c # bs) = [base64_char (unat a div 4), base64_char (unat a mod 4 * 16 + unat b div 16),
     base64_char (unat b mod 16 * 4 + unat c div 64), base64_char (unat c mod 64)] @ base64 bs"

record image_response =
  ir_status :: int
  ir_content_type :: "jsstring option"
  ir_content_length :: "jsstring option"
  ir_body :: "body_read list option"

definition media_type :: "jsstring option \<Rightarrow> jsstring" where
  "media_type header = js_lower (js_trim (hd (split_char CHR '';'' (case header of Some h \<Rightarrow> h | None \<Rightarrow> []))))"

text \<open>An absent header reads as 0; a length that is no finite number is none.\<close>

definition declared_length :: "jsstring option \<Rightarrow> rat option" where
  "declared_length header = (case header of None \<Rightarrow> Some 0 | Some h \<Rightarrow> js_number h)"

text \<open>The answer to one response. \<open>reencode\<close> is the picture library, which may throw.\<close>

definition card_picture :: "url_parser \<Rightarrow> (bytes \<Rightarrow> jsstring + bytes) \<Rightarrow> jsstring option \<Rightarrow> image_response \<Rightarrow> og_image" where
  "card_picture parse reencode url res =
     (let skip = skip_image parse url; content_type = media_type (ir_content_type res);
          drawable = content_type \<in> set DRAWABLE_TYPES; declared = declared_length (ir_content_length res)
      in if \<not> (200 \<le> ir_status res \<and> ir_status res \<le> 299) then skip (''status '' @ int_text (ir_status res))
         else if \<not> drawable \<and> content_type \<notin> set REENCODED_TYPES
         then skip (''content type '' @ (if content_type = [] then ''(none)'' else content_type) @ '' is not decodable'')
         else if (case declared of Some n \<Rightarrow> of_nat IMAGE_MAX_BYTES < n | None \<Rightarrow> False)
         then skip (''declared length '' @ js_to_string (the declared) @ '' over the '' @ nat_text IMAGE_MAX_BYTES @ '' byte cap'')
         else (case read_capped (ir_body res) IMAGE_MAX_BYTES of
             Inl err \<Rightarrow> skip err
           | Inr Read_over \<Rightarrow> skip (''body over the '' @ nat_text IMAGE_MAX_BYTES @ '' byte cap'')
           | Inr Read_empty \<Rightarrow> skip ''empty body''
           | Inr (Read_ok body) \<Rightarrow>
               if drawable \<and> length body \<le> INLINE_MAX_BYTES
               then (Some (''data:'' @ content_type @ '';base64,'' @ base64 body), [])
               else (case reencode body of
                   Inl err \<Rightarrow> skip err
                 | Inr png \<Rightarrow> (Some (''data:image/png;base64,'' @ base64 png), []))))"

text \<open>
  \<open>fetch\<close> is the network: with a guard, it connects through the lookup it is given, and an error is its message.
  Redirects are errors on both legs.
\<close>

type_synonym image_fetch = "jsstring \<Rightarrow> (jsstring \<Rightarrow> bool \<Rightarrow> jsstring + lookup_address list \<Rightarrow> lookup_answer) option \<Rightarrow>
  jsstring + image_response"

definition og_image_data_uri ::
  "url_parser \<Rightarrow> (url \<Rightarrow> jsstring) \<Rightarrow> jsstring \<Rightarrow> image_fetch \<Rightarrow> (bytes \<Rightarrow> jsstring + bytes) \<Rightarrow> jsstring option \<Rightarrow> og_image" where
  "og_image_data_uri parse origin api_url fetch reencode url =
     (let own = (case url of None \<Rightarrow> False | Some u \<Rightarrow> u \<noteq> [] \<and> is_api_origin parse origin api_url u)
      in if \<not> own \<and> \<not> is_fetchable_avatar_url parse url then skip_image parse url ''rejected by the URL guard''
         else (case fetch (the url) (if own then None else Some image_lookup) of
             Inl err \<Rightarrow> skip_image parse url err
           | Inr res \<Rightarrow> card_picture parse reencode url res))"

section \<open>Page tags\<close>

record open_graph =
  og_type :: "jsstring option"
  og_username :: "jsstring option"
  og_title :: jsstring
  og_description :: jsstring
  og_url :: "jsstring option"
  og_site_name :: jsstring
  og_published :: "jsstring option"
  og_locale :: "jsstring option"

record twitter_card =
  tw_title :: jsstring
  tw_description :: jsstring
  tw_site :: "jsstring option"

record page_metadata =
  pm_title :: jsstring
  pm_description :: jsstring
  pm_og :: open_graph
  pm_twitter :: twitter_card

definition DESCRIPTION_MAX :: nat where
  "DESCRIPTION_MAX = 180"

definition ARTICLE_TITLE_MAX :: nat where
  "ARTICLE_TITLE_MAX = 90"

definition static_page_metadata :: "jsstring \<Rightarrow> jsstring \<Rightarrow> jsstring \<Rightarrow> jsstring option \<Rightarrow> page_metadata" where
  "static_page_metadata path title description share =
     (let shared = (case share of Some d \<Rightarrow> d | None \<Rightarrow> description) in
      \<lparr>pm_title = title, pm_description = description,
       pm_og = \<lparr>og_type = Some ''website'', og_username = None, og_title = title, og_description = shared,
         og_url = Some (''https://vidit.app'' @ (if path = ''/'' then [] else path)), og_site_name = ''Vidit'',
         og_published = None, og_locale = Some ''en_US''\<rparr>,
       pm_twitter = \<lparr>tw_title = title, tw_description = shared, tw_site = Some ''@vidithq''\<rparr>\<rparr>)"

definition NOT_FOUND_LINE :: jsstring where
  "NOT_FOUND_LINE = ''This link points at nothing in the catalog.''"

record article =
  ar_title :: jsstring
  ar_segments :: "jsstring option list"
  ar_owner :: jsstring
  ar_url :: jsstring
  ar_published :: jsstring

text \<open>An article is not found (\<open>Inl\<close> the noun) or found. The separator is a space, a middle dot and a space.\<close>

definition article_metadata :: "jsstring \<Rightarrow> jsstring + article \<Rightarrow> page_metadata" where
  "article_metadata ellipsis found = (case found of
       Inl noun \<Rightarrow> (let title = noun @ '' not found on Vidit'' in
         \<lparr>pm_title = title, pm_description = NOT_FOUND_LINE,
          pm_og = \<lparr>og_type = Some ''article'', og_username = None, og_title = title, og_description = NOT_FOUND_LINE,
            og_url = None, og_site_name = ''Vidit'', og_published = None, og_locale = None\<rparr>,
          pm_twitter = \<lparr>tw_title = title, tw_description = NOT_FOUND_LINE, tw_site = None\<rparr>\<rparr>)
     | Inr a \<Rightarrow> (let title = og_truncate ellipsis (ar_title a) ARTICLE_TITLE_MAX;
           segments = filter (\<lambda>s. s \<noteq> []) (List.map_filter id (ar_segments a @ [Some (''Filed by '' @ ar_owner a @ '' on Vidit.'')]));
           description = og_truncate ellipsis (js_join [CHR '' '', CHR 0xB7, CHR '' ''] segments) DESCRIPTION_MAX
         in \<lparr>pm_title = title, pm_description = description,
             pm_og = \<lparr>og_type = Some ''article'', og_username = None, og_title = title, og_description = description,
               og_url = Some (ar_url a), og_site_name = ''Vidit'', og_published = Some (ar_published a), og_locale = None\<rparr>,
             pm_twitter = \<lparr>tw_title = title, tw_description = description, tw_site = None\<rparr>\<rparr>))"

definition portfolio_metadata ::
  "jsstring \<Rightarrow> jsstring \<Rightarrow> jsstring \<Rightarrow> jsstring option \<Rightarrow> jsstring \<Rightarrow> jsstring option \<Rightarrow> page_metadata" where
  "portfolio_metadata ellipsis name summary bio url user =
     (let title = og_truncate ellipsis name 40 @ '' on Vidit'';
          description = og_truncate ellipsis
            (case bio of Some b \<Rightarrow> if b = [] then summary else summary @ '' '' @ b | None \<Rightarrow> summary) DESCRIPTION_MAX;
          named = (case user of Some n \<Rightarrow> n \<noteq> [] | None \<Rightarrow> False)
      in \<lparr>pm_title = title, pm_description = description,
          pm_og = \<lparr>og_type = Some (if named then ''profile'' else ''website''), og_username = (if named then user else None),
            og_title = title, og_description = description, og_url = Some url, og_site_name = ''Vidit'',
            og_published = None, og_locale = None\<rparr>,
          pm_twitter = \<lparr>tw_title = title, tw_description = description, tw_site = None\<rparr>\<rparr>)"

section \<open>Text within its budget\<close>

lemma length_trim_end: "length (trim_end s) \<le> length s"
  by (metis length_dropWhile_le length_rev trim_end_def)

lemma og_truncate_length:
  assumes "length ellipsis = 1" "0 < budget"
  shows "length (og_truncate ellipsis s budget) \<le> budget"
  using assms length_trim_end [of "take (budget - 1) (js_trim (squeeze_spaces s))"]
  by (auto simp: og_truncate_def Let_def split: option.splits)

lemma trim_end_prefix: "\<exists>t. s = trim_end s @ t"
  by (metis append_take_drop_id rev_append rev_rev_ident takeWhile_dropWhile_id trim_end_def)

lemma cut_prefix:
  "\<exists>t. kept = (case m of Some i \<Rightarrow> if P i then take i kept else trim_end kept | None \<Rightarrow> trim_end kept) @ t"
proof (cases m)
  case None
  then show ?thesis using trim_end_prefix [of kept] by simp
next
  case (Some i)
  have "\<exists>t. kept = take i kept @ t" by (metis append_take_drop_id)
  then show ?thesis using trim_end_prefix [of kept] Some by simp
qed

lemma og_truncate_prefix:
  "og_truncate ellipsis s budget = js_trim (squeeze_spaces s) \<or>
   (\<exists>body rest. js_trim (squeeze_spaces s) = body @ rest \<and> og_truncate ellipsis s budget = body @ ellipsis)"
proof (cases "length (js_trim (squeeze_spaces s)) \<le> budget")
  case False
  let ?c = "js_trim (squeeze_spaces s)"
  let ?cut = "if budget = 0 then butlast ?c else take (budget - 1) ?c"
  let ?body = "case last_index CHR '' '' ?cut of
      Some i \<Rightarrow> if 3 * budget < 4 * i then take i ?cut else trim_end ?cut | None \<Rightarrow> trim_end ?cut"
  obtain t where t: "?c = ?cut @ t"
    using append_butlast_last_id [of ?c] append_take_drop_id [of "budget - 1" ?c] by (cases "?c = []") (simp, metis)
  obtain v where v: "?cut = ?body @ v" using cut_prefix [of ?cut "\<lambda>i. 3 * budget < 4 * i" "last_index CHR '' '' ?cut"] by blast
  have "?c = ?body @ (v @ t)" by (subst t, subst v) (rule append.assoc)
  moreover have "og_truncate ellipsis s budget = ?body @ ellipsis" using False by (simp add: og_truncate_def Let_def)
  ultimately show ?thesis by blast
qed (simp add: og_truncate_def Let_def)

text \<open>
  A text shortened for a card fits its budget, and is its text with the runs of white space squeezed, whole or
  cut short with the ellipsis after it.
\<close>

theorem shortened_text_fits:
  assumes "length ellipsis = 1" "0 < budget"
  shows "length (og_truncate ellipsis s budget) \<le> budget \<and>
    (og_truncate ellipsis s budget = js_trim (squeeze_spaces s) \<or>
     (\<exists>body rest. js_trim (squeeze_spaces s) = body @ rest \<and> og_truncate ellipsis s budget = body @ ellipsis))"
  using og_truncate_length [OF assms] og_truncate_prefix by blast

theorem shortened_text_fits_witness:
  "length (og_truncate ''~'' ''a b'' 2) \<le> 2 \<and>
    (og_truncate ''~'' ''a b'' 2 = js_trim (squeeze_spaces ''a b'') \<or>
     (\<exists>body rest. js_trim (squeeze_spaces ''a b'') = body @ rest \<and> og_truncate ''~'' ''a b'' 2 = body @ ''~''))"
  by (rule shortened_text_fits) simp_all

section \<open>Panels\<close>

definition inside_panel :: "rat \<Rightarrow> rat \<Rightarrow> mosaic_box \<Rightarrow> bool" where
  "inside_panel width height b \<longleftrightarrow> 0 \<le> mb_left b \<and> 0 \<le> mb_top b \<and> 0 \<le> mb_width b \<and> 0 \<le> mb_height b \<and>
     mb_left b + mb_width b \<le> width \<and> mb_top b + mb_height b \<le> height"

definition apart :: "rat \<Rightarrow> mosaic_box \<Rightarrow> mosaic_box \<Rightarrow> bool" where
  "apart gap b c \<longleftrightarrow> mb_left b + mb_width b + gap \<le> mb_left c \<or> mb_top b + mb_height b + gap \<le> mb_top c \<or>
     mb_left c + mb_width c + gap \<le> mb_left b \<or> mb_top c + mb_height c + gap \<le> mb_top b"

text \<open>
  The tiles of a mosaic, at most four, lie inside its panel, and any two are a gap apart.
\<close>

theorem mosaic_tiles_fit:
  assumes "0 \<le> gap" "gap \<le> width" "gap \<le> height"
  shows "length (og_mosaic_boxes n width height gap) \<le> 4 \<and>
    list_all (inside_panel width height) (og_mosaic_boxes n width height gap) \<and>
    sorted_wrt (apart gap) (og_mosaic_boxes n width height gap)"
  using assms by (auto simp: og_mosaic_boxes_def Let_def inside_panel_def apart_def field_simps)

theorem mosaic_tiles_fit_witness:
  "length (og_mosaic_boxes 7 520 400 8) \<le> 4 \<and> list_all (inside_panel 520 400) (og_mosaic_boxes 7 520 400 8) \<and>
   sorted_wrt (apart 8) (og_mosaic_boxes 7 520 400 8)"
  by (rule mosaic_tiles_fit) simp_all

section \<open>Pictures\<close>

lemma capped_loop_reads:
  assumes "\<And>err. Read_breaks err \<notin> set reads" "length held \<le> limit"
  shows "capped_loop limit held reads =
    (let body = held @ concat (map (\<lambda>r. case r of Chunk bs \<Rightarrow> bs | _ \<Rightarrow> []) reads)
     in Inr (if limit < length body then Read_over else if body = [] then Read_empty else Read_ok body))"
  using assms by (induction limit held reads rule: capped_loop.induct) (auto simp: Let_def)

lemma capped_loop_ok:
  "capped_loop limit held reads = Inr (Read_ok body) \<Longrightarrow> length held \<le> limit \<Longrightarrow> length body \<le> limit \<and> body \<noteq> []"
  by (induction limit held reads rule: capped_loop.induct) (auto split: if_splits)

lemma body_capped: "read_capped reads limit = Inr (Read_ok body) \<Longrightarrow> body \<noteq> [] \<and> length body \<le> limit"
  using capped_loop_ok [of limit "[]"] by (auto simp: read_capped_def split: option.splits)

text \<open>
  A host never fills the renderer: whatever it sends, the body kept is not empty and within the cap; one it sends
  whole is kept byte for byte, and a longer one is refused.
\<close>

theorem body_read_is_capped:
  "(\<forall>body. read_capped reads limit = Inr (Read_ok body) \<longrightarrow> length body \<le> limit \<and> body \<noteq> []) \<and>
   (\<forall>rs. reads = Some rs \<longrightarrow> list_all (\<lambda>r. \<forall>err. r \<noteq> Read_breaks err) rs \<longrightarrow>
      (let body = concat (map (\<lambda>r. case r of Chunk bs \<Rightarrow> bs | _ \<Rightarrow> []) rs)
       in read_capped reads limit = Inr (if limit < length body then Read_over else if body = [] then Read_empty else Read_ok body)))"
proof (intro conjI allI impI)
  fix body assume "read_capped reads limit = Inr (Read_ok body)"
  then show "length body \<le> limit" "body \<noteq> []"
    using capped_loop_ok [of limit "[]"] by (auto simp: read_capped_def split: option.splits)
next
  fix rs assume rs: "reads = Some rs" "list_all (\<lambda>r. \<forall>err. r \<noteq> Read_breaks err) rs"
  then have "\<And>err. Read_breaks err \<notin> set rs" by (auto simp: list_all_iff)
  from capped_loop_reads [OF this, of "[]" limit] show "let body = concat (map (\<lambda>r. case r of Chunk bs \<Rightarrow> bs | _ \<Rightarrow> []) rs)
       in read_capped reads limit = Inr (if limit < length body then Read_over else if body = [] then Read_empty else Read_ok body)"
    using rs(1) by (simp add: read_capped_def Let_def)
qed

theorem body_read_is_capped_witness:
  "(let body = concat (map (\<lambda>r. case r of Chunk bs \<Rightarrow> bs | _ \<Rightarrow> []) [Chunk [1, 2], No_value, Chunk [3]])
    in read_capped (Some [Chunk [1, 2], No_value, Chunk [3]]) 2 =
      Inr (if 2 < length body then Read_over else if body = [] then Read_empty else Read_ok body))"
  using body_read_is_capped [of "Some [Chunk [1, 2], No_value, Chunk [3]]" 2] by simp

text \<open>
  C30. A guarded connection is only offered addresses outside the private ranges, whether it asks for all of them or
  for one: an answer of the name server that is empty or holds one private address refuses the host either way; of any
  other, the whole is offered with the version 4 ones first, or one of them, of version 4 where there is one.
\<close>

theorem lookup_offers_public_addresses:
  "case answer of
     Inl err \<Rightarrow> image_lookup hostname all answer = Lookup_error err
   | Inr rs \<Rightarrow>
       if rs = [] \<or> list_ex (\<lambda>e. is_private_address (la_address e)) rs
       then \<exists>err. image_lookup hostname all answer = Lookup_error err
       else if all
       then \<exists>fours others. image_lookup hostname all answer = Lookup_all (fours @ others) \<and> mset (fours @ others) = mset rs \<and>
         list_all (\<lambda>e. la_family e = 4) fours \<and> list_all (\<lambda>e. la_family e \<noteq> 4) others
       else \<exists>e. e \<in> set rs \<and> image_lookup hostname all answer = Lookup_one (la_address e) (la_family e) \<and>
         \<not> is_private_address (la_address e) \<and> (la_family e = 4 \<or> list_all (\<lambda>e. la_family e \<noteq> 4) rs)"
proof (cases answer)
  case (Inr rs)
  let ?fours = "filter (\<lambda>e. la_family e = 4) rs" and ?others = "filter (\<lambda>e. la_family e \<noteq> 4) rs"
  let ?e = "hd (?fours @ ?others)"
  show ?thesis
  proof (cases "rs = [] \<or> list_ex (\<lambda>e. is_private_address (la_address e)) rs")
    case True
    then show ?thesis unfolding Inr by (simp add: image_lookup_def)
  next
    case False
    have perm: "mset (?fours @ ?others) = mset rs"
      using multiset_partition [of "mset rs" "\<lambda>e. la_family e = 4"] by simp
    then have "?fours @ ?others \<noteq> []" using False by (metis mset_zero_iff_right)
    then have first: "?e \<in> set rs" using perm by (metis hd_in_set set_mset_mset)
    have lead: "la_family ?e = 4 \<or> list_all (\<lambda>e. la_family e \<noteq> 4) rs"
    proof (cases "?fours = []")
      case True
      then show ?thesis by (simp add: filter_empty_conv list_all_iff)
    next
      case False
      then have "?e \<in> set ?fours" by (metis hd_append2 hd_in_set)
      then show ?thesis by simp
    qed
    have public: "\<not> is_private_address (la_address ?e)" using False first by (auto simp: list_ex_iff)
    show ?thesis
    proof (cases all)
      case True
      then have "image_lookup hostname all answer = Lookup_all (?fours @ ?others)"
        using False Inr by (simp add: image_lookup_def)
      moreover have "list_all (\<lambda>e. la_family e = 4) ?fours" "list_all (\<lambda>e. la_family e \<noteq> 4) ?others"
        by (simp_all add: list_all_iff)
      ultimately have "\<exists>fours others. image_lookup hostname all (Inr rs) = Lookup_all (fours @ others) \<and>
          mset (fours @ others) = mset rs \<and> list_all (\<lambda>e. la_family e = 4) fours \<and> list_all (\<lambda>e. la_family e \<noteq> 4) others"
        using perm unfolding Inr by blast
      then show ?thesis unfolding Inr sum.case if_not_P [OF False] if_P [OF True] .
    next
      case one: False
      then have "image_lookup hostname all answer = Lookup_one (la_address ?e) (la_family ?e)"
        using False Inr by (simp add: image_lookup_def Let_def)
      then show ?thesis using first lead public unfolding Inr sum.case if_not_P [OF False] if_not_P [OF one] by blast
    qed
  qed
qed (simp add: image_lookup_def)

lemma guard_chain:
  "A \<or> B \<or> C \<Longrightarrow> \<exists>r. (if A then f a else if B then f b else if C then f c else z) = f r"
  "\<not> (A \<or> B \<or> C) \<Longrightarrow> (if A then x else if B then y else if C then w else z) = z"
  by auto

lemma card_picture_cases:
  "(\<exists>reason. card_picture parse reencode url res = skip_image parse url reason) \<or>
   (\<exists>body uri. card_picture parse reencode url res = (Some uri, []) \<and> 200 \<le> ir_status res \<and> ir_status res \<le> 299 \<and>
      read_capped (ir_body res) IMAGE_MAX_BYTES = Inr (Read_ok body) \<and>
      (media_type (ir_content_type res) \<in> set DRAWABLE_TYPES \<and> length body \<le> INLINE_MAX_BYTES \<and>
         uri = ''data:'' @ media_type (ir_content_type res) @ '';base64,'' @ base64 body \<or>
       media_type (ir_content_type res) \<in> set (DRAWABLE_TYPES @ REENCODED_TYPES) \<and>
         (\<exists>png. reencode body = Inr png \<and> uri = ''data:image/png;base64,'' @ base64 png)))"
proof -
  define ct where "ct = media_type (ir_content_type res)"
  define declared where "declared = declared_length (ir_content_length res)"
  define over where "over = (case declared of Some n \<Rightarrow> of_nat IMAGE_MAX_BYTES < n | None \<Rightarrow> False)"
  define R where "R = read_capped (ir_body res) IMAGE_MAX_BYTES"
  have run: "\<exists>a b c d e. card_picture parse reencode url res =
     (if \<not> (200 \<le> ir_status res \<and> ir_status res \<le> 299) then skip_image parse url a
      else if ct \<notin> set DRAWABLE_TYPES \<and> ct \<notin> set REENCODED_TYPES then skip_image parse url b
      else if over then skip_image parse url c
      else (case R of Inl err \<Rightarrow> skip_image parse url err | Inr Read_over \<Rightarrow> skip_image parse url d
        | Inr Read_empty \<Rightarrow> skip_image parse url e
        | Inr (Read_ok body) \<Rightarrow> if ct \<in> set DRAWABLE_TYPES \<and> length body \<le> INLINE_MAX_BYTES
            then (Some (''data:'' @ ct @ '';base64,'' @ base64 body), [])
            else (case reencode body of Inl err \<Rightarrow> skip_image parse url err
              | Inr png \<Rightarrow> (Some (''data:image/png;base64,'' @ base64 png), []))))"
    unfolding card_picture_def Let_def ct_def declared_def over_def R_def by (intro exI) (rule refl)
  obtain a b c d e where run: "card_picture parse reencode url res =
     (if \<not> (200 \<le> ir_status res \<and> ir_status res \<le> 299) then skip_image parse url a
      else if ct \<notin> set DRAWABLE_TYPES \<and> ct \<notin> set REENCODED_TYPES then skip_image parse url b
      else if over then skip_image parse url c
      else (case R of Inl err \<Rightarrow> skip_image parse url err | Inr Read_over \<Rightarrow> skip_image parse url d
        | Inr Read_empty \<Rightarrow> skip_image parse url e
        | Inr (Read_ok body) \<Rightarrow> if ct \<in> set DRAWABLE_TYPES \<and> length body \<le> INLINE_MAX_BYTES
            then (Some (''data:'' @ ct @ '';base64,'' @ base64 body), [])
            else (case reencode body of Inl err \<Rightarrow> skip_image parse url err
              | Inr png \<Rightarrow> (Some (''data:image/png;base64,'' @ base64 png), []))))"
    using run by blast
  show ?thesis
  proof (cases "\<not> (200 \<le> ir_status res \<and> ir_status res \<le> 299) \<or> ct \<notin> set DRAWABLE_TYPES \<and> ct \<notin> set REENCODED_TYPES \<or> over")
    case True
    from guard_chain(1) [OF this, of "skip_image parse url"] show ?thesis unfolding run by blast
  next
    case False
    have run: "card_picture parse reencode url res = (case R of Inl err \<Rightarrow> skip_image parse url err
        | Inr Read_over \<Rightarrow> skip_image parse url d | Inr Read_empty \<Rightarrow> skip_image parse url e
        | Inr (Read_ok body) \<Rightarrow> if ct \<in> set DRAWABLE_TYPES \<and> length body \<le> INLINE_MAX_BYTES
            then (Some (''data:'' @ ct @ '';base64,'' @ base64 body), [])
            else (case reencode body of Inl err \<Rightarrow> skip_image parse url err
              | Inr png \<Rightarrow> (Some (''data:image/png;base64,'' @ base64 png), [])))"
      unfolding run by (rule guard_chain(2) [OF False])
    consider (fails) err where "R = Inl err" | (over) "R = Inr Read_over" | (none) "R = Inr Read_empty" |
        (body) body where "R = Inr (Read_ok body)" by (metis capped_read.exhaust sum.exhaust)
    then show ?thesis
    proof cases
      case body
      with False show ?thesis unfolding run R_def [symmetric] ct_def [symmetric] by (cases "reencode body") auto
    qed (auto simp: run)
  qed
qed

text \<open>A public https address: the lowered host, its root dot aside, has a dot, is no address and is not in a zone
  kept for a local network.\<close>

definition public_https :: "url \<Rightarrow> bool" where
  "public_https u \<longleftrightarrow> url_protocol u = ''https:'' \<and>
     (\<exists>host. (js_lower (url_hostname u) = host @ ''.'' \<or> js_lower (url_hostname u) = host \<and> (\<forall>h. host \<noteq> h @ ''.'')) \<and>
        (\<exists>a b. host = a @ ''.'' @ b) \<and> (\<forall>h. host \<noteq> CHR ''['' # h) \<and>
        (\<forall>a b c d. host = a @ ''.'' @ b @ ''.'' @ c @ ''.'' @ d \<longrightarrow> a \<noteq> [] \<longrightarrow> b \<noteq> [] \<longrightarrow> c \<noteq> [] \<longrightarrow> d \<noteq> [] \<longrightarrow>
           \<not> list_all is_digit (a @ b @ c @ d)) \<and>
        (\<forall>h. host \<noteq> h @ ''.local'' \<and> host \<noteq> h @ ''.internal'' \<and> host \<noteq> h @ ''.localhost'' \<and> host \<noteq> h @ ''.home.arpa''))"

lemma quad_of_digits:
  assumes "host = a @ ''.'' @ b @ ''.'' @ c @ ''.'' @ d" "a \<noteq> []" "b \<noteq> []" "c \<noteq> []" "d \<noteq> []" "list_all is_digit (a @ b @ c @ d)"
  shows "dotted_quad host"
proof -
  have no: "CHR ''.'' \<notin> set p" if "list_all is_digit p" for p using that by (auto simp: list_all_iff is_digit_def)
  have "split_char CHR ''.'' host = [a, b, c, d]"
    using assms(6) no unfolding assms(1) by (simp add: split_char_append)
  then show ?thesis using assms(2-6) by (simp add: dotted_quad_def)
qed

text \<open>A host is judged by its name first: one that is an address, undotted or in a private zone is never fetched.\<close>

lemma fetchable_host:
  assumes "is_fetchable_avatar_url parse (Some value)"
  shows "\<exists>u. parse value = Some u \<and> public_https u"
proof -
  obtain u where u: "parse value = Some u" "url_protocol u = ''https:''"
    using assms by (auto simp: is_fetchable_avatar_url_def split: if_splits option.splits)
  define name where "name = js_lower (url_hostname u)"
  define host where "host = strip_root_dot name"
  have h: "\<not> starts_with host ''[''" "\<not> dotted_quad host" "CHR ''.'' \<in> set host" "\<not> list_ex (ends_with host) PRIVATE_HOST_SUFFIXES"
    using assms u(1) by (auto simp: is_fetchable_avatar_url_def Let_def host_def name_def split: if_splits)
  have "name = host @ ''.'' \<or> name = host \<and> (\<forall>h. host \<noteq> h @ ''.'')"
    by (auto simp: host_def strip_root_dot_def ends_with_iff)
  moreover have "\<exists>a b. host = a @ ''.'' @ b" using split_list [OF h(3)] by auto
  moreover have "\<forall>t. host \<noteq> CHR ''['' # t" using h(1) by (auto simp: starts_with_iff)
  moreover have "\<forall>a b c d. host = a @ ''.'' @ b @ ''.'' @ c @ ''.'' @ d \<longrightarrow> a \<noteq> [] \<longrightarrow> b \<noteq> [] \<longrightarrow> c \<noteq> [] \<longrightarrow> d \<noteq> [] \<longrightarrow>
      \<not> list_all is_digit (a @ b @ c @ d)" using h(2) quad_of_digits by blast
  moreover have "\<forall>t. host \<noteq> t @ ''.local'' \<and> host \<noteq> t @ ''.internal'' \<and> host \<noteq> t @ ''.localhost'' \<and> host \<noteq> t @ ''.home.arpa''"
    using h(4) by (auto simp: PRIVATE_HOST_SUFFIXES_def ends_with_iff)
  ultimately show ?thesis using u unfolding public_https_def name_def by blast
qed

text \<open>
  C31. A card shows a picture only from the API's own origin, or from a public https host reached through the address
  guard: one with a dotted name that is no address and in no local zone. It is read from an answer in the two hundreds,
  its body not empty and at most 8 MB; a PNG or JPEG body is shown as it is up to 2 MB, and any other is only what the
  picture library makes a PNG of. A picture left out leaves one warning.
\<close>

theorem card_picture_is_guarded:
  "case og_image_data_uri parse origin api_url fetch reencode url of
     (None, warnings) \<Rightarrow> length warnings = 1
   | (Some uri, warnings) \<Rightarrow> warnings = [] \<and>
       (\<exists>u res guard body. url = Some u \<and> fetch u guard = Inr res \<and> 200 \<le> ir_status res \<and> ir_status res \<le> 299 \<and>
         (guard = None \<and> (\<exists>own api. parse u = Some own \<and> parse api_url = Some api \<and> origin own = origin api) \<or>
          guard = Some image_lookup \<and> (\<exists>remote. parse u = Some remote \<and> public_https remote)) \<and>
         read_capped (ir_body res) IMAGE_MAX_BYTES = Inr (Read_ok body) \<and> body \<noteq> [] \<and> length body \<le> 8 * 1024 * 1024 \<and>
         (media_type (ir_content_type res) \<in> {''image/png'', ''image/jpeg''} \<and> length body \<le> 2 * 1024 * 1024 \<and>
            uri = ''data:'' @ media_type (ir_content_type res) @ '';base64,'' @ base64 body \<or>
          media_type (ir_content_type res) \<in> {''image/png'', ''image/jpeg'', ''image/gif'', ''image/webp'', ''image/avif''} \<and>
            (\<exists>png. reencode body = Inr png \<and> uri = ''data:image/png;base64,'' @ base64 png)))"
proof -
  let ?own = "case url of None \<Rightarrow> False | Some u \<Rightarrow> u \<noteq> [] \<and> is_api_origin parse origin api_url u"
  let ?guard = "if ?own then None else Some image_lookup"
  consider (guard) "\<not> ?own" "\<not> is_fetchable_avatar_url parse url" |
    (error) err where "?own \<or> is_fetchable_avatar_url parse url" "fetch (the url) ?guard = Inl err" |
    (answer) res where "?own \<or> is_fetchable_avatar_url parse url" "fetch (the url) ?guard = Inr res"
    by (cases "fetch (the url) ?guard") blast+
  then show ?thesis
  proof cases
    case answer
    then obtain u where u: "url = Some u" by (cases url) (auto simp: is_fetchable_avatar_url_def)
    have run: "og_image_data_uri parse origin api_url fetch reencode url = card_picture parse reencode url res"
      using answer by (auto simp: og_image_data_uri_def Let_def)
    have guard: "?guard = None \<and> (\<exists>own api. parse u = Some own \<and> parse api_url = Some api \<and> origin own = origin api) \<or>
        ?guard = Some image_lookup \<and> (\<exists>remote. parse u = Some remote \<and> public_https remote)"
      using answer(1) u fetchable_host [of parse u] by (auto simp: is_api_origin_def split: if_splits option.splits)
    show ?thesis using card_picture_cases [of parse reencode url res]
    proof (elim disjE [of "\<exists>reason. _ reason"] exE conjE)
      fix reason assume "card_picture parse reencode url res = skip_image parse url reason"
      then show ?thesis by (simp add: run skip_image_def)
    next
      fix body uri
      assume shown: "card_picture parse reencode url res = (Some uri, [])" "200 \<le> ir_status res" "ir_status res \<le> 299"
        and body: "read_capped (ir_body res) IMAGE_MAX_BYTES = Inr (Read_ok body)"
        and uri: "media_type (ir_content_type res) \<in> set DRAWABLE_TYPES \<and> length body \<le> INLINE_MAX_BYTES \<and>
           uri = ''data:'' @ media_type (ir_content_type res) @ '';base64,'' @ base64 body \<or>
         media_type (ir_content_type res) \<in> set (DRAWABLE_TYPES @ REENCODED_TYPES) \<and>
           (\<exists>png. reencode body = Inr png \<and> uri = ''data:image/png;base64,'' @ base64 png)"
      have types: "set DRAWABLE_TYPES = {''image/png'', ''image/jpeg''}"
        "set (DRAWABLE_TYPES @ REENCODED_TYPES) = {''image/png'', ''image/jpeg'', ''image/gif'', ''image/webp'', ''image/avif''}"
        by (simp_all add: DRAWABLE_TYPES_def REENCODED_TYPES_def)
      have held: "body \<noteq> []" "length body \<le> 8 * 1024 * 1024"
        using body_capped [OF body] by (simp_all add: IMAGE_MAX_BYTES_def)
      have fetched: "fetch u ?guard = Inr res" using answer(2) u by simp
      show ?thesis
        unfolding run shown(1) prod.case option.case
        by (intro conjI exI [of _ u] exI [of _ res] exI [of _ ?guard] exI [of _ body])
          (rule refl u fetched shown(2,3) guard body held 
            uri [unfolded types INLINE_MAX_BYTES_def])+
    qed
  qed (auto simp: og_image_data_uri_def Let_def skip_image_def split: option.splits)
qed

end
