(* ===== verification/Sites.thy ===== *)
theory Sites
  imports Event_History Event_Forms Site_Zone
begin

text \<open>
  \<open>lib/sites.ts\<close>: the sites' routes and requests, the links between an event and its sites, the rule that
  says which contour is valid on a day, the sources a site takes, and the history of a site.
\<close>

section \<open>Rows\<close>

datatype site_kind =
    Airbase | Military_base | Depot | Port | Air_defence_position | Artillery_position | Radar | Fortification
  | Unknown_site | Other_site

fun SITE_KIND_LABELS :: "site_kind \<Rightarrow> jsstring" where
  "SITE_KIND_LABELS Airbase = ''Airbase''"
| "SITE_KIND_LABELS Military_base = ''Military base''"
| "SITE_KIND_LABELS Depot = ''Depot''"
| "SITE_KIND_LABELS Port = ''Port''"
| "SITE_KIND_LABELS Air_defence_position = ''Air defence position''"
| "SITE_KIND_LABELS Artillery_position = ''Artillery position''"
| "SITE_KIND_LABELS Radar = ''Radar''"
| "SITE_KIND_LABELS Fortification = ''Fortification''"
| "SITE_KIND_LABELS Unknown_site = ''Unknown''"
| "SITE_KIND_LABELS Other_site = ''Other''"

definition SITE_KINDS :: "site_kind list" where
  "SITE_KINDS = [Airbase, Military_base, Depot, Port, Air_defence_position, Artillery_position, Radar, Fortification,
     Unknown_site, Other_site]"

datatype link_effect = Damage | Destruction | Activity | Other_effect

fun LINK_EFFECT_LABELS :: "link_effect \<Rightarrow> jsstring" where
  "LINK_EFFECT_LABELS Damage = ''Damage''"
| "LINK_EFFECT_LABELS Destruction = ''Destruction''"
| "LINK_EFFECT_LABELS Activity = ''Activity''"
| "LINK_EFFECT_LABELS Other_effect = ''Other''"

definition LINK_EFFECTS :: "link_effect list" where
  "LINK_EFFECTS = [Damage, Destruction, Activity, Other_effect]"

definition SITE_NAME_MAX_LEN :: nat where
  "SITE_NAME_MAX_LEN = 255"

definition SITE_SOURCE_NOTE_MAX_LEN :: nat where
  "SITE_SOURCE_NOTE_MAX_LEN = 500"

definition SITE_MARGIN_KM :: nat where
  "SITE_MARGIN_KM = 10"

record site_source = source +
  ss_created_at :: jsstring
  ss_author :: "author option"
  ss_note :: "jsstring option"

record site_contour =
  ct_id :: jsstring
  ct_source :: jsstring
  ct_captured_at :: jsstring
  ct_created_at :: jsstring
  ct_author :: "author option"
  ct_zone :: zone

record site_event =
  le_id :: jsstring
  le_title :: jsstring
  le_date :: "jsstring option"
  le_linked_at :: jsstring
  le_effect :: link_effect

record site_last_source =
  ls_id :: jsstring
  ls_captured_at :: jsstring

record site =
  st_id :: jsstring
  st_version_no :: int
  st_name :: jsstring
  st_kind :: site_kind
  st_zone :: zone
  st_centroid :: coordinate_pair
  st_contour_id :: jsstring
  st_last_source :: "site_last_source option"
  st_sources :: "site_source list"
  st_contours :: "site_contour list"
  st_events :: "site_event list"
  st_latest_effect :: "link_effect option"
  st_owner :: author
  st_created_at :: jsstring

record site_version_row =
  sv_id :: jsstring
  sv_no :: int
  sv_name :: jsstring
  sv_kind :: site_kind
  sv_zone :: zone
  sv_centroid :: coordinate_pair
  sv_contour_id :: jsstring
  sv_last_source :: "site_last_source option"
  sv_sources :: "site_source list"
  sv_contours :: "site_contour list"
  sv_edited_by :: "author option"
  sv_created_at :: jsstring
  sv_note :: "jsstring option"

section \<open>Routes\<close>

definition site_href :: "jsstring \<Rightarrow> jsstring" where
  "site_href sid = ''/sites/'' @ encode_uri_component sid"

definition site_file_source_href :: "jsstring \<Rightarrow> jsstring" where
  "site_file_source_href sid = site_href sid @ ''/sources/new''"

definition site_edit_href :: "jsstring \<Rightarrow> jsstring option \<Rightarrow> jsstring" where
  "site_edit_href sid source_id = site_href sid @ ''/edit'' @ (case source_id of
       Some s \<Rightarrow> if s \<noteq> [] then ''?source='' @ encode_uri_component s else [] | None \<Rightarrow> [])"

definition site_version_href :: "jsstring \<Rightarrow> int \<Rightarrow> jsstring" where
  "site_version_href sid n = site_href sid @ ''/v'' @ int_text n"

definition site_history_href :: "jsstring \<Rightarrow> jsstring" where
  "site_history_href sid = site_href sid @ ''/history''"

definition sites_path :: "jsstring \<Rightarrow> jsstring option \<Rightarrow> jsstring \<times> params" where
  "sites_path bbox as_of = (''/sites'', set_truthy [(''bbox'', bbox)] ''as_of'' as_of)"

definition site_path :: "jsstring \<Rightarrow> jsstring" where
  "site_path sid = ''/sites/'' @ encode_uri_component sid"

definition site_versions_path :: "jsstring \<Rightarrow> jsstring option \<Rightarrow> jsstring" where
  "site_versions_path sid cursor = with_cursor (site_path sid @ ''/versions'') cursor"

definition site_version_path :: "jsstring \<Rightarrow> int \<Rightarrow> jsstring" where
  "site_version_path sid n = site_path sid @ ''/versions/'' @ int_text n"

definition event_site_links_path :: "jsstring \<Rightarrow> jsstring" where
  "event_site_links_path eid = ''/events/'' @ encode_uri_component eid @ ''/site-links''"

definition site_suggestions_path :: "jsstring \<Rightarrow> jsstring \<Rightarrow> jsstring \<times> params" where
  "site_suggestions_path eid q = (''/events/'' @ encode_uri_component eid @ ''/site-suggestions'',
     if js_trim q \<noteq> [] then [(''q'', js_trim q)] else [])"

definition site_suggestions_near_path :: "coordinate_pair option \<Rightarrow> jsstring \<Rightarrow> jsstring \<times> params" where
  "site_suggestions_near_path point q = (''/sites/suggestions'',
     (case point of Some p \<Rightarrow> [(''lat'', js_to_string (lat p)), (''lng'', js_to_string (lng p))] | None \<Rightarrow> []) @
     (if js_trim q \<noteq> [] then [(''q'', js_trim q)] else []))"

section \<open>Days\<close>

text \<open>\<open>toISOString\<close> throws on a date that does not parse: \<open>None\<close>.\<close>

definition utc_day :: "(int \<Rightarrow> int) \<Rightarrow> jsstring \<Rightarrow> jsstring option" where
  "utc_day tz s = map_option (\<lambda>t. take 10 (to_iso_string t)) (date_parse tz s)"

definition today_utc :: "int \<Rightarrow> jsstring" where
  "today_utc now = take 10 (to_iso_string now)"

definition sites_as_of :: "jsstring \<Rightarrow> jsstring \<Rightarrow> jsstring option" where
  "sites_as_of event_to today = (if event_to \<noteq> [] \<and> event_to < today then Some event_to else None)"

definition format_distance :: "rat \<Rightarrow> jsstring" where
  "format_distance metres = (if metres < 1000 then js_to_string (of_int \<lfloor>metres + 1 / 2\<rfloor>) @ '' m''
     else to_fixed 1 (rounded (metres / 1000)) @ '' km'')"

definition is_site_linkable :: "event_status \<Rightarrow> bool" where
  "is_site_linkable s \<longleftrightarrow> s = Geolocated"

definition owns_site :: "site \<Rightarrow> jsstring option \<Rightarrow> bool" where
  "owns_site s viewer \<longleftrightarrow> (case viewer of Some v \<Rightarrow> v \<noteq> [] \<and> a_id (st_owner s) = v | None \<Rightarrow> False)"

section \<open>The links of an event\<close>

record draft_site_link =
  dl_site :: jsstring
  dl_effect :: "link_effect option"

datatype link_request = Unlink_site jsstring | Link_site jsstring link_effect

text \<open>\<open>saveSiteLinks\<close>: the requests it sends at once. \<open>was\<close> is a \<open>Map\<close>, where the last entry wins.\<close>

definition site_link_requests :: "draft_site_link list \<Rightarrow> draft_site_link list \<Rightarrow> link_request list" where
  "site_link_requests before after =
     (let was = map_of (rev (map (\<lambda>l. (dl_site l, dl_effect l)) before))
      in map (\<lambda>l. Unlink_site (dl_site l)) (filter (\<lambda>l. dl_site l \<notin> dl_site ` set after) before) @
         List.map_filter (\<lambda>l. case dl_effect l of None \<Rightarrow> None
           | Some e \<Rightarrow> if was (dl_site l) \<noteq> Some (Some e) then Some (Link_site (dl_site l) e) else None) after)"

text \<open>The server's side of the two routes: one link a site at most, with its effect.\<close>

fun take_link :: "link_request \<Rightarrow> (jsstring \<rightharpoonup> link_effect) \<Rightarrow> jsstring \<rightharpoonup> link_effect" where
  "take_link (Unlink_site s) m = m(s := None)"
| "take_link (Link_site s e) m = m(s \<mapsto> e)"

section \<open>Contours and sources\<close>

definition contour_key :: "site_contour \<Rightarrow> jsstring" where
  "contour_key c = ct_captured_at c @ '' '' @ ct_created_at c"

text \<open>\<open>loc\<close> is \<open>localeCompare\<close>.\<close>

definition contour_order :: "(jsstring \<Rightarrow> jsstring \<Rightarrow> int) \<Rightarrow> site_contour list \<Rightarrow> site_contour list" where
  "contour_order loc contours = sort_by (\<lambda>a b. loc (contour_key a) (contour_key b)) contours"

fun contour_walk :: "(int \<Rightarrow> int) \<Rightarrow> jsstring \<Rightarrow> site_contour option \<Rightarrow> site_contour list \<Rightarrow> site_contour option option" where
  "contour_walk tz day valid [] = Some valid"
| "contour_walk tz day valid (c # cs) = (case utc_day tz (ct_captured_at c) of
       None \<Rightarrow> None | Some d \<Rightarrow> contour_walk tz day (if d \<le> day then Some c else valid) cs)"

definition contour_on ::
    "(int \<Rightarrow> int) \<Rightarrow> (jsstring \<Rightarrow> jsstring \<Rightarrow> int) \<Rightarrow> site_contour list \<Rightarrow> jsstring \<Rightarrow> site_contour option option" where
  "contour_on tz loc contours day = contour_walk tz day None (contour_order loc contours)"

definition contour_before :: "(jsstring \<Rightarrow> jsstring \<Rightarrow> int) \<Rightarrow> site_contour list \<Rightarrow> site_contour \<Rightarrow> site_contour option" where
  "contour_before loc contours c =
     (let ordered = contour_order loc contours in case find_index (\<lambda>o'. ct_id o' = ct_id c) ordered of
        Some (Suc i) \<Rightarrow> Some (ordered ! i) | _ \<Rightarrow> None)"

definition contour_of_source :: "(jsstring \<Rightarrow> jsstring \<Rightarrow> int) \<Rightarrow> site_contour list \<Rightarrow> jsstring \<Rightarrow> site_contour option" where
  "contour_of_source loc contours source_id =
     (case filter (\<lambda>c. ct_source c = source_id) (contour_order loc contours) of [] \<Rightarrow> None | cs \<Rightarrow> Some (List.last cs))"

definition sort_sources :: "(jsstring \<Rightarrow> jsstring \<Rightarrow> int) \<Rightarrow> site_source list \<Rightarrow> site_source list" where
  "sort_sources loc sources = (let key = (\<lambda>s. or_else (s_captured_at s) (ss_created_at s))
     in sort_by (\<lambda>a b. loc (key b) (key a)) sources)"

text \<open>The comparator computes each key, so the sort of two events or more throws where a link's moment
  does not parse.\<close>

definition linked_day :: "(int \<Rightarrow> int) \<Rightarrow> site_event \<Rightarrow> jsstring option" where
  "linked_day tz e = (case le_date e of Some d \<Rightarrow> Some d | None \<Rightarrow> utc_day tz (le_linked_at e))"

definition sort_linked_events ::
    "(int \<Rightarrow> int) \<Rightarrow> (jsstring \<Rightarrow> jsstring \<Rightarrow> int) \<Rightarrow> site_event list \<Rightarrow> site_event list option" where
  "sort_linked_events tz loc events =
     (if length events < 2 then Some events
      else if list_ex (\<lambda>e. linked_day tz e = None) events then None
      else Some (sort_by (\<lambda>a b. loc (the (linked_day tz b)) (the (linked_day tz a))) events))"

definition latest_source :: "(jsstring \<Rightarrow> jsstring \<Rightarrow> int) \<Rightarrow> site_source list \<Rightarrow> site_source option" where
  "latest_source loc sources = (case sort_sources loc sources of [] \<Rightarrow> None | s # _ \<Rightarrow> Some s)"

definition zone_emphasis :: "link_effect option \<Rightarrow> link_effect option" where
  "zone_emphasis latest = (if latest = Some Damage \<or> latest = Some Destruction then latest else None)"

section \<open>A source for a site\<close>

definition new_site_source_draft :: "nat \<Rightarrow> source_draft \<times> nat" where
  "new_site_source_draft counter = (case new_source_draft counter of
       (d, counter) \<Rightarrow> (d\<lparr>d_level := Context, d_kind := Some Satellite\<rparr>, counter))"

definition site_source_missing :: "source_draft \<Rightarrow> jsstring \<Rightarrow> jsstring \<Rightarrow> jsstring list" where
  "site_source_missing draft note today =
     (if d_captured_at draft = [] then [''Capture date'']
      else if today < take 10 (d_captured_at draft) then [''A capture date that is not in the future''] else []) @
     (if draft_urls draft = [] then [''A link''] else []) @
     (if SITE_SOURCE_NOTE_MAX_LEN < length note then [''A note of at most '' @ nat_text SITE_SOURCE_NOTE_MAX_LEN @ '' characters''] else [])"

record site_source_create =
  sn_title :: jsstring
  sn_captured_at :: jsstring
  sn_links :: "source_create_link list"
  sn_upload_id :: "jsstring option"
  sn_media_id :: "jsstring option"
  sn_note :: "jsstring option"

definition site_source_payload :: "(int \<Rightarrow> int) \<Rightarrow> source_draft \<Rightarrow> jsstring \<Rightarrow> site_source_create" where
  "site_source_payload tz draft note = (let p = source_create_payload tz draft in
     \<lparr>sn_title = sc_title p, sn_captured_at = or_else (sc_captured_at p) [], sn_links = sc_links p,
      sn_upload_id = sc_upload_id p, sn_media_id = sc_media_id p, sn_note = blank_to_null (js_trim note)\<rparr>)"

definition site_source_from_event_source :: "source \<Rightarrow> site_source_create option" where
  "site_source_from_event_source s =
     (if s_kind s \<noteq> Satellite \<or> s_graphic s then None
      else (case (s_media s, s_captured_at s) of
        (Some m, Some at') \<Rightarrow> if at' = [] then None
          else Some \<lparr>sn_title = s_title s, sn_captured_at = at',
            sn_links = map (\<lambda>l. \<lparr>cl_url = l_url l, cl_posted_at = None, cl_snapshot = map_option al_url (l_archived l)\<rparr>) (s_links s),
            sn_upload_id = None, sn_media_id = Some (m_id m), sn_note = None\<rparr>
      | _ \<Rightarrow> None))"

section \<open>The history of a site\<close>

definition site_versioned :: "site \<Rightarrow> versioned_record" where
  "site_versioned s = \<lparr>vr_latest = st_version_no s, vr_first = 1, vr_label = (\<lambda>n. ''v'' @ int_text n),
     vr_href = (\<lambda>n. if n = st_version_no s then site_href (st_id s) else site_version_href (st_id s) n),
     vr_history_href = site_history_href (st_id s)\<rparr>"

definition site_version_view :: "site \<Rightarrow> site_version_row \<Rightarrow> site" where
  "site_version_view current row = current\<lparr>st_version_no := sv_no row, st_name := sv_name row, st_kind := sv_kind row,
     st_zone := sv_zone row, st_centroid := sv_centroid row, st_contour_id := sv_contour_id row,
     st_last_source := sv_last_source row, st_sources := sv_sources row, st_contours := sv_contours row,
     st_events := [], st_latest_effect := None\<rparr>"

definition site_changed_fields :: "site \<Rightarrow> site \<Rightarrow> jsstring list" where
  "site_changed_fields version previous =
     flag ''Name'' (st_name version \<noteq> st_name previous) @
     flag ''Kind'' (st_kind version \<noteq> st_kind previous) @
     flag ''Sources'' (\<not> same_set (map s_id (st_sources version)) (map s_id (st_sources previous))) @
     flag ''Contour'' (\<not> same_set (map ct_id (st_contours version)) (map ct_id (st_contours previous)))"

record site_version_entry =
  se_number :: int
  se_current :: bool
  se_view :: "site option"
  se_editor :: "author option"
  se_created_at :: "jsstring option"
  se_note :: "jsstring option"
  se_redacted :: bool
  se_changed :: "jsstring list option"

definition site_version ::
    "site \<Rightarrow> int \<Rightarrow> site_version_row option \<Rightarrow> site_version_row option \<Rightarrow> site option \<Rightarrow> site_version_entry" where
  "site_version current number own produced_by previous =
     (let view = (if number = st_version_no current then Some current else map_option (site_version_view current) own);
          first = (number = 1)
      in \<lparr>se_number = number, se_current = (number = st_version_no current), se_view = view,
          se_editor = (case produced_by of Some r \<Rightarrow> sv_edited_by r | None \<Rightarrow> if first then Some (st_owner current) else None),
          se_created_at = (case produced_by of Some r \<Rightarrow> Some (sv_created_at r)
            | None \<Rightarrow> if first then Some (st_created_at current) else None),
          se_note = Option.bind produced_by sv_note, se_redacted = False,
          se_changed = (case (view, previous) of (Some v, Some p) \<Rightarrow> Some (site_changed_fields v p) | _ \<Rightarrow> None)\<rparr>)"

definition site_versions :: "site \<Rightarrow> site_version_row list \<Rightarrow> bool \<Rightarrow> site_version_entry list" where
  "site_versions current rows has_more =
     map (\<lambda>st. site_version current (step_number st) (step_own st) (step_below st)
         (map_option (site_version_view current) (step_below st)))
       (version_steps sv_no (st_version_no current) 1 rows has_more)"

section \<open>Links settle whatever their order\<close>

fun request_site :: "link_request \<Rightarrow> jsstring" where
  "request_site (Unlink_site s) = s"
| "request_site (Link_site s e) = s"

fun request_effect :: "link_request \<Rightarrow> link_effect option" where
  "request_effect (Unlink_site s) = None"
| "request_effect (Link_site s e) = Some e"

lemma take_link_eq: "take_link r m = m(request_site r := request_effect r)"
  by (cases r) simp_all

lemma fold_links:
  "distinct (map request_site rs) \<Longrightarrow>
   fold take_link rs m s = (case map_of (map (\<lambda>r. (request_site r, request_effect r)) rs) s of Some e \<Rightarrow> e | None \<Rightarrow> m s)"
proof (induction rs arbitrary: m)
  case (Cons r rs)
  have "map_of (map (\<lambda>r. (request_site r, request_effect r)) rs) (request_site r) = None"
    using Cons.prems by (auto simp: map_of_eq_None_iff image_image)
  with Cons show ?case by (auto simp: take_link_eq)
qed simp

definition picked_links :: "draft_site_link list \<Rightarrow> bool" where
  "picked_links ls \<longleftrightarrow> distinct (map dl_site ls) \<and> list_all (\<lambda>l. dl_effect l \<noteq> None) ls"

definition links_of :: "draft_site_link list \<Rightarrow> jsstring \<rightharpoonup> link_effect" where
  "links_of ls = map_of (map (\<lambda>l. (dl_site l, the (dl_effect l))) ls)"

lemma links_of_eq: "distinct (map dl_site ls) \<Longrightarrow> l \<in> set ls \<Longrightarrow> links_of ls (dl_site l) = Some (the (dl_effect l))"
  unfolding links_of_def by (rule map_of_is_SomeI) (auto simp: comp_def)

lemma links_of_None: "links_of ls s = None \<longleftrightarrow> s \<notin> dl_site ` set ls"
  by (auto simp: links_of_def map_of_eq_None_iff image_image)

lemma was_eq:
  assumes "picked_links before"
  shows "map_of (rev (map (\<lambda>l. (dl_site l, dl_effect l)) before)) s = map_option Some (links_of before s)"
proof (cases "s \<in> dl_site ` set before")
  case True
  then obtain l where l: "l \<in> set before" "s = dl_site l" by auto
  have "map_of (rev (map (\<lambda>l. (dl_site l, dl_effect l)) before)) s = Some (dl_effect l)"
    using assms l by (intro map_of_is_SomeI) (auto simp: picked_links_def rev_map [symmetric] comp_def)
  with l assms links_of_eq [of before l] show ?thesis by (auto simp: picked_links_def list_all_iff)
next
  case False
  then show ?thesis using links_of_None [of before s] by (auto simp: map_of_eq_None_iff image_image)
qed

definition written_links :: "draft_site_link list \<Rightarrow> draft_site_link list \<Rightarrow> draft_site_link list" where
  "written_links before after = filter (\<lambda>l. links_of before (dl_site l) \<noteq> dl_effect l) after"

lemma requests_eq:
  assumes "picked_links before" "picked_links after"
  shows "site_link_requests before after =
    map (\<lambda>l. Unlink_site (dl_site l)) (filter (\<lambda>l. dl_site l \<notin> dl_site ` set after) before) @
    map (\<lambda>l. Link_site (dl_site l) (the (dl_effect l))) (written_links before after)"
proof -
  have eq: "List.map_filter (\<lambda>l. case dl_effect l of None \<Rightarrow> None
       | Some e \<Rightarrow> if map_option Some (links_of before (dl_site l)) \<noteq> Some (Some e) then Some (Link_site (dl_site l) e) else None) ls =
     map (\<lambda>l. Link_site (dl_site l) (the (dl_effect l))) (filter (\<lambda>l. links_of before (dl_site l) \<noteq> dl_effect l) ls)"
    if "list_all (\<lambda>l. dl_effect l \<noteq> None) ls" for ls
    using that by (induction ls) (auto simp: List.map_filter_simps)
  show ?thesis
    unfolding site_link_requests_def Let_def was_eq [OF assms(1)] written_links_def
    using assms(2) by (subst eq) (simp_all add: picked_links_def)
qed

lemma requests_distinct:
  assumes "picked_links before" "picked_links after"
  shows "distinct (map request_site (site_link_requests before after))"
  using assms by (auto simp: requests_eq comp_def picked_links_def distinct_map_filter written_links_def)

lemma requests_effect:
  assumes "picked_links before" "picked_links after"
  shows "fold take_link (site_link_requests before after) (links_of before) = links_of after"
proof
  fix s
  let ?rs = "site_link_requests before after" and ?pair = "\<lambda>r. (request_site r, request_effect r)"
  have d: "distinct (map fst (map ?pair ?rs))" using requests_distinct [OF assms] by (simp add: comp_def)
  have at_site: "fold take_link ?rs (links_of before) s = (case map_of (map ?pair ?rs) s of Some e \<Rightarrow> e | None \<Rightarrow> links_of before s)"
    by (rule fold_links [OF requests_distinct [OF assms]])
  have hit: "map_of (map ?pair ?rs) s = Some e" if "r \<in> set ?rs" "request_site r = s" "request_effect r = e" for r e
    using that by (intro map_of_is_SomeI [OF d]) force
  show "fold take_link ?rs (links_of before) s = links_of after s"
  proof (cases "s \<in> dl_site ` set after")
    case held: True
    then obtain l where l: "l \<in> set after" "s = dl_site l" by auto
    obtain e where e: "dl_effect l = Some e" using assms(2) l by (auto simp: picked_links_def list_all_iff)
    have target: "links_of after s = Some e" using links_of_eq [of after l] assms(2) l e by (simp add: picked_links_def)
    show ?thesis
    proof (cases "links_of before s = Some e")
      case True
      have "s \<notin> request_site ` set ?rs"
      proof
        assume "s \<in> request_site ` set ?rs"
        then obtain l' where "l' \<in> set (written_links before after)" "dl_site l' = s"
          using held unfolding requests_eq [OF assms] by auto
        then have "l' \<in> set after" "links_of before s \<noteq> dl_effect l'" "dl_site l' = dl_site l"
          using l by (auto simp: written_links_def)
        then have "l' = l" using l assms(2) by (auto simp: picked_links_def distinct_map inj_on_def)
        with \<open>links_of before s \<noteq> dl_effect l'\<close> True e show False by simp
      qed
      then have "map_of (map ?pair ?rs) s = None" by (auto simp: map_of_eq_None_iff image_image)
      with at_site True target show ?thesis by simp
    next
      case False
      have "Link_site s e \<in> set ?rs" unfolding requests_eq [OF assms] using l e False by (auto simp: written_links_def image_iff intro!: bexI [of _ l])
      from hit [OF this] at_site target show ?thesis by simp
    qed
  next
    case False
    then have target: "links_of after s = None" by (simp add: links_of_None)
    show ?thesis
    proof (cases "s \<in> dl_site ` set before")
      case True
      have "Unlink_site s \<in> set ?rs" unfolding requests_eq [OF assms] using True False by auto
      from hit [OF this] at_site target show ?thesis by simp
    next
      case outside: False
      then have "s \<notin> request_site ` set ?rs" unfolding requests_eq [OF assms] using False by (auto simp: written_links_def)
      then have "map_of (map ?pair ?rs) s = None" by (auto simp: map_of_eq_None_iff image_image)
      with at_site target outside links_of_None [of before s] show ?thesis by simp
    qed
  qed
qed

lemma fold_links_perm:
  assumes "distinct (map request_site rs)" "mset qs = mset rs"
  shows "fold take_link qs m = fold take_link rs m"
proof
  fix s
  have q: "distinct (map request_site qs)" using assms mset_map [of request_site] by (metis mset_eq_imp_distinct_iff)
  have "map_of (map (\<lambda>r. (request_site r, request_effect r)) qs) = map_of (map (\<lambda>r. (request_site r, request_effect r)) rs)"
    using assms q by (subst map_of_inject_set) (auto simp: comp_def dest: mset_eq_setD)
  then show "fold take_link qs m s = fold take_link rs m s" by (simp add: fold_links q assms(1))
qed

text \<open>
  C28. The links an event's form saves settle on what the form shows: in whatever order the server takes
  the requests sent at once, an event whose links were \<open>before\<close> ends with \<open>after\<close>, a changed effect
  rewritten and a link left out gone.
\<close>

theorem saved_links_settle:
  assumes "picked_links before" "picked_links after" "mset requests = mset (site_link_requests before after)"
  shows "fold take_link requests (links_of before) = links_of after"
  using fold_links_perm [OF requests_distinct [OF assms(1,2)] assms(3)] requests_effect [OF assms(1,2)] by simp

lemma saved_links_settle_witness:
  "fold take_link [Link_site ''b'' Damage, Unlink_site ''a'']
     (links_of [\<lparr>dl_site = ''a'', dl_effect = Some Damage\<rparr>, \<lparr>dl_site = ''c'', dl_effect = Some Activity\<rparr>]) =
   links_of [\<lparr>dl_site = ''c'', dl_effect = Some Activity\<rparr>, \<lparr>dl_site = ''b'', dl_effect = Some Damage\<rparr>]"
  by (rule saved_links_settle) (simp_all add: picked_links_def site_link_requests_def List.map_filter_simps)

section \<open>The contour valid on a day\<close>

definition captured_by :: "(int \<Rightarrow> int) \<Rightarrow> jsstring \<Rightarrow> site_contour \<Rightarrow> bool" where
  "captured_by tz day c \<longleftrightarrow> (case utc_day tz (ct_captured_at c) of Some d \<Rightarrow> d \<le> day | None \<Rightarrow> False)"

lemma contour_walk_last:
  "list_all (\<lambda>c. utc_day tz (ct_captured_at c) \<noteq> None) cs \<Longrightarrow>
   contour_walk tz day valid cs = Some (case filter (captured_by tz day) cs of [] \<Rightarrow> valid | xs \<Rightarrow> Some (List.last xs))"
  by (induction cs arbitrary: valid) (auto simp: captured_by_def split: option.splits list.splits)

lemma last_of_sorted: "sorted (map f xs) \<Longrightarrow> x \<in> set xs \<Longrightarrow> f x \<le> f (List.last xs)"
  by (induction xs rule: rev_induct) (auto simp: sorted_append)

text \<open>The rule: of the contours captured by the day, the one of the latest key, and none where there is none.\<close>

definition valid_contour :: "(int \<Rightarrow> int) \<Rightarrow> (jsstring \<Rightarrow> 'k::linorder) \<Rightarrow> site_contour list \<Rightarrow> jsstring \<Rightarrow> site_contour option \<Rightarrow> bool" where
  "valid_contour tz key contours day valid \<longleftrightarrow>
    (valid = None \<longleftrightarrow> {c \<in> set contours. captured_by tz day c} = {}) \<and>
    set_option valid \<subseteq> {c \<in> set contours. captured_by tz day c \<and>
      {d \<in> set contours. captured_by tz day d \<and> key (contour_key c) < key (contour_key d)} = {}}"

text \<open>
  The contour a site shows for a day is the latest one captured by it: one of the site's contours, not
  captured after the day, with no later one captured by the day; and none only where none was.
\<close>

theorem contour_on_is_the_latest:
  assumes "key_comparator key loc" and "list_all (\<lambda>c. utc_day tz (ct_captured_at c) \<noteq> None) contours"
  shows "\<exists>valid. contour_on tz loc contours day = Some valid \<and> valid_contour tz key contours day valid"
proof -
  have cmp: "loc a b \<le> 0 \<longleftrightarrow> key a \<le> key b" for a b by (rule key_comparator.cmp_key [OF assms(1)])
  have "key_comparator (\<lambda>c. key (contour_key c)) (\<lambda>a b. loc (contour_key a) (contour_key b))"
    by unfold_locales (simp add: cmp)
  from key_comparator.sort_by_sort_key [OF this]
  have ordered: "contour_order loc contours = sort_key (\<lambda>c. key (contour_key c)) contours" by (simp add: contour_order_def)
  define taken where "taken = filter (captured_by tz day) (contour_order loc contours)"
  have members: "set taken = {c \<in> set contours. captured_by tz day c}" by (auto simp: taken_def ordered)
  have "sorted (map (\<lambda>c. key (contour_key c)) taken)" unfolding taken_def ordered by (intro sorted_filter) simp
  then have latest: "key (contour_key c) \<le> key (contour_key (List.last taken))" if "c \<in> set taken" for c
    using last_of_sorted [of "\<lambda>c. key (contour_key c)" taken c] that by simp
  have walk: "contour_on tz loc contours day = Some (case taken of [] \<Rightarrow> None | xs \<Rightarrow> Some (List.last xs))"
    unfolding contour_on_def taken_def using assms(2) by (intro contour_walk_last) (simp add: ordered list_all_iff)
  show ?thesis
  proof (cases taken)
    case Nil
    then show ?thesis using walk members by (auto simp: valid_contour_def)
  next
    case (Cons c cs)
    then have "List.last taken \<in> set taken" by simp
    with walk members latest Cons show ?thesis by (auto simp: valid_contour_def not_less)
  qed
qed

definition example_contour :: "jsstring \<Rightarrow> jsstring \<Rightarrow> site_contour" where
  "example_contour i t = \<lparr>ct_id = i, ct_source = i, ct_captured_at = t, ct_created_at = ''2024-06-01T00:00:00Z'', ct_author = None,
     ct_zone = \<lparr>coordinates = []\<rparr>\<rparr>"

definition two_contours :: "site_contour list" where
  "two_contours = [example_contour ''b'' (to_iso_string 1714608000000), example_contour ''a'' (to_iso_string 1704189600000)]"

lemma contour_on_is_the_latest_witness:
  "\<exists>valid. contour_on id (compare_on id) two_contours ''2024-03-01'' = Some valid \<and> valid_contour id id two_contours ''2024-03-01'' valid"
proof (rule contour_on_is_the_latest)
  show "key_comparator id (compare_on id :: jsstring \<Rightarrow> jsstring \<Rightarrow> int)" by unfold_locales (auto simp: compare_on_def)
  have "four_digit_year 1714608000000" "four_digit_year 1704189600000" by code_simp+
  then show "list_all (\<lambda>c. utc_day id (ct_captured_at c) \<noteq> None) two_contours"
    by (simp add: two_contours_def example_contour_def utc_day_def date_parse_iso)
qed

section \<open>A source the form lets through\<close>

lemma date_parse_Nil: "date_parse tz [] = None"
  by (simp add: date_parse_def take_date_def take_year_def eval_nat_numeral)

lemma instant_not_Nil: "input \<noteq> [] \<Longrightarrow> \<exists>t. instant tz input stored = Some t \<and> t \<noteq> []"
  by (auto simp: instant_def to_datetime_local_utc_def blank_to_null_def date_parse_Nil split: option.splits)

text \<open>
  A source the site form finds nothing missing in is one the API's rule takes: a capture moment, at
  least one link, and a note within its cap.
\<close>

theorem unmissing_source_is_complete:
  assumes "site_source_missing draft remark today = []"
  shows "sn_captured_at (site_source_payload tz draft remark) \<noteq> [] \<and> sn_links (site_source_payload tz draft remark) \<noteq> [] \<and>
    list_all (\<lambda>n. n \<noteq> [] \<and> length n \<le> SITE_SOURCE_NOTE_MAX_LEN) (case sn_note (site_source_payload tz draft remark) of Some n \<Rightarrow> [n] | None \<Rightarrow> [])"
proof -
  have parts: "d_captured_at draft \<noteq> []" "draft_urls draft \<noteq> []" "length remark \<le> SITE_SOURCE_NOTE_MAX_LEN"
    using assms by (auto simp: site_source_missing_def split: if_splits)
  obtain t where "instant tz (d_captured_at draft) (d_stored_captured_at draft) = Some t" "t \<noteq> []"
    using instant_not_Nil [OF parts(1)] by blast
  moreover have "sc_links (source_create_payload tz draft) \<noteq> []" using posted_urls_are_counted_urls [of tz draft] parts(2) by auto
  ultimately show ?thesis
    using parts(3) length_js_trim [of remark]
    by (simp add: site_source_payload_def Let_def source_create_payload_def file_reference_def blank_to_null_def or_else_def
        split: prod.split)
qed

definition satellite_draft :: source_draft where
  "satellite_draft = (fst (new_site_source_draft 0))\<lparr>d_captured_at := ''2024-05-02T00:00'',
     d_links := [\<lparr>ld_url = ''https://a.b'', ld_posted_at = [], ld_snapshot = [], ld_stored = None\<rparr>]\<rparr>"

lemma unmissing_source_is_complete_witness:
  "sn_captured_at (site_source_payload id satellite_draft ''north'') \<noteq> []"
proof -
  have "js_trim ''https://a.b'' = ''https://a.b''" by code_simp
  then have "site_source_missing satellite_draft ''north'' ''2024-06-01'' = []"
    by (simp add: site_source_missing_def satellite_draft_def draft_urls_def SITE_SOURCE_NOTE_MAX_LEN_def)
  from unmissing_source_is_complete [OF this] show ?thesis by blast
qed

section \<open>The history\<close>

lemma site_version_fields [simp]:
  "se_number (site_version current n own below previous) = n"
  "se_editor (site_version current n own (Some r) previous) = sv_edited_by r"
  "se_created_at (site_version current n own (Some r) previous) = Some (sv_created_at r)"
  "se_note (site_version current n own (Some r) previous) = sv_note r"
  by (simp_all add: site_version_def Let_def)

text \<open>A whole history lists each version once, newest first.\<close>

lemma site_history_numbers:
  assumes "filed_rows sv_no 1 (st_version_no current) rows" "1 \<le> st_version_no current"
  shows "map se_number (site_versions current rows False) = map (\<lambda>i. st_version_no current - int i) [0 ..< nat (st_version_no current)]"
  using walk_filed [OF assms(1) order_refl assms(2)] by (simp add: site_versions_def version_steps_def oldest_number_def comp_def)

lemma same_site_unchanged: "site_changed_fields s s = []"
  by (simp add: site_changed_fields_def flag_def same_set_mset)

end
