(* ===== verification/Spec2Isabelle.thy ===== *)
theory Spec2Isabelle
  imports Api_Errors Approvals Archive_Import Basemap Collection_Forms Collections Contour_Editor Coordinates
    Cursor_List Event_Forms Event_History Event_Types Event_Write Filter_Model Format Js_Date
    Js_Float Js_Json Js_Number Js_Parse Js_Prelude Js_Regex Js_Stringify Js_Text
    Map_Bounds Map_Layers Map_Stacks Navigation Notices Organizations Outbound Page_Url
    Preferences Private_Address Profile_Edit Profiles Proof_Html Proof_Images Proxy_Wall Request_Hooks
    Search_Params Search_Selection Session_State Share_Cards Site_Zone Sites Snapshots Source_Editors
    Sources Stored_Json Union_Find Versions Viewport
begin

text \<open>
  Verification of the core logic of the Vidit frontend (\<open>src/frontend/src\<close>), a platform where analysts
  publish and review geolocated events. The backend, the database and the rendering libraries are
  outside; what is here is what the TypeScript computes, decides and keeps.

  \<^bold>\<open>How the program is put together.\<close> The edge proxy decides which pages a signed-out reader may see.
  A page reads the auth provider, keeps its filters in the URL, reads rows through the request hooks
  and lists, and writes them through forms that check an evidence floor, post multipart bodies and file
  versions. Proof bodies are stored HTML that is rendered through an allowlist. Preferences, drafts of
  navigation and map settings live in the browser's storage.

  \<^bold>\<open>The language.\<close>
  \<^item> \<open>Js_Prelude\<close>, \<open>Js_Text\<close>: strings, arrays, stable sorts, \<open>URLSearchParams\<close>. A string is a list of UTF-16
    units below 256.
  \<^item> \<open>Js_Regex\<close>: regular expressions with the first match of a backtracking matcher.
  \<^item> \<open>Js_Number\<close>: IEEE doubles as rationals rounded to 53 bits, their parsing and shortest printing.
  \<^item> \<open>Js_Date\<close>: ISO dates, their parsing and printing over the civil calendar.
  \<^item> \<open>Js_Json\<close>, \<open>Js_Stringify\<close>, \<open>Js_Parse\<close>: JSON values, percent encoding, \<open>JSON.stringify\<close> (injective) and
    \<open>JSON.parse\<close> (its inverse on every value whose numbers are doubles).

  \<^bold>\<open>The components.\<close> Each theory names the files it models in its first block.
  \<^item> \<open>Filter_Model\<close>, \<open>Search_Params\<close>, \<open>Page_Url\<close>: the filter state of a surface (\<open>components/filters/model.ts\<close>), the
    query strings of the search, feed and requests pages (\<open>lib/search.ts\<close>, \<open>lib/feed.ts\<close>), and the two effects that
    keep a page and its URL in step. The locale \<open>page_url\<close> states what the effects need of a format; the three
    pages interpret it.
  \<^item> \<open>Event_Types\<close>, \<open>Event_History\<close>, \<open>Event_Forms\<close>, \<open>Versions\<close>: the rows of the API, the history of an event and what
    each version changed, the form from open to post with its evidence floor (\<open>lib/events.ts\<close>, \<open>lib/versions.ts\<close>).
  \<^item> \<open>Sources\<close>, \<open>Snapshots\<close>: the sources of an event, their drafts and the archived copies of their links.
  \<^item> \<open>Coordinates\<close>, \<open>Format\<close>: pasted and copied coordinates, dates and routes.
  \<^item> \<open>Proof_Html\<close>, \<open>Proof_Images\<close>: what a stored proof renders to, the names and frames of its images.
  \<^item> \<open>Archive_Import\<close>: an export of an archive read, stripped and uploaded, and the wait for its import.
  \<^item> \<open>Api_Errors\<close>, \<open>Request_Hooks\<close>, \<open>Cursor_List\<close>: the request path and what a failed one says; one resource, one
    write, one confirmed click; the pages of a list.
  \<^item> \<open>Session_State\<close>, \<open>Preferences\<close>, \<open>Proxy_Wall\<close>, \<open>Navigation\<close>, \<open>Outbound\<close>: who is signed in, the display preferences
    and whose they are, the wall in front of the pages, the back stack, the links that leave.
  \<^item> \<open>Stored_Json\<close>: one JSON value in the local storage and its users. The locale \<open>stored_json\<close> states what a user
    relies on; the open groups, the open panels and the basemap settings interpret it.
  \<^item> \<open>Js_Float\<close>, \<open>Viewport\<close>, \<open>Map_Bounds\<close>: numbers with \<open>NaN\<close> and infinities, the viewport of the map and its request,
    whose box is shown to cover what was reported (\<open>lib/viewport.ts\<close>), the box that frames a list of points (\<open>components/map/bounds.ts\<close>).
  \<^item> \<open>Union_Find\<close>, \<open>Map_Stacks\<close>: the stacks of co-located points (\<open>components/map/stack.ts\<close>), shown to be connected
    components; the walk to a root is a \<open>partial_function\<close> and shown to return.
  \<^item> \<open>Site_Zone\<close>, \<open>Contour_Editor\<close>: the zone of a site, when its contour is simple (\<open>lib/siteZone.ts\<close>), and the contour
    editor as a step relation over its history, toolbar and pointer handlers.
  \<^item> \<open>Collections\<close>, \<open>Search_Selection\<close>, \<open>Collection_Forms\<close>: the bounded read of a collection (a \<open>partial_function\<close>, shown to
    return), its page, the search page's selection and its handoff through the session storage, and every write of a
    collection (\<open>lib/collections.ts\<close>, \<open>components/collections\<close>, \<open>app/collections\<close>).
  \<^item> \<open>Sites\<close>: \<open>lib/sites.ts\<close>, with the rule of the contour valid on a day and the order-free save of an event's links.
  \<^item> \<open>Private_Address\<close>, \<open>Share_Cards\<close>: the address guard of the share cards against the address ranges themselves, with the
    guarded lookup, the capped read and the picture fetch (\<open>lib/og.ts\<close>, \<open>app/_og\<close>).
  \<^item> \<open>Map_Layers\<close>, \<open>Basemap\<close>: the order of the map's layers under the two effects that keep it, the options of a Vidit style,
    the overlays carried across a basemap swap, and the self-hosted files (\<open>components/map/basemap.ts\<close>, \<open>mapAssets.ts\<close>).
  \<^item> \<open>Organizations\<close>, \<open>Approvals\<close>, \<open>Notices\<close>, \<open>Profiles\<close>: the calls of the organization, console and account pages, what a reader
    may approve, the wording and reading of notifications, profile links, picture renditions and conflicts (\<open>lib\<close>).
  \<^item> \<open>Source_Editors\<close>: the editors of an event's sources with their uploads, imports and copies, as one step relation over
    every interleaving of edits and late answers (\<open>components/sources\<close>).
  \<^item> \<open>Event_Write\<close>: the click of a write of an event form, through its gate, its confirm or its panel, to the answer
    (\<open>useEventWrite\<close>, \<open>usePublishAction\<close>); what a publish that passes posts.
  \<^item> \<open>Profile_Edit\<close>: the edit mode of a profile, its staged picture and what a save does with it, the
    answer of its calls and the rereading of the session being two steps (\<open>useProfileEdit\<close>).
  \<^bold>\<open>How state is modelled.\<close> A React component or hook is a record of its state, refs and requests in
  flight; an event (a render with new props, an answer, a timer, a click) is a step followed by the
  render it causes. Asynchronous code is cut at its awaits: what runs before one is one step, what
  runs after it another, so the runs the theorems range over are all interleavings. A thrown value is
  an error of a sum, a promise that never settles is a step that never comes.

  \<^bold>\<open>Fuel and bounds.\<close> \<open>JSON.parse\<close> runs with the length of its text as fuel, which \<open>json_parse_stringify\<close> shows to be
  enough; the import poll with a bound its termination theorem computes; the other loops are
  structural or have measures. The box of a map request is compared with the viewport reported within a million degrees
  of the meridian, where the rounding of the shift by whole turns is bounded.

  \<^bold>\<open>Parameters.\<close> The URL and HTML parsers, the decoder of cookies, the zip writer, the time zone, the locale's
  month names and every server answer are arguments. The hypotheses a property states on them are the
  documented behaviour it uses, and its witness runs it on a concrete one.

  \<^bold>\<open>Not modelled.\<close> The markup and styling of the components, the map engine and its styles, the Tiptap editor, the
  browser's decoding of images, the generated \<open>api-types.ts\<close> beyond the schemas read here, and the
  Python backend. \<open>PROJECT.json\<close> lists each part with its reason.
\<close>

end
